(* ===== verification/Prelude.thy ===== *)
theory Prelude
  imports Main "HOL-Library.Word"
begin

text \<open>
  Shared vocabulary of the development: the machine integers of the Rust sources, the
  result type of fallible operations, little-endian byte strings, byte-addressed host
  memory, and the generic lemmas on words, lists and bits that the component theories use.

  Integers. A Rust \<open>u8\<close>, \<open>u16\<close>, \<open>u32\<close> or \<open>u64\<close> is a word of that width. The
  release profile of the workspace (src/Cargo.toml) leaves overflow checks off, so \<open>+\<close>,
  \<open>-\<close> and \<open>*\<close> on them wrap, as they do on words; the theorems say where no wrap-around
  takes place. \<open>checked_add\<close> and \<open>checked_sub\<close> return an option, as in Rust.
\<close>

unbundle bit_operations_syntax

type_synonym u8 = "8 word"
type_synonym u16 = "16 word"
type_synonym u32 = "32 word"
type_synonym u64 = "64 word"
type_synonym i32 = "32 word"

section \<open>Lemma collections\<close>

named_theorems unat_simps \<open>moves comparisons and arithmetic of words to naturals\<close>
named_theorems frame_simps \<open>what an operation leaves unchanged\<close>

section \<open>Checked arithmetic of the standard library\<close>

definition checked_add :: "'a::len word \<Rightarrow> 'a word \<Rightarrow> 'a word option" where
  "checked_add a b = (if unat a + unat b < 2 ^ LENGTH('a) then Some (a + b) else None)"

definition checked_sub :: "'a::len word \<Rightarrow> 'a word \<Rightarrow> 'a word option" where
  "checked_sub a b = (if b \<le> a then Some (a - b) else None)"

definition checked_div :: "'a::len word \<Rightarrow> 'a word \<Rightarrow> 'a word option" where
  "checked_div a b = (if b = 0 then None else Some (a div b))"

lemma unat_add_eq [unat_simps]:
  fixes a b :: "'a::len word"
  shows "unat a + unat b < 2 ^ LENGTH('a) \<Longrightarrow> unat (a + b) = unat a + unat b"
  by (simp add: unat_word_ariths)

lemma unat_sub_eq [unat_simps]:
  fixes a b :: "'a::len word"
  shows "unat b \<le> unat a \<Longrightarrow> unat (a - b) = unat a - unat b"
  by (simp add: unat_sub word_le_nat_alt)

lemma checked_add_Some:
  fixes a b :: "'a::len word"
  shows "checked_add a b = Some c \<longleftrightarrow> unat a + unat b < 2 ^ LENGTH('a) \<and> c = a + b"
  by (auto simp: checked_add_def)

lemma checked_add_None:
  fixes a b :: "'a::len word"
  shows "checked_add a b = None \<longleftrightarrow> 2 ^ LENGTH('a) \<le> unat a + unat b"
  by (auto simp: checked_add_def)

lemma unat_checked_add:
  "checked_add a b = Some c \<Longrightarrow> unat c = unat a + unat b"
  by (auto simp: checked_add_Some unat_add_eq)

lemma checked_sub_Some:
  "checked_sub a b = Some c \<longleftrightarrow> unat b \<le> unat a \<and> c = a - b"
  by (auto simp: checked_sub_def word_le_nat_alt)

lemma unat_div_eq [unat_simps]: "unat (a div b) = unat a div unat b"
  by (rule unat_div)

lemma unat_mod_eq [unat_simps]: "unat (a mod b) = unat a mod unat b"
  by (rule unat_mod)

lemma word_eq_unat: "a = b \<longleftrightarrow> unat a = unat b"
  by (rule word_unat_eq_iff)

lemma unat_lt_64 [simp]: "unat (a :: u64) < 18446744073709551616"
  using unsigned_less [of a, where 'a = nat] by simp

lemma word_ge_min [unat_simps]: "unat (min a b) = min (unat a) (unat b)"
  by (simp add: min_def word_le_nat_alt)

lemma word_ge_max [unat_simps]: "unat (max a b) = max (unat a) (unat b)"
  by (simp add: max_def word_le_nat_alt)

lemmas word_order_unat = word_le_nat_alt word_less_nat_alt

section \<open>Results\<close>

text \<open>
  A Rust panic ends the process (both profiles of src/Cargo.toml set \<open>panic = "abort"\<close>).
  A function that can panic returns \<open>Inl\<close> of the cause.
\<close>

datatype panic = DivByZero | IndexOutOfRange | UnwrapNone | AssertFailed

text \<open>
  Shifts of the release profile: the shift amount is reduced modulo the width.
\<close>

definition shl :: "'a::len word \<Rightarrow> nat \<Rightarrow> 'a word" where
  "shl w n = push_bit (n mod LENGTH('a)) w"

definition shr :: "'a::len word \<Rightarrow> nat \<Rightarrow> 'a word" where
  "shr w n = drop_bit (n mod LENGTH('a)) w"

text \<open>
  A fallible operation returns \<open>Inl e\<close> or \<open>Inr x\<close>. One that also changes state returns
  the result together with the state it leaves, on the error path too: what Rust wrote
  before a \<open>?\<close> returned stays written.
\<close>

definition sm_bind ::
    "('s \<Rightarrow> ('e + 'a) \<times> 's) \<Rightarrow> ('a \<Rightarrow> 's \<Rightarrow> ('e + 'b) \<times> 's) \<Rightarrow> 's \<Rightarrow> ('e + 'b) \<times> 's" where
  "sm_bind m f s = (case m s of (Inl e, s') \<Rightarrow> (Inl e, s') | (Inr a, s') \<Rightarrow> f a s')"

text \<open>\<open>Iterator::try_for_each\<close>: stop at the first error.\<close>

fun try_for_each :: "('x \<Rightarrow> 's \<Rightarrow> ('e + unit) \<times> 's) \<Rightarrow> 'x list \<Rightarrow> 's \<Rightarrow> ('e + unit) \<times> 's" where
  "try_for_each f [] s = (Inr (), s)"
| "try_for_each f (x # xs) s =
     (case f x s of (Inl e, s') \<Rightarrow> (Inl e, s') | (Inr _, s') \<Rightarrow> try_for_each f xs s')"

lemma try_for_each_append:
  "try_for_each f (xs @ ys) s =
     (case try_for_each f xs s of (Inl e, s') \<Rightarrow> (Inl e, s') | (Inr _, s') \<Rightarrow> try_for_each f ys s')"
  by (induction xs arbitrary: s) (auto split: prod.splits sum.splits)

lemma try_for_each_inv:
  assumes "\<And>x s. x \<in> set xs \<Longrightarrow> P s \<Longrightarrow> P (snd (f x s))" and "P s"
  shows "P (snd (try_for_each f xs s))"
  using assms
proof (induction xs arbitrary: s)
  case Nil
  then show ?case by simp
next
  case (Cons x xs)
  obtain r s' where f: "f x s = (r, s')" by (cases "f x s")
  with Cons.prems have "P s'" by (metis list.set_intros(1) snd_conv)
  with Cons f show ?case by (cases r) auto
qed

text \<open>A step that may fail or panic, without a state to keep, followed by another.\<close>

definition and_then :: "'e + 'a \<Rightarrow> ('a \<Rightarrow> 'e + 'b) \<Rightarrow> 'e + 'b" where
  "and_then r f = (case r of Inl e \<Rightarrow> Inl e | Inr x \<Rightarrow> f x)"

lemma and_then_simps [simp]: "and_then (Inl e) f = Inl e" "and_then (Inr x) f = f x"
  by (simp_all add: and_then_def)

lemma and_then_Inr: "and_then r f = Inr y \<longleftrightarrow> (\<exists>x. r = Inr x \<and> f x = Inr y)"
  by (cases r) auto

text \<open>A \<open>for\<close> loop whose body may fail.\<close>

fun for_each :: "('a \<Rightarrow> 's \<Rightarrow> 'e + 's) \<Rightarrow> 'a list \<Rightarrow> 's \<Rightarrow> 'e + 's" where
  "for_each f [] s = Inr s"
| "for_each f (x # xs) s = and_then (f x s) (for_each f xs)"

lemma for_each_append: "for_each f (xs @ ys) s = and_then (for_each f xs s) (for_each f ys)"
  by (induction xs arbitrary: s) (auto simp: and_then_def split: sum.split)

section \<open>Little-endian byte strings\<close>

definition to_le :: "nat \<Rightarrow> 'a::len word \<Rightarrow> u8 list" where
  "to_le n w = map (\<lambda>i. ucast (drop_bit (8 * i) w)) [0..<n]"

fun from_le :: "u8 list \<Rightarrow> 'a::len word" where
  "from_le [] = 0"
| "from_le (b # bs) = ucast b OR push_bit 8 (from_le bs)"

lemma length_to_le [simp]: "length (to_le n w) = n"
  by (simp add: to_le_def)

lemma bit_from_le:
  "bit (from_le bs :: 'a::len word) k \<longleftrightarrow>
     k < LENGTH('a) \<and> k div 8 < length bs \<and> bit (bs ! (k div 8)) (k mod 8)"
proof (induction bs arbitrary: k)
  case Nil
  then show ?case by simp
next
  case (Cons b bs)
  show ?case
  proof (cases "k < 8")
    case True
    then show ?thesis by (auto simp: bit_simps)
  next
    case False
    then have k: "k div 8 = Suc ((k - 8) div 8)" "k mod 8 = (k - 8) mod 8"
      using le_div_geq [of 8 k] le_mod_geq [of 8 k] by auto
    have b: "\<not> bit b k" using False by (auto dest: bit_imp_le_length)
    show ?thesis
      using False b k Cons.IH [of "k - 8"] by (auto simp: bit_simps)
  qed
qed

lemma bit_to_le:
  assumes "i < n"
  shows "bit (to_le n w ! i) j \<longleftrightarrow> j < 8 \<and> bit w (8 * i + j)"
  using assms by (auto simp: to_le_def bit_simps dest: bit_imp_le_length)

lemma from_le_to_le:
  "from_le (to_le n w) = (take_bit (8 * n) w :: 'a::len word)"
proof (rule bit_eqI)
  fix k assume "possible_bit TYPE('a word) k"
  then have k: "k < LENGTH('a)" by simp
  have d: "8 * (k div 8) + k mod 8 = k" by simp
  show "bit (from_le (to_le n w) :: 'a word) k = bit (take_bit (8 * n) w) k"
  proof (cases "k div 8 < n")
    case True
    then have "bit (to_le n w ! (k div 8)) (k mod 8) = bit w k"
      using bit_to_le [OF True, of w "k mod 8"] d by simp
    moreover from True have "k < 8 * n" by linarith
    ultimately show ?thesis using True k by (simp add: bit_from_le bit_simps)
  next
    case False
    then have "\<not> k < 8 * n" by linarith
    with False show ?thesis by (simp add: bit_from_le bit_simps)
  qed
qed

lemma from_le_to_le_full:
  assumes "LENGTH('a) \<le> 8 * n"
  shows "from_le (to_le n w) = (w :: 'a::len word)"
proof -
  have "take_bit (8 * n) w = w"
    using assms by (auto intro!: bit_eqI simp: bit_simps dest: bit_imp_le_length)
  then show ?thesis by (simp add: from_le_to_le)
qed

lemma to_le_from_le:
  assumes "8 * length bs \<le> LENGTH('a::len)"
  shows "to_le (length bs) (from_le bs :: 'a word) = bs"
proof (rule nth_equalityI)
  show "length (to_le (length bs) (from_le bs :: 'a word)) = length bs" by simp
next
  fix i assume "i < length (to_le (length bs) (from_le bs :: 'a word))"
  then have i: "i < length bs" by simp
  show "to_le (length bs) (from_le bs :: 'a word) ! i = bs ! i"
  proof (rule bit_eqI)
    fix j assume "possible_bit TYPE(u8) j"
    then have j: "j < 8" by simp
    with i assms have "8 * i + j < LENGTH('a)" by linarith
    with i j show "bit (to_le (length bs) (from_le bs :: 'a word) ! i) j = bit (bs ! i) j"
      by (simp add: bit_to_le bit_from_le)
  qed
qed

section \<open>Host memory\<close>

text \<open>
  The process's memory as the code reaches it through raw pointers: a byte at every
  host address. \<open>load\<close> and \<open>store\<close> are \<open>slice::from_raw_parts\<close> followed by a copy.
\<close>

type_synonym memory = "u64 \<Rightarrow> u8"

definition load :: "memory \<Rightarrow> u64 \<Rightarrow> nat \<Rightarrow> u8 list" where
  "load m a n = map (\<lambda>i. m (a + of_nat i)) [0..<n]"

definition store :: "memory \<Rightarrow> u64 \<Rightarrow> u8 list \<Rightarrow> memory" where
  "store m a bs = (\<lambda>x. if unat (x - a) < length bs then bs ! unat (x - a) else m x)"

lemma length_load [simp]: "length (load m a n) = n"
  by (simp add: load_def)

lemma nth_load [simp]: "i < n \<Longrightarrow> load m a n ! i = m (a + of_nat i)"
  by (simp add: load_def)

lemma load_store_same:
  assumes "length bs \<le> 2 ^ 64"
  shows "load (store m a bs) a (length bs) = bs"
proof (rule nth_equalityI)
  fix i assume "i < length (load (store m a bs) a (length bs))"
  with assms have i: "i < length bs" "i < 2 ^ 64" by auto
  then have "unat (a + of_nat i - a) = i"
    by (simp add: unat_of_nat take_bit_nat_eq_self)
  with i show "load (store m a bs) a (length bs) ! i = bs ! i" by (simp add: store_def)
qed simp

lemma store_other: "length bs \<le> unat (x - a) \<Longrightarrow> store m a bs x = m x"
  by (simp add: store_def)

lemma load_cong:
  assumes "\<And>i. i < n \<Longrightarrow> m (a + of_nat i) = m' (a + of_nat i)"
  shows "load m a n = load m' a n"
  using assms by (auto simp: load_def)

lemma load_append: "load m a (n + k) = load m a n @ load m (a + of_nat n) k"
  by (rule nth_equalityI) (auto simp: nth_append algebra_simps)

text \<open>Numbers and powers below the bound of 64 bits.\<close>

lemma unat_nat64: "k < 2 ^ 64 \<Longrightarrow> unat (of_nat k :: u64) = k"
  by (simp add: unat_of_nat take_bit_nat_eq_self)

lemma unat_pow2: "n < 64 \<Longrightarrow> unat (2 ^ n :: u64) = 2 ^ n"
proof -
  assume "n < 64"
  then have "(2 :: nat) ^ n < 2 ^ 64" by (intro power_strict_increasing) simp_all
  then have "unat (of_nat (2 ^ n) :: u64) = 2 ^ n" by (simp add: unat_of_nat take_bit_nat_eq_self del: of_nat_power)
  then show ?thesis by simp
qed

lemma unat_shr: "k < 64 \<Longrightarrow> unat (shr g k :: u64) = unat g div 2 ^ k"
  using unat_lt_64 [of g] by (simp add: shr_def unsigned_drop_bit_eq drop_bit_nat_def take_bit_nat_eq_self)

end
