(* ===== verification/NumOps.thy ===== *)
theory NumOps
  imports Prelude
begin

text \<open>
  util/src/num_ops.rs and util/src/checksum.rs: alignment, 32-bit halves of 64-bit
  registers, bit fields, little-endian register accesses of variable width, number parsing
  and range overlap. Every device model of StratoVirt goes through these functions.
\<close>

section \<open>Alignment\<close>

definition round_up :: "u64 \<Rightarrow> u64 \<Rightarrow> panic + u64 option" where
  "round_up origin align =
     (if align = 0 then Inl DivByZero
      else Inr (let diff = origin mod align in
                if diff = 0 then Some origin else checked_add origin (align - diff)))"

definition round_down :: "u64 \<Rightarrow> u64 \<Rightarrow> panic + u64 option" where
  "round_down origin align =
     (if align = 0 then Inl DivByZero
      else Inr (let diff = origin mod align in
                if diff = 0 then Some origin else checked_sub origin diff))"

definition div_round_up :: "u64 \<Rightarrow> u64 \<Rightarrow> u64 option" where
  "div_round_up dividend divisor =
     (case checked_div dividend divisor of
        Some res \<Rightarrow> (if dividend mod divisor = 0 then Some res else Some (res + 1))
      | None \<Rightarrow> None)"

section \<open>Halves of a 64-bit value\<close>

definition read_u32 :: "u64 \<Rightarrow> u32 \<Rightarrow> u32" where
  "read_u32 v page =
     (if page = 0 then ucast v else if page = 1 then ucast (drop_bit 32 v) else 0)"

definition write_u32 :: "u32 \<Rightarrow> u32 \<Rightarrow> u64" where
  "write_u32 v page =
     (if page = 0 then ucast v else if page = 1 then push_bit 32 (ucast v) else 0)"

definition write_u64_low :: "u64 \<Rightarrow> u32 \<Rightarrow> u64" where
  "write_u64_low origin v = (origin AND 0xFFFFFFFF00000000) OR ucast v"

definition write_u64_high :: "u64 \<Rightarrow> u32 \<Rightarrow> u64" where
  "write_u64_high origin v = push_bit 32 (ucast v) OR (origin AND 0x00000000FFFFFFFF)"

section \<open>Bit fields\<close>

definition extract_u32 :: "u32 \<Rightarrow> u32 \<Rightarrow> u32 \<Rightarrow> u32 option" where
  "extract_u32 v start len =
     (if len > 32 - start then None
      else Some (shr v (unat start) AND shr (NOT 0) (unat (32 - len))))"

definition extract_u64 :: "u64 \<Rightarrow> u32 \<Rightarrow> u32 \<Rightarrow> u64 option" where
  "extract_u64 v start len =
     (if len > 64 - start then None
      else Some (shr v (unat start) AND shr (NOT 0) (unat (64 - len))))"

definition deposit_u32 :: "u32 \<Rightarrow> u32 \<Rightarrow> u32 \<Rightarrow> u32 \<Rightarrow> u32 option" where
  "deposit_u32 v start len fieldval =
     (if len > 32 - start then None
      else let mask = shl (shr (NOT 0) (unat (32 - len))) (unat start)
           in Some ((v AND NOT mask) OR (shl fieldval (unat start) AND mask)))"

section \<open>Register accesses\<close>

text \<open>
  The callee fills or reads the slice \<open>data\<close>; the boolean is the function's result and the
  second component what the caller's buffer or variable holds afterwards.
\<close>

definition write_data_u16 :: "u8 list \<Rightarrow> u16 \<Rightarrow> bool \<times> u8 list" where
  "write_data_u16 data v =
     (if length data = 1 then (True, [ucast v])
      else if length data = 2 then (True, to_le 2 v)
      else (False, data))"

definition write_data_u32 :: "u8 list \<Rightarrow> u32 \<Rightarrow> bool \<times> u8 list" where
  "write_data_u32 data v =
     (if length data = 1 then (True, [ucast v])
      else if length data = 2 then (True, to_le 2 (ucast v :: u16))
      else if length data = 4 then (True, to_le 4 v)
      else (False, data))"

definition read_data_u32 :: "u8 list \<Rightarrow> u32 \<Rightarrow> bool \<times> u32" where
  "read_data_u32 data v =
     (if length data = 1 then (True, ucast (data ! 0))
      else if length data = 2 then (True, ucast (from_le data :: u16))
      else if length data = 4 then (True, from_le data)
      else (False, v))"

definition read_data_u16 :: "u8 list \<Rightarrow> u16 \<Rightarrow> bool \<times> u16" where
  "read_data_u16 data v =
     (if length data = 1 then (True, ucast (data ! 0))
      else if length data = 2 then (True, from_le data)
      else (False, v))"

section \<open>Numbers in option strings\<close>

text \<open>
  \<open>str::trim\<close>, \<open>trim_start_matches\<close> and \<open>usize::from_str_radix\<close> of the standard
  library, on ASCII strings. The last accepts one leading plus sign and at least one digit
  of the base, in either case, and refuses a value that does not fit.
\<close>

definition is_ws :: "char \<Rightarrow> bool" where
  "is_ws c = (let n = of_char c :: nat in n = 32 \<or> (9 \<le> n \<and> n \<le> 13))"

definition str_trim :: "string \<Rightarrow> string" where
  "str_trim s = rev (dropWhile is_ws (rev (dropWhile is_ws s)))"

fun trim_start_matches :: "char \<Rightarrow> char \<Rightarrow> string \<Rightarrow> string" where
  "trim_start_matches a b (x # y # zs) =
     (if x = a \<and> y = b then trim_start_matches a b zs else x # y # zs)"
| "trim_start_matches a b s = s"

definition digit_val :: "nat \<Rightarrow> char \<Rightarrow> nat option" where
  "digit_val base c =
     (let n = of_char c :: nat;
          d = (if 48 \<le> n \<and> n \<le> 57 then n - 48
               else if 97 \<le> n \<and> n \<le> 122 then n - 87
               else if 65 \<le> n \<and> n \<le> 90 then n - 55 else 36)
      in if d < base then Some d else None)"

fun digits_val :: "nat \<Rightarrow> nat \<Rightarrow> string \<Rightarrow> nat option" where
  "digits_val base acc [] = Some acc"
| "digits_val base acc (c # cs) =
     (case digit_val base c of
        None \<Rightarrow> None
      | Some d \<Rightarrow> if acc * base + d < 2 ^ 64 then digits_val base (acc * base + d) cs else None)"

definition from_str_radix :: "nat \<Rightarrow> string \<Rightarrow> nat option" where
  "from_str_radix base s =
     (let t = (case s of c # cs \<Rightarrow> if c = CHR ''+'' then cs else s | [] \<Rightarrow> s)
      in if t = [] then None else digits_val base 0 t)"

definition str_to_usize :: "string \<Rightarrow> nat option" where
  "str_to_usize s =
     (let base = (if take 2 s = ''0x'' \<or> take 2 s = ''0X'' then 16 else 10)
      in from_str_radix base
           (trim_start_matches CHR ''0'' CHR ''X'' (trim_start_matches CHR ''0'' CHR ''x'' (str_trim s))))"

section \<open>Overlap of two ranges\<close>

definition ranges_overlap :: "u64 \<Rightarrow> u64 \<Rightarrow> u64 \<Rightarrow> u64 \<Rightarrow> bool option" where
  "ranges_overlap start1 size1 start2 size2 =
     (case checked_add start1 size1 of
        None \<Rightarrow> None
      | Some end1 \<Rightarrow>
          (case checked_add start2 size2 of
             None \<Rightarrow> None
           | Some end2 \<Rightarrow> Some (\<not> (start1 \<ge> end2 \<or> start2 \<ge> end1))))"

section \<open>Checksums\<close>

fun checksum_loop :: "u32 \<Rightarrow> u8 list \<Rightarrow> u32" where
  "checksum_loop acc [] = acc"
| "checksum_loop acc (b # bs) = checksum_loop ((acc + ucast b) AND 0xff) bs"

definition checksum :: "u8 list \<Rightarrow> u8" where
  "checksum bs = ucast (checksum_loop 0 bs AND 0xff)"

section \<open>Properties\<close>

lemma unat_sub_mod:
  fixes a b :: u64
  assumes "b \<noteq> 0"
  shows "unat (b - a mod b) = unat b - unat a mod unat b"
proof -
  have "unat (a mod b) < unat b" using assms
    by (simp add: unat_mod_eq unat_gt_0)
  then show ?thesis by (simp add: unat_simps)
qed

lemma next_multiple_least:
  fixes n a m :: nat
  assumes "0 < a" and "n mod a \<noteq> 0" and "n \<le> m" and "a dvd m"
  shows "n + (a - n mod a) \<le> m"
proof -
  obtain k where m: "m = a * k" using assms(4) by (elim dvdE)
  have n: "n = a * (n div a) + n mod a" by simp
  have "n div a < k"
  proof (rule ccontr)
    assume "\<not> n div a < k"
    then have "a * k \<le> a * (n div a)" by simp
    with assms(2,3) m n show False by linarith
  qed
  then have "a * (n div a) + a \<le> a * k"
    by (metis Suc_leI mult.commute mult_Suc_right mult_le_mono2 add.commute)
  moreover have "n mod a < a" using assms(1) by simp
  ultimately show ?thesis using m n by linarith
qed

lemma next_multiple_dvd:
  fixes n a :: nat
  assumes "0 < a" and "n mod a \<noteq> 0"
  shows "a dvd n + (a - n mod a)"
proof -
  have "n mod a < a" using assms(1) by simp
  then have "n + (a - n mod a) = a * (n div a) + a"
    using mult_div_mod_eq [of a n] by linarith
  then show ?thesis by simp
qed

text \<open>
  \<open>round_up\<close> returns the least multiple of the alignment that is not below the
  value; it returns \<open>None\<close> exactly when that multiple does not fit in 64 bits, and
  panics exactly on alignment 0.
\<close>

theorem round_up_least_multiple:
  shows "round_up x a = (if a = 0 then Inl DivByZero else
    Inr (if \<exists>m. unat x \<le> m \<and> unat a dvd m \<and> m < 2 ^ 64
         then Some (of_nat (LEAST m. unat x \<le> m \<and> unat a dvd m)) else None))"
proof (cases "a = 0")
  case True
  then show ?thesis by (simp add: round_up_def)
next
  case False
  then have a: "0 < unat a" by (simp add: unat_gt_0)
  show ?thesis
  proof (cases "x mod a = 0")
    case True
    then have d: "unat a dvd unat x"
      by (metis dvd_eq_mod_eq_0 unat_mod_eq unsigned_0)
    then have "(LEAST m. unat x \<le> m \<and> unat a dvd m) = unat x"
      by (intro Least_equality) auto
    moreover have "\<exists>m. unat x \<le> m \<and> unat a dvd m \<and> m < 2 ^ 64"
      using d by (intro exI [of _ "unat x"]) simp
    ultimately show ?thesis using False True by (simp add: round_up_def)
  next
    case F: False
    let ?m = "unat x + (unat a - unat x mod unat a)"
    have nz: "unat x mod unat a \<noteq> 0"
      using F by (metis unat_mod_eq unat_eq_zero)
    have up: "unat x \<le> ?m" "unat a dvd ?m" using next_multiple_dvd [OF a nz] by auto
    have least: "?m \<le> m" if "unat x \<le> m" "unat a dvd m" for m
      using next_multiple_least [OF a nz that] .
    have L: "(LEAST m. unat x \<le> m \<and> unat a dvd m) = ?m"
      using up least by (intro Least_equality) auto
    have s: "unat (a - x mod a) = unat a - unat x mod unat a" using unat_sub_mod [OF False] .
    have iff: "(\<exists>m. unat x \<le> m \<and> unat a dvd m \<and> m < 2 ^ 64) \<longleftrightarrow> ?m < 2 ^ 64"
      using up least by (meson le_less_trans)
    have ca: "checked_add x (a - x mod a) = (if ?m < 2 ^ 64 then Some (of_nat ?m) else None)"
      by (simp add: checked_add_def s word_eq_unat unat_add_eq unat_of_nat take_bit_nat_eq_self)
    show ?thesis
      unfolding round_up_def L iff using False F ca by (simp add: Let_def)
  qed
qed

text \<open>Rounding down never fails on a non-zero alignment.\<close>

lemma round_down_eq:
  assumes "a \<noteq> 0"
  shows "round_down x a = Inr (Some (of_nat (unat x - unat x mod unat a)))"
proof -
  have le: "unat (x mod a) \<le> unat x" by (simp add: unat_simps)
  have "unat x - unat x mod unat a < 2 ^ 64"
    using le_less_trans [OF diff_le_self unat_lt_64 [of x]] by simp
  then have "unat (of_nat (unat x - unat x mod unat a) :: u64) = unat x - unat x mod unat a"
    by (simp add: unat_of_nat take_bit_nat_eq_self del: of_nat_diff)
  moreover from le have "unat (x - x mod a) = unat x - unat x mod unat a"
    by (simp add: unat_sub_eq unat_mod_eq)
  ultimately have "x - x mod a = of_nat (unat x - unat x mod unat a)"
    by (simp add: word_eq_unat del: of_nat_diff)
  with assms le show ?thesis
    by (auto simp: round_down_def Let_def checked_sub_def word_le_nat_alt unat_simps
        dest: arg_cong [of _ _ unat])
qed

lemma bit_u32_lt: "bit (w :: u32) k \<Longrightarrow> k < 32"
  using bit_imp_le_length [of w k] by simp

lemma mask32: "(0xFFFFFFFF :: u64) = mask 32"
  by (simp add: mask_eq_exp_minus_1)

lemma mask32_high: "(0xFFFFFFFF00000000 :: u64) = push_bit 32 (mask 32)"
  by (simp add: mask_eq_exp_minus_1 push_bit_eq_mult)

lemmas half_defs = write_u64_low_def write_u64_high_def read_u32_def write_u32_def
  mask32 mask32_high

text \<open>
  A 64-bit register written by halves: each write replaces its own half and leaves the
  other, and two writes determine the register whatever it held.
\<close>

theorem write_u64_halves:
  "read_u32 (write_u64_low r v) 0 = v \<and> read_u32 (write_u64_low r v) 1 = read_u32 r 1 \<and>
   read_u32 (write_u64_high r v) 1 = v \<and> read_u32 (write_u64_high r v) 0 = read_u32 r 0 \<and>
   write_u64_high (write_u64_low r lo) hi = write_u32 lo 0 OR write_u32 hi 1"
proof (intro conjI)
  show "read_u32 (write_u64_low r v) 0 = v" "read_u32 (write_u64_low r v) 1 = read_u32 r 1"
    "read_u32 (write_u64_high r v) 1 = v" "read_u32 (write_u64_high r v) 0 = read_u32 r 0"
    "write_u64_high (write_u64_low r lo) hi = write_u32 lo 0 OR write_u32 hi 1"
    unfolding half_defs by (auto intro!: bit_eqI simp: bit_simps dest: bit_u32_lt)
qed

lemma shr_ones_eq_mask:
  fixes len :: u32
  assumes "0 < len" and "unat len \<le> 32"
  shows "shr (- 1 :: u32) (unat (32 - len)) = mask (unat len)"
proof -
  have "unat (32 - len) = 32 - unat len" using assms by (simp add: unat_simps)
  moreover have "0 < unat len" using assms by (simp add: word_less_nat_alt)
  ultimately show ?thesis using assms
    by (auto intro!: bit_eqI simp: shr_def bit_simps)
qed

lemma field_in_range:
  fixes s l :: u32
  assumes "unat s + unat l \<le> 32"
  shows "\<not> l > 32 - s"
  using assms by (simp add: word_less_nat_alt unat_simps)

text \<open>
  Depositing a field and extracting it again gives the low bits of the value, and no
  bit outside the field changes, for every non-empty field inside the word.
\<close>

theorem deposit_extract:
  assumes "0 < l" and "unat s + unat l \<le> 32"
  shows "\<exists>r. deposit_u32 v s l f = Some r \<and> extract_u32 r s l = Some (take_bit (unat l) f) \<and>
    (\<forall>k. k < unat s \<or> unat s + unat l \<le> k \<longrightarrow> bit r k = bit v k)"
proof -
  have len: "0 < unat l" "unat l \<le> 32" "unat s < 32"
    using assms by (auto simp: word_less_nat_alt)
  let ?m = "shl (mask (unat l)) (unat s) :: u32"
  let ?r = "(v AND NOT ?m) OR (shl f (unat s) AND ?m)"
  have m: "shr (- 1 :: u32) (unat (32 - l)) = mask (unat l)"
    using shr_ones_eq_mask assms by simp
  have bm: "bit ?m k \<longleftrightarrow> unat s \<le> k \<and> k < unat s + unat l" for k
    using len assms by (auto simp: shl_def bit_simps)
  have d: "deposit_u32 v s l f = Some ?r"
    using field_in_range [OF assms(2)] by (simp add: deposit_u32_def m Let_def)
  have "shr ?r (unat s) AND mask (unat l) = take_bit (unat l) f"
    using len assms by (intro bit_eqI) (auto simp: shr_def bit_simps bm shl_def)
  then have e: "extract_u32 ?r s l = Some (take_bit (unat l) f)"
    using field_in_range [OF assms(2)] by (simp add: extract_u32_def m)
  have "bit ?r k = bit v k" if "k < unat s \<or> unat s + unat l \<le> k" for k
    using that len bm [of k] by (auto simp: bit_simps shl_def dest: bit_imp_le_length)
  with d e show ?thesis by blast
qed

theorem deposit_extract_witness:
  "\<exists>r. deposit_u32 0xffff 4 8 0xba = Some r \<and> extract_u32 r 4 8 = Some (take_bit (unat (8 :: u32)) 0xba) \<and>
    (\<forall>k. k < unat (4 :: u32) \<or> unat (4 :: u32) + unat (8 :: u32) \<le> k \<longrightarrow> bit r k = bit (0xffff :: u32) k)"
  by (rule deposit_extract) simp_all

text \<open>
  The empty field is not handled: the mask shift is by the whole width, which the
  release profile reduces to no shift, so extracting zero bits at a position returns every
  bit from that position on.
\<close>

theorem extract_empty_field:
  assumes "unat s \<le> 32"
  shows "extract_u32 v s 0 = Some (drop_bit (unat s mod 32) v)"
  using assms by (simp add: extract_u32_def shr_def)

theorem extract_empty_field_witness:
  "unat (8 :: u32) \<le> 32 \<and> extract_u32 0xffff 8 0 = Some (drop_bit (unat (8 :: u32) mod 32) 0xffff)"
  using extract_empty_field [of 8 "0xffff"] by simp

text \<open>
  A register access of one, two or four bytes that is read back through the same width
  gives the low bytes of the value; every other width is refused and leaves the buffer
  alone.
\<close>

theorem register_access_roundtrip:
  "(let n = length d; (ok, d') = write_data_u32 d v in
     ok = (n = 1 \<or> n = 2 \<or> n = 4) \<and> length d' = n \<and>
     (if ok then read_data_u32 d' w = (True, take_bit (8 * n) v)
      else d' = d \<and> read_data_u32 d' w = (False, w)))"
proof -
  have one: "(ucast (ucast v :: u8) :: u32) = take_bit 8 v"
    by (auto intro!: bit_eqI simp: bit_simps)
  have two: "(ucast (ucast v :: u16) :: u32) = take_bit 16 v"
    by (auto intro!: bit_eqI simp: bit_simps)
  have four: "take_bit 32 v = v"
    by (auto intro!: bit_eqI simp: bit_simps dest: bit_u32_lt)
  show ?thesis
    by (auto simp: write_data_u32_def read_data_u32_def Let_def one two four from_le_to_le_full)
qed

lemma and_ff: "(x :: u32) AND 0xff = take_bit 8 x"
  by (simp add: take_bit_eq_mask mask_eq_exp_minus_1)

lemma unat_and_ff: "unat ((x :: u32) AND 0xff) = unat x mod 256"
  unfolding and_ff take_bit_eq_mod by (simp add: unat_mod)

lemma unat_byte_lt: "unat (b :: u8) < 256"
  using unsigned_less [of b, where 'a = nat] by simp

lemma unat_ucast_byte: "unat (ucast (b :: u8) :: u32) = unat b"
  by (simp add: unsigned_ucast_eq take_bit_nat_eq_self less_trans [OF unat_byte_lt])

lemma checksum_loop_eq:
  "unat acc < 256 \<Longrightarrow> unat (checksum_loop acc bs) = (unat acc + sum_list (map unat bs)) mod 256"
proof (induction bs arbitrary: acc)
  case Nil
  then show ?case by simp
next
  case (Cons b bs)
  have "unat (acc + ucast b) = unat acc + unat b"
    using Cons.prems unat_byte_lt [of b] by (subst unat_add_eq) (auto simp: unat_ucast_byte)
  then have a: "unat ((acc + ucast b) AND 0xff) = (unat acc + unat b) mod 256"
    by (simp only: unat_and_ff)
  have "unat (checksum_loop ((acc + ucast b) AND 0xff) bs) =
      ((unat acc + unat b) mod 256 + sum_list (map unat bs)) mod 256"
    using Cons.IH [of "(acc + ucast b) AND 0xff"] unfolding a by simp
  then show ?case by (simp add: mod_add_left_eq add.assoc)
qed

lemma unat_checksum: "unat (checksum bs) = sum_list (map unat bs) mod 256"
proof -
  have "unat (checksum bs) = unat (checksum_loop 0 bs AND 0xff) mod 256"
    unfolding checksum_def by (simp add: unsigned_ucast_eq take_bit_eq_mod)
  then show ?thesis unfolding unat_and_ff by (simp add: checksum_loop_eq)
qed

text \<open>
  The checksum is the sum of the bytes modulo 256, so a table whose checksum byte is
  the negated checksum of the rest sums to zero, as ACPI and SMBIOS require.
\<close>

theorem checksum_balances:
  "unat (checksum bs) = sum_list (map unat bs) mod 256 \<and> checksum (bs @ [- checksum bs]) = 0"
proof -
  have "unat (a + b) = (unat a + unat b) mod 256" for a b :: u8
    by (simp add: unat_word_ariths(1))
  from this [of "checksum bs" "- checksum bs"]
  have "(sum_list (map unat bs) + unat (- checksum bs)) mod 256 = 0"
    by (simp add: unat_checksum mod_add_left_eq)
  then have "unat (checksum (bs @ [- checksum bs])) = 0"
    by (simp add: unat_checksum)
  then have "checksum (bs @ [- checksum bs]) = 0" by (simp only: unat_eq_zero)
  then show ?thesis by (simp add: unat_checksum)
qed

lemma digit_val_10:
  assumes "digit_val 10 c \<noteq> None"
  shows "48 \<le> (of_char c :: nat) \<and> (of_char c :: nat) \<le> 57"
proof -
  define n where "n = (of_char c :: nat)"
  show ?thesis using assms unfolding digit_val_def n_def [symmetric] Let_def
    by (simp split: if_splits)
qed

lemma digit_not_special:
  assumes "digit_val 10 c \<noteq> None"
  shows "c \<noteq> CHR ''x'' \<and> c \<noteq> CHR ''X'' \<and> \<not> is_ws c"
proof (intro conjI notI)
  assume "c = CHR ''x''"
  with digit_val_10 [OF assms] show False by simp
next
  assume "c = CHR ''X''"
  with digit_val_10 [OF assms] show False by simp
next
  assume "is_ws c"
  with digit_val_10 [OF assms] show False by (simp add: is_ws_def Let_def)
qed

lemma trim_ws_front: "is_ws c \<Longrightarrow> str_trim (c # s) = str_trim s"
  by (simp add: str_trim_def)

lemma str_trim_id:
  assumes "s \<noteq> []" and "\<not> is_ws (hd s)" and "\<not> is_ws (last s)"
  shows "str_trim s = s"
proof -
  have "dropWhile is_ws s = s" "dropWhile is_ws (rev s) = rev s"
    using assms by (auto simp: dropWhile_eq_self_iff hd_rev)
  then show ?thesis by (simp add: str_trim_def)
qed

text \<open>
  The base of a number is chosen before the string is trimmed, the prefix is stripped
  afterwards: a hexadecimal number with a leading blank is read as a decimal one.
\<close>

theorem str_to_usize_leading_blank:
  assumes "ds \<noteq> []" and "\<forall>c \<in> set ds. digit_val 10 c \<noteq> None"
  shows "str_to_usize (''0x'' @ ds) = from_str_radix 16 ds \<and>
    str_to_usize ('' 0x'' @ ds) = from_str_radix 10 ds"
proof -
  have nx: "c \<noteq> CHR ''x'' \<and> c \<noteq> CHR ''X'' \<and> \<not> is_ws c" if "c \<in> set ds" for c
    using assms(2) that digit_not_special by blast
  have tr: "trim_start_matches CHR ''0'' CHR ''x'' ds = ds" "trim_start_matches CHR ''0'' CHR ''X'' ds = ds"
    using nx by (cases ds; cases "tl ds"; auto)+
  have last: "\<not> is_ws (last (''0x'' @ ds))" using assms(1) nx by simp
  have trim: "str_trim (''0x'' @ ds) = ''0x'' @ ds"
    using last by (intro str_trim_id) (auto simp: is_ws_def)
  have "str_trim ('' 0x'' @ ds) = ''0x'' @ ds"
    using trim_ws_front [of "CHR '' ''" "''0x'' @ ds"] trim by (simp add: is_ws_def)
  with trim tr show ?thesis by (simp add: str_to_usize_def Let_def)
qed

theorem str_to_usize_leading_blank_witness:
  "str_to_usize (''0x'' @ ''17'') = Some 23 \<and> str_to_usize ('' 0x'' @ ''17'') = Some 17"
proof -
  have "str_to_usize (''0x'' @ ''17'') = from_str_radix 16 ''17'' \<and>
      str_to_usize ('' 0x'' @ ''17'') = from_str_radix 10 ''17''"
    by (rule str_to_usize_leading_blank) (simp_all add: digit_val_def)
  then show ?thesis by (simp add: from_str_radix_def digit_val_def)
qed

lemma ranges_overlap_iff:
  assumes "0 < n" and "0 < k" and "ranges_overlap a n b k = Some r"
  shows "r \<longleftrightarrow> (\<exists>x. unat a \<le> x \<and> x < unat a + unat n \<and> unat b \<le> x \<and> x < unat b + unat k)"
proof -
  have e: "unat (a + n) = unat a + unat n" "unat (b + k) = unat b + unat k"
    and r: "r \<longleftrightarrow> \<not> (a \<ge> b + k \<or> b \<ge> a + n)"
    using assms(3) by (auto simp: ranges_overlap_def checked_add_def unat_add_eq
        split: option.splits if_splits)
  have p: "0 < unat n" "0 < unat k" using assms by (auto simp: word_less_nat_alt)
  show ?thesis
  proof
    assume r
    then show "\<exists>x. unat a \<le> x \<and> x < unat a + unat n \<and> unat b \<le> x \<and> x < unat b + unat k"
      using r e p by (intro exI [of _ "max (unat a) (unat b)"]) (auto simp: word_le_nat_alt)
  qed (use r e in \<open>auto simp: word_le_nat_alt\<close>)
qed

end
