(* ===== verification/Migration.thy ===== *)
theory Migration
  imports Prelude
begin

text \<open>
  The migration crate: the status machine of \<open>MigrationStatus\<close> (migration/src/protocol.rs)
  and the dirty-page log (migration/src/migration.rs) that the address space feeds when the
  VMM itself writes guest memory. The host page size, read from the operating system, is
  the parameter \<open>ps\<close>. A \<open>HashMap\<close> is a list of entries with distinct keys: its iteration
  order is not specified, and the statements hold for every order.
\<close>

section \<open>Status\<close>

datatype migration_status = MNone | MSetup | MActive | MCompleted | MFailed | MCanceled

datatype migration_error =
    InvalidStatusTransfer migration_status migration_status
  | HeaderItemNotFit string
  | VersionNotFit u32 u32
  | KvmIoctlErr
  | MigrationPanic panic

fun transfer :: "migration_status \<Rightarrow> migration_status \<Rightarrow> migration_error + migration_status" where
  "transfer MNone n =
     (if n = MSetup then Inr n else Inl (InvalidStatusTransfer MNone n))"
| "transfer MSetup n =
     (if n = MActive \<or> n = MFailed \<or> n = MCanceled then Inr n
      else Inl (InvalidStatusTransfer MSetup n))"
| "transfer MActive n =
     (if n = MCompleted \<or> n = MFailed \<or> n = MCanceled then Inr n
      else Inl (InvalidStatusTransfer MActive n))"
| "transfer MCompleted n =
     (if n = MActive then Inr n else Inl (InvalidStatusTransfer MCompleted n))"
| "transfer MFailed n =
     (if n = MSetup \<or> n = MActive then Inr n else Inl (InvalidStatusTransfer MFailed n))"
| "transfer MCanceled n = Inr n"

section \<open>Dirty bitmaps\<close>

record dirty_bitmap =
  db_gpa :: u64
  db_hva :: u64
  db_len :: u64
  db_map :: "u64 list"
  db_page_size :: u64

definition new_bitmap :: "u64 \<Rightarrow> u64 \<Rightarrow> u64 \<Rightarrow> u64 \<Rightarrow> panic + dirty_bitmap" where
  "new_bitmap ps gpa hva len =
     (if ps = 0 then Inl DivByZero
      else let num_pages = (if len mod ps > 0 then len div ps + 1 else len div ps);
               sz = num_pages div 64 + 1
           in Inr \<lparr>db_gpa = gpa, db_hva = hva, db_len = len,
                   db_map = replicate (unat sz) 0, db_page_size = ps\<rparr>)"

text \<open>
  The loop over the page numbers \<open>first_bit..=last_bit\<close>. The bound it checks is the
  length of the slot in bytes, not its number of pages; the slice index panics when the
  page lies beyond the bitmap.
\<close>

fun mark_pages :: "u64 \<Rightarrow> nat list \<Rightarrow> u64 list \<Rightarrow> panic + u64 list" where
  "mark_pages len [] m = Inr m"
| "mark_pages len (n # ns) m =
     (if unat len \<le> n then Inr m
      else if n div 64 < length m
           then mark_pages len ns (m[n div 64 := m ! (n div 64) OR push_bit (n mod 64) 1])
           else Inl IndexOutOfRange)"

definition mark_bitmap :: "dirty_bitmap \<Rightarrow> u64 \<Rightarrow> u64 \<Rightarrow> panic + dirty_bitmap" where
  "mark_bitmap db addr len =
     (if len = 0 then Inr db
      else if db_page_size db = 0 then Inl DivByZero
      else let off = addr - db_gpa db;
               first_bit = off div db_page_size db;
               last_bit = (off + len - 1) div db_page_size db
           in case mark_pages (db_len db) [unat first_bit ..< Suc (unat last_bit)] (db_map db) of
                Inl e \<Rightarrow> Inl e
              | Inr m \<Rightarrow> Inr (db\<lparr>db_map := m\<rparr>))"

definition get_and_clear_dirty :: "dirty_bitmap \<Rightarrow> u64 list \<times> dirty_bitmap" where
  "get_and_clear_dirty db = (db_map db, db\<lparr>db_map := replicate (length (db_map db)) 0\<rparr>)"

section \<open>The migration manager's dirty log\<close>

record mem_slot =
  sl_slot :: u32
  sl_gpa :: u64
  sl_size :: u64
  sl_hva :: u64

record migration_manager =
  mm_status :: migration_status
  mm_bitmaps :: "(u32 \<times> dirty_bitmap) list"

definition set_status :: "migration_status \<Rightarrow> migration_manager \<Rightarrow> (migration_error + unit) \<times> migration_manager" where
  "set_status n mm =
     (case transfer (mm_status mm) n of
        Inl e \<Rightarrow> (Inl e, mm)
      | Inr st \<Rightarrow> (Inr (), mm\<lparr>mm_status := st\<rparr>))"

definition is_active :: "migration_manager \<Rightarrow> bool" where
  "is_active mm = (mm_status mm = MActive)"

definition is_canceled :: "migration_manager \<Rightarrow> bool" where
  "is_canceled mm = (mm_status mm = MCanceled)"

fun start_bitmaps :: "u64 \<Rightarrow> mem_slot list \<Rightarrow> panic + (u32 \<times> dirty_bitmap) list" where
  "start_bitmaps ps [] = Inr []"
| "start_bitmaps ps (s # ss) =
     (case new_bitmap ps (sl_gpa s) (sl_hva s) (sl_size s) of
        Inl e \<Rightarrow> Inl e
      | Inr b \<Rightarrow> (case start_bitmaps ps ss of
                    Inl e \<Rightarrow> Inl e
                  | Inr bs \<Rightarrow> Inr ((sl_slot s, b) # bs)))"

text \<open>
  The dirty logging of KVM itself is an ioctl per slot; \<open>kvm_ok\<close> says whether it succeeds.
\<close>

definition start_dirty_log ::
    "u64 \<Rightarrow> bool \<Rightarrow> mem_slot list \<Rightarrow> migration_manager \<Rightarrow> (migration_error + unit) \<times> migration_manager" where
  "start_dirty_log ps kvm_ok slots mm =
     (case start_bitmaps ps slots of
        Inl e \<Rightarrow> (Inl (MigrationPanic e), mm)
      | Inr bs \<Rightarrow> (if kvm_ok then Inr () else Inl KvmIoctlErr, mm\<lparr>mm_bitmaps := bs\<rparr>))"

definition stop_dirty_log :: "bool \<Rightarrow> migration_manager \<Rightarrow> (migration_error + unit) \<times> migration_manager" where
  "stop_dirty_log kvm_ok mm =
     (if kvm_ok then Inr () else Inl KvmIoctlErr, mm\<lparr>mm_bitmaps := []\<rparr>)"

fun mark_maps :: "u64 \<Rightarrow> u64 \<Rightarrow> (u32 \<times> dirty_bitmap) list \<Rightarrow> panic + (u32 \<times> dirty_bitmap) list" where
  "mark_maps addr len [] = Inr []"
| "mark_maps addr len ((k, b) # bs) =
     (case (if addr \<ge> db_hva b \<and> addr + len \<le> db_hva b + db_len b
            then mark_bitmap b (addr - db_hva b + db_gpa b) len else Inr b) of
        Inl e \<Rightarrow> Inl e
      | Inr b' \<Rightarrow> (case mark_maps addr len bs of
                     Inl e \<Rightarrow> Inl e
                   | Inr bs' \<Rightarrow> Inr ((k, b') # bs')))"

definition mark_dirty_log :: "u64 \<Rightarrow> u64 \<Rightarrow> migration_manager \<Rightarrow> panic + migration_manager" where
  "mark_dirty_log addr len mm =
     (if \<not> is_active mm then Inr mm
      else case mark_maps addr len (mm_bitmaps mm) of
             Inl e \<Rightarrow> Inl e
           | Inr bs \<Rightarrow> Inr (mm\<lparr>mm_bitmaps := bs\<rparr>))"

section \<open>From bitmaps to memory blocks\<close>

record mem_block =
  mb_gpa :: u64
  mb_len :: u64

text \<open>
  The state of the loops of \<open>sync_dirty_bitmap\<close>: the finished blocks and the open one.
\<close>

type_synonym sync_state = "mem_block list \<times> mem_block option"

definition sync_bit :: "u64 \<Rightarrow> u64 \<Rightarrow> nat \<Rightarrow> u64 \<Rightarrow> nat \<Rightarrow> sync_state \<Rightarrow> sync_state" where
  "sync_bit ps addr idx num b = (\<lambda>(blocks, blk).
     if (drop_bit b num) AND 1 = 0
     then (case blk of Some entry \<Rightarrow> (blocks @ [entry], None) | None \<Rightarrow> (blocks, None))
     else (case blk of
             Some e \<Rightarrow> (blocks, Some (e\<lparr>mb_len := mb_len e + ps\<rparr>))
           | None \<Rightarrow> (blocks, Some \<lparr>mb_gpa = addr + of_nat (idx * 64 + b) * ps, mb_len = ps\<rparr>)))"

definition sync_word :: "u64 \<Rightarrow> u64 \<Rightarrow> nat \<Rightarrow> u64 \<Rightarrow> sync_state \<Rightarrow> sync_state" where
  "sync_word ps addr idx num s =
     (if num = 0 then s else fold (sync_bit ps addr idx num) [0..<64] s)"

fun sync_words :: "u64 \<Rightarrow> u64 \<Rightarrow> nat \<Rightarrow> u64 list \<Rightarrow> sync_state \<Rightarrow> sync_state" where
  "sync_words ps addr idx [] s = s"
| "sync_words ps addr idx (w # ws) s = sync_words ps addr (Suc idx) ws (sync_word ps addr idx w s)"

definition sync_dirty_bitmap :: "u64 \<Rightarrow> u64 list \<Rightarrow> u64 \<Rightarrow> mem_block list" where
  "sync_dirty_bitmap ps bitmap addr =
     (case sync_words ps addr 0 bitmap ([], None) of
        (blocks, Some entry) \<Rightarrow> blocks @ [entry]
      | (blocks, None) \<Rightarrow> blocks)"

text \<open>
  \<open>get_dirty_log\<close>: the bitmap KVM returns for the slot is the parameter \<open>kvm_log\<close>, \<open>None\<close>
  when the ioctl fails, on which the code unwraps.
\<close>

fun collect_dirty :: "mem_slot \<Rightarrow> (u32 \<times> dirty_bitmap) list \<Rightarrow> u64 list \<Rightarrow> u64 list \<times> (u32 \<times> dirty_bitmap) list" where
  "collect_dirty s [] acc = (acc, [])"
| "collect_dirty s ((k, b) # bs) acc =
     (if sl_gpa s = db_gpa b \<and> sl_size s = db_len b
      then let (m, b') = get_and_clear_dirty b; (acc', bs') = collect_dirty s bs m
           in (acc', (k, b') # bs')
      else let (acc', bs') = collect_dirty s bs acc in (acc', (k, b) # bs'))"

definition get_dirty_log ::
    "u64 \<Rightarrow> u64 list option \<Rightarrow> mem_slot \<Rightarrow> migration_manager \<Rightarrow> (panic + mem_block list) \<times> migration_manager" where
  "get_dirty_log ps kvm_log s mm =
     (let (vmm_map, bs) = collect_dirty s (mm_bitmaps mm) [];
          mm' = mm\<lparr>mm_bitmaps := bs\<rparr>
      in case kvm_log of
           None \<Rightarrow> (Inl UnwrapNone, mm')
         | Some kvm_map \<Rightarrow> (Inr (sync_dirty_bitmap ps (map2 (OR) kvm_map vmm_map) (sl_gpa s)), mm'))"

section \<open>The status machine against its documentation\<close>

text \<open>
  The transitions that the comment above \<open>MigrationStatus\<close> lists.
\<close>

definition documented_transfer :: "migration_status \<Rightarrow> migration_status \<Rightarrow> bool" where
  "documented_transfer s n =
     (s = MNone \<and> n = MSetup \<or> s = MSetup \<and> n = MActive \<or> s = MActive \<and> n = MCompleted \<or>
      s = MCompleted \<and> n = MActive \<or> s = MFailed \<and> n = MSetup \<or> n = MFailed \<or> n = MCanceled)"

text \<open>
  The code's transitions differ from the documented ones in exactly these cases: a
  migration that has not started, has completed or has already failed cannot be failed or
  canceled, a failed one may become active at once, and a canceled one may go anywhere.
\<close>

theorem transfer_vs_documentation:
  "(\<exists>t. transfer s n = Inr t) \<noteq> documented_transfer s n \<longleftrightarrow>
     (s \<in> {MNone, MCompleted, MFailed} \<and> n \<in> {MFailed, MCanceled} \<or>
      s = MFailed \<and> n = MActive \<or>
      s = MCanceled \<and> n \<in> {MNone, MSetup, MActive, MCompleted})"
  by (cases s; cases n) (simp_all add: documented_transfer_def)

inductive status_run :: "migration_status list \<Rightarrow> bool" where
  start: "status_run [MNone]"
| step: "status_run (s # ss) \<Longrightarrow> transfer s n = Inr t \<Longrightarrow> status_run (t # s # ss)"

inductive_cases status_runE: "status_run (t # ss)"

lemma transfer_result: "transfer s n = Inr t \<Longrightarrow> t = n"
  by (cases s) (auto split: if_splits)

lemma status_run_nonempty: "status_run ss \<Longrightarrow> ss \<noteq> []"
  by (induction rule: status_run.induct) auto

text \<open>
  Whatever sequence of status changes the manager accepts, it reports a completed
  migration only if the migration was active before, unless it had been canceled.
\<close>

theorem completed_was_active:
  assumes "status_run ss" and "MCompleted \<in> set ss"
  shows "MActive \<in> set ss \<or> MCanceled \<in> set ss"
  using assms
proof (induction rule: status_run.induct)
  case start
  then show ?case by simp
next
  case (step s ss n t)
  then show ?case
    by (cases s) (auto split: if_splits)
qed

theorem completed_was_active_witness:
  "status_run [MCompleted, MActive, MSetup, MNone] \<and> MActive \<in> set [MCompleted, MActive, MSetup, MNone]"
proof -
  have r: "status_run [MCompleted, MActive, MSetup, MNone]"
    by (rule status_run.step [where n = MCompleted], rule status_run.step [where n = MActive],
        rule status_run.step [where n = MSetup], rule status_run.start) simp_all
  with completed_was_active [OF r] show ?thesis by simp
qed

section \<open>Marking pages\<close>

definition page_dirty :: "u64 list \<Rightarrow> nat \<Rightarrow> bool" where
  "page_dirty m p = (p div 64 < length m \<and> bit (m ! (p div 64)) (p mod 64))"

text \<open>The bitmap has a bit for every page of its slot.\<close>

definition bitmap_wf :: "dirty_bitmap \<Rightarrow> bool" where
  "bitmap_wf db = (0 < db_page_size db \<and> unat (db_gpa db) + unat (db_len db) < 2 ^ 64 \<and>
     unat (db_len db) \<le> 64 * length (db_map db) * unat (db_page_size db))"

lemma page_dirty_update:
  assumes "n div 64 < length m"
  shows "page_dirty (m[n div 64 := m ! (n div 64) OR push_bit (n mod 64) 1]) p \<longleftrightarrow> page_dirty m p \<or> p = n"
proof (cases "p div 64 = n div 64")
  case True
  have b: "bit (push_bit (n mod 64) (1 :: u64)) (p mod 64) \<longleftrightarrow> p mod 64 = n mod 64"
    by (auto simp: bit_simps)
  have "p mod 64 = n mod 64 \<longleftrightarrow> p = n"
    using True by (metis div_mult_mod_eq)
  with b True assms show ?thesis by (auto simp: page_dirty_def bit_or_iff)
next
  case False
  then have "p \<noteq> n" by auto
  with False assms show ?thesis by (auto simp: page_dirty_def)
qed

lemma mark_pages_marks:
  assumes "\<forall>n \<in> set ns. n < unat len \<and> n div 64 < length m"
  shows "\<exists>m'. mark_pages len ns m = Inr m' \<and> length m' = length m \<and>
    (\<forall>p. page_dirty m' p \<longleftrightarrow> page_dirty m p \<or> p \<in> set ns)"
  using assms
proof (induction ns arbitrary: m)
  case Nil
  then show ?case by simp
next
  case (Cons n ns)
  let ?m = "m[n div 64 := m ! (n div 64) OR push_bit (n mod 64) 1]"
  from Cons.prems have "\<forall>n \<in> set ns. n < unat len \<and> n div 64 < length ?m" by simp
  from Cons.IH [OF this] obtain m' where m': "mark_pages len ns ?m = Inr m'" "length m' = length m"
    "\<forall>p. page_dirty m' p \<longleftrightarrow> page_dirty ?m p \<or> p \<in> set ns" by auto
  have n: "n div 64 < length m" "\<not> unat len \<le> n" using Cons.prems by auto
  with m' page_dirty_update [OF n(1)] show ?case by auto
qed

lemma pages_of_range:
  fixes o1 n q :: nat
  assumes "0 < n" and "0 < q"
  shows "{o1 div q ..< Suc ((o1 + n - 1) div q)} = (\<lambda>x. x div q) ` {o1 ..< o1 + n}"
proof
  show "(\<lambda>x. x div q) ` {o1 ..< o1 + n} \<subseteq> {o1 div q ..< Suc ((o1 + n - 1) div q)}"
    by (auto intro!: div_le_mono simp: less_Suc_eq_le)
next
  show "{o1 div q ..< Suc ((o1 + n - 1) div q)} \<subseteq> (\<lambda>x. x div q) ` {o1 ..< o1 + n}"
  proof
    fix p assume "p \<in> {o1 div q ..< Suc ((o1 + n - 1) div q)}"
    then have p: "o1 div q \<le> p" "p \<le> (o1 + n - 1) div q" by auto
    let ?x = "max o1 (p * q)"
    have "p * q \<le> o1 + n - 1" using p(2) assms(2) by (simp add: less_eq_div_iff_mult_less_eq)
    then have x: "?x \<in> {o1 ..< o1 + n}" using assms(1) by auto
    have "?x div q = p"
    proof (cases "p * q \<le> o1")
      case True
      then have "p \<le> o1 div q" using assms(2) by (simp add: less_eq_div_iff_mult_less_eq)
      with p True show ?thesis by (simp add: max_absorb1)
    next
      case False
      with assms(2) show ?thesis by (simp add: max_def)
    qed
    with x show "p \<in> (\<lambda>x. x div q) ` {o1 ..< o1 + n}" by (metis image_eqI)
  qed
qed

lemma new_bitmap_wf:
  assumes "0 < ps" and "unat gpa + unat len < 2 ^ 64"
  shows "\<exists>db. new_bitmap ps gpa hva len = Inr db \<and> bitmap_wf db \<and> (\<forall>p. \<not> page_dirty (db_map db) p) \<and>
    db_gpa db = gpa \<and> db_hva db = hva \<and> db_len db = len \<and> db_page_size db = ps"
proof -
  let ?q = "unat ps" let ?n = "unat len"
  let ?np = "if len mod ps > 0 then len div ps + 1 else len div ps"
  have q: "0 < ?q" using assms by (simp add: word_less_nat_alt)
  have dm: "?q * (?n div ?q) + ?n mod ?q = ?n" by simp
  have np: "?n \<le> unat ?np * ?q"
  proof (cases "len mod ps > 0")
    case True
    then have m: "0 < ?n mod ?q" by (simp add: word_less_nat_alt unat_mod_eq)
    have "?n div ?q < 2 ^ 64 - 1"
    proof (cases "?q = 1")
      case True
      with m show ?thesis by simp
    next
      case False
      with q have "?n div ?q \<le> ?n div 2" by (intro div_le_mono2) auto
      moreover have "?n div 2 * 2 \<le> ?n" by simp
      ultimately have "?n div ?q * 2 \<le> ?n" by linarith
      from this unat_lt_64 have "?n div ?q * 2 < 18446744073709551616"
        by (rule le_less_trans)
      then show ?thesis by simp
    qed
    then have "unat (len div ps + 1) = ?n div ?q + 1"
      by (subst unat_add_eq) (auto simp: unat_div_eq)
    moreover have "?n < ?q + ?q * (?n div ?q)" using q by (rule dividend_less_times_div)
    ultimately show ?thesis using True by (simp add: algebra_simps)
  next
    case False
    then have "?n mod ?q = 0" by (simp add: word_less_nat_alt unat_mod_eq)
    with False dm show ?thesis by (simp add: unat_div_eq mult.commute)
  qed
  have "unat w div 64 < 18446744073709551615" for w :: u64
    using unat_lt_64 [of w] by linarith
  then have sz: "unat (w div 64 + 1) = unat w div 64 + 1" for w :: u64
    by (subst unat_add_eq) (simp_all add: unat_div_eq)
  have "unat ?np \<le> 64 * (unat ?np div 64 + 1)" by simp
  then have "unat ?np * ?q \<le> 64 * (unat ?np div 64 + 1) * ?q" by (rule mult_le_mono1)
  with np have "?n \<le> 64 * unat (?np div 64 + 1) * ?q" unfolding sz by linarith
  moreover have "\<not> page_dirty (replicate k 0) p" for k p by (simp add: page_dirty_def)
  moreover have "ps \<noteq> 0" using assms by auto
  ultimately show ?thesis using assms q
    by (simp add: new_bitmap_def bitmap_wf_def Let_def word_less_nat_alt)
qed

text \<open>
  C33. Marking a byte range that lies inside the slot never panics and makes dirty exactly
  the pages the range touches; every other page keeps its state.
\<close>

theorem mark_bitmap_exact:
  assumes wf: "bitmap_wf db" and lo: "unat (db_gpa db) \<le> unat addr"
    and hi: "unat addr + unat len \<le> unat (db_gpa db) + unat (db_len db)"
  shows "\<exists>m. mark_bitmap db addr len = Inr (db\<lparr>db_map := m\<rparr>) \<and> length m = length (db_map db) \<and>
    (\<forall>p. page_dirty m p \<longleftrightarrow> page_dirty (db_map db) p \<or>
      (\<exists>x \<in> {unat addr ..< unat addr + unat len}. p = (x - unat (db_gpa db)) div unat (db_page_size db)))"
proof (cases "len = 0")
  case True
  then show ?thesis by (intro exI [of _ "db_map db"]) (simp add: mark_bitmap_def)
next
  case False
  let ?q = "unat (db_page_size db)" and ?o = "unat addr - unat (db_gpa db)" and ?n = "unat len"
  have q: "0 < ?q" "db_page_size db \<noteq> 0" using wf by (auto simp: bitmap_wf_def word_less_nat_alt)
  have n: "0 < ?n" using False by (simp add: unat_gt_0)
  have o: "unat (addr - db_gpa db) = ?o" using lo by (simp add: unat_sub_eq)
  have on: "?o + ?n \<le> unat (db_len db)" using lo hi by linarith
  have "unat (addr - db_gpa db + len) = ?o + ?n"
    using on le_less_trans [OF on unat_lt_64] by (simp add: unat_add_eq o)
  then have l: "unat (addr - db_gpa db + len - 1) = ?o + ?n - 1"
    using n by (simp add: unat_sub_eq)
  let ?ns = "[?o div ?q ..< Suc ((?o + ?n - 1) div ?q)]"
  have ns: "set ?ns = (\<lambda>x. x div ?q) ` {?o ..< ?o + ?n}"
    unfolding pages_of_range [OF n q(1), symmetric] by (simp only: set_upt)
  have "k < unat (db_len db) \<and> k div 64 < length (db_map db)" if "k \<in> set ?ns" for k
  proof -
    from that have "k \<in> (\<lambda>x. x div ?q) ` {?o ..< ?o + ?n}" by (simp only: ns)
    then obtain x where x: "k = x div ?q" "x < ?o + ?n" by auto
    have "x < unat (db_len db)" using x(2) on by linarith
    moreover have "x < 64 * length (db_map db) * ?q"
      using calculation wf by (simp add: bitmap_wf_def)
    then have "x div ?q < 64 * length (db_map db)" by (simp add: less_mult_imp_div_less)
    ultimately show ?thesis
      using x(1) le_less_trans [OF div_le_dividend [of x ?q]] by (simp add: less_mult_imp_div_less mult.commute)
  qed
  then obtain m where m: "mark_pages (db_len db) ?ns (db_map db) = Inr m"
    "length m = length (db_map db)" "\<forall>p. page_dirty m p \<longleftrightarrow> page_dirty (db_map db) p \<or> p \<in> set ?ns"
    using mark_pages_marks by blast
  have "mark_bitmap db addr len = Inr (db\<lparr>db_map := m\<rparr>)"
    using False q m(1) by (simp add: mark_bitmap_def Let_def unat_div_eq o l del: upt_Suc)
  moreover have "p \<in> set ?ns \<longleftrightarrow> (\<exists>x \<in> {unat addr ..< unat addr + ?n}. p = (x - unat (db_gpa db)) div ?q)" for p
  proof -
    have "{?o ..< ?o + ?n} = (\<lambda>x. x - unat (db_gpa db)) ` {unat addr ..< unat addr + ?n}"
    proof (intro equalityI subsetI)
      fix x assume "x \<in> {?o ..< ?o + ?n}"
      then have "x + unat (db_gpa db) \<in> {unat addr ..< unat addr + ?n}" using lo by auto
      then show "x \<in> (\<lambda>x. x - unat (db_gpa db)) ` {unat addr ..< unat addr + ?n}"
        by (rule rev_image_eqI) simp
    qed (use lo in auto)
    then show ?thesis unfolding ns by (simp only: image_image image_iff)
  qed
  ultimately show ?thesis using m by (intro exI [of _ m]) simp
qed

theorem mark_bitmap_exact_witness:
  "\<exists>m. mark_bitmap \<lparr>db_gpa = 0x1000, db_hva = 0, db_len = 0x4000, db_map = [0], db_page_size = 0x1000\<rparr> 0x1fff 2
      = Inr \<lparr>db_gpa = 0x1000, db_hva = 0, db_len = 0x4000, db_map = m, db_page_size = 0x1000\<rparr> \<and>
    page_dirty m 0 \<and> page_dirty m 1 \<and> \<not> page_dirty m 2"
proof -
  let ?db = "\<lparr>db_gpa = 0x1000, db_hva = 0, db_len = 0x4000, db_map = [0], db_page_size = 0x1000\<rparr> :: dirty_bitmap"
  have "bitmap_wf ?db" by (simp add: bitmap_wf_def)
  from mark_bitmap_exact [OF this, of "0x1fff" 2] obtain m where
    m: "mark_bitmap ?db 0x1fff 2 = Inr (?db\<lparr>db_map := m\<rparr>)"
    "\<And>p. page_dirty m p \<longleftrightarrow> page_dirty [0] p \<or> (\<exists>x \<in> {0x1fff ..< 0x2001}. p = (x - 0x1000) div (0x1000 :: nat))"
    by auto
  have r: "{0x1fff ..< 0x2001 :: nat} = {0x1fff, 0x2000}" by auto
  have "\<not> page_dirty [0] p" for p by (cases "p div 64") (simp_all add: page_dirty_def)
  then have "page_dirty m 0" "page_dirty m 1" "\<not> page_dirty m 2"
    by (simp_all add: m(2) r)
  with m(1) show ?thesis by auto
qed

end
