(* ===== verification/DirtySync.thy ===== *)
theory DirtySync
  imports Migration
begin

text \<open>
  The loop of \<open>sync_dirty_bitmap\<close> (\<open>migration/src/migration.rs\<close>), which turns the dirty
  bitmap of a slot into memory blocks, against the set of dirty pages.
\<close>

section \<open>The blocks of a bitmap\<close>

text \<open>
  A run of pages \<open>(s, c)\<close>: \<open>c\<close> pages from page \<open>s\<close> on, and the block the code builds for it.
\<close>

definition run_block :: "u64 \<Rightarrow> u64 \<Rightarrow> nat \<times> nat \<Rightarrow> mem_block" where
  "run_block ps addr r = \<lparr>mb_gpa = addr + of_nat (fst r) * ps, mb_len = of_nat (snd r) * ps\<rparr>"

definition run_pages :: "nat \<times> nat \<Rightarrow> nat set" where
  "run_pages r = {fst r ..< fst r + snd r}"

definition runs_pages :: "(nat \<times> nat) list \<Rightarrow> (nat \<times> nat) option \<Rightarrow> nat set" where
  "runs_pages rs op = (\<Union>r \<in> set rs. run_pages r) \<union> (case op of None \<Rightarrow> {} | Some r \<Rightarrow> run_pages r)"

text \<open>
  No run of dirty pages that ends on a word boundary is followed, after one or more empty
  words, by a word whose first page is dirty.
\<close>

definition gap_free :: "u64 list \<Rightarrow> bool" where
  "gap_free ws = (\<forall>e n. 64 dvd e \<and> 64 dvd n \<and> 0 < e \<and> e < n \<and> page_dirty ws (e - 1) \<and>
     (\<forall>p \<in> {e ..< n}. \<not> page_dirty ws p) \<longrightarrow> \<not> page_dirty ws n)"

text \<open>
  The invariant of the loops after \<open>n\<close> pages: the finished and the open block are runs that
  cover exactly the dirty pages below \<open>n\<close>, and only empty words lie between the open run
  and \<open>n\<close>.
\<close>

definition open_ok :: "u64 list \<Rightarrow> nat \<Rightarrow> nat \<Rightarrow> bool" where
  "open_ok ws n e = (e \<le> n \<and> (e < n \<longrightarrow> 64 dvd n \<and> 64 dvd e) \<and> (\<forall>p \<in> {e ..< n}. \<not> page_dirty ws p))"

definition sync_inv :: "u64 \<Rightarrow> u64 \<Rightarrow> u64 list \<Rightarrow> nat \<Rightarrow> sync_state \<Rightarrow> bool" where
  "sync_inv ps addr ws n st = (\<exists>rs op.
     st = (map (run_block ps addr) rs, map_option (run_block ps addr) op) \<and>
     runs_pages rs op = {p. p < n \<and> page_dirty ws p} \<and>
     (\<forall>s c. op = Some (s, c) \<longrightarrow> open_ok ws n (s + c) \<and> 0 < c))"

lemma sync_invI:
  assumes "st = (map (run_block ps addr) rs, map_option (run_block ps addr) op)"
    and "runs_pages rs op = {p. p < n \<and> page_dirty ws p}"
    and "\<And>s c. op = Some (s, c) \<Longrightarrow> open_ok ws n (s + c) \<and> 0 < c"
  shows "sync_inv ps addr ws n st"
  using assms unfolding sync_inv_def by blast

lemma below_Suc_dirty: "{p. p < Suc n \<and> page_dirty ws p} =
    (if page_dirty ws n then insert n {p. p < n \<and> page_dirty ws p} else {p. p < n \<and> page_dirty ws p})"
  by (auto simp: less_Suc_eq)

lemma runs_pages_close: "runs_pages (rs @ [r]) None = runs_pages rs (Some r)"
  by (auto simp: runs_pages_def)

lemma runs_pages_grow: "runs_pages rs (Some (s, Suc c)) = insert (s + c) (runs_pages rs (Some (s, c)))"
  by (auto simp: runs_pages_def run_pages_def)

lemma runs_pages_open: "runs_pages rs (Some (n, Suc 0)) = insert n (runs_pages rs None)"
  by (auto simp: runs_pages_def run_pages_def)

lemma bit_test: "(drop_bit b (w :: u64) AND 1 = 0) = (\<not> bit w b)"
  by (simp add: bit_iff_odd_drop_bit and_one_eq odd_iff_mod_2_eq_one)

lemma sync_bit_clean:
  "\<not> bit w b \<Longrightarrow> sync_bit ps addr idx w b (blocks, blk) =
     (blocks @ (case blk of None \<Rightarrow> [] | Some e \<Rightarrow> [e]), None)"
  by (simp add: sync_bit_def bit_test split: option.split)

lemma sync_bit_open:
  "bit w b \<Longrightarrow> sync_bit ps addr idx w b (blocks, None) = (blocks, Some (run_block ps addr (idx * 64 + b, Suc 0)))"
  by (simp add: sync_bit_def bit_test run_block_def)

lemma sync_bit_grow:
  "bit w b \<Longrightarrow> sync_bit ps addr idx w b (blocks, Some (run_block ps addr (s, c))) =
     (blocks, Some (run_block ps addr (s, Suc c)))"
  by (simp add: sync_bit_def bit_test run_block_def algebra_simps)

lemma sync_bit_inv:
  assumes inv: "sync_inv ps addr ws (idx * 64 + b) st" and b: "b < 64" and idx: "idx < length ws"
    and gap: "gap_free ws"
  shows "sync_inv ps addr ws (Suc (idx * 64 + b)) (sync_bit ps addr idx (ws ! idx) b st)"
proof -
  define n where "n = idx * 64 + b"
  obtain rs op where st: "st = (map (run_block ps addr) rs, map_option (run_block ps addr) op)"
    and pages: "runs_pages rs op = {p. p < n \<and> page_dirty ws p}"
    and op: "\<And>s c. op = Some (s, c) \<Longrightarrow> open_ok ws n (s + c) \<and> 0 < c"
    using inv unfolding sync_inv_def n_def by blast
  have d: "bit (ws ! idx) b = page_dirty ws n" using b idx by (simp add: page_dirty_def n_def)
  show ?thesis
  proof (cases "page_dirty ws n")
    case False
    let ?rs = "rs @ (case op of None \<Rightarrow> [] | Some r \<Rightarrow> [r])"
    have "runs_pages ?rs None = {p. p < Suc n \<and> page_dirty ws p}"
      using False pages by (auto simp: below_Suc_dirty runs_pages_close split: option.split)
    then show ?thesis
      by (intro sync_invI [where rs = ?rs and op = None])
        (use False d in \<open>auto simp: st sync_bit_clean n_def split: option.split\<close>)
  next
    case True
    show ?thesis
    proof (cases op)
      case None
      show ?thesis
        by (rule sync_invI [where rs = rs and op = "Some (n, Suc 0)"])
          (use True None pages d in \<open>simp_all add: st sync_bit_open below_Suc_dirty runs_pages_open
             open_ok_def flip: n_def\<close>)
    next
      case (Some r)
      obtain s c where r: "r = (s, c)" by (cases r)
      have ok: "open_ok ws n (s + c)" "0 < c" using op Some r by auto
      have "page_dirty ws (s + c - 1)"
        using pages Some r ok(2) by (fastforce simp: runs_pages_def run_pages_def)
      then have e: "s + c = n"
        using gap True ok unfolding gap_free_def open_ok_def by (metis add_gr_0 le_neq_implies_less)
      show ?thesis
        by (rule sync_invI [where rs = rs and op = "Some (s, Suc c)"])
          (use True Some r pages d e in \<open>simp_all add: st sync_bit_grow below_Suc_dirty runs_pages_grow
             open_ok_def flip: n_def\<close>)
    qed
  qed
qed

lemma sync_bits_inv:
  assumes "sync_inv ps addr ws (idx * 64) st" and "idx < length ws" and "gap_free ws" and "k \<le> 64"
  shows "sync_inv ps addr ws (idx * 64 + k) (fold (sync_bit ps addr idx (ws ! idx)) [0..<k] st)"
  using assms(4)
proof (induction k)
  case 0
  then show ?case using assms(1) by simp
next
  case (Suc k)
  then show ?case using sync_bit_inv [OF Suc.IH _ assms(2,3)] by simp
qed

lemma page_dirty_zero_word:
  "ws ! idx = 0 \<Longrightarrow> idx * 64 \<le> p \<Longrightarrow> p < Suc idx * 64 \<Longrightarrow> \<not> page_dirty ws p"
proof -
  assume "ws ! idx = 0" "idx * 64 \<le> p" "p < Suc idx * 64"
  moreover from this have "p div 64 = idx" by (simp add: div_nat_eqI)
  ultimately show "\<not> page_dirty ws p" by (simp add: page_dirty_def)
qed

lemma sync_word_inv:
  assumes inv: "sync_inv ps addr ws (idx * 64) st" and idx: "idx < length ws" and gap: "gap_free ws"
  shows "sync_inv ps addr ws (Suc idx * 64) (sync_word ps addr idx (ws ! idx) st)"
proof (cases "ws ! idx = 0")
  case False
  then show ?thesis using sync_bits_inv [OF assms, of 64] by (simp add: sync_word_def add.commute)
next
  case True
  note clean = page_dirty_zero_word [OF True]
  obtain rs op where st: "st = (map (run_block ps addr) rs, map_option (run_block ps addr) op)"
    and pages: "runs_pages rs op = {p. p < idx * 64 \<and> page_dirty ws p}"
    and op: "\<And>s c. op = Some (s, c) \<Longrightarrow> open_ok ws (idx * 64) (s + c) \<and> 0 < c"
    using inv unfolding sync_inv_def by blast
  have "p < idx * 64" if "p < Suc idx * 64" "page_dirty ws p" for p
    using clean [of p] that by force
  then have "{p. p < Suc idx * 64 \<and> page_dirty ws p} = {p. p < idx * 64 \<and> page_dirty ws p}"
    by force
  moreover have "open_ok ws (Suc idx * 64) e" if ok: "open_ok ws (idx * 64) e" for e
  proof -
    have "64 dvd e" using ok unfolding open_ok_def by (metis dvd_triv_right le_neq_implies_less)
    moreover have "\<not> page_dirty ws p" if "p \<in> {e ..< Suc idx * 64}" for p
      using that ok clean [of p] by (cases "p < idx * 64") (auto simp: open_ok_def)
    ultimately show ?thesis using ok by (auto simp: open_ok_def)
  qed
  ultimately show ?thesis using True op pages
    by (intro sync_invI [where rs = rs and op = op]) (simp_all add: st sync_word_def)
qed

lemma sync_words_inv:
  assumes "gap_free ws" and "sync_inv ps addr ws (idx * 64) st" and "idx \<le> length ws"
  shows "sync_inv ps addr ws (length ws * 64) (sync_words ps addr idx (drop idx ws) st)"
  using assms(2,3)
proof (induction "length ws - idx" arbitrary: idx st)
  case 0
  then show ?case by simp
next
  case (Suc k)
  then have lt: "idx < length ws" by simp
  have "sync_words ps addr idx (drop idx ws) st =
      sync_words ps addr (Suc idx) (drop (Suc idx) ws) (sync_word ps addr idx (ws ! idx) st)"
    using lt by (simp flip: Cons_nth_drop_Suc)
  then show ?case
    using Suc.hyps(1) [OF _ sync_word_inv [OF Suc.prems(1) lt assms(1)]] Suc.hyps(2) lt by simp
qed

text \<open>The bytes of guest memory a block covers.\<close>

definition block_covers :: "mem_block \<Rightarrow> nat \<Rightarrow> bool" where
  "block_covers b x = (unat (mb_gpa b) \<le> x \<and> x < unat (mb_gpa b) + unat (mb_len b))"

lemma unat_of_nat_times:
  assumes "k * unat (q :: u64) < 2 ^ 64"
  shows "unat (of_nat k * q) = k * unat q"
proof -
  have "of_nat k * q = of_nat (k * unat q)" by simp
  with assms show ?thesis by (simp only: unat_of_nat) (simp add: take_bit_eq_mod)
qed

lemma run_block_covers:
  assumes "0 < ps" and "unat addr + n * unat ps < 2 ^ 64" and sub: "run_pages r \<subseteq> {..< n}"
  shows "block_covers (run_block ps addr r) x \<longleftrightarrow> unat addr \<le> x \<and> (x - unat addr) div unat ps \<in> run_pages r"
proof (cases "snd r = 0")
  case True
  then show ?thesis by (simp add: block_covers_def run_block_def run_pages_def)
next
  case False
  obtain s c where r: "r = (s, c)" by (cases r)
  let ?q = "unat ps" and ?a = "unat addr"
  have q: "0 < ?q" using assms(1) by (simp add: word_less_nat_alt)
  have "s + c - 1 \<in> run_pages r" using False r by (auto simp: run_pages_def)
  with sub have "s + c \<le> n" by auto
  then have le: "(s + c) * ?q \<le> n * ?q" by (rule mult_le_mono1)
  then have lt: "?a + s * ?q + c * ?q < 2 ^ 64" using assms(2) by (simp add: algebra_simps)
  then have u: "unat (of_nat s * ps) = s * ?q" "unat (of_nat c * ps) = c * ?q"
    by (simp_all add: unat_of_nat_times)
  have g: "unat (addr + of_nat s * ps) = ?a + s * ?q"
    using lt by (simp add: unat_add_eq u)
  have "?a + s * ?q \<le> x \<and> x < ?a + s * ?q + c * ?q \<longleftrightarrow>
      ?a \<le> x \<and> s * ?q \<le> x - ?a \<and> x - ?a < (s + c) * ?q"
    by (auto simp: algebra_simps)
  also have "\<dots> \<longleftrightarrow> ?a \<le> x \<and> s \<le> (x - ?a) div ?q \<and> (x - ?a) div ?q < s + c"
    using q by (simp add: less_eq_div_iff_mult_less_eq div_less_iff_less_mult)
  finally show ?thesis by (simp add: block_covers_def run_block_def r g u run_pages_def)
qed

lemma sync_dirty_bitmap_runs:
  assumes "gap_free ws"
  shows "\<exists>rs. sync_dirty_bitmap ps ws addr = map (run_block ps addr) rs \<and>
    (\<Union>r \<in> set rs. run_pages r) = {p. page_dirty ws p}"
proof -
  have lt: "page_dirty ws p \<Longrightarrow> p < length ws * 64" for p
    by (auto simp: page_dirty_def)
  have "sync_inv ps addr ws (0 * 64) ([], None)"
    by (rule sync_invI [where rs = "[]" and op = None]) (simp_all add: runs_pages_def)
  from sync_words_inv [OF assms this] obtain rs op where
    st: "sync_words ps addr 0 ws ([], None) = (map (run_block ps addr) rs, map_option (run_block ps addr) op)"
    and pages: "runs_pages rs op = {p. p < length ws * 64 \<and> page_dirty ws p}"
    by (auto simp: sync_inv_def)
  have "runs_pages rs op = {p. page_dirty ws p}" using pages lt by auto
  then show ?thesis
    by (intro exI [of _ "rs @ (case op of None \<Rightarrow> [] | Some r \<Rightarrow> [r])"])
      (auto simp: sync_dirty_bitmap_def st runs_pages_def split: option.splits)
qed

text \<open>
  C34. When the bitmap has no run of dirty pages cut by an empty word, the blocks built from
  it cover exactly the bytes of its dirty pages: nothing that was written is left out of the
  next iteration, and no clean page is sent.
\<close>

theorem sync_dirty_bitmap_exact:
  assumes "0 < ps" and "gap_free ws" and "unat addr + length ws * 64 * unat ps < 2 ^ 64"
  shows "(\<exists>b \<in> set (sync_dirty_bitmap ps ws addr). block_covers b x) \<longleftrightarrow>
    unat addr \<le> x \<and> page_dirty ws ((x - unat addr) div unat ps)"
proof -
  obtain rs where rs: "sync_dirty_bitmap ps ws addr = map (run_block ps addr) rs"
    and pages: "(\<Union>r \<in> set rs. run_pages r) = {p. page_dirty ws p}"
    using sync_dirty_bitmap_runs [OF assms(2)] by blast
  have "{p. page_dirty ws p} \<subseteq> {..< length ws * 64}" by (auto simp: page_dirty_def)
  then have "run_pages r \<subseteq> {..< length ws * 64}" if "r \<in> set rs" for r using pages that by blast
  then have "(\<exists>b \<in> set (sync_dirty_bitmap ps ws addr). block_covers b x) \<longleftrightarrow>
      (\<exists>r \<in> set rs. unat addr \<le> x \<and> (x - unat addr) div unat ps \<in> run_pages r)"
    using run_block_covers [OF assms(1,3)] rs by simp
  also have "\<dots> \<longleftrightarrow> unat addr \<le> x \<and> page_dirty ws ((x - unat addr) div unat ps)"
    using pages by blast
  finally show ?thesis .
qed

theorem sync_dirty_bitmap_exact_witness:
  "(\<exists>b \<in> set (sync_dirty_bitmap 0x1000 [6] 0x10000). block_covers b 0x12fff) \<and>
   \<not> (\<exists>b \<in> set (sync_dirty_bitmap 0x1000 [6] 0x10000). block_covers b 0x13000)"
proof -
  have "gap_free [6]" by (auto simp: gap_free_def page_dirty_def)
  note e = sync_dirty_bitmap_exact [OF _ this, of "0x1000" "0x10000"]
  have "page_dirty [6] 2" "\<not> page_dirty [6] 3" by (simp_all add: page_dirty_def bit_numeral_rec)
  with e [of "0x12fff"] e [of "0x13000"] show ?thesis by simp
qed

text \<open>
  The hypothesis on empty words is needed. With pages 63 and 128 of a slot dirty, the
  empty word between them leaves the block of page 63 open, page 128 is added to it, and
  the result is one block for the pages 63 and 64: the clean page 64 is sent and the dirty
  page 128 is lost.
\<close>

theorem sync_dirty_bitmap_loses_page:
  "page_dirty [0x8000000000000000, 0, 1] 128 \<and> \<not> page_dirty [0x8000000000000000, 0, 1] 64 \<and>
   sync_dirty_bitmap 0x1000 [0x8000000000000000, 0, 1] 0 = [\<lparr>mb_gpa = 63 * 0x1000, mb_len = 2 * 0x1000\<rparr>]"
proof -
  have "page_dirty [0x8000000000000000, 0, 1] 128 \<and> \<not> page_dirty [0x8000000000000000, 0, 1] 64"
    by (simp add: page_dirty_def)
  moreover have "sync_dirty_bitmap 0x1000 [0x8000000000000000, 0, 1] 0 = [\<lparr>mb_gpa = 63 * 0x1000, mb_len = 2 * 0x1000\<rparr>]"
    by code_simp
  ultimately show ?thesis by blast
qed

end
