(* ===== verification/Address.thy ===== *)
theory Address
  imports NumOps
begin

text \<open>
  address_space/src/address.rs: guest addresses and address ranges. A \<open>GuestAddress\<close> is
  the \<open>u64\<close> it wraps. \<open>range_set\<close> gives a range its meaning, the set of naturals from
  its base up to base plus size, without wrap-around; the theorems relate the operations
  on ranges to it.
\<close>

type_synonym guest_address = u64

definition offset_from :: "guest_address \<Rightarrow> guest_address \<Rightarrow> u64" where
  "offset_from self other = self - other"

definition unchecked_add :: "guest_address \<Rightarrow> u64 \<Rightarrow> guest_address" where
  "unchecked_add self off = self + off"

definition unchecked_sub :: "guest_address \<Rightarrow> u64 \<Rightarrow> guest_address" where
  "unchecked_sub self off = self - off"

definition align_up :: "guest_address \<Rightarrow> u64 \<Rightarrow> panic + guest_address option" where
  "align_up self alignment = round_up self alignment"

definition align_down :: "guest_address \<Rightarrow> u64 \<Rightarrow> panic + guest_address option" where
  "align_down self alignment = round_down self alignment"

datatype address_range = AddressRange (ar_base: guest_address) (ar_size: u64)

text \<open>The source orders ranges by base, then by size.\<close>

instantiation address_range :: linorder
begin

definition less_eq_address_range :: "address_range \<Rightarrow> address_range \<Rightarrow> bool" where
  "less_eq_address_range a b =
     (if ar_base a \<noteq> ar_base b then ar_base a < ar_base b else ar_size a \<le> ar_size b)"

definition less_address_range :: "address_range \<Rightarrow> address_range \<Rightarrow> bool" where
  "less_address_range a b =
     (if ar_base a \<noteq> ar_base b then ar_base a < ar_base b else ar_size a < ar_size b)"

instance
  by standard
    (auto simp: less_eq_address_range_def less_address_range_def intro: address_range.expand
      split: if_splits)

end

definition find_intersection :: "address_range \<Rightarrow> address_range \<Rightarrow> address_range option" where
  "find_intersection self other =
     (let begin = unat (ar_base self);
          fin = unat (ar_size self) + begin;
          other_begin = unat (ar_base other);
          other_end = unat (ar_size other) + other_begin
      in if fin \<le> other_begin \<or> other_end \<le> begin then None
         else let start = max (ar_base self) (ar_base other);
                  size_inter = of_nat (min fin other_end - unat start)
              in Some (AddressRange start size_inter))"

definition end_addr :: "address_range \<Rightarrow> guest_address" where
  "end_addr r = unchecked_add (ar_base r) (ar_size r)"

section \<open>Meaning of a range\<close>

definition range_set :: "address_range \<Rightarrow> nat set" where
  "range_set r = {unat (ar_base r) ..< unat (ar_base r) + unat (ar_size r)}"

text \<open>The range ends inside the 64-bit space, so its end address is exact.\<close>

definition range_ok :: "address_range \<Rightarrow> bool" where
  "range_ok r = (unat (ar_base r) + unat (ar_size r) < 2 ^ 64)"

lemma unat_end_addr:
  "range_ok r \<Longrightarrow> unat (end_addr r) = unat (ar_base r) + unat (ar_size r)"
  by (simp add: range_ok_def end_addr_def unchecked_add_def unat_add_eq)

lemma range_set_empty: "range_set r = {} \<longleftrightarrow> ar_size r = 0"
  by (simp add: range_set_def unat_eq_zero [symmetric] del: unat_eq_zero)

lemma in_range_set_base: "ar_size r \<noteq> 0 \<Longrightarrow> unat (ar_base r) \<in> range_set r"
  by (simp add: range_set_def unat_gt_0)

lemma find_intersection_unat:
  assumes "find_intersection a b = Some r"
  shows "unat (ar_base r) = max (unat (ar_base a)) (unat (ar_base b))"
    and "unat (ar_base r) + unat (ar_size r) =
      min (unat (ar_base a) + unat (ar_size a)) (unat (ar_base b) + unat (ar_size b))"
proof -
  let ?f = "min (unat (ar_size a) + unat (ar_base a)) (unat (ar_size b) + unat (ar_base b))"
  have ov: "unat (ar_base b) < unat (ar_size a) + unat (ar_base a)"
      "unat (ar_base a) < unat (ar_size b) + unat (ar_base b)"
    and r: "r = AddressRange (max (ar_base a) (ar_base b))
      (of_nat (?f - unat (max (ar_base a) (ar_base b))))"
    using assms by (auto simp: find_intersection_def Let_def split: if_splits)
  show base: "unat (ar_base r) = max (unat (ar_base a)) (unat (ar_base b))"
    by (simp add: r unat_simps)
  have le: "unat (max (ar_base a) (ar_base b)) \<le> ?f"
    using ov by (simp add: unat_simps)
  have "?f - unat (max (ar_base a) (ar_base b)) \<le> unat (ar_size a)"
    by (simp add: unat_simps)
  then have "?f - unat (max (ar_base a) (ar_base b)) < 2 ^ 64"
    using le_less_trans [OF _ unat_lt_64 [of "ar_size a"]] by simp
  then have "unat (ar_size r) = ?f - unat (max (ar_base a) (ar_base b))"
    by (simp add: r unat_of_nat take_bit_nat_eq_self del: of_nat_diff)
  with le show "unat (ar_base r) + unat (ar_size r) =
      min (unat (ar_base a) + unat (ar_size a)) (unat (ar_base b) + unat (ar_size b))"
    by (simp add: r add.commute)
qed

lemma find_intersection_None_disjoint:
  "find_intersection a b = None \<Longrightarrow> range_set a \<inter> range_set b = {}"
  by (auto simp: find_intersection_def Let_def range_set_def split: if_splits)

lemma find_intersection_range_set:
  "find_intersection a b = Some r \<Longrightarrow> range_set r = range_set a \<inter> range_set b"
  using find_intersection_unat [of a b r] by (auto simp: range_set_def)

lemma find_intersection_ok:
  "find_intersection a b = Some r \<Longrightarrow> range_ok a \<or> range_ok b \<Longrightarrow> range_ok r"
  using find_intersection_unat [of a b r] by (auto simp: range_ok_def)

lemma find_intersection_nonempty:
  assumes "find_intersection a b = Some r" and "range_set a \<noteq> {}" and "range_set b \<noteq> {}"
  shows "range_set r \<noteq> {}"
proof -
  have "unat (ar_base b) < unat (ar_size a) + unat (ar_base a)"
      "unat (ar_base a) < unat (ar_size b) + unat (ar_base b)"
    using assms(1) by (auto simp: find_intersection_def Let_def split: if_splits)
  with assms find_intersection_unat [OF assms(1)] show ?thesis
    unfolding range_set_def by auto
qed

lemma find_intersection_None_iff:
  assumes "ar_size a \<noteq> 0" and "ar_size b \<noteq> 0"
  shows "find_intersection a b = None \<longleftrightarrow> range_set a \<inter> range_set b = {}"
  using find_intersection_None_disjoint [of a b] find_intersection_range_set [of a b]
    find_intersection_nonempty [of a b] assms
  by (cases "find_intersection a b") (auto simp: range_set_empty)

text \<open>
  An empty range strictly inside another one does give a (zero-sized) intersection, so
  \<open>is_some()\<close> is not a test for common addresses when one of the ranges may be empty.
\<close>

lemma find_intersection_empty_inside:
  assumes "unat (ar_base b) < unat a" and "unat a < unat (ar_base b) + unat (ar_size b)"
  shows "find_intersection (AddressRange a 0) b \<noteq> None"
  using assms by (simp add: find_intersection_def Let_def)

text \<open>
  The intersection of two address ranges: when the function returns a range, that
  range is the set of common addresses; when it returns none, there is no common address;
  and for two non-empty ranges it returns a range exactly when they share an address.
\<close>

theorem find_intersection_spec:
  "(case find_intersection a b of
      None \<Rightarrow> range_set a \<inter> range_set b = {}
    | Some r \<Rightarrow> range_set r = range_set a \<inter> range_set b \<and>
        (range_set a \<noteq> {} \<and> range_set b \<noteq> {} \<longrightarrow> range_set r \<noteq> {}))"
  using find_intersection_None_disjoint [of a b] find_intersection_range_set [of a b]
    find_intersection_nonempty [of a b]
  by (auto split: option.split)

theorem find_intersection_spec_witness:
  "find_intersection (AddressRange 0x1000 0x1000) (AddressRange 0x1800 0x1000) =
     Some (AddressRange 0x1800 0x800) \<and>
   range_set (AddressRange 0x1800 0x800) =
     range_set (AddressRange 0x1000 0x1000) \<inter> range_set (AddressRange 0x1800 0x1000)"
proof -
  have f: "find_intersection (AddressRange 0x1000 0x1000) (AddressRange 0x1800 0x1000) =
     Some (AddressRange 0x1800 0x800)"
    by (simp add: find_intersection_def Let_def max_def)
  with find_intersection_spec [of "AddressRange 0x1000 0x1000" "AddressRange 0x1800 0x1000"]
  show ?thesis by simp
qed

end
