(* ===== verification/Region.thy ===== *)
theory Region
  imports Address Migration
begin

text \<open>
  address_space/src/region.rs: memory regions, the tree they form, and reading and writing
  one region. The fields of a Rust \<open>Region\<close> are shared cells (\<open>Arc\<close>), and a clone is
  another handle on the same cells, so a region is a name (\<open>rid\<close>) in a store from names
  to region records; the identity test of the code (\<open>Arc::as_ptr\<close> of the cells) is
  equality of names. Subregions, the alias target and the address space a region belongs
  to are names too. The device behind an IO region is a pair of functions on a device
  state of type \<open>'d\<close>, which the device's own code would provide.
\<close>

section \<open>Data\<close>

type_synonym rid = nat
type_synonym sid = nat

datatype region_type = Ram | IO | Container | RomDevice | RamDevice | Alias

datatype as_error =
    EAddrAlignUp u64 u64
  | ERegionNotFound u64
  | EOverflow u64
  | EIoAccess u64 u64 u64
  | ERegionType region_type
  | ENoAvailKvmSlot nat
  | ENoMatchedKvmSlot u64 u64
  | EKvmSlotOverlap "u64 \<times> u64" "u64 \<times> u64"
  | EIo
  | EKvmIoctl
  | EBail
  | EPanic panic

record file_backend =
  fb_offset :: u64
  fb_page_size :: u64

record host_mem_mapping =
  hm_range :: address_range
  hm_host_addr :: u64
  hm_file_back :: "file_backend option"
  hm_is_share :: bool

definition hm_size :: "host_mem_mapping \<Rightarrow> u64" where
  "hm_size h = ar_size (hm_range h)"

definition hm_start_address :: "host_mem_mapping \<Rightarrow> guest_address" where
  "hm_start_address h = ar_base (hm_range h)"

text \<open>
  \<open>RegionOps\<close>: the read function fills the slice it is given, the write function consumes
  it; both report success.
\<close>

record 'd region_ops =
  op_read :: "u8 list \<Rightarrow> guest_address \<Rightarrow> u64 \<Rightarrow> 'd \<Rightarrow> (bool \<times> u8 list) \<times> 'd"
  op_write :: "u8 list \<Rightarrow> guest_address \<Rightarrow> u64 \<Rightarrow> 'd \<Rightarrow> bool \<times> 'd"

record io_event_fd =
  ev_fd :: int
  ev_range :: address_range
  ev_data_match :: bool
  ev_data :: u64

definition ev_after :: "io_event_fd \<Rightarrow> io_event_fd \<Rightarrow> bool" where
  "ev_after self other = (ar_base (ev_range other) + ar_size (ev_range other) \<le> ar_base (ev_range self))"

record 'd region =
  r_name :: string
  r_type :: region_type
  r_priority :: i32
  r_size :: u64
  r_offset :: guest_address
  mem_mapping :: "host_mem_mapping option"
  r_ops :: "'d region_ops option"
  io_evtfds :: "io_event_fd list"
  r_space :: "sid option"
  r_subregions :: "rid list"
  rom_dev_romd :: bool
  max_access_size :: "u64 option"
  r_alias :: "rid option"
  r_alias_offset :: u64

type_synonym 'd store = "rid \<Rightarrow> 'd region"

record flat_range =
  fr_range :: address_range
  fr_owner :: rid
  fr_offset :: u64
  fr_romd :: "bool option"

type_synonym flat_view = "flat_range list"

text \<open>\<open>PartialEq for FlatRange\<close>: an absent read-only mode counts as \<open>false\<close>.\<close>

definition fr_eq :: "'d store \<Rightarrow> flat_range \<Rightarrow> flat_range \<Rightarrow> bool" where
  "fr_eq st a b = (fr_range a = fr_range b \<and> r_type (st (fr_owner a)) = r_type (st (fr_owner b)) \<and>
     (fr_romd a = Some True) = (fr_romd b = Some True) \<and> fr_owner a = fr_owner b \<and>
     fr_offset a = fr_offset b)"

section \<open>Construction and accessors\<close>

definition init_region_internal ::
    "string \<Rightarrow> u64 \<Rightarrow> region_type \<Rightarrow> host_mem_mapping option \<Rightarrow> 'd region_ops option \<Rightarrow> 'd region" where
  "init_region_internal name sz ty mm ops =
     \<lparr>r_name = name, r_type = ty, r_priority = 0, r_size = sz, r_offset = 0, mem_mapping = mm,
      r_ops = ops, io_evtfds = [], r_space = None, r_subregions = [], rom_dev_romd = False,
      max_access_size = None, r_alias = None, r_alias_offset = 0\<rparr>"

definition init_ram_region :: "host_mem_mapping \<Rightarrow> string \<Rightarrow> 'd region" where
  "init_ram_region mm name = init_region_internal name (hm_size mm) Ram (Some mm) None"

definition init_io_region :: "u64 \<Rightarrow> 'd region_ops \<Rightarrow> string \<Rightarrow> 'd region" where
  "init_io_region sz ops name = init_region_internal name sz IO None (Some ops)"

definition set_access_size :: "'d region \<Rightarrow> u64 \<Rightarrow> 'd region" where
  "set_access_size r access_size = r\<lparr>max_access_size := Some access_size\<rparr>"

definition init_container_region :: "u64 \<Rightarrow> string \<Rightarrow> 'd region" where
  "init_container_region sz name = init_region_internal name sz Container None None"

definition init_rom_device_region :: "host_mem_mapping \<Rightarrow> 'd region_ops \<Rightarrow> string \<Rightarrow> 'd region" where
  "init_rom_device_region mm ops name =
     (init_region_internal name (hm_size mm) RomDevice (Some mm) (Some ops))\<lparr>rom_dev_romd := True\<rparr>"

definition init_ram_device_region :: "host_mem_mapping \<Rightarrow> string \<Rightarrow> 'd region" where
  "init_ram_device_region mm name = init_region_internal name (hm_size mm) RamDevice (Some mm) None"

definition init_alias_region :: "rid \<Rightarrow> u64 \<Rightarrow> u64 \<Rightarrow> string \<Rightarrow> 'd region" where
  "init_alias_region al off sz name =
     (init_region_internal name sz Alias None None)\<lparr>r_alias := Some al, r_alias_offset := off\<rparr>"

definition set_priority :: "rid \<Rightarrow> i32 \<Rightarrow> 'd store \<Rightarrow> 'd store" where
  "set_priority r prior st = st(r := (st r)\<lparr>r_priority := prior\<rparr>)"

definition set_offset :: "rid \<Rightarrow> guest_address \<Rightarrow> 'd store \<Rightarrow> 'd store" where
  "set_offset r off st = st(r := (st r)\<lparr>r_offset := off\<rparr>)"

definition set_belonged_address_space :: "rid \<Rightarrow> sid \<Rightarrow> 'd store \<Rightarrow> 'd store" where
  "set_belonged_address_space r sp st = st(r := (st r)\<lparr>r_space := Some sp\<rparr>)"

definition del_belonged_address_space :: "rid \<Rightarrow> 'd store \<Rightarrow> 'd store" where
  "del_belonged_address_space r st = st(r := (st r)\<lparr>r_space := None\<rparr>)"

definition set_ioeventfds :: "rid \<Rightarrow> io_event_fd list \<Rightarrow> 'd store \<Rightarrow> 'd store" where
  "set_ioeventfds r fds st = st(r := (st r)\<lparr>io_evtfds := fds\<rparr>)"

definition alias_name :: "'d store \<Rightarrow> 'd region \<Rightarrow> string option" where
  "alias_name st r = map_option (\<lambda>a. r_name (st a)) (r_alias r)"

definition host_backed :: "region_type \<Rightarrow> bool" where
  "host_backed ty = (\<not> (ty \<noteq> Ram \<and> ty \<noteq> RamDevice \<and> ty \<noteq> RomDevice))"

definition start_addr :: "'d region \<Rightarrow> guest_address option" where
  "start_addr r = (if host_backed (r_type r) then map_option hm_start_address (mem_mapping r) else None)"

definition get_rom_device_romd :: "'d region \<Rightarrow> bool option" where
  "get_rom_device_romd r = (if r_type r \<noteq> RomDevice then None else Some (rom_dev_romd r))"

definition region_host_address :: "'d region \<Rightarrow> u64 option" where
  "region_host_address r = (if host_backed (r_type r) then map_option hm_host_addr (mem_mapping r) else None)"

definition get_host_share :: "'d region \<Rightarrow> bool option" where
  "get_host_share r = (if host_backed (r_type r) then map_option hm_is_share (mem_mapping r) else None)"

definition get_file_backend :: "'d region \<Rightarrow> file_backend option" where
  "get_file_backend r = Option.bind (mem_mapping r) hm_file_back"

definition get_region_page_size :: "'d region \<Rightarrow> u64 option" where
  "get_region_page_size r = map_option fb_page_size (Option.bind (mem_mapping r) hm_file_back)"

definition check_valid_offset :: "'d region \<Rightarrow> u64 \<Rightarrow> u64 \<Rightarrow> as_error + unit" where
  "check_valid_offset r addr sz =
     (case checked_add addr sz of
        Some e \<Rightarrow> if e \<le> r_size r then Inr () else Inl (EOverflow addr)
      | None \<Rightarrow> Inl (EOverflow addr))"

definition get_region_type_name :: "'d region \<Rightarrow> string" where
  "get_region_type_name r =
     (case r_type r of Ram \<Rightarrow> ''ram'' | IO \<Rightarrow> ''i/o'' | RomDevice \<Rightarrow> ''romd'' | RamDevice \<Rightarrow> ''ramd''
      | _ \<Rightarrow> ''err type'')"

section \<open>Access to one region\<close>

text \<open>
  What an access reaches: the process's memory, the migration manager (for the dirty log)
  and the device state.
\<close>

record 'd machine =
  ms_mem :: memory
  ms_mm :: migration_manager
  ms_dev :: 'd

text \<open>
  The destination of a read is a \<open>&mut [u8]\<close> used as \<open>std::io::Write\<close>: what was written,
  and the room that is left. The source of a write is a \<open>&[u8]\<close> used as \<open>std::io::Read\<close>.
\<close>

record writer =
  w_out :: "u8 list"
  w_room :: nat

definition write_all :: "u8 list \<Rightarrow> writer \<Rightarrow> (as_error + unit) \<times> writer" where
  "write_all bs w =
     (let k = min (length bs) (w_room w);
          w' = \<lparr>w_out = w_out w @ take k bs, w_room = w_room w - k\<rparr>
      in if length bs \<le> w_room w then (Inr (), w') else (Inl EIo, w'))"

definition read_exact :: "nat \<Rightarrow> u8 list \<Rightarrow> (as_error + u8 list) \<times> u8 list" where
  "read_exact n src = (if n \<le> length src then (Inr (take n src), drop n src) else (Inl EIo, []))"

definition splice :: "nat \<Rightarrow> u8 list \<Rightarrow> u8 list \<Rightarrow> u8 list" where
  "splice pos out buf = take pos buf @ out @ drop (pos + length out) buf"

text \<open>
  \<open>rw_multi_ops!\<close> for a read: \<open>k\<close> more full accesses at \<open>pos\<close>, then the rest.
\<close>

fun multi_read_full ::
    "'d region_ops \<Rightarrow> guest_address \<Rightarrow> u64 \<Rightarrow> u64 \<Rightarrow> nat \<Rightarrow> u64 \<Rightarrow> u8 list \<Rightarrow> 'd \<Rightarrow> (as_error + u64 \<times> u8 list) \<times> 'd" where
  "multi_read_full ops base off acc 0 pos buf d = (Inr (pos, buf), d)"
| "multi_read_full ops base off acc (Suc k) pos buf d =
     (case op_read ops (take (unat acc) (drop (unat pos) buf)) base (off + pos) d of
        ((ok, out), d') \<Rightarrow>
          if \<not> ok then (Inl (EIoAccess base (off + pos) acc), d')
          else multi_read_full ops base off acc k (pos + acc) (splice (unat pos) out buf) d')"

definition multi_read ::
    "'d region_ops \<Rightarrow> guest_address \<Rightarrow> u64 \<Rightarrow> u64 \<Rightarrow> u64 \<Rightarrow> u8 list \<Rightarrow> 'd \<Rightarrow> (as_error + u8 list) \<times> 'd" where
  "multi_read ops base off cnt acc buf d =
     (if acc = 0 then (Inl (EPanic DivByZero), d)
      else case multi_read_full ops base off acc (unat (cnt div acc)) 0 buf d of
             (Inl e, d') \<Rightarrow> (Inl e, d')
           | (Inr (pos, buf'), d') \<Rightarrow>
               if cnt mod acc > 0
               then (case op_read ops (drop (unat pos) buf') base (off + pos) d' of
                       ((ok, out), d'') \<Rightarrow>
                         if \<not> ok then (Inl (EIoAccess base (off + pos) (cnt - pos)), d'')
                         else (Inr (splice (unat pos) out buf'), d''))
               else (Inr buf', d'))"

fun multi_write_full ::
    "'d region_ops \<Rightarrow> guest_address \<Rightarrow> u64 \<Rightarrow> u64 \<Rightarrow> nat \<Rightarrow> u64 \<Rightarrow> u8 list \<Rightarrow> 'd \<Rightarrow> (as_error + u64) \<times> 'd" where
  "multi_write_full ops base off acc 0 pos buf d = (Inr pos, d)"
| "multi_write_full ops base off acc (Suc k) pos buf d =
     (case op_write ops (take (unat acc) (drop (unat pos) buf)) base (off + pos) d of
        (ok, d') \<Rightarrow>
          if \<not> ok then (Inl (EIoAccess base (off + pos) acc), d')
          else multi_write_full ops base off acc k (pos + acc) buf d')"

definition multi_write ::
    "'d region_ops \<Rightarrow> guest_address \<Rightarrow> u64 \<Rightarrow> u64 \<Rightarrow> u64 \<Rightarrow> u8 list \<Rightarrow> 'd \<Rightarrow> (as_error + unit) \<times> 'd" where
  "multi_write ops base off cnt acc buf d =
     (if acc = 0 then (Inl (EPanic DivByZero), d)
      else case multi_write_full ops base off acc (unat (cnt div acc)) 0 buf d of
             (Inl e, d') \<Rightarrow> (Inl e, d')
           | (Inr pos, d') \<Rightarrow>
               if cnt mod acc > 0
               then (case op_write ops (drop (unat pos) buf) base (off + pos) d' of
                       (ok, d'') \<Rightarrow>
                         if \<not> ok then (Inl (EIoAccess base (off + pos) (cnt - pos)), d'')
                         else (Inr (), d''))
               else (Inr (), d'))"

definition region_read ::
    "'d region \<Rightarrow> guest_address \<Rightarrow> u64 \<Rightarrow> u64 \<Rightarrow> writer \<times> 'd machine \<Rightarrow> (as_error + unit) \<times> writer \<times> 'd machine" where
  "region_read r base off cnt = (\<lambda>(dst, m).
     let from_host = (\<lambda>_ :: unit. case mem_mapping r of
             None \<Rightarrow> (Inl (EPanic UnwrapNone), dst, m)
           | Some mm \<Rightarrow> (case write_all (load (ms_mem m) (hm_host_addr mm + off) (unat cnt)) dst of
                           (res, dst') \<Rightarrow> (res, dst', m)))
     in case r_type r of
          Ram \<Rightarrow> (case check_valid_offset r off cnt of Inl e \<Rightarrow> (Inl e, dst, m) | Inr _ \<Rightarrow> from_host ())
        | RamDevice \<Rightarrow> (case check_valid_offset r off cnt of Inl e \<Rightarrow> (Inl e, dst, m) | Inr _ \<Rightarrow> from_host ())
        | RomDevice \<Rightarrow>
            (case check_valid_offset r off cnt of
               Inl e \<Rightarrow> (Inl e, dst, m)
             | Inr _ \<Rightarrow>
                 if rom_dev_romd r then from_host ()
                 else (case r_ops r of
                         None \<Rightarrow> (Inl (EPanic UnwrapNone), dst, m)
                       | Some ops \<Rightarrow>
                           (case op_read ops (replicate (unat cnt) 0) base off (ms_dev m) of
                              ((ok, out), d) \<Rightarrow>
                                if \<not> ok then (Inl (EIoAccess base off cnt), dst, m\<lparr>ms_dev := d\<rparr>)
                                else (case write_all out dst of (res, dst') \<Rightarrow> (res, dst', m\<lparr>ms_dev := d\<rparr>)))))
        | IO \<Rightarrow>
            (case r_ops r of
               None \<Rightarrow> (Inl (EPanic UnwrapNone), dst, m)
             | Some ops \<Rightarrow>
                 (let (res, d) =
                    (case max_access_size r of
                       Some acc \<Rightarrow>
                         if cnt > acc then multi_read ops base off cnt acc (replicate (unat cnt) 0) (ms_dev m)
                         else (case op_read ops (replicate (unat cnt) 0) base off (ms_dev m) of
                                 ((ok, out), d) \<Rightarrow> (if ok then Inr out else Inl (EIoAccess base off cnt), d))
                     | None \<Rightarrow> (case op_read ops (replicate (unat cnt) 0) base off (ms_dev m) of
                                 ((ok, out), d) \<Rightarrow> (if ok then Inr out else Inl (EIoAccess base off cnt), d)))
                  in case res of
                       Inl e \<Rightarrow> (Inl e, dst, m\<lparr>ms_dev := d\<rparr>)
                     | Inr out \<Rightarrow> (case write_all out dst of (res, dst') \<Rightarrow> (res, dst', m\<lparr>ms_dev := d\<rparr>))))
        | _ \<Rightarrow> (Inl (ERegionType (r_type r)), dst, m))"

definition region_write ::
    "'d region \<Rightarrow> guest_address \<Rightarrow> u64 \<Rightarrow> u64 \<Rightarrow> u8 list \<times> 'd machine \<Rightarrow> (as_error + unit) \<times> u8 list \<times> 'd machine" where
  "region_write r base off cnt = (\<lambda>(src, m).
     let to_host = (\<lambda>_ :: unit. case mem_mapping r of
             None \<Rightarrow> (Inl (EPanic UnwrapNone), src, m)
           | Some mm \<Rightarrow>
               (case mark_dirty_log (hm_host_addr mm + off) cnt (ms_mm m) of
                  Inl p \<Rightarrow> (Inl (EPanic p), src, m)
                | Inr mg \<Rightarrow>
                    (let m' = m\<lparr>ms_mm := mg\<rparr>
                     in case read_exact (unat cnt) src of
                          (Inl e, src') \<Rightarrow> (Inl e, src', m')
                        | (Inr bs, src') \<Rightarrow>
                            (Inr (), src', m'\<lparr>ms_mem := store (ms_mem m) (hm_host_addr mm + off) bs\<rparr>))));
         to_dev = (\<lambda>_ :: unit.
           if cnt \<ge> - 1 then (Inl (EOverflow cnt), src, m)
           else case read_exact (unat cnt) src of
                  (Inl e, src') \<Rightarrow> (Inl e, src', m)
                | (Inr bs, src') \<Rightarrow>
                    (case r_ops r of
                       None \<Rightarrow> (Inl (EPanic UnwrapNone), src', m)
                     | Some ops \<Rightarrow>
                         (let (res, d) =
                            (case max_access_size r of
                               Some acc \<Rightarrow>
                                 if cnt > acc then multi_write ops base off cnt acc bs (ms_dev m)
                                 else (case op_write ops bs base off (ms_dev m) of
                                         (ok, d) \<Rightarrow> (if ok then Inr () else Inl (EIoAccess base off cnt), d))
                             | None \<Rightarrow> (case op_write ops bs base off (ms_dev m) of
                                         (ok, d) \<Rightarrow> (if ok then Inr () else Inl (EIoAccess base off cnt), d)))
                          in (res, src', m\<lparr>ms_dev := d\<rparr>))))
     in case check_valid_offset r off cnt of
          Inl e \<Rightarrow> (Inl e, src, m)
        | Inr _ \<Rightarrow>
            (case r_type r of
               Ram \<Rightarrow> to_host ()
             | RamDevice \<Rightarrow> to_host ()
             | RomDevice \<Rightarrow> to_dev ()
             | IO \<Rightarrow> to_dev ()
             | _ \<Rightarrow> (Inl (ERegionType (r_type r)), src, m)))"

section \<open>The tree of regions\<close>

fun insert_subregion :: "'d store \<Rightarrow> rid \<Rightarrow> rid list \<Rightarrow> rid list" where
  "insert_subregion st child [] = [child]"
| "insert_subregion st child (s # ss) =
     (if sint (r_priority (st child)) \<ge> sint (r_priority (st s)) then child # s # ss
      else s # insert_subregion st child ss)"

definition add_subregion_not_update ::
    "rid \<Rightarrow> rid \<Rightarrow> u64 \<Rightarrow> 'd store \<Rightarrow> (as_error + unit) \<times> 'd store" where
  "add_subregion_not_update self child off st =
     (if r_type (st self) \<noteq> Container then (Inl (ERegionType (r_type (st self))), st)
      else case check_valid_offset (st self) off (r_size (st child)) of
             Inl e \<Rightarrow> (Inl e, st)
           | Inr _ \<Rightarrow>
               (let st1 = set_offset child off st;
                    st2 = (case r_space (st1 self) of
                             Some sp \<Rightarrow> set_belonged_address_space child sp st1
                           | None \<Rightarrow> st1)
                in (Inr (), st2(self := (st2 self)\<lparr>r_subregions :=
                      insert_subregion st2 child (r_subregions (st2 self))\<rparr>))))"

definition remove_subregion :: "rid \<Rightarrow> rid \<Rightarrow> 'd store \<Rightarrow> (as_error + unit) \<times> 'd store" where
  "remove_subregion self child st =
     (if r_type (st self) \<noteq> Container then (Inl (ERegionType (r_type (st self))), st)
      else if child \<in> set (r_subregions (st self))
           then (Inr (), st(self := (st self)\<lparr>r_subregions := remove1 child (r_subregions (st self))\<rparr>))
           else (Inl (ERegionNotFound (r_offset (st child))), st))"

end
