(* ===== verification/FlatView.thy ===== *)
theory FlatView
  imports Region
begin

text \<open>
  The flat view of an address space: rendering the tree of regions into a list of ranges
  (\<open>render_region_pass\<close>, \<open>render_terminate_region\<close>, \<open>generate_flatview\<close> of
  address_space/src/region.rs), finding the range of an address (\<open>find_flatrange\<close> of
  address_space/src/address_space.rs) and reading and writing through it. Rendering is
  proved against \<open>resolve\<close>, which says for a single address which region answers it.
\<close>

section \<open>Rendering\<close>

definition new_range :: "'d store \<Rightarrow> rid \<Rightarrow> guest_address \<Rightarrow> u64 \<Rightarrow> u64 \<Rightarrow> flat_range" where
  "new_range st r start sz off =
     \<lparr>fr_range = AddressRange start sz, fr_owner = r, fr_offset = off,
      fr_romd = get_rom_device_romd (st r)\<rparr>"

text \<open>
  The loop of \<open>render_terminate_region\<close> over the ranges already in the view, from the
  current index on: it fills the gaps between them with pieces of the region.
\<close>

fun render_loop :: "'d store \<Rightarrow> rid \<Rightarrow> guest_address \<Rightarrow> u64 \<Rightarrow> u64 \<Rightarrow> flat_view \<Rightarrow> flat_view" where
  "render_loop st r start off remain [] =
     (if remain > 0 then [new_range st r start remain off] else [])"
| "render_loop st r start off remain (fr # frs) =
     (if start \<ge> end_addr (fr_range fr) then fr # render_loop st r start off remain frs
      else let pre = (if start < ar_base (fr_range fr)
                      then [new_range st r start
                              (min remain (offset_from (ar_base (fr_range fr)) start)) off]
                      else []);
               step = min (offset_from (end_addr (fr_range fr)) start) remain
           in if remain - step = 0 then pre @ fr # frs
              else pre @ fr # render_loop st r (unchecked_add start step) (off + step) (remain - step) frs)"

definition region_range :: "'d store \<Rightarrow> rid \<Rightarrow> guest_address \<Rightarrow> address_range" where
  "region_range st r base = AddressRange (unchecked_add base (r_offset (st r))) (r_size (st r))"

definition render_terminate_region ::
    "'d store \<Rightarrow> rid \<Rightarrow> guest_address \<Rightarrow> address_range \<Rightarrow> flat_view \<Rightarrow> as_error + flat_view" where
  "render_terminate_region st r base addr_range fv =
     (case find_intersection (region_range st r base) addr_range of
        None \<Rightarrow> Inl EBail
      | Some intersect \<Rightarrow>
          Inr (render_loop st r (ar_base intersect)
                 (offset_from (ar_base intersect) (ar_base (region_range st r base)))
                 (ar_size intersect) fv))"

text \<open>
  The loop over the subregions of a container, with the first error returned at once.
  \<open>None\<close> stands for a recursion that did not end within the fuel.
\<close>

fun render_each ::
    "(rid \<Rightarrow> flat_view \<Rightarrow> (as_error + flat_view) option) \<Rightarrow> rid list \<Rightarrow> flat_view \<Rightarrow> (as_error + flat_view) option" where
  "render_each f [] fv = Some (Inr fv)"
| "render_each f (s # ss) fv =
     (case f s fv of
        None \<Rightarrow> None
      | Some (Inl e) \<Rightarrow> Some (Inl e)
      | Some (Inr fv') \<Rightarrow> render_each f ss fv')"

fun render_region_pass ::
    "nat \<Rightarrow> 'd store \<Rightarrow> rid \<Rightarrow> guest_address \<Rightarrow> address_range \<Rightarrow> flat_view \<Rightarrow> (as_error + flat_view) option" where
  "render_region_pass 0 st r base addr_range fv = None"
| "render_region_pass (Suc n) st r base addr_range fv =
     (case find_intersection (region_range st r base) addr_range of
        None \<Rightarrow> Some (Inr fv)
      | Some intersect \<Rightarrow>
          (case r_type (st r) of
             Container \<Rightarrow>
               render_each (\<lambda>s. render_region_pass n st s (ar_base (region_range st r base)) intersect)
                 (r_subregions (st r)) fv
           | Alias \<Rightarrow>
               (case r_alias (st r) of
                  None \<Rightarrow> Some (Inr fv)
                | Some al \<Rightarrow>
                    render_region_pass n st al
                      (unchecked_sub (unchecked_sub (ar_base (region_range st r base)) (r_alias_offset (st r)))
                         (r_offset (st al)))
                      intersect fv)
           | _ \<Rightarrow> Some (render_terminate_region st r base addr_range fv)))"

definition generate_flatview ::
    "nat \<Rightarrow> 'd store \<Rightarrow> rid \<Rightarrow> guest_address \<Rightarrow> address_range \<Rightarrow> (as_error + flat_view) option" where
  "generate_flatview n st r base addr_range =
     (if r_type (st r) = Container then render_region_pass n st r base addr_range []
      else Some (Inl EBail))"

section \<open>Finding a range\<close>

text \<open>
  \<open>slice::binary_search_by_key\<close> of the standard library: \<open>Inr i\<close> for a hit at index \<open>i\<close>,
  \<open>Inl i\<close> for the index where the key would be inserted.
\<close>

function bsearch :: "(nat \<Rightarrow> u64) \<Rightarrow> u64 \<Rightarrow> nat \<Rightarrow> nat \<Rightarrow> nat + nat" where
  "bsearch key a lo hi =
     (if lo < hi
      then let mid = lo + (hi - lo) div 2
           in if key mid = a then Inr mid
              else if key mid < a then bsearch key a (mid + 1) hi
              else bsearch key a lo mid
      else Inl lo)"
  by pat_completeness auto

termination
  by (relation "measure (\<lambda>(key, a, lo, hi). hi - lo)") auto

declare bsearch.simps [simp del]

definition find_flatrange :: "flat_view \<Rightarrow> guest_address \<Rightarrow> flat_range option" where
  "find_flatrange fv addr =
     (case bsearch (\<lambda>i. ar_base (fr_range (fv ! i))) addr 0 (length fv) of
        Inr x \<Rightarrow> Some (fv ! x)
      | Inl x \<Rightarrow> if 0 < x \<and> addr < end_addr (fr_range (fv ! (x - 1))) then Some (fv ! (x - 1)) else None)"

section \<open>Access through the view\<close>

text \<open>
  One turn of the loops of \<open>FlatView::read\<close> and \<open>FlatView::write\<close>: the length of this
  access and its place in the region.
\<close>

definition is_ram :: "region_type \<Rightarrow> bool" where
  "is_ram ty = (ty = Ram \<or> ty = RamDevice)"

definition access_len :: "'d store \<Rightarrow> flat_range \<Rightarrow> guest_address \<Rightarrow> u64 \<Rightarrow> u64" where
  "access_len st fr start l =
     (if is_ram (r_type (st (fr_owner fr)))
      then min l (ar_size (fr_range fr) - offset_from start (ar_base (fr_range fr))) else l)"

definition access_region_offset :: "flat_range \<Rightarrow> guest_address \<Rightarrow> u64" where
  "access_region_offset fr start = fr_offset fr + offset_from start (ar_base (fr_range fr))"

definition access_region_base :: "flat_range \<Rightarrow> guest_address" where
  "access_region_base fr = unchecked_sub (ar_base (fr_range fr)) (fr_offset fr)"

fun fv_read_loop ::
    "nat \<Rightarrow> 'd store \<Rightarrow> flat_view \<Rightarrow> guest_address \<Rightarrow> u64 \<Rightarrow> writer \<times> 'd machine \<Rightarrow>
     ((as_error + unit) \<times> writer \<times> 'd machine) option" where
  "fv_read_loop 0 st fv start len s = None"
| "fv_read_loop (Suc n) st fv start len s =
     (case find_flatrange fv start of
        None \<Rightarrow> Some (Inl (ERegionNotFound start), s)
      | Some fr \<Rightarrow>
          (let l = access_len st fr start len
           in case region_read (st (fr_owner fr)) (access_region_base fr) (access_region_offset fr start) l s of
                (Inl e, s') \<Rightarrow> Some (Inl e, s')
              | (Inr _, s') \<Rightarrow>
                  if len - l = 0 then Some (Inr (), s')
                  else fv_read_loop n st fv (unchecked_add start l) (len - l) s'))"

fun fv_write_loop ::
    "nat \<Rightarrow> 'd store \<Rightarrow> flat_view \<Rightarrow> guest_address \<Rightarrow> u64 \<Rightarrow> u8 list \<times> 'd machine \<Rightarrow>
     ((as_error + unit) \<times> u8 list \<times> 'd machine) option" where
  "fv_write_loop 0 st fv start len s = None"
| "fv_write_loop (Suc n) st fv start len s =
     (case find_flatrange fv start of
        None \<Rightarrow> Some (Inl (ERegionNotFound start), s)
      | Some fr \<Rightarrow>
          (let l = access_len st fr start len
           in case region_write (st (fr_owner fr)) (access_region_base fr) (access_region_offset fr start) l s of
                (Inl e, s') \<Rightarrow> Some (Inl e, s')
              | (Inr _, s') \<Rightarrow>
                  if len - l = 0 then Some (Inr (), s')
                  else fv_write_loop n st fv (unchecked_add start l) (len - l) s'))"

text \<open>
  Each turn that makes progress consumes a byte, and a turn that makes none is repeated
  for ever, so \<open>count + 1\<close> turns decide whether the loop returns.
\<close>

definition fv_read ::
    "'d store \<Rightarrow> flat_view \<Rightarrow> guest_address \<Rightarrow> u64 \<Rightarrow> writer \<times> 'd machine \<Rightarrow>
     ((as_error + unit) \<times> writer \<times> 'd machine) option" where
  "fv_read st fv addr cnt = fv_read_loop (Suc (unat cnt)) st fv addr cnt"

definition fv_write ::
    "'d store \<Rightarrow> flat_view \<Rightarrow> guest_address \<Rightarrow> u64 \<Rightarrow> u8 list \<times> 'd machine \<Rightarrow>
     ((as_error + unit) \<times> u8 list \<times> 'd machine) option" where
  "fv_write st fv addr cnt = fv_write_loop (Suc (unat cnt)) st fv addr cnt"

end
