(* ===== verification/FlatRender.thy ===== *)
theory FlatRender
  imports FlatView
begin

text \<open>
  Correctness of rendering: the flat view is a list of non-empty, disjoint ranges in
  ascending order, and it sends every address to the region that \<open>resolve\<close> finds by
  walking the tree, which is the one of highest priority that contains the address.
\<close>

section \<open>Well-formed views and their meaning\<close>

definition covers :: "flat_range \<Rightarrow> guest_address \<Rightarrow> bool" where
  "covers fr x = (ar_base (fr_range fr) \<le> x \<and>
     unat x < unat (ar_base (fr_range fr)) + unat (ar_size (fr_range fr)))"

abbreviation fr_lo :: "flat_range \<Rightarrow> nat" where
  "fr_lo fr \<equiv> unat (ar_base (fr_range fr))"

abbreviation fr_hi :: "flat_range \<Rightarrow> nat" where
  "fr_hi fr \<equiv> unat (ar_base (fr_range fr)) + unat (ar_size (fr_range fr))"

definition fr_ok :: "flat_range \<Rightarrow> bool" where
  "fr_ok fr = (fr_lo fr < fr_hi fr \<and> fr_hi fr < 2 ^ 64)"

fun fv_ok :: "flat_view \<Rightarrow> bool" where
  "fv_ok [] = True"
| "fv_ok (fr # frs) = (fr_ok fr \<and> (\<forall>fr' \<in> set frs. fr_hi fr \<le> fr_lo fr') \<and> fv_ok frs)"

text \<open>What a view answers for an address: owner, offset in the owner, read-only mode.\<close>

definition fr_at :: "flat_range \<Rightarrow> guest_address \<Rightarrow> rid \<times> u64 \<times> bool option" where
  "fr_at fr x = (fr_owner fr, fr_offset fr + (x - ar_base (fr_range fr)), fr_romd fr)"

definition fv_at :: "flat_view \<Rightarrow> guest_address \<Rightarrow> (rid \<times> u64 \<times> bool option) option" where
  "fv_at fv x = map_option (\<lambda>fr. fr_at fr x) (List.find (\<lambda>fr. covers fr x) fv)"

lemma covers_unat: "covers fr x \<longleftrightarrow> fr_lo fr \<le> unat x \<and> unat x < fr_hi fr"
  by (simp add: covers_def word_le_nat_alt)

lemma fr_end: "fr_ok fr \<Longrightarrow> unat (end_addr (fr_range fr)) = fr_hi fr"
  by (simp add: fr_ok_def unat_end_addr range_ok_def)

lemma fv_at_Nil [simp]: "fv_at [] x = None"
  by (simp add: fv_at_def)

lemma fv_at_Cons: "fv_at (fr # frs) x = (if covers fr x then Some (fr_at fr x) else fv_at frs x)"
  by (simp add: fv_at_def)

lemma fv_at_None: "fv_at fv x = None \<longleftrightarrow> (\<forall>fr \<in> set fv. \<not> covers fr x)"
  by (auto simp: fv_at_def find_None_iff)

lemma fv_at_above: "\<forall>fr' \<in> set frs. n \<le> fr_lo fr' \<Longrightarrow> unat x < n \<Longrightarrow> fv_at frs x = None"
  by (auto simp: fv_at_None covers_unat)

lemma find_covers_unique:
  assumes "fv_ok fv" and "fr \<in> set fv" and "covers fr x"
  shows "List.find (\<lambda>fr. covers fr x) fv = Some fr"
  using assms
proof (induction fv)
  case Nil
  then show ?case by simp
next
  case (Cons a fv)
  then show ?case
    by (cases "fr = a") (force simp: covers_unat)+
qed

section \<open>One terminal region\<close>

definition under ::
    "(rid \<times> u64 \<times> bool option) option \<Rightarrow> (rid \<times> u64 \<times> bool option) option \<Rightarrow> (rid \<times> u64 \<times> bool option) option" where
  "under a b = (case a of None \<Rightarrow> b | Some y \<Rightarrow> Some y)"

lemma under_simps [simp]: "under None b = b" "under (Some y) b = Some y" "under a None = a"
  by (simp_all add: under_def split: option.split)

lemma under_assoc: "under (under a b) c = under a (under b c)"
  by (simp add: under_def split: option.split)

definition painted :: "'d store \<Rightarrow> rid \<Rightarrow> guest_address \<Rightarrow> u64 \<Rightarrow> u64 \<Rightarrow> guest_address \<Rightarrow> (rid \<times> u64 \<times> bool option) option" where
  "painted st r start off remain x =
     (if unat start \<le> unat x \<and> unat x < unat start + unat remain
      then Some (r, off + (x - start), get_rom_device_romd (st r)) else None)"

lemma new_range_sel [simp]:
  "fr_range (new_range st r start sz off) = AddressRange start sz"
  "fr_owner (new_range st r start sz off) = r"
  "fr_offset (new_range st r start sz off) = off"
  "fr_romd (new_range st r start sz off) = get_rom_device_romd (st r)"
  by (simp_all add: new_range_def)

lemma fv_at_new_range: "fv_at [new_range st r start sz off] x = painted st r start off sz x"
  by (simp add: fv_at_Cons painted_def covers_unat fr_at_def)

lemma covers_new_range:
  "covers (new_range st r start sz off) x \<longleftrightarrow> unat start \<le> unat x \<and> unat x < unat start + unat sz"
  by (simp add: covers_unat)

lemma render_loop_at:
  assumes "fv_ok fv" and "unat start + unat remain < 2 ^ 64"
  shows "fv_at (render_loop st r start off remain fv) x = under (fv_at fv x) (painted st r start off remain x)"
  using assms
proof (induction fv arbitrary: start off remain)
  case Nil
  then show ?case by (auto simp: fv_at_new_range word_less_nat_alt painted_def)
next
  case (Cons fr frs)
  have ok: "fr_ok fr" "fv_ok frs" and above: "\<forall>fr' \<in> set frs. fr_hi fr \<le> fr_lo fr'"
    using Cons.prems by auto
  let ?e = "end_addr (fr_range fr)" and ?b = "ar_base (fr_range fr)"
  have e: "unat ?e = fr_hi fr" using ok fr_end by blast
  show ?case
  proof (cases "start \<ge> ?e")
    case True
    then show ?thesis using Cons.IH [OF ok(2) Cons.prems(2)] by (simp add: fv_at_Cons)
  next
    case False
    define pre where "pre = (if start < ?b then [new_range st r start (min remain (?b - start)) off] else [])"
    define step where "step = min (?e - start) remain"
    have s: "unat start < fr_hi fr" using False e by (simp add: word_le_nat_alt)
    have st: "unat step = min (fr_hi fr - unat start) (unat remain)"
      using s e by (simp add: step_def word_ge_min unat_sub_eq)
    have pre_at: "fv_at (pre @ fs) x =
        (if unat start \<le> unat x \<and> unat x < min (fr_lo fr) (unat start + unat remain)
         then Some (r, off + (x - start), get_rom_device_romd (st r)) else fv_at fs x)" for fs
      by (auto simp: pre_def fv_at_Cons covers_new_range fr_at_def word_less_nat_alt word_ge_min unat_sub_eq)
    show ?thesis
    proof (cases "remain - step = 0")
      case True
      then have "remain = step" by simp
      then have "unat start + unat remain \<le> fr_hi fr" using st s by simp
      moreover have "render_loop st r start off remain (fr # frs) = pre @ fr # frs"
        using False True by (simp add: Let_def offset_from_def pre_def step_def)
      ultimately show ?thesis unfolding pre_at fv_at_Cons
        using fv_at_above [OF above, of x] by (auto simp: pre_at fv_at_Cons painted_def covers_unat)
    next
      case rest: False
      then have "step \<noteq> remain" by auto
      then have "step = ?e - start" unfolding step_def min_def by metis
      then have nx: "start + step = ?e" "unat step = fr_hi fr - unat start"
        using s e by (auto simp: unat_sub_eq)
      have rm: "unat (remain - step) = unat remain - unat step" "fr_hi fr - unat start \<le> unat remain"
        using st nx(2) by (auto simp: unat_sub_eq)
      have "unat ?e + unat (remain - step) < 2 ^ 64"
        using Cons.prems(2) rm nx e s by simp
      note ih = Cons.IH [OF ok(2) this, of "off + step"]
      have loop: "render_loop st r start off remain (fr # frs) =
          pre @ fr # render_loop st r ?e (off + step) (remain - step) frs"
        using False rest nx(1)
        by (simp add: Let_def offset_from_def pre_def step_def unchecked_add_def)
      have off: "off + step + (x - ?e) = off + (x - start)" using nx(1) by (simp add: algebra_simps)
      show ?thesis unfolding loop pre_at fv_at_Cons ih
        using rm nx(2) e s fv_at_above [OF above, of x] by (auto simp: painted_def covers_unat off)
    qed
  qed
qed

text \<open>
  A range of a view inside its owner: the owner is terminal, and the piece of it that the
  range shows lies inside the owner.
\<close>

definition terminal :: "region_type \<Rightarrow> bool" where
  "terminal ty = (ty = Ram \<or> ty = IO \<or> ty = RomDevice \<or> ty = RamDevice)"

definition fr_in :: "'d store \<Rightarrow> flat_range \<Rightarrow> bool" where
  "fr_in st fr = (terminal (r_type (st (fr_owner fr))) \<and>
     unat (fr_offset fr) + unat (ar_size (fr_range fr)) \<le> unat (r_size (st (fr_owner fr))) \<and>
     fr_romd fr = get_rom_device_romd (st (fr_owner fr)))"

definition fv_inv :: "'d store \<Rightarrow> flat_view \<Rightarrow> bool" where
  "fv_inv st fv = (fv_ok fv \<and> (\<forall>fr \<in> set fv. fr_in st fr))"

definition piece :: "'d store \<Rightarrow> rid \<Rightarrow> guest_address \<Rightarrow> u64 \<Rightarrow> u64 \<Rightarrow> flat_range \<Rightarrow> bool" where
  "piece st r start off remain fr =
     (fr_owner fr = r \<and> fr_romd fr = get_rom_device_romd (st r) \<and> fr_ok fr \<and>
      unat start \<le> fr_lo fr \<and> fr_hi fr \<le> unat start + unat remain \<and>
      unat (fr_offset fr) + unat (ar_size (fr_range fr)) \<le> unat off + unat remain)"

lemma piece_later:
  assumes "piece st r (start + step) (off + step) (remain - step) fr"
    and "step \<le> remain" and "unat start + unat remain < 2 ^ 64" and "unat off + unat remain < 2 ^ 64"
  shows "piece st r start off remain fr"
proof -
  have le: "unat step \<le> unat remain" using assms(2) by (simp add: word_le_nat_alt)
  then have "unat (start + step) = unat start + unat step" "unat (off + step) = unat off + unat step"
    using assms(3,4) by (simp_all add: unat_add_eq)
  with assms(1) le show ?thesis by (auto simp: piece_def unat_sub_eq)
qed

lemma render_loop_ok:
  assumes "fv_ok fv" and "unat start + unat remain < 2 ^ 64" and "unat off + unat remain < 2 ^ 64" and "0 < remain"
  shows "fv_ok (render_loop st r start off remain fv) \<and>
    (\<forall>fr \<in> set (render_loop st r start off remain fv). fr \<in> set fv \<or> piece st r start off remain fr)"
  using assms
proof (induction fv arbitrary: start off remain)
  case Nil
  then show ?case by (auto simp: piece_def fr_ok_def word_less_nat_alt)
next
  case (Cons fr frs)
  have ok: "fr_ok fr" "fv_ok frs" and above: "\<forall>fr' \<in> set frs. fr_hi fr \<le> fr_lo fr'"
    using Cons.prems by auto
  let ?e = "end_addr (fr_range fr)" and ?b = "ar_base (fr_range fr)"
  have e: "unat ?e = fr_hi fr" using ok fr_end by blast
  show ?case
  proof (cases "start \<ge> ?e")
    case True
    then have "fr_hi fr \<le> unat start" using e by (simp add: word_le_nat_alt)
    then show ?thesis using Cons.IH [OF ok(2) Cons.prems(2-4)] True ok above
      by (fastforce simp: piece_def)
  next
    case False
    define pre where "pre = (if start < ?b then [new_range st r start (min remain (?b - start)) off] else [])"
    define step where "step = min (?e - start) remain"
    have s: "unat start < fr_hi fr" using False e by (simp add: word_le_nat_alt)
    have le: "step \<le> remain" by (simp add: step_def)
    have pre: "\<forall>p \<in> set pre. piece st r start off remain p \<and> fr_hi p \<le> fr_lo fr"
      using Cons.prems by (auto simp: pre_def piece_def fr_ok_def word_less_nat_alt word_ge_min unat_sub_eq)
    have pre_ok: "fv_ok (pre @ fr # fs)"
      if "fv_ok fs" "\<forall>fr' \<in> set fs. fr_hi fr \<le> fr_lo fr'" for fs
      using that ok(1) pre by (fastforce simp: pre_def piece_def fr_ok_def)
    show ?thesis
    proof (cases "remain - step = 0")
      case True
      then have "render_loop st r start off remain (fr # frs) = pre @ fr # frs"
        using False by (simp add: Let_def offset_from_def pre_def step_def)
      then show ?thesis using pre_ok [OF ok(2) above] pre by auto
    next
      case rest: False
      then have "step \<noteq> remain" by auto
      then have "step = ?e - start" unfolding step_def min_def by metis
      then have nx: "start + step = ?e" by simp
      have "unat step \<le> unat remain" using le by (simp add: word_le_nat_alt)
      then have b: "unat (start + step) + unat (remain - step) < 2 ^ 64" "unat (off + step) + unat (remain - step) < 2 ^ 64"
        "0 < remain - step"
        using Cons.prems(2,3) rest by (auto simp: unat_add_eq unat_sub_eq word_gt_0)
      let ?l = "render_loop st r (start + step) (off + step) (remain - step) frs"
      have ih: "fv_ok ?l" "\<forall>fr \<in> set ?l. fr \<in> set frs \<or> piece st r (start + step) (off + step) (remain - step) fr"
        using Cons.IH [OF ok(2) b] by auto
      then have "\<forall>fr' \<in> set ?l. fr_hi fr \<le> fr_lo fr'" using above nx e by (fastforce simp: piece_def)
      note okl = pre_ok [OF ih(1) this]
      have loop: "render_loop st r start off remain (fr # frs) = pre @ fr # ?l"
        using False rest by (simp add: Let_def offset_from_def pre_def step_def unchecked_add_def)
      have "\<forall>fr \<in> set ?l. fr \<in> set frs \<or> piece st r start off remain fr"
        using ih(2) piece_later [OF _ le Cons.prems(2,3)] by blast
      then show ?thesis unfolding loop using okl pre by auto
    qed
  qed
qed

section \<open>The tree\<close>

text \<open>
  \<open>first_some f rs\<close>: the answer of the first region of the list that has one.
\<close>

fun first_some ::
    "(rid \<Rightarrow> (rid \<times> u64 \<times> bool option) option) \<Rightarrow> rid list \<Rightarrow> (rid \<times> u64 \<times> bool option) option" where
  "first_some f [] = None"
| "first_some f (r # rs) = under (f r) (first_some f rs)"

definition in_range :: "address_range \<Rightarrow> guest_address \<Rightarrow> bool" where
  "in_range a x = (unat x \<in> range_set a)"

text \<open>
  Which region answers address \<open>x\<close>, by walking down from region \<open>r\<close> placed at \<open>base\<close>.
\<close>

fun resolve :: "nat \<Rightarrow> 'd store \<Rightarrow> rid \<Rightarrow> guest_address \<Rightarrow> guest_address \<Rightarrow> (rid \<times> u64 \<times> bool option) option" where
  "resolve 0 st r base x = None"
| "resolve (Suc n) st r base x =
     (if \<not> in_range (region_range st r base) x then None
      else let rb = ar_base (region_range st r base)
           in case r_type (st r) of
                Container \<Rightarrow> first_some (\<lambda>s. resolve n st s rb x) (r_subregions (st r))
              | Alias \<Rightarrow>
                  (case r_alias (st r) of
                     None \<Rightarrow> None
                   | Some al \<Rightarrow> resolve n st al (rb - r_alias_offset (st r) - r_offset (st al)) x)
              | _ \<Rightarrow> Some (r, x - rb, get_rom_device_romd (st r)))"

text \<open>
  The regions below \<open>r\<close> form a tree of height at most \<open>n\<close> and none of them is empty.
\<close>

fun tree_ok :: "nat \<Rightarrow> 'd store \<Rightarrow> rid \<Rightarrow> bool" where
  "tree_ok 0 st r = False"
| "tree_ok (Suc n) st r =
     (r_size (st r) \<noteq> 0 \<and>
      (case r_type (st r) of
         Container \<Rightarrow> (\<forall>s \<in> set (r_subregions (st r)). tree_ok n st s)
       | Alias \<Rightarrow> (case r_alias (st r) of None \<Rightarrow> True | Some al \<Rightarrow> tree_ok n st al)
       | _ \<Rightarrow> True))"

definition renders ::
    "'d store \<Rightarrow> address_range \<Rightarrow> (guest_address \<Rightarrow> (rid \<times> u64 \<times> bool option) option) \<Rightarrow> flat_view \<Rightarrow>
     (as_error + flat_view) option \<Rightarrow> bool" where
  "renders st a f fv res = (\<exists>fv'. res = Some (Inr fv') \<and> fv_inv st fv' \<and>
     (\<forall>x. fv_at fv' x = under (fv_at fv x) (if in_range a x then f x else None)))"

lemma renders_same: "fv_inv st fv \<Longrightarrow> (\<And>x. in_range a x \<Longrightarrow> f x = None) \<Longrightarrow> renders st a f fv (Some (Inr fv))"
  by (auto simp: renders_def)

lemma renders_cong:
  "renders st a f fv res \<Longrightarrow> (\<And>x. (if in_range a x then f x else None) = (if in_range b x then g x else None)) \<Longrightarrow>
   renders st b g fv res"
  by (simp add: renders_def)

lemma render_each_renders:
  assumes "\<And>s fv. s \<in> set ss \<Longrightarrow> fv_inv st fv \<Longrightarrow> renders st a (f s) fv (g s fv)" and "fv_inv st fv"
  shows "renders st a (\<lambda>x. first_some (\<lambda>s. f s x) ss) fv (render_each g ss fv)"
  using assms
proof (induction ss arbitrary: fv)
  case Nil
  then show ?case by (simp add: renders_same)
next
  case (Cons s ss)
  from Cons.prems obtain fv1 where g: "g s fv = Some (Inr fv1)" and inv: "fv_inv st fv1"
    and at1: "\<And>x. fv_at fv1 x = under (fv_at fv x) (if in_range a x then f s x else None)"
    by (fastforce simp: renders_def)
  have "renders st a (\<lambda>x. first_some (\<lambda>s. f s x) ss) fv1 (render_each g ss fv1)"
    using Cons.IH [OF _ inv] Cons.prems(1) by simp
  then show ?case using g by (auto simp: renders_def at1 under_assoc)
qed

lemma terminate_renders:
  assumes "r_size (st r) \<noteq> 0" and "terminal (r_type (st r))" and "range_ok a" and "ar_size a \<noteq> 0"
    and inv: "fv_inv st fv" and i: "find_intersection (region_range st r base) a = Some i"
  shows "renders st a (\<lambda>x. if in_range (region_range st r base) x
             then Some (r, x - ar_base (region_range st r base), get_rom_device_romd (st r)) else None) fv
           (Some (render_terminate_region st r base a fv))"
proof -
  let ?R = "region_range st r base"
  let ?off = "ar_base i - ar_base ?R"
  have sz: "ar_size ?R = r_size (st r)" by (simp add: region_range_def)
  have rs: "range_set i = range_set ?R \<inter> range_set a" by (rule find_intersection_range_set [OF i])
  have ne: "0 < ar_size i"
    using find_intersection_nonempty [OF i] assms(1,4) sz by (auto simp: range_set_empty word_neq_0_conv)
  have ok: "unat (ar_base i) + unat (ar_size i) < 2 ^ 64"
    using find_intersection_ok [OF i] assms(3) by (simp add: range_ok_def)
  have u: "unat (ar_base ?R) \<le> unat (ar_base i)"
      "unat (ar_base i) + unat (ar_size i) \<le> unat (ar_base ?R) + unat (ar_size ?R)"
    using find_intersection_unat [OF i] by auto
  then have off: "unat ?off + unat (ar_size i) \<le> unat (r_size (st r))"
    using sz by (simp add: unat_sub_eq)
  then have lt: "unat ?off + unat (ar_size i) < 2 ^ 64"
    using le_less_trans [OF _ unat_lt_64 [of "r_size (st r)"]] by simp
  let ?fv = "render_loop st r (ar_base i) ?off (ar_size i) fv"
  have fv: "fv_ok fv" "\<forall>fr \<in> set fv. fr_in st fr" using inv by (auto simp: fv_inv_def)
  have "fv_inv st ?fv"
    using render_loop_ok [OF fv(1) ok lt ne, of st r] fv(2) off assms(2)
    by (fastforce simp: fv_inv_def fr_in_def piece_def)
  moreover have "painted st r (ar_base i) ?off (ar_size i) x =
      (if in_range a x \<and> in_range ?R x then Some (r, x - ar_base ?R, get_rom_device_romd (st r)) else None)" for x
  proof -
    have "in_range a x \<and> in_range ?R x \<longleftrightarrow> in_range i x" using rs by (auto simp: in_range_def)
    then show ?thesis by (simp add: painted_def in_range_def range_set_def)
  qed
  ultimately show ?thesis
    using i render_loop_at [OF fv(1) ok, of st r ?off]
    by (auto simp: renders_def render_terminate_region_def offset_from_def)
qed

lemma render_region_pass_renders:
  assumes "tree_ok n st r" and "range_ok a" and "ar_size a \<noteq> 0" and "fv_inv st fv"
  shows "renders st a (resolve n st r base) fv (render_region_pass n st r base a fv)"
  using assms
proof (induction n arbitrary: r base a fv)
  case 0
  then show ?case by simp
next
  case (Suc n)
  let ?R = "region_range st r base"
  show ?case
  proof (cases "find_intersection ?R a")
    case None
    then have "range_set ?R \<inter> range_set a = {}" by (rule find_intersection_None_disjoint)
    then show ?thesis using None Suc.prems(4) by (auto intro!: renders_same simp: in_range_def)
  next
    case (Some i)
    have rs: "range_set i = range_set ?R \<inter> range_set a" by (rule find_intersection_range_set [OF Some])
    have sz: "r_size (st r) \<noteq> 0" using Suc.prems(1) by simp
    have iok: "range_ok i" using find_intersection_ok [OF Some] Suc.prems(2) by simp
    have ine: "ar_size i \<noteq> 0"
      using find_intersection_nonempty [OF Some] sz Suc.prems(3)
      by (auto simp: range_set_empty region_range_def)
    have sub: "renders st i f fv res \<Longrightarrow> renders st a (\<lambda>x. if in_range ?R x then f x else None) fv res"
      for f res by (erule renders_cong) (use rs in \<open>auto simp: in_range_def\<close>)
    note ih = Suc.IH [OF _ iok ine]
    show ?thesis
    proof (cases "r_type (st r)")
      case Container
      have "renders st i (\<lambda>x. first_some (\<lambda>s. resolve n st s (ar_base ?R) x) (r_subregions (st r))) fv
          (render_each (\<lambda>s. render_region_pass n st s (ar_base ?R) i) (r_subregions (st r)) fv)"
        by (rule render_each_renders) (use Container Suc.prems ih in auto)
      from sub [OF this] show ?thesis using Container Some by (auto elim!: renders_cong)
    next
      case Alias
      then show ?thesis
      proof (cases "r_alias (st r)")
        case None
        then show ?thesis using Alias Some Suc.prems(4) by (auto intro!: renders_same)
      next
        case (Some al)
        have "tree_ok n st al" using Suc.prems(1) Alias Some by simp
        from sub [OF ih [OF this Suc.prems(4), of "ar_base ?R - r_alias_offset (st r) - r_offset (st al)"]]
        show ?thesis
          using Alias Some \<open>find_intersection ?R a = Some i\<close>
          by (auto elim!: renders_cong simp: unchecked_sub_def)
      qed
    qed (use terminate_renders [where r = r and st = st, OF sz _ Suc.prems(2-4) Some] Some in
          \<open>auto elim!: renders_cong simp: terminal_def\<close>)
  qed
qed

text \<open>
  C1. For a container whose regions form a tree of height at most \<open>n\<close>, none of them empty,
  rendering returns (it neither fails nor runs out of fuel), and the view it returns is a
  list of non-empty disjoint ranges in ascending order, each inside its owner, that answers
  every address exactly as walking the tree does.
\<close>

theorem flatview_correct:
  assumes "r_type (st r) = Container" and "tree_ok n st r" and "range_ok a" and "ar_size a \<noteq> 0"
  shows "\<exists>fv. generate_flatview n st r base a = Some (Inr fv) \<and> fv_inv st fv \<and>
    (\<forall>x. fv_at fv x = (if in_range a x then resolve n st r base x else None))"
proof -
  have "fv_inv st []" by (simp add: fv_inv_def)
  from render_region_pass_renders [OF assms(2-4) this] show ?thesis
    using assms(1) by (auto simp: generate_flatview_def renders_def)
qed

text \<open>
  A small tree: a container with an IO region of priority 1 laid over the middle of one
  RAM region, and a second RAM region behind the first.
\<close>

definition demo_mapping :: "u64 \<Rightarrow> u64 \<Rightarrow> host_mem_mapping" where
  "demo_mapping hva sz = \<lparr>hm_range = AddressRange 0 sz, hm_host_addr = hva, hm_file_back = None, hm_is_share = False\<rparr>"

definition demo_ops :: "unit region_ops" where
  "demo_ops = \<lparr>op_read = (\<lambda>bs _ _ d. ((True, bs), d)), op_write = (\<lambda>_ _ _ d. (True, d))\<rparr>"

definition demo_store :: "unit store" where
  "demo_store =
     (\<lambda>_. init_container_region 0x10000 ''root'')
       (0 := (init_container_region 0x10000 ''root'')\<lparr>r_subregions := [2, 3, 1]\<rparr>,
        1 := init_ram_region (demo_mapping 0x100000 0x4000) ''ram'',
        2 := (init_io_region 0x1000 demo_ops ''io'')\<lparr>r_priority := 1, r_offset := 0x1000\<rparr>,
        3 := (init_ram_region (demo_mapping 0x900000 0x1000) ''ram2'')\<lparr>r_offset := 0x4000\<rparr>)"

lemmas demo_simps = demo_store_def init_container_region_def init_ram_region_def init_io_region_def
  init_region_internal_def demo_mapping_def hm_size_def region_range_def unchecked_add_def
  get_rom_device_romd_def

lemma demo_tree:
  "r_type (demo_store 0) = Container" "tree_ok (Suc (Suc 0)) demo_store 0"
  "range_ok (AddressRange 0 0x10000)" "ar_size (AddressRange 0 0x10000) \<noteq> 0"
  by (simp_all add: demo_simps range_ok_def)

lemma demo_resolve:
  "resolve (Suc (Suc 0)) demo_store 0 0 0x1800 = Some (2, 0x800, None)"
  "resolve (Suc (Suc 0)) demo_store 0 0 0x2000 = Some (1, 0x2000, None)"
  "resolve (Suc (Suc 0)) demo_store 0 0 0x6000 = None"
  by (simp_all add: demo_simps in_range_def range_set_def)

theorem flatview_correct_witness:
  "\<exists>fv. generate_flatview (Suc (Suc 0)) demo_store 0 0 (AddressRange 0 0x10000) = Some (Inr fv) \<and>
     fv_inv demo_store fv \<and> fv_at fv 0x1800 = Some (2, 0x800, None) \<and>
     fv_at fv 0x2000 = Some (1, 0x2000, None) \<and> fv_at fv 0x6000 = None"
proof -
  obtain fv where "generate_flatview (Suc (Suc 0)) demo_store 0 0 (AddressRange 0 0x10000) = Some (Inr fv)"
    "fv_inv demo_store fv"
    "\<And>x. fv_at fv x = (if in_range (AddressRange 0 0x10000) x then resolve (Suc (Suc 0)) demo_store 0 0 x else None)"
    using flatview_correct [OF demo_tree, of 0] by blast
  then show ?thesis using demo_resolve
    by (intro exI [of _ fv]) (simp add: in_range_def range_set_def del: resolve.simps)
qed

end
