(* ===== verification/FlatLookup.thy ===== *)
theory FlatLookup
  imports FlatRender
begin

text \<open>
  \<open>find_flatrange\<close> is a binary search over the bases of the ranges; on a well-formed view it
  finds the range that contains the address. The subregions of a container stay sorted by
  priority, so the first one that contains an address is one of highest priority.
\<close>

section \<open>Binary search\<close>

lemma bsearch_spec:
  assumes "\<And>i j. i < j \<Longrightarrow> j < n \<Longrightarrow> key i < key j" and "hi \<le> n" and "lo \<le> hi"
    and "\<And>i. i < lo \<Longrightarrow> key i < a" and "\<And>i. hi \<le> i \<Longrightarrow> i < n \<Longrightarrow> a < key i"
  shows "case bsearch key a lo hi of
      Inr m \<Rightarrow> m < n \<and> key m = a
    | Inl x \<Rightarrow> x \<le> n \<and> (\<forall>i < x. key i < a) \<and> (\<forall>i. x \<le> i \<longrightarrow> i < n \<longrightarrow> a < key i)"
  using assms
proof (induction key a lo hi rule: bsearch.induct)
  case (1 key a lo hi)
  show ?case
  proof (cases "lo < hi")
    case False
    with 1 show ?thesis by (subst bsearch.simps) auto
  next
    case True
    define mid where "mid = lo + (hi - lo) div 2"
    have mid: "lo \<le> mid" "mid < hi" using True by (auto simp: mid_def)
    consider (eq) "key mid = a" | (lt) "key mid < a" | (gt) "a < key mid" by (meson linorder_less_linear)
    then show ?thesis
    proof cases
      case eq
      then have "bsearch key a lo hi = Inr mid" using True by (subst bsearch.simps) (simp add: Let_def mid_def)
      with eq mid 1 show ?thesis by simp
    next
      case lt
      then have b: "bsearch key a lo hi = bsearch key a (mid + 1) hi"
        using True by (subst bsearch.simps) (auto simp: Let_def mid_def)
      have "key i < a" if "i < mid + 1" for i
        using lt 1(3) [of i mid] mid 1(4) that by (cases "i = mid") auto
      then have "case bsearch key a (mid + 1) hi of
          Inr m \<Rightarrow> m < n \<and> key m = a
        | Inl x \<Rightarrow> x \<le> n \<and> (\<forall>i < x. key i < a) \<and> (\<forall>i. x \<le> i \<longrightarrow> i < n \<longrightarrow> a < key i)"
        using 1(1) [OF True mid_def] 1(3-) lt mid by auto
      then show ?thesis unfolding b .
    next
      case gt
      then have b: "bsearch key a lo hi = bsearch key a lo mid"
        using True by (subst bsearch.simps) (auto simp add: Let_def mid_def)
      have "a < key i" if "mid \<le> i" "i < n" for i
        using gt 1(3) [of mid i] that by (cases "i = mid") auto
      moreover have ne: "key mid \<noteq> a" "\<not> key mid < a" using gt by auto
      ultimately have "case bsearch key a lo mid of
          Inr m \<Rightarrow> m < n \<and> key m = a
        | Inl x \<Rightarrow> x \<le> n \<and> (\<forall>i < x. key i < a) \<and> (\<forall>i. x \<le> i \<longrightarrow> i < n \<longrightarrow> a < key i)"
        using 1(2) [OF True mid_def ne] 1(3-) mid by auto
      then show ?thesis unfolding b .
    qed
  qed
qed

lemma fv_ok_nth:
  "fv_ok fv \<Longrightarrow> i < j \<Longrightarrow> j < length fv \<Longrightarrow> fr_hi (fv ! i) \<le> fr_lo (fv ! j)"
proof (induction fv arbitrary: i j)
  case Nil
  then show ?case by simp
next
  case (Cons a fv)
  then show ?case by (cases i; cases j) auto
qed

lemma fv_ok_mem: "fv_ok fv \<Longrightarrow> fr \<in> set fv \<Longrightarrow> fr_ok fr"
  by (induction fv) auto

lemma find_flatrange_find:
  assumes ok: "fv_ok fv"
  shows "find_flatrange fv x = List.find (\<lambda>fr. covers fr x) fv"
proof -
  let ?key = "\<lambda>i. ar_base (fr_range (fv ! i))"
  have frok: "fr_ok (fv ! i)" if "i < length fv" for i using fv_ok_mem [OF ok] that by simp
  have mono: "?key i < ?key j" if "i < j" "j < length fv" for i j
    using fv_ok_nth [OF ok that] frok [of i] that by (simp add: word_less_nat_alt fr_ok_def)
  have spec: "case bsearch ?key x 0 (length fv) of
      Inr m \<Rightarrow> m < length fv \<and> ?key m = x
    | Inl k \<Rightarrow> k \<le> length fv \<and> (\<forall>i < k. ?key i < x) \<and> (\<forall>i. k \<le> i \<longrightarrow> i < length fv \<longrightarrow> x < ?key i)"
    by (rule bsearch_spec) (use mono in auto)
  show ?thesis
  proof (cases "bsearch ?key x 0 (length fv)")
    case (Inr m)
    then have m: "m < length fv" "?key m = x" using spec by auto
    then have "covers (fv ! m) x" using frok [of m] by (auto simp: covers_unat fr_ok_def)
    then show ?thesis using find_covers_unique [OF ok nth_mem [OF m(1)]] Inr by (simp add: find_flatrange_def)
  next
    case (Inl k)
    then have k: "k \<le> length fv" "\<And>i. i < k \<Longrightarrow> ?key i < x" "\<And>i. k \<le> i \<Longrightarrow> i < length fv \<Longrightarrow> x < ?key i"
      using spec by auto
    have only: "i = k - 1 \<and> 0 < k" if "i < length fv" "covers (fv ! i) x" for i
    proof -
      have "i < k" using k(3) [of i] that by (fastforce simp: covers_unat word_less_nat_alt)
      moreover have "\<not> i < k - 1"
      proof
        assume "i < k - 1"
        then have "k - 1 < length fv" "?key (k - 1) < x" using k(1,2) by auto
        with fv_ok_nth [OF ok \<open>i < k - 1\<close>] that show False by (auto simp: covers_unat word_less_nat_alt)
      qed
      ultimately show ?thesis by simp
    qed
    show ?thesis
    proof (cases "0 < k \<and> x < end_addr (fr_range (fv ! (k - 1)))")
      case True
      then have "k - 1 < length fv" using k(1) by linarith
      moreover have "covers (fv ! (k - 1)) x"
        using True k(2) [of "k - 1"] fr_end [OF frok [of "k - 1"]] calculation
        by (auto simp: covers_unat word_less_nat_alt)
      ultimately show ?thesis
        using find_covers_unique [OF ok nth_mem] Inl True by (simp add: find_flatrange_def)
    next
      case False
      have "\<not> covers fr x" if "fr \<in> set fv" for fr
      proof
        assume c: "covers fr x"
        obtain i where i: "i < length fv" "fr = fv ! i" using \<open>fr \<in> set fv\<close> by (auto simp: in_set_conv_nth)
        with only c have "i = k - 1" "0 < k" by auto
        with i c False fr_end [OF frok [of i]] show False
          by (auto simp: covers_unat word_less_nat_alt)
      qed
      then have "List.find (\<lambda>fr. covers fr x) fv = None" by (simp add: find_None_iff)
      then show ?thesis using Inl False by (auto simp: find_flatrange_def)
    qed
  qed
qed

lemma find_flatrange_covers:
  assumes "fv_ok fv" and "find_flatrange fv x = Some fr"
  shows "fr \<in> set fv \<and> covers fr x"
  using assms by (auto simp: find_flatrange_find find_Some_iff)

text \<open>
  C29. Looking an address up in the rendered view gives the region, the offset in it and the
  read-only mode that walking the tree gives, and gives nothing exactly when no region
  contains the address.
\<close>

theorem find_flatrange_resolve:
  assumes "r_type (st r) = Container" and "tree_ok n st r" and "range_ok a" and "ar_size a \<noteq> 0"
    and "generate_flatview n st r base a = Some (Inr fv)"
  shows "map_option (\<lambda>fr. fr_at fr x) (find_flatrange fv x) =
    (if in_range a x then resolve n st r base x else None)"
proof -
  have "fv_inv st []" by (simp add: fv_inv_def)
  from render_region_pass_renders [OF assms(2-4) this, of base] have
    "fv_ok fv" "fv_at fv x = (if in_range a x then resolve n st r base x else None)"
    using assms(1,5) by (auto simp: generate_flatview_def renders_def fv_inv_def)
  then show ?thesis by (simp add: find_flatrange_find fv_at_def)
qed

theorem find_flatrange_resolve_witness:
  "\<exists>fv. generate_flatview (Suc (Suc 0)) demo_store 0 0 (AddressRange 0 0x10000) = Some (Inr fv) \<and>
     map_option (\<lambda>fr. fr_at fr 0x1800) (find_flatrange fv 0x1800) = Some (2, 0x800, None) \<and>
     find_flatrange fv 0x6000 = None"
proof -
  have "fv_inv demo_store []" by (simp add: fv_inv_def)
  from render_region_pass_renders [OF demo_tree(2-4) this, of 0] obtain fv where
    g: "generate_flatview (Suc (Suc 0)) demo_store 0 0 (AddressRange 0 0x10000) = Some (Inr fv)"
    using demo_tree(1) unfolding generate_flatview_def renders_def by auto
  note l = find_flatrange_resolve [OF demo_tree g]
  show ?thesis using g l [of "0x1800"] l [of "0x6000"] demo_resolve
    by (intro exI [of _ fv]) (simp add: in_range_def range_set_def del: resolve.simps)
qed

section \<open>Priorities\<close>

definition prio :: "'d store \<Rightarrow> rid \<Rightarrow> int" where
  "prio st r = sint (r_priority (st r))"

definition by_priority :: "'d store \<Rightarrow> rid list \<Rightarrow> bool" where
  "by_priority st rs = sorted_wrt (\<lambda>a b. prio st b \<le> prio st a) rs"

lemma insert_subregion_set [simp]: "set (insert_subregion st c rs) = insert c (set rs)"
  by (induction rs) auto

lemma insert_subregion_sorted: "by_priority st rs \<Longrightarrow> by_priority st (insert_subregion st c rs)"
  unfolding by_priority_def
  by (induction rs) (auto simp: prio_def intro: order_trans)

lemma insert_subregion_split:
  "\<exists>xs ys. rs = xs @ ys \<and> insert_subregion st c rs = xs @ c # ys \<and> (\<forall>x \<in> set xs. prio st c < prio st x)"
proof (induction rs)
  case Nil
  then show ?case by simp
next
  case (Cons s ss)
  then obtain xs ys where h: "ss = xs @ ys" "insert_subregion st c ss = xs @ c # ys"
    "\<forall>x \<in> set xs. prio st c < prio st x" by blast
  show ?case
  proof (cases "prio st s \<le> prio st c")
    case True
    then show ?thesis by (intro exI [of _ "[]"] exI [of _ "s # ss"]) (simp add: prio_def)
  next
    case False
    then show ?thesis using h by (intro exI [of _ "s # xs"] exI [of _ ys]) (auto simp: prio_def)
  qed
qed

lemma sorted_wrt_split_hd:
  "by_priority st (xs @ c # ys) \<Longrightarrow> y \<in> set ys \<Longrightarrow> prio st y \<le> prio st c"
  by (auto simp: by_priority_def sorted_wrt_append)

text \<open>
  Adding a subregion succeeds exactly for a container that the child fits into; it then
  puts the child at the given offset, behind the subregions of strictly higher priority and
  before all others, so a list sorted by priority stays sorted and a later region hides an
  earlier one of the same priority. Every other region is left as it was.
\<close>

theorem add_subregion_spec:
  assumes "by_priority st (r_subregions (st self))" and "child \<noteq> self"
  shows "case add_subregion_not_update self child off st of
      (Inl _, st') \<Rightarrow> st' = st \<and>
        (r_type (st self) \<noteq> Container \<or> unat off + unat (r_size (st child)) > unat (r_size (st self)))
    | (Inr _, st') \<Rightarrow> r_type (st self) = Container \<and>
        unat off + unat (r_size (st child)) \<le> unat (r_size (st self)) \<and>
        r_offset (st' child) = off \<and> (\<forall>r. r \<noteq> self \<longrightarrow> r \<noteq> child \<longrightarrow> st' r = st r) \<and>
        by_priority st' (r_subregions (st' self)) \<and>
        (\<exists>xs ys. r_subregions (st self) = xs @ ys \<and> r_subregions (st' self) = xs @ child # ys \<and>
           (\<forall>x \<in> set xs. prio st child < prio st x) \<and> (\<forall>y \<in> set ys. prio st y \<le> prio st child))"
proof -
  have valid: "check_valid_offset (st self) off (r_size (st child)) =
      (if unat off + unat (r_size (st child)) \<le> unat (r_size (st self)) then Inr () else Inl (EOverflow off))"
    using le_less_trans [OF _ unat_lt_64 [of "r_size (st self)"]]
    by (force simp: check_valid_offset_def checked_add_def word_le_nat_alt unat_add_eq)
  have sp: "r_space (set_offset child off st self) = r_space (st self)"
    using assms(2) by (simp add: set_offset_def)
  define st2 where "st2 = (case r_space (st self) of
      Some sp \<Rightarrow> set_belonged_address_space child sp (set_offset child off st)
    | None \<Rightarrow> set_offset child off st)"
  have p: "prio st2 = prio st" and sub: "r_subregions (st2 self) = r_subregions (st self)"
    and off: "r_offset (st2 child) = off" and other: "\<And>r. r \<noteq> child \<Longrightarrow> st2 r = st r"
    using assms(2) by (auto simp: st2_def set_offset_def set_belonged_address_space_def prio_def fun_eq_iff
        split: option.split)
  obtain xs ys where x: "r_subregions (st self) = xs @ ys"
    "insert_subregion st2 child (r_subregions (st self)) = xs @ child # ys" "\<forall>x \<in> set xs. prio st child < prio st x"
    using insert_subregion_split [of "r_subregions (st self)" st2 child] p by auto
  have srt: "by_priority st (xs @ child # ys)"
    using insert_subregion_sorted [of st2 "r_subregions (st self)" child] assms(1) p x(2)
    by (simp add: by_priority_def)
  have y: "\<forall>y \<in> set ys. prio st y \<le> prio st child" using sorted_wrt_split_hd [OF srt] by blast
  define st3 where "st3 = st2(self := (st2 self)\<lparr>r_subregions := xs @ child # ys\<rparr>)"
  have "prio st3 = prio st" using p by (auto simp: st3_def prio_def fun_eq_iff)
  then have srt3: "by_priority st3 (xs @ child # ys)" using srt by (simp add: by_priority_def)
  have r: "add_subregion_not_update self child off st =
      (if r_type (st self) \<noteq> Container then (Inl (ERegionType (r_type (st self))), st)
       else if unat off + unat (r_size (st child)) \<le> unat (r_size (st self)) then (Inr (), st3)
       else (Inl (EOverflow off), st))"
    by (simp add: add_subregion_not_update_def valid sp Let_def st3_def sub x(2) flip: st2_def)
  show ?thesis unfolding r using assms(2) x y srt3 off other by (auto simp: st3_def)
qed

theorem add_subregion_spec_witness:
  "fst (add_subregion_not_update 0 3 0x8000 demo_store) = Inr () \<and>
   r_offset (snd (add_subregion_not_update 0 3 0x8000 demo_store) 3) = 0x8000"
proof -
  have s: "by_priority demo_store (r_subregions (demo_store 0))"
    by (simp add: by_priority_def prio_def demo_simps)
  have d: "r_type (demo_store 0) = Container" "unat (r_size (demo_store 3)) = 0x1000" "unat (r_size (demo_store 0)) = 0x10000"
    by (simp_all add: demo_simps)
  obtain res st' where r: "add_subregion_not_update 0 3 0x8000 demo_store = (res, st')" by force
  show ?thesis using add_subregion_spec [OF s, of 3 "0x8000"] d unfolding r by (cases res) auto
qed

end
