(* ===== verification/FlatAccess.thy ===== *)
theory FlatAccess
  imports FlatLookup
begin

text \<open>
  Reading and writing guest RAM through the flat view. \<open>ram_at\<close> is the host address of a
  guest address; a read returns the bytes at the host addresses of the range, a write
  stores them there and nowhere else, also when the range spans several regions, and the
  loops return.
\<close>

definition ram_at :: "'d store \<Rightarrow> flat_view \<Rightarrow> guest_address \<Rightarrow> u64 option" where
  "ram_at st fv x =
     (case fv_at fv x of
        Some (r, off, _) \<Rightarrow>
          if is_ram (r_type (st r)) then map_option (\<lambda>mm. hm_host_addr mm + off) (mem_mapping (st r)) else None
      | None \<Rightarrow> None)"

text \<open>Every byte of the guest range \<open>[start, start + n)\<close> is RAM.\<close>

definition all_ram :: "'d store \<Rightarrow> flat_view \<Rightarrow> guest_address \<Rightarrow> nat \<Rightarrow> bool" where
  "all_ram st fv start n = (unat start + n \<le> 2 ^ 64 \<and> (\<forall>i < n. ram_at st fv (start + of_nat i) \<noteq> None))"

definition host :: "'d store \<Rightarrow> flat_view \<Rightarrow> guest_address \<Rightarrow> nat \<Rightarrow> u64" where
  "host st fv start i = the (ram_at st fv (start + of_nat i))"

lemma fv_at_covers: "fv_ok fv \<Longrightarrow> fr \<in> set fv \<Longrightarrow> covers fr x \<Longrightarrow> fv_at fv x = Some (fr_at fr x)"
  by (simp add: fv_at_def find_covers_unique)

lemma unat_plus_of_nat: "unat (a :: u64) + i < 2 ^ 64 \<Longrightarrow> unat (a + of_nat i) = unat a + i"
  by (subst unat_add_eq) (auto simp: unat_of_nat take_bit_nat_eq_self)

lemma all_ram_shift:
  assumes "all_ram st fv start n" and "k \<le> n" and "k < 2 ^ 64" and "k < n"
  shows "all_ram st fv (start + of_nat k) (n - k)"
  using assms unat_plus_of_nat [of start k]
  by (auto simp: all_ram_def add.assoc simp flip: of_nat_add)

lemma host_shift: "host st fv (start + of_nat k) i = host st fv start (k + i)"
  by (simp add: host_def add.assoc)

lemma upt_split: "k \<le> n \<Longrightarrow> [0..<n] = [0..<k] @ map (\<lambda>i. k + i) [0..<n - k]"
  by (rule nth_equalityI) (auto simp: nth_append)

text \<open>What one turn of the loops does on RAM.\<close>

lemma ram_turn:
  assumes inv: "fv_inv st fv" and ram: "all_ram st fv start (unat len)" and pos: "0 < unat len"
  obtains fr mm l where "find_flatrange fv start = Some fr" "mem_mapping (st (fr_owner fr)) = Some mm"
    "is_ram (r_type (st (fr_owner fr)))" "l = access_len st fr start len" "0 < unat l" "unat l \<le> unat len"
    "check_valid_offset (st (fr_owner fr)) (access_region_offset fr start) l = Inr ()"
    "\<And>i. i < unat l \<Longrightarrow> host st fv start i = hm_host_addr mm + access_region_offset fr start + of_nat i"
proof -
  have ok: "fv_ok fv" using inv by (simp add: fv_inv_def)
  have "ram_at st fv (start + of_nat 0) \<noteq> None"
    using ram pos unfolding all_ram_def by blast
  then have "ram_at st fv start \<noteq> None" by simp
  then obtain fr where fr: "find_flatrange fv start = Some fr"
    by (auto simp: ram_at_def fv_at_def find_flatrange_find [OF ok] split: option.splits)
  have mem: "fr \<in> set fv" and cov: "covers fr start" using find_flatrange_covers [OF ok fr] by auto
  then have frok: "fr_ok fr" and frin: "fr_in st fr" using inv fv_ok_mem [OF ok] by (auto simp: fv_inv_def)
  from \<open>ram_at st fv start \<noteq> None\<close> obtain mm where
    isram: "is_ram (r_type (st (fr_owner fr)))" and mm: "mem_mapping (st (fr_owner fr)) = Some mm"
    by (auto simp: ram_at_def fv_at_covers [OF ok mem cov] fr_at_def split: if_splits)
  define l where "l = access_len st fr start len"
  let ?d = "start - ar_base (fr_range fr)"
  have d: "unat ?d = unat start - fr_lo fr" using cov by (simp add: covers_unat unat_sub_eq)
  then have "unat (ar_size (fr_range fr) - ?d) = fr_hi fr - unat start"
    using cov by (auto simp: covers_unat unat_sub_eq)
  then have l: "unat l = min (unat len) (fr_hi fr - unat start)"
    using isram by (simp add: l_def access_len_def offset_from_def word_ge_min)
  then have lpos: "0 < unat l" "unat l \<le> unat len" using pos cov by (auto simp: covers_unat)
  have o_le: "unat (fr_offset fr) + unat ?d + unat l \<le> unat (r_size (st (fr_owner fr)))"
    using frin l d cov by (auto simp: fr_in_def covers_unat)
  then have "unat (fr_offset fr) + unat ?d + unat l < 2 ^ 64"
    using le_less_trans [OF _ unat_lt_64 [of "r_size (st (fr_owner fr))"]] by simp
  then have "check_valid_offset (st (fr_owner fr)) (access_region_offset fr start) l = Inr ()"
    using o_le by (auto simp: check_valid_offset_def checked_add_def access_region_offset_def offset_from_def
        unat_add_eq word_le_nat_alt)
  moreover have "host st fv start i = hm_host_addr mm + access_region_offset fr start + of_nat i"
    if "i < unat l" for i
  proof -
    have "unat (start + of_nat i) = unat start + i"
      using that lpos(2) ram unat_plus_of_nat [of start i] by (simp add: all_ram_def)
    then have "covers fr (start + of_nat i)" using that l cov by (auto simp: covers_unat)
    then show ?thesis
      using isram mm by (simp add: host_def ram_at_def fv_at_covers [OF ok mem] fr_at_def
          access_region_offset_def offset_from_def algebra_simps)
  qed
  ultimately show thesis using that [OF fr mm isram l_def lpos] by blast
qed

lemma region_read_ram:
  assumes "is_ram (r_type r)" and "mem_mapping r = Some mm" and "check_valid_offset r off l = Inr ()"
    and "unat l \<le> w_room w"
  shows "region_read r base off l (w, m) =
    (Inr (), \<lparr>w_out = w_out w @ load (ms_mem m) (hm_host_addr mm + off) (unat l), w_room = w_room w - unat l\<rparr>, m)"
  using assms by (auto simp: region_read_def is_ram_def write_all_def Let_def)

lemma fv_read_loop_ram:
  assumes "fv_inv st fv" and "all_ram st fv start (unat len)" and "0 < unat len" and "unat len \<le> w_room w"
    and "unat len < n"
  shows "fv_read_loop n st fv start len (w, m) =
    Some (Inr (), \<lparr>w_out = w_out w @ map (\<lambda>i. ms_mem m (host st fv start i)) [0..<unat len],
                   w_room = w_room w - unat len\<rparr>, m)"
  using assms(2-5)
proof (induction n arbitrary: start len w)
  case 0
  then show ?case by simp
next
  case (Suc n)
  obtain fr mm l where t: "find_flatrange fv start = Some fr" "mem_mapping (st (fr_owner fr)) = Some mm"
    "is_ram (r_type (st (fr_owner fr)))" "l = access_len st fr start len" "0 < unat l" "unat l \<le> unat len"
    "check_valid_offset (st (fr_owner fr)) (access_region_offset fr start) l = Inr ()"
    "\<And>i. i < unat l \<Longrightarrow> host st fv start i = hm_host_addr mm + access_region_offset fr start + of_nat i"
    by (rule ram_turn [OF assms(1) Suc.prems(1,2)]) blast
  have rd: "load (ms_mem m) (hm_host_addr mm + access_region_offset fr start) (unat l) =
      map (\<lambda>i. ms_mem m (host st fv start i)) [0..<unat l]"
    by (rule nth_equalityI) (simp_all add: t(8))
  note r = region_read_ram [OF t(3,2,7), of w "access_region_base fr" m]
  show ?case
  proof (cases "len - l = 0")
    case True
    then have "len = l" by simp
    then show ?thesis using t(1,4) r rd Suc.prems(3) by (simp add: Let_def)
  next
    case False
    then have lt: "unat l < unat len" using t(6) by (metis diff_self le_neq_implies_less word_eq_unat)
    have ln: "unat (len - l) = unat len - unat l" using t(6) by (simp add: unat_sub_eq)
    have "all_ram st fv (start + l) (unat (len - l))"
      using all_ram_shift [OF Suc.prems(1) t(6) _ lt] ln by simp
    moreover have "fv_read_loop (Suc n) st fv start len (w, m) =
        fv_read_loop n st fv (start + l) (len - l)
          (\<lparr>w_out = w_out w @ map (\<lambda>i. ms_mem m (host st fv start i)) [0..<unat l], w_room = w_room w - unat l\<rparr>, m)"
      using t(1,4,6) r rd Suc.prems(3) False by (simp add: Let_def unchecked_add_def)
    moreover have "host st fv (start + l) = (\<lambda>i. host st fv start (unat l + i))"
      using host_shift [of st fv start "unat l"] by (simp add: fun_eq_iff)
    moreover have "[0..<unat len] = [0..<unat l] @ map (\<lambda>i. unat l + i) [0..<unat len - unat l]"
      using t(6) by (rule upt_split)
    ultimately show ?thesis
      using Suc.IH [of "start + l" "len - l"] Suc.prems(3,4) t(5) lt ln by (simp add: comp_def)
  qed
qed

section \<open>Writing\<close>

lemma region_write_ram:
  assumes "is_ram (r_type r)" and "mem_mapping r = Some mm" and "check_valid_offset r off l = Inr ()"
    and "unat l \<le> length src" and "\<not> is_active (ms_mm m)"
  shows "region_write r base off l (src, m) =
    (Inr (), drop (unat l) src,
     m\<lparr>ms_mem := store (ms_mem m) (hm_host_addr mm + off) (take (unat l) src)\<rparr>)"
  using assms by (auto simp: region_write_def is_ram_def read_exact_def Let_def mark_dirty_log_def)

text \<open>
  The memory after a write of \<open>bs\<close> to host addresses \<open>h 0, h 1, ...\<close>: each of them holds its
  byte, and every other address what it held.
\<close>

definition written :: "memory \<Rightarrow> (nat \<Rightarrow> u64) \<Rightarrow> u8 list \<Rightarrow> memory \<Rightarrow> bool" where
  "written m h bs m' = ((\<forall>i < length bs. m' (h i) = bs ! i) \<and>
     (\<forall>a. a \<notin> h ` {..< length bs} \<longrightarrow> m' a = m a))"

lemma written_store:
  assumes "\<And>i. i < length bs \<Longrightarrow> h i = a + of_nat i" and "length bs \<le> 2 ^ 64"
  shows "written m h bs (store m a bs)"
proof -
  have u: "unat (a + of_nat i - a) = i" if "i < length bs" for i
    using that assms(2) by (simp add: unat_of_nat take_bit_nat_eq_self)
  have "store m a bs x = m x" if "x \<notin> h ` {..< length bs}" for x
  proof -
    have "x = a + of_nat (unat (x - a))" by simp
    then have "\<not> unat (x - a) < length bs" using that assms(1) by (metis image_eqI lessThan_iff)
    then show ?thesis by (simp add: store_def)
  qed
  then show ?thesis using assms u by (simp add: written_def store_def)
qed

lemma written_append:
  assumes "written m h bs m1" and "written m1 (\<lambda>i. h (length bs + i)) cs m2"
    and inj: "inj_on h {..< length bs + length cs}"
  shows "written m h (bs @ cs) m2"
proof -
  have "m2 (h i) = bs ! i" if "i < length bs" for i
  proof -
    have "h i \<noteq> h (length bs + j)" if "j < length cs" for j
      using inj_onD [OF inj, of i "length bs + j"] that \<open>i < length bs\<close> by auto
    then have "h i \<notin> (\<lambda>i. h (length bs + i)) ` {..< length cs}" by auto
    then show ?thesis using assms(1,2) that by (simp add: written_def)
  qed
  moreover have "m2 (h i) = cs ! (i - length bs)" if "length bs \<le> i" "i < length bs + length cs" for i
    using assms(2) that unfolding written_def
    by (metis add_diff_inverse_nat linorder_not_less nat_add_left_cancel_less)
  moreover have "m2 a = m a" if "a \<notin> h ` {..< length bs + length cs}" for a
  proof -
    have "a \<notin> h ` {..< length bs}" "a \<notin> (\<lambda>i. h (length bs + i)) ` {..< length cs}" using that by auto
    then show ?thesis using assms(1,2) by (simp add: written_def)
  qed
  ultimately show ?thesis by (auto simp: written_def nth_append)
qed

lemma fv_write_loop_ram:
  assumes "fv_inv st fv" and "all_ram st fv start (unat len)" and "0 < unat len" and "unat len \<le> length src"
    and "unat len < n" and "inj_on (host st fv start) {..< unat len}" and "\<not> is_active (ms_mm m)"
  shows "\<exists>mem'. fv_write_loop n st fv start len (src, m) = Some (Inr (), drop (unat len) src, m\<lparr>ms_mem := mem'\<rparr>) \<and>
    written (ms_mem m) (host st fv start) (take (unat len) src) mem'"
  using assms(2-7)
proof (induction n arbitrary: start len src m)
  case 0
  then show ?case by simp
next
  case (Suc n)
  obtain fr mm l where t: "find_flatrange fv start = Some fr" "mem_mapping (st (fr_owner fr)) = Some mm"
    "is_ram (r_type (st (fr_owner fr)))" "l = access_len st fr start len" "0 < unat l" "unat l \<le> unat len"
    "check_valid_offset (st (fr_owner fr)) (access_region_offset fr start) l = Inr ()"
    "\<And>i. i < unat l \<Longrightarrow> host st fv start i = hm_host_addr mm + access_region_offset fr start + of_nat i"
    by (rule ram_turn [OF assms(1) Suc.prems(1,2)]) blast
  define m1 where "m1 = store (ms_mem m) (hm_host_addr mm + access_region_offset fr start) (take (unat l) src)"
  have tl: "length (take (unat l) src) = unat l" using t(6) Suc.prems(3) by simp
  have w1: "written (ms_mem m) (host st fv start) (take (unat l) src) m1"
    unfolding m1_def by (rule written_store) (use t(8) tl less_imp_le [OF unat_lt_64 [of l]] in simp_all)
  have "unat l \<le> length src" using t(6) Suc.prems(3) by simp
  note r = region_write_ram [OF t(3,2,7) this Suc.prems(6), of "access_region_base fr", folded m1_def]
  show ?case
  proof (cases "len - l = 0")
    case True
    then have "len = l" by simp
    then show ?thesis using t(1,4) r w1 by (intro exI [of _ m1]) (simp add: Let_def)
  next
    case False
    then have lt: "unat l < unat len" using t(6) by (metis diff_self le_neq_implies_less word_eq_unat)
    have ln: "unat (len - l) = unat len - unat l" using t(6) by (simp add: unat_sub_eq)
    have h: "host st fv (start + l) = (\<lambda>i. host st fv start (unat l + i))"
      using host_shift [of st fv start "unat l"] by (simp add: fun_eq_iff)
    have "all_ram st fv (start + l) (unat (len - l))"
      using all_ram_shift [OF Suc.prems(1) t(6) _ lt] ln by simp
    moreover have "inj_on (host st fv (start + l)) {..< unat (len - l)}"
    proof (rule inj_onI)
      fix x y assume "x \<in> {..< unat (len - l)}" "y \<in> {..< unat (len - l)}"
        and "host st fv (start + l) x = host st fv (start + l) y"
      then have "unat l + x = unat l + y"
        using inj_onD [OF Suc.prems(5), of "unat l + x" "unat l + y"] by (simp add: h ln)
      then show "x = y" by simp
    qed
    moreover have "unat len - unat l \<le> length src - unat l" "unat len - unat l < n"
      using Suc.prems(3,4) t(5) lt by linarith+
    ultimately obtain mem' where
      loop: "fv_write_loop n st fv (start + l) (len - l) (drop (unat l) src, m\<lparr>ms_mem := m1\<rparr>) =
        Some (Inr (), drop (unat (len - l)) (drop (unat l) src), m\<lparr>ms_mem := m1, ms_mem := mem'\<rparr>)"
      and w2: "written m1 (host st fv (start + l)) (take (unat (len - l)) (drop (unat l) src)) mem'"
      using Suc.IH [of "start + l" "len - l" "drop (unat l) src" "m\<lparr>ms_mem := m1\<rparr>"] Suc.prems(3,4,6) t(5) lt ln
      by auto
    have "take (unat len) src = take (unat l) src @ take (unat (len - l)) (drop (unat l) src)"
      using ln t(6) by (metis le_add_diff_inverse take_add)
    moreover have "written (ms_mem m) (host st fv start)
        (take (unat l) src @ take (unat (len - l)) (drop (unat l) src)) mem'"
      by (rule written_append [OF w1]) (use w2 h tl ln lt Suc.prems(3,5) in simp_all)
    moreover have "fv_write_loop (Suc n) st fv start len (src, m) =
        fv_write_loop n st fv (start + l) (len - l) (drop (unat l) src, m\<lparr>ms_mem := m1\<rparr>)"
      using t(1,4) r False by (simp add: Let_def unchecked_add_def)
    ultimately show ?thesis using loop ln t(6) by (intro exI [of _ mem']) simp
  qed
qed

text \<open>
  C31. A guest write to RAM followed by a guest read of the same range returns the bytes
  written, also across region boundaries, as long as no two of its guest addresses share a
  host byte; both loops return, and no other byte of host memory changes.
\<close>

theorem ram_write_read:
  assumes "fv_inv st fv" and "all_ram st fv addr (length bs)" and "bs \<noteq> []" and "length bs < 2 ^ 64"
    and "inj_on (host st fv addr) {..< length bs}" and "\<not> is_active (ms_mm m)"
  shows "\<exists>m'. fv_write st fv addr (of_nat (length bs)) (bs, m) = Some (Inr (), [], m') \<and>
    (\<forall>a. a \<notin> host st fv addr ` {..< length bs} \<longrightarrow> ms_mem m' a = ms_mem m a) \<and>
    fv_read st fv addr (of_nat (length bs)) (\<lparr>w_out = [], w_room = length bs\<rparr>, m') =
      Some (Inr (), \<lparr>w_out = bs, w_room = 0\<rparr>, m')"
proof -
  let ?n = "of_nat (length bs) :: u64"
  have n: "unat ?n = length bs" using assms(4) by (simp add: unat_of_nat take_bit_nat_eq_self)
  have pos: "0 < unat ?n" using assms(3) n by simp
  obtain mem' where w: "fv_write st fv addr ?n (bs, m) = Some (Inr (), [], m\<lparr>ms_mem := mem'\<rparr>)"
    and wr: "written (ms_mem m) (host st fv addr) bs mem'"
    using fv_write_loop_ram [OF assms(1) _ pos, of addr bs "Suc (unat ?n)" m] assms(2,5,6) n
    unfolding fv_write_def by auto
  have "map (\<lambda>i. mem' (host st fv addr i)) [0..<length bs] = bs"
    by (rule nth_equalityI) (use wr in \<open>simp_all add: written_def\<close>)
  then have "fv_read st fv addr ?n (\<lparr>w_out = [], w_room = length bs\<rparr>, m\<lparr>ms_mem := mem'\<rparr>) =
      Some (Inr (), \<lparr>w_out = bs, w_room = 0\<rparr>, m\<lparr>ms_mem := mem'\<rparr>)"
    using fv_read_loop_ram [OF assms(1) _ pos, of addr "\<lparr>w_out = [], w_room = length bs\<rparr>" "Suc (unat ?n)"]
      assms(2) n unfolding fv_read_def by simp
  then show ?thesis using w wr by (auto simp: written_def)
qed

theorem ram_write_read_witness:
  "\<exists>fv m'. fv_write demo_store fv 0x3fff 2 ([7, 9], \<lparr>ms_mem = (\<lambda>_. 0), ms_mm = \<lparr>mm_status = MNone, mm_bitmaps = []\<rparr>, ms_dev = ()\<rparr>) =
      Some (Inr (), [], m') \<and>
    fv_read demo_store fv 0x3fff 2 (\<lparr>w_out = [], w_room = 2\<rparr>, m') = Some (Inr (), \<lparr>w_out = [7, 9], w_room = 0\<rparr>, m')"
proof -
  let ?m = "\<lparr>ms_mem = (\<lambda>_. 0), ms_mm = \<lparr>mm_status = MNone, mm_bitmaps = []\<rparr>, ms_dev = ()\<rparr>"
  define fv where "fv = [\<lparr>fr_range = AddressRange 0 0x4000, fr_owner = 1, fr_offset = 0, fr_romd = None\<rparr>,
    \<lparr>fr_range = AddressRange 0x4000 0x1000, fr_owner = 3, fr_offset = 0, fr_romd = None\<rparr>]"
  have inv: "fv_inv demo_store fv"
    by (simp add: fv_def fv_inv_def fr_ok_def fr_in_def terminal_def demo_simps)
  have at: "ram_at demo_store fv 0x3fff = Some 0x103fff" "ram_at demo_store fv 0x4000 = Some 0x900000"
    by (simp_all add: ram_at_def fv_def fv_at_Cons covers_def fr_at_def is_ram_def demo_simps)
  have two: "{..< length [7, 9 :: u8]} = {0, 1}" "i < length [7, 9 :: u8] \<longleftrightarrow> i = 0 \<or> i = 1" for i by auto
  have ram: "all_ram demo_store fv 0x3fff (length [7, 9 :: u8])"
    unfolding all_ram_def two(2) using at by simp
  have inj: "inj_on (host demo_store fv 0x3fff) {..< length [7, 9 :: u8]}"
    unfolding two(1) using at by (simp add: host_def)
  have "length [7, 9 :: u8] = 2" by simp
  from ram_write_read [OF inv ram _ _ inj, of ?m, unfolded this] obtain m' where
    "fv_write demo_store fv 0x3fff 2 ([7, 9], ?m) = Some (Inr (), [], m')"
    "fv_read demo_store fv 0x3fff 2 (\<lparr>w_out = [], w_room = 2\<rparr>, m') = Some (Inr (), \<lparr>w_out = [7, 9], w_room = 0\<rparr>, m')"
    by (auto simp: is_active_def)
  then show ?thesis by blast
qed

end
