(* ===== verification/AddressSpace.thy ===== *)
theory AddressSpace
  imports FlatAccess
begin

text \<open>
  address_space/src/address_space.rs: the address space with its flat view, its listeners
  and its ioeventfds, and the operations of region.rs that update the topology. Several
  address spaces and regions live in one state (\<open>vm\<close>). A listener is a trait object in
  the code: here its methods are a record of functions (\<open>listener_ops\<close>) over a listener
  state \<open>'l\<close> and the state \<open>'k\<close> of the kernel module that listeners share.
\<close>

section \<open>State\<close>

type_synonym lid = nat

datatype listener_req = AddRegion | DeleteRegion | AddIoeventfd | DeleteIoeventfd

record address_space =
  as_name :: string
  as_root :: rid
  as_flat_view :: flat_view
  as_listeners :: "lid list"
  as_ioeventfds :: "io_event_fd list"

record ('d, 'l, 'k) listener_ops =
  l_priority :: "'l \<Rightarrow> i32"
  l_enabled :: "'l \<Rightarrow> bool"
  l_enable :: "'l \<Rightarrow> 'l"
  l_disable :: "'l \<Rightarrow> 'l"
  l_handle :: "'d store \<Rightarrow> flat_range option \<Rightarrow> io_event_fd option \<Rightarrow> listener_req \<Rightarrow> 'l \<times> 'k \<Rightarrow> (as_error + unit) \<times> 'l \<times> 'k"

record ('d, 'l, 'k) vm =
  vm_regions :: "'d store"
  vm_spaces :: "sid \<Rightarrow> address_space"
  vm_listeners :: "lid \<Rightarrow> 'l"
  vm_kernel :: 'k

section \<open>Notifying listeners\<close>

definition notify ::
    "('d, 'l, 'k) listener_ops \<Rightarrow> flat_range option \<Rightarrow> io_event_fd option \<Rightarrow> listener_req \<Rightarrow> lid \<Rightarrow>
     ('d, 'l, 'k) vm \<Rightarrow> (as_error + unit) \<times> ('d, 'l, 'k) vm" where
  "notify lo fr ev req l vm =
     (case l_handle lo (vm_regions vm) fr ev req (vm_listeners vm l, vm_kernel vm) of
        (res, l', k') \<Rightarrow> (res, vm\<lparr>vm_listeners := (vm_listeners vm)(l := l'), vm_kernel := k'\<rparr>))"

definition call_listeners ::
    "('d, 'l, 'k) listener_ops \<Rightarrow> sid \<Rightarrow> flat_range option \<Rightarrow> io_event_fd option \<Rightarrow> listener_req \<Rightarrow>
     ('d, 'l, 'k) vm \<Rightarrow> (as_error + unit) \<times> ('d, 'l, 'k) vm" where
  "call_listeners lo sp fr ev req vm =
     (let ls = as_listeners (vm_spaces vm sp)
      in case req of
           DeleteRegion \<Rightarrow> try_for_each (notify lo fr ev req) (rev ls) vm
         | AddIoeventfd \<Rightarrow> try_for_each (notify lo fr ev req) (rev ls) vm
         | _ \<Rightarrow> try_for_each (notify lo fr ev req) ls vm)"

section \<open>Updating the topology\<close>

fun update_topology_pass ::
    "('d, 'l, 'k) listener_ops \<Rightarrow> sid \<Rightarrow> bool \<Rightarrow> flat_view \<Rightarrow> flat_view \<Rightarrow>
     ('d, 'l, 'k) vm \<Rightarrow> (as_error + unit) \<times> ('d, 'l, 'k) vm" where
  "update_topology_pass lo sp is_add [] [] vm = (Inr (), vm)"
| "update_topology_pass lo sp is_add (o1 # os) [] vm =
     (if \<not> is_add
      then sm_bind (call_listeners lo sp (Some o1) None DeleteRegion) (\<lambda>_. update_topology_pass lo sp is_add os []) vm
      else update_topology_pass lo sp is_add os [] vm)"
| "update_topology_pass lo sp is_add [] (n # ns) vm =
     (if is_add
      then sm_bind (call_listeners lo sp (Some n) None AddRegion) (\<lambda>_. update_topology_pass lo sp is_add [] ns) vm
      else update_topology_pass lo sp is_add [] ns vm)"
| "update_topology_pass lo sp is_add (o1 # os) (n # ns) vm =
     (if ar_base (fr_range o1) < ar_base (fr_range n) \<or>
         ar_base (fr_range o1) = ar_base (fr_range n) \<and> \<not> fr_eq (vm_regions vm) o1 n
      then if \<not> is_add
           then sm_bind (call_listeners lo sp (Some o1) None DeleteRegion)
                  (\<lambda>_. update_topology_pass lo sp is_add os (n # ns)) vm
           else update_topology_pass lo sp is_add os (n # ns) vm
      else if fr_eq (vm_regions vm) o1 n then update_topology_pass lo sp is_add os ns vm
      else if is_add
           then sm_bind (call_listeners lo sp (Some n) None AddRegion)
                  (\<lambda>_. update_topology_pass lo sp is_add (o1 # os) ns) vm
           else update_topology_pass lo sp is_add (o1 # os) ns vm)"

text \<open>
  The loop over two lists of ioeventfds; \<open>None\<close> when it has not ended within the fuel. A
  turn that drops no element changes nothing and is repeated for ever.
\<close>

definition opt_hd :: "'a list \<Rightarrow> 'a option" where
  "opt_hd xs = (case xs of [] \<Rightarrow> None | x # _ \<Rightarrow> Some x)"

definition fd_delete :: "io_event_fd option \<Rightarrow> io_event_fd option \<Rightarrow> bool" where
  "fd_delete old_fd new_fd =
     (case old_fd of None \<Rightarrow> False
      | Some x \<Rightarrow> (case new_fd of None \<Rightarrow> True | Some y \<Rightarrow> \<not> ev_after x y))"

fun update_ioeventfds_pass ::
    "nat \<Rightarrow> ('d, 'l, 'k) listener_ops \<Rightarrow> sid \<Rightarrow> io_event_fd list \<Rightarrow> io_event_fd list \<Rightarrow>
     ('d, 'l, 'k) vm \<Rightarrow> ((as_error + unit) \<times> ('d, 'l, 'k) vm) option" where
  "update_ioeventfds_pass 0 lo sp os ns vm = None"
| "update_ioeventfds_pass (Suc k) lo sp os ns vm =
     (if os = [] \<and> ns = [] then Some (Inr (), vm)
      else let old_fd = opt_hd os; new_fd = opt_hd ns
           in if old_fd = new_fd then update_ioeventfds_pass k lo sp (tl os) (tl ns) vm
              else (case (if fd_delete old_fd new_fd then call_listeners lo sp None old_fd DeleteIoeventfd vm
                          else (Inr (), vm)) of
                      (Inl e, vm1) \<Rightarrow> Some (Inl e, vm1)
                    | (Inr _, vm1) \<Rightarrow>
                        (case (if fd_delete new_fd old_fd then call_listeners lo sp None new_fd AddIoeventfd vm1
                               else (Inr (), vm1)) of
                           (Inl e, vm2) \<Rightarrow> Some (Inl e, vm2)
                         | (Inr _, vm2) \<Rightarrow>
                             update_ioeventfds_pass k lo sp
                               (if fd_delete old_fd new_fd then tl os else os)
                               (if fd_delete new_fd old_fd then tl ns else ns) vm2)))"

definition range_ioeventfds :: "'d store \<Rightarrow> flat_range \<Rightarrow> io_event_fd list" where
  "range_ioeventfds st fr =
     filter (\<lambda>ev. find_intersection (fr_range fr) (ev_range ev) \<noteq> None)
       (map (\<lambda>ev. ev\<lparr>ev_range := AddressRange
                (unchecked_add (ar_base (ev_range ev)) (unchecked_sub (ar_base (fr_range fr)) (fr_offset fr)))
                (ar_size (ev_range ev))\<rparr>)
            (io_evtfds (st (fr_owner fr))))"

definition update_ioeventfds ::
    "('d, 'l, 'k) listener_ops \<Rightarrow> sid \<Rightarrow> ('d, 'l, 'k) vm \<Rightarrow> ((as_error + unit) \<times> ('d, 'l, 'k) vm) option" where
  "update_ioeventfds lo sp vm =
     (let fds = concat (map (range_ioeventfds (vm_regions vm)) (as_flat_view (vm_spaces vm sp)));
          old = as_ioeventfds (vm_spaces vm sp)
      in case update_ioeventfds_pass (Suc (length old + length fds)) lo sp old fds vm of
           None \<Rightarrow> None
         | Some (Inl e, vm1) \<Rightarrow> Some (Inl e, vm1)
         | Some (Inr _, vm1) \<Rightarrow>
             Some (Inr (), vm1\<lparr>vm_spaces := (vm_spaces vm1)(sp := (vm_spaces vm1 sp)\<lparr>as_ioeventfds := fds\<rparr>)\<rparr>))"

definition update_topology ::
    "nat \<Rightarrow> ('d, 'l, 'k) listener_ops \<Rightarrow> sid \<Rightarrow> ('d, 'l, 'k) vm \<Rightarrow> ((as_error + unit) \<times> ('d, 'l, 'k) vm) option" where
  "update_topology fuel lo sp vm =
     (let old_fv = as_flat_view (vm_spaces vm sp);
          root = as_root (vm_spaces vm sp);
          addr_range = AddressRange 0 (r_size (vm_regions vm root))
      in case generate_flatview fuel (vm_regions vm) root 0 addr_range of
           None \<Rightarrow> None
         | Some (Inl e) \<Rightarrow> Some (Inl e, vm)
         | Some (Inr new_fv) \<Rightarrow>
             (case sm_bind (update_topology_pass lo sp False old_fv new_fv)
                     (\<lambda>_. update_topology_pass lo sp True old_fv new_fv) vm of
                (Inl e, vm1) \<Rightarrow> Some (Inl e, vm1)
              | (Inr _, vm1) \<Rightarrow>
                  update_ioeventfds lo sp
                    (vm1\<lparr>vm_spaces := (vm_spaces vm1)(sp := (vm_spaces vm1 sp)\<lparr>as_flat_view := new_fv\<rparr>)\<rparr>)))"

section \<open>Changing the tree\<close>

text \<open>The common end of the three operations: update the topology of the region's space, if any.\<close>

definition update_space_of ::
    "nat \<Rightarrow> ('d, 'l, 'k) listener_ops \<Rightarrow> rid \<Rightarrow> ('d, 'l, 'k) vm \<Rightarrow> ((as_error + unit) \<times> ('d, 'l, 'k) vm) option" where
  "update_space_of fuel lo r vm =
     (case r_space (vm_regions vm r) of
        Some sp \<Rightarrow> update_topology fuel lo sp vm
      | None \<Rightarrow> Some (Inr (), vm))"

definition add_subregion ::
    "nat \<Rightarrow> ('d, 'l, 'k) listener_ops \<Rightarrow> rid \<Rightarrow> rid \<Rightarrow> u64 \<Rightarrow> ('d, 'l, 'k) vm \<Rightarrow>
     ((as_error + unit) \<times> ('d, 'l, 'k) vm) option" where
  "add_subregion fuel lo self child off vm =
     (case add_subregion_not_update self child off (vm_regions vm) of
        (Inl e, st) \<Rightarrow> Some (Inl e, vm\<lparr>vm_regions := st\<rparr>)
      | (Inr _, st) \<Rightarrow> update_space_of fuel lo self (vm\<lparr>vm_regions := st\<rparr>))"

definition delete_subregion ::
    "nat \<Rightarrow> ('d, 'l, 'k) listener_ops \<Rightarrow> rid \<Rightarrow> rid \<Rightarrow> ('d, 'l, 'k) vm \<Rightarrow>
     ((as_error + unit) \<times> ('d, 'l, 'k) vm) option" where
  "delete_subregion fuel lo self child vm =
     (case remove_subregion self child (vm_regions vm) of
        (Inl e, st) \<Rightarrow> Some (Inl e, vm\<lparr>vm_regions := st\<rparr>)
      | (Inr _, st) \<Rightarrow>
          (case update_space_of fuel lo self (vm\<lparr>vm_regions := st\<rparr>) of
             None \<Rightarrow> None
           | Some (Inl e, vm1) \<Rightarrow> Some (Inl e, vm1)
           | Some (Inr _, vm1) \<Rightarrow>
               Some (Inr (), vm1\<lparr>vm_regions := del_belonged_address_space child (vm_regions vm1)\<rparr>)))"

definition set_rom_device_romd ::
    "nat \<Rightarrow> ('d, 'l, 'k) listener_ops \<Rightarrow> rid \<Rightarrow> bool \<Rightarrow> ('d, 'l, 'k) vm \<Rightarrow>
     ((as_error + unit) \<times> ('d, 'l, 'k) vm) option" where
  "set_rom_device_romd fuel lo r read_only vm =
     (if r_type (vm_regions vm r) \<noteq> RomDevice then Some (Inl (ERegionType (r_type (vm_regions vm r))), vm)
      else if rom_dev_romd (vm_regions vm r) \<noteq> read_only
           then update_space_of fuel lo r
                  (vm\<lparr>vm_regions := (vm_regions vm)(r := (vm_regions vm r)\<lparr>rom_dev_romd := read_only\<rparr>)\<rparr>)
           else Some (Inr (), vm))"

definition new_address_space ::
    "nat \<Rightarrow> ('d, 'l, 'k) listener_ops \<Rightarrow> sid \<Rightarrow> rid \<Rightarrow> string \<Rightarrow> ('d, 'l, 'k) vm \<Rightarrow>
     ((as_error + unit) \<times> ('d, 'l, 'k) vm) option" where
  "new_address_space fuel lo sp root name vm =
     (let vm1 = vm\<lparr>vm_spaces := (vm_spaces vm)(sp :=
                     \<lparr>as_name = name, as_root = root, as_flat_view = [], as_listeners = [], as_ioeventfds = []\<rparr>),
                   vm_regions := set_belonged_address_space root sp (vm_regions vm)\<rparr>
      in if r_subregions (vm_regions vm1 root) \<noteq> [] then update_topology fuel lo sp vm1 else Some (Inr (), vm1))"

section \<open>Registering listeners\<close>

fun insert_listener :: "('d, 'l, 'k) listener_ops \<Rightarrow> (lid \<Rightarrow> 'l) \<Rightarrow> lid \<Rightarrow> lid list \<Rightarrow> lid list" where
  "insert_listener lo ls l [] = [l]"
| "insert_listener lo ls l (m # ms) =
     (if sint (l_priority lo (ls m)) \<ge> sint (l_priority lo (ls l)) then l # m # ms
      else m # insert_listener lo ls l ms)"

definition register_listener ::
    "('d, 'l, 'k) listener_ops \<Rightarrow> sid \<Rightarrow> lid \<Rightarrow> ('d, 'l, 'k) vm \<Rightarrow> (as_error + unit) \<times> ('d, 'l, 'k) vm" where
  "register_listener lo sp l vm =
     (case try_for_each (\<lambda>fr. notify lo (Some fr) None AddRegion l) (as_flat_view (vm_spaces vm sp)) vm of
        (Inl e, vm1) \<Rightarrow> (Inl e, vm1)
      | (Inr _, vm1) \<Rightarrow>
          (let ls = (vm_listeners vm1)(l := l_enable lo (vm_listeners vm1 l));
               a = vm_spaces vm1 sp
           in (Inr (), vm1\<lparr>vm_listeners := ls,
                 vm_spaces := (vm_spaces vm1)(sp := a\<lparr>as_listeners := insert_listener lo ls l (as_listeners a)\<rparr>)\<rparr>)))"

fun remove_disabled :: "('d, 'l, 'k) listener_ops \<Rightarrow> (lid \<Rightarrow> 'l) \<Rightarrow> lid list \<Rightarrow> lid list" where
  "remove_disabled lo ls [] = []"
| "remove_disabled lo ls (m # ms) = (if \<not> l_enabled lo (ls m) then ms else m # remove_disabled lo ls ms)"

definition unregister_listener ::
    "('d, 'l, 'k) listener_ops \<Rightarrow> sid \<Rightarrow> lid \<Rightarrow> ('d, 'l, 'k) vm \<Rightarrow> (as_error + unit) \<times> ('d, 'l, 'k) vm" where
  "unregister_listener lo sp l vm =
     (case try_for_each (\<lambda>fr. notify lo (Some fr) None DeleteRegion l) (as_flat_view (vm_spaces vm sp)) vm of
        (Inl e, vm1) \<Rightarrow> (Inl e, vm1)
      | (Inr _, vm1) \<Rightarrow>
          (let ls = (vm_listeners vm1)(l := l_disable lo (vm_listeners vm1 l));
               a = vm_spaces vm1 sp
           in (Inr (), vm1\<lparr>vm_listeners := ls,
                 vm_spaces := (vm_spaces vm1)(sp := a\<lparr>as_listeners := remove_disabled lo ls (as_listeners a)\<rparr>)\<rparr>)))"

end
