(* ===== verification/Topology.thy ===== *)
theory Topology
  imports AddressSpace
begin

text \<open>
  What listeners are told when the topology changes. The two passes of \<open>update_topology\<close>
  walk the old and the new view side by side; the theorems say that the first pass reports
  exactly the ranges that disappear and the second exactly the ranges that appear, in
  ascending order, and what follows for a listener that keeps a table of what it was told.
\<close>

section \<open>What a request leaves alone\<close>

lemma notify_frame [frame_simps]:
  "vm_regions (snd (notify lo fr ev req l vm)) = vm_regions vm"
  "vm_spaces (snd (notify lo fr ev req l vm)) = vm_spaces vm"
  by (simp_all add: notify_def split: prod.split)

lemma try_notify_frame:
  "vm_regions (snd (try_for_each (notify lo fr ev req) ls vm)) = vm_regions vm \<and>
   vm_spaces (snd (try_for_each (notify lo fr ev req) ls vm)) = vm_spaces vm"
  by (rule try_for_each_inv) (auto simp: frame_simps)

lemma call_listeners_frame [frame_simps]:
  "vm_regions (snd (call_listeners lo sp fr ev req vm)) = vm_regions vm"
  "vm_spaces (snd (call_listeners lo sp fr ev req vm)) = vm_spaces vm"
  using try_notify_frame [of lo fr ev req]
  by (cases req; simp add: call_listeners_def Let_def)+

lemma try_for_each_Cons_bind: "try_for_each f (x # xs) s = sm_bind (f x) (\<lambda>_. try_for_each f xs) s"
  by (simp add: sm_bind_def)

lemma sm_bind_cong_run:
  "(\<And>a s'. f s = (Inr a, s') \<Longrightarrow> g a s' = h a s') \<Longrightarrow> sm_bind f g s = sm_bind f h s"
  by (auto simp: sm_bind_def split: prod.split sum.split)

section \<open>The two passes\<close>

definition gone :: "'d store \<Rightarrow> flat_view \<Rightarrow> flat_view \<Rightarrow> flat_view" where
  "gone st old new = filter (\<lambda>x. \<not> (\<exists>n \<in> set new. fr_eq st x n)) old"

definition fresh :: "'d store \<Rightarrow> flat_view \<Rightarrow> flat_view \<Rightarrow> flat_view" where
  "fresh st old new = filter (\<lambda>n. \<not> (\<exists>x \<in> set old. fr_eq st x n)) new"

lemma fv_ok_base_less: "fv_ok (fr # frs) \<Longrightarrow> fr' \<in> set frs \<Longrightarrow> ar_base (fr_range fr) < ar_base (fr_range fr')"
  by (auto simp: fr_ok_def word_less_nat_alt)

lemma fr_eq_base: "fr_eq st a b \<Longrightarrow> ar_base (fr_range a) = ar_base (fr_range b)"
  by (simp add: fr_eq_def)

lemma gone_simps:
  "gone st [] new = []" "gone st (x # os) [] = x # gone st os []"
  "ar_base (fr_range x) < ar_base (fr_range n) \<or> ar_base (fr_range x) = ar_base (fr_range n) \<and> \<not> fr_eq st x n \<Longrightarrow>
     fv_ok (n # ns) \<Longrightarrow> gone st (x # os) (n # ns) = x # gone st os (n # ns)"
  "fr_eq st x n \<Longrightarrow> fv_ok (x # os) \<Longrightarrow> gone st (x # os) (n # ns) = gone st os ns"
  "ar_base (fr_range n) < ar_base (fr_range x) \<Longrightarrow> fv_ok (x # os) \<Longrightarrow>
     gone st (x # os) (n # ns) = gone st (x # os) ns"
proof -
  show "gone st [] new = []" "gone st (x # os) [] = x # gone st os []" by (simp_all add: gone_def)
next
  assume a: "ar_base (fr_range x) < ar_base (fr_range n) \<or> ar_base (fr_range x) = ar_base (fr_range n) \<and> \<not> fr_eq st x n"
    and ok: "fv_ok (n # ns)"
  have "\<not> fr_eq st x m" if "m \<in> set (n # ns)" for m
    using a that fv_ok_base_less [OF ok, of m] fr_eq_base [of st x m] by auto
  then show "gone st (x # os) (n # ns) = x # gone st os (n # ns)" by (simp add: gone_def)
next
  assume a: "fr_eq st x n" and ok: "fv_ok (x # os)"
  have "\<not> fr_eq st y n" if "y \<in> set os" for y
    using fr_eq_base [OF a] fr_eq_base [of st y n] fv_ok_base_less [OF ok that] by auto
  then show "gone st (x # os) (n # ns) = gone st os ns" using a by (auto simp: gone_def intro: filter_cong)
next
  assume a: "ar_base (fr_range n) < ar_base (fr_range x)" and ok: "fv_ok (x # os)"
  have "\<not> fr_eq st y n" if "y \<in> set (x # os)" for y
    using a fr_eq_base [of st y n] fv_ok_base_less [OF ok, of y] that by fastforce
  then show "gone st (x # os) (n # ns) = gone st (x # os) ns" unfolding gone_def by (intro filter_cong) auto
qed

lemma fr_eq_sym: "fr_eq st a b = fr_eq st b a"
  by (auto simp: fr_eq_def)

lemma fresh_gone: "fresh st old new = gone st new old"
  by (simp add: fresh_def gone_def fr_eq_sym)

lemma pass_delete:
  assumes "fv_ok old" and "fv_ok new"
  shows "update_topology_pass lo sp False old new vm =
    try_for_each (\<lambda>fr. call_listeners lo sp (Some fr) None DeleteRegion) (gone (vm_regions vm) old new) vm"
  using assms
proof (induction "length old + length new" arbitrary: old new vm rule: less_induct)
  case less
  let ?call = "\<lambda>fr. call_listeners lo sp (Some fr) None DeleteRegion"
  have bind: "sm_bind (?call x) (\<lambda>_. update_topology_pass lo sp False os ns) vm =
      try_for_each ?call (x # gone (vm_regions vm) os ns) vm"
    if "length os + length ns < length old + length new" "fv_ok os" "fv_ok ns" for x os ns
    unfolding try_for_each_Cons_bind
    by (rule sm_bind_cong_run)
      (use less.hyps [OF that] call_listeners_frame(1) [of lo sp "Some x" None DeleteRegion vm] in auto)
  show ?case
  proof (cases old)
    case Nil
    then show ?thesis using less by (cases new) (simp_all add: gone_simps)
  next
    case o: (Cons x os)
    show ?thesis
    proof (cases new)
      case Nil
      then show ?thesis using o less.prems bind [of os "[]"] by (simp add: gone_simps del: try_for_each.simps(2))
    next
      case n: (Cons y ns)
      have ok: "fv_ok os" "fv_ok ns" using less.prems o n by auto
      let ?b = "ar_base (fr_range x)" and ?c = "ar_base (fr_range y)"
      consider (del) "?b < ?c \<or> ?b = ?c \<and> \<not> fr_eq (vm_regions vm) x y"
        | (same) "fr_eq (vm_regions vm) x y" | (skip) "?c < ?b" by fastforce
      then show ?thesis
      proof cases
        case del
        then show ?thesis using bind [of os "y # ns"] less.prems o n ok
          by (simp add: gone_simps(3) del: try_for_each.simps(2))
      next
        case same
        then show ?thesis using less.hyps [of os ns vm] less.prems o n ok fr_eq_base [OF same]
          by (simp add: gone_simps(4))
      next
        case skip
        then have "\<not> ?b < ?c" "?b \<noteq> ?c" "\<not> fr_eq (vm_regions vm) x y" by (auto dest: fr_eq_base)
        then show ?thesis using less.hyps [of "x # os" ns vm] less.prems o n ok skip
          by (simp add: gone_simps(5))
      qed
    qed
  qed
qed

lemma pass_add:
  assumes "fv_ok old" and "fv_ok new"
  shows "update_topology_pass lo sp True old new vm =
    try_for_each (\<lambda>fr. call_listeners lo sp (Some fr) None AddRegion) (fresh (vm_regions vm) old new) vm"
  using assms unfolding fresh_gone
proof (induction "length old + length new" arbitrary: old new vm rule: less_induct)
  case less
  let ?call = "\<lambda>fr. call_listeners lo sp (Some fr) None AddRegion"
  have bind: "sm_bind (?call x) (\<lambda>_. update_topology_pass lo sp True os ns) vm =
      try_for_each ?call (x # gone (vm_regions vm) ns os) vm"
    if "length os + length ns < length old + length new" "fv_ok os" "fv_ok ns" for x os ns
    unfolding try_for_each_Cons_bind
    by (rule sm_bind_cong_run)
      (use less.hyps [OF that] call_listeners_frame(1) [of lo sp "Some x" None AddRegion vm] in auto)
  show ?case
  proof (cases old)
    case Nil
    then show ?thesis using less bind [of "[]"]
      by (cases new) (simp_all add: gone_simps del: try_for_each.simps(2))
  next
    case o: (Cons x os)
    show ?thesis
    proof (cases new)
      case Nil
      then show ?thesis using o less by (simp add: gone_simps)
    next
      case n: (Cons y ns)
      have ok: "fv_ok os" "fv_ok ns" using less.prems o n by auto
      let ?b = "ar_base (fr_range x)" and ?c = "ar_base (fr_range y)"
      consider (del) "?b < ?c \<or> ?b = ?c \<and> \<not> fr_eq (vm_regions vm) x y"
        | (same) "fr_eq (vm_regions vm) x y" | (skip) "?c < ?b" by fastforce
      then show ?thesis
      proof cases
        case del
        have "\<not> fr_eq (vm_regions vm) m x" if "m \<in> set (y # ns)" for m
          using del that fv_ok_base_less [of y ns m] less.prems(2) n fr_eq_base [of "vm_regions vm" m x]
            fr_eq_sym [of "vm_regions vm" m x] by auto
        then have g: "gone (vm_regions vm) (y # ns) (x # os) = gone (vm_regions vm) (y # ns) os"
          unfolding gone_def by (intro filter_cong) auto
        show ?thesis using less.hyps [of os "y # ns" vm] less.prems o n ok del
          by (auto simp: g)
      next
        case same
        then show ?thesis using less.hyps [of os ns vm] less.prems o n ok fr_eq_base [OF same]
          by (simp add: gone_simps(4) fr_eq_sym)
      next
        case skip
        then have "\<not> ?b < ?c" "?b \<noteq> ?c" "\<not> fr_eq (vm_regions vm) x y" by (auto dest: fr_eq_base)
        then show ?thesis using bind [of "x # os" ns] less.prems o n ok skip
          by (simp add: gone_simps(3) del: try_for_each.simps(2))
      qed
    qed
  qed
qed

lemma try_call_regions:
  "vm_regions (snd (try_for_each (\<lambda>fr. call_listeners lo sp (f fr) ev req) frs vm)) = vm_regions vm"
  by (rule try_for_each_inv) (simp_all add: frame_simps)

text \<open>
  C28. \<open>update_topology\<close>, from a well-formed old view and a non-empty tree: it renders the new
  view, tells the listeners of every range of the old view that is not in the new one, then
  of every range of the new view that was not in the old one, each exactly once and in
  ascending order, and only then installs the new view and goes on to the ioeventfds; the
  first listener error stops it with the old view still in place.
\<close>

theorem update_topology_reports:
  assumes "as_flat_view (vm_spaces vm sp) = old" and "fv_ok old" and "as_root (vm_spaces vm sp) = root"
    and "r_type (vm_regions vm root) = Container" and "tree_ok n (vm_regions vm) root"
  shows "\<exists>new. fv_inv (vm_regions vm) new \<and>
    (\<forall>x. fv_at new x = (if unat x < unat (r_size (vm_regions vm root)) then resolve n (vm_regions vm) root 0 x else None)) \<and>
    update_topology n lo sp vm =
      (case sm_bind (try_for_each (\<lambda>fr. call_listeners lo sp (Some fr) None DeleteRegion) (gone (vm_regions vm) old new))
              (\<lambda>_. try_for_each (\<lambda>fr. call_listeners lo sp (Some fr) None AddRegion) (fresh (vm_regions vm) old new)) vm of
         (Inl e, vm1) \<Rightarrow> Some (Inl e, vm1)
       | (Inr _, vm1) \<Rightarrow> update_ioeventfds lo sp
           (vm1\<lparr>vm_spaces := (vm_spaces vm1)(sp := (vm_spaces vm1 sp)\<lparr>as_flat_view := new\<rparr>)\<rparr>))"
proof -
  let ?st = "vm_regions vm" and ?a = "AddressRange 0 (r_size (vm_regions vm root))"
  have sz: "r_size (?st root) \<noteq> 0" using assms(5) by (cases n) auto
  have inv0: "fv_inv ?st []" by (simp add: fv_inv_def)
  have "range_ok ?a" "ar_size ?a \<noteq> 0" using sz by (simp_all add: range_ok_def)
  from render_region_pass_renders [OF assms(5) this inv0, of 0] obtain new where
    g: "generate_flatview n ?st root 0 ?a = Some (Inr new)" and inv: "fv_inv ?st new"
    and at_new: "\<And>x. fv_at new x = (if in_range ?a x then resolve n ?st root 0 x else None)"
    using assms(4) by (auto simp: renders_def generate_flatview_def)
  have ok: "fv_ok new" using inv by (simp add: fv_inv_def)
  have run: "sm_bind (update_topology_pass lo sp False old new) (\<lambda>_. update_topology_pass lo sp True old new) vm =
      sm_bind (try_for_each (\<lambda>fr. call_listeners lo sp (Some fr) None DeleteRegion) (gone ?st old new))
        (\<lambda>_. try_for_each (\<lambda>fr. call_listeners lo sp (Some fr) None AddRegion) (fresh ?st old new)) vm"
    unfolding sm_bind_def pass_delete [OF assms(2) ok] pass_add [OF assms(2) ok]
    using try_call_regions [of lo sp Some None DeleteRegion "gone ?st old new" vm]
    by (auto split: prod.split sum.split)
  have "in_range ?a x \<longleftrightarrow> unat x < unat (r_size (?st root))" for x by (simp add: in_range_def range_set_def)
  then show ?thesis
    using inv at_new g run assms(1,3) by (intro exI [of _ new]) (simp add: update_topology_def Let_def)
qed

theorem update_topology_reports_witness:
  "\<exists>lo :: (unit, unit, unit) listener_ops. \<exists>vm new. fv_inv demo_store new \<and> fv_at new 0x1800 = Some (2, 0x800, None) \<and>
     gone demo_store [] new = [] \<and>
     update_topology (Suc (Suc 0)) lo 0 vm =
       (case try_for_each (\<lambda>fr. call_listeners lo 0 (Some fr) None AddRegion) new vm of
          (Inl e, vm1) \<Rightarrow> Some (Inl e, vm1)
        | (Inr _, vm1) \<Rightarrow> update_ioeventfds lo 0
            (vm1\<lparr>vm_spaces := (vm_spaces vm1)(0 := (vm_spaces vm1 0)\<lparr>as_flat_view := new\<rparr>)\<rparr>))"
proof -
  let ?lo = "\<lparr>l_priority = (\<lambda>_. 0), l_enabled = (\<lambda>_. True), l_enable = id, l_disable = id,
    l_handle = (\<lambda>_ _ _ _ s. (Inr (), s))\<rparr> :: (unit, unit, unit) listener_ops"
  let ?vm = "\<lparr>vm_regions = demo_store,
    vm_spaces = (\<lambda>_. \<lparr>as_name = ''memory'', as_root = 0, as_flat_view = [], as_listeners = [], as_ioeventfds = []\<rparr>),
    vm_listeners = (\<lambda>_. ()), vm_kernel = ()\<rparr> :: (unit, unit, unit) vm"
  have pre: "as_flat_view (vm_spaces ?vm 0) = []" "fv_ok []" "as_root (vm_spaces ?vm 0) = 0"
    "r_type (vm_regions ?vm 0) = Container" "tree_ok (Suc (Suc 0)) (vm_regions ?vm) 0"
    using demo_tree(1,2) by (simp_all del: tree_ok.simps)
  have sz: "r_size (demo_store 0) = 0x10000" by (simp add: demo_simps)
  have f: "fresh demo_store [] new = new" "gone demo_store [] new = []" for new by (simp_all add: fresh_def gone_def)
  from update_topology_reports [OF pre, of ?lo] obtain new where
    "fv_inv demo_store new" "fv_at new 0x1800 = Some (2, 0x800, None)"
    "update_topology (Suc (Suc 0)) ?lo 0 ?vm =
       (case try_for_each (\<lambda>fr. call_listeners ?lo 0 (Some fr) None AddRegion) new ?vm of
          (Inl e, vm1) \<Rightarrow> Some (Inl e, vm1)
        | (Inr _, vm1) \<Rightarrow> update_ioeventfds ?lo 0
            (vm1\<lparr>vm_spaces := (vm_spaces vm1)(0 := (vm_spaces vm1 0)\<lparr>as_flat_view := new\<rparr>)\<rparr>))"
    using demo_resolve(1) by (auto simp: f sz sm_bind_def simp del: resolve.simps)
  then show ?thesis using f(2) by blast
qed

section \<open>A listener that keeps a table\<close>

text \<open>
  The table entries are triples of guest address, size and host address. \<open>slot_of st fr\<close> is
  the entry a range should have; the two laws say what a successful request does to the
  table, provided that no unrelated entry overlaps the range.
\<close>

definition entry_overlaps :: "u64 \<times> u64 \<times> u64 \<Rightarrow> flat_range \<Rightarrow> bool" where
  "entry_overlaps e fr = (case e of (g, n, h) \<Rightarrow> unat g < fr_hi fr \<and> fr_lo fr < unat g + unat n)"

definition slots_of :: "('d store \<Rightarrow> flat_range \<Rightarrow> (u64 \<times> u64 \<times> u64) option) \<Rightarrow> 'd store \<Rightarrow> flat_range set \<Rightarrow> (u64 \<times> u64 \<times> u64) set" where
  "slots_of slot st R = (\<Union>fr \<in> R. set_option (slot st fr))"

definition pairwise_apart :: "flat_range set \<Rightarrow> bool" where
  "pairwise_apart R = (\<forall>a \<in> R. \<forall>b \<in> R. a \<noteq> b \<longrightarrow> fr_hi a \<le> fr_lo b \<or> fr_hi b \<le> fr_lo a)"

lemma fv_ok_apart: "fv_ok fv \<Longrightarrow> pairwise_apart (set fv)"
  by (induction fv) (auto simp: pairwise_apart_def)

lemma pairwise_apart_mono: "pairwise_apart R \<Longrightarrow> S \<subseteq> R \<Longrightarrow> pairwise_apart S"
  unfolding pairwise_apart_def by blast

lemma fv_ok_distinct: "fv_ok fv \<Longrightarrow> distinct fv"
  by (induction fv) (auto simp: fr_ok_def)

locale memory_listener =
  fixes handle :: "'d store \<Rightarrow> flat_range \<Rightarrow> listener_req \<Rightarrow> 's \<Rightarrow> (as_error + unit) \<times> 's"
    and good :: "'s \<Rightarrow> bool"
    and table :: "'s \<Rightarrow> (u64 \<times> u64 \<times> u64) set"
    and slot :: "'d store \<Rightarrow> flat_range \<Rightarrow> (u64 \<times> u64 \<times> u64) option"
  assumes slot_within: "slot st fr = Some (g, n, h) \<Longrightarrow> fr_ok fr \<Longrightarrow>
      fr_lo fr \<le> unat g \<and> unat g + unat n \<le> fr_hi fr \<and> 0 < unat n"
    and slot_eq: "fr_eq st a b \<Longrightarrow> slot st a = slot st b"
    and add_law: "good s \<Longrightarrow> fr_ok fr \<Longrightarrow> fr_in st fr \<Longrightarrow> \<forall>e \<in> table s. \<not> entry_overlaps e fr \<Longrightarrow>
      handle st fr AddRegion s = (Inr (), s') \<Longrightarrow> good s' \<and> table s' = table s \<union> set_option (slot st fr)"
    and del_law: "good s \<Longrightarrow> fr_ok fr \<Longrightarrow> \<forall>e \<in> table s. entry_overlaps e fr \<longrightarrow> slot st fr = Some e \<Longrightarrow>
      handle st fr DeleteRegion s = (Inr (), s') \<Longrightarrow> good s' \<and> table s' = table s - set_option (slot st fr)"
begin

lemma overlap_own:
  assumes "pairwise_apart R" and "\<forall>r \<in> R. fr_ok r" and "fr \<in> R" and "e \<in> slots_of slot st R"
    and "entry_overlaps e fr"
  shows "slot st fr = Some e"
proof -
  obtain r where r: "r \<in> R" "slot st r = Some e" using assms(4) by (auto simp: slots_of_def)
  obtain g n h where e: "e = (g, n, h)" by (cases e)
  have w: "fr_lo r \<le> unat g" "unat g + unat n \<le> fr_hi r" "0 < unat n"
    using slot_within [of st r g n h] r assms(2) e by auto
  have "r = fr"
  proof (rule ccontr)
    assume "r \<noteq> fr"
    then have "fr_hi r \<le> fr_lo fr \<or> fr_hi fr \<le> fr_lo r" using assms(1,3) r(1) by (auto simp: pairwise_apart_def)
    with w assms(5) e show False by (auto simp: entry_overlaps_def)
  qed
  with r show ?thesis by simp
qed

lemma own_overlap:
  assumes "slot st fr = Some e" and "fr_ok fr"
  shows "entry_overlaps e fr"
  using slot_within [of st fr "fst e" "fst (snd e)" "snd (snd e)"] assms
  by (auto simp: entry_overlaps_def)

lemma delete_one:
  assumes "good s" and "pairwise_apart R" and "\<forall>r \<in> R. fr_ok r" and "fr \<in> R" and "table s = slots_of slot st R"
    and "handle st fr DeleteRegion s = (Inr (), s')"
  shows "good s' \<and> table s' = slots_of slot st (R - {fr})"
proof -
  have own: "\<forall>e \<in> table s. entry_overlaps e fr \<longrightarrow> slot st fr = Some e"
    using overlap_own [OF assms(2-4)] assms(5) by simp
  have "table s' = table s - set_option (slot st fr)" "good s'"
    using del_law [OF assms(1) _ own assms(6)] assms(3,4) by auto
  moreover have "slot st r \<noteq> Some e" if "r \<in> R - {fr}" "slot st fr = Some e" for r e
  proof
    assume "slot st r = Some e"
    moreover from this have "entry_overlaps e r" using own_overlap assms(3) that by auto
    moreover have "entry_overlaps e fr" using own_overlap assms(3,4) that by auto
    ultimately show False
      using that assms(2,4) slot_within [of st r "fst e" "fst (snd e)" "snd (snd e)"]
        slot_within [of st fr "fst e" "fst (snd e)" "snd (snd e)"] assms(3)
      unfolding pairwise_apart_def by (fastforce)
  qed
  then have "slots_of slot st R - set_option (slot st fr) = slots_of slot st (R - {fr})"
    unfolding slots_of_def using assms(4) by fastforce
  ultimately show ?thesis using assms(5) by simp
qed

lemma delete_all:
  assumes "good s" and "pairwise_apart R" and "\<forall>r \<in> R. fr_ok r" and "set ds \<subseteq> R" and "distinct ds"
    and "table s = slots_of slot st R"
    and "try_for_each (\<lambda>fr. handle st fr DeleteRegion) ds s = (Inr (), s')"
  shows "good s' \<and> table s' = slots_of slot st (R - set ds)"
  using assms
proof (induction ds arbitrary: s R)
  case Nil
  then show ?case by simp
next
  case (Cons d ds)
  obtain s1 where d: "handle st d DeleteRegion s = (Inr (), s1)"
    and rest: "try_for_each (\<lambda>fr. handle st fr DeleteRegion) ds s1 = (Inr (), s')"
    using Cons.prems(7) by (auto split: prod.splits sum.splits)
  have 1: "good s1" "table s1 = slots_of slot st (R - {d})"
    using delete_one [OF Cons.prems(1-3) _ Cons.prems(6) d] Cons.prems(4) by auto
  have "pairwise_apart (R - {d})" using Cons.prems(2) by (rule pairwise_apart_mono) blast
  from Cons.IH [OF 1(1) this _ _ _ 1(2) rest] Cons.prems have "good s' \<and> table s' = slots_of slot st (R - {d} - set ds)"
    by auto
  moreover have "R - {d} - set ds = R - set (d # ds)" by auto
  ultimately show ?case by simp
qed

lemma add_all:
  assumes "good s" and "pairwise_apart (R \<union> set as)" and "\<forall>r \<in> R \<union> set as. fr_ok r" and "set as \<inter> R = {}"
    and "distinct as" and "\<forall>r \<in> set as. fr_in st r" and "table s = slots_of slot st R"
    and "try_for_each (\<lambda>fr. handle st fr AddRegion) as s = (Inr (), s')"
  shows "good s' \<and> table s' = slots_of slot st (R \<union> set as)"
  using assms
proof (induction as arbitrary: s R)
  case Nil
  then show ?case by simp
next
  case (Cons a as)
  obtain s1 where a: "handle st a AddRegion s = (Inr (), s1)"
    and rest: "try_for_each (\<lambda>fr. handle st fr AddRegion) as s1 = (Inr (), s')"
    using Cons.prems(8) by (auto split: prod.splits sum.splits)
  have no: "\<forall>e \<in> table s. \<not> entry_overlaps e a"
  proof
    fix e assume "e \<in> table s"
    then obtain r where r: "r \<in> R" "slot st r = Some e" using Cons.prems(7) by (auto simp: slots_of_def)
    then have "r \<noteq> a" using Cons.prems(4) by auto
    then have "fr_hi r \<le> fr_lo a \<or> fr_hi a \<le> fr_lo r" using Cons.prems(2) r(1) by (auto simp: pairwise_apart_def)
    then show "\<not> entry_overlaps e a"
      using slot_within [of st r "fst e" "fst (snd e)" "snd (snd e)"] r Cons.prems(3)
      by (auto simp: entry_overlaps_def split: prod.splits)
  qed
  have "good s1" "table s1 = table s \<union> set_option (slot st a)"
    using add_law [OF Cons.prems(1) _ _ no a] Cons.prems(3,6) by auto
  then have 1: "good s1" "table s1 = slots_of slot st (insert a R)"
    using Cons.prems(7) by (auto simp: slots_of_def)
  show ?case using Cons.IH [OF 1(1) _ _ _ _ _ 1(2) rest] Cons.prems by auto
qed

lemma passes_sync:
  assumes "good s" and "fv_ok old" and "fv_inv st new" and "table s = slots_of slot st (set old)"
    and "try_for_each (\<lambda>fr. handle st fr DeleteRegion) (gone st old new) s = (Inr (), s1)"
    and "try_for_each (\<lambda>fr. handle st fr AddRegion) (fresh st old new) s1 = (Inr (), s2)"
  shows "good s2 \<and> table s2 = slots_of slot st (set new)"
proof -
  have okn: "fv_ok new" "\<forall>fr \<in> set new. fr_in st fr" using assms(3) by (auto simp: fv_inv_def)
  have 1: "good s1" "table s1 = slots_of slot st (set old - set (gone st old new))"
    using delete_all [OF assms(1) fv_ok_apart [OF assms(2)] _ _ _ assms(4,5)] fv_ok_mem [OF assms(2)]
      fv_ok_distinct [OF assms(2)] by (auto simp: gone_def)
  let ?kept = "set new - set (fresh st old new)"
  have "slots_of slot st (set old - set (gone st old new)) = slots_of slot st ?kept"
    unfolding slots_of_def gone_def fresh_def using slot_eq by (fastforce)
  with 1 have t1: "table s1 = slots_of slot st ?kept" by simp
  have sub: "?kept \<union> set (fresh st old new) = set new" by (auto simp: fresh_def)
  have "distinct (fresh st old new)" using fv_ok_distinct [OF okn(1)] by (simp add: fresh_def)
  then show ?thesis
    using add_all [OF 1(1) _ _ _ _ _ t1 assms(6)] sub fv_ok_apart [OF okn(1)] fv_ok_mem [OF okn(1)] okn(2)
    by (auto simp: fresh_def)
qed

end

end
