(* ===== verification/KvmListener.thy ===== *)
theory KvmListener
  imports Topology
begin

text \<open>
  address_space/src/listener.rs: the two listeners that mirror an address space into KVM, and
  the slot table of hypervisor/src/kvm/mod.rs they share. Whether an ioctl succeeds is the
  parameter \<open>kvm_ioctls\<close>; the calls that were made are kept in a log, so that their order
  and arguments can be stated.
\<close>

section \<open>State\<close>

record kvm_slot =
  ks_index :: u32
  ks_guest_addr :: u64
  ks_size :: u64
  ks_host_addr :: u64

record kvm_listener =
  kl_as_id :: u32
  kl_slots :: "kvm_slot list"
  kl_enabled :: bool

record kvm_region =
  kr_slot :: u32
  kr_flags :: u32
  kr_gpa :: u64
  kr_size :: u64
  kr_hva :: u64

datatype io_addr = Mmio u64 | Pio u64

datatype datamatch = NoDatamatch | Match16 u16 | Match32 u32 | Match64 u64

datatype kvm_call =
    SetUserMemoryRegion kvm_region
  | RegisterIoevent int io_addr datamatch
  | UnregisterIoevent int io_addr datamatch

record kvm_fds =
  kf_mem_slots :: "(u32 \<times> kvm_region) list"
  kf_log :: "kvm_call list"

type_synonym kvm_ioctls = "kvm_call \<Rightarrow> bool"

definition KVM_MEM_READONLY :: u32 where
  "KVM_MEM_READONLY = 2"

section \<open>The slot table of the hypervisor\<close>

text \<open>A \<open>HashMap\<close> from slot number to region, as an association list.\<close>

definition hm_remove :: "u32 \<Rightarrow> (u32 \<times> kvm_region) list \<Rightarrow> (u32 \<times> kvm_region) list" where
  "hm_remove k m = filter (\<lambda>(k', _). k' \<noteq> k) m"

definition add_mem_slot :: "kvm_region \<Rightarrow> kvm_fds \<Rightarrow> kvm_fds" where
  "add_mem_slot r k =
     (if kr_flags r AND KVM_MEM_READONLY \<noteq> 0 then k
      else k\<lparr>kf_mem_slots := (kr_slot r, r) # hm_remove (kr_slot r) (kf_mem_slots k)\<rparr>)"

definition remove_mem_slot :: "kvm_region \<Rightarrow> kvm_fds \<Rightarrow> kvm_fds" where
  "remove_mem_slot r k = k\<lparr>kf_mem_slots := hm_remove (kr_slot r) (kf_mem_slots k)\<rparr>"

definition ioctl :: "kvm_ioctls \<Rightarrow> kvm_call \<Rightarrow> kvm_fds \<Rightarrow> (as_error + unit) \<times> kvm_fds" where
  "ioctl io c k = (if io c then Inr () else Inl EKvmIoctl, k\<lparr>kf_log := kf_log k @ [c]\<rparr>)"

section \<open>Slots of the memory listener\<close>

definition new_kvm_listener :: "u32 \<Rightarrow> kvm_listener" where
  "new_kvm_listener nr_slots =
     \<lparr>kl_as_id = 0,
      kl_slots = replicate (unat nr_slots) \<lparr>ks_index = 0, ks_guest_addr = 0, ks_size = 0, ks_host_addr = 0\<rparr>,
      kl_enabled = False\<rparr>"

fun check_overlap :: "address_range \<Rightarrow> kvm_slot list \<Rightarrow> as_error + unit" where
  "check_overlap r [] = Inr ()"
| "check_overlap r (s # ss) =
     (if find_intersection (AddressRange (ks_guest_addr s) (ks_size s)) r \<noteq> None
      then Inl (EKvmSlotOverlap (ar_base r, ar_size r) (ks_guest_addr s, ks_size s))
      else check_overlap r ss)"

fun fill_free_slot :: "nat \<Rightarrow> u64 \<Rightarrow> u64 \<Rightarrow> u64 \<Rightarrow> kvm_slot list \<Rightarrow> (u32 \<times> kvm_slot list) option" where
  "fill_free_slot idx ga sz ha [] = None"
| "fill_free_slot idx ga sz ha (s # ss) =
     (if ks_size s = 0
      then Some (of_nat idx, \<lparr>ks_index = of_nat idx, ks_guest_addr = ga, ks_size = sz, ks_host_addr = ha\<rparr> # ss)
      else map_option (\<lambda>(i, ss'). (i, s # ss')) (fill_free_slot (Suc idx) ga sz ha ss))"

definition get_free_slot :: "u64 \<Rightarrow> u64 \<Rightarrow> u64 \<Rightarrow> kvm_slot list \<Rightarrow> (as_error + u32) \<times> kvm_slot list" where
  "get_free_slot ga sz ha slots =
     (case check_overlap (AddressRange ga sz) slots of
        Inl e \<Rightarrow> (Inl e, slots)
      | Inr _ \<Rightarrow>
          (case fill_free_slot 0 ga sz ha slots of
             Some (i, slots') \<Rightarrow> (Inr i, slots')
           | None \<Rightarrow> (Inl (ENoAvailKvmSlot (length slots)), slots)))"

fun delete_slot :: "u64 \<Rightarrow> u64 \<Rightarrow> kvm_slot list \<Rightarrow> (kvm_slot \<times> kvm_slot list) option" where
  "delete_slot addr sz [] = None"
| "delete_slot addr sz (s # ss) =
     (if ks_guest_addr s = addr \<and> ks_size s = sz then Some (s\<lparr>ks_size := 0\<rparr>, s\<lparr>ks_size := 0\<rparr> # ss)
      else map_option (\<lambda>(d, ss'). (d, s # ss')) (delete_slot addr sz ss))"

definition align_mem_slot :: "address_range \<Rightarrow> u64 \<Rightarrow> as_error + address_range" where
  "align_mem_slot rng alignment =
     (case align_up (ar_base rng) alignment of
        Inl p \<Rightarrow> Inl (EPanic p)
      | Inr None \<Rightarrow> Inl (EAddrAlignUp (ar_base rng) alignment)
      | Inr (Some aligned_addr) \<Rightarrow>
          (case checked_sub (ar_size rng) (offset_from aligned_addr (ar_base rng)) of
             None \<Rightarrow> Inl EBail
           | Some sz \<Rightarrow>
               (case round_down sz alignment of
                  Inl p \<Rightarrow> Inl (EPanic p)
                | Inr None \<Rightarrow> Inl EBail
                | Inr (Some asz) \<Rightarrow> if asz > 0 then Inr (AddressRange aligned_addr asz) else Inl EBail)))"

section \<open>Region requests\<close>

definition kvm_delete_region ::
    "kvm_ioctls \<Rightarrow> u64 \<Rightarrow> 'd store \<Rightarrow> flat_range \<Rightarrow> kvm_listener \<times> kvm_fds \<Rightarrow> (as_error + unit) \<times> kvm_listener \<times> kvm_fds" where
  "kvm_delete_region io ps st fr = (\<lambda>(kl, k).
     if \<not> host_backed (r_type (st (fr_owner fr))) then (Inr (), kl, k)
     else case align_mem_slot (fr_range fr) ps of
            Inl e \<Rightarrow> (Inl e, kl, k)
          | Inr r \<Rightarrow>
              (case delete_slot (ar_base r) (ar_size r) (kl_slots kl) of
                 None \<Rightarrow> (Inr (), kl, k)
               | Some (d, slots) \<Rightarrow>
                   (let kl' = kl\<lparr>kl_slots := slots\<rparr>;
                        reg = \<lparr>kr_slot = ks_index d OR push_bit 16 (kl_as_id kl), kr_flags = 0,
                               kr_gpa = ks_guest_addr d, kr_size = 0, kr_hva = ks_host_addr d\<rparr>
                    in case ioctl io (SetUserMemoryRegion reg) (remove_mem_slot reg k) of
                         (res, k') \<Rightarrow> (res, kl', k'))))"

definition kvm_add_region ::
    "kvm_ioctls \<Rightarrow> u64 \<Rightarrow> 'd store \<Rightarrow> flat_range \<Rightarrow> kvm_listener \<times> kvm_fds \<Rightarrow> (as_error + unit) \<times> kvm_listener \<times> kvm_fds" where
  "kvm_add_region io ps st fr = (\<lambda>(kl, k).
     let owner = st (fr_owner fr)
     in if r_type owner = RomDevice \<and> get_rom_device_romd owner = Some False
        then (case kvm_delete_region io ps st fr (kl, k) of (_, kl', k') \<Rightarrow> (Inr (), kl', k'))
        else if \<not> host_backed (r_type owner) then (Inr (), kl, k)
        else case align_mem_slot (fr_range fr) ps of
               Inl e \<Rightarrow> (Inl e, kl, k)
             | Inr r \<Rightarrow>
                 (case region_host_address owner of
                    None \<Rightarrow> (Inl (EPanic UnwrapNone), kl, k)
                  | Some hva \<Rightarrow>
                      (let aligned_hva = hva + fr_offset fr + (ar_base r - ar_base (fr_range fr))
                       in case get_free_slot (ar_base r) (ar_size r) aligned_hva (kl_slots kl) of
                            (Inl e, slots) \<Rightarrow> (Inl e, kl\<lparr>kl_slots := slots\<rparr>, k)
                          | (Inr idx, slots) \<Rightarrow>
                              (let kl' = kl\<lparr>kl_slots := slots\<rparr>;
                                   flags = (if get_rom_device_romd owner = Some True then KVM_MEM_READONLY else 0);
                                   reg = \<lparr>kr_slot = idx OR push_bit 16 (kl_as_id kl), kr_flags = flags,
                                          kr_gpa = ar_base r, kr_size = ar_size r, kr_hva = aligned_hva\<rparr>
                               in case ioctl io (SetUserMemoryRegion reg) (add_mem_slot reg k) of
                                    (Inr _, k') \<Rightarrow> (Inr (), kl', k')
                                  | (Inl e, k') \<Rightarrow>
                                      (case delete_slot (ar_base r) (ar_size r) slots of
                                         None \<Rightarrow> (Inl (ENoMatchedKvmSlot (ar_base r) (ar_size r)), kl', k')
                                       | Some (_, slots') \<Rightarrow> (Inl e, kl\<lparr>kl_slots := slots'\<rparr>, k'))))))"

section \<open>Ioeventfd requests\<close>

text \<open>
  \<open>add_ioeventfd\<close> and \<open>delete_ioeventfd\<close> of both listeners; they differ in the kind of
  address and in the ioctl.
\<close>

definition fd_datamatch :: "io_event_fd \<Rightarrow> datamatch option" where
  "fd_datamatch ev =
     (if ev_data_match ev
      then if ar_size (ev_range ev) = 2 then Some (Match16 (ucast (ev_data ev)))
           else if ar_size (ev_range ev) = 4 then Some (Match32 (ucast (ev_data ev)))
           else if ar_size (ev_range ev) = 8 then Some (Match64 (ev_data ev))
           else None
      else Some NoDatamatch)"

definition add_ioeventfd :: "kvm_ioctls \<Rightarrow> (u64 \<Rightarrow> io_addr) \<Rightarrow> io_event_fd \<Rightarrow> kvm_fds \<Rightarrow> (as_error + unit) \<times> kvm_fds" where
  "add_ioeventfd io kind ev k =
     (case fd_datamatch ev of
        None \<Rightarrow> (Inl EBail, k)
      | Some dm \<Rightarrow> ioctl io (RegisterIoevent (ev_fd ev) (kind (ar_base (ev_range ev))) dm) k)"

definition delete_ioeventfd :: "kvm_ioctls \<Rightarrow> (u64 \<Rightarrow> io_addr) \<Rightarrow> io_event_fd \<Rightarrow> kvm_fds \<Rightarrow> (as_error + unit) \<times> kvm_fds" where
  "delete_ioeventfd io kind ev k =
     (case fd_datamatch ev of
        None \<Rightarrow> (Inl EBail, k)
      | Some dm \<Rightarrow> ioctl io (UnregisterIoevent (ev_fd ev) (kind (ar_base (ev_range ev))) dm) k)"

definition kvm_handle_request ::
    "kvm_ioctls \<Rightarrow> u64 \<Rightarrow> 'd store \<Rightarrow> flat_range option \<Rightarrow> io_event_fd option \<Rightarrow> listener_req \<Rightarrow>
     kvm_listener \<times> kvm_fds \<Rightarrow> (as_error + unit) \<times> kvm_listener \<times> kvm_fds" where
  "kvm_handle_request io ps st fr ev req s =
     (case req of
        AddRegion \<Rightarrow> (case fr of None \<Rightarrow> (Inl EBail, s) | Some f \<Rightarrow> kvm_add_region io ps st f s)
      | DeleteRegion \<Rightarrow> (case fr of None \<Rightarrow> (Inl EBail, s) | Some f \<Rightarrow> kvm_delete_region io ps st f s)
      | AddIoeventfd \<Rightarrow>
          (case ev of None \<Rightarrow> (Inl EBail, s)
           | Some e \<Rightarrow> (case add_ioeventfd io Mmio e (snd s) of (res, k) \<Rightarrow> (res, fst s, k)))
      | DeleteIoeventfd \<Rightarrow>
          (case ev of None \<Rightarrow> (Inl EBail, s)
           | Some e \<Rightarrow> (case delete_ioeventfd io Mmio e (snd s) of (res, k) \<Rightarrow> (res, fst s, k))))"

text \<open>The port IO listener of x86_64, whose only state is its enabled flag.\<close>

definition kvm_io_handle_request ::
    "kvm_ioctls \<Rightarrow> 'd store \<Rightarrow> flat_range option \<Rightarrow> io_event_fd option \<Rightarrow> listener_req \<Rightarrow>
     bool \<times> kvm_fds \<Rightarrow> (as_error + unit) \<times> bool \<times> kvm_fds" where
  "kvm_io_handle_request io st fr ev req s =
     (case req of
        AddIoeventfd \<Rightarrow>
          (case ev of None \<Rightarrow> (Inl EBail, s)
           | Some e \<Rightarrow> (case add_ioeventfd io Pio e (snd s) of (res, k) \<Rightarrow> (res, fst s, k)))
      | DeleteIoeventfd \<Rightarrow>
          (case ev of None \<Rightarrow> (Inl EBail, s)
           | Some e \<Rightarrow> (case delete_ioeventfd io Pio e (snd s) of (res, k) \<Rightarrow> (res, fst s, k)))
      | _ \<Rightarrow> (Inr (), s))"

definition kvm_listener_ops :: "kvm_ioctls \<Rightarrow> u64 \<Rightarrow> ('d, kvm_listener, kvm_fds) listener_ops" where
  "kvm_listener_ops io ps =
     \<lparr>l_priority = (\<lambda>_. 10), l_enabled = kl_enabled, l_enable = (\<lambda>kl. kl\<lparr>kl_enabled := True\<rparr>),
      l_disable = (\<lambda>kl. kl\<lparr>kl_enabled := False\<rparr>), l_handle = kvm_handle_request io ps\<rparr>"

definition kvm_io_listener_ops :: "kvm_ioctls \<Rightarrow> ('d, bool, kvm_fds) listener_ops" where
  "kvm_io_listener_ops io =
     \<lparr>l_priority = (\<lambda>_. 10), l_enabled = (\<lambda>b. b), l_enable = (\<lambda>_. True), l_disable = (\<lambda>_. False),
      l_handle = kvm_io_handle_request io\<rparr>"

end
