(* ===== verification/KvmSync.thy ===== *)
theory KvmSync
  imports KvmListener
begin

text \<open>
  The KVM memory listener keeps the slots of KVM equal to the RAM of the flat view: it
  satisfies the laws of \<open>memory_listener\<close>, so a successful update of the topology leaves
  exactly one slot for each page-aligned piece of host-backed memory of the new view.
\<close>

section \<open>Tables of slots\<close>

definition slot_entry :: "kvm_slot \<Rightarrow> u64 \<times> u64 \<times> u64" where
  "slot_entry s = (ks_guest_addr s, ks_size s, ks_host_addr s)"

definition entries :: "kvm_slot list \<Rightarrow> (u64 \<times> u64 \<times> u64) set" where
  "entries ss = slot_entry ` {s \<in> set ss. ks_size s \<noteq> 0}"

definition slot_range :: "kvm_slot \<Rightarrow> nat set" where
  "slot_range s = range_set (AddressRange (ks_guest_addr s) (ks_size s))"

fun slots_ok :: "kvm_slot list \<Rightarrow> bool" where
  "slots_ok [] = True"
| "slots_ok (s # ss) = ((\<forall>t \<in> set ss. slot_range s \<inter> slot_range t = {}) \<and> slots_ok ss)"

lemma entries_simps [simp]:
  "entries [] = {}"
  "entries (s # ss) = (if ks_size s \<noteq> 0 then insert (slot_entry s) (entries ss) else entries ss)"
  by (auto simp: entries_def)

lemma slot_range_free [simp]: "ks_size s = 0 \<Longrightarrow> slot_range s = {}"
  by (simp add: slot_range_def range_set_empty)

lemma check_overlap_disjoint:
  "check_overlap r ss = Inr () \<Longrightarrow> s \<in> set ss \<Longrightarrow> slot_range s \<inter> range_set r = {}"
  by (induction ss) (auto simp: slot_range_def split: if_splits dest: find_intersection_None_disjoint)

lemma fill_free_slot_spec:
  assumes "fill_free_slot idx ga sz ha ss = Some (i, ss')" and "sz \<noteq> 0"
  shows "entries ss' = insert (ga, sz, ha) (entries ss) \<and>
    (slots_ok ss \<longrightarrow> (\<forall>s \<in> set ss. slot_range s \<inter> range_set (AddressRange ga sz) = {}) \<longrightarrow> slots_ok ss') \<and>
    (\<forall>t \<in> set ss'. t \<in> set ss \<or> slot_range t = range_set (AddressRange ga sz))"
  using assms(1)
proof (induction ss arbitrary: idx ss')
  case Nil
  then show ?case by simp
next
  case (Cons s ss)
  show ?case
  proof (cases "ks_size s = 0")
    case True
    then show ?thesis using Cons.prems assms(2) by (auto simp: slot_entry_def slot_range_def, blast)
  next
    case False
    then obtain ss1 where f: "fill_free_slot (Suc idx) ga sz ha ss = Some (i, ss1)" "ss' = s # ss1"
      using Cons.prems by auto
    let ?R = "range_set (AddressRange ga sz)"
    have ih: "entries ss1 = insert (ga, sz, ha) (entries ss)"
      "slots_ok ss \<Longrightarrow> \<forall>s \<in> set ss. slot_range s \<inter> ?R = {} \<Longrightarrow> slots_ok ss1"
      "\<forall>t \<in> set ss1. t \<in> set ss \<or> slot_range t = ?R"
      using Cons.IH [OF f(1)] by blast+
    have "slots_ok (s # ss1)" if a: "slots_ok (s # ss)" "\<forall>u \<in> set (s # ss). slot_range u \<inter> ?R = {}"
    proof -
      have "slot_range s \<inter> slot_range t = {}" if "t \<in> set ss1" for t
        using ih(3) a that by (cases "t \<in> set ss") auto
      then show ?thesis using a ih(2) by simp
    qed
    moreover have "entries ss' = insert (ga, sz, ha) (entries (s # ss))" using ih(1) f(2) False by auto
    ultimately show ?thesis using ih(3) f(2) by auto
  qed
qed

lemma delete_slot_Some:
  assumes "delete_slot ga sz ss = Some (d, ss')" and "sz \<noteq> 0" and "slots_ok ss"
  shows "\<exists>h. (ga, sz, h) \<in> entries ss \<and> entries ss' = entries ss - {(ga, sz, h)} \<and> slots_ok ss' \<and>
    (\<forall>t \<in> set ss'. t \<in> set ss \<or> slot_range t = {}) \<and> ks_host_addr d = h \<and> ks_guest_addr d = ga"
  using assms(1,3)
proof (induction ss arbitrary: ss')
  case Nil
  then show ?case by simp
next
  case (Cons s ss)
  show ?case
  proof (cases "ks_guest_addr s = ga \<and> ks_size s = sz")
    case True
    then have d: "d = s\<lparr>ks_size := 0\<rparr>" "ss' = s\<lparr>ks_size := 0\<rparr> # ss" using Cons.prems by auto
    have "(ga, sz, ks_host_addr s) \<notin> entries ss"
    proof
      assume "(ga, sz, ks_host_addr s) \<in> entries ss"
      then obtain t where t: "t \<in> set ss" "slot_range t = slot_range s"
        using True by (auto simp: entries_def slot_entry_def slot_range_def)
      with Cons.prems(2) have "slot_range s = {}" by auto
      then show False using True assms(2) by (simp add: slot_range_def range_set_empty)
    qed
    then show ?thesis using True d Cons.prems(2) assms(2)
      by (intro exI [of _ "ks_host_addr s"]) (auto simp: slot_entry_def)
  next
    case False
    then obtain ss1 where f: "delete_slot ga sz ss = Some (d, ss1)" "ss' = s # ss1"
      using Cons.prems by auto
    from Cons.IH [OF f(1)] Cons.prems(2) obtain h where
      h: "(ga, sz, h) \<in> entries ss" "entries ss1 = entries ss - {(ga, sz, h)}" "slots_ok ss1"
        "\<forall>t \<in> set ss1. t \<in> set ss \<or> slot_range t = {}" "ks_host_addr d = h" "ks_guest_addr d = ga" by auto
    moreover have "slot_entry s \<noteq> (ga, sz, h)" using False by (auto simp: slot_entry_def)
    ultimately show ?thesis using Cons.prems(2) f(2) by (intro exI [of _ h]) auto
  qed
qed

lemma delete_slot_None: "delete_slot ga sz ss = None \<Longrightarrow> (ga, sz, h) \<notin> entries ss"
  by (induction ss) (auto simp: slot_entry_def split: if_splits)

section \<open>Alignment\<close>

lemma align_mem_slot_within:
  assumes "align_mem_slot r ps = Inr a"
  shows "unat (ar_base r) \<le> unat (ar_base a) \<and>
    unat (ar_base a) + unat (ar_size a) \<le> unat (ar_base r) + unat (ar_size r) \<and> 0 < unat (ar_size a)"
proof -
  obtain b sz asz where b: "align_up (ar_base r) ps = Inr (Some b)"
    and sz: "checked_sub (ar_size r) (b - ar_base r) = Some sz"
    and asz: "round_down sz ps = Inr (Some asz)" "0 < asz" "a = AddressRange b asz"
    using assms by (auto simp: align_mem_slot_def offset_from_def split: sum.splits option.splits if_splits)
  have le: "unat (ar_base r) \<le> unat b"
    using b by (auto simp: align_up_def round_up_def Let_def checked_add_Some unat_add_eq split: if_splits)
  have "unat asz \<le> unat sz"
    using asz(1) by (auto simp: round_down_def Let_def checked_sub_Some unat_sub_eq split: if_splits)
  moreover have "unat sz = unat (ar_size r) - (unat b - unat (ar_base r))" "unat b - unat (ar_base r) \<le> unat (ar_size r)"
    using sz le by (auto simp: checked_sub_Some unat_sub_eq)
  ultimately show ?thesis using le asz(2,3) by (simp add: word_less_nat_alt)
qed

section \<open>The laws\<close>

definition kvm_slot_of :: "u64 \<Rightarrow> 'd store \<Rightarrow> flat_range \<Rightarrow> (u64 \<times> u64 \<times> u64) option" where
  "kvm_slot_of ps st fr =
     (if host_backed (r_type (st (fr_owner fr))) \<and> (r_type (st (fr_owner fr)) = RomDevice \<longrightarrow> fr_romd fr = Some True)
      then case (align_mem_slot (fr_range fr) ps, region_host_address (st (fr_owner fr))) of
             (Inr r, Some hva) \<Rightarrow> Some (ar_base r, ar_size r, hva + fr_offset fr + (ar_base r - ar_base (fr_range fr)))
           | _ \<Rightarrow> None
      else None)"

definition kvm_good :: "kvm_listener \<times> kvm_fds \<Rightarrow> bool" where
  "kvm_good s = slots_ok (kl_slots (fst s))"

definition kvm_table :: "kvm_listener \<times> kvm_fds \<Rightarrow> (u64 \<times> u64 \<times> u64) set" where
  "kvm_table s = entries (kl_slots (fst s))"

definition kvm_handle :: "kvm_ioctls \<Rightarrow> u64 \<Rightarrow> 'd store \<Rightarrow> flat_range \<Rightarrow> listener_req \<Rightarrow> kvm_listener \<times> kvm_fds \<Rightarrow> (as_error + unit) \<times> kvm_listener \<times> kvm_fds" where
  "kvm_handle io ps st fr req = kvm_handle_request io ps st (Some fr) None req"

lemma kvm_slot_within:
  "kvm_slot_of ps st fr = Some (g, n, h) \<Longrightarrow>
     fr_lo fr \<le> unat g \<and> unat g + unat n \<le> fr_hi fr \<and> 0 < unat n"
  using align_mem_slot_within [of "fr_range fr" ps]
  by (auto simp: kvm_slot_of_def split: if_splits sum.splits option.splits)

lemma kvm_slot_eq: "fr_eq st a b \<Longrightarrow> kvm_slot_of ps st a = kvm_slot_of ps st b"
  unfolding fr_eq_def kvm_slot_of_def by (elim conjE) (simp split: sum.split option.split)

lemma entry_overlapsI:
  assumes "align_mem_slot (fr_range fr) ps = Inr r"
  shows "entry_overlaps (ar_base r, ar_size r, h) fr"
  using align_mem_slot_within [OF assms] by (auto simp: entry_overlaps_def)

lemma kvm_delete_none:
  assumes "kvm_good s" and "\<forall>e \<in> kvm_table s. \<not> entry_overlaps e fr"
  shows "snd (kvm_delete_region io ps st fr s) = s"
proof -
  obtain kl k where s: "s = (kl, k)" by (cases s)
  have "delete_slot (ar_base r) (ar_size r) (kl_slots kl) = None" if r: "align_mem_slot (fr_range fr) ps = Inr r" for r
  proof (rule ccontr)
    assume "delete_slot (ar_base r) (ar_size r) (kl_slots kl) \<noteq> None"
    then obtain d ss where d: "delete_slot (ar_base r) (ar_size r) (kl_slots kl) = Some (d, ss)" by auto
    have "ar_size r \<noteq> 0" using align_mem_slot_within [OF r] by auto
    from delete_slot_Some [OF d this] assms(1) s obtain h where "(ar_base r, ar_size r, h) \<in> kvm_table s"
      by (auto simp: kvm_good_def kvm_table_def)
    then show False using assms(2) entry_overlapsI [OF r] by blast
  qed
  then show ?thesis by (auto simp: s kvm_delete_region_def split: sum.split)
qed

lemma kvm_delete_law:
  assumes good: "kvm_good s" and own: "\<forall>e \<in> kvm_table s. entry_overlaps e fr \<longrightarrow> kvm_slot_of ps st fr = Some e"
    and run: "kvm_delete_region io ps st fr s = (Inr (), s')"
  shows "kvm_good s' \<and> kvm_table s' = kvm_table s - set_option (kvm_slot_of ps st fr)"
proof -
  obtain kl k where s: "s = (kl, k)" by (cases s)
  show ?thesis
  proof (cases "host_backed (r_type (st (fr_owner fr)))")
    case False
    then show ?thesis using good run by (auto simp: s kvm_delete_region_def kvm_slot_of_def)
  next
    case True
    then obtain r where r: "align_mem_slot (fr_range fr) ps = Inr r"
      using run by (auto simp: s kvm_delete_region_def split: sum.splits)
    have sz: "ar_size r \<noteq> 0" using align_mem_slot_within [OF r] by auto
    have key: "kvm_slot_of ps st fr = Some e \<Longrightarrow> \<exists>h. e = (ar_base r, ar_size r, h)" for e
      using r by (auto simp: kvm_slot_of_def split: if_splits option.splits)
    show ?thesis
    proof (cases "delete_slot (ar_base r) (ar_size r) (kl_slots kl)")
      case None
      then have "s' = s" using run True r by (simp add: s kvm_delete_region_def)
      moreover have "e \<notin> kvm_table s" if "kvm_slot_of ps st fr = Some e" for e
        using key [OF that] delete_slot_None [OF None] by (auto simp: kvm_table_def s)
      ultimately show ?thesis using good by (cases "kvm_slot_of ps st fr") auto
    next
      case (Some p)
      obtain d ss where d: "delete_slot (ar_base r) (ar_size r) (kl_slots kl) = Some (d, ss)" using Some by (cases p) auto
      obtain h where h: "(ar_base r, ar_size r, h) \<in> kvm_table s" "entries ss = kvm_table s - {(ar_base r, ar_size r, h)}"
        "slots_ok ss"
        using delete_slot_Some [OF d sz] good by (auto simp: kvm_good_def kvm_table_def s)
      then have "kvm_slot_of ps st fr = Some (ar_base r, ar_size r, h)"
        using own entry_overlapsI [OF r] by blast
      moreover have "kl_slots (fst s') = ss"
        using run True r d by (auto simp: s kvm_delete_region_def Let_def split: prod.splits)
      ultimately show ?thesis using h by (simp add: kvm_good_def kvm_table_def)
    qed
  qed
qed

lemma kvm_add_law:
  assumes good: "kvm_good s" and fr: "fr_in st fr" and no: "\<forall>e \<in> kvm_table s. \<not> entry_overlaps e fr"
    and run: "kvm_add_region io ps st fr s = (Inr (), s')"
  shows "kvm_good s' \<and> kvm_table s' = kvm_table s \<union> set_option (kvm_slot_of ps st fr)"
proof -
  obtain kl k where s: "s = (kl, k)" by (cases s)
  let ?o = "st (fr_owner fr)"
  have romd: "fr_romd fr = get_rom_device_romd ?o" using fr by (simp add: fr_in_def)
  consider (io) "r_type ?o = RomDevice" "get_rom_device_romd ?o = Some False"
    | (skip) "\<not> host_backed (r_type ?o)"
    | (map) "host_backed (r_type ?o)" "r_type ?o = RomDevice \<longrightarrow> get_rom_device_romd ?o = Some True"
    by (cases "r_type ?o = RomDevice") (auto simp: get_rom_device_romd_def)
  then show ?thesis
  proof cases
    case io
    then have "s' = s" using kvm_delete_none [OF good no, of io ps st] run
      by (auto simp: s kvm_add_region_def split: prod.splits)
    then show ?thesis using good io romd by (auto simp: kvm_slot_of_def)
  next
    case skip
    then have "s' = s" using run by (auto simp: s kvm_add_region_def Let_def host_backed_def)
    then show ?thesis using good skip by (simp add: kvm_slot_of_def)
  next
    case map
    have nio: "\<not> (r_type ?o = RomDevice \<and> get_rom_device_romd ?o = Some False)" using map(2) by auto
    obtain r hva where r: "align_mem_slot (fr_range fr) ps = Inr r" and hva: "region_host_address ?o = Some hva"
      using run map(1) nio by (auto simp: s kvm_add_region_def Let_def split: sum.splits option.splits)
    define ha where "ha = hva + fr_offset fr + (ar_base r - ar_base (fr_range fr))"
    have slot: "kvm_slot_of ps st fr = Some (ar_base r, ar_size r, ha)"
      using map r hva romd by (simp add: kvm_slot_of_def ha_def)
    have sz: "ar_size r \<noteq> 0" using align_mem_slot_within [OF r] by auto
    obtain idx ss where free: "get_free_slot (ar_base r) (ar_size r) ha (kl_slots kl) = (Inr idx, ss)"
      and s': "kl_slots (fst s') = ss"
      using run map(1) nio r hva
      by (auto simp: s kvm_add_region_def Let_def ha_def split: prod.splits sum.splits option.splits)
    have f: "check_overlap (AddressRange (ar_base r) (ar_size r)) (kl_slots kl) = Inr ()"
      "fill_free_slot 0 (ar_base r) (ar_size r) ha (kl_slots kl) = Some (idx, ss)"
      using free by (auto simp: get_free_slot_def split: sum.splits option.splits)
    then show ?thesis
      using fill_free_slot_spec [OF f(2) sz] check_overlap_disjoint [OF f(1)] good slot s'
      by (auto simp: kvm_good_def kvm_table_def s)
  qed
qed

interpretation kvm_mem: memory_listener "kvm_handle io ps" kvm_good kvm_table "kvm_slot_of ps" for io ps
proof
  fix st :: "'d store" and fr g n h
  assume "kvm_slot_of ps st fr = Some (g, n, h)"
  then show "fr_lo fr \<le> unat g \<and> unat g + unat n \<le> fr_hi fr \<and> 0 < unat n" by (rule kvm_slot_within)
next
  fix st :: "'d store" and a b
  assume "fr_eq st a b"
  then show "kvm_slot_of ps st a = kvm_slot_of ps st b" by (rule kvm_slot_eq)
next
  fix st :: "'d store" and s fr s'
  assume "kvm_good s" "fr_in st fr" "\<forall>e \<in> kvm_table s. \<not> entry_overlaps e fr"
    "kvm_handle io ps st fr AddRegion s = (Inr (), s')"
  then show "kvm_good s' \<and> kvm_table s' = kvm_table s \<union> set_option (kvm_slot_of ps st fr)"
    by (intro kvm_add_law) (simp_all add: kvm_handle_def kvm_handle_request_def)
next
  fix st :: "'d store" and s fr s'
  assume "kvm_good s" "\<forall>e \<in> kvm_table s. entry_overlaps e fr \<longrightarrow> kvm_slot_of ps st fr = Some e"
    "kvm_handle io ps st fr DeleteRegion s = (Inr (), s')"
  then show "kvm_good s' \<and> kvm_table s' = kvm_table s - set_option (kvm_slot_of ps st fr)"
    by (intro kvm_delete_law) (simp_all add: kvm_handle_def kvm_handle_request_def)
qed

section \<open>Freed slots\<close>

lemma check_overlap_free:
  assumes "s \<in> set ss" and "ks_size s = 0" and "unat (ar_base r) < unat (ks_guest_addr s)"
    and "unat (ks_guest_addr s) < unat (ar_base r) + unat (ar_size r)"
  shows "\<exists>e. check_overlap r ss = Inl e"
  using assms by (induction ss) (auto dest: find_intersection_empty_inside [of r])

text \<open>
  A slot that was freed keeps the guest address it had, and the overlap test does not skip
  it: a new range that strictly contains that address is refused as overlapping, although
  no live slot is anywhere near it.
\<close>

theorem freed_slot_blocks_range:
  assumes "s \<in> set ss" and "ks_size s = 0" and "unat ga < unat (ks_guest_addr s)"
    and "unat (ks_guest_addr s) < unat ga + unat sz"
  shows "\<exists>e. get_free_slot ga sz ha ss = (Inl e, ss)"
  using check_overlap_free [of s ss "AddressRange ga sz"] assms by (auto simp: get_free_slot_def)

theorem freed_slot_blocks_range_witness:
  "\<exists>ss d e. delete_slot 0x2000 0x1000 [\<lparr>ks_index = 0, ks_guest_addr = 0x2000, ks_size = 0x1000, ks_host_addr = 0\<rparr>] = Some (d, ss) \<and>
     entries ss = {} \<and> get_free_slot 0x1000 0x4000 0x100000 ss = (Inl e, ss)"
proof -
  let ?s = "\<lparr>ks_index = 0, ks_guest_addr = 0x2000, ks_size = 0, ks_host_addr = 0\<rparr>"
  have "delete_slot 0x2000 0x1000 [\<lparr>ks_index = 0, ks_guest_addr = 0x2000, ks_size = 0x1000, ks_host_addr = 0\<rparr>] = Some (?s, [?s])"
    "entries [?s] = {}" by simp_all
  with freed_slot_blocks_range [of ?s "[?s]" "0x1000" "0x4000" "0x100000"] show ?thesis by simp
qed

end
