(* ===== verification/KvmKernel.thy ===== *)
theory KvmKernel
  imports KvmSync
begin

text \<open>
  The memory slots inside KVM. The kernel's table is what the successful
  \<open>KVM_SET_USER_MEMORY_REGION\<close> calls made it; the listener's own table agrees with it slot by
  slot, so the laws of \<open>memory_listener\<close> hold for the memory that KVM really maps.
\<close>

section \<open>The table of the kernel\<close>

text \<open>
  The documented effect of the call: a region of size 0 deletes the slot with its number, any
  other one creates or replaces it. A call that fails and the other calls change nothing.
\<close>

fun kvm_effect :: "kvm_ioctls \<Rightarrow> kvm_call \<Rightarrow> (u32 \<Rightarrow> (u64 \<times> u64 \<times> u64) option) \<Rightarrow> u32 \<Rightarrow> (u64 \<times> u64 \<times> u64) option" where
  "kvm_effect io (SetUserMemoryRegion r) m =
     (if io (SetUserMemoryRegion r)
      then m(kr_slot r := if kr_size r = 0 then None else Some (kr_gpa r, kr_size r, kr_hva r)) else m)"
| "kvm_effect io (RegisterIoevent fd a dm) m = m"
| "kvm_effect io (UnregisterIoevent fd a dm) m = m"

definition kvm_maps :: "kvm_ioctls \<Rightarrow> kvm_fds \<Rightarrow> u32 \<Rightarrow> (u64 \<times> u64 \<times> u64) option" where
  "kvm_maps io k = fold (kvm_effect io) (kf_log k) (\<lambda>_. None)"

definition kvm_mapped :: "kvm_ioctls \<Rightarrow> kvm_listener \<times> kvm_fds \<Rightarrow> (u64 \<times> u64 \<times> u64) set" where
  "kvm_mapped io s = ran (kvm_maps io (snd s))"

lemma kvm_maps_ioctl:
  "kvm_maps io (snd (ioctl io c k)) = kvm_effect io c (kvm_maps io k)"
  by (simp add: kvm_maps_def ioctl_def)

lemma kvm_maps_slots [simp]: "kvm_maps io (add_mem_slot r k) = kvm_maps io k" "kvm_maps io (remove_mem_slot r k) = kvm_maps io k"
  by (simp_all add: kvm_maps_def add_mem_slot_def remove_mem_slot_def)

section \<open>Agreement slot by slot\<close>

definition live_entry :: "kvm_slot \<Rightarrow> (u64 \<times> u64 \<times> u64) option" where
  "live_entry s = (if ks_size s = 0 then None else Some (slot_entry s))"

definition mirrors :: "(u32 \<Rightarrow> (u64 \<times> u64 \<times> u64) option) \<Rightarrow> kvm_slot list \<Rightarrow> bool" where
  "mirrors m ss \<longleftrightarrow> length ss < 2 ^ 32 \<and> (\<forall>n. m n = (if unat n < length ss then live_entry (ss ! unat n) else None)) \<and>
     (\<forall>i < length ss. ks_size (ss ! i) \<noteq> 0 \<longrightarrow> ks_index (ss ! i) = of_nat i)"

definition kvm_synced :: "kvm_ioctls \<Rightarrow> kvm_listener \<times> kvm_fds \<Rightarrow> bool" where
  "kvm_synced io s \<longleftrightarrow> kvm_good s \<and> kl_as_id (fst s) = 0 \<and> mirrors (kvm_maps io (snd s)) (kl_slots (fst s))"

lemma u32_index: "i < 2 ^ 32 \<Longrightarrow> unat (of_nat i :: u32) = i"
  by (simp add: unat_of_nat take_bit_nat_eq_self)

lemma mirrors_ran:
  assumes "mirrors m ss"
  shows "ran m = entries ss"
proof -
  have at: "m (of_nat i) = live_entry (ss ! i)" if "i < length ss" for i
    using assms that u32_index [of i] by (simp add: mirrors_def)
  have "e \<in> ran m" if "e \<in> entries ss" for e
  proof -
    obtain i where i: "i < length ss" "ks_size (ss ! i) \<noteq> 0" "e = slot_entry (ss ! i)"
      using \<open>e \<in> entries ss\<close> by (auto simp: entries_def in_set_conv_nth)
    then have "m (of_nat i) = Some e" using at by (simp add: live_entry_def)
    then show ?thesis by (rule ranI)
  qed
  moreover have "e \<in> entries ss" if "e \<in> ran m" for e
    using that assms by (auto simp: ran_def mirrors_def live_entry_def entries_def split: if_splits)
  ultimately show ?thesis by blast
qed

lemma synced_mapped: "kvm_synced io s \<Longrightarrow> kvm_mapped io s = kvm_table s"
  by (simp add: kvm_synced_def kvm_mapped_def kvm_table_def mirrors_ran)

lemma mirrors_update:
  assumes "mirrors m ss" and "j < length ss" and "ks_size s \<noteq> 0 \<longrightarrow> ks_index s = of_nat j"
  shows "mirrors (m(of_nat j := live_entry s)) (ss[j := s])"
proof -
  have j: "unat (of_nat j :: u32) = j" using assms(1,2) by (intro u32_index) (simp add: mirrors_def)
  have "(n = of_nat j) = (unat n = j)" for n :: u32 using j by (auto simp: word_unat_eq_iff)
  then show ?thesis using assms by (auto simp: mirrors_def nth_list_update)
qed

lemma fill_free_slot_at:
  assumes "fill_free_slot idx ga sz ha ss = Some (i, ss')"
  shows "\<exists>j < length ss. i = of_nat (idx + j) \<and>
    ss' = ss[j := \<lparr>ks_index = of_nat (idx + j), ks_guest_addr = ga, ks_size = sz, ks_host_addr = ha\<rparr>]"
  using assms
proof (induction ss arbitrary: idx ss')
  case (Cons s ss)
  show ?case
  proof (cases "ks_size s = 0")
    case False
    then obtain ss1 where f: "fill_free_slot (Suc idx) ga sz ha ss = Some (i, ss1)" "ss' = s # ss1" using Cons.prems by auto
    from Cons.IH [OF f(1)] obtain j where "j < length ss" "i = of_nat (Suc idx + j)"
      "ss1 = ss[j := \<lparr>ks_index = of_nat (Suc idx + j), ks_guest_addr = ga, ks_size = sz, ks_host_addr = ha\<rparr>]" by blast
    then show ?thesis by (intro exI [of _ "Suc j"]) (simp add: f(2))
  qed (use Cons.prems in \<open>auto intro!: exI [of _ 0]\<close>)
qed simp

lemma delete_slot_at:
  assumes "delete_slot ga sz ss = Some (d, ss')"
  shows "\<exists>j < length ss. ks_size (ss ! j) = sz \<and> d = (ss ! j)\<lparr>ks_size := 0\<rparr> \<and> ss' = ss[j := d]"
  using assms
proof (induction ss arbitrary: ss')
  case (Cons s ss)
  show ?case
  proof (cases "ks_guest_addr s = ga \<and> ks_size s = sz")
    case False
    then obtain ss1 where f: "delete_slot ga sz ss = Some (d, ss1)" "ss' = s # ss1" using Cons.prems by auto
    from Cons.IH [OF f(1)] obtain j where "j < length ss" "ks_size (ss ! j) = sz" "d = (ss ! j)\<lparr>ks_size := 0\<rparr>" "ss1 = ss[j := d]" by blast
    then show ?thesis by (intro exI [of _ "Suc j"]) (simp add: f(2))
  qed (use Cons.prems in \<open>auto intro!: exI [of _ 0]\<close>)
qed simp

section \<open>The laws for the kernel's table\<close>

lemma kvm_maps_done:
  assumes "ioctl io (SetUserMemoryRegion r) k = (Inr (), k')"
  shows "kvm_maps io k' = (kvm_maps io k)(kr_slot r := if kr_size r = 0 then None else Some (kr_gpa r, kr_size r, kr_hva r))"
  using assms kvm_maps_ioctl [of io "SetUserMemoryRegion r" k] by (auto simp: ioctl_def split: if_splits)

lemma mirrors_delete:
  assumes "kvm_synced io (kl, k)" and "delete_slot ga sz (kl_slots kl) = Some (d, ss)" and "sz \<noteq> 0"
    and "ioctl io (SetUserMemoryRegion \<lparr>kr_slot = ks_index d OR push_bit 16 (kl_as_id kl), kr_flags = 0, kr_gpa = ga', kr_size = 0, kr_hva = ha\<rparr>)
      (remove_mem_slot reg k) = (Inr (), k')"
  shows "mirrors (kvm_maps io k') ss"
proof -
  obtain j where j: "j < length (kl_slots kl)" "ks_size (kl_slots kl ! j) = sz" "d = (kl_slots kl ! j)\<lparr>ks_size := 0\<rparr>" "ss = (kl_slots kl)[j := d]"
    using delete_slot_at [OF assms(2)] by blast
  have m: "mirrors (kvm_maps io k) (kl_slots kl)" "kl_as_id kl = 0" using assms(1) by (auto simp: kvm_synced_def)
  then have "ks_index d = of_nat j" using j assms(3) by (simp add: mirrors_def)
  then show ?thesis using mirrors_update [OF m(1) j(1), of d] kvm_maps_done [OF assms(4)] m(2) j(3,4) by (simp add: live_entry_def)
qed

lemma mirrors_add:
  assumes "kvm_synced io (kl, k)" and "fill_free_slot 0 ga sz ha (kl_slots kl) = Some (idx, ss)" and "sz \<noteq> 0"
    and "ioctl io (SetUserMemoryRegion \<lparr>kr_slot = idx OR push_bit 16 (kl_as_id kl), kr_flags = fl, kr_gpa = ga, kr_size = sz, kr_hva = ha\<rparr>)
      (add_mem_slot reg k) = (Inr (), k')"
  shows "mirrors (kvm_maps io k') ss"
proof -
  let ?s = "\<lambda>j. \<lparr>ks_index = of_nat j, ks_guest_addr = ga, ks_size = sz, ks_host_addr = ha\<rparr>"
  obtain j where j: "j < length (kl_slots kl)" "idx = of_nat j" "ss = (kl_slots kl)[j := ?s j]"
    using fill_free_slot_at [OF assms(2)] by auto
  have m: "mirrors (kvm_maps io k) (kl_slots kl)" "kl_as_id kl = 0" using assms(1) by (auto simp: kvm_synced_def)
  show ?thesis
    using mirrors_update [OF m(1) j(1), of "?s j"] kvm_maps_done [OF assms(4)] m(2) j(2,3) assms(3) by (simp add: live_entry_def slot_entry_def)
qed

lemma kvm_delete_mirrors:
  assumes sync: "kvm_synced io s" and run: "kvm_delete_region io ps st fr s = (Inr (), s')"
  shows "kl_as_id (fst s') = 0 \<and> mirrors (kvm_maps io (snd s')) (kl_slots (fst s'))"
proof -
  obtain kl k where s: "s = (kl, k)" by (cases s)
  consider "s' = s" | r d ss where "align_mem_slot (fr_range fr) ps = Inr r" "delete_slot (ar_base r) (ar_size r) (kl_slots kl) = Some (d, ss)"
    "fst s' = kl\<lparr>kl_slots := ss\<rparr>"
    "ioctl io (SetUserMemoryRegion \<lparr>kr_slot = ks_index d OR push_bit 16 (kl_as_id kl), kr_flags = 0, kr_gpa = ks_guest_addr d, kr_size = 0, kr_hva = ks_host_addr d\<rparr>)
      (remove_mem_slot \<lparr>kr_slot = ks_index d OR push_bit 16 (kl_as_id kl), kr_flags = 0, kr_gpa = ks_guest_addr d, kr_size = 0, kr_hva = ks_host_addr d\<rparr> k) = (Inr (), snd s')"
    using run by (auto simp: s kvm_delete_region_def Let_def split: if_splits sum.splits option.splits prod.splits)
  then show ?thesis
  proof cases
    case 1
    then show ?thesis using sync by (simp add: kvm_synced_def)
  next
    case (2 r d ss)
    have "ar_size r \<noteq> 0" using align_mem_slot_within [OF 2(1)] by auto
    from mirrors_delete [OF sync [unfolded s] 2(2) this 2(4)] show ?thesis using 2(3) sync by (simp add: kvm_synced_def s)
  qed
qed

lemma kvm_add_mirrors:
  assumes sync: "kvm_synced io s" and no: "\<forall>e \<in> kvm_table s. \<not> entry_overlaps e fr"
    and run: "kvm_add_region io ps st fr s = (Inr (), s')"
  shows "kl_as_id (fst s') = 0 \<and> mirrors (kvm_maps io (snd s')) (kl_slots (fst s'))"
proof -
  obtain kl k where s: "s = (kl, k)" by (cases s)
  have good: "kvm_good s" using sync by (simp add: kvm_synced_def)
  consider "s' = s" | r ha idx ss fl where "align_mem_slot (fr_range fr) ps = Inr r"
    "get_free_slot (ar_base r) (ar_size r) ha (kl_slots kl) = (Inr idx, ss)" "fst s' = kl\<lparr>kl_slots := ss\<rparr>"
    "ioctl io (SetUserMemoryRegion \<lparr>kr_slot = idx OR push_bit 16 (kl_as_id kl), kr_flags = fl, kr_gpa = ar_base r, kr_size = ar_size r, kr_hva = ha\<rparr>)
      (add_mem_slot \<lparr>kr_slot = idx OR push_bit 16 (kl_as_id kl), kr_flags = fl, kr_gpa = ar_base r, kr_size = ar_size r, kr_hva = ha\<rparr> k) = (Inr (), snd s')"
    using run kvm_delete_none [OF good no, of io ps st]
    by (auto simp: s kvm_add_region_def Let_def split: if_splits sum.splits option.splits prod.splits)
  then show ?thesis
  proof cases
    case 1
    then show ?thesis using sync by (simp add: kvm_synced_def)
  next
    case (2 r ha idx ss fl)
    have "ar_size r \<noteq> 0" using align_mem_slot_within [OF 2(1)] by auto
    moreover have "fill_free_slot 0 (ar_base r) (ar_size r) ha (kl_slots kl) = Some (idx, ss)"
      using 2(2) by (auto simp: get_free_slot_def split: sum.splits option.splits)
    ultimately show ?thesis using mirrors_add [OF sync [unfolded s] _ _ 2(4)] 2(3) sync by (simp add: kvm_synced_def s)
  qed
qed

interpretation kvm_kernel: memory_listener "kvm_handle io ps" "kvm_synced io" "kvm_mapped io" "kvm_slot_of ps" for io ps
proof
  fix st :: "'d store" and s fr s'
  assume a: "kvm_synced io s" "fr_ok fr" "fr_in st fr" "\<forall>e \<in> kvm_mapped io s. \<not> entry_overlaps e fr" "kvm_handle io ps st fr AddRegion s = (Inr (), s')"
  have t: "\<forall>e \<in> kvm_table s. \<not> entry_overlaps e fr" and g: "kvm_good s" using a(1,4) by (auto simp: synced_mapped kvm_synced_def)
  note l = kvm_mem.add_law [OF g a(2,3) t a(5)]
  have "kvm_synced io s'" using l kvm_add_mirrors [OF a(1) t] a(5) by (simp add: kvm_synced_def kvm_handle_def kvm_handle_request_def)
  then show "kvm_synced io s' \<and> kvm_mapped io s' = kvm_mapped io s \<union> set_option (kvm_slot_of ps st fr)" using l a(1) by (simp add: synced_mapped)
next
  fix st :: "'d store" and s fr s'
  assume a: "kvm_synced io s" "fr_ok fr" "\<forall>e \<in> kvm_mapped io s. entry_overlaps e fr \<longrightarrow> kvm_slot_of ps st fr = Some e"
    "kvm_handle io ps st fr DeleteRegion s = (Inr (), s')"
  have t: "\<forall>e \<in> kvm_table s. entry_overlaps e fr \<longrightarrow> kvm_slot_of ps st fr = Some e" and g: "kvm_good s"
    using a(1,3) by (auto simp: synced_mapped kvm_synced_def)
  note l = kvm_mem.del_law [OF g a(2) t a(4)]
  have "kvm_synced io s'" using l kvm_delete_mirrors [OF a(1)] a(4) by (simp add: kvm_synced_def kvm_handle_def kvm_handle_request_def)
  then show "kvm_synced io s' \<and> kvm_mapped io s' = kvm_mapped io s - set_option (kvm_slot_of ps st fr)" using l a(1) by (simp add: synced_mapped)
qed (simp_all add: kvm_mem.slot_within kvm_mem.slot_eq)

end
