(* ===== verification/AddressOps.thy ===== *)
theory AddressOps
  imports AddressSpace
begin

text \<open>
  The queries and accesses of address_space/src/address_space.rs: guest to host addresses,
  the region cache, the list of host buffers behind a guest buffer, and reading and
  writing memory and objects.
\<close>

section \<open>Guest to host\<close>

definition get_host_address :: "'d store \<Rightarrow> flat_view \<Rightarrow> guest_address \<Rightarrow> u64 option" where
  "get_host_address st fv addr =
     (case find_flatrange fv addr of
        None \<Rightarrow> None
      | Some fr \<Rightarrow>
          map_option (\<lambda>h. h + fr_offset fr + offset_from addr (ar_base (fr_range fr)))
            (region_host_address (st (fr_owner fr))))"

definition addr_cache_init :: "'d store \<Rightarrow> flat_view \<Rightarrow> guest_address \<Rightarrow> (u64 \<times> u64) option" where
  "addr_cache_init st fv addr =
     (case find_flatrange fv addr of
        None \<Rightarrow> None
      | Some fr \<Rightarrow>
          (let fro = offset_from addr (ar_base (fr_range fr));
               region_offset = fr_offset fr + fro;
               region_remain = r_size (st (fr_owner fr)) - region_offset;
               fr_remain = ar_size (fr_range fr) - fro
           in map_option (\<lambda>h. (h + region_offset, min fr_remain region_remain))
                (region_host_address (st (fr_owner fr)))))"

record iovec =
  iov_base :: u64
  iov_len :: u64

text \<open>
  The loop of \<open>get_address_map\<close>. A turn that maps no byte would be repeated for ever, so
  \<open>count + 1\<close> turns decide whether it returns.
\<close>

fun get_address_map_loop ::
    "nat \<Rightarrow> 'd store \<Rightarrow> flat_view \<Rightarrow> guest_address \<Rightarrow> u64 \<Rightarrow> iovec list \<Rightarrow> (as_error + iovec list) option" where
  "get_address_map_loop 0 st fv start len acc = None"
| "get_address_map_loop (Suc n) st fv start len acc =
     (case addr_cache_init st fv start of
        None \<Rightarrow> Some (Inl EBail)
      | Some (hva, fr_len) \<Rightarrow>
          (let l = min len fr_len;
               acc' = acc @ [\<lparr>iov_base = hva, iov_len = l\<rparr>]
           in if len - l = 0 then Some (Inr acc')
              else get_address_map_loop n st fv (unchecked_add start l) (len - l) acc'))"

definition get_address_map ::
    "'d store \<Rightarrow> flat_view \<Rightarrow> guest_address \<Rightarrow> u64 \<Rightarrow> (as_error + iovec list) option" where
  "get_address_map st fv addr cnt = get_address_map_loop (Suc (unat cnt)) st fv addr cnt []"

record region_cache =
  rc_reg_type :: region_type
  rc_host_base :: u64
  rc_start :: u64
  rc_end :: u64

definition get_region_cache :: "'d store \<Rightarrow> flat_view \<Rightarrow> guest_address \<Rightarrow> region_cache option" where
  "get_region_cache st fv addr =
     (case find_flatrange fv addr of
        None \<Rightarrow> None
      | Some fr \<Rightarrow>
          Some \<lparr>rc_reg_type = r_type (st (fr_owner fr)),
                rc_host_base = (case get_host_address st fv (ar_base (fr_range fr)) of Some h \<Rightarrow> h | None \<Rightarrow> 0),
                rc_start = ar_base (fr_range fr), rc_end = end_addr (fr_range fr)\<rparr>)"

definition get_host_address_from_cache ::
    "'d store \<Rightarrow> flat_view \<Rightarrow> guest_address \<Rightarrow> region_cache option \<Rightarrow> (u64 \<times> u64) option" where
  "get_host_address_from_cache st fv addr cache =
     (case cache of
        None \<Rightarrow> addr_cache_init st fv addr
      | Some c \<Rightarrow>
          if rc_start c \<le> addr \<and> addr < rc_end c
          then Some (rc_host_base c + addr - rc_start c, rc_end c - addr)
          else addr_cache_init st fv addr)"

definition address_in_memory :: "'d store \<Rightarrow> flat_view \<Rightarrow> guest_address \<Rightarrow> u64 \<Rightarrow> bool" where
  "address_in_memory st fv addr sz =
     (case find_flatrange fv addr of
        None \<Rightarrow> False
      | Some fr \<Rightarrow> r_type (st (fr_owner fr)) = Ram \<and> sz \<le> offset_from (end_addr (fr_range fr)) addr)"

definition memory_end_address :: "'d store \<Rightarrow> flat_view \<Rightarrow> guest_address" where
  "memory_end_address st fv =
     fold max (map (\<lambda>fr. end_addr (fr_range fr)) (filter (\<lambda>fr. r_type (st (fr_owner fr)) = Ram) fv)) 0"

section \<open>Reading and writing\<close>

definition as_read ::
    "'d store \<Rightarrow> address_space \<Rightarrow> guest_address \<Rightarrow> u64 \<Rightarrow> writer \<times> 'd machine \<Rightarrow>
     ((as_error + unit) \<times> writer \<times> 'd machine) option" where
  "as_read st sp addr cnt s = fv_read st (as_flat_view sp) addr cnt s"

text \<open>
  The loop over the ioeventfds that \<open>write\<close> runs when the process was started in test mode.
  The result also holds the event descriptors that were signalled.
\<close>

fun test_ioeventfds ::
    "'d store \<Rightarrow> flat_view \<Rightarrow> guest_address \<Rightarrow> u64 \<Rightarrow> io_event_fd list \<Rightarrow> u8 list \<times> 'd machine \<Rightarrow>
     ((as_error + int option) \<times> u8 list \<times> 'd machine) option" where
  "test_ioeventfds st fv addr cnt [] s = Some (Inr None, s)"
| "test_ioeventfds st fv addr cnt (ev # evs) (src, m) =
     (if addr \<noteq> ar_base (ev_range ev) \<or> cnt \<noteq> ar_size (ev_range ev)
      then test_ioeventfds st fv addr cnt evs (src, m)
      else if \<not> ev_data_match ev then Some (Inr (Some (ev_fd ev)), src, m)
      else if length src \<le> 8 \<and> length src \<noteq> 8 then Some (Inl (EPanic UnwrapNone), [], m)
      else if length src = 8 \<and> (from_le src :: u64) = ev_data ev then Some (Inr (Some (ev_fd ev)), [], m)
      else (case fv_write st fv addr cnt (src, m) of
              None \<Rightarrow> None
            | Some (Inl e, s') \<Rightarrow> Some (Inl e, s')
            | Some (Inr _, (_, m')) \<Rightarrow> test_ioeventfds st fv addr cnt evs ([], m')))"

definition as_write ::
    "bool \<Rightarrow> 'd store \<Rightarrow> address_space \<Rightarrow> guest_address \<Rightarrow> u64 \<Rightarrow> u8 list \<times> 'd machine \<Rightarrow>
     ((as_error + int option) \<times> u8 list \<times> 'd machine) option" where
  "as_write test_enabled st sp addr cnt s =
     (case (if test_enabled then test_ioeventfds st (as_flat_view sp) addr cnt (as_ioeventfds sp) s
            else Some (Inr None, s)) of
        None \<Rightarrow> None
      | Some (Inl e, s') \<Rightarrow> Some (Inl e, s')
      | Some (Inr (Some fd), s') \<Rightarrow> Some (Inr (Some fd), s')
      | Some (Inr None, s') \<Rightarrow>
          (case fv_write st (as_flat_view sp) addr cnt s' of
             None \<Rightarrow> None
           | Some (Inl e, s'') \<Rightarrow> Some (Inl e, s'')
           | Some (Inr _, s'') \<Rightarrow> Some (Inr None, s'')))"

text \<open>
  Objects are plain data (\<open>ByteCode\<close>): an object of type \<open>T\<close> is the list of its bytes.
\<close>

definition write_object ::
    "bool \<Rightarrow> 'd store \<Rightarrow> address_space \<Rightarrow> u8 list \<Rightarrow> guest_address \<Rightarrow> 'd machine \<Rightarrow>
     ((as_error + int option) \<times> 'd machine) option" where
  "write_object test_enabled st sp data addr m =
     map_option (\<lambda>(res, _, m'). (res, m')) (as_write test_enabled st sp addr (of_nat (length data)) (data, m))"

definition read_object ::
    "'d store \<Rightarrow> address_space \<Rightarrow> nat \<Rightarrow> guest_address \<Rightarrow> 'd machine \<Rightarrow> ((as_error + u8 list) \<times> 'd machine) option" where
  "read_object st sp size_of addr m =
     map_option (\<lambda>(res, w, m'). (case res of Inl e \<Rightarrow> Inl e | Inr _ \<Rightarrow> Inr (w_out w), m'))
       (as_read st sp addr (of_nat size_of) (\<lparr>w_out = [], w_room = size_of\<rparr>, m))"

definition write_object_direct :: "u8 list \<Rightarrow> u64 \<Rightarrow> 'd machine \<Rightarrow> (as_error + unit) \<times> 'd machine" where
  "write_object_direct data host_addr m =
     (case mark_dirty_log host_addr (of_nat (length data)) (ms_mm m) of
        Inl p \<Rightarrow> (Inl (EPanic p), m)
      | Inr mg \<Rightarrow> (Inr (), m\<lparr>ms_mm := mg, ms_mem := store (ms_mem m) host_addr data\<rparr>))"

definition read_object_direct :: "nat \<Rightarrow> u64 \<Rightarrow> 'd machine \<Rightarrow> u8 list" where
  "read_object_direct size_of host_addr m = load (ms_mem m) host_addr size_of"

section \<open>Host buffers behind a guest buffer\<close>

lemma get_host_address_at:
  assumes "fv_ok fv" and "fr \<in> set fv" and "covers fr x"
  shows "get_host_address st fv x =
    map_option (\<lambda>h. h + fr_offset fr + (x - ar_base (fr_range fr))) (region_host_address (st (fr_owner fr)))"
  using find_covers_unique [OF assms] by (simp add: get_host_address_def find_flatrange_find [OF assms(1)] offset_from_def)

text \<open>Every byte of the guest range is backed by host memory.\<close>

definition all_backed :: "'d store \<Rightarrow> flat_view \<Rightarrow> guest_address \<Rightarrow> nat \<Rightarrow> bool" where
  "all_backed st fv start n =
     (unat start + n \<le> 2 ^ 64 \<and> (\<forall>i < n. get_host_address st fv (start + of_nat i) \<noteq> None))"

definition backing :: "'d store \<Rightarrow> flat_view \<Rightarrow> guest_address \<Rightarrow> nat \<Rightarrow> u64" where
  "backing st fv start i = the (get_host_address st fv (start + of_nat i))"

lemma all_backed_shift:
  assumes "all_backed st fv start n" and "k < n" and "k < 2 ^ 64"
  shows "all_backed st fv (start + of_nat k) (n - k)"
  using assms unat_plus_of_nat [of start k]
  by (auto simp: all_backed_def add.assoc simp flip: of_nat_add)

lemma backing_shift: "backing st fv (start + of_nat k) i = backing st fv start (k + i)"
  by (simp add: backing_def add.assoc)

text \<open>The host addresses an iovec list stands for, byte by byte.\<close>

definition iov_bytes :: "iovec list \<Rightarrow> u64 list" where
  "iov_bytes vs = concat (map (\<lambda>v. map (\<lambda>i. iov_base v + of_nat i) [0..<unat (iov_len v)]) vs)"

lemma iov_bytes_append [simp]: "iov_bytes (xs @ ys) = iov_bytes xs @ iov_bytes ys"
  by (simp add: iov_bytes_def)

lemma iov_bytes_single [simp]: "iov_bytes [v] = map (\<lambda>i. iov_base v + of_nat i) [0..<unat (iov_len v)]"
  by (simp add: iov_bytes_def)

lemma remaining_unat:
  assumes frin: "fr_in st fr" and cov: "covers fr x"
  shows "unat (min (ar_size (fr_range fr) - (x - ar_base (fr_range fr)))
    (r_size (st (fr_owner fr)) - (fr_offset fr + (x - ar_base (fr_range fr))))) = fr_hi fr - unat x"
proof -
  let ?d = "x - ar_base (fr_range fr)" and ?z = "r_size (st (fr_owner fr))"
  have d: "unat ?d = unat x - fr_lo fr" "unat ?d < unat (ar_size (fr_range fr))"
    using cov by (auto simp: covers_unat unat_sub_eq)
  have z: "unat (fr_offset fr) + unat (ar_size (fr_range fr)) \<le> unat ?z" using frin by (simp add: fr_in_def)
  then have le: "unat (fr_offset fr) + unat ?d \<le> unat ?z" using d by linarith
  then have o: "unat (fr_offset fr + ?d) = unat (fr_offset fr) + unat ?d"
    using le_less_trans [OF le unat_lt_64] by (simp add: unat_add_eq)
  have "unat (?z - (fr_offset fr + ?d)) = unat ?z - (unat (fr_offset fr) + unat ?d)"
    using le o by (simp add: unat_sub_eq)
  moreover have "unat (ar_size (fr_range fr) - ?d) = unat (ar_size (fr_range fr)) - unat ?d"
    using d by (simp add: unat_sub_eq)
  moreover have "fr_lo fr \<le> unat x" using cov by (simp add: covers_unat)
  ultimately show ?thesis unfolding word_ge_min using d(1) z by linarith
qed

text \<open>One lookup on a well-formed view: the host address of the first byte and a run of bytes behind it.\<close>

lemma addr_cache_init_Some:
  assumes inv: "fv_inv st fv" and run: "addr_cache_init st fv x = Some (hva, l)"
  shows "0 < unat l \<and> unat x + unat l < 2 ^ 64 \<and> get_host_address st fv x = Some hva \<and>
    (\<forall>i < unat l. get_host_address st fv (x + of_nat i) = Some (hva + of_nat i))"
proof -
  have ok: "fv_ok fv" using inv by (simp add: fv_inv_def)
  obtain fr where fr: "find_flatrange fv x = Some fr" using run by (auto simp: addr_cache_init_def split: option.splits)
  have mem: "fr \<in> set fv" "covers fr x" using find_flatrange_covers [OF ok fr] by auto
  have frok: "fr_ok fr" "fr_in st fr" using inv mem fv_ok_mem by (auto simp: fv_inv_def)
  obtain h where h: "region_host_address (st (fr_owner fr)) = Some h"
    and hva: "hva = h + (fr_offset fr + (x - ar_base (fr_range fr)))"
    and l: "l = min (ar_size (fr_range fr) - (x - ar_base (fr_range fr)))
              (r_size (st (fr_owner fr)) - (fr_offset fr + (x - ar_base (fr_range fr))))"
    using run fr by (auto simp: addr_cache_init_def Let_def offset_from_def)
  have ul: "unat l = fr_hi fr - unat x" unfolding l by (rule remaining_unat [OF frok(2) mem(2)])
  have pos: "0 < unat l" "unat x + unat l < 2 ^ 64" using ul mem(2) frok(1) by (auto simp: covers_unat fr_ok_def)
  have "get_host_address st fv (x + of_nat i) = Some (hva + of_nat i)" if "i < unat l" for i
  proof -
    have "unat (x + of_nat i) = unat x + i" using that pos by (simp add: unat_plus_of_nat)
    then have "covers fr (x + of_nat i)" using that ul mem(2) by (auto simp: covers_unat)
    from get_host_address_at [OF ok mem(1) this, of st] show ?thesis by (simp add: h hva algebra_simps)
  qed
  moreover from this [of 0] pos(1) have "get_host_address st fv x = Some hva" by simp
  ultimately show ?thesis using pos by simp
qed

lemma addr_cache_init_None: "addr_cache_init st fv x = None \<longleftrightarrow> get_host_address st fv x = None"
  by (auto simp: addr_cache_init_def get_host_address_def Let_def split: option.splits)

lemma get_address_map_loop_bytes:
  assumes inv: "fv_inv st fv" and "all_backed st fv start (unat len)" and "0 < unat len" and "unat len < n"
  shows "\<exists>vs. get_address_map_loop n st fv start len acc = Some (Inr (acc @ vs)) \<and>
    iov_bytes vs = map (backing st fv start) [0..<unat len]"
  using assms(2-4)
proof (induction n arbitrary: start len acc)
  case 0
  then show ?case by simp
next
  case (Suc n)
  have "get_host_address st fv (start + of_nat 0) \<noteq> None"
    using Suc.prems(1,2) unfolding all_backed_def by blast
  then obtain hva fl where a: "addr_cache_init st fv start = Some (hva, fl)"
    using addr_cache_init_None [of st fv start] by force
  note c = addr_cache_init_Some [OF inv a]
  define l where "l = min len fl"
  have l: "unat l = min (unat len) (unat fl)" by (simp add: l_def word_ge_min)
  have bytes: "iov_bytes [\<lparr>iov_base = hva, iov_len = l\<rparr>] = map (backing st fv start) [0..<unat l]"
    using c l by (auto simp: backing_def)
  show ?case
  proof (cases "len - l = 0")
    case True
    then have "min len fl = len" "len = l" by (simp_all add: l_def)
    then show ?thesis using a bytes by (intro exI [of _ "[\<lparr>iov_base = hva, iov_len = len\<rparr>]"]) (simp add: Let_def)
  next
    case False
    then have lt: "unat l < unat len" using l by (metis diff_self le_neq_implies_less min.cobounded1 word_eq_unat)
    have ln: "unat (len - l) = unat len - unat l" using lt by (simp add: unat_sub_eq)
    have ab: "all_backed st fv (start + l) (unat (len - l))"
      using all_backed_shift [OF Suc.prems(1) lt] ln by simp
    have "0 < unat (len - l)" "unat (len - l) < n" using ln lt l c Suc.prems(3) by linarith+
    from Suc.IH [OF ab this, of "acc @ [\<lparr>iov_base = hva, iov_len = l\<rparr>]"] obtain vs where
      vs: "get_address_map_loop n st fv (start + l) (len - l) (acc @ [\<lparr>iov_base = hva, iov_len = l\<rparr>]) =
        Some (Inr (acc @ [\<lparr>iov_base = hva, iov_len = l\<rparr>] @ vs))"
      "iov_bytes vs = map (backing st fv (start + l)) [0..<unat len - unat l]" by (auto simp: ln)
    have "backing st fv (start + l) = (\<lambda>i. backing st fv start (unat l + i))"
      using backing_shift [of st fv start "unat l"] by (simp add: fun_eq_iff)
    then have "map (backing st fv start) [0..<unat len] =
        iov_bytes ([\<lparr>iov_base = hva, iov_len = l\<rparr>] @ vs)"
      using upt_split [OF less_imp_le [OF lt]] vs(2) bytes by (simp only: iov_bytes_append) (simp add: comp_def)
    then show ?thesis
      using a vs(1) False by (intro exI [of _ "[\<lparr>iov_base = hva, iov_len = l\<rparr>] @ vs"])
        (simp add: Let_def unchecked_add_def flip: l_def)
  qed
qed

text \<open>
  C35. A guest buffer whose bytes are all backed by host memory is turned into a list of host
  buffers that hold exactly the host bytes of the guest bytes, in order; the loop returns
  also when the buffer spans several regions.
\<close>

theorem get_address_map_exact:
  assumes "fv_inv st fv" and "all_backed st fv addr (unat cnt)" and "cnt \<noteq> 0"
  shows "\<exists>vs. get_address_map st fv addr cnt = Some (Inr vs) \<and>
    iov_bytes vs = map (\<lambda>i. the (get_host_address st fv (addr + of_nat i))) [0..<unat cnt]"
proof -
  have "0 < unat cnt" using assms(3) by (simp add: unat_gt_0)
  from get_address_map_loop_bytes [OF assms(1,2) this, of "Suc (unat cnt)" "[]"] show ?thesis
    by (auto simp: get_address_map_def backing_def)
qed

lemma get_region_cache_fields:
  assumes inv: "fv_inv st fv" and c: "get_region_cache st fv a = Some c" and b: "host_backed (rc_reg_type c)"
    and m: "\<And>r. host_backed (r_type (st r)) \<Longrightarrow> mem_mapping (st r) \<noteq> None"
  shows "\<exists>fr \<in> set fv. covers fr a \<and> rc_start c = ar_base (fr_range fr) \<and> unat (rc_end c) = fr_hi fr \<and>
    rc_reg_type c = r_type (st (fr_owner fr)) \<and> get_host_address st fv (rc_start c) = Some (rc_host_base c)"
proof -
  have ok: "fv_ok fv" using inv by (simp add: fv_inv_def)
  obtain fr where fr: "find_flatrange fv a = Some fr" using c by (auto simp: get_region_cache_def split: option.splits)
  have mem: "fr \<in> set fv" "covers fr a" using find_flatrange_covers [OF ok fr] by auto
  have frok: "fr_ok fr" using mem fv_ok_mem [OF ok] by auto
  have cov: "covers fr (ar_base (fr_range fr))" using frok by (simp add: covers_unat fr_ok_def)
  have "region_host_address (st (fr_owner fr)) \<noteq> None"
    using b m [of "fr_owner fr"] c fr by (auto simp: get_region_cache_def region_host_address_def)
  then have "get_host_address st fv (ar_base (fr_range fr)) \<noteq> None"
    using get_host_address_at [OF ok mem(1) cov, of st] by auto
  then show ?thesis using c fr mem fr_end [OF frok] by (auto simp: get_region_cache_def)
qed

lemma region_cache_lookup:
  assumes inv: "fv_inv st fv" and c: "get_region_cache st fv a = Some c" and b: "host_backed (rc_reg_type c)"
    and m: "\<And>r. host_backed (r_type (st r)) \<Longrightarrow> mem_mapping (st r) \<noteq> None"
  shows "get_host_address_from_cache st fv x (Some c) = addr_cache_init st fv x"
proof (cases "rc_start c \<le> x \<and> x < rc_end c")
  case False
  then show ?thesis by (auto simp: get_host_address_from_cache_def)
next
  case True
  have ok: "fv_ok fv" using inv by (simp add: fv_inv_def)
  obtain fr where fr: "fr \<in> set fv" "rc_start c = ar_base (fr_range fr)" "unat (rc_end c) = fr_hi fr"
    and hb: "get_host_address st fv (rc_start c) = Some (rc_host_base c)"
    using get_region_cache_fields [OF inv c b m] by blast
  have cov: "covers fr x" using True fr by (simp add: covers_unat word_le_nat_alt word_less_nat_alt)
  have frok: "fr_ok fr" "fr_in st fr" using inv fr(1) fv_ok_mem by (auto simp: fv_inv_def)
  have find: "find_flatrange fv x = Some fr" using find_covers_unique [OF ok fr(1) cov] by (simp add: find_flatrange_find ok)
  have "covers fr (ar_base (fr_range fr))" using frok(1) by (simp add: covers_unat fr_ok_def)
  from get_host_address_at [OF ok fr(1) this, of st] obtain h where h: "region_host_address (st (fr_owner fr)) = Some h" "rc_host_base c = h + fr_offset fr"
    using hb fr(2) by auto
  from find h(1) obtain l where ci: "addr_cache_init st fv x = Some (h + (fr_offset fr + (x - ar_base (fr_range fr))), l)"
    and l: "l = min (ar_size (fr_range fr) - (x - ar_base (fr_range fr)))
              (r_size (st (fr_owner fr)) - (fr_offset fr + (x - ar_base (fr_range fr))))"
    by (auto simp: addr_cache_init_def Let_def offset_from_def)
  have "unat l = fr_hi fr - unat x" unfolding l by (rule remaining_unat [OF frok(2) cov])
  moreover have "unat (rc_end c - x) = fr_hi fr - unat x"
    using fr(3) cov by (auto simp: covers_unat unat_sub_eq)
  ultimately have "rc_end c - x = l" by (simp add: word_eq_unat)
  then show ?thesis using True ci h(2) fr(2)
    by (simp add: get_host_address_from_cache_def algebra_simps)
qed

text \<open>
  The region cache is transparent for host-backed memory: with a cache taken from the
  same view, looking an address up through the cache gives what looking it up in the view
  gives, host address and remaining length alike.
\<close>

theorem region_cache_transparent:
  assumes "fv_inv st fv" and "get_region_cache st fv a = Some c" and "host_backed (rc_reg_type c)"
    and "\<And>r. host_backed (r_type (st r)) \<Longrightarrow> mem_mapping (st r) \<noteq> None"
  shows "get_host_address_from_cache st fv x (Some c) = addr_cache_init st fv x"
  using assms by (rule region_cache_lookup)

theorem get_address_map_exact_witness:
  "\<exists>vs. get_address_map demo_store [\<lparr>fr_range = AddressRange 0 0x4000, fr_owner = 1, fr_offset = 0, fr_romd = None\<rparr>] 0x3fff 1
      = Some (Inr vs) \<and> iov_bytes vs = [0x103fff]"
proof -
  let ?fr = "\<lparr>fr_range = AddressRange 0 0x4000, fr_owner = 1, fr_offset = 0, fr_romd = None\<rparr>"
  have inv: "fv_inv demo_store [?fr]"
    by (simp add: fv_inv_def fr_ok_def fr_in_def terminal_def demo_simps)
  have h: "get_host_address demo_store [?fr] 0x3fff = Some 0x103fff"
    using get_host_address_at [of "[?fr]" ?fr "0x3fff" demo_store] inv
    by (simp add: fv_inv_def covers_def region_host_address_def host_backed_def demo_simps)
  then have "all_backed demo_store [?fr] 0x3fff (unat (1 :: u64))" by (simp add: all_backed_def)
  from get_address_map_exact [OF inv this] h show ?thesis by simp
qed

theorem region_cache_transparent_witness:
  "\<exists>fv c. get_region_cache demo_store fv 0x10 = Some c \<and>
     get_host_address_from_cache demo_store fv 0x20 (Some c) = Some (0x900020, 0xfe0)"
proof -
  let ?fr = "\<lparr>fr_range = AddressRange 0 0x1000, fr_owner = 3, fr_offset = 0, fr_romd = None\<rparr>"
  have inv: "fv_inv demo_store [?fr]"
    by (simp add: fv_inv_def fr_ok_def fr_in_def terminal_def demo_simps)
  have find: "find_flatrange [?fr] x = (if x < 0x1000 then Some ?fr else None)" for x
    using inv by (simp add: fv_inv_def find_flatrange_find covers_def word_less_nat_alt)
  have "get_region_cache demo_store [?fr] 0x10 \<noteq> None" by (simp add: get_region_cache_def find)
  then obtain c where c: "get_region_cache demo_store [?fr] 0x10 = Some c" by blast
  then have b: "host_backed (rc_reg_type c)"
    by (auto simp: get_region_cache_def find demo_simps host_backed_def)
  have m: "host_backed (r_type (demo_store r)) \<Longrightarrow> mem_mapping (demo_store r) \<noteq> None" for r
    by (simp add: host_backed_def demo_simps split: if_splits)
  have "addr_cache_init demo_store [?fr] 0x20 = Some (0x900020, 0xfe0)"
    by (simp add: addr_cache_init_def find region_host_address_def host_backed_def demo_simps Let_def offset_from_def)
  then have "get_host_address_from_cache demo_store [?fr] 0x20 (Some c) = Some (0x900020, 0xfe0)"
    using region_cache_transparent [OF inv c b m, of "0x20"] by simp
  with c show ?thesis by blast
qed

end
