(* ===== verification/KvmView.thy ===== *)
theory KvmView
  imports KvmKernel AddressOps
begin

text \<open>
  From a change of the region tree to the slots of KVM: an address space with the KVM memory
  listener, across \<open>update_topology\<close>.
\<close>

section \<open>A space with one listener\<close>

lemma notify_single:
  "notify lo fr ev req l vm =
     (let (res, l', k') = l_handle lo (vm_regions vm) fr ev req (vm_listeners vm l, vm_kernel vm)
      in (res, vm\<lparr>vm_listeners := (vm_listeners vm)(l := l'), vm_kernel := k'\<rparr>))"
  by (simp add: notify_def Let_def split: prod.split)

lemma call_listeners_single:
  assumes "as_listeners (vm_spaces vm sp) = [l]"
  shows "call_listeners lo sp fr ev req vm = notify lo fr ev req l vm"
  using assms by (cases req; cases "notify lo fr ev req l vm"; cases "fst (notify lo fr ev req l vm)")
    (auto simp: call_listeners_def split: sum.split)

lemma single_listener_run:
  assumes "as_listeners (vm_spaces vm sp) = [l]"
    and "try_for_each (\<lambda>fr. call_listeners lo sp (Some fr) None req) frs vm = (Inr (), vm')"
  shows "try_for_each (\<lambda>fr. l_handle lo (vm_regions vm) (Some fr) None req) frs (vm_listeners vm l, vm_kernel vm) =
      (Inr (), (vm_listeners vm' l, vm_kernel vm')) \<and>
    vm_regions vm' = vm_regions vm \<and> vm_spaces vm' = vm_spaces vm"
  using assms
proof (induction frs arbitrary: vm)
  case Nil
  then show ?case by simp
next
  case (Cons fr frs)
  obtain res l' k' where h: "l_handle lo (vm_regions vm) (Some fr) None req (vm_listeners vm l, vm_kernel vm) = (res, l', k')"
    by (cases "l_handle lo (vm_regions vm) (Some fr) None req (vm_listeners vm l, vm_kernel vm)") auto
  let ?vm1 = "vm\<lparr>vm_listeners := (vm_listeners vm)(l := l'), vm_kernel := k'\<rparr>"
  have c: "call_listeners lo sp (Some fr) None req vm = (res, ?vm1)"
    using Cons.prems(1) h by (simp add: call_listeners_single notify_single)
  show ?case
  proof (cases res)
    case (Inl e)
    then show ?thesis using Cons.prems(2) c by simp
  next
    case (Inr u)
    then have "try_for_each (\<lambda>fr. call_listeners lo sp (Some fr) None req) frs ?vm1 = (Inr (), vm')"
      using Cons.prems(2) c by simp
    from Cons.IH [OF _ this] Cons.prems(1) h Inr show ?thesis by simp
  qed
qed

section \<open>Ioeventfds leave the slots alone\<close>

text \<open>The listener, the slots of the kernel, the regions and the views: what the ioeventfd pass keeps.\<close>

lemma kvm_maps_ioeventfd:
  "kvm_maps io (snd (add_ioeventfd io' kd ev k)) = kvm_maps io k" "kvm_maps io (snd (delete_ioeventfd io' kd ev k)) = kvm_maps io k"
  by (auto simp: add_ioeventfd_def delete_ioeventfd_def ioctl_def kvm_maps_def split: option.split)

definition same_slots :: "sid \<Rightarrow> lid \<Rightarrow> ('d, kvm_listener, kvm_fds) vm \<Rightarrow> ('d, kvm_listener, kvm_fds) vm \<Rightarrow> bool" where
  "same_slots sp l vm vm' = (vm_listeners vm' l = vm_listeners vm l \<and>
     (\<forall>io. kvm_maps io (vm_kernel vm') = kvm_maps io (vm_kernel vm)) \<and> vm_regions vm' = vm_regions vm \<and> as_flat_view (vm_spaces vm' sp) = as_flat_view (vm_spaces vm sp))"

lemma same_slots_refl [simp]: "same_slots sp l vm vm"
  by (simp add: same_slots_def)

lemma same_slots_trans: "same_slots sp l a b \<Longrightarrow> same_slots sp l b c \<Longrightarrow> same_slots sp l a c"
  by (simp add: same_slots_def)

lemma kvm_ioevent_keeps:
  assumes "req = AddIoeventfd \<or> req = DeleteIoeventfd"
  shows "same_slots sp l vm (snd (call_listeners (kvm_listener_ops io ps) sp' None ev req vm))"
proof -
  have n: "same_slots sp l vm (snd (notify (kvm_listener_ops io ps) None ev req m vm))" for m vm
    using assms kvm_maps_ioeventfd [THEN sym] by (auto simp: notify_def kvm_listener_ops_def kvm_handle_request_def same_slots_def
        split: prod.split option.split) (metis snd_conv)+
  have "same_slots sp l vm (snd (try_for_each (notify (kvm_listener_ops io ps) None ev req) ms vm))" for ms
    by (rule try_for_each_inv) (use n same_slots_trans in blast, simp)
  then show ?thesis using assms by (auto simp: call_listeners_def Let_def)
qed

lemma ioeventfds_pass_keeps:
  "update_ioeventfds_pass n (kvm_listener_ops io ps) sp' os ns vm = Some (res, vm') \<Longrightarrow> same_slots sp l vm vm'"
proof (induction n arbitrary: os ns vm)
  case 0
  then show ?case by simp
next
  case (Suc n)
  let ?d = "if fd_delete (opt_hd os) (opt_hd ns) then call_listeners (kvm_listener_ops io ps) sp' None (opt_hd os) DeleteIoeventfd vm
            else (Inr (), vm)"
  let ?a = "\<lambda>vm. if fd_delete (opt_hd ns) (opt_hd os) then call_listeners (kvm_listener_ops io ps) sp' None (opt_hd ns) AddIoeventfd vm
            else (Inr (), vm)"
  have d: "same_slots sp l vm (snd ?d)" by (simp add: kvm_ioevent_keeps)
  have a: "same_slots sp l vm1 (snd (?a vm1))" for vm1 by (simp add: kvm_ioevent_keeps)
  show ?case
  proof (cases "os = [] \<and> ns = [] \<or> opt_hd os = opt_hd ns")
    case True
    then show ?thesis using Suc by (auto simp: Let_def split: if_splits)
  next
    case False
    obtain r1 vm1 where 1: "?d = (r1, vm1)" by (cases ?d)
    obtain r2 vm2 where 2: "?a vm1 = (r2, vm2)" by (cases "?a vm1")
    have k: "same_slots sp l vm vm1" "same_slots sp l vm1 vm2" using d a [of vm1] 1 2 by simp_all
    then have k2: "same_slots sp l vm vm2" by (rule same_slots_trans)
    have u: "update_ioeventfds_pass (Suc n) (kvm_listener_ops io ps) sp' os ns vm =
        (case (r1, vm1) of (Inl e, vm1) \<Rightarrow> Some (Inl e, vm1)
         | (Inr _, vm1) \<Rightarrow> (case ?a vm1 of
              (Inl e, vm2) \<Rightarrow> Some (Inl e, vm2)
            | (Inr _, vm2) \<Rightarrow> update_ioeventfds_pass n (kvm_listener_ops io ps) sp'
                 (if fd_delete (opt_hd os) (opt_hd ns) then tl os else os)
                 (if fd_delete (opt_hd ns) (opt_hd os) then tl ns else ns) vm2))"
      using False by (simp only: update_ioeventfds_pass.simps Let_def 1 de_Morgan_disj if_False)
    show ?thesis
    proof (cases r1)
      case (Inl e)
      then show ?thesis using Suc.prems k(1) unfolding u by simp
    next
      case r1: (Inr _)
      show ?thesis
      proof (cases r2)
        case (Inl e)
        then show ?thesis using Suc.prems k2 r1 2 unfolding u by simp
      next
        case (Inr _)
        then show ?thesis using Suc.prems Suc.IH k2 r1 2 same_slots_trans unfolding u by fastforce
      qed
    qed
  qed
qed

lemma update_ioeventfds_keeps:
  assumes "update_ioeventfds (kvm_listener_ops io ps) sp vm = Some (res, vm')"
  shows "same_slots sp l vm vm'"
proof -
  let ?fds = "concat (map (range_ioeventfds (vm_regions vm)) (as_flat_view (vm_spaces vm sp)))"
  let ?old = "as_ioeventfds (vm_spaces vm sp)"
  obtain r1 vm1 where p: "update_ioeventfds_pass (Suc (length ?old + length ?fds)) (kvm_listener_ops io ps) sp ?old ?fds vm = Some (r1, vm1)"
    using assms by (auto simp: update_ioeventfds_def Let_def split: option.splits)
  have k: "same_slots sp l vm vm1" using ioeventfds_pass_keeps [OF p] by simp
  show ?thesis using assms p k by (cases r1) (auto simp: update_ioeventfds_def same_slots_def)
qed

section \<open>The slots after an update\<close>

lemma l_handle_kvm: "l_handle (kvm_listener_ops io ps) st (Some fr) None req = kvm_handle io ps st fr req"
  by (simp add: kvm_listener_ops_def kvm_handle_def)

lemma kvm_slot_backing:
  assumes inv: "fv_inv st fv" and fr: "fr \<in> set fv" and slot: "kvm_slot_of ps st fr = Some (g, k, h)" and i: "i < unat k"
  shows "get_host_address st fv (g + of_nat i) = Some (h + of_nat i)"
proof -
  have ok: "fv_ok fv" using inv by (simp add: fv_inv_def)
  have frok: "fr_ok fr" using fv_ok_mem [OF ok fr] .
  have w: "fr_lo fr \<le> unat g" "unat g + unat k \<le> fr_hi fr" using kvm_slot_within [OF slot] by auto
  obtain hva where hva: "region_host_address (st (fr_owner fr)) = Some hva"
    "h = hva + fr_offset fr + (g - ar_base (fr_range fr))"
    using slot by (auto simp: kvm_slot_of_def split: if_splits sum.splits option.splits)
  have "unat (g + of_nat i) = unat g + i" using w i frok by (simp add: unat_plus_of_nat fr_ok_def)
  then have "covers fr (g + of_nat i)" using w i by (simp add: covers_unat)
  from get_host_address_at [OF ok fr this, of st] show ?thesis by (simp add: hva algebra_simps)
qed

text \<open>
  C7. Take an address space whose only listener is the KVM memory listener, with the memory
  slots inside KVM equal to the host-backed, page-aligned pieces of the current view. After any
  change of the region tree, a successful \<open>update_topology\<close> leaves KVM with exactly the slots of
  the new view, as the calls it was given determine them; no two overlap, the listener's table
  agrees with KVM's slot by slot, and every guest address in a slot is mapped to the host address
  that the address space itself computes for it.
\<close>

theorem kvm_slots_follow_view:
  assumes one: "as_listeners (vm_spaces vm sp) = [l]" and old: "fv_ok (as_flat_view (vm_spaces vm sp))"
    and root: "r_type (vm_regions vm (as_root (vm_spaces vm sp))) = Container"
    and tree: "tree_ok n (vm_regions vm) (as_root (vm_spaces vm sp))"
    and ok: "kvm_synced io (vm_listeners vm l, vm_kernel vm)"
    and slots: "kvm_mapped io (vm_listeners vm l, vm_kernel vm) =
      slots_of (kvm_slot_of ps) (vm_regions vm) (set (as_flat_view (vm_spaces vm sp)))"
    and upd: "update_topology n (kvm_listener_ops io ps) sp vm = Some (Inr (), vm')"
  shows "vm_regions vm' = vm_regions vm \<and> fv_inv (vm_regions vm) (as_flat_view (vm_spaces vm' sp)) \<and>
    kvm_synced io (vm_listeners vm' l, vm_kernel vm') \<and> slots_ok (kl_slots (vm_listeners vm' l)) \<and>
    kvm_mapped io (vm_listeners vm' l, vm_kernel vm') =
      slots_of (kvm_slot_of ps) (vm_regions vm) (set (as_flat_view (vm_spaces vm' sp))) \<and>
    (\<forall>(g, k, h) \<in> kvm_mapped io (vm_listeners vm' l, vm_kernel vm'). \<forall>i < unat k.
      get_host_address (vm_regions vm) (as_flat_view (vm_spaces vm' sp)) (g + of_nat i) = Some (h + of_nat i))"
proof -
  let ?st = "vm_regions vm" and ?ov = "as_flat_view (vm_spaces vm sp)" and ?lo = "kvm_listener_ops io ps"
  obtain new where g: "generate_flatview n ?st (as_root (vm_spaces vm sp)) 0
      (AddressRange 0 (r_size (?st (as_root (vm_spaces vm sp))))) = Some (Inr new)" and inv: "fv_inv ?st new"
  proof -
    have "r_size (?st (as_root (vm_spaces vm sp))) \<noteq> 0" using tree by (cases n) auto
    then show thesis
      using that root render_region_pass_renders [OF tree, of "AddressRange 0 (r_size (?st (as_root (vm_spaces vm sp))))" "[]" 0]
      by (auto simp: renders_def generate_flatview_def fv_inv_def range_ok_def)
  qed
  have okn: "fv_ok new" using inv by (simp add: fv_inv_def)
  obtain vm1 where d: "update_topology_pass ?lo sp False ?ov new vm = (Inr (), vm1)"
    using upd g by (auto simp: update_topology_def Let_def sm_bind_def split: prod.splits sum.splits)
  then obtain vm2 where a: "update_topology_pass ?lo sp True ?ov new vm1 = (Inr (), vm2)"
    and i: "update_ioeventfds ?lo sp (vm2\<lparr>vm_spaces := (vm_spaces vm2)(sp := (vm_spaces vm2 sp)\<lparr>as_flat_view := new\<rparr>)\<rparr>) =
      Some (Inr (), vm')"
    using upd g by (auto simp: update_topology_def Let_def sm_bind_def split: prod.splits sum.splits)
  note s1 = single_listener_run [OF one d [unfolded pass_delete [OF old okn]], unfolded l_handle_kvm]
  have one1: "as_listeners (vm_spaces vm1 sp) = [l]" using s1 one by simp
  note s2 = single_listener_run [OF one1 a [unfolded pass_add [OF old okn]], unfolded l_handle_kvm]
  have e: "kvm_synced io (vm_listeners vm2 l, vm_kernel vm2) \<and>
      kvm_mapped io (vm_listeners vm2 l, vm_kernel vm2) = slots_of (kvm_slot_of ps) ?st (set new)"
  proof (rule kvm_kernel.passes_sync [OF ok old inv slots])
    show "try_for_each (\<lambda>fr. kvm_handle io ps ?st fr DeleteRegion) (gone ?st ?ov new) (vm_listeners vm l, vm_kernel vm) =
        (Inr (), vm_listeners vm1 l, vm_kernel vm1)" using s1 by blast
    show "try_for_each (\<lambda>fr. kvm_handle io ps ?st fr AddRegion) (fresh ?st ?ov new) (vm_listeners vm1 l, vm_kernel vm1) =
        (Inr (), vm_listeners vm2 l, vm_kernel vm2)" using s1 s2 by simp
  qed
  have keep: "vm_listeners vm' l = vm_listeners vm2 l" "kvm_maps io (vm_kernel vm') = kvm_maps io (vm_kernel vm2)" "vm_regions vm' = ?st"
    "as_flat_view (vm_spaces vm' sp) = new"
    using update_ioeventfds_keeps [OF i, of l] s1 s2 by (auto simp: same_slots_def)
  have e': "kvm_synced io (vm_listeners vm' l, vm_kernel vm')"
    "kvm_mapped io (vm_listeners vm' l, vm_kernel vm') = slots_of (kvm_slot_of ps) ?st (set new)"
    using e keep(1,2) by (simp_all add: kvm_synced_def kvm_mapped_def kvm_good_def)
  have "get_host_address ?st new (g + of_nat j) = Some (h + of_nat j)"
    if "(g, k, h) \<in> kvm_mapped io (vm_listeners vm' l, vm_kernel vm')" "j < unat k" for g k h j
    using that e'(2) kvm_slot_backing [OF inv] by (fastforce simp: slots_of_def)
  then show ?thesis using e' keep inv by (auto simp: kvm_synced_def kvm_good_def)
qed

text \<open>
  A machine with one page of RAM, before its first update of the topology.
\<close>

definition demo_ram :: "unit store" where
  "demo_ram = demo_store(0 := (demo_store 0)\<lparr>r_subregions := [3]\<rparr>)"

definition demo_vm :: "(unit, kvm_listener, kvm_fds) vm" where
  "demo_vm = \<lparr>vm_regions = demo_ram,
     vm_spaces = (\<lambda>_. \<lparr>as_name = ''memory'', as_root = 0, as_flat_view = [], as_listeners = [0], as_ioeventfds = []\<rparr>),
     vm_listeners = (\<lambda>_. new_kvm_listener 1), vm_kernel = \<lparr>kf_mem_slots = [], kf_log = []\<rparr>\<rparr>"

definition demo_range :: flat_range where
  "demo_range = \<lparr>fr_range = AddressRange 0x4000 0x1000, fr_owner = 3, fr_offset = 0, fr_romd = None\<rparr>"

lemma demo_ram_simps:
  "r_type (demo_ram 3) = Ram" "region_host_address (demo_ram 3) = Some 0x900000"
  "get_rom_device_romd (demo_ram 3) = None" "io_evtfds (demo_ram 3) = []"
  "r_size (demo_ram 0) = 0x10000" "r_type (demo_ram 0) = Container" "tree_ok (Suc (Suc 0)) demo_ram 0"
  by (simp_all add: demo_ram_def demo_simps region_host_address_def host_backed_def)

lemma demo_generate:
  "generate_flatview (Suc (Suc 0)) demo_ram 0 0 (AddressRange 0 0x10000) = Some (Inr [demo_range])"
  by (simp add: generate_flatview_def demo_ram_def demo_simps find_intersection_def Let_def max_def
      render_terminate_region_def new_range_def offset_from_def demo_range_def)

lemma demo_align: "align_mem_slot (AddressRange 0x4000 0x1000) 0x1000 = Inr (AddressRange 0x4000 0x1000)"
  by (simp add: align_mem_slot_def align_up_def round_up_def round_down_def checked_sub_def offset_from_def)

lemma demo_add:
  "\<exists>s. kvm_add_region (\<lambda>_. True) 0x1000 demo_ram demo_range (new_kvm_listener 1, k) = (Inr (), s)"
  by (simp add: kvm_add_region_def demo_range_def demo_align Let_def demo_ram_simps host_backed_def get_free_slot_def
      new_kvm_listener_def find_intersection_def ioctl_def)

lemma demo_update:
  "\<exists>vm'. update_topology (Suc (Suc 0)) (kvm_listener_ops (\<lambda>_. True) 0x1000) 0 demo_vm = Some (Inr (), vm')"
proof -
  obtain l k where "kvm_add_region (\<lambda>_. True) 0x1000 demo_ram demo_range (new_kvm_listener 1, \<lparr>kf_mem_slots = [], kf_log = []\<rparr>)
      = (Inr (), l, k)" using demo_add by (metis prod.collapse)
  then show ?thesis
    by (simp add: update_topology_def demo_vm_def demo_generate demo_ram_simps sm_bind_def call_listeners_def
        notify_def kvm_listener_ops_def kvm_handle_request_def update_ioeventfds_def range_ioeventfds_def)
      (simp add: demo_range_def demo_ram_simps)
qed

lemma demo_synced:
  "kvm_synced io (vm_listeners demo_vm 0, vm_kernel demo_vm)" "kvm_mapped io (vm_listeners demo_vm 0, vm_kernel demo_vm) = {}"
  by (auto simp: demo_vm_def new_kvm_listener_def kvm_synced_def kvm_good_def kvm_mapped_def kvm_maps_def mirrors_def live_entry_def)

theorem kvm_slots_follow_view_witness:
  "\<exists>vm'. update_topology (Suc (Suc 0)) (kvm_listener_ops (\<lambda>_. True) 0x1000) 0 demo_vm = Some (Inr (), vm') \<and>
     kvm_mapped (\<lambda>_. True) (vm_listeners vm' 0, vm_kernel vm') =
       slots_of (kvm_slot_of 0x1000) demo_ram (set (as_flat_view (vm_spaces vm' 0)))"
proof -
  obtain vm' where u: "update_topology (Suc (Suc 0)) (kvm_listener_ops (\<lambda>_. True) 0x1000) 0 demo_vm = Some (Inr (), vm')"
    using demo_update by blast
  have pre: "as_listeners (vm_spaces demo_vm 0) = [0]" "fv_ok (as_flat_view (vm_spaces demo_vm 0))"
    "r_type (vm_regions demo_vm (as_root (vm_spaces demo_vm 0))) = Container"
    "tree_ok (Suc (Suc 0)) (vm_regions demo_vm) (as_root (vm_spaces demo_vm 0))"
    by (simp_all add: demo_vm_def demo_ram_simps del: tree_ok.simps)
  have "kvm_mapped (\<lambda>_. True) (vm_listeners demo_vm 0, vm_kernel demo_vm) =
      slots_of (kvm_slot_of 0x1000) (vm_regions demo_vm) (set (as_flat_view (vm_spaces demo_vm 0)))"
    by (simp add: demo_synced(2)) (simp add: demo_vm_def slots_of_def)
  moreover have "vm_regions demo_vm = demo_ram" by (simp add: demo_vm_def)
  ultimately show ?thesis using kvm_slots_follow_view [OF pre demo_synced(1) _ u] u by auto
qed

end
