(* ===== verification/SplitVring.thy ===== *)
theory SplitVring
  imports AddressOps
begin

text \<open>
  virtio/src/queue/split.rs and virtio/src/queue/mod.rs: the split virtqueue. The rings live in
  guest memory, which the device reaches through cached host addresses; guest memory is the
  byte map \<open>ms_mem\<close> of the machine, and the address space is a region store with a flat
  view. Memory barriers have no effect in this sequential model. The structures in guest
  memory are \<open>repr(C)\<close> on little-endian hosts, so reading one decodes its bytes.
\<close>

section \<open>Constants and data\<close>

definition VIRTIO_F_RING_EVENT_IDX :: nat where "VIRTIO_F_RING_EVENT_IDX = 29"
definition VIRTIO_F_VERSION_1 :: nat where "VIRTIO_F_VERSION_1 = 32"
definition VIRTQ_DESC_F_NEXT :: u16 where "VIRTQ_DESC_F_NEXT = 1"
definition VIRTQ_DESC_F_WRITE :: u16 where "VIRTQ_DESC_F_WRITE = 2"
definition VIRTQ_DESC_F_INDIRECT :: u16 where "VIRTQ_DESC_F_INDIRECT = 4"
definition VRING_AVAIL_F_NO_INTERRUPT :: u16 where "VRING_AVAIL_F_NO_INTERRUPT = 1"
definition VRING_USED_F_NO_NOTIFY :: u16 where "VRING_USED_F_NO_NOTIFY = 1"
definition INVALID_VECTOR_NUM :: u16 where "INVALID_VECTOR_NUM = 0xFFFF"
definition DESC_CHAIN_MAX_TOTAL_LEN :: u64 where "DESC_CHAIN_MAX_TOTAL_LEN = 0x100000000"
definition USEDELEM_LEN :: u64 where "USEDELEM_LEN = 8"
definition AVAILELEM_LEN :: u64 where "AVAILELEM_LEN = 2"
definition VRING_AVAIL_LEN_EXCEPT_AVAILELEM :: u64 where "VRING_AVAIL_LEN_EXCEPT_AVAILELEM = 6"
definition VRING_USED_LEN_EXCEPT_USEDELEM :: u64 where "VRING_USED_LEN_EXCEPT_USEDELEM = 6"
definition VRING_FLAGS_AND_IDX_LEN :: u64 where "VRING_FLAGS_AND_IDX_LEN = 4"
definition VRING_IDX_POSITION :: u64 where "VRING_IDX_POSITION = 2"
definition DESCRIPTOR_LEN :: u64 where "DESCRIPTOR_LEN = 16"

lemmas vring_consts = USEDELEM_LEN_def AVAILELEM_LEN_def VRING_AVAIL_LEN_EXCEPT_AVAILELEM_def
  VRING_USED_LEN_EXCEPT_USEDELEM_def VRING_FLAGS_AND_IDX_LEN_def VRING_IDX_POSITION_def DESCRIPTOR_LEN_def

definition virtio_has_feature :: "u64 \<Rightarrow> nat \<Rightarrow> bool" where
  "virtio_has_feature feature fbit = (feature AND shl 1 fbit \<noteq> 0)"

datatype virtio_error =
    QueueIndex u16 u16
  | AddressOverflow
  | QueueDescInvalid
  | VirtioBail
  | VirtioPanic panic

definition virtio_error_of :: "as_error \<Rightarrow> virtio_error" where
  "virtio_error_of e = (case e of EPanic p \<Rightarrow> VirtioPanic p | _ \<Rightarrow> VirtioBail)"

record addr_cache =
  desc_table_host :: u64
  avail_ring_host :: u64
  used_ring_host :: u64

record queue_config =
  desc_table :: guest_address
  avail_ring :: guest_address
  used_ring :: guest_address
  q_addr_cache :: addr_cache
  max_size :: u16
  q_size :: u16
  q_ready :: bool
  q_vector :: u16
  next_avail :: u16
  next_used :: u16
  last_signal_used :: u16
  signal_used_valid :: bool

record split_vring = queue_config +
  vr_cache :: "region_cache option"

record flags_idx =
  fi_flags :: u16
  fi_idx :: u16

record vring_desc =
  d_addr :: guest_address
  d_len :: u32
  d_flags :: u16
  d_next :: u16

record elem_iovec =
  ei_addr :: guest_address
  ei_len :: u32

record element =
  el_index :: u16
  el_desc_num :: u16
  out_iovec :: "elem_iovec list"
  in_iovec :: "elem_iovec list"

definition new_element :: "u16 \<Rightarrow> element" where
  "new_element index = \<lparr>el_index = index, el_desc_num = 0, out_iovec = [], in_iovec = []\<rparr>"

definition iovec_size :: "elem_iovec list \<Rightarrow> u64" where
  "iovec_size vs = fold (\<lambda>v s. s + ucast (ei_len v)) vs 0"

definition new_queue_config :: "u16 \<Rightarrow> queue_config" where
  "new_queue_config ms =
     \<lparr>desc_table = 0, avail_ring = 0, used_ring = 0,
      q_addr_cache = \<lparr>desc_table_host = 0, avail_ring_host = 0, used_ring_host = 0\<rparr>,
      max_size = ms, q_size = ms, q_ready = False, q_vector = INVALID_VECTOR_NUM,
      next_avail = 0, next_used = 0, last_signal_used = 0, signal_used_valid = False\<rparr>"

definition queue_reset :: "queue_config \<Rightarrow> queue_config" where
  "queue_reset q = new_queue_config (max_size q)"

definition new_split_vring :: "queue_config \<Rightarrow> split_vring" where
  "new_split_vring q = queue_config.extend q \<lparr>vr_cache = None\<rparr>"

definition get_queue_config :: "split_vring \<Rightarrow> queue_config" where
  "get_queue_config sv = (queue_config.truncate sv)\<lparr>signal_used_valid := False\<rparr>"

section \<open>Sizes and the address cache\<close>

definition actual_size :: "('a) queue_config_scheme \<Rightarrow> u16" where
  "actual_size q = min (q_size q) (max_size q)"

definition get_desc_size :: "queue_config \<Rightarrow> u64" where
  "get_desc_size q = ucast (actual_size q) * DESCRIPTOR_LEN"

definition get_used_size :: "queue_config \<Rightarrow> u64 \<Rightarrow> u64" where
  "get_used_size q features =
     (if virtio_has_feature features VIRTIO_F_RING_EVENT_IDX then 2 else 0) +
     VRING_FLAGS_AND_IDX_LEN + ucast (actual_size q) * USEDELEM_LEN"

definition get_avail_size :: "queue_config \<Rightarrow> u64 \<Rightarrow> u64" where
  "get_avail_size q features =
     (if virtio_has_feature features VIRTIO_F_RING_EVENT_IDX then 2 else 0) +
     VRING_FLAGS_AND_IDX_LEN + ucast (actual_size q) * 2"

text \<open>
  What \<open>report_virtio_error\<close> touches: the broken flag, and the configuration interrupts sent.
\<close>

record virtio_alarm =
  va_broken :: bool
  va_interrupts :: nat

definition report_virtio_error :: "u64 \<Rightarrow> virtio_alarm \<Rightarrow> virtio_alarm" where
  "report_virtio_error features a =
     \<lparr>va_broken = True,
      va_interrupts = (if virtio_has_feature features VIRTIO_F_VERSION_1 then Suc (va_interrupts a) else va_interrupts a)\<rparr>"

definition cache_host :: "(u64 \<times> u64) option \<Rightarrow> u64 \<Rightarrow> u64 \<Rightarrow> virtio_alarm \<Rightarrow> u64 \<times> virtio_alarm" where
  "cache_host found need features a =
     (case found of
        Some (addr, sz) \<Rightarrow> if sz < need then (0, report_virtio_error features a) else (addr, a)
      | None \<Rightarrow> (0, a))"

definition set_addr_cache ::
    "'d store \<Rightarrow> flat_view \<Rightarrow> u64 \<Rightarrow> queue_config \<times> virtio_alarm \<Rightarrow> queue_config \<times> virtio_alarm" where
  "set_addr_cache st fv features = (\<lambda>(q, a).
     let (dh, a1) = cache_host (addr_cache_init st fv (desc_table q)) (get_desc_size q) features a;
         (ah, a2) = cache_host (addr_cache_init st fv (avail_ring q)) (get_avail_size q features) features a1;
         (uh, a3) = cache_host (addr_cache_init st fv (used_ring q)) (get_used_size q features) features a2
     in (q\<lparr>q_addr_cache := \<lparr>desc_table_host = dh, avail_ring_host = ah, used_ring_host = uh\<rparr>\<rparr>, a3))"

section \<open>Descriptors\<close>

definition desc_of_bytes :: "u8 list \<Rightarrow> vring_desc" where
  "desc_of_bytes bs =
     \<lparr>d_addr = from_le (take 8 bs), d_len = from_le (take 4 (drop 8 bs)),
      d_flags = from_le (take 2 (drop 12 bs)), d_next = from_le (take 2 (drop 14 bs))\<rparr>"

definition checked_offset_mem :: "'d store \<Rightarrow> flat_view \<Rightarrow> guest_address \<Rightarrow> u64 \<Rightarrow> virtio_error + guest_address" where
  "checked_offset_mem st fv base off =
     (if \<not> address_in_memory st fv base off then Inl VirtioBail else Inr (unchecked_add base off))"

definition has_next :: "vring_desc \<Rightarrow> bool" where
  "has_next d = (d_flags d AND VIRTQ_DESC_F_NEXT \<noteq> 0)"

definition write_only :: "vring_desc \<Rightarrow> bool" where
  "write_only d = (d_flags d AND VIRTQ_DESC_F_WRITE \<noteq> 0)"

definition is_indirect_desc :: "vring_desc \<Rightarrow> bool" where
  "is_indirect_desc d = (d_flags d AND VIRTQ_DESC_F_INDIRECT \<noteq> 0)"

definition desc_is_valid ::
    "'d store \<Rightarrow> flat_view \<Rightarrow> u16 \<Rightarrow> vring_desc \<Rightarrow> region_cache option \<Rightarrow> bool \<times> region_cache option" where
  "desc_is_valid st fv queue_size d cache =
     (if d_len d = 0 then (False, cache)
      else let finish = (\<lambda>miss_cached cache.
                 if miss_cached \<and> (case checked_offset_mem st fv (d_addr d) (ucast (d_len d)) of Inl _ \<Rightarrow> True | Inr _ \<Rightarrow> False)
                 then (False, cache)
                 else if has_next d \<and> d_next d \<ge> queue_size then (False, cache)
                 else (True, cache))
           in case cache of
                Some rc \<Rightarrow>
                  (case checked_add (d_addr d) (ucast (d_len d)) of
                     None \<Rightarrow> (False, cache)
                   | Some e \<Rightarrow> finish (\<not> (d_addr d > rc_start rc \<and> e < rc_end rc)) cache)
              | None \<Rightarrow>
                  (case get_region_cache st fv (d_addr d) of
                     Some rc \<Rightarrow> finish True (if rc_reg_type rc = Ram then Some rc else None)
                   | None \<Rightarrow> finish True None))"

definition new_desc ::
    "'d store \<Rightarrow> flat_view \<Rightarrow> memory \<Rightarrow> u64 \<Rightarrow> u16 \<Rightarrow> u16 \<Rightarrow> region_cache option \<Rightarrow>
     (virtio_error + vring_desc) \<times> region_cache option" where
  "new_desc st fv mem table_host queue_size index cache =
     (if index \<ge> queue_size then (Inl (QueueIndex index queue_size), cache)
      else case checked_add table_host (ucast index * DESCRIPTOR_LEN) of
             None \<Rightarrow> (Inl AddressOverflow, cache)
           | Some desc_addr \<Rightarrow>
               (let d = desc_of_bytes (load mem desc_addr 16)
                in case desc_is_valid st fv queue_size d cache of
                     (ok, cache') \<Rightarrow> (if ok then Inr d else Inl QueueDescInvalid, cache')))"

definition is_valid_indirect_desc :: "vring_desc \<Rightarrow> bool" where
  "is_valid_indirect_desc d =
     (if d_len d = 0 \<or> (ucast (d_len d) :: u64) mod DESCRIPTOR_LEN \<noteq> 0 \<or> (ucast (d_len d) :: u64) div DESCRIPTOR_LEN > 0xFFFF
      then False else if has_next d then False else True)"

definition get_desc_num :: "vring_desc \<Rightarrow> u16" where
  "get_desc_num d = ucast ((ucast (d_len d) :: u64) div DESCRIPTOR_LEN)"

text \<open>The local variables of the loop of \<open>get_element\<close>.\<close>

record elem_state =
  es_table_host :: u64
  es_desc_size :: u16
  es_queue_size :: u16
  es_desc :: vring_desc
  es_indirect :: bool
  es_write_count :: u32
  es_total_len :: u64
  es_elem :: element
  es_cache :: "region_cache option"

text \<open>One non-indirect turn: the buffer goes to the readable or the writable list.\<close>

definition push_iovec :: "vring_desc \<Rightarrow> elem_state \<Rightarrow> elem_state" where
  "push_iovec d s =
     (let v = \<lparr>ei_addr = d_addr d, ei_len = d_len d\<rparr>;
          e = es_elem s;
          e1 = (if write_only d then e\<lparr>in_iovec := in_iovec e @ [v]\<rparr> else e\<lparr>out_iovec := out_iovec e @ [v]\<rparr>)
      in s\<lparr>es_elem := e1\<lparr>el_desc_num := el_desc_num e + 1\<rparr>,
           es_write_count := (if write_only d then es_write_count s + 1 else es_write_count s),
           es_total_len := es_total_len s + ucast (d_len d)\<rparr>)"

text \<open>
  The loop. It ends on every ring: a turn either takes the one indirect table the chain may
  have, or counts a descriptor towards the size of the table.
\<close>

function get_element_loop ::
    "'d store \<Rightarrow> flat_view \<Rightarrow> memory \<Rightarrow> elem_state \<Rightarrow> (virtio_error + elem_state) \<times> region_cache option" where
  "get_element_loop st fv mem s =
     (let d = es_desc s in
      if el_desc_num (es_elem s) \<ge> es_desc_size s then (Inl VirtioBail, es_cache s)
      else if is_indirect_desc d
      then if \<not> is_valid_indirect_desc d then (Inl QueueDescInvalid, es_cache s)
           else if es_indirect s then (Inl VirtioBail, es_cache s)
           else (case get_host_address_from_cache st fv (d_addr d) (es_cache s) of
                   None \<Rightarrow> (Inl VirtioBail, es_cache s)
                 | Some (hva, _) \<Rightarrow>
                     (case new_desc st fv mem hva (get_desc_num d) 0 (es_cache s) of
                        (Inl e, c) \<Rightarrow> (Inl e, c)
                      | (Inr d', c) \<Rightarrow>
                          (case checked_add (el_desc_num (es_elem s)) (get_desc_num d) of
                             None \<Rightarrow> (Inl VirtioBail, c)
                           | Some ds \<Rightarrow>
                               get_element_loop st fv mem
                                 (s\<lparr>es_table_host := hva, es_desc_size := ds, es_queue_size := get_desc_num d,
                                    es_desc := d', es_indirect := True, es_cache := c\<rparr>))))
      else if \<not> write_only d \<and> es_write_count s > 0 then (Inl VirtioBail, es_cache s)
      else (let s1 = push_iovec d s
            in if has_next d
               then (case new_desc st fv mem (es_table_host s) (es_queue_size s) (d_next d) (es_cache s) of
                       (Inl e, c) \<Rightarrow> (Inl e, c)
                     | (Inr d', c) \<Rightarrow> get_element_loop st fv mem (s1\<lparr>es_desc := d', es_cache := c\<rparr>))
               else (Inr s1, es_cache s)))"
  by pat_completeness auto

lemma push_iovec_sel [simp]:
  "es_desc_size (push_iovec d s) = es_desc_size s" "es_indirect (push_iovec d s) = es_indirect s"
  "es_table_host (push_iovec d s) = es_table_host s" "es_queue_size (push_iovec d s) = es_queue_size s"
  "es_cache (push_iovec d s) = es_cache s" "es_desc (push_iovec d s) = es_desc s"
  "el_desc_num (es_elem (push_iovec d s)) = el_desc_num (es_elem s) + 1"
  by (simp_all add: push_iovec_def Let_def)

lemma desc_num_Suc:
  fixes n m :: u16
  assumes "n < m"
  shows "unat (n + 1) = Suc (unat n)"
proof -
  have "unat m < 65536" using unsigned_less [of m, where 'a = nat] by simp
  with assms have "unat n + unat (1 :: u16) < 2 ^ 16" by (simp add: word_less_nat_alt)
  from unat_add_eq [of n 1] this show ?thesis by simp
qed

termination get_element_loop
proof (relation "measures [\<lambda>(st, fv, mem, s). if es_indirect s then 0 else 1 :: nat,
    \<lambda>(st, fv, mem, s). unat (es_desc_size s) - unat (el_desc_num (es_elem s))]", goal_cases)
  case 1
  then show ?case by simp
next
  case (2 st fv mem s)
  then show ?case by auto
next
  case (3 st fv mem s)
  then show ?case
    using desc_num_Suc [of "el_desc_num (es_elem s)" "es_desc_size s"]
    by (auto simp: word_le_nat_alt word_less_nat_alt)
qed

declare get_element_loop.simps [simp del]

definition get_element ::
    "'d store \<Rightarrow> flat_view \<Rightarrow> memory \<Rightarrow> u64 \<Rightarrow> u16 \<Rightarrow> u16 \<Rightarrow> vring_desc \<Rightarrow> region_cache option \<Rightarrow> element \<Rightarrow>
     (virtio_error + element) \<times> region_cache option" where
  "get_element st fv mem table_host sz index d cache elem =
     (case get_element_loop st fv mem
             \<lparr>es_table_host = table_host, es_desc_size = sz, es_queue_size = sz, es_desc = d, es_indirect = False,
              es_write_count = 0, es_total_len = 0, es_elem = elem\<lparr>el_index := index\<rparr>, es_cache = cache\<rparr> of
        (Inl e, c) \<Rightarrow> (Inl e, c)
      | (Inr s, c) \<Rightarrow>
          if es_total_len s > DESC_CHAIN_MAX_TOTAL_LEN then (Inl VirtioBail, c) else (Inr (es_elem s), c))"

section \<open>Fields of the rings\<close>

abbreviation hosts :: "('a) queue_config_scheme \<Rightarrow> addr_cache" where
  "hosts q \<equiv> q_addr_cache q"

definition flags_idx_of_bytes :: "u8 list \<Rightarrow> flags_idx" where
  "flags_idx_of_bytes bs = \<lparr>fi_flags = from_le (take 2 bs), fi_idx = from_le (take 2 (drop 2 bs))\<rparr>"

definition bytes_of_flags_idx :: "flags_idx \<Rightarrow> u8 list" where
  "bytes_of_flags_idx f = to_le 2 (fi_flags f) @ to_le 2 (fi_idx f)"

definition get_avail_flags_idx :: "'d machine \<Rightarrow> split_vring \<Rightarrow> flags_idx" where
  "get_avail_flags_idx m sv = flags_idx_of_bytes (read_object_direct 4 (avail_ring_host (hosts sv)) m)"

definition get_avail_idx :: "'d machine \<Rightarrow> split_vring \<Rightarrow> u16" where
  "get_avail_idx m sv = fi_idx (get_avail_flags_idx m sv)"

definition get_avail_flags :: "'d machine \<Rightarrow> split_vring \<Rightarrow> u16" where
  "get_avail_flags m sv = fi_flags (get_avail_flags_idx m sv)"

definition get_used_flags_idx :: "'d machine \<Rightarrow> split_vring \<Rightarrow> flags_idx" where
  "get_used_flags_idx m sv = flags_idx_of_bytes (read_object_direct 4 (used_ring_host (hosts sv)) m)"

definition get_used_idx :: "'d machine \<Rightarrow> split_vring \<Rightarrow> u16" where
  "get_used_idx m sv = fi_idx (get_used_flags_idx m sv)"

definition set_used_flags :: "split_vring \<Rightarrow> bool \<Rightarrow> 'd machine \<Rightarrow> (as_error + unit) \<times> 'd machine" where
  "set_used_flags sv suppress m =
     (let f = get_used_flags_idx m sv;
          f' = (if suppress then f\<lparr>fi_flags := fi_flags f OR VRING_USED_F_NO_NOTIFY\<rparr>
                else f\<lparr>fi_flags := fi_flags f AND NOT VRING_USED_F_NO_NOTIFY\<rparr>)
      in write_object_direct (bytes_of_flags_idx f') (used_ring_host (hosts sv)) m)"

definition set_avail_event :: "split_vring \<Rightarrow> u16 \<Rightarrow> 'd machine \<Rightarrow> (as_error + unit) \<times> 'd machine" where
  "set_avail_event sv event_idx m =
     (let off = VRING_FLAGS_AND_IDX_LEN + USEDELEM_LEN * ucast (actual_size sv)
      in write_object_direct (to_le 2 event_idx) (used_ring_host (hosts sv) + off) m)"

definition get_used_event :: "'d machine \<Rightarrow> split_vring \<Rightarrow> u16" where
  "get_used_event m sv =
     (let off = VRING_FLAGS_AND_IDX_LEN + AVAILELEM_LEN * ucast (actual_size sv)
      in from_le (read_object_direct 2 (avail_ring_host (hosts sv) + off) m))"

definition is_avail_ring_no_interrupt :: "'d machine \<Rightarrow> split_vring \<Rightarrow> bool" where
  "is_avail_ring_no_interrupt m sv = (get_avail_flags m sv AND VRING_AVAIL_F_NO_INTERRUPT \<noteq> 0)"

definition used_ring_need_event :: "'d machine \<Rightarrow> split_vring \<Rightarrow> bool \<times> split_vring" where
  "used_ring_need_event m sv =
     (let prev = last_signal_used sv;
          new = get_used_idx m sv;
          used_event_idx = get_used_event m sv;
          valid = signal_used_valid sv
      in (\<not> valid \<or> new - used_event_idx - 1 < new - prev,
          sv\<lparr>signal_used_valid := True, last_signal_used := new\<rparr>))"

section \<open>Validity of the configuration\<close>

definition is_overlap :: "guest_address \<Rightarrow> guest_address \<Rightarrow> guest_address \<Rightarrow> guest_address \<Rightarrow> bool" where
  "is_overlap start1 end1 start2 end2 = (\<not> (start1 \<ge> end2 \<or> start2 \<ge> end1))"

definition is_invalid_memory :: "'d store \<Rightarrow> flat_view \<Rightarrow> split_vring \<Rightarrow> u64 \<Rightarrow> bool" where
  "is_invalid_memory st fv sv sz =
     (case checked_offset_mem st fv (desc_table sv) (DESCRIPTOR_LEN * sz) of
        Inl _ \<Rightarrow> True
      | Inr desc_table_end \<Rightarrow>
          (case checked_offset_mem st fv (avail_ring sv) (VRING_AVAIL_LEN_EXCEPT_AVAILELEM + AVAILELEM_LEN * sz) of
             Inl _ \<Rightarrow> True
           | Inr desc_avail_end \<Rightarrow>
               (case checked_offset_mem st fv (used_ring sv) (VRING_USED_LEN_EXCEPT_USEDELEM + USEDELEM_LEN * sz) of
                  Inl _ \<Rightarrow> True
                | Inr desc_used_end \<Rightarrow>
                    if is_overlap (desc_table sv) desc_table_end (avail_ring sv) desc_avail_end \<or>
                       is_overlap (avail_ring sv) desc_avail_end (used_ring sv) desc_used_end \<or>
                       is_overlap (desc_table sv) desc_table_end (used_ring sv) desc_used_end
                    then True
                    else if desc_table sv AND 0xf \<noteq> 0 then True
                    else if avail_ring sv AND 0x1 \<noteq> 0 then True
                    else if used_ring sv AND 0x3 \<noteq> 0 then True
                    else False)))"

definition vring_is_valid :: "'d store \<Rightarrow> flat_view \<Rightarrow> split_vring \<Rightarrow> bool" where
  "vring_is_valid st fv sv =
     (if \<not> q_ready sv then False
      else if q_size sv > max_size sv \<or> q_size sv = 0 \<or> (q_size sv AND (q_size sv - 1)) \<noteq> 0 then False
      else \<not> is_invalid_memory st fv sv (ucast (actual_size sv)))"

section \<open>Operations\<close>

definition avail_ring_len :: "'d machine \<Rightarrow> split_vring \<Rightarrow> u16" where
  "avail_ring_len m sv = get_avail_idx m sv - next_avail sv"

definition get_vring_element ::
    "'d store \<Rightarrow> flat_view \<Rightarrow> u64 \<Rightarrow> element \<Rightarrow> split_vring \<times> 'd machine \<Rightarrow>
     (virtio_error + element) \<times> split_vring \<times> 'd machine" where
  "get_vring_element st fv features elem = (\<lambda>(sv, m).
     if actual_size sv = 0 then (Inl (VirtioPanic DivByZero), sv, m)
     else let index_offset = VRING_FLAGS_AND_IDX_LEN + AVAILELEM_LEN * ucast (next_avail sv mod actual_size sv);
              desc_index = from_le (read_object_direct 2 (avail_ring_host (hosts sv) + index_offset) m)
          in case new_desc st fv (ms_mem m) (desc_table_host (hosts sv)) (actual_size sv) desc_index (vr_cache sv) of
               (Inl e, c) \<Rightarrow> (Inl e, sv\<lparr>vr_cache := c\<rparr>, m)
             | (Inr d, c) \<Rightarrow>
                 (let sv1 = sv\<lparr>vr_cache := c\<rparr>
                  in case (if virtio_has_feature features VIRTIO_F_RING_EVENT_IDX
                           then set_avail_event sv1 (next_avail sv1 + 1) m else (Inr (), m)) of
                       (Inl e, m1) \<Rightarrow> (Inl (virtio_error_of e), sv1, m1)
                     | (Inr _, m1) \<Rightarrow>
                         (case get_element st fv (ms_mem m1) (desc_table_host (hosts sv1)) (actual_size sv1) desc_index d c elem of
                            (Inl e, c') \<Rightarrow> (Inl e, sv1\<lparr>vr_cache := c'\<rparr>, m1)
                          | (Inr el, c') \<Rightarrow> (Inr el, sv1\<lparr>vr_cache := c', next_avail := next_avail sv1 + 1\<rparr>, m1))))"

definition pop_avail ::
    "'d store \<Rightarrow> flat_view \<Rightarrow> u64 \<Rightarrow> split_vring \<times> 'd machine \<Rightarrow> (virtio_error + element) \<times> split_vring \<times> 'd machine" where
  "pop_avail st fv features = (\<lambda>(sv, m).
     if \<not> q_ready sv \<or> avail_ring_len m sv = 0 then (Inr (new_element 0), sv, m)
     else get_vring_element st fv features (new_element 0) (sv, m))"

definition push_back :: "split_vring \<Rightarrow> split_vring" where
  "push_back sv = sv\<lparr>next_avail := next_avail sv - 1\<rparr>"

definition used_elem_bytes :: "u32 \<Rightarrow> u32 \<Rightarrow> u8 list" where
  "used_elem_bytes i len = to_le 4 i @ to_le 4 len"

definition add_used ::
    "u16 \<Rightarrow> u32 \<Rightarrow> split_vring \<times> 'd machine \<Rightarrow> (virtio_error + unit) \<times> split_vring \<times> 'd machine" where
  "add_used index len = (\<lambda>(sv, m).
     if index \<ge> q_size sv then (Inl (QueueIndex index (q_size sv)), sv, m)
     else if actual_size sv = 0 then (Inl (VirtioPanic DivByZero), sv, m)
     else let slot = ucast (next_used sv mod actual_size sv) :: u64;
              used_elem_addr = used_ring_host (hosts sv) + VRING_FLAGS_AND_IDX_LEN + slot * USEDELEM_LEN
          in case write_object_direct (used_elem_bytes (ucast index) len) used_elem_addr m of
               (Inl e, m1) \<Rightarrow> (Inl (virtio_error_of e), sv, m1)
             | (Inr _, m1) \<Rightarrow>
                 (let sv1 = sv\<lparr>next_used := next_used sv + 1\<rparr>
                  in case write_object_direct (to_le 2 (next_used sv1)) (used_ring_host (hosts sv1) + VRING_IDX_POSITION) m1 of
                       (Inl e, m2) \<Rightarrow> (Inl (virtio_error_of e), sv1, m2)
                     | (Inr _, m2) \<Rightarrow>
                         (Inr (), (if next_used sv1 = last_signal_used sv1 then sv1\<lparr>signal_used_valid := False\<rparr> else sv1), m2)))"

definition should_notify :: "'d machine \<Rightarrow> u64 \<Rightarrow> split_vring \<Rightarrow> bool \<times> split_vring" where
  "should_notify m features sv =
     (if virtio_has_feature features VIRTIO_F_RING_EVENT_IDX then used_ring_need_event m sv
      else (\<not> is_avail_ring_no_interrupt m sv, sv))"

definition suppress_queue_notify ::
    "u64 \<Rightarrow> bool \<Rightarrow> split_vring \<Rightarrow> 'd machine \<Rightarrow> (as_error + unit) \<times> 'd machine" where
  "suppress_queue_notify features suppress sv m =
     (if virtio_has_feature features VIRTIO_F_RING_EVENT_IDX then set_avail_event sv (get_avail_idx m sv) m
      else set_used_flags sv suppress m)"

section \<open>Queues\<close>

definition QUEUE_TYPE_SPLIT_VRING :: u16 where "QUEUE_TYPE_SPLIT_VRING = 1"

definition new_queue :: "queue_config \<Rightarrow> u16 \<Rightarrow> virtio_error + split_vring" where
  "new_queue q queue_type = (if queue_type = QUEUE_TYPE_SPLIT_VRING then Inr (new_split_vring q) else Inl VirtioBail)"

end
