(* ===== verification/VringExample.thy ===== *)
theory VringExample
  imports SplitVring
begin

text \<open>
  A concrete virtqueue: four descriptors in one RAM range, of which the driver has made a chain
  of two available. The properties of the virtqueue are applied to it.
\<close>

section \<open>Loading small blocks\<close>

lemma load_2: "load m a 2 = [m a, m (a + 1)]"
  by (simp add: load_def upt_conv_Cons)

lemma load_4: "load m a 4 = load m a 2 @ load m (a + 2) 2"
  using load_append [of m a 2 2] by simp

lemma load_8: "load m a 8 = load m a 4 @ load m (a + 4) 4"
  using load_append [of m a 4 4] by simp

lemma load_16: "load m a 16 = load m a 8 @ load m (a + 8) 8"
  using load_append [of m a 8 8] by simp

lemmas load_numeral = load_2 load_4 load_8 load_16

section \<open>The ring\<close>

definition demo_ram_range :: flat_range where
  "demo_ram_range = \<lparr>fr_range = AddressRange 0 0x1000, fr_owner = 3, fr_offset = 0, fr_romd = None\<rparr>"

text \<open>Descriptor 0 is a 16-byte buffer to read, chained to descriptor 1, an 8-byte buffer to write.\<close>

definition demo_mem :: memory where
  "demo_mem = (\<lambda>_. 0)(0x900101 := 8, 0x900108 := 0x10, 0x90010c := 1, 0x90010e := 1,
     0x900111 := 9, 0x900118 := 8, 0x90011c := 2, 0x900202 := 1)"

definition demo_machine :: "unit machine" where
  "demo_machine = \<lparr>ms_mem = demo_mem, ms_mm = \<lparr>mm_status = MNone, mm_bitmaps = []\<rparr>, ms_dev = ()\<rparr>"

definition demo_vring :: split_vring where
  "demo_vring = \<lparr>desc_table = 0x100, avail_ring = 0x200, used_ring = 0x300,
     q_addr_cache = \<lparr>desc_table_host = 0x900100, avail_ring_host = 0x900200, used_ring_host = 0x900300\<rparr>,
     max_size = 4, q_size = 4, q_ready = True, q_vector = 0, next_avail = 0, next_used = 0,
     last_signal_used = 0, signal_used_valid = False, vr_cache = None\<rparr>"

abbreviation demo_view :: flat_view where
  "demo_view \<equiv> [demo_ram_range]"

lemma demo_view_inv: "fv_inv demo_store demo_view"
  by (simp add: demo_ram_range_def fv_inv_def fr_ok_def fr_in_def terminal_def demo_simps)

lemma demo_find: "find_flatrange demo_view x = (if x < 0x1000 then Some demo_ram_range else None)"
  by (auto simp: find_flatrange_def bsearch.simps demo_ram_range_def end_addr_def unchecked_add_def word_gt_0)

lemma demo_bytes:
  "desc_of_bytes (load demo_mem 0x900100 16) = \<lparr>d_addr = 0x800, d_len = 0x10, d_flags = 1, d_next = 1\<rparr>"
  "desc_of_bytes (load demo_mem 0x900110 16) = \<lparr>d_addr = 0x900, d_len = 8, d_flags = 2, d_next = 0\<rparr>"
  "load demo_mem 0x900200 4 = [0, 0, 1, 0]" "load demo_mem 0x900204 2 = [0, 0]"
  by (simp_all add: desc_of_bytes_def demo_mem_def load_numeral)

lemma four_le_one: "\<not> (4 :: u16) \<le> 1"
  by (simp add: word_le_nat_alt)

definition demo_cache :: region_cache where
  "demo_cache = the (get_region_cache demo_store demo_view 0x800)"

lemma demo_desc:
  "new_desc demo_store demo_view demo_mem 0x900100 4 0 None =
     (Inr \<lparr>d_addr = 0x800, d_len = 0x10, d_flags = 1, d_next = 1\<rparr>, Some demo_cache)"
  "new_desc demo_store demo_view demo_mem 0x900100 4 1 (Some demo_cache) =
     (Inr \<lparr>d_addr = 0x900, d_len = 8, d_flags = 2, d_next = 0\<rparr>, Some demo_cache)"
  by (simp_all add: new_desc_def checked_add_def DESCRIPTOR_LEN_def demo_bytes desc_is_valid_def demo_find has_next_def
      VIRTQ_DESC_F_NEXT_def get_region_cache_def checked_offset_mem_def address_in_memory_def demo_cache_def Let_def)
    (simp_all add: demo_ram_range_def demo_simps end_addr_def offset_from_def four_le_one)

lemma demo_pop:
  "pop_avail demo_store demo_view 0 (demo_vring, demo_machine) =
     (Inr \<lparr>el_index = 0, el_desc_num = 2, out_iovec = [\<lparr>ei_addr = 0x800, ei_len = 0x10\<rparr>],
           in_iovec = [\<lparr>ei_addr = 0x900, ei_len = 8\<rparr>]\<rparr>,
      demo_vring\<lparr>vr_cache := Some demo_cache, next_avail := 1\<rparr>, demo_machine)"
  by (simp add: pop_avail_def avail_ring_len_def get_avail_idx_def get_avail_flags_idx_def read_object_direct_def
      demo_vring_def demo_machine_def demo_bytes flags_idx_of_bytes_def get_vring_element_def actual_size_def Let_def
      vring_consts demo_desc virtio_has_feature_def get_element_def new_element_def)
    (simp add: get_element_loop.simps Let_def is_indirect_desc_def VIRTQ_DESC_F_INDIRECT_def write_only_def
      VIRTQ_DESC_F_WRITE_def has_next_def VIRTQ_DESC_F_NEXT_def push_iovec_def demo_desc four_le_one DESC_CHAIN_MAX_TOTAL_LEN_def)

end
