(* ===== verification/VringSafety.thy ===== *)
theory VringSafety
  imports VringExample
begin

text \<open>
  What a guest can make the device do through a split virtqueue: every buffer of an element
  the device pops lies in guest RAM, the number of descriptors is counted exactly, and the
  walk over a descriptor chain depends on guest RAM only, whatever the guest wrote there.
\<close>

section \<open>Guest RAM\<close>

text \<open>The guest range \<open>[x, x + n)\<close> lies in one RAM range of the view.\<close>

definition in_ram :: "'d store \<Rightarrow> flat_view \<Rightarrow> guest_address \<Rightarrow> nat \<Rightarrow> bool" where
  "in_ram st fv x n = (\<exists>fr \<in> set fv. r_type (st (fr_owner fr)) = Ram \<and> covers fr x \<and> unat x + n \<le> fr_hi fr)"

lemma address_in_memory_iff:
  assumes ok: "fv_ok fv"
  shows "address_in_memory st fv x sz \<longleftrightarrow> in_ram st fv x (unat sz)"
proof -
  have rem: "sz \<le> end_addr (fr_range fr) - x \<longleftrightarrow> unat x + unat sz \<le> fr_hi fr"
    if "fr \<in> set fv" "covers fr x" for fr
    using that fr_end [OF fv_ok_mem [OF ok that(1)]]
    by (auto simp: word_le_nat_alt unat_sub_eq covers_unat)
  show ?thesis
  proof (cases "find_flatrange fv x")
    case None
    then have "\<forall>fr \<in> set fv. \<not> covers fr x" using ok by (auto simp: find_flatrange_find find_None_iff)
    then show ?thesis using None by (auto simp: address_in_memory_def in_ram_def)
  next
    case (Some fr)
    have fr: "fr \<in> set fv" "covers fr x" using find_flatrange_covers [OF ok Some] by auto
    have "fr' = fr" if "fr' \<in> set fv" "covers fr' x" for fr'
      using find_covers_unique [OF ok that] find_covers_unique [OF ok fr] by simp
    with fr have "in_ram st fv x (unat sz) \<longleftrightarrow> r_type (st (fr_owner fr)) = Ram \<and> unat x + unat sz \<le> fr_hi fr"
      unfolding in_ram_def by blast
    then show ?thesis using rem [OF fr] by (simp add: Some address_in_memory_def offset_from_def)
  qed
qed

text \<open>A cache that was taken from the view and describes a RAM range.\<close>

definition cache_ok :: "'d store \<Rightarrow> flat_view \<Rightarrow> region_cache option \<Rightarrow> bool" where
  "cache_ok st fv c = (\<forall>rc. c = Some rc \<longrightarrow>
     rc_reg_type rc = Ram \<and> (\<exists>a. get_region_cache st fv a = Some rc))"

lemma cache_ok_None [simp]: "cache_ok st fv None"
  by (simp add: cache_ok_def)

lemma cache_ok_range:
  assumes ok: "fv_ok fv" and c: "cache_ok st fv (Some rc)"
  shows "\<exists>fr \<in> set fv. r_type (st (fr_owner fr)) = Ram \<and> rc_start rc = ar_base (fr_range fr) \<and> unat (rc_end rc) = fr_hi fr"
proof -
  obtain a where a: "get_region_cache st fv a = Some rc" and ram: "rc_reg_type rc = Ram"
    using c by (auto simp: cache_ok_def)
  then obtain fr where f: "find_flatrange fv a = Some fr" by (auto simp: get_region_cache_def split: option.splits)
  have fr: "fr \<in> set fv" using find_flatrange_covers [OF ok f] by blast
  have "rc_reg_type rc = r_type (st (fr_owner fr))" "rc_start rc = ar_base (fr_range fr)" "rc_end rc = end_addr (fr_range fr)"
    using a by (auto simp: get_region_cache_def f)
  then show ?thesis using fr ram fr_end [OF fv_ok_mem [OF ok fr]] by (intro bexI [OF _ fr]) simp
qed

section \<open>Valid descriptors\<close>

definition desc_ok :: "'d store \<Rightarrow> flat_view \<Rightarrow> vring_desc \<Rightarrow> bool" where
  "desc_ok st fv d = (d_len d \<noteq> 0 \<and> in_ram st fv (d_addr d) (unat (d_len d)))"

lemma unat_ucast_len: "unat (ucast (l :: u32) :: u64) = unat l"
proof -
  have "unat l < 2 ^ 64" using unsigned_less [of l, where 'a = nat] by simp
  then show ?thesis by (simp only: unsigned_ucast_eq) (simp add: take_bit_nat_eq_self)
qed

lemma desc_is_valid_ok:
  assumes ok: "fv_ok fv" and c: "cache_ok st fv cache"
    and v: "desc_is_valid st fv qs d cache = (valid, cache')"
  shows "cache_ok st fv cache' \<and> (valid \<longrightarrow> desc_ok st fv d)"
proof -
  let ?in = "in_ram st fv (d_addr d) (unat (d_len d))"
  have mem: "(case checked_offset_mem st fv (d_addr d) (ucast (d_len d)) of Inl _ \<Rightarrow> True | Inr _ \<Rightarrow> False) = (\<not> ?in)"
    using address_in_memory_iff [OF ok, of st "d_addr d" "ucast (d_len d)"]
    by (simp add: checked_offset_mem_def unat_ucast_len)
  show ?thesis
  proof (cases cache)
    case None
    then show ?thesis using v
      by (auto simp: desc_is_valid_def mem Let_def desc_ok_def cache_ok_def split: if_splits option.splits)
  next
    case (Some rc)
    obtain fr where fr: "fr \<in> set fv" "r_type (st (fr_owner fr)) = Ram" "rc_start rc = ar_base (fr_range fr)" "unat (rc_end rc) = fr_hi fr"
      using cache_ok_range [OF ok] c Some by blast
    have hit: "in_ram st fv (d_addr d) (unat (d_len d))"
      if "checked_add (d_addr d) (ucast (d_len d)) = Some e" "rc_start rc < d_addr d" "e < rc_end rc" for e
    proof -
      have "unat e = unat (d_addr d) + unat (d_len d)" using unat_checked_add [OF that(1)] by (simp add: unat_ucast_len)
      then show ?thesis using fr that(2,3) unfolding in_ram_def
        by (intro bexI [of _ fr]) (auto simp: covers_unat word_less_nat_alt)
    qed
    show ?thesis using v Some c hit
      by (auto simp: desc_is_valid_def mem Let_def desc_ok_def split: if_splits option.splits)
  qed
qed

lemma new_desc_ok:
  assumes "fv_ok fv" and "cache_ok st fv cache" and "new_desc st fv mem h qs i cache = (res, cache')"
  shows "cache_ok st fv cache' \<and> (\<forall>d. res = Inr d \<longrightarrow> desc_ok st fv d)"
proof (cases "i \<ge> qs \<or> checked_add h (ucast i * DESCRIPTOR_LEN) = None")
  case True
  then show ?thesis using assms(2,3) by (auto simp: new_desc_def split: option.splits if_splits)
next
  case False
  then obtain a where a: "checked_add h (ucast i * DESCRIPTOR_LEN) = Some a" "\<not> i \<ge> qs" by auto
  obtain ok c where v: "desc_is_valid st fv qs (desc_of_bytes (load mem a 16)) cache = (ok, c)" by force
  show ?thesis using desc_is_valid_ok [OF assms(1,2) v] a v assms(3)
    by (auto simp: new_desc_def Let_def split: if_splits)
qed

section \<open>The walk over a chain\<close>

definition iov_ok :: "'d store \<Rightarrow> flat_view \<Rightarrow> elem_iovec \<Rightarrow> bool" where
  "iov_ok st fv v = (ei_len v \<noteq> 0 \<and> in_ram st fv (ei_addr v) (unat (ei_len v)))"

definition total_len :: "element \<Rightarrow> nat" where
  "total_len e = sum_list (map (\<lambda>v. unat (ei_len v)) (out_iovec e @ in_iovec e))"

definition elem_ok :: "'d store \<Rightarrow> flat_view \<Rightarrow> element \<Rightarrow> bool" where
  "elem_ok st fv e = ((\<forall>v \<in> set (out_iovec e @ in_iovec e). iov_ok st fv v) \<and>
     unat (el_desc_num e) = length (out_iovec e) + length (in_iovec e))"

definition walk_inv :: "'d store \<Rightarrow> flat_view \<Rightarrow> elem_state \<Rightarrow> bool" where
  "walk_inv st fv s = (elem_ok st fv (es_elem s) \<and> cache_ok st fv (es_cache s) \<and> desc_ok st fv (es_desc s) \<and>
     unat (es_total_len s) = total_len (es_elem s))"

lemma total_len_bound: "total_len e \<le> (length (out_iovec e) + length (in_iovec e)) * 2 ^ 32"
proof -
  have "sum_list (map (\<lambda>v. unat (ei_len v)) vs) \<le> length vs * 2 ^ 32" for vs
  proof (induction vs)
    case Nil
    then show ?case by simp
  next
    case (Cons v vs)
    have "unat (ei_len v) \<le> 2 ^ 32" using unsigned_less [of "ei_len v", where 'a = nat] by simp
    with Cons show ?case by simp
  qed
  from this [of "out_iovec e @ in_iovec e"] show ?thesis by (simp add: total_len_def)
qed

lemma push_iovec_inv:
  assumes inv: "walk_inv st fv s" and lt: "el_desc_num (es_elem s) < es_desc_size s"
  shows "walk_inv st fv (push_iovec (es_desc s) s)"
proof -
  let ?e = "es_elem s"
  have n: "unat (el_desc_num ?e) = length (out_iovec ?e) + length (in_iovec ?e)"
    and t: "unat (es_total_len s) = total_len ?e" using inv by (auto simp: walk_inv_def elem_ok_def)
  have "unat (el_desc_num ?e) < 65536" using unsigned_less [of "el_desc_num ?e", where 'a = nat] by simp
  then have "total_len ?e < 65536 * 2 ^ 32"
    using total_len_bound [of ?e] n by simp
  moreover have "unat (d_len (es_desc s)) < 2 ^ 32" using unsigned_less [of "d_len (es_desc s)", where 'a = nat] by simp
  ultimately have "unat (es_total_len s + ucast (d_len (es_desc s))) = total_len ?e + unat (d_len (es_desc s))"
    using t by (subst unat_add_eq) (simp_all add: unat_ucast_len)
  moreover have "iov_ok st fv \<lparr>ei_addr = d_addr (es_desc s), ei_len = d_len (es_desc s)\<rparr>"
    using inv by (simp add: walk_inv_def desc_ok_def iov_ok_def)
  ultimately show ?thesis
    using inv desc_num_Suc [OF lt] by (auto simp: walk_inv_def elem_ok_def push_iovec_def Let_def total_len_def)
qed

text \<open>
  The ways one turn of the loop ends: with a result, in an indirect table, or at the next
  descriptor of the chain.
\<close>

lemma get_element_loop_cases:
  assumes "get_element_loop st fv mem s = (res, c)"
  obtains (fail) e where "res = Inl e" "c = es_cache s"
    | (fail_desc) h q i e where "new_desc st fv mem h q i (es_cache s) = (Inl e, c)" "res = Inl e"
    | (fail_num) h l d' where "get_host_address_from_cache st fv (d_addr (es_desc s)) (es_cache s) = Some (h, l)"
        "new_desc st fv mem h (get_desc_num (es_desc s)) 0 (es_cache s) = (Inr d', c)" "res = Inl VirtioBail"
    | (indirect) h l d' c' ds where "el_desc_num (es_elem s) < es_desc_size s" "is_indirect_desc (es_desc s)"
        "is_valid_indirect_desc (es_desc s)" "\<not> es_indirect s"
        "get_host_address_from_cache st fv (d_addr (es_desc s)) (es_cache s) = Some (h, l)"
        "new_desc st fv mem h (get_desc_num (es_desc s)) 0 (es_cache s) = (Inr d', c')"
        "checked_add (el_desc_num (es_elem s)) (get_desc_num (es_desc s)) = Some ds"
        "get_element_loop st fv mem
           (s\<lparr>es_table_host := h, es_desc_size := ds, es_queue_size := get_desc_num (es_desc s),
              es_desc := d', es_indirect := True, es_cache := c'\<rparr>) = (res, c)"
    | (chain) d' c' where "el_desc_num (es_elem s) < es_desc_size s" "\<not> is_indirect_desc (es_desc s)"
        "write_only (es_desc s) \<or> es_write_count s = 0" "has_next (es_desc s)"
        "new_desc st fv mem (es_table_host s) (es_queue_size s) (d_next (es_desc s)) (es_cache s) = (Inr d', c')"
        "get_element_loop st fv mem ((push_iovec (es_desc s) s)\<lparr>es_desc := d', es_cache := c'\<rparr>) = (res, c)"
    | (last) "el_desc_num (es_elem s) < es_desc_size s" "\<not> is_indirect_desc (es_desc s)"
        "write_only (es_desc s) \<or> es_write_count s = 0" "\<not> has_next (es_desc s)"
        "res = Inr (push_iovec (es_desc s) s)" "c = es_cache s"
proof -
  let ?d = "es_desc s"
  have run: "(let d = es_desc s in
      if el_desc_num (es_elem s) \<ge> es_desc_size s then (Inl VirtioBail, es_cache s)
      else if is_indirect_desc d
      then if \<not> is_valid_indirect_desc d then (Inl QueueDescInvalid, es_cache s)
           else if es_indirect s then (Inl VirtioBail, es_cache s)
           else (case get_host_address_from_cache st fv (d_addr d) (es_cache s) of
                   None \<Rightarrow> (Inl VirtioBail, es_cache s)
                 | Some (hva, _) \<Rightarrow>
                     (case new_desc st fv mem hva (get_desc_num d) 0 (es_cache s) of
                        (Inl e, c) \<Rightarrow> (Inl e, c)
                      | (Inr d', c) \<Rightarrow>
                          (case checked_add (el_desc_num (es_elem s)) (get_desc_num d) of
                             None \<Rightarrow> (Inl VirtioBail, c)
                           | Some ds \<Rightarrow>
                               get_element_loop st fv mem
                                 (s\<lparr>es_table_host := hva, es_desc_size := ds, es_queue_size := get_desc_num d,
                                    es_desc := d', es_indirect := True, es_cache := c\<rparr>))))
      else if \<not> write_only d \<and> es_write_count s > 0 then (Inl VirtioBail, es_cache s)
      else (let s1 = push_iovec d s
            in if has_next d
               then (case new_desc st fv mem (es_table_host s) (es_queue_size s) (d_next d) (es_cache s) of
                       (Inl e, c) \<Rightarrow> (Inl e, c)
                     | (Inr d', c) \<Rightarrow> get_element_loop st fv mem (s1\<lparr>es_desc := d', es_cache := c\<rparr>))
               else (Inr s1, es_cache s))) = (res, c)"
    using assms by (subst (asm) get_element_loop.simps)
  show thesis
  proof (cases "el_desc_num (es_elem s) \<ge> es_desc_size s")
    case True
    then show ?thesis using run by (intro fail [of VirtioBail]) auto
  next
    case lt: False
    show ?thesis
    proof (cases "is_indirect_desc ?d")
      case ind: True
      show ?thesis
      proof (cases "is_valid_indirect_desc ?d \<and> \<not> es_indirect s \<and> get_host_address_from_cache st fv (d_addr ?d) (es_cache s) \<noteq> None")
        case False
        then show ?thesis using run lt ind fail
          by (cases "get_host_address_from_cache st fv (d_addr ?d) (es_cache s)") (auto simp: Let_def split: if_splits)
      next
        case True
        then obtain h l where h: "get_host_address_from_cache st fv (d_addr ?d) (es_cache s) = Some (h, l)" by auto
        obtain r c' where nd: "new_desc st fv mem h (get_desc_num ?d) 0 (es_cache s) = (r, c')" by force
        show ?thesis
        proof (cases r)
          case (Inl e)
          then show ?thesis using run lt ind True h nd fail_desc by simp
        next
          case (Inr d')
          then show ?thesis using run lt ind True h nd fail_num indirect
            by (cases "checked_add (el_desc_num (es_elem s)) (get_desc_num ?d)") (simp_all add: not_le)
        qed
      qed
    next
      case nind: False
      show ?thesis
      proof (cases "\<not> write_only ?d \<and> es_write_count s > 0")
        case True
        then show ?thesis using run lt nind by (intro fail [of VirtioBail]) auto
      next
        case w: False
        then have w': "write_only ?d \<or> es_write_count s = 0" by (auto simp: word_gt_0)
        obtain r c' where nd: "new_desc st fv mem (es_table_host s) (es_queue_size s) (d_next ?d) (es_cache s) = (r, c')" by force
        show ?thesis using run lt nind w w' nd fail_desc chain last
          by (cases "has_next ?d"; cases r) (simp_all add: not_le Let_def)
      qed
    qed
  qed
qed

lemma get_element_loop_inv:
  assumes "fv_ok fv" and "walk_inv st fv s" and "get_element_loop st fv mem s = (res, c)"
  shows "cache_ok st fv c \<and> (\<forall>s'. res = Inr s' \<longrightarrow> walk_inv st fv s')"
  using assms
proof (induction "(if es_indirect s then 0 else 1 :: nat, unat (es_desc_size s) - unat (el_desc_num (es_elem s)))"
    arbitrary: s rule: wf_induct_rule [OF wf_lex_prod [OF wf_less_than wf_less_than]])
  case (1 s)
  have cache: "cache_ok st fv (es_cache s)" using 1 by (simp add: walk_inv_def)
  from "1.prems"(3) show ?case
  proof (cases rule: get_element_loop_cases)
    case fail
    then show ?thesis using cache by simp
  next
    case (fail_desc h q i e)
    then show ?thesis using new_desc_ok [OF assms(1) cache] by blast
  next
    case (fail_num h l d')
    then show ?thesis using new_desc_ok [OF assms(1) cache] by blast
  next
    case (indirect h l d' c' ds)
    have "walk_inv st fv (s\<lparr>es_table_host := h, es_desc_size := ds, es_queue_size := get_desc_num (es_desc s),
              es_desc := d', es_indirect := True, es_cache := c'\<rparr>)"
      using "1.prems"(2) new_desc_ok [OF assms(1) cache indirect(6)] by (simp add: walk_inv_def)
    from "1.hyps" [OF _ assms(1) this indirect(8)] indirect(4) show ?thesis by auto
  next
    case (chain d' c')
    have "walk_inv st fv ((push_iovec (es_desc s) s)\<lparr>es_desc := d', es_cache := c'\<rparr>)"
      using push_iovec_inv [OF "1.prems"(2) chain(1)] new_desc_ok [OF assms(1) cache chain(5)] by (simp add: walk_inv_def)
    from "1.hyps" [OF _ assms(1) this chain(6)] desc_num_Suc [OF chain(1)] chain(1) show ?thesis
      by (auto simp: word_less_nat_alt)
  next
    case last
    then show ?thesis using push_iovec_inv [OF "1.prems"(2)] cache by simp
  qed
qed

lemma get_element_ok:
  assumes ok: "fv_ok fv" and c: "cache_ok st fv cache" and d: "desc_ok st fv d"
    and run: "get_element st fv mem th sz i d cache (new_element 0) = (res, c')"
  shows "cache_ok st fv c' \<and> (\<forall>e. res = Inr e \<longrightarrow> elem_ok st fv e \<and> total_len e \<le> 2 ^ 32)"
proof -
  let ?s = "\<lparr>es_table_host = th, es_desc_size = sz, es_queue_size = sz, es_desc = d, es_indirect = False,
    es_write_count = 0, es_total_len = 0, es_elem = (new_element 0)\<lparr>el_index := i\<rparr>, es_cache = cache\<rparr>"
  have inv: "walk_inv st fv ?s"
    using c d by (simp add: walk_inv_def elem_ok_def new_element_def total_len_def)
  obtain r c1 where loop: "get_element_loop st fv mem ?s = (r, c1)" by force
  note l = get_element_loop_inv [OF ok inv loop]
  show ?thesis
  proof (cases r)
    case (Inl e)
    then show ?thesis using run l loop by (auto simp: get_element_def)
  next
    case (Inr s)
    then have "walk_inv st fv s" using l by simp
    then show ?thesis using run l loop Inr
      by (auto simp: get_element_def walk_inv_def DESC_CHAIN_MAX_TOTAL_LEN_def word_less_nat_alt split: if_splits)
  qed
qed

section \<open>Popping\<close>

text \<open>The descriptor index at the head of the available ring, and the event index that popping publishes.\<close>

definition avail_head :: "split_vring \<Rightarrow> memory \<Rightarrow> u16" where
  "avail_head sv mem = from_le (load mem (avail_ring_host (hosts sv) +
     (VRING_FLAGS_AND_IDX_LEN + AVAILELEM_LEN * ucast (next_avail sv mod actual_size sv))) 2)"

definition publish_event :: "u64 \<Rightarrow> split_vring \<Rightarrow> 'd machine \<Rightarrow> (as_error + unit) \<times> 'd machine" where
  "publish_event features sv m =
     (if virtio_has_feature features VIRTIO_F_RING_EVENT_IDX then set_avail_event sv (next_avail sv + 1) m else (Inr (), m))"

lemma pop_avail_empty:
  "\<not> q_ready sv \<or> avail_ring_len m sv = 0 \<Longrightarrow> pop_avail st fv features (sv, m) = (Inr (new_element 0), sv, m)"
  by (auto simp: pop_avail_def)

lemma actual_size_cache [simp]: "actual_size (sv\<lparr>vr_cache := c\<rparr>) = actual_size sv"
  by (simp add: actual_size_def)

lemma set_avail_event_cache [simp]: "set_avail_event (sv\<lparr>vr_cache := c\<rparr>) = set_avail_event sv"
  by (simp add: set_avail_event_def fun_eq_iff)

lemma pop_avail_run:
  assumes "q_ready sv" and "avail_ring_len m sv \<noteq> 0" and "actual_size sv \<noteq> 0"
  shows "pop_avail st fv features (sv, m) =
    (case new_desc st fv (ms_mem m) (desc_table_host (hosts sv)) (actual_size sv) (avail_head sv (ms_mem m)) (vr_cache sv) of
       (Inl e, c) \<Rightarrow> (Inl e, sv\<lparr>vr_cache := c\<rparr>, m)
     | (Inr d, c) \<Rightarrow>
         (case publish_event features sv m of
            (Inl e, m1) \<Rightarrow> (Inl (virtio_error_of e), sv\<lparr>vr_cache := c\<rparr>, m1)
          | (Inr _, m1) \<Rightarrow>
              (case get_element st fv (ms_mem m1) (desc_table_host (hosts sv)) (actual_size sv) (avail_head sv (ms_mem m)) d c (new_element 0) of
                 (Inl e, c') \<Rightarrow> (Inl e, sv\<lparr>vr_cache := c'\<rparr>, m1)
               | (Inr el, c') \<Rightarrow> (Inr el, sv\<lparr>vr_cache := c', next_avail := next_avail sv + 1\<rparr>, m1))))"
proof -
  let ?nd = "new_desc st fv (ms_mem m) (desc_table_host (hosts sv)) (actual_size sv) (avail_head sv (ms_mem m)) (vr_cache sv)"
  obtain r c where nd: "?nd = (r, c)" by force
  obtain r2 m1 where p: "publish_event features sv m = (r2, m1)" by force
  have "pop_avail st fv features (sv, m) = get_vring_element st fv features (new_element 0) (sv, m)"
    using assms by (simp add: pop_avail_def)
  also have "\<dots> = (case r of Inl e \<Rightarrow> (Inl e, sv\<lparr>vr_cache := c\<rparr>, m)
     | Inr d \<Rightarrow> (case publish_event features sv m of
            (Inl e, m1) \<Rightarrow> (Inl (virtio_error_of e), sv\<lparr>vr_cache := c\<rparr>, m1)
          | (Inr _, m1) \<Rightarrow>
              (case get_element st fv (ms_mem m1) (desc_table_host (hosts sv)) (actual_size sv) (avail_head sv (ms_mem m)) d c (new_element 0) of
                 (Inl e, c') \<Rightarrow> (Inl e, sv\<lparr>vr_cache := c'\<rparr>, m1)
               | (Inr el, c') \<Rightarrow> (Inr el, sv\<lparr>vr_cache := c', next_avail := next_avail sv + 1\<rparr>, m1))))"
    using assms(3) nd p unfolding publish_event_def
    by (cases r; cases r2; cases "virtio_has_feature features VIRTIO_F_RING_EVENT_IDX")
      (simp_all add: get_vring_element_def read_object_direct_def Let_def flip: avail_head_def split: prod.split sum.split)
  finally show ?thesis using nd by (cases r) simp_all
qed

text \<open>
  C2. Whatever descriptors the guest wrote, direct, chained or indirect: popping an element
  returns (the walk ends), and every buffer of the element is non-empty and lies in one
  piece in guest RAM, the descriptor count is the number of buffers, and the buffers are no
  longer than 4 GiB together. The region cache stays valid, also when popping fails.
\<close>

theorem pop_avail_safe:
  assumes ok: "fv_ok fv" and c: "cache_ok st fv (vr_cache sv)"
    and run: "pop_avail st fv features (sv, m) = (res, sv', m')"
  shows "cache_ok st fv (vr_cache sv') \<and>
    (\<forall>e. res = Inr e \<longrightarrow>
       (\<forall>v \<in> set (out_iovec e @ in_iovec e). ei_len v \<noteq> 0 \<and> in_ram st fv (ei_addr v) (unat (ei_len v))) \<and>
       unat (el_desc_num e) = length (out_iovec e) + length (in_iovec e) \<and>
       sum_list (map (\<lambda>v. unat (ei_len v)) (out_iovec e @ in_iovec e)) \<le> 2 ^ 32)"
proof (cases "\<not> q_ready sv \<or> avail_ring_len m sv = 0 \<or> actual_size sv = 0")
  case True
  then show ?thesis using run c by (auto simp: pop_avail_def get_vring_element_def new_element_def split: if_splits)
next
  case False
  let ?i = "avail_head sv (ms_mem m)" and ?t = "desc_table_host (hosts sv)" and ?n = "actual_size sv"
  obtain r c1 where nd: "new_desc st fv (ms_mem m) ?t ?n ?i (vr_cache sv) = (r, c1)" by force
  obtain r2 m1 where ev: "publish_event features sv m = (r2, m1)" by force
  note n = new_desc_ok [OF ok c nd] and pop = pop_avail_run [of sv m st fv features]
  show ?thesis
  proof (cases r)
    case (Inl e)
    then show ?thesis using run False nd n pop by auto
  next
    case (Inr d)
    obtain r3 c2 where g: "get_element st fv (ms_mem m1) ?t ?n ?i d c1 (new_element 0) = (r3, c2)" by force
    have d: "desc_ok st fv d" "cache_ok st fv c1" using n Inr by auto
    show ?thesis using get_element_ok [OF ok d(2,1) g] run False nd Inr pop d(2) ev g
      by (cases r2; cases r3) (auto simp: elem_ok_def iov_ok_def total_len_def)
  qed
qed

theorem pop_avail_safe_witness:
  "\<exists>e sv m. pop_avail demo_store demo_view 0 (demo_vring, demo_machine) = (Inr e, sv, m) \<and>
     el_desc_num e = 2 \<and> in_ram demo_store demo_view 0x800 16 \<and> cache_ok demo_store demo_view (vr_cache sv)"
proof -
  have "fv_ok demo_view" using demo_view_inv by (simp add: fv_inv_def)
  moreover have "cache_ok demo_store demo_view (vr_cache demo_vring)" by (simp add: demo_vring_def)
  ultimately show ?thesis using pop_avail_safe [OF _ _ demo_pop] demo_pop by simp
qed

end
