(* ===== verification/VringRam.thy ===== *)
theory VringRam
  imports VringSafety
begin

text \<open>
  The walk over a descriptor chain reads guest RAM only: two memories that agree on guest RAM
  give the same element, so nothing of the device's own memory can reach the guest through
  a forged descriptor table.
\<close>

definition guest_ram :: "'d store \<Rightarrow> flat_view \<Rightarrow> u64 set" where
  "guest_ram st fv = {h. \<exists>x. in_ram st fv x 1 \<and> get_host_address st fv x = Some h}"

definition agree_on :: "u64 set \<Rightarrow> memory \<Rightarrow> memory \<Rightarrow> bool" where
  "agree_on R mem mem' = (\<forall>h \<in> R. mem h = mem' h)"

text \<open>The \<open>n\<close> bytes at host address \<open>h\<close> are guest RAM.\<close>

definition host_ram :: "'d store \<Rightarrow> flat_view \<Rightarrow> u64 \<Rightarrow> nat \<Rightarrow> bool" where
  "host_ram st fv h n = (\<forall>i < n. h + of_nat i \<in> guest_ram st fv)"

text \<open>Host-backed regions have a mapping, as their constructors guarantee.\<close>

definition mapped :: "'d store \<Rightarrow> bool" where
  "mapped st = (\<forall>r. host_backed (r_type (st r)) \<longrightarrow> mem_mapping (st r) \<noteq> None)"

lemma load_agree:
  assumes "agree_on (guest_ram st fv) mem mem'" and "host_ram st fv h n" and "k + l \<le> n"
  shows "load mem (h + of_nat k) l = load mem' (h + of_nat k) l"
proof (rule load_cong)
  fix i assume "i < l"
  with assms(3) have "k + i < n" by simp
  with assms(2) have "h + of_nat (k + i) \<in> guest_ram st fv" unfolding host_ram_def by blast
  with assms(1) show "mem (h + of_nat k + of_nat i) = mem' (h + of_nat k + of_nat i)"
    by (simp add: agree_on_def add.assoc)
qed

lemma new_desc_agree:
  assumes "agree_on (guest_ram st fv) mem mem'" and "host_ram st fv h (16 * unat q)"
  shows "new_desc st fv mem h q i c = new_desc st fv mem' h q i c"
proof (cases "i \<ge> q")
  case True
  then show ?thesis by (simp add: new_desc_def)
next
  case False
  have "(ucast i :: u64) * DESCRIPTOR_LEN = of_nat (16 * unat i)"
    by (simp add: DESCRIPTOR_LEN_def)
  moreover have "16 * unat i + 16 \<le> 16 * unat q" using False by (simp add: word_le_nat_alt)
  ultimately show ?thesis using load_agree [OF assms, of "16 * unat i" 16]
    by (auto simp: new_desc_def checked_add_def)
qed

lemma in_ram_prefix: "in_ram st fv x n \<Longrightarrow> i < n \<Longrightarrow> fv_ok fv \<Longrightarrow> in_ram st fv (x + of_nat i) 1"
  unfolding in_ram_def
proof (elim bexE conjE)
  fix fr assume fr: "fr \<in> set fv" "r_type (st (fr_owner fr)) = Ram" "covers fr x" "unat x + n \<le> fr_hi fr"
    and i: "i < n" and ok: "fv_ok fv"
  have "unat x + i < 2 ^ 64" using fr i fv_ok_mem [OF ok fr(1)] by (simp add: fr_ok_def)
  then have "unat (x + of_nat i) = unat x + i" by (rule unat_plus_of_nat)
  then show "\<exists>fr \<in> set fv. r_type (st (fr_owner fr)) = Ram \<and> covers fr (x + of_nat i) \<and> unat (x + of_nat i) + 1 \<le> fr_hi fr"
    using fr i by (intro bexI [of _ fr]) (auto simp: covers_unat)
qed

lemma in_ram_host:
  assumes inv: "fv_inv st fv" and ram: "in_ram st fv x n" and a: "addr_cache_init st fv x = Some (h, l)"
  shows "host_ram st fv h n"
proof -
  have ok: "fv_ok fv" using inv by (simp add: fv_inv_def)
  obtain fr where fr: "fr \<in> set fv" "covers fr x" "unat x + n \<le> fr_hi fr" using ram by (auto simp: in_ram_def)
  have f: "find_flatrange fv x = Some fr" using find_covers_unique [OF ok fr(1,2)] ok by (simp add: find_flatrange_find)
  have frin: "fr_in st fr" using inv fr(1) by (simp add: fv_inv_def)
  have "unat l = fr_hi fr - unat x"
    using a f remaining_unat [OF frin fr(2)] by (auto simp: addr_cache_init_def Let_def offset_from_def)
  then have "n \<le> unat l" using fr(3) by simp
  then have "get_host_address st fv (x + of_nat i) = Some (h + of_nat i)" if "i < n" for i
    using addr_cache_init_Some [OF inv a] that by simp
  then show ?thesis unfolding host_ram_def guest_ram_def
    using in_ram_prefix [OF ram _ ok] by blast
qed

lemma cache_lookup:
  assumes inv: "fv_inv st fv" and c: "cache_ok st fv cache" and m: "mapped st"
  shows "get_host_address_from_cache st fv x cache = addr_cache_init st fv x"
proof (cases cache)
  case None
  then show ?thesis by (simp add: get_host_address_from_cache_def)
next
  case (Some rc)
  obtain a where a: "get_region_cache st fv a = Some rc" and ty: "rc_reg_type rc = Ram"
    using c Some by (auto simp: cache_ok_def)
  have "host_backed (rc_reg_type rc)" by (simp add: ty host_backed_def)
  moreover have "\<And>r. host_backed (r_type (st r)) \<Longrightarrow> mem_mapping (st r) \<noteq> None" using m by (auto simp: mapped_def)
  ultimately show ?thesis unfolding Some by (rule region_cache_lookup [OF inv a])
qed

lemma indirect_bytes: "is_valid_indirect_desc d \<Longrightarrow> 16 * unat (get_desc_num d) = unat (d_len d)"
proof -
  assume v: "is_valid_indirect_desc d"
  let ?l = "ucast (d_len d) :: u64"
  have "unat ?l mod 16 = 0" "unat ?l div 16 \<le> 0xFFFF"
    using v by (auto simp: is_valid_indirect_desc_def DESCRIPTOR_LEN_def word_eq_unat unat_mod_eq unat_div_eq
        word_less_nat_alt not_less split: if_splits)
  moreover have "unat (get_desc_num d) = take_bit 16 (unat ?l div 16)"
    by (simp add: get_desc_num_def unsigned_ucast_eq DESCRIPTOR_LEN_def unat_div_eq)
  ultimately show ?thesis by (simp add: take_bit_nat_eq_self unat_ucast_len) presburger
qed

definition tables_ok :: "'d store \<Rightarrow> flat_view \<Rightarrow> elem_state \<Rightarrow> bool" where
  "tables_ok st fv s = host_ram st fv (es_table_host s) (16 * unat (es_queue_size s))"

lemma get_element_loop_agree:
  assumes inv: "fv_inv st fv" and m: "mapped st" and agree: "agree_on (guest_ram st fv) mem mem'"
    and "walk_inv st fv s" and "tables_ok st fv s"
  shows "get_element_loop st fv mem s = get_element_loop st fv mem' s"
  using assms(4,5)
proof (induction "(if es_indirect s then 0 else 1 :: nat, unat (es_desc_size s) - unat (el_desc_num (es_elem s)))"
    arbitrary: s rule: wf_induct_rule [OF wf_lex_prod [OF wf_less_than wf_less_than]])
  case (1 s)
  let ?d = "es_desc s"
  have ok: "fv_ok fv" using inv by (simp add: fv_inv_def)
  have cache: "cache_ok st fv (es_cache s)" and dok: "desc_ok st fv ?d" using "1.prems"(1) by (simp_all add: walk_inv_def)
  note unf = get_element_loop.simps [of st fv mem s] get_element_loop.simps [of st fv mem' s]
  have chain_eq: "new_desc st fv mem (es_table_host s) (es_queue_size s) i (es_cache s) =
      new_desc st fv mem' (es_table_host s) (es_queue_size s) i (es_cache s)" for i
    using new_desc_agree [OF agree] "1.prems"(2) by (simp add: tables_ok_def)
  have tab: "host_ram st fv h (16 * unat (get_desc_num ?d))"
    if "is_valid_indirect_desc ?d" "get_host_address_from_cache st fv (d_addr ?d) (es_cache s) = Some (h, l)" for h l
    using in_ram_host [OF inv, of "d_addr ?d" "unat (d_len ?d)" h l] dok that(2)
    unfolding indirect_bytes [OF that(1)] cache_lookup [OF inv cache m] desc_ok_def by simp
  show ?case
  proof (cases "is_indirect_desc ?d")
    case ind: True
    show ?thesis
    proof (cases "is_valid_indirect_desc ?d \<and> \<not> es_indirect s \<and> get_host_address_from_cache st fv (d_addr ?d) (es_cache s) \<noteq> None")
      case False
      then show ?thesis using ind unfolding unf
        by (cases "get_host_address_from_cache st fv (d_addr ?d) (es_cache s)") (auto simp: Let_def)
    next
      case True
      then obtain h l where h: "get_host_address_from_cache st fv (d_addr ?d) (es_cache s) = Some (h, l)" by auto
      note eq = new_desc_agree [OF agree tab [OF _ h], of 0 "es_cache s"]
      have rec: "get_element_loop st fv mem (s\<lparr>es_table_host := h, es_desc_size := ds, es_queue_size := get_desc_num ?d,
              es_desc := d', es_indirect := True, es_cache := c'\<rparr>) =
          get_element_loop st fv mem' (s\<lparr>es_table_host := h, es_desc_size := ds, es_queue_size := get_desc_num ?d,
              es_desc := d', es_indirect := True, es_cache := c'\<rparr>)"
        if "new_desc st fv mem' h (get_desc_num ?d) 0 (es_cache s) = (Inr d', c')" for d' c' ds
        using True "1.prems"(1) new_desc_ok [OF ok cache that] tab [OF _ h]
        by (intro "1.hyps") (simp_all add: walk_inv_def tables_ok_def)
      obtain r c' where nd: "new_desc st fv mem' h (get_desc_num ?d) 0 (es_cache s) = (r, c')" by force
      show ?thesis using ind True h eq nd rec unfolding unf
        by (cases r; cases "checked_add (el_desc_num (es_elem s)) (get_desc_num ?d)") (simp_all add: Let_def)
    qed
  next
    case nind: False
    obtain r c' where nd: "new_desc st fv mem' (es_table_host s) (es_queue_size s) (d_next ?d) (es_cache s) = (r, c')" by force
    have rec: "get_element_loop st fv mem ((push_iovec ?d s)\<lparr>es_desc := d', es_cache := c'\<rparr>) =
        get_element_loop st fv mem' ((push_iovec ?d s)\<lparr>es_desc := d', es_cache := c'\<rparr>)"
      if lt: "el_desc_num (es_elem s) < es_desc_size s" and "r = Inr d'" for d'
    proof -
      have w: "walk_inv st fv ((push_iovec ?d s)\<lparr>es_desc := d', es_cache := c'\<rparr>)"
        using push_iovec_inv [OF "1.prems"(1) lt] new_desc_ok [OF ok cache nd] that(2) by (simp add: walk_inv_def)
      have t: "tables_ok st fv ((push_iovec ?d s)\<lparr>es_desc := d', es_cache := c'\<rparr>)"
        using "1.prems"(2) by (simp add: tables_ok_def)
      from "1.hyps" [OF _ w t] desc_num_Suc [OF lt] lt show ?thesis by (auto simp: word_less_nat_alt)
    qed
    show ?thesis using nind nd rec chain_eq [of "d_next ?d"] unfolding unf
      by (cases r; cases "el_desc_num (es_elem s) < es_desc_size s") (simp_all add: Let_def not_less)
  qed
qed

end
