(* ===== verification/VringConfig.thy ===== *)
theory VringConfig
  imports VringRam
begin

text \<open>
  What the validity check of a virtqueue establishes, and what follows for the rings behind the
  cached host addresses: a queue that passed the check is served from guest RAM only.
\<close>

section \<open>Powers of two and alignment\<close>

lemma pow2_nat: "0 < (n :: nat) \<Longrightarrow> and n (n - 1) = 0 \<longleftrightarrow> (\<exists>k. n = 2 ^ k)"
proof (induction n rule: less_induct)
  case (less n)
  show ?case
  proof (cases "even n")
    case True
    then obtain j where j: "n = 2 * j" by (rule evenE)
    with less.prems have pos: "0 < j" by simp
    then have "n - 1 = 1 + 2 * (j - 1)" using j by simp
    then have "and n (n - 1) = 2 * and j (j - 1)" unfolding j
      by (subst and_rec) simp
    moreover have "(\<exists>k. n = 2 ^ k) \<longleftrightarrow> (\<exists>k. j = 2 ^ k)"
    proof
      assume "\<exists>k. n = 2 ^ k"
      then obtain k where k: "n = 2 ^ k" by blast
      with True have "k \<noteq> 0" by (cases k) auto
      then show "\<exists>k. j = 2 ^ k" using k j by (intro exI [of _ "k - 1"]) (cases k; simp)
    next
      assume "\<exists>k. j = 2 ^ k"
      then show "\<exists>k. n = 2 ^ k" using j by (metis power_Suc)
    qed
    ultimately show ?thesis using less.IH [of j] pos j by simp
  next
    case False
    then obtain j where j: "n = 2 * j + 1" by (rule oddE)
    then have "and n (n - 1) = 2 * j" unfolding j by (subst and_rec) simp
    moreover have "(\<exists>k. n = 2 ^ k) \<longleftrightarrow> n = 1"
    proof
      assume "\<exists>k. n = 2 ^ k"
      then obtain k where k: "n = 2 ^ k" by blast
      with False show "n = 1" by (cases k) auto
    qed (auto intro: exI [of _ 0])
    ultimately show ?thesis using j by simp
  qed
qed

lemma pow2_word:
  fixes x :: "'a :: len word"
  assumes "x \<noteq> 0"
  shows "and x (x - 1) = 0 \<longleftrightarrow> (\<exists>k. unat x = 2 ^ k)"
proof -
  have "1 \<le> x" using assms by (simp add: word_le_nat_alt unat_gt_0 Suc_le_eq)
  then have "unat (x - 1) = unat x - 1" by (simp add: unat_sub)
  then have "unat (and x (x - 1)) = and (unat x) (unat x - 1)" by (simp add: unsigned_and_eq)
  moreover have "and x (x - 1) = 0 \<longleftrightarrow> unat (and x (x - 1)) = 0" by (simp only: unat_eq_0)
  ultimately show ?thesis using pow2_nat [of "unat x"] assms by (simp add: unat_gt_0)
qed

lemma aligned_word: "and (x :: u64) (mask k) = 0 \<longleftrightarrow> 2 ^ k dvd unat x"
proof -
  have "unat (and x (mask k)) = unat x mod 2 ^ k"
    by (simp only: flip: take_bit_eq_mask) (simp only: unsigned_take_bit_eq take_bit_eq_mod [where 'a = nat])
  then show ?thesis by (metis dvd_eq_mod_eq_0 unat_eq_0)
qed

lemma low_masks: "(0xf :: u64) = mask 4" "(1 :: u64) = mask 1" "(3 :: u64) = mask 2"
  by (simp_all add: mask_eq_exp_minus_1)

section \<open>The validity check\<close>

definition apart :: "guest_address \<Rightarrow> nat \<Rightarrow> guest_address \<Rightarrow> nat \<Rightarrow> bool" where
  "apart x n y k = (unat x + n \<le> unat y \<or> unat y + k \<le> unat x)"

text \<open>What the virtio specification asks of the placement of the three areas.\<close>

definition areas_ok :: "'d store \<Rightarrow> flat_view \<Rightarrow> split_vring \<Rightarrow> nat \<Rightarrow> bool" where
  "areas_ok st fv sv n =
     (in_ram st fv (desc_table sv) (16 * n) \<and> in_ram st fv (avail_ring sv) (6 + 2 * n) \<and>
      in_ram st fv (used_ring sv) (6 + 8 * n) \<and>
      apart (desc_table sv) (16 * n) (avail_ring sv) (6 + 2 * n) \<and>
      apart (avail_ring sv) (6 + 2 * n) (used_ring sv) (6 + 8 * n) \<and>
      apart (desc_table sv) (16 * n) (used_ring sv) (6 + 8 * n) \<and>
      16 dvd unat (desc_table sv) \<and> 2 dvd unat (avail_ring sv) \<and> 4 dvd unat (used_ring sv))"

lemma in_ram_end: "fv_ok fv \<Longrightarrow> in_ram st fv x n \<Longrightarrow> unat x + n < 2 ^ 64"
  using fv_ok_mem by (fastforce simp: in_ram_def fr_ok_def)

lemma unat_end:
  assumes "fv_ok fv" and "in_ram st fv x (unat l)"
  shows "unat (unchecked_add x l) = unat x + unat l"
  using in_ram_end [OF assms] by (simp add: unchecked_add_def unat_add_eq)

lemma overlap_apart:
  assumes ok: "fv_ok fv" and "in_ram st fv x (unat l)" and "in_ram st fv y (unat k)"
  shows "\<not> is_overlap x (unchecked_add x l) y (unchecked_add y k) \<longleftrightarrow> apart x (unat l) y (unat k)"
  using unat_end [OF ok assms(2)] unat_end [OF ok assms(3)]
  by (auto simp: is_overlap_def apart_def word_le_nat_alt)

lemma unat_affine:
  fixes a b :: u64 and n :: u16
  assumes "unat a + unat b * 65536 < 2 ^ 64"
  shows "unat (a + b * ucast n) = unat a + unat b * unat n"
proof -
  have "unat n \<le> 65536" using unsigned_less [of n, where 'a = nat] by simp
  then have "unat a + unat b * unat n < 2 ^ 64"
    using assms mult_le_mono2 [of "unat n" 65536 "unat b"] by linarith
  moreover have "a + b * ucast n = (of_nat (unat a + unat b * unat n) :: u64)" by simp
  ultimately show ?thesis by (simp only: unat_of_nat) (simp add: take_bit_nat_eq_self)
qed

lemmas unat_affines = unat_affine [of 0 16] unat_affine [of 4 2] unat_affine [of 6 2] unat_affine [of 4 8] unat_affine [of 6 8]

lemma area_sizes:
  fixes n :: u16
  shows "unat (DESCRIPTOR_LEN * ucast n) = 16 * unat n"
    "unat (VRING_AVAIL_LEN_EXCEPT_AVAILELEM + AVAILELEM_LEN * ucast n) = 6 + 2 * unat n"
    "unat (VRING_USED_LEN_EXCEPT_USEDELEM + USEDELEM_LEN * ucast n) = 6 + 8 * unat n"
  using unat_affines [of n] by (simp_all add: vring_consts)

lemma is_invalid_memory_iff:
  assumes ok: "fv_ok fv"
  shows "\<not> is_invalid_memory st fv sv (ucast (n :: u16)) \<longleftrightarrow> areas_ok st fv sv (unat n)"
proof -
  let ?d = "DESCRIPTOR_LEN * ucast n :: u64"
  let ?a = "VRING_AVAIL_LEN_EXCEPT_AVAILELEM + AVAILELEM_LEN * ucast n :: u64"
  let ?u = "VRING_USED_LEN_EXCEPT_USEDELEM + USEDELEM_LEN * ucast n :: u64"
  have ck: "checked_offset_mem st fv x l = (if in_ram st fv x (unat l) then Inr (unchecked_add x l) else Inl VirtioBail)" for x l
    by (simp add: checked_offset_mem_def address_in_memory_iff [OF ok])
  show ?thesis
  proof (cases "in_ram st fv (desc_table sv) (unat ?d) \<and> in_ram st fv (avail_ring sv) (unat ?a) \<and> in_ram st fv (used_ring sv) (unat ?u)")
    case True
    then have ov:
      "is_overlap (desc_table sv) (unchecked_add (desc_table sv) ?d) (avail_ring sv) (unchecked_add (avail_ring sv) ?a) =
        (\<not> apart (desc_table sv) (unat ?d) (avail_ring sv) (unat ?a))"
      "is_overlap (avail_ring sv) (unchecked_add (avail_ring sv) ?a) (used_ring sv) (unchecked_add (used_ring sv) ?u) =
        (\<not> apart (avail_ring sv) (unat ?a) (used_ring sv) (unat ?u))"
      "is_overlap (desc_table sv) (unchecked_add (desc_table sv) ?d) (used_ring sv) (unchecked_add (used_ring sv) ?u) =
        (\<not> apart (desc_table sv) (unat ?d) (used_ring sv) (unat ?u))"
      using overlap_apart [OF ok] by blast+
    show ?thesis using True unfolding is_invalid_memory_def ck areas_ok_def low_masks aligned_word
      by (simp add: ov) (auto simp: area_sizes)
  next
    case False
    then show ?thesis unfolding is_invalid_memory_def ck areas_ok_def area_sizes by auto
  qed
qed

lemma vring_is_valid_iff:
  assumes ok: "fv_ok fv"
  shows "vring_is_valid st fv sv \<longleftrightarrow>
    q_ready sv \<and> q_size sv \<le> max_size sv \<and> (\<exists>k. unat (q_size sv) = 2 ^ k) \<and> areas_ok st fv sv (unat (q_size sv))"
proof (cases "q_size sv \<le> max_size sv \<and> q_size sv \<noteq> 0")
  case True
  then have "actual_size sv = q_size sv" by (simp add: actual_size_def min_def)
  with True show ?thesis using pow2_word [of "q_size sv"]
    by (auto simp: vring_is_valid_def is_invalid_memory_iff [OF ok, symmetric])
next
  case False
  then show ?thesis by (auto simp: vring_is_valid_def)
qed

text \<open>
  C32. The validity check accepts exactly the queues that are ready, have a power of two of
  at most the device's maximum as their size, and whose three areas lie in guest RAM (with
  the event fields), do not overlap and are aligned as the virtio specification asks.
\<close>

theorem vring_is_valid_spec:
  assumes "fv_ok fv"
  shows "vring_is_valid st fv sv \<longleftrightarrow>
    q_ready sv \<and> q_size sv \<le> max_size sv \<and> (\<exists>k. unat (q_size sv) = 2 ^ k) \<and> areas_ok st fv sv (unat (q_size sv))"
  using assms by (rule vring_is_valid_iff)

section \<open>The rings behind the cached host addresses\<close>

text \<open>The host addresses are those \<open>set_addr_cache\<close> takes for this configuration.\<close>

definition hosts_set :: "'d store \<Rightarrow> flat_view \<Rightarrow> u64 \<Rightarrow> split_vring \<Rightarrow> bool" where
  "hosts_set st fv features sv =
     (q_addr_cache sv =
        q_addr_cache (fst (set_addr_cache st fv features (queue_config.truncate sv, \<lparr>va_broken = False, va_interrupts = 0\<rparr>))))"

lemma in_ram_addr_cache:
  assumes inv: "fv_inv st fv" and m: "mapped st" and ram: "in_ram st fv x n"
  obtains h l where "addr_cache_init st fv x = Some (h, l)" "n \<le> unat l" "host_ram st fv h n"
proof -
  have ok: "fv_ok fv" using inv by (simp add: fv_inv_def)
  obtain fr where fr: "fr \<in> set fv" "covers fr x" "unat x + n \<le> fr_hi fr" and ty: "r_type (st (fr_owner fr)) = Ram"
    using ram by (auto simp: in_ram_def)
  have f: "find_flatrange fv x = Some fr" using find_covers_unique [OF ok fr(1,2)] ok by (simp add: find_flatrange_find)
  have frin: "fr_in st fr" using inv fr(1) by (simp add: fv_inv_def)
  obtain hm where "mem_mapping (st (fr_owner fr)) = Some hm" using m ty by (auto simp: mapped_def host_backed_def)
  then obtain h l where a: "addr_cache_init st fv x = Some (h, l)"
    using f ty by (auto simp: addr_cache_init_def region_host_address_def host_backed_def Let_def)
  have "unat l = fr_hi fr - unat x"
    using a f remaining_unat [OF frin fr(2)] by (auto simp: addr_cache_init_def Let_def offset_from_def)
  then show ?thesis using that [OF a _ in_ram_host [OF inv ram a]] fr(3) by simp
qed

lemma cache_host_ram:
  assumes "fv_inv st fv" and "mapped st" and "in_ram st fv x n" and "unat need \<le> n"
  shows "\<exists>h. cache_host (addr_cache_init st fv x) need features a = (h, a) \<and> host_ram st fv h n"
proof -
  obtain h l where "addr_cache_init st fv x = Some (h, l)" "n \<le> unat l" "host_ram st fv h n"
    using in_ram_addr_cache [OF assms(1-3)] .
  then show ?thesis using assms(4) by (auto simp: cache_host_def word_less_nat_alt)
qed

lemma ring_sizes:
  fixes q :: queue_config
  shows "unat (get_desc_size q) \<le> 16 * unat (actual_size q)"
    "unat (get_avail_size q features) \<le> 6 + 2 * unat (actual_size q)"
    "unat (get_used_size q features) \<le> 6 + 8 * unat (actual_size q)"
  using unat_affines [of "actual_size q"]
  by (simp_all add: get_desc_size_def get_avail_size_def get_used_size_def vring_consts mult.commute)

lemma hosts_set_ram:
  assumes inv: "fv_inv st fv" and m: "mapped st" and v: "vring_is_valid st fv sv" and h: "hosts_set st fv features sv"
  shows "host_ram st fv (desc_table_host (hosts sv)) (16 * unat (actual_size sv))"
    "host_ram st fv (avail_ring_host (hosts sv)) (6 + 2 * unat (actual_size sv))"
    "host_ram st fv (used_ring_host (hosts sv)) (6 + 8 * unat (actual_size sv))"
proof -
  let ?q = "queue_config.truncate sv" and ?n = "unat (actual_size sv)"
  let ?a = "\<lparr>va_broken = False, va_interrupts = 0\<rparr>"
  have ok: "fv_ok fv" using inv by (simp add: fv_inv_def)
  have as: "actual_size ?q = actual_size sv" by (simp add: actual_size_def queue_config.defs)
  have "actual_size sv = q_size sv" using v vring_is_valid_iff [OF ok, of st sv] by (simp add: actual_size_def min_def)
  then have ar: "areas_ok st fv sv ?n" using v vring_is_valid_iff [OF ok, of st sv] by simp
  note c = cache_host_ram [OF inv m]
  obtain dh ah uh where
    "cache_host (addr_cache_init st fv (desc_table sv)) (get_desc_size ?q) features ?a = (dh, ?a)" "host_ram st fv dh (16 * ?n)"
    "cache_host (addr_cache_init st fv (avail_ring sv)) (get_avail_size ?q features) features ?a = (ah, ?a)" "host_ram st fv ah (6 + 2 * ?n)"
    "cache_host (addr_cache_init st fv (used_ring sv)) (get_used_size ?q features) features ?a = (uh, ?a)" "host_ram st fv uh (6 + 8 * ?n)"
    using c [of "desc_table sv" "16 * ?n" "get_desc_size ?q" features ?a]
      c [of "avail_ring sv" "6 + 2 * ?n" "get_avail_size ?q features" features ?a]
      c [of "used_ring sv" "6 + 8 * ?n" "get_used_size ?q features" features ?a]
      ar ring_sizes [of ?q] unfolding areas_ok_def as by blast
  then show "host_ram st fv (desc_table_host (hosts sv)) (16 * ?n)"
    "host_ram st fv (avail_ring_host (hosts sv)) (6 + 2 * ?n)"
    "host_ram st fv (used_ring_host (hosts sv)) (6 + 8 * ?n)"
    using h by (simp_all add: hosts_set_def set_addr_cache_def queue_config.defs)
qed

section \<open>Popping depends on guest RAM only\<close>

lemma agree_store: "agree_on R mem mem' \<Longrightarrow> agree_on R (store mem a bs) (store mem' a bs)"
  by (simp add: agree_on_def store_def)

lemma publish_event_agree:
  assumes "agree_on R (ms_mem m) mem'"
  obtains r m1 mem1 where "publish_event features sv m = (r, m1)"
    "publish_event features sv (m\<lparr>ms_mem := mem'\<rparr>) = (r, m1\<lparr>ms_mem := mem1\<rparr>)" "agree_on R (ms_mem m1) mem1"
proof (cases "virtio_has_feature features VIRTIO_F_RING_EVENT_IDX")
  case True
  let ?h = "used_ring_host (hosts sv) + (VRING_FLAGS_AND_IDX_LEN + USEDELEM_LEN * ucast (actual_size sv))"
    and ?bs = "to_le 2 (next_avail sv + 1)"
  show ?thesis
  proof (cases "mark_dirty_log ?h (of_nat (length ?bs)) (ms_mm m)")
    case (Inl p)
    then show ?thesis using that [of "Inl (EPanic p)" m mem'] assms True
      by (simp add: publish_event_def set_avail_event_def write_object_direct_def Let_def)
  next
    case (Inr mg)
    then show ?thesis
      using that [of "Inr ()" "m\<lparr>ms_mm := mg, ms_mem := store (ms_mem m) ?h ?bs\<rparr>" "store mem' ?h ?bs"] agree_store [OF assms, of ?h ?bs] True
      by (simp add: publish_event_def set_avail_event_def write_object_direct_def Let_def)
  qed
next
  case False
  then show ?thesis using that [of "Inr ()" m mem'] assms by (simp add: publish_event_def)
qed

lemma get_element_agree:
  assumes "fv_inv st fv" and "mapped st" and "agree_on (guest_ram st fv) mem mem'"
    and "host_ram st fv th (16 * unat sz)" and "cache_ok st fv c" and "desc_ok st fv d"
  shows "get_element st fv mem th sz i d c (new_element 0) = get_element st fv mem' th sz i d c (new_element 0)"
proof -
  let ?s = "\<lparr>es_table_host = th, es_desc_size = sz, es_queue_size = sz, es_desc = d, es_indirect = False,
    es_write_count = 0, es_total_len = 0, es_elem = (new_element 0)\<lparr>el_index := i\<rparr>, es_cache = c\<rparr>"
  have "walk_inv st fv ?s" using assms(5,6) by (simp add: walk_inv_def elem_ok_def new_element_def total_len_def)
  moreover have "tables_ok st fv ?s" using assms(4) by (simp add: tables_ok_def)
  ultimately have "get_element_loop st fv mem ?s = get_element_loop st fv mem' ?s"
    by (rule get_element_loop_agree [OF assms(1-3)])
  then show ?thesis by (simp add: get_element_def)
qed

text \<open>The two fields of the available ring that popping reads.\<close>

lemma avail_fields_agree:
  assumes agree: "agree_on (guest_ram st fv) (ms_mem m) mem'"
    and ram: "host_ram st fv (avail_ring_host (hosts sv)) (6 + 2 * unat (actual_size sv))" and nz: "actual_size sv \<noteq> 0"
  shows "avail_ring_len (m\<lparr>ms_mem := mem'\<rparr>) sv = avail_ring_len m sv" "avail_head sv mem' = avail_head sv (ms_mem m)"
proof -
  let ?i = "next_avail sv mod actual_size sv"
  show "avail_ring_len (m\<lparr>ms_mem := mem'\<rparr>) sv = avail_ring_len m sv"
    using load_agree [OF agree ram, of 0 4]
    by (simp add: avail_ring_len_def get_avail_idx_def get_avail_flags_idx_def read_object_direct_def)
  have "unat ?i < unat (actual_size sv)" using nz by (simp add: unat_mod_eq unat_gt_0)
  moreover have "VRING_FLAGS_AND_IDX_LEN + AVAILELEM_LEN * ucast ?i = of_nat (4 + 2 * unat ?i)" by (simp add: vring_consts)
  ultimately show "avail_head sv mem' = avail_head sv (ms_mem m)"
    using load_agree [OF agree ram, of "4 + 2 * unat ?i" 2] by (simp add: avail_head_def)
qed

text \<open>
  C3. A valid queue with its host addresses set is served from guest RAM only: in two
  machines whose memories agree on guest RAM, and may differ anywhere else in the process,
  popping gives the same result, leaves the same queue, and the memories still agree. So a
  forged descriptor table cannot make the device read its own memory.
\<close>

theorem pop_avail_reads_ram:
  assumes inv: "fv_inv st fv" and m: "mapped st" and v: "vring_is_valid st fv sv" and h: "hosts_set st fv features sv"
    and c: "cache_ok st fv (vr_cache sv)" and agree: "agree_on (guest_ram st fv) (ms_mem mc) mem'"
  shows "\<exists>res sv' mc1 mem1. pop_avail st fv features (sv, mc) = (res, sv', mc1) \<and>
    pop_avail st fv features (sv, mc\<lparr>ms_mem := mem'\<rparr>) = (res, sv', mc1\<lparr>ms_mem := mem1\<rparr>) \<and>
    agree_on (guest_ram st fv) (ms_mem mc1) mem1"
proof -
  let ?n = "actual_size sv" and ?mc = "mc\<lparr>ms_mem := mem'\<rparr>" and ?t = "desc_table_host (hosts sv)" and ?i = "avail_head sv (ms_mem mc)"
  have ok: "fv_ok fv" using inv by (simp add: fv_inv_def)
  note ram = hosts_set_ram [OF inv m v h]
  have nz: "?n \<noteq> 0" using v by (auto simp: vring_is_valid_def actual_size_def min_def split: if_splits)
  note av = avail_fields_agree [OF agree ram(2) nz]
  note nde = new_desc_agree [OF agree ram(1), of ?i "vr_cache sv"]
  obtain r c1 where nd: "new_desc st fv (ms_mem mc) ?t ?n ?i (vr_cache sv) = (r, c1)" by force
  note n = new_desc_ok [OF ok c nd]
  obtain r2 m1 mem1 where ev: "publish_event features sv mc = (r2, m1)" "publish_event features sv ?mc = (r2, m1\<lparr>ms_mem := mem1\<rparr>)"
    and ag1: "agree_on (guest_ram st fv) (ms_mem m1) mem1"
    using publish_event_agree [OF agree] .
  show ?thesis
  proof (cases "\<not> q_ready sv \<or> avail_ring_len mc sv = 0")
    case True
    then show ?thesis using agree av pop_avail_empty [of sv mc] pop_avail_empty [of sv ?mc] by auto
  next
    case False
    note pop = pop_avail_run [of sv mc st fv features] pop_avail_run [of sv ?mc st fv features]
    show ?thesis
    proof (cases r)
      case (Inl e)
      then show ?thesis using False av nz nd nde agree pop by auto
    next
      case (Inr d)
      then have dc: "cache_ok st fv c1" "desc_ok st fv d" using n by auto
      obtain r3 c2 where g: "get_element st fv (ms_mem m1) ?t ?n ?i d c1 (new_element 0) = (r3, c2)" by force
      have "get_element st fv mem1 ?t ?n ?i d c1 (new_element 0) = (r3, c2)"
        using get_element_agree [OF inv m ag1 ram(1) dc] g by simp
      then show ?thesis using pop False av nz nd nde Inr ev g ag1 by (cases r2; cases r3) auto
    qed
  qed
qed

section \<open>The example ring\<close>

lemma demo_mapped: "mapped demo_store"
  by (simp add: mapped_def demo_simps host_backed_def)

lemma demo_in_ram: "in_ram demo_store demo_view x n \<longleftrightarrow> x < 0x1000 \<and> unat x + n \<le> 0x1000"
  by (auto simp: in_ram_def demo_ram_range_def covers_def demo_simps word_less_nat_alt)

lemma demo_areas: "areas_ok demo_store demo_view demo_vring 4"
  by (simp add: areas_ok_def demo_in_ram demo_vring_def apart_def)

lemma demo_valid: "vring_is_valid demo_store demo_view demo_vring"
  using vring_is_valid_iff [of demo_view demo_store demo_vring] demo_view_inv demo_areas
  by (auto simp: demo_vring_def fv_inv_def intro: exI [of _ 2])

lemma demo_host: "x < 0x1000 \<Longrightarrow> get_host_address demo_store demo_view x = Some (0x900000 + x)"
  by (simp add: get_host_address_def demo_find) (simp add: demo_ram_range_def demo_simps region_host_address_def host_backed_def offset_from_def)

lemma demo_hosts: "hosts_set demo_store demo_view features demo_vring"
proof -
  have a: "addr_cache_init demo_store demo_view x = Some (0x900000 + x, 0x1000 - x)" if "x < 0x1000" for x
    using that by (simp add: addr_cache_init_def demo_find)
      (simp add: demo_ram_range_def demo_simps region_host_address_def host_backed_def offset_from_def Let_def)
  show ?thesis
    by (cases "virtio_has_feature features VIRTIO_F_RING_EVENT_IDX")
      (simp_all add: hosts_set_def set_addr_cache_def demo_vring_def queue_config.defs a cache_host_def get_desc_size_def
        get_avail_size_def get_used_size_def actual_size_def vring_consts)
qed

theorem vring_is_valid_spec_witness:
  "vring_is_valid demo_store demo_view demo_vring \<and>
   \<not> vring_is_valid demo_store demo_view (demo_vring\<lparr>used_ring := 0x208\<rparr>)"
proof -
  have "\<not> areas_ok demo_store demo_view (demo_vring\<lparr>used_ring := 0x208\<rparr>) 4"
    by (simp add: areas_ok_def demo_vring_def apart_def)
  then show ?thesis
    using vring_is_valid_spec [of demo_view demo_store demo_vring] demo_valid
      vring_is_valid_spec [of demo_view demo_store "demo_vring\<lparr>used_ring := 0x208\<rparr>"] demo_view_inv
    by (simp add: fv_inv_def) (simp add: demo_vring_def)
qed

theorem pop_avail_reads_ram_witness:
  "\<exists>e sv mc. pop_avail demo_store demo_view 0 (demo_vring, demo_machine\<lparr>ms_mem := demo_mem(0x10 := 7)\<rparr>) = (Inr e, sv, mc) \<and>
     el_desc_num e = 2"
proof -
  have "0x10 \<notin> guest_ram demo_store demo_view"
  proof
    assume "0x10 \<in> guest_ram demo_store demo_view"
    then obtain x where x: "x < 0x1000" "0x900000 + x = (0x10 :: u64)" by (auto simp: guest_ram_def demo_in_ram demo_host)
    from x(2) have "x = 0x10 - 0x900000" by (metis add_diff_cancel_left')
    with x(1) show False by simp
  qed
  then have agree: "agree_on (guest_ram demo_store demo_view) (ms_mem demo_machine) (demo_mem(0x10 := 7))"
    by (auto simp: agree_on_def demo_machine_def)
  have "cache_ok demo_store demo_view (vr_cache demo_vring)" by (simp add: demo_vring_def)
  from pop_avail_reads_ram [OF demo_view_inv demo_mapped demo_valid demo_hosts this agree, of 0] demo_pop
  show ?thesis by auto
qed

end
