(* ===== verification/VringQueue.thy ===== *)
theory VringQueue
  imports VringConfig
begin

text \<open>
  The available ring as a queue. The driver appends the heads of descriptor chains, the device
  pops them; \<open>ring_consumer\<close> says what popping promises in terms of the list of pending
  heads, and the virtqueue interprets it.
\<close>

section \<open>Consumers of a ring\<close>

text \<open>Popping until the first failure, at most \<open>n\<close> times: the elements obtained and the state left.\<close>

primrec pops :: "('s \<Rightarrow> ('e + 'x) \<times> 's) \<Rightarrow> nat \<Rightarrow> 's \<Rightarrow> 'x list \<times> 's" where
  "pops pop 0 s = ([], s)"
| "pops pop (Suc n) s =
     (case pop s of
        (Inl e, s') \<Rightarrow> ([], s')
      | (Inr x, s') \<Rightarrow> (case pops pop n s' of (xs, s'') \<Rightarrow> (x # xs, s'')))"

locale ring_consumer =
  fixes pop :: "'s \<Rightarrow> ('e + 'x) \<times> 's" and pending :: "'s \<Rightarrow> 'k list" and key :: "'x \<Rightarrow> 'k" and inv :: "'s \<Rightarrow> bool"
  assumes pop_head: "inv s \<Longrightarrow> pending s \<noteq> [] \<Longrightarrow> pop s = (Inr x, s') \<Longrightarrow>
      key x = hd (pending s) \<and> pending s' = tl (pending s) \<and> inv s'"
    and pop_fails: "inv s \<Longrightarrow> pop s = (Inl e, s') \<Longrightarrow> pending s' = pending s \<and> inv s'"
begin

lemma pops_in_order:
  assumes "inv s" and "n \<le> length (pending s)" and "pops pop n s = (xs, s')"
  shows "map key xs = take (length xs) (pending s) \<and> pending s' = drop (length xs) (pending s) \<and> inv s' \<and> length xs \<le> n"
  using assms
proof (induction n arbitrary: s xs)
  case 0
  then show ?case by simp
next
  case (Suc n)
  obtain r s1 where p: "pop s = (r, s1)" by force
  show ?case
  proof (cases r)
    case (Inl e)
    then show ?thesis using Suc.prems p pop_fails by simp
  next
    case (Inr x)
    obtain ys where ys: "pops pop n s1 = (ys, s')" "xs = x # ys" using Suc.prems p Inr by (auto split: prod.splits)
    have ne: "pending s \<noteq> []" using Suc.prems(2) by auto
    note h = pop_head [OF Suc.prems(1) ne p [unfolded Inr]]
    have "n \<le> length (pending s1)" using h Suc.prems(2) by simp
    from Suc.IH [OF _ this ys(1)] h ne ys(2) show ?thesis by (cases "pending s") auto
  qed
qed

end

section \<open>The heads in the available ring\<close>

definition ring_entry :: "split_vring \<Rightarrow> memory \<Rightarrow> u16 \<Rightarrow> u16" where
  "ring_entry sv mem i = from_le (load mem (avail_ring_host (hosts sv) +
     (VRING_FLAGS_AND_IDX_LEN + AVAILELEM_LEN * ucast (i mod actual_size sv))) 2)"

definition pending_heads :: "split_vring \<times> 'd machine \<Rightarrow> u16 list" where
  "pending_heads = (\<lambda>(sv, m). map (\<lambda>i. ring_entry sv (ms_mem m) (next_avail sv + of_nat i)) [0..<unat (avail_ring_len m sv)])"

text \<open>
  The queue is ready, and the event field that popping writes at the end of the used ring is no
  part of the available ring in host memory.
\<close>

definition vq_inv :: "split_vring \<times> 'd machine \<Rightarrow> bool" where
  "vq_inv = (\<lambda>(sv, m). q_ready sv \<and> actual_size sv \<noteq> 0 \<and>
     (\<forall>i < 4 + 2 * unat (actual_size sv). \<forall>j < 2.
        avail_ring_host (hosts sv) + of_nat i \<noteq> used_ring_host (hosts sv) + (4 + 8 * ucast (actual_size sv)) + of_nat j))"

lemma avail_head_entry: "avail_head sv mem = ring_entry sv mem (next_avail sv)"
  by (simp add: avail_head_def ring_entry_def)

lemma store_outside: "x \<notin> (\<lambda>i. a + of_nat i) ` {..< length bs} \<Longrightarrow> store mem a bs x = mem x"
proof (rule store_other, rule ccontr)
  assume x: "x \<notin> (\<lambda>i. a + of_nat i) ` {..< length bs}" and "\<not> length bs \<le> unat (x - a)"
  then have "unat (x - a) \<in> {..< length bs}" by simp
  moreover have "x = a + of_nat (unat (x - a))" by simp
  ultimately show False using x by blast
qed

lemma publish_event_keeps:
  assumes "publish_event features sv m = (r, m1)" and "vq_inv (sv, m)" and "i < 4 + 2 * unat (actual_size sv)"
  shows "ms_mem m1 (avail_ring_host (hosts sv) + of_nat i) = ms_mem m (avail_ring_host (hosts sv) + of_nat i)"
proof -
  let ?a = "used_ring_host (hosts sv) + (4 + 8 * ucast (actual_size sv))"
  have "avail_ring_host (hosts sv) + of_nat i \<notin> (\<lambda>j. ?a + of_nat j) ` {..<2}"
    using assms(2,3) by (auto simp: vq_inv_def)
  then have "store (ms_mem m) ?a (to_le 2 x) (avail_ring_host (hosts sv) + of_nat i) = ms_mem m (avail_ring_host (hosts sv) + of_nat i)"
    for x :: u16 by (intro store_outside) simp
  then show ?thesis using assms(1)
    by (auto simp: publish_event_def set_avail_event_def write_object_direct_def vring_consts Let_def split: if_splits sum.splits)
qed

lemma pending_heads_keeps:
  assumes "publish_event features sv m = (r, m1)" and inv: "vq_inv (sv, m)"
  shows "pending_heads (sv, m1) = pending_heads (sv, m)"
proof -
  note k = publish_event_keeps [OF assms]
  let ?h = "avail_ring_host (hosts sv)"
  have nz: "actual_size sv \<noteq> 0" using inv by (simp add: vq_inv_def)
  have "load (ms_mem m1) ?h 4 = load (ms_mem m) ?h 4" using k by (intro load_cong) simp
  then have len: "avail_ring_len m1 sv = avail_ring_len m sv"
    by (simp add: avail_ring_len_def get_avail_idx_def get_avail_flags_idx_def read_object_direct_def)
  have "ring_entry sv (ms_mem m1) i = ring_entry sv (ms_mem m) i" for i
  proof -
    let ?s = "i mod actual_size sv"
    have s: "unat ?s < unat (actual_size sv)" using nz by (simp add: unat_mod_eq unat_gt_0)
    have a: "VRING_FLAGS_AND_IDX_LEN + AVAILELEM_LEN * ucast ?s = (of_nat (4 + 2 * unat ?s) :: u64)" by (simp add: vring_consts)
    have "load (ms_mem m1) (?h + of_nat (4 + 2 * unat ?s)) 2 = load (ms_mem m) (?h + of_nat (4 + 2 * unat ?s)) 2"
    proof (rule load_cong)
      fix j assume "j < (2 :: nat)"
      with s have "4 + 2 * unat ?s + j < 4 + 2 * unat (actual_size sv)" by simp
      from k [OF this] show "ms_mem m1 (?h + of_nat (4 + 2 * unat ?s) + of_nat j) = ms_mem m (?h + of_nat (4 + 2 * unat ?s) + of_nat j)"
        by (simp add: add.assoc)
    qed
    then show ?thesis by (simp only: ring_entry_def a)
  qed
  then show ?thesis by (simp add: pending_heads_def len)
qed

lemma pending_heads_step:
  assumes "pending_heads (sv, m) \<noteq> []"
  shows "hd (pending_heads (sv, m)) = ring_entry sv (ms_mem m) (next_avail sv)"
    "pending_heads (sv\<lparr>vr_cache := c, next_avail := next_avail sv + 1\<rparr>, m) = tl (pending_heads (sv, m))"
proof -
  let ?n = "unat (avail_ring_len m sv)"
  have n: "?n \<noteq> 0" using assms by (auto simp: pending_heads_def)
  then show "hd (pending_heads (sv, m)) = ring_entry sv (ms_mem m) (next_avail sv)"
    by (simp add: pending_heads_def hd_map)
  have "avail_ring_len m (sv\<lparr>vr_cache := c, next_avail := next_avail sv + 1\<rparr>) = avail_ring_len m sv - 1"
    by (simp add: avail_ring_len_def get_avail_idx_def get_avail_flags_idx_def)
  moreover have "unat (avail_ring_len m sv - 1) = ?n - 1"
    using n by (subst unat_sub) (simp_all add: word_le_nat_alt)
  moreover have "ring_entry (sv\<lparr>vr_cache := c, next_avail := next_avail sv + 1\<rparr>) = ring_entry sv"
    by (simp add: ring_entry_def fun_eq_iff actual_size_def)
  moreover have "[0..<?n] = 0 # map Suc [0..<?n - 1]" using n by (simp add: upt_conv_Cons map_Suc_upt)
  ultimately show "pending_heads (sv\<lparr>vr_cache := c, next_avail := next_avail sv + 1\<rparr>, m) = tl (pending_heads (sv, m))"
    by (simp add: pending_heads_def add.assoc)
qed

section \<open>Popping takes the head\<close>

lemma push_iovec_index [simp]: "el_index (es_elem (push_iovec d s)) = el_index (es_elem s)"
  by (simp add: push_iovec_def Let_def)

lemma get_element_loop_index:
  assumes "get_element_loop st fv mem s = (Inr s', c)"
  shows "el_index (es_elem s') = el_index (es_elem s)"
  using assms
proof (induction "(if es_indirect s then 0 else 1 :: nat, unat (es_desc_size s) - unat (el_desc_num (es_elem s)))"
    arbitrary: s rule: wf_induct_rule [OF wf_lex_prod [OF wf_less_than wf_less_than]])
  case (1 s)
  from "1.prems" show ?case
  proof (cases rule: get_element_loop_cases)
    case (indirect h l d' c' ds)
    then show ?thesis using "1.hyps" [OF _ indirect(8)] by auto
  next
    case (chain d' c')
    then show ?thesis using "1.hyps" [OF _ chain(6)] desc_num_Suc [OF chain(1)] by (auto simp: word_less_nat_alt)
  qed auto
qed

lemma get_element_index:
  assumes "get_element st fv mem th sz i d c e = (Inr e', c')"
  shows "el_index e' = i"
  using assms get_element_loop_index by (fastforce simp: get_element_def split: prod.splits sum.splits if_splits)

lemma vq_inv_cong:
  "vq_inv (sv, m) \<Longrightarrow> vq_inv (sv\<lparr>vr_cache := c\<rparr>, m')"
  "vq_inv (sv, m) \<Longrightarrow> vq_inv (sv\<lparr>vr_cache := c, next_avail := i\<rparr>, m')"
  by (simp_all add: vq_inv_def actual_size_def)

lemma pending_heads_cache [simp]: "pending_heads (sv\<lparr>vr_cache := c\<rparr>, m) = pending_heads (sv, m)"
  by (simp add: pending_heads_def ring_entry_def avail_ring_len_def get_avail_idx_def get_avail_flags_idx_def actual_size_def)

lemma pop_avail_outcomes:
  assumes inv: "vq_inv (sv, m)" and ne: "pending_heads (sv, m) \<noteq> []" and run: "pop_avail st fv features (sv, m) = (res, s')"
  obtains (popped) e c m1 where "res = Inr e" "el_index e = ring_entry sv (ms_mem m) (next_avail sv)"
      "s' = (sv\<lparr>vr_cache := c, next_avail := next_avail sv + 1\<rparr>, m1)" "pending_heads (sv, m1) = pending_heads (sv, m)"
    | (failed) e c m1 where "res = Inl e" "s' = (sv\<lparr>vr_cache := c\<rparr>, m1)" "pending_heads (sv, m1) = pending_heads (sv, m)"
proof -
  let ?t = "desc_table_host (hosts sv)" and ?n = "actual_size sv" and ?i = "avail_head sv (ms_mem m)"
  have g: "q_ready sv" "?n \<noteq> 0" "avail_ring_len m sv \<noteq> 0" using inv ne by (auto simp: vq_inv_def pending_heads_def)
  note pop = pop_avail_run [OF g(1,3,2), of st fv features]
  obtain r c where nd: "new_desc st fv (ms_mem m) ?t ?n ?i (vr_cache sv) = (r, c)" by force
  obtain r2 m1 where ev: "publish_event features sv m = (r2, m1)" by force
  note keep = pending_heads_keeps [OF ev inv]
  show thesis
  proof (cases r)
    case (Inl e)
    then show thesis using run pop nd by (intro failed [of e c m]) auto
  next
    case (Inr d)
    obtain r3 c2 where ge: "get_element st fv (ms_mem m1) ?t ?n ?i d c (new_element 0) = (r3, c2)" by force
    show thesis
    proof (cases "\<exists>u e. r2 = Inr u \<and> r3 = Inr e")
      case True
      then obtain e where e: "r2 = Inr ()" "r3 = Inr e" by auto
      then show thesis using run pop nd Inr ev ge keep get_element_index [OF ge [unfolded e]]
        by (intro popped [of e c2 m1]) (auto simp: avail_head_entry)
    next
      case False
      then show thesis using run pop nd Inr ev ge keep by (cases r2; cases r3) (auto intro: failed)
    qed
  qed
qed

interpretation vring_consumer: ring_consumer "pop_avail st fv features" pending_heads el_index vq_inv
  for st :: "'d store" and fv :: flat_view and features :: u64
proof
  fix s :: "split_vring \<times> 'd machine" and x s'
  assume inv: "vq_inv s" and ne: "pending_heads s \<noteq> []" and run: "pop_avail st fv features s = (Inr x, s')"
  obtain sv m where s: "s = (sv, m)" by force
  from inv ne run show "el_index x = hd (pending_heads s) \<and> pending_heads s' = tl (pending_heads s) \<and> vq_inv s'"
    unfolding s
  proof (cases rule: pop_avail_outcomes)
    case (popped e c m1)
    then show "el_index x = hd (pending_heads (sv, m)) \<and> pending_heads s' = tl (pending_heads (sv, m)) \<and> vq_inv s'"
      using pending_heads_step [of sv m] pending_heads_step [of sv m1] inv ne s by (simp add: vq_inv_cong)
  qed simp
next
  fix s :: "split_vring \<times> 'd machine" and e s'
  assume inv: "vq_inv s" and run: "pop_avail st fv features s = (Inl e, s')"
  obtain sv m where s: "s = (sv, m)" by force
  have ne: "pending_heads s \<noteq> []"
    using run inv pop_avail_empty [of sv m st fv features] by (auto simp: s pending_heads_def vq_inv_def unat_gt_0)
  from inv ne run show "pending_heads s' = pending_heads s \<and> vq_inv s'"
    unfolding s
  proof (cases rule: pop_avail_outcomes)
    case (failed e c m1)
    then show "pending_heads s' = pending_heads (sv, m) \<and> vq_inv s'" using inv s by (simp add: vq_inv_cong)
  qed simp
qed

text \<open>
  C4. The device takes the chains in the order in which the driver made them available, each
  exactly once: popping up to \<open>n\<close> pending chains gives their heads in ring order, and what was
  not popped is still pending, in order. When a chain is refused, it and all behind it stay
  pending.
\<close>

theorem pops_in_ring_order:
  assumes "vq_inv s" and "n \<le> length (pending_heads s)" and "pops (pop_avail st fv features) n s = (es, s')"
  shows "map el_index es = take (length es) (pending_heads s) \<and> pending_heads s' = drop (length es) (pending_heads s)"
  using vring_consumer.pops_in_order [OF assms] by blast

theorem pops_in_ring_order_witness:
  "\<exists>es s. pops (pop_avail demo_store demo_view 0) 1 (demo_vring, demo_machine) = (es, s) \<and>
     map el_index es = [0] \<and> pending_heads s = []"
proof -
  have inv: "vq_inv (demo_vring, demo_machine)"
  proof -
    have "0x900200 + of_nat i \<noteq> (0x900300 + 36 + of_nat j :: u64)" if "i < 12" "j < 2" for i j
      using that by (auto simp: word_eq_unat unat_word_ariths unat_of_nat take_bit_nat_eq_self)
    then show ?thesis by (simp add: vq_inv_def demo_vring_def actual_size_def)
  qed
  have p: "pending_heads (demo_vring, demo_machine) = [0]"
    by (simp add: pending_heads_def avail_ring_len_def get_avail_idx_def get_avail_flags_idx_def flags_idx_of_bytes_def
        read_object_direct_def ring_entry_def demo_vring_def demo_machine_def demo_bytes actual_size_def vring_consts)
  have run: "pops (pop_avail demo_store demo_view 0) 1 (demo_vring, demo_machine) =
      ([\<lparr>el_index = 0, el_desc_num = 2, out_iovec = [\<lparr>ei_addr = 0x800, ei_len = 0x10\<rparr>], in_iovec = [\<lparr>ei_addr = 0x900, ei_len = 8\<rparr>]\<rparr>],
       demo_vring\<lparr>vr_cache := Some demo_cache, next_avail := 1\<rparr>, demo_machine)"
    using demo_pop by simp
  from pops_in_ring_order [OF inv _ run] p run show ?thesis by auto
qed

end
