(* ===== verification/VringUsed.thy ===== *)
theory VringUsed
  imports VringQueue
begin

text \<open>
  The used ring: what returning an element to the driver writes, and when the driver is
  notified. With the event index the driver says after which entry it wants an interrupt;
  the indices are 16 bits wide and wrap around.
\<close>

section \<open>Returning an element\<close>

lemma add_used_cases:
  assumes "add_used index len (sv, m) = (Inr (), sv', m')"
  obtains "index < q_size sv" "actual_size sv \<noteq> 0"
    "sv' = sv\<lparr>next_used := next_used sv + 1,
        signal_used_valid := (signal_used_valid sv \<and> next_used sv + 1 \<noteq> last_signal_used sv)\<rparr>"
    "ms_mem m' = store (store (ms_mem m) (used_ring_host (hosts sv) + (4 + 8 * ucast (next_used sv mod actual_size sv)))
        (used_elem_bytes (ucast index) len)) (used_ring_host (hosts sv) + 2) (to_le 2 (next_used sv + 1))"
    "ms_dev m' = ms_dev m"
proof -
  let ?a = "used_ring_host (hosts sv) + VRING_FLAGS_AND_IDX_LEN + ucast (next_used sv mod actual_size sv) * USEDELEM_LEN"
  let ?b = "used_elem_bytes (ucast index) len"
  have g: "\<not> q_size sv \<le> index" "actual_size sv \<noteq> 0"
    using assms by (auto simp: add_used_def split: if_splits)
  note run = assms [unfolded add_used_def write_object_direct_def Let_def] and len = used_elem_bytes_def
  obtain mg where 1: "mark_dirty_log ?a (of_nat (length ?b)) (ms_mm m) = Inr mg"
    using run g by (cases "mark_dirty_log ?a (of_nat (length ?b)) (ms_mm m)") auto
  obtain mg2 where 2: "mark_dirty_log (used_ring_host (hosts sv) + VRING_IDX_POSITION) 2 mg = Inr mg2"
    using run g 1 by (cases "mark_dirty_log (used_ring_host (hosts sv) + VRING_IDX_POSITION) 2 mg") auto
  have m': "m' = m\<lparr>ms_mm := mg2, ms_mem := store (store (ms_mem m) ?a ?b) (used_ring_host (hosts sv) + VRING_IDX_POSITION) (to_le 2 (next_used sv + 1))\<rparr>"
    and sv': "sv' = (if next_used sv + 1 = last_signal_used sv then sv\<lparr>next_used := next_used sv + 1, signal_used_valid := False\<rparr>
      else sv\<lparr>next_used := next_used sv + 1\<rparr>)"
    using run g 1 2 by auto
  show thesis
  proof (rule that)
    show "index < q_size sv" "actual_size sv \<noteq> 0" using g by auto
    show "sv' = sv\<lparr>next_used := next_used sv + 1,
        signal_used_valid := (signal_used_valid sv \<and> next_used sv + 1 \<noteq> last_signal_used sv)\<rparr>"
      by (cases sv) (auto simp: sv')
  qed (simp_all add: m' vring_consts mult.commute add.assoc)
qed

lemma load_store_other:
  assumes "\<And>i. i < n \<Longrightarrow> length bs \<le> unat (a + of_nat i - b)"
  shows "load (store m b bs) a n = load m a n"
  using assms by (intro load_cong) (simp add: store_other)

lemma get_used_idx_load: "get_used_idx m sv = from_le (load (ms_mem m) (used_ring_host (hosts sv) + 2) 2)"
  by (simp add: get_used_idx_def get_used_flags_idx_def flags_idx_of_bytes_def read_object_direct_def load_4)

lemma from_le_u16: "from_le (to_le 2 (x :: u16)) = x"
  by (simp add: from_le_to_le take_bit_word_eq_self)

lemma add_used_idx:
  assumes "add_used index len (sv, m) = (Inr (), sv', m')"
  shows "get_used_idx m' sv' = next_used sv + 1"
  using assms
proof (cases rule: add_used_cases)
  case 1
  then have "load (ms_mem m') (used_ring_host (hosts sv) + 2) 2 = to_le 2 (next_used sv + 1)"
    using load_store_same [of "to_le 2 (next_used sv + 1)"] by (simp add: add.commute)
  then show ?thesis using 1 by (simp add: get_used_idx_load from_le_u16)
qed

lemma add_used_slot:
  assumes "add_used index len (sv, m) = (Inr (), sv', m')"
  shows "load (ms_mem m') (used_ring_host (hosts sv) + (4 + 8 * ucast (next_used sv mod actual_size sv))) 8 =
    to_le 4 (ucast index :: u32) @ to_le 4 len"
  using assms
proof (cases rule: add_used_cases)
  case 1
  let ?s = "next_used sv mod actual_size sv" and ?h = "used_ring_host (hosts sv)"
  let ?b = "used_elem_bytes (ucast index) len"
  have "unat ?s < 65536" using unsigned_less [of ?s, where 'a = nat] by simp
  moreover have "?h + (4 + 8 * ucast ?s) + of_nat i - (?h + 2) = (of_nat (2 + 8 * unat ?s + i) :: u64)" for i by simp
  ultimately have "2 \<le> unat (?h + (4 + 8 * ucast ?s) + of_nat i - (?h + 2))" if "i < 8" for i
    using that by (simp only: unat_of_nat) (simp add: take_bit_nat_eq_self)
  then have "load (ms_mem m') (?h + (4 + 8 * ucast ?s)) 8 = load (store (ms_mem m) (?h + (4 + 8 * ucast ?s)) ?b) (?h + (4 + 8 * ucast ?s)) 8"
    unfolding 1 by (intro load_store_other) simp
  also have "\<dots> = ?b" using load_store_same [of ?b] by (simp add: used_elem_bytes_def)
  finally show ?thesis by (simp add: used_elem_bytes_def)
qed

text \<open>The bytes of the used ring that returning an element writes: the entry and the index.\<close>

definition used_written :: "split_vring \<Rightarrow> u64 set" where
  "used_written sv =
     (\<lambda>i. used_ring_host (hosts sv) + (4 + 8 * ucast (next_used sv mod actual_size sv)) + of_nat i) ` {..<8} \<union>
     (\<lambda>i. used_ring_host (hosts sv) + 2 + of_nat i) ` {..<2}"

text \<open>
  C5. Returning a chain to the driver outside of a migration: an index of the queue is always
  accepted; the entry at the next used slot becomes the chain's index and the written length,
  the used index in guest memory becomes the new count (modulo 65536), and no other byte of
  memory changes.
\<close>

theorem add_used_publishes:
  assumes i: "index < q_size sv" and sz: "max_size sv \<noteq> 0" and idle: "\<not> is_active (ms_mm m)"
  shows "\<exists>sv' m'. add_used index len (sv, m) = (Inr (), sv', m') \<and>
    next_used sv' = next_used sv + 1 \<and> get_used_idx m' sv' = next_used sv + 1 \<and>
    load (ms_mem m') (used_ring_host (hosts sv) + (4 + 8 * ucast (next_used sv mod actual_size sv))) 8 =
      to_le 4 (ucast index :: u32) @ to_le 4 len \<and>
    (\<forall>x. x \<notin> used_written sv \<longrightarrow> ms_mem m' x = ms_mem m x)"
proof -
  have "actual_size sv \<noteq> 0" "\<not> q_size sv \<le> index" using i sz by (auto simp: actual_size_def min_def)
  then obtain sv' m' where run: "add_used index len (sv, m) = (Inr (), sv', m')"
    using idle by (auto simp: add_used_def write_object_direct_def mark_dirty_log_def Let_def)
  from run have "next_used sv' = next_used sv + 1" and "\<forall>x. x \<notin> used_written sv \<longrightarrow> ms_mem m' x = ms_mem m x"
    by (cases rule: add_used_cases, simp add: used_written_def store_outside used_elem_bytes_def)+
  with run add_used_idx [OF run] add_used_slot [OF run] show ?thesis by blast
qed

section \<open>The event index\<close>

text \<open>The unsigned comparison decides whether the event index lies among the entries from \<open>old\<close> on, before \<open>new\<close>.\<close>

lemma event_passed:
  fixes new old ev :: u16
  shows "new - ev - 1 < new - old \<longleftrightarrow> (\<exists>k < unat (new - old). ev = old + of_nat k)"
proof -
  define d where "d = new - old"
  define e where "e = ev - old"
  have diff: "new - ev - 1 = d - e - 1" by (simp add: d_def e_def)
  have le: "unat e < 65536" "unat d < 65536" using unsigned_less [of e, where 'a = nat] unsigned_less [of d, where 'a = nat] by auto
  have "d - e - 1 < d \<longleftrightarrow> e < d"
  proof (cases "e < d")
    case True
    then have "unat (d - e) = unat d - unat e" by (simp add: unat_sub)
    moreover from True have "1 \<le> d - e" by (simp add: word_le_nat_alt word_less_nat_alt unat_sub)
    ultimately have "unat (d - e - 1) = unat d - unat e - 1" by (simp add: unat_sub)
    then show ?thesis using True by (simp add: word_less_nat_alt)
  next
    case False
    then have le': "unat d \<le> unat e" by (simp add: word_less_nat_alt)
    have "d - e - 1 = (of_nat (65535 - (unat e - unat d)) :: u16)"
      using le le' by (simp add: of_nat_diff)
    then have "unat (d - e - 1) = 65535 - (unat e - unat d)"
      using le by (simp only: unat_of_nat) (simp add: take_bit_nat_eq_self)
    then show ?thesis using False le le' by (simp add: word_less_nat_alt)
  qed
  moreover have "e < d \<longleftrightarrow> (\<exists>k < unat d. ev = old + of_nat k)"
  proof
    assume "e < d"
    then show "\<exists>k < unat d. ev = old + of_nat k" by (intro exI [of _ "unat e"]) (simp add: e_def word_less_nat_alt)
  next
    assume "\<exists>k < unat d. ev = old + of_nat k"
    then obtain k where k: "k < unat d" "ev = old + of_nat k" by blast
    then have "unat e = k" using le by (simp add: e_def unat_of_nat take_bit_nat_eq_self)
    then show "e < d" using k by (simp add: word_less_nat_alt)
  qed
  ultimately show ?thesis by (simp add: diff d_def)
qed

text \<open>A device that completes several chains before it decides whether to notify.\<close>

fun add_used_all :: "(u16 \<times> u32) list \<Rightarrow> split_vring \<times> 'd machine \<Rightarrow> (virtio_error + unit) \<times> split_vring \<times> 'd machine" where
  "add_used_all [] s = (Inr (), s)"
| "add_used_all ((index, len) # xs) s =
     (case add_used index len s of
        (Inl e, s') \<Rightarrow> (Inl e, s')
      | (Inr _, s') \<Rightarrow> add_used_all xs s')"

lemma ball_Suc_interval: "(\<forall>k \<in> {1..Suc n}. P k) \<longleftrightarrow> P 1 \<and> (\<forall>k \<in> {1..n}. P (Suc k))"
proof -
  have "{1..Suc n} = insert 1 (Suc ` {1..n})" by (auto simp: image_Suc_atLeastAtMost)
  then show ?thesis by (simp only: ball_simps image_iff) 
qed

lemma add_used_all_state:
  assumes "add_used_all xs (sv, m) = (Inr (), sv', m')"
  shows "next_used sv' = next_used sv + of_nat (length xs) \<and> last_signal_used sv' = last_signal_used sv \<and>
    (xs \<noteq> [] \<longrightarrow> get_used_idx m' sv' = next_used sv') \<and>
    (signal_used_valid sv' \<longleftrightarrow> signal_used_valid sv \<and> (\<forall>k \<in> {1..length xs}. next_used sv + of_nat k \<noteq> last_signal_used sv))"
  using assms
proof (induction xs "(sv, m)" arbitrary: sv m rule: add_used_all.induct)
  case 1
  then show ?case by simp
next
  case (2 index len xs)
  obtain sv1 m1 where one: "add_used index len (sv, m) = (Inr (), sv1, m1)" and rest: "add_used_all xs (sv1, m1) = (Inr (), sv', m')"
    using "2.prems" by (auto split: prod.splits sum.splits)
  have sv1: "next_used sv1 = next_used sv + 1" "last_signal_used sv1 = last_signal_used sv"
    "signal_used_valid sv1 \<longleftrightarrow> signal_used_valid sv \<and> next_used sv + 1 \<noteq> last_signal_used sv"
    using one by (cases rule: add_used_cases, simp)+
  have ih: "next_used sv' = next_used sv1 + of_nat (length xs) \<and> last_signal_used sv' = last_signal_used sv1 \<and>
    (xs \<noteq> [] \<longrightarrow> get_used_idx m' sv' = next_used sv') \<and>
    (signal_used_valid sv' \<longleftrightarrow> signal_used_valid sv1 \<and> (\<forall>k \<in> {1..length xs}. next_used sv1 + of_nat k \<noteq> last_signal_used sv1))"
    using "2.hyps" [OF one [symmetric] refl rest] by simp
  have split: "(\<forall>k \<in> {1..length ((index, len) # xs)}. P k) \<longleftrightarrow> P 1 \<and> (\<forall>k \<in> {1..length xs}. P (Suc k))" for P
    by (simp only: length_Cons ball_Suc_interval)
  show ?case
    using ih sv1 rest add_used_idx [OF one] unfolding split
    by (cases "xs = []") (auto simp: add.assoc)
qed

lemma wrap_only_at_65536: "(\<forall>k \<in> {1..n}. (of_nat k :: u16) \<noteq> 0) \<longleftrightarrow> n < 65536"
proof
  assume a: "\<forall>k \<in> {1..n}. (of_nat k :: u16) \<noteq> 0"
  show "n < 65536"
  proof (rule ccontr)
    assume "\<not> n < 65536"
    then have "(of_nat 65536 :: u16) \<noteq> 0" using a by (intro bspec [OF a]) simp
    then show False by simp
  qed
next
  assume "n < 65536"
  then show "\<forall>k \<in> {1..n}. (of_nat k :: u16) \<noteq> 0" by (auto simp: word_eq_unat unat_of_nat take_bit_nat_eq_self)
qed

text \<open>
  C30. No notification is lost with the event index. A device that has just signalled completes
  any number of chains and then asks whether to notify the driver: the answer is yes exactly
  when the entry the driver asked to be told about is among them, or when so many were
  completed (65536 or more) that the 16-bit indices have come round and it can no longer tell.
\<close>

theorem notify_when_event_passed:
  assumes "signal_used_valid sv" and "last_signal_used sv = next_used sv" and "xs \<noteq> []"
    and "add_used_all xs (sv, m) = (Inr (), sv', m')"
    and "virtio_has_feature features VIRTIO_F_RING_EVENT_IDX"
  shows "fst (should_notify m' features sv') \<longleftrightarrow>
    65536 \<le> length xs \<or> (\<exists>k < length xs. get_used_event m' sv' = next_used sv + of_nat k)"
proof -
  note st = add_used_all_state [OF assms(4)]
  have valid: "signal_used_valid sv' \<longleftrightarrow> length xs < 65536"
    using st assms(1,2) wrap_only_at_65536 [of "length xs"] by simp
  have diff: "get_used_idx m' sv' - last_signal_used sv' = of_nat (length xs)" using st assms(2,3) by simp
  have "fst (should_notify m' features sv') \<longleftrightarrow>
      65536 \<le> length xs \<or> (\<exists>k < unat (of_nat (length xs) :: u16). get_used_event m' sv' = next_used sv + of_nat k)"
    using event_passed [of "get_used_idx m' sv'" "get_used_event m' sv'" "last_signal_used sv'"] valid st assms(2,3,5)
    unfolding diff by (auto simp: should_notify_def used_ring_need_event_def Let_def)
  then show ?thesis by (cases "length xs < 65536") (simp_all add: unat_of_nat take_bit_nat_eq_self)
qed

section \<open>The example ring\<close>

theorem add_used_publishes_witness:
  "\<exists>sv m. add_used 3 8 (demo_vring, demo_machine) = (Inr (), sv, m) \<and> next_used sv = 1 \<and>
     load (ms_mem m) 0x900304 8 = [3, 0, 0, 0, 8, 0, 0, 0]"
proof -
  have "3 < q_size demo_vring" "max_size demo_vring \<noteq> 0" "\<not> is_active (ms_mm demo_machine)"
    by (simp_all add: demo_vring_def demo_machine_def is_active_def)
  from add_used_publishes [OF this, of 8] show ?thesis
    by (auto simp: demo_vring_def actual_size_def to_le_def upt_conv_Cons)
qed

theorem notify_when_event_passed_witness:
  "\<exists>sv m. add_used_all [(0, 8), (1, 8)] (demo_vring\<lparr>signal_used_valid := True\<rparr>, demo_machine) = (Inr (), sv, m) \<and>
     fst (should_notify m 0x20000000 sv) = (get_used_event m sv = 0 \<or> get_used_event m sv = 1)"
proof -
  let ?sv = "demo_vring\<lparr>signal_used_valid := True\<rparr>"
  obtain sv m where run: "add_used_all [(0, 8), (1, 8)] (?sv, demo_machine) = (Inr (), sv, m)"
    by (simp add: add_used_def demo_vring_def demo_machine_def actual_size_def write_object_direct_def
        mark_dirty_log_def is_active_def four_le_one Let_def)
  have sv: "signal_used_valid ?sv" "last_signal_used ?sv = next_used ?sv" "next_used ?sv = 0"
    by (simp_all add: demo_vring_def)
  have f: "virtio_has_feature 0x20000000 VIRTIO_F_RING_EVENT_IDX"
    by (simp add: virtio_has_feature_def VIRTIO_F_RING_EVENT_IDX_def shl_def)
  have two: "(\<exists>k < length [(0 :: u16, 8 :: u32), (1, 8)]. P k) \<longleftrightarrow> P 0 \<or> P 1" for P :: "nat \<Rightarrow> bool" by (auto simp: less_Suc_eq)
  have "fst (should_notify m 0x20000000 sv) = (get_used_event m sv = 0 \<or> get_used_event m sv = 1)"
    using notify_when_event_passed [OF sv(1,2) _ run f] unfolding two sv(3) by simp
  with run show ?thesis by blast
qed

end
