(* ===== verification/PFlash.thy ===== *)
theory PFlash
  imports NumOps Region "HOL-Library.While_Combinator"
begin

text \<open>
  devices/src/legacy/pflash.rs: the parallel flash that holds the firmware. The guest drives a
  command state machine by writes into the flash; in read-array mode the region is mapped
  into the guest and reads do not reach the device. The region's
  \<open>set_rom_device_romd\<close> (with the topology update behind it) and the success of \<open>msync\<close> are
  arguments: the device works with whatever they answer.
\<close>

section \<open>State\<close>

record 'r flash_host =
  fh_set_romd :: "bool \<Rightarrow> 'r \<Rightarrow> (as_error + unit) \<times> 'r"
  fh_msync_ok :: "u64 \<Rightarrow> u32 \<Rightarrow> bool"

text \<open>
  The device, with the parts of its ROM region it uses (size and host address), the process's
  memory behind it and the ranges handed to \<open>msync\<close>.
\<close>

record 'r pflash =
  has_backend :: bool
  block_len :: u32
  bank_width :: u32
  device_width :: u32
  max_device_width :: u32
  write_cycle :: i32
  pf_read_only :: bool
  pf_cmd :: u8
  pf_status :: u8
  ident :: "u32 list"
  cfi_table :: "u8 list"
  counter :: u32
  write_blk_size :: u32
  pf_rom :: 'r
  rom_size :: u64
  rom_host :: u64
  pf_mem :: memory
  pf_syncs :: "(u64 \<times> u32) list"

datatype pflash_error =
    PFlashIndexOverflow u64 nat
  | PFlashDevConfigErr u32 u32
  | PFlashWriteOverflow u64 u64 u64
  | PFlashReadOverflow u64 u64 u64
  | PFlashBail
  | PFlashPanic panic

definition trailing_zeros :: "'a::len word \<Rightarrow> u32" where
  "trailing_zeros w = of_nat (length (takeWhile (\<lambda>i. \<not> bit w i) [0..<LENGTH('a)]))"

section \<open>Creation\<close>

definition pflash_cfi :: "u32 \<Rightarrow> u32 \<Rightarrow> u32 \<Rightarrow> u32 \<Rightarrow> u8 list" where
  "pflash_cfi device_len bw blocks_per_device block_len_per_device =
     (replicate 0x52 0)
       [0x10 := 0x51, 0x11 := 0x52, 0x12 := 0x59, 0x13 := 0x01, 0x14 := 0x00, 0x15 := 0x31, 0x16 := 0x00,
        0x1B := 0x45, 0x1C := 0x55, 0x1F := 0x07, 0x20 := 0x07, 0x21 := 0x0a, 0x22 := 0x00,
        0x23 := 0x04, 0x24 := 0x04, 0x25 := 0x04, 0x26 := 0x00,
        0x27 := ucast (trailing_zeros device_len), 0x28 := 0x02, 0x29 := 0x00,
        0x2A := (if bw = 1 then 0x08 else 0x0B), 0x2B := 0x00, 0x2C := 0x01,
        0x2D := ucast (blocks_per_device - 1), 0x2E := ucast (shr (blocks_per_device - 1) 8),
        0x2F := ucast (shr block_len_per_device 8), 0x30 := ucast (shr block_len_per_device 16),
        0x31 := 0x50, 0x32 := 0x52, 0x33 := 0x49, 0x34 := 0x31, 0x35 := 0x30, 0x3f := 0x01]"

text \<open>\<open>flen\<close> is the length of the backend file, if there is one; \<open>rom\<close>, the host address and the memory are what \<open>realize\<close> adds.\<close>

definition new_pflash ::
    "u64 \<Rightarrow> u64 option \<Rightarrow> u32 \<Rightarrow> u32 \<Rightarrow> u32 \<Rightarrow> bool \<Rightarrow> 'r \<Rightarrow> u64 \<Rightarrow> memory \<Rightarrow> pflash_error + 'r pflash" where
  "new_pflash sz flen blen bw dw ro rom host mem =
     (if blen = 0 then Inl PFlashBail
      else let blocks_per_device = (ucast sz :: u32) div blen
      in if blocks_per_device = 0 then Inl PFlashBail
      else if (case flen of Some len \<Rightarrow> len < sz | None \<Rightarrow> False) then Inl PFlashBail
      else let num_devices = (if dw = 0 then 1 else bw div dw)
      in if num_devices = 0 then Inl (PFlashPanic DivByZero)
      else let block_len_per_device = blen div num_devices;
               device_len = block_len_per_device * blocks_per_device;
               cfi = pflash_cfi device_len bw blocks_per_device block_len_per_device;
               wbs = shl 1 (unat (cfi ! 0x2A))
      in Inr \<lparr>has_backend = (flen \<noteq> None), block_len = blen, bank_width = bw, device_width = dw, max_device_width = dw,
              write_cycle = 0, pf_read_only = ro, pf_cmd = 0, pf_status = 0x80, ident = [0x89, 0x18, 0, 0],
              cfi_table = cfi, counter = 0, write_blk_size = (if num_devices > 1 then wbs * num_devices else wbs),
              pf_rom = rom, rom_size = sz, rom_host = host, pf_mem = mem, pf_syncs = []\<rparr>)"

section \<open>Helpers\<close>

text \<open>The \<open>is_illegal_cmd\<close> argument of the source only chooses a log message.\<close>

definition set_read_array_mode :: "'r flash_host \<Rightarrow> 'r pflash \<Rightarrow> bool \<times> 'r pflash" where
  "set_read_array_mode H f =
     (case fh_set_romd H True (pf_rom f) of
        (Inl e, r) \<Rightarrow> (False, f\<lparr>pf_rom := r\<rparr>)
      | (Inr _, r) \<Rightarrow> (True, f\<lparr>pf_rom := r, write_cycle := 0, pf_cmd := 0\<rparr>))"

definition query_index :: "'r pflash \<Rightarrow> u64 \<Rightarrow> u64" where
  "query_index f off =
     shr off (unat (trailing_zeros (bank_width f) + trailing_zeros (max_device_width f) - trailing_zeros (device_width f)))"

text \<open>
  The loop that repeats a response for every device of the bank. The inner option is the
  failure of \<open>deposit_u32\<close>; \<open>None\<close> outside stands for a loop that never ends.
\<close>

definition repeat_response :: "'r pflash \<Rightarrow> u32 \<Rightarrow> u32 option option" where
  "repeat_response f resp =
     map_option snd (while_option (\<lambda>(i, r). i < bank_width f \<and> r \<noteq> None)
       (\<lambda>(i, r). (i + device_width f, Option.bind r (\<lambda>v. deposit_u32 v (8 * i) (8 * device_width f) v)))
       (device_width f, Some resp))"

definition query_devid :: "'r pflash \<Rightarrow> u64 \<Rightarrow> u32 option option" where
  "query_devid f off =
     (let i = query_index f off AND 0xFF
      in if i \<noteq> 0 \<and> i \<noteq> 1 then Some (Some 0)
         else let resp = (if i = 0 then ident f ! 0 else ident f ! 1)
              in if device_width f < bank_width f then repeat_response f resp else Some (Some resp))"

definition query_cfi :: "'r pflash \<Rightarrow> u64 \<Rightarrow> u32 option option" where
  "query_cfi f off =
     (let i = query_index f off
      in if i \<ge> of_nat (length (cfi_table f)) then Some None
         else let c = ucast (cfi_table f ! unat i) :: u32
              in if device_width f \<noteq> max_device_width f \<and> (device_width f \<noteq> 1 \<or> bank_width f > 4) then Some None
                 else case (if device_width f \<noteq> max_device_width f
                            then fold (\<lambda>i r. Option.bind r (\<lambda>v. deposit_u32 v (8 * of_nat i) 8 c))
                                   [1..<unat (max_device_width f)] (Some c)
                            else Some c) of
                        None \<Rightarrow> Some None
                      | Some resp \<Rightarrow> if device_width f < bank_width f then repeat_response f resp else Some (Some resp))"

text \<open>Flushing passes the start of the region to \<open>msync\<close>, whatever the offset.\<close>

definition update_content :: "'r flash_host \<Rightarrow> u64 \<Rightarrow> u32 \<Rightarrow> 'r pflash \<Rightarrow> (pflash_error + unit) \<times> 'r pflash" where
  "update_content H off sz f =
     (if \<not> has_backend f then (Inr (), f)
      else if off + ucast sz > rom_size f then (Inl (PFlashWriteOverflow (rom_size f) off (ucast sz)), f)
      else if fh_msync_ok H (rom_host f) sz then (Inr (), f\<lparr>pf_syncs := pf_syncs f @ [(rom_host f, sz)]\<rparr>)
      else (Inl PFlashBail, f))"

definition flash_read_data :: "nat \<Rightarrow> u64 \<Rightarrow> 'r pflash \<Rightarrow> pflash_error + u8 list" where
  "flash_read_data n off f =
     (if off + of_nat n > rom_size f then Inl (PFlashReadOverflow (rom_size f) off (of_nat n))
      else Inr (load (pf_mem f) (rom_host f + off) n))"

definition flash_write_data :: "u8 list \<Rightarrow> u64 \<Rightarrow> 'r pflash \<Rightarrow> (pflash_error + unit) \<times> 'r pflash" where
  "flash_write_data data off f =
     (if off + of_nat (length data) > rom_size f
      then (Inl (PFlashWriteOverflow (rom_size f) off (of_nat (length data))), f)
      else (Inr (), f\<lparr>pf_mem := store (pf_mem f) (rom_host f + off) data\<rparr>))"

section \<open>The four write cycles\<close>

definition set_status_bits :: "u8 \<Rightarrow> 'r pflash \<Rightarrow> 'r pflash" where
  "set_status_bits b f = f\<lparr>pf_status := pf_status f OR b\<rparr>"

text \<open>Writing and flushing; both failures are only logged.\<close>

definition write_and_flush :: "'r flash_host \<Rightarrow> u8 list \<Rightarrow> u64 \<Rightarrow> u32 \<Rightarrow> 'r pflash \<Rightarrow> 'r pflash" where
  "write_and_flush H data off sz f = snd (update_content H off sz (snd (flash_write_data data off f)))"

definition next_cycle :: "u8 \<Rightarrow> 'r pflash \<Rightarrow> bool \<times> 'r pflash" where
  "next_cycle cmd f = (True, f\<lparr>write_cycle := write_cycle f + 1, pf_cmd := cmd\<rparr>)"

definition handle_write_first_pass :: "'r flash_host \<Rightarrow> u8 \<Rightarrow> u64 \<Rightarrow> 'r pflash \<Rightarrow> bool \<times> 'r pflash" where
  "handle_write_first_pass H cmd off f =
     (if cmd = 0x00 \<or> cmd = 0xf0 \<or> cmd = 0xff then set_read_array_mode H f
      else if cmd = 0x10 \<or> cmd = 0x40 then next_cycle cmd f
      else if cmd = 0x20
      then (let off_mask = off AND NOT (ucast (block_len f) - 1);
                f1 = (if \<not> pf_read_only f
                      then write_and_flush H (replicate (unat (block_len f)) 0xff) off_mask (block_len f) f
                      else set_status_bits 0x20 f)
            in next_cycle cmd (set_status_bits 0x80 f1))
      else if cmd = 0x50 then set_read_array_mode H (f\<lparr>pf_status := 0\<rparr>)
      else if cmd = 0x60 then next_cycle cmd f
      else if cmd = 0x70 \<or> cmd = 0x90 then (True, f\<lparr>pf_cmd := cmd\<rparr>)
      else if cmd = 0x98 then next_cycle cmd f
      else if cmd = 0xe8 then next_cycle cmd (set_status_bits 0x80 f)
      else set_read_array_mode H f)"

definition handle_write_second_pass ::
    "'r flash_host \<Rightarrow> u8 \<Rightarrow> u64 \<Rightarrow> u8 list \<Rightarrow> u8 \<Rightarrow> u32 \<Rightarrow> 'r pflash \<Rightarrow> bool \<times> 'r pflash" where
  "handle_write_second_pass H cmd off data data_len v f =
     (if pf_cmd f = 0x10 \<or> pf_cmd f = 0x40
      then (let f1 = (if \<not> pf_read_only f then write_and_flush H data off (ucast data_len) f
                      else set_status_bits 0x10 f)
            in (True, (set_status_bits 0x80 f1)\<lparr>write_cycle := 0\<rparr>))
      else if pf_cmd f = 0x20 \<or> pf_cmd f = 0x28
      then (if cmd = 0xd0 then (True, set_status_bits 0x80 (f\<lparr>write_cycle := 0\<rparr>)) else set_read_array_mode H f)
      else if pf_cmd f = 0xe8
      then (let len = (if device_width f \<noteq> 0 then device_width f * 8 else bank_width f * 8)
            in case extract_u32 v 0 len of
                 Some x \<Rightarrow> (True, f\<lparr>counter := x, write_cycle := write_cycle f + 1\<rparr>)
               | None \<Rightarrow> (False, f))
      else if pf_cmd f = 0x60
      then (if cmd = 0xd0 \<or> cmd = 0x01 then (True, set_status_bits 0x80 (f\<lparr>write_cycle := 0\<rparr>)) else set_read_array_mode H f)
      else if pf_cmd f = 0x98 then (if cmd = 0xff then set_read_array_mode H f else (True, f))
      else set_read_array_mode H f)"

definition handle_write_third_pass :: "'r flash_host \<Rightarrow> u64 \<Rightarrow> u8 list \<Rightarrow> 'r pflash \<Rightarrow> bool \<times> 'r pflash" where
  "handle_write_third_pass H off data f =
     (if pf_cmd f = 0xe8
      then (let f1 = set_status_bits 0x80
                       (if \<not> pf_read_only f then snd (flash_write_data data off f) else set_status_bits 0x10 f)
            in if counter f1 = 0
               then (let m = NOT (ucast (write_blk_size f1) - 1); f2 = f1\<lparr>write_cycle := write_cycle f1 + 1\<rparr>
                     in (True, if \<not> pf_read_only f2 then snd (update_content H (off AND m) (write_blk_size f2) f2)
                               else set_status_bits 0x10 f2))
               else (True, f1\<lparr>counter := counter f1 - 1\<rparr>))
      else set_read_array_mode H f)"

definition handle_write_fourth_pass :: "'r flash_host \<Rightarrow> u8 \<Rightarrow> 'r pflash \<Rightarrow> bool \<times> 'r pflash" where
  "handle_write_fourth_pass H cmd f =
     (if pf_cmd f = 0xe8 \<and> cmd = 0xd0 then (True, set_status_bits 0x80 (f\<lparr>write_cycle := 0\<rparr>))
      else set_read_array_mode H f)"

section \<open>Accesses\<close>

text \<open>The \<open>match\<close> on the write cycle.\<close>

definition handle_write :: "'r flash_host \<Rightarrow> u8 list \<Rightarrow> u64 \<Rightarrow> u32 \<Rightarrow> 'r pflash \<Rightarrow> bool \<times> 'r pflash" where
  "handle_write H data off v f =
     (let cmd = data ! 0; data_len = of_nat (length data) :: u8
      in if write_cycle f = 0 then handle_write_first_pass H cmd off f
         else if write_cycle f = 1 then handle_write_second_pass H cmd off data data_len v f
         else if write_cycle f = 2 then handle_write_third_pass H off data f
         else if write_cycle f = 3 then handle_write_fourth_pass H cmd f
         else (False, snd (set_read_array_mode H f)))"

definition pflash_write :: "'r flash_host \<Rightarrow> u8 list \<Rightarrow> u64 \<Rightarrow> 'r pflash \<Rightarrow> bool \<times> 'r pflash" where
  "pflash_write H data off f =
     (case read_data_u32 data 0 of
        (False, _) \<Rightarrow> (False, f)
      | (True, v) \<Rightarrow>
          handle_write H data off v
            (if write_cycle f = 0 then f\<lparr>pf_rom := snd (fh_set_romd H False (pf_rom f))\<rparr> else f))"

text \<open>The status register, repeated for every device the access reaches.\<close>

definition status_response :: "u32 \<Rightarrow> 'r pflash \<Rightarrow> u32 option" where
  "status_response data_len f =
     (let st = ucast (pf_status f) :: u32
      in if device_width f \<noteq> 0 \<and> data_len > device_width f
         then map_option snd (while_option (\<lambda>(s, r). s + device_width f * 8 \<le> data_len * 8)
                (\<lambda>(s, r). (s + device_width f * 8, r OR shl st (unat s))) (device_width f * 8, st))
         else if device_width f = 0 \<and> data_len > 2 then Some (st OR shl st 16)
         else Some st)"

text \<open>
  A query larger than the bank combines several responses; the first that fails ends the loop
  with what was collected. The flag says that the loop was left.
\<close>

definition combine_queries :: "(u64 \<Rightarrow> u32 option option) \<Rightarrow> u32 \<Rightarrow> u64 \<Rightarrow> 'r pflash \<Rightarrow> u32 option" where
  "combine_queries query data_len off f =
     Option.bind (while_option (\<lambda>(i, r, stop). i < data_len \<and> \<not> stop)
       (\<lambda>(i, r, stop).
          (case query (off + ucast (i * bank_width f)) of
             None \<Rightarrow> (i, None, True)
           | Some None \<Rightarrow> (i, r, True)
           | Some (Some v) \<Rightarrow>
               (case deposit_u32 (the r) (i * 8) (bank_width f * 8) v of
                  None \<Rightarrow> (i, r, True)
                | Some r' \<Rightarrow> (i + bank_width f, Some r', False))))
       (0, Some 0, False)) (\<lambda>(i, r, stop). r)"

definition narrow_index :: "u64 \<Rightarrow> 'r pflash \<Rightarrow> u64" where
  "narrow_index off f =
     (let i = off AND 0xFF
      in if bank_width f = 2 then shr i 1 else if bank_width f = 4 then shr i 2 else i)"

text \<open>
  The register value of a read in a command mode: identification, CFI query or status.
  \<open>None\<close> stands for a loop that never ends.
\<close>

definition pflash_response :: "u32 \<Rightarrow> u64 \<Rightarrow> 'r pflash \<Rightarrow> u32 option" where
  "pflash_response data_len off f =
     (if pf_cmd f = 0x90
      then if device_width f = 0
           then Some (if narrow_index off f = 0 then shl (ident f ! 0) 8 OR ident f ! 1
                      else if narrow_index off f = 1 then shl (ident f ! 2) 8 OR ident f ! 3 else 0)
           else combine_queries (query_devid f) data_len off f
      else if pf_cmd f = 0x98
      then if device_width f = 0
           then Some (if narrow_index off f < of_nat (length (cfi_table f))
                      then ucast (cfi_table f ! unat (narrow_index off f)) else 0)
           else combine_queries (query_cfi f) data_len off f
      else status_response data_len f)"

definition pflash_read :: "u8 list \<Rightarrow> u64 \<Rightarrow> 'r pflash \<Rightarrow> (bool \<times> u8 list \<times> 'r pflash) option" where
  "pflash_read data off f =
     (let filled = (\<lambda>f. case flash_read_data (length data) off f of Inl _ \<Rightarrow> data | Inr bs \<Rightarrow> bs)
      in if pf_cmd f = 0x00 then Some (True, filled f, f)
         else if pf_cmd f \<in> {0x10, 0x20, 0x28, 0x40, 0x50, 0x60, 0x70, 0xe8, 0x90, 0x98}
         then map_option (\<lambda>v. case write_data_u32 data v of (ok, d) \<Rightarrow> (ok, d, f))
                (pflash_response (of_nat (length data)) off f)
         else let f1 = f\<lparr>write_cycle := 0, pf_cmd := 0x00\<rparr>
              in Some (case write_data_u32 (filled f1) 0 of (ok, d) \<Rightarrow> (ok, d, f1)))"

definition pflash_reset :: "'r flash_host \<Rightarrow> 'r pflash \<Rightarrow> (as_error + unit) \<times> 'r pflash" where
  "pflash_reset H f =
     (case fh_set_romd H True (pf_rom f) of
        (Inl e, r) \<Rightarrow> (Inl e, f\<lparr>pf_rom := r\<rparr>)
      | (Inr _, r) \<Rightarrow> (Inr (), f\<lparr>pf_rom := r, pf_cmd := 0x00, write_cycle := 0, pf_status := 0x80\<rparr>))"

end
