(* ===== verification/PFlashSafety.thy ===== *)
theory PFlashSafety
  imports PFlash
begin

text \<open>
  What a guest can do with the flash: the command state machine stays in the states the code
  expects, a write-protected flash never changes, and whatever is written stays inside the
  flash. Programming and reading back gives the programmed bytes.
\<close>

section \<open>Reachable states\<close>

text \<open>
  One access by the guest, or a reset. The address space hands the device only accesses that
  lie inside its region.
\<close>

inductive pflash_step :: "'r flash_host \<Rightarrow> 'r pflash \<Rightarrow> 'r pflash \<Rightarrow> bool" for H :: "'r flash_host" where
  flash_reads: "pflash_read data off f = Some (ok, d, f') \<Longrightarrow> unat off + length data \<le> unat (rom_size f) \<Longrightarrow> pflash_step H f f'"
| flash_writes: "pflash_write H data off f = (ok, f') \<Longrightarrow> unat off + length data \<le> unat (rom_size f) \<Longrightarrow> pflash_step H f f'"
| flash_resets: "pflash_reset H f = (res, f') \<Longrightarrow> pflash_step H f f'"

definition cycle_ok :: "'r pflash \<Rightarrow> bool" where
  "cycle_ok f =
     (write_cycle f = 0 \<and> pf_cmd f \<in> {0x00, 0x10, 0x20, 0x40, 0x60, 0x70, 0x90, 0xe8} \<or>
      write_cycle f = 1 \<and> pf_cmd f \<in> {0x10, 0x20, 0x40, 0x60, 0x98, 0xe8} \<or>
      (write_cycle f = 2 \<or> write_cycle f = 3) \<and> pf_cmd f = 0xe8)"

text \<open>What no operation of the device changes: its geometry, and memory outside the flash or behind write protection.\<close>

definition in_flash :: "'r pflash \<Rightarrow> u64 \<Rightarrow> bool" where
  "in_flash f a = (unat (a - rom_host f) < unat (rom_size f))"

definition kept :: "'r pflash \<Rightarrow> 'r pflash \<Rightarrow> bool" where
  "kept f f' = (rom_size f' = rom_size f \<and> rom_host f' = rom_host f \<and> pf_read_only f' = pf_read_only f \<and>
     block_len f' = block_len f \<and>
     (\<forall>a. \<not> in_flash f a \<longrightarrow> pf_mem f' a = pf_mem f a) \<and> (pf_read_only f \<longrightarrow> pf_mem f' = pf_mem f))"

lemma kept_refl [simp]: "kept f f"
  by (simp add: kept_def)

lemma kept_trans: "kept f g \<Longrightarrow> kept g h \<Longrightarrow> kept f h"
  by (auto simp: kept_def in_flash_def)

lemma kept_updates [simp]:
  "kept f (g\<lparr>pf_rom := r\<rparr>) = kept f g" "kept f (g\<lparr>write_cycle := i\<rparr>) = kept f g" "kept f (g\<lparr>pf_cmd := c\<rparr>) = kept f g"
  "kept f (g\<lparr>pf_status := s\<rparr>) = kept f g" "kept f (g\<lparr>counter := n\<rparr>) = kept f g" "kept f (g\<lparr>pf_syncs := y\<rparr>) = kept f g"
  by (simp_all add: kept_def)

lemma kept_status [simp]: "kept f (set_status_bits b g) = kept f g"
  by (simp add: set_status_bits_def)

lemma kept_array_mode: "kept f g \<Longrightarrow> kept f (snd (set_read_array_mode H g))"
  by (simp add: set_read_array_mode_def split: prod.split sum.split)

lemma kept_update_content: "kept f g \<Longrightarrow> kept f (snd (update_content H off sz g))"
  by (simp add: update_content_def)

lemma kept_write_data:
  assumes k: "kept f g" and w: "\<not> pf_read_only f" and b: "unat off + length data < 2 ^ 64"
  shows "kept f (snd (flash_write_data data off g))"
proof (cases "off + of_nat (length data) > rom_size g")
  case True
  then show ?thesis using k by (simp add: flash_write_data_def)
next
  case False
  have len: "unat (of_nat (length data) :: u64) = length data" using b by (simp add: unat_of_nat take_bit_nat_eq_self)
  then have fits: "unat off + length data \<le> unat (rom_size f)"
    using False k b by (simp add: kept_def word_less_nat_alt unat_add_eq)
  have "store (pf_mem g) (rom_host g + off) data a = pf_mem g a" if "\<not> in_flash f a" for a
  proof (rule store_other, rule ccontr)
    assume "\<not> length data \<le> unat (a - (rom_host g + off))"
    then have lt: "unat (a - (rom_host g + off)) < length data" by simp
    have "a - rom_host f = off + (a - (rom_host g + off))" using k by (simp add: kept_def)
    moreover have "unat (off + (a - (rom_host g + off))) = unat off + unat (a - (rom_host g + off))"
      using lt b by (subst unat_add_eq) auto
    ultimately show False using that lt fits by (simp add: in_flash_def)
  qed
  then show ?thesis using False k w by (simp add: flash_write_data_def kept_def in_flash_def)
qed

section \<open>Writes stay inside the flash\<close>

definition flash_small :: "'r pflash \<Rightarrow> bool" where
  "flash_small f = (unat (rom_size f) + 2 ^ 32 < 2 ^ 64)"

lemma mask_le: "unat (off AND m) \<le> unat (off :: u64)"
  by (simp add: word_and_le2 flip: word_le_nat_alt)

lemma kept_write_and_flush:
  assumes "\<not> pf_read_only f" and "unat off + length data < 2 ^ 64"
  shows "kept f (write_and_flush H data off sz f)"
  unfolding write_and_flush_def using assms by (intro kept_update_content kept_write_data) auto

lemma kept_first_pass:
  assumes "flash_small f" and "unat off \<le> unat (rom_size f)"
  shows "kept f (snd (handle_write_first_pass H cmd off f))"
proof -
  let ?m = "off AND NOT (ucast (block_len f) - 1)"
  have "unat (block_len f) < 2 ^ 32" using unsigned_less [of "block_len f", where 'a = nat] by simp
  then have "unat ?m + unat (block_len f) < 2 ^ 64" using assms mask_le [of off "NOT (ucast (block_len f) - 1)"]
    by (simp add: flash_small_def)
  then have "kept f (write_and_flush H (replicate (unat (block_len f)) 0xff) ?m (block_len f) f)" if "\<not> pf_read_only f"
    using that by (intro kept_write_and_flush) simp_all
  then show ?thesis
    by (auto simp: handle_write_first_pass_def next_cycle_def Let_def intro: kept_array_mode)
qed

lemma kept_second_pass:
  assumes "unat off + length data < 2 ^ 64"
  shows "kept f (snd (handle_write_second_pass H cmd off data n v f))"
  using kept_write_and_flush [OF _ assms]
  by (auto simp: handle_write_second_pass_def Let_def intro: kept_array_mode split: option.split)

lemma kept_third_pass:
  assumes "unat off + length data < 2 ^ 64"
  shows "kept f (snd (handle_write_third_pass H off data f))"
  using kept_write_data [OF kept_refl _ assms]
  by (auto simp: handle_write_third_pass_def Let_def intro!: kept_array_mode kept_update_content)

lemma kept_fourth_pass: "kept f (snd (handle_write_fourth_pass H cmd f))"
  by (auto simp: handle_write_fourth_pass_def intro: kept_array_mode)

lemma kept_handle_write:
  assumes "flash_small f" and "unat off + length data \<le> unat (rom_size f)"
  shows "kept f (snd (handle_write H data off v f))"
proof -
  have b: "unat off + length data < 2 ^ 64" "unat off \<le> unat (rom_size f)" using assms by (simp_all add: flash_small_def)
  show ?thesis
    by (simp add: handle_write_def Let_def kept_first_pass [OF assms(1) b(2)] kept_second_pass [OF b(1)]
        kept_third_pass [OF b(1)] kept_fourth_pass kept_array_mode)
qed

text \<open>A write either is refused, or runs the current cycle after the region has left read-array mode.\<close>

lemma pflash_write_cases:
  assumes "pflash_write H data off f = (ok, f')"
  obtains (refused) "f' = f" "\<not> ok"
    | (run) v r where "(ok, f') = handle_write H data off v (f\<lparr>pf_rom := r\<rparr>)"
proof (cases "read_data_u32 data 0")
  case (Pair b v)
  show ?thesis
  proof (cases b)
    case True
    then show ?thesis using assms Pair run [of v "snd (fh_set_romd H False (pf_rom f))"] run [of v "pf_rom f"]
      by (simp add: pflash_write_def split: if_splits)
  next
    case False
    then show ?thesis using assms Pair refused by (simp add: pflash_write_def)
  qed
qed

lemma kept_write:
  assumes "pflash_write H data off f = (ok, f')" and "flash_small f" and "unat off + length data \<le> unat (rom_size f)"
  shows "kept f f'"
  using assms(1)
proof (cases rule: pflash_write_cases)
  case (run v r)
  let ?g = "f\<lparr>pf_rom := r\<rparr>"
  have "f' = snd (handle_write H data off v ?g)" using run by (metis snd_conv)
  moreover have "kept ?g (snd (handle_write H data off v ?g))"
    using assms(2,3) by (intro kept_handle_write) (simp_all add: flash_small_def)
  ultimately show ?thesis using kept_trans [of f ?g f'] by simp
qed simp

lemma pflash_read_state:
  "pflash_read data off f = Some (ok, d, f') \<Longrightarrow> f' = f \<or>
     pf_cmd f \<notin> {0x00, 0x10, 0x20, 0x28, 0x40, 0x50, 0x60, 0x70, 0xe8, 0x90, 0x98} \<and> f' = f\<lparr>write_cycle := 0, pf_cmd := 0\<rparr>"
  unfolding pflash_read_def Let_def by (simp add: case_prod_beta split: if_splits) auto

lemma kept_read: "pflash_read data off f = Some (ok, d, f') \<Longrightarrow> kept f f'"
  by (auto dest: pflash_read_state)

lemma kept_reset: "pflash_reset H f = (res, f') \<Longrightarrow> kept f f'"
  by (auto simp: pflash_reset_def split: prod.splits sum.splits)

lemma kept_step:
  assumes "pflash_step H f f'" and "flash_small f"
  shows "kept f f'"
  using assms by (induction rule: pflash_step.induct) (auto intro: kept_write kept_read kept_reset)

section \<open>The command state machine\<close>

lemma cycle_updates [simp]:
  "cycle_ok (f\<lparr>pf_rom := r\<rparr>) = cycle_ok f" "cycle_ok (f\<lparr>pf_status := x\<rparr>) = cycle_ok f"
  "cycle_ok (f\<lparr>counter := n\<rparr>) = cycle_ok f"
  by (simp_all add: cycle_ok_def)

lemma flash_sel [simp]:
  "write_cycle (set_status_bits b f) = write_cycle f" "pf_cmd (set_status_bits b f) = pf_cmd f"
  "write_cycle (snd (flash_write_data data off f)) = write_cycle f" "pf_cmd (snd (flash_write_data data off f)) = pf_cmd f"
  "write_cycle (snd (update_content H off sz f)) = write_cycle f" "pf_cmd (snd (update_content H off sz f)) = pf_cmd f"
  "write_cycle (write_and_flush H data off sz f) = write_cycle f" "pf_cmd (write_and_flush H data off sz f) = pf_cmd f"
  by (simp_all add: set_status_bits_def flash_write_data_def update_content_def write_and_flush_def)

lemma cycle_array_mode: "cycle_ok f \<Longrightarrow> cycle_ok (snd (set_read_array_mode H f))"
  by (simp add: set_read_array_mode_def split: prod.split sum.split) (simp add: cycle_ok_def)

lemma cycle_first_pass:
  assumes "cycle_ok f" and "write_cycle f = 0"
  shows "cycle_ok (snd (handle_write_first_pass H cmd off f))"
  using assms cycle_array_mode [of f H] cycle_array_mode [of "f\<lparr>pf_status := 0\<rparr>" H]
  by (auto simp: handle_write_first_pass_def next_cycle_def Let_def cycle_ok_def [of "_\<lparr>pf_cmd := _\<rparr>"])

lemma cycle_third_pass:
  assumes "cycle_ok f" and "write_cycle f = 2"
  shows "cycle_ok (snd (handle_write_third_pass H off data f))"
  using assms cycle_array_mode [of f H]
  by (auto simp: handle_write_third_pass_def Let_def cycle_ok_def)

lemma cycle_fourth_pass:
  assumes "cycle_ok f"
  shows "cycle_ok (snd (handle_write_fourth_pass H cmd f))"
  using assms cycle_array_mode [of f H]
  by (auto simp: handle_write_fourth_pass_def cycle_ok_def)

lemma cycle_second_pass:
  assumes "cycle_ok f" and "write_cycle f = 1"
  shows "cycle_ok (snd (handle_write_second_pass H cmd off data n v f))"
  using assms cycle_array_mode [of f H]
  by (auto simp: handle_write_second_pass_def Let_def cycle_ok_def [of "_\<lparr>write_cycle := _\<rparr>"] cycle_ok_def [of "set_status_bits _ _"]
      split: option.split) (auto simp: cycle_ok_def)

lemma cycle_write:
  assumes "pflash_write H data off f = (ok, f')" and "cycle_ok f"
  shows "cycle_ok f'"
  using assms(1)
proof (cases rule: pflash_write_cases)
  case (run v r)
  let ?g = "f\<lparr>pf_rom := r\<rparr>"
  have ok: "cycle_ok ?g" using assms(2) by simp
  have wc: "write_cycle ?g = 0 \<or> write_cycle ?g = 1 \<or> write_cycle ?g = 2 \<or> write_cycle ?g = 3"
    using ok unfolding cycle_ok_def by blast
  have "f' = snd (handle_write H data off v ?g)" using run by (metis snd_conv)
  then show ?thesis using wc unfolding handle_write_def Let_def
    by (elim disjE) (simp_all add: cycle_first_pass [OF ok] cycle_second_pass [OF ok] cycle_third_pass [OF ok] cycle_fourth_pass [OF ok])
qed (use assms(2) in simp)

lemma cycle_read:
  assumes "pflash_read data off f = Some (ok, d, f')" and "cycle_ok f"
  shows "f' = f"
  using pflash_read_state [OF assms(1)] assms(2) unfolding cycle_ok_def by auto

lemma cycle_reset: "pflash_reset H f = (res, f') \<Longrightarrow> cycle_ok f \<Longrightarrow> cycle_ok f'"
  by (auto simp: pflash_reset_def split: prod.splits sum.splits) (simp_all add: cycle_ok_def)

text \<open>
  C6. Whatever sequence of reads, writes and resets the guest issues, and whether or not the
  region can be remapped: the command state machine stays in its intended states (so the
  branches for unknown commands and write cycles are never taken), host memory outside the
  flash is never changed, and a write-protected flash keeps its contents.
\<close>

theorem pflash_contained:
  assumes "(pflash_step H)\<^sup>*\<^sup>* f f'" and "cycle_ok f" and "flash_small f"
  shows "cycle_ok f' \<and> (\<forall>a. \<not> in_flash f a \<longrightarrow> pf_mem f' a = pf_mem f a) \<and> (pf_read_only f \<longrightarrow> pf_mem f' = pf_mem f)"
proof -
  from assms have "cycle_ok f' \<and> kept f f'"
  proof (induction rule: rtranclp_induct)
    case base
    then show ?case by simp
  next
    case (step g h)
    then have g: "cycle_ok g" "kept f g" by auto
    then have "flash_small g" using assms(3) by (simp add: kept_def flash_small_def)
    with step(2) have "kept g h" by (rule kept_step)
    with g(2) have "kept f h" by (rule kept_trans)
    moreover have "cycle_ok h" using step(2) g(1)
      by (induction rule: pflash_step.induct) (auto intro: cycle_write cycle_reset dest: cycle_read)
    ultimately show ?case by simp
  qed
  then show ?thesis by (auto simp: kept_def)
qed

section \<open>Programming\<close>

definition flash_idle :: "'r flash_host \<Rightarrow> 'r pflash \<Rightarrow> bool" where
  "flash_idle H f = (write_cycle f = 0 \<and> \<not> pf_read_only f \<and> (\<forall>b r. \<exists>r'. fh_set_romd H b r = (Inr (), r')))"

lemma in_bounds:
  fixes off sz :: u64
  assumes "unat off + n \<le> unat sz"
  shows "\<not> sz < off + of_nat n"
proof -
  have lt: "unat off + n < 2 ^ 64" using assms by (rule le_less_trans) simp
  then have "unat (of_nat n :: u64) = n" by (simp add: unat_of_nat take_bit_nat_eq_self)
  with lt have "unat (off + of_nat n) = unat off + n" by (simp add: unat_add_eq)
  with assms show ?thesis by (simp add: word_less_nat_alt)
qed

lemma read_data_u32_ok: "length data \<in> {1, 2, 4} \<Longrightarrow> \<exists>v. read_data_u32 data 0 = (True, v)"
  by (auto simp: read_data_u32_def)

lemma program_setup:
  assumes "flash_idle H f"
  shows "\<exists>r. pflash_write H [0x40] off f = (True, f\<lparr>pf_rom := r, write_cycle := 1, pf_cmd := 0x40\<rparr>)"
  using assms by (intro exI [of _ "snd (fh_set_romd H False (pf_rom f))"])
    (simp add: flash_idle_def pflash_write_def handle_write_def handle_write_first_pass_def next_cycle_def
      read_data_u32_def Let_def)

lemma program_data:
  assumes "flash_idle H f" and "length data \<in> {1, 2, 4}" and "unat off + length data \<le> unat (rom_size f)"
  shows "\<exists>st sy. pflash_write H data off (f\<lparr>pf_rom := r, write_cycle := 1, pf_cmd := 0x40\<rparr>) =
    (True, f\<lparr>pf_rom := r, write_cycle := 0, pf_cmd := 0x40, pf_mem := store (pf_mem f) (rom_host f + off) data, pf_status := st, pf_syncs := sy\<rparr>)"
proof -
  let ?f = "f\<lparr>pf_rom := r, write_cycle := 1, pf_cmd := 0x40\<rparr>" and ?mem = "store (pf_mem f) (rom_host f + off) data"
  obtain v where v: "read_data_u32 data 0 = (True, v)" using read_data_u32_ok [OF assms(2)] by blast
  have w: "flash_write_data data off ?f = (Inr (), ?f\<lparr>pf_mem := ?mem\<rparr>)"
    using in_bounds [OF assms(3)] by (simp add: flash_write_data_def)
  have "\<exists>sy. snd (update_content H off n g) = g\<lparr>pf_syncs := sy\<rparr>" for n g
    by (cases g) (simp add: update_content_def)
  then obtain sy where "write_and_flush H data off (ucast (of_nat (length data) :: u8)) ?f = ?f\<lparr>pf_mem := ?mem, pf_syncs := sy\<rparr>"
    unfolding write_and_flush_def w snd_conv by blast
  moreover have "pflash_write H data off ?f =
      (True, (set_status_bits 0x80 (write_and_flush H data off (ucast (of_nat (length data) :: u8)) ?f))\<lparr>write_cycle := 0\<rparr>)"
    using assms(1) v by (simp add: flash_idle_def pflash_write_def handle_write_def handle_write_second_pass_def Let_def)
  ultimately show ?thesis
    by (intro exI [of _ "pf_status f OR 0x80"] exI [of _ sy]) (simp add: set_status_bits_def)
qed

lemma program_done:
  assumes "flash_idle H f"
  shows "\<exists>r'. pflash_write H [0xff] off f = (True, f\<lparr>pf_rom := r', write_cycle := 0, pf_cmd := 0\<rparr>)"
proof -
  obtain r1 r2 where "write_cycle f = 0" "fh_set_romd H False (pf_rom f) = (Inr (), r1)" "fh_set_romd H True r1 = (Inr (), r2)"
    using assms by (metis flash_idle_def)
  then show ?thesis
    by (intro exI [of _ r2])
      (simp add: pflash_write_def handle_write_def handle_write_first_pass_def set_read_array_mode_def read_data_u32_def Let_def)
qed

text \<open>
  C36. Programming an idle, writable flash with one, two or four bytes and switching back to
  read-array mode: reading the place returns the bytes, and the rest of memory is as before.
\<close>

theorem program_read_back:
  assumes idle: "flash_idle H f" and d: "length data \<in> {1, 2, 4}" and rom: "unat off + length data \<le> unat (rom_size f)"
    and buf: "length buf = length data"
  shows "\<exists>f1 f2 f3. pflash_write H [0x40] off f = (True, f1) \<and> pflash_write H data off f1 = (True, f2) \<and>
    pflash_write H [0xff] off f2 = (True, f3) \<and> pflash_read buf off f3 = Some (True, data, f3) \<and>
    (\<forall>a. length data \<le> unat (a - (rom_host f + off)) \<longrightarrow> pf_mem f3 a = pf_mem f a)"
proof -
  obtain r where 1: "pflash_write H [0x40] off f = (True, f\<lparr>pf_rom := r, write_cycle := 1, pf_cmd := 0x40\<rparr>)"
    using program_setup [OF idle] by blast
  let ?mem = "store (pf_mem f) (rom_host f + off) data"
  obtain st sy where 2: "pflash_write H data off (f\<lparr>pf_rom := r, write_cycle := 1, pf_cmd := 0x40\<rparr>) =
      (True, f\<lparr>pf_rom := r, write_cycle := 0, pf_cmd := 0x40, pf_mem := ?mem, pf_status := st, pf_syncs := sy\<rparr>)"
    using program_data [OF idle d rom] by blast
  let ?f2 = "f\<lparr>pf_rom := r, write_cycle := 0, pf_cmd := 0x40, pf_mem := ?mem, pf_status := st, pf_syncs := sy\<rparr>"
  have "flash_idle H ?f2" using idle by (simp add: flash_idle_def)
  then obtain r' where 3: "pflash_write H [0xff] off ?f2 = (True, ?f2\<lparr>pf_rom := r', write_cycle := 0, pf_cmd := 0\<rparr>)"
    using program_done by blast
  have "load ?mem (rom_host f + off) (length data) = data" using d by (intro load_store_same) auto
  with in_bounds [OF rom] have "pflash_read buf off (?f2\<lparr>pf_rom := r', write_cycle := 0, pf_cmd := 0\<rparr>) =
      Some (True, data, ?f2\<lparr>pf_rom := r', write_cycle := 0, pf_cmd := 0\<rparr>)"
    using buf by (simp add: pflash_read_def flash_read_data_def)
  with 1 2 3 show ?thesis
    by (intro exI [of _ "?f2\<lparr>pf_rom := r', write_cycle := 0, pf_cmd := 0\<rparr>"] exI conjI) (simp_all add: store_other)
qed

section \<open>Flushing\<close>

text \<open>The bytes \<open>msync\<close> writes back: whole pages from the address it is given.\<close>

definition flushed :: "'r pflash \<Rightarrow> u64 \<Rightarrow> bool" where
  "flushed f a = (\<exists>(h, n) \<in> set (pf_syncs f). unat (a - h) < (unat n + 4095) div 4096 * 4096)"

text \<open>
  Programming does not flush what it wrote: \<open>update_content\<close> checks the offset but passes
  the start of the region to \<open>msync\<close>, so a byte programmed beyond the first page is not
  written back to the file.
\<close>

theorem program_not_flushed:
  assumes "pf_syncs f = []" and "4096 \<le> unat off" and "length data \<in> {1, 2, 4}"
    and "pflash_write H data off (f\<lparr>write_cycle := 1, pf_cmd := 0x40\<rparr>) = (ok, f')"
  shows "\<not> flushed f' (rom_host f + off)"
proof -
  let ?n = "ucast (of_nat (length data) :: u8) :: u32"
  obtain v where v: "read_data_u32 data 0 = (True, v)" using read_data_u32_ok [OF assms(3)] by blast
  have "pf_syncs f' \<in> {[], [(rom_host f, ?n)]}"
    using assms(1,4) v
    by (auto simp: pflash_write_def handle_write_def handle_write_second_pass_def write_and_flush_def flash_write_data_def
        update_content_def set_status_bits_def Let_def split: if_splits)
  moreover have "(unat ?n + 4095) div 4096 * 4096 \<le> 4096" using assms(3) by auto
  ultimately show ?thesis using assms(2) by (auto simp: flushed_def)
qed

section \<open>A concrete flash\<close>

definition demo_flash_host :: "unit flash_host" where
  "demo_flash_host = \<lparr>fh_set_romd = (\<lambda>_ r. (Inr (), r)), fh_msync_ok = (\<lambda>_ _. True)\<rparr>"

text \<open>The flash of the x86 machine: 4 KiB sectors, four devices of one byte each.\<close>

definition demo_flash :: "bool \<Rightarrow> unit pflash" where
  "demo_flash ro = (case new_pflash 0x10000 (Some 0x10000) 0x1000 4 1 ro () 0x100000 (\<lambda>_. 0) of Inr f \<Rightarrow> f)"

lemma demo_flash_sel:
  "write_cycle (demo_flash ro) = 0" "pf_cmd (demo_flash ro) = 0" "pf_read_only (demo_flash ro) = ro" "rom_size (demo_flash ro) = 0x10000"
  "rom_host (demo_flash ro) = 0x100000" "pf_syncs (demo_flash ro) = []" "pf_mem (demo_flash ro) = (\<lambda>_. 0)"
  by (simp_all add: demo_flash_def new_pflash_def Let_def)

theorem pflash_contained_witness:
  "\<exists>f. (pflash_step demo_flash_host)\<^sup>*\<^sup>* (demo_flash True) f \<and> pf_mem f 0x101000 = 0"
proof -
  let ?f = "snd (pflash_write demo_flash_host [0x20] 0x1000 (demo_flash True))"
  have "pflash_step demo_flash_host (demo_flash True) ?f"
    by (rule flash_writes [OF prod.collapse [symmetric]]) (simp add: demo_flash_sel)
  then have run: "(pflash_step demo_flash_host)\<^sup>*\<^sup>* (demo_flash True) ?f" by (rule r_into_rtranclp)
  have "cycle_ok (demo_flash True)" "flash_small (demo_flash True)"
    by (simp_all add: cycle_ok_def flash_small_def demo_flash_sel)
  from pflash_contained [OF run this] run show ?thesis by (auto simp: demo_flash_sel)
qed

theorem program_read_back_witness:
  "\<exists>f1 f2 f3. pflash_write demo_flash_host [0x40] 0x2000 (demo_flash False) = (True, f1) \<and>
     pflash_write demo_flash_host [0xab, 0xcd] 0x2000 f1 = (True, f2) \<and> pflash_write demo_flash_host [0xff] 0x2000 f2 = (True, f3) \<and>
     pflash_read [0, 0] 0x2000 f3 = Some (True, [0xab, 0xcd], f3)"
proof -
  have "flash_idle demo_flash_host (demo_flash False)" by (simp add: flash_idle_def demo_flash_sel demo_flash_host_def)
  from program_read_back [OF this, of "[0xab, 0xcd]" "0x2000" "[0, 0]"] show ?thesis by (auto simp: demo_flash_sel)
qed

theorem program_not_flushed_witness:
  "\<exists>ok f. pflash_write demo_flash_host [0xab] 0x2000 ((demo_flash False)\<lparr>write_cycle := 1, pf_cmd := 0x40\<rparr>) = (ok, f) \<and>
     \<not> flushed f 0x102000"
proof -
  obtain ok f where "pflash_write demo_flash_host [0xab] 0x2000 ((demo_flash False)\<lparr>write_cycle := 1, pf_cmd := 0x40\<rparr>) = (ok, f)" by force
  with program_not_flushed [OF _ _ _ this] show ?thesis by (simp add: demo_flash_sel)
qed

end
