(* ===== verification/PFlashRead.thy ===== *)
theory PFlashRead
  imports PFlashSafety
begin

text \<open>
  Reading the flash always returns: the loops that repeat a response for every device of the
  bank and combine the responses of a wide access end for every geometry the machines use.
\<close>

definition geometry_ok :: "'r pflash \<Rightarrow> bool" where
  "geometry_ok f = (bank_width f \<in> {1, 2, 4} \<and> device_width f \<in> {0, 1, 2, 4})"

lemma width_step:
  fixes i w n :: u32
  assumes "i < n" and "unat n \<le> 2 ^ 16" and "w \<in> {1, 2, 4, 8, 16, 32}"
  shows "unat n - unat (i + w) < unat n - unat i"
proof -
  have w: "0 < unat w" "unat w \<le> 32" using assms(3) by auto
  have i: "unat i < unat n" using assms(1) by (simp add: word_less_nat_alt)
  then have "unat (i + w) = unat i + unat w" using w assms(2) by (subst unat_add_eq) auto
  with w i show ?thesis by simp
qed

lemma repeat_response_ends:
  assumes "geometry_ok f" and "device_width f \<noteq> 0"
  shows "\<exists>r. repeat_response f v = Some r"
proof -
  have n: "unat (bank_width f) \<le> 2 ^ 16" and w: "device_width f \<in> {1, 2, 4, 8, 16, 32}"
    using assms by (auto simp: geometry_ok_def)
  have "\<exists>t. while_option (\<lambda>(i, r). i < bank_width f \<and> r \<noteq> None)
      (\<lambda>(i, r). (i + device_width f, Option.bind r (\<lambda>v. deposit_u32 v (8 * i) (8 * device_width f) v)))
      (device_width f, Some v) = Some t"
    by (rule measure_while_option_Some [where P = "\<lambda>_. True" and f = "\<lambda>(i, r). unat (bank_width f) - unat i"])
      (use width_step [OF _ n w] in auto)
  then show ?thesis by (auto simp: repeat_response_def)
qed

lemma queries_end:
  assumes "geometry_ok f" and "device_width f \<noteq> 0"
  shows "query_devid f off \<noteq> None" "query_cfi f off \<noteq> None"
  using repeat_response_ends [OF assms] by (auto simp: query_devid_def query_cfi_def Let_def split: option.split)

lemma combine_queries_ends:
  assumes g: "geometry_ok f" and q: "\<And>x. query x \<noteq> None" and n: "unat data_len \<le> 2 ^ 16"
  shows "\<exists>r. combine_queries query data_len off f = Some r"
proof -
  let ?b = "\<lambda>(i, r :: u32 option, stop). i < data_len \<and> \<not> stop"
  let ?c = "\<lambda>(i, r, stop).
          (case query (off + ucast (i * bank_width f)) of
             None \<Rightarrow> (i, None, True)
           | Some None \<Rightarrow> (i, r, True)
           | Some (Some v) \<Rightarrow>
               (case deposit_u32 (the r) (i * 8) (bank_width f * 8) v of
                  None \<Rightarrow> (i, r, True)
                | Some r' \<Rightarrow> (i + bank_width f, Some r', False)))"
  have w: "bank_width f \<in> {1, 2, 4, 8, 16, 32}" using g by (auto simp: geometry_ok_def)
  let ?m = "\<lambda>(i :: u32, r :: u32 option, stop). if stop then 0 else Suc (unat data_len - unat i)"
  have step: "fst (snd (?c s)) \<noteq> None \<and> ?m (?c s) < ?m s" if "fst (snd s) \<noteq> None" "?b s" for s
    using that q [of "off + ucast (fst s * bank_width f)"] width_step [OF _ n w, of "fst s"]
    by (cases s) (auto split: option.split)
  then obtain t where t: "while_option ?b ?c (0, Some 0, False) = Some t"
    using measure_while_option_Some [where P = "\<lambda>s. fst (snd s) \<noteq> None" and b = ?b and c = ?c and f = ?m and s = "(0, Some 0, False)"]
    by fastforce
  have "fst (snd t) \<noteq> None"
    using while_option_rule [where P = "\<lambda>s. fst (snd s) \<noteq> None", OF _ t] step by auto
  then show ?thesis using t by (cases t) (auto simp: combine_queries_def)
qed

lemma status_response_ends:
  assumes "geometry_ok f" and n: "unat data_len \<le> 2 ^ 8"
  shows "\<exists>r. status_response data_len f = Some r"
proof (cases "device_width f \<noteq> 0 \<and> data_len > device_width f")
  case True
  let ?w = "device_width f * 8"
  have w: "?w \<in> {8, 16, 32}" using assms True by (auto simp: geometry_ok_def)
  have d: "unat (data_len * 8) = unat data_len * 8" using n by (simp add: unat_word_ariths)
  have "\<exists>t. while_option (\<lambda>(s, r). s + ?w \<le> data_len * 8) (\<lambda>(s, r). (s + ?w, r OR shl (ucast (pf_status f)) (unat s)))
      (?w, ucast (pf_status f) :: u32) = Some t"
  proof (rule measure_while_option_Some [where P = "\<lambda>(s, r). unat s \<le> 2 ^ 12" and f = "\<lambda>(s, r). 2 ^ 13 - unat s"], goal_cases)
    case (1 s)
    then obtain x r where s: "s = (x, r)" "unat x \<le> 2 ^ 12" "x + ?w \<le> data_len * 8" by (cases s) auto
    have "unat (x + ?w) = unat x + unat ?w" "0 < unat ?w" using s(2) w by (auto simp: unat_add_eq)
    then show ?case using s d n by (simp add: word_le_nat_alt)
  next
    case 2
    then show ?case using w by auto
  qed
  then show ?thesis using True by (auto simp: status_response_def Let_def)
next
  case False
  then show ?thesis by (auto simp: status_response_def Let_def)
qed

text \<open>
  For the bank and device widths of real machines, every read access of at most 8 bytes
  returns in every mode of the flash, and leaves the device as it was unless the command
  register held no known command.
\<close>

theorem pflash_read_returns:
  assumes "geometry_ok f" and "length data \<le> 8"
  shows "\<exists>ok d f'. pflash_read data off f = Some (ok, d, f') \<and> (cycle_ok f \<longrightarrow> f' = f)"
proof -
  have n: "unat (of_nat (length data) :: u32) \<le> 2 ^ 8" using assms(2) by (simp add: unat_of_nat take_bit_nat_eq_self)
  have "\<exists>v. pflash_response (of_nat (length data)) off f = Some v"
    using combine_queries_ends [OF assms(1), of "query_devid f"] combine_queries_ends [OF assms(1), of "query_cfi f"]
      queries_end [OF assms(1)] status_response_ends [OF assms(1) n] n
    by (auto simp: pflash_response_def)
  then obtain v where v: "pflash_response (of_nat (length data)) off f = Some v" ..
  then have "pflash_read data off f \<noteq> None" by (simp add: pflash_read_def Let_def del: not_None_eq)
  then obtain ok d f' where "pflash_read data off f = Some (ok, d, f')" by (cases "pflash_read data off f") auto
  then show ?thesis using cycle_read by blast
qed

theorem pflash_read_returns_witness:
  "\<exists>ok d f. pflash_read [0, 0, 0, 0] 0x40 ((demo_flash False)\<lparr>pf_cmd := 0x70\<rparr>) = Some (ok, d, f) \<and> f = (demo_flash False)\<lparr>pf_cmd := 0x70\<rparr>"
proof -
  let ?f = "(demo_flash False)\<lparr>pf_cmd := 0x70\<rparr>"
  have "geometry_ok ?f" "cycle_ok ?f"
    by (simp_all add: geometry_ok_def cycle_ok_def demo_flash_sel) (simp add: demo_flash_def new_pflash_def Let_def)
  with pflash_read_returns [of ?f "[0, 0, 0, 0]" "0x40"] show ?thesis by auto
qed

end
