(* ===== verification/LeakBucket.thy ===== *)
theory LeakBucket
  imports Prelude
begin

text \<open>
  util/src/leak_bucket.rs: the leaky bucket that limits the I/O rate of a block device. Points
  in time are nanoseconds; the timers the bucket starts are recorded with their delay. The
  arithmetic is on 64-bit words, as in the source.
\<close>

definition ACCURACY_SCALE :: u64 where "ACCURACY_SCALE = 1000"
definition NANOSECONDS_PER_SECOND :: u64 where "NANOSECONDS_PER_SECOND = 1000000000"

record leak_bucket =
  lb_capacity :: u64
  lb_level :: u64
  lb_prev_time :: nat
  lb_timer_started :: bool

definition new_leak_bucket :: "u64 \<Rightarrow> nat \<Rightarrow> leak_bucket" where
  "new_leak_bucket units_ps now =
     \<lparr>lb_capacity = units_ps * ACCURACY_SCALE, lb_level = 0, lb_prev_time = now, lb_timer_started = False\<rparr>"

text \<open>The water that is left after the time since the last update.\<close>

definition leaked :: "nat \<Rightarrow> leak_bucket \<Rightarrow> u64" where
  "leaked now b =
     (let nanos = now - lb_prev_time b
      in if nanos > unat (lb_level b * NANOSECONDS_PER_SECOND div lb_capacity b) then 0
         else lb_level b - of_nat nanos * lb_capacity b div NANOSECONDS_PER_SECOND)"

text \<open>The answer, the delay of a timer that is started, and the bucket afterwards.\<close>

definition throttled :: "nat \<Rightarrow> u64 \<Rightarrow> leak_bucket \<Rightarrow> (bool \<times> u64 option) \<times> leak_bucket" where
  "throttled now need_units b =
     (if lb_capacity b = 0 then ((False, None), b)
      else if lb_timer_started b then ((True, None), b)
      else let b1 = b\<lparr>lb_level := leaked now b, lb_prev_time := now\<rparr>
           in if lb_level b1 > lb_capacity b1
              then ((True, Some ((lb_level b1 - lb_capacity b1) * NANOSECONDS_PER_SECOND div lb_capacity b1)),
                    b1\<lparr>lb_timer_started := True\<rparr>)
              else ((False, None), b1\<lparr>lb_level := lb_level b1 + need_units * ACCURACY_SCALE\<rparr>))"

definition clear_timer :: "leak_bucket \<Rightarrow> leak_bucket" where
  "clear_timer b = b\<lparr>lb_timer_started := False\<rparr>"

section \<open>Requests over time\<close>

datatype lb_event = Request nat u64 | Wakeup

text \<open>The units let through by a sequence of requests and timer wake-ups.\<close>

fun lb_run :: "leak_bucket \<Rightarrow> lb_event list \<Rightarrow> nat \<times> leak_bucket" where
  "lb_run b [] = (0, b)"
| "lb_run b (Wakeup # es) = lb_run (clear_timer b) es"
| "lb_run b (Request now need # es) =
     (case throttled now need b of
        ((True, _), b') \<Rightarrow> lb_run b' es
      | ((False, _), b') \<Rightarrow> (case lb_run b' es of (n, b'') \<Rightarrow> (unat need + n, b'')))"

fun times_from :: "nat \<Rightarrow> lb_event list \<Rightarrow> bool" where
  "times_from t [] = True"
| "times_from t (Wakeup # es) = times_from t es"
| "times_from t (Request now need # es) = (t \<le> now \<and> times_from now es)"

definition needs_at_most :: "nat \<Rightarrow> lb_event list \<Rightarrow> bool" where
  "needs_at_most mx es = (\<forall>now need. Request now need \<in> set es \<longrightarrow> unat need \<le> mx)"

text \<open>The bucket limits \<open>rate\<close> units per second, and its level never overflows the computation.\<close>

definition bucket_ok :: "nat \<Rightarrow> nat \<Rightarrow> leak_bucket \<Rightarrow> bool" where
  "bucket_ok rate mx b = (0 < rate \<and> unat (lb_capacity b) = 1000 * rate \<and> unat (lb_level b) \<le> 1000 * (rate + mx) \<and>
     1000 * (rate + mx) * 10 ^ 9 < 2 ^ 64)"

lemma unat_mult_eq: "unat (a :: u64) * unat b < 2 ^ 64 \<Longrightarrow> unat (a * b) = unat a * unat b"
  by (simp add: unat_word_ariths)

lemma leaked_spec:
  assumes ok: "bucket_ok rate mx b" and t: "lb_prev_time b \<le> now"
  shows "unat (leaked now b) \<le> unat (lb_level b)"
    "unat (lb_level b) * 10 ^ 9 \<le> unat (leaked now b) * 10 ^ 9 + (now - lb_prev_time b) * (1000 * rate)"
proof -
  let ?l = "unat (lb_level b)" and ?c = "1000 * rate" and ?d = "now - lb_prev_time b"
  have c: "unat (lb_capacity b) = ?c" "0 < ?c" and l: "?l * 10 ^ 9 < 2 ^ 64"
    using ok by (auto simp: bucket_ok_def intro: le_less_trans [OF mult_le_mono1])
  have q: "unat (lb_level b * NANOSECONDS_PER_SECOND div lb_capacity b) = ?l * 10 ^ 9 div ?c"
    using l c by (simp add: NANOSECONDS_PER_SECOND_def unat_div_eq unat_mult_eq)
  have "unat (leaked now b) \<le> ?l \<and> ?l * 10 ^ 9 \<le> unat (leaked now b) * 10 ^ 9 + ?d * ?c"
  proof (cases "?d > ?l * 10 ^ 9 div ?c")
    case True
    then have "?l * 10 ^ 9 < ?d * ?c" using c(2) by (simp add: div_less_iff_less_mult mult.commute)
    then show ?thesis using True q by (simp add: leaked_def)
  next
    case False
    then have dc: "?d * ?c \<le> ?l * 10 ^ 9" using c(2) less_eq_div_iff_mult_less_eq [of ?c ?d "?l * 10 ^ 9"] by linarith
    let ?k = "?d * ?c div 10 ^ 9"
    have k: "?k \<le> ?l" "?k * 10 ^ 9 \<le> ?d * ?c" using div_le_mono [OF dc, of "10 ^ 9"] by simp_all
    have "?d \<le> ?d * ?c" using c(2) by simp
    then have d64: "?d < 2 ^ 64" using dc l by linarith
    have "unat (of_nat ?d * lb_capacity b) = ?d * ?c" using c dc l d64 by (simp add: unat_mult_eq unat_of_nat take_bit_nat_eq_self)
    then have "unat (of_nat ?d * lb_capacity b div NANOSECONDS_PER_SECOND) = ?k" by (simp add: NANOSECONDS_PER_SECOND_def unat_div_eq)
    then have "unat (leaked now b) = ?l - ?k" using False q k(1)
      by (simp add: leaked_def unat_sub_eq word_le_nat_alt)
    then show ?thesis using k by (simp add: diff_mult_distrib)
  qed
  then show "unat (leaked now b) \<le> ?l" "?l * 10 ^ 9 \<le> unat (leaked now b) * 10 ^ 9 + ?d * ?c" by auto
qed

lemma throttled_step:
  assumes ok: "bucket_ok rate mx b" and t: "lb_prev_time b \<le> now" and need: "unat need \<le> mx"
    and run: "throttled now need b = ((refused, d), b')"
  shows "bucket_ok rate mx b' \<and> lb_prev_time b \<le> lb_prev_time b' \<and> lb_prev_time b' \<le> now \<and>
    (if refused then 0 else unat need) * 1000 * 10 ^ 9 + unat (lb_level b) * 10 ^ 9 \<le>
      unat (lb_level b') * 10 ^ 9 + (lb_prev_time b' - lb_prev_time b) * (1000 * rate)"
proof (cases "lb_timer_started b")
  case True
  have "lb_capacity b \<noteq> 0" using ok by (auto simp: bucket_ok_def)
  then have "refused" "b' = b" using run True by (simp_all add: throttled_def)
  then show ?thesis using ok t by simp
next
  case False
  note l = leaked_spec [OF ok t]
  have c: "lb_capacity b \<noteq> 0" "unat (lb_capacity b) = 1000 * rate" using ok by (auto simp: bucket_ok_def)
  show ?thesis
  proof (cases "leaked now b > lb_capacity b")
    case True
    then have "refused" "b' = b\<lparr>lb_level := leaked now b, lb_prev_time := now, lb_timer_started := True\<rparr>"
      using run False c(1) by (auto simp: throttled_def Let_def)
    then show ?thesis using l ok t by (auto simp: bucket_ok_def)
  next
    case small: False
    then have r: "\<not> refused" "b' = b\<lparr>lb_level := leaked now b + need * ACCURACY_SCALE, lb_prev_time := now\<rparr>"
      using run False c(1) by (auto simp: throttled_def Let_def)
    have n: "unat (leaked now b) \<le> 1000 * rate" using small c(2) by (simp add: word_less_nat_alt)
    have big: "1000 * (rate + mx) < 2 ^ 64" using ok by (simp add: bucket_ok_def)
    have m: "unat (need * ACCURACY_SCALE) = unat need * 1000"
      using need big by (simp add: ACCURACY_SCALE_def unat_mult_eq)
    have lv: "unat (leaked now b + need * ACCURACY_SCALE) = unat (leaked now b) + unat need * 1000"
      using n m need big by (subst unat_add_eq) simp_all
    show ?thesis using l r lv n need ok t by (auto simp: bucket_ok_def)
  qed
qed

lemma times_from_mono: "times_from t es \<Longrightarrow> s \<le> t \<Longrightarrow> times_from s es"
  by (induction s es rule: times_from.induct) auto

lemma lb_run_bound:
  assumes "bucket_ok rate mx b" and "needs_at_most mx es" and "times_from (lb_prev_time b) es" and "lb_run b es = (n, b')"
  shows "bucket_ok rate mx b' \<and> lb_prev_time b \<le> lb_prev_time b' \<and>
    n * 1000 * 10 ^ 9 + unat (lb_level b) * 10 ^ 9 \<le>
      unat (lb_level b') * 10 ^ 9 + (lb_prev_time b' - lb_prev_time b) * (1000 * rate)"
  using assms
proof (induction b es arbitrary: n rule: lb_run.induct)
  case (1 b)
  then show ?case by simp
next
  case (2 b es)
  have "bucket_ok rate mx (clear_timer b)" "lb_prev_time (clear_timer b) = lb_prev_time b" "lb_level (clear_timer b) = lb_level b"
    using 2 by (simp_all add: clear_timer_def bucket_ok_def)
  then show ?case using 2 by (simp add: needs_at_most_def)
next
  case (3 b now need es)
  obtain r d b1 where run: "throttled now need b = ((r, d), b1)" by (metis prod.exhaust)
  have "unat need \<le> mx" using 3 by (auto simp: needs_at_most_def)
  with "3.prems" run have s: "bucket_ok rate mx b1" "lb_prev_time b \<le> lb_prev_time b1" "lb_prev_time b1 \<le> now"
    "(if r then 0 else unat need) * 1000 * 10 ^ 9 + unat (lb_level b) * 10 ^ 9 \<le>
      unat (lb_level b1) * 10 ^ 9 + (lb_prev_time b1 - lb_prev_time b) * (1000 * rate)"
    using throttled_step [of rate mx b now need r d b1] by auto
  obtain k where rest: "lb_run b1 es = (k, b')" and n: "n = (if r then 0 else unat need) + k"
    using "3.prems"(4) run by (cases r) (auto split: prod.splits)
  have rest_ok: "needs_at_most mx es" "times_from (lb_prev_time b1) es"
    using "3.prems"(2,3) s(3) times_from_mono by (auto simp: needs_at_most_def)
  have ih: "bucket_ok rate mx b' \<and> lb_prev_time b1 \<le> lb_prev_time b' \<and>
    k * 1000 * 10 ^ 9 + unat (lb_level b1) * 10 ^ 9 \<le> unat (lb_level b') * 10 ^ 9 + (lb_prev_time b' - lb_prev_time b1) * (1000 * rate)"
    using "3.IH"(1) [OF run [symmetric] refl] "3.IH"(2) [OF run [symmetric] refl] s(1) rest_ok rest by (cases r) auto
  have "(lb_prev_time b' - lb_prev_time b) * (1000 * rate) =
      (lb_prev_time b' - lb_prev_time b1) * (1000 * rate) + (lb_prev_time b1 - lb_prev_time b) * (1000 * rate)"
    using ih s(2) by (simp flip: add_mult_distrib)
  then show ?case using ih s(2,4) n by (simp add: add_mult_distrib)
qed

text \<open>
  C37. The bucket limits the rate. For a limit of \<open>rate\<close> units per second and requests of at
  most \<open>mx\<close> units, as long as the 64-bit products do not overflow: over any sequence of
  requests and timer wake-ups, the units let through exceed what leaks out in the time
  that passed by at most one second's worth and one request.
\<close>

theorem leak_bucket_rate:
  assumes "1000 * (rate + mx) * 10 ^ 9 < 2 ^ 64" and "0 < rate" and "needs_at_most mx es" and "times_from t0 es"
    and "lb_run (new_leak_bucket (of_nat rate) t0) es = (n, b)"
  shows "n * 10 ^ 9 \<le> (rate + mx) * 10 ^ 9 + rate * (lb_prev_time b - t0)"
proof -
  have r: "rate < 2 ^ 64" using assms(1) by simp
  have "unat (of_nat rate * ACCURACY_SCALE :: u64) = rate * 1000"
    using assms(1) by (simp add: ACCURACY_SCALE_def unat_mult_eq unat_of_nat take_bit_nat_eq_self)
  then have "bucket_ok rate mx (new_leak_bucket (of_nat rate) t0)"
    using assms(1,2) by (simp add: bucket_ok_def new_leak_bucket_def)
  from lb_run_bound [OF this assms(3) _ assms(5)] assms(4) have
    b: "bucket_ok rate mx b" and le: "n * 1000 * 10 ^ 9 \<le> unat (lb_level b) * 10 ^ 9 + (lb_prev_time b - t0) * (1000 * rate)"
    by (auto simp: new_leak_bucket_def)
  have "unat (lb_level b) \<le> 1000 * (rate + mx)" using b by (simp add: bucket_ok_def)
  then have "unat (lb_level b) * 10 ^ 9 \<le> 1000 * (rate + mx) * 10 ^ 9" by simp
  with le have "1000 * (n * 10 ^ 9) \<le> 1000 * ((rate + mx) * 10 ^ 9 + rate * (lb_prev_time b - t0))"
    by (simp add: algebra_simps)
  then show ?thesis by simp
qed

text \<open>
  C35. The hypothesis on overflow is needed. The entropy device accepts rates up to 1000000000
  bytes per second; a full bucket of that rate takes a second to drain, but 18446745
  nanoseconds after the last request the level is taken to be zero whatever it was, and
  the next request is let through: the product of the level with the nanoseconds of a
  second is computed in 64 bits and wraps around.
\<close>

theorem leak_bucket_overflow:
  assumes "lb_capacity b = 1000000000 * ACCURACY_SCALE" and "lb_prev_time b + 18446745 \<le> now"
  shows "leaked now b = 0 \<and> (\<not> lb_timer_started b \<longrightarrow> fst (throttled now need b) = (False, None))"
proof -
  let ?p = "lb_level b * NANOSECONDS_PER_SECOND"
  have "unat ?p div 1000000000000 \<le> 18446744073709551615 div 1000000000000"
    using unat_lt_64 [of ?p] by (intro div_le_mono) linarith
  then have "unat (?p div lb_capacity b) \<le> 18446744"
    using assms(1) by (simp add: ACCURACY_SCALE_def unat_div_eq)
  then have "unat (?p div lb_capacity b) < now - lb_prev_time b" using assms(2) by linarith
  then have "leaked now b = 0" by (simp add: leaked_def Let_def)
  then show ?thesis by (auto simp: throttled_def Let_def)
qed

theorem leak_bucket_overflow_witness:
  "leaked 18446745 \<lparr>lb_capacity = 1000000000000, lb_level = 1000000000000, lb_prev_time = 0, lb_timer_started = False\<rparr> = 0"
  using leak_bucket_overflow [of "\<lparr>lb_capacity = 1000000000000, lb_level = 1000000000000, lb_prev_time = 0, lb_timer_started = False\<rparr>" 18446745]
  by (simp add: ACCURACY_SCALE_def)

theorem leak_bucket_rate_witness:
  "\<exists>n b. lb_run (new_leak_bucket 2 0) [Request 3 1, Wakeup, Request 5 1] = (n, b) \<and> lb_prev_time b = 5 \<and> n \<le> 3"
proof -
  obtain n b where r: "lb_run (new_leak_bucket (of_nat 2) 0) [Request 3 1, Wakeup, Request 5 1] = (n, b)" by force
  then have t: "lb_prev_time b = 5"
    by (auto simp: new_leak_bucket_def throttled_def leaked_def clear_timer_def ACCURACY_SCALE_def NANOSECONDS_PER_SECOND_def Let_def)
  have "n * 10 ^ 9 \<le> (2 + 1) * 10 ^ 9 + 2 * (lb_prev_time b - 0)"
    by (rule leak_bucket_rate [OF _ _ _ _ r]) (auto simp: needs_at_most_def)
  with t r show ?thesis by (intro exI [of _ n] exI [of _ b]) simp
qed

end
