(* ===== verification/PciRegs.thy ===== *)
theory PciRegs
  imports NumOps
begin

text \<open>
  The register helpers of devices/src/pci/mod.rs: little-endian fields in byte arrays and the
  parts of a device function number. Offsets and lengths are \<open>usize\<close> values far below
  the wrap-around and are natural numbers here.
\<close>

section \<open>Fields\<close>

text \<open>\<open>None\<close> is the out-of-bounds error.\<close>

definition le_write :: "nat \<Rightarrow> u8 list \<Rightarrow> nat \<Rightarrow> 'a::len word \<Rightarrow> u8 list option" where
  "le_write n buf off v =
     (if off + n > length buf then None else Some (take off buf @ to_le n v @ drop (off + n) buf))"

definition le_read :: "nat \<Rightarrow> u8 list \<Rightarrow> nat \<Rightarrow> 'a::len word option" where
  "le_read n buf off = (if off + n > length buf then None else Some (from_le (take n (drop off buf))))"

definition le_write_u16 :: "u8 list \<Rightarrow> nat \<Rightarrow> u16 \<Rightarrow> u8 list option" where "le_write_u16 = le_write 2"
definition le_write_u32 :: "u8 list \<Rightarrow> nat \<Rightarrow> u32 \<Rightarrow> u8 list option" where "le_write_u32 = le_write 4"
definition le_write_u64 :: "u8 list \<Rightarrow> nat \<Rightarrow> u64 \<Rightarrow> u8 list option" where "le_write_u64 = le_write 8"
definition le_read_u16 :: "u8 list \<Rightarrow> nat \<Rightarrow> u16 option" where "le_read_u16 = le_read 2"
definition le_read_u32 :: "u8 list \<Rightarrow> nat \<Rightarrow> u32 option" where "le_read_u32 = le_read 4"
definition le_read_u64 :: "u8 list \<Rightarrow> nat \<Rightarrow> u64 option" where "le_read_u64 = le_read 8"

lemmas le_defs = le_write_u16_def le_write_u32_def le_write_u64_def le_read_u16_def le_read_u32_def le_read_u64_def

definition le_write_set_value_u16 :: "u8 list \<Rightarrow> nat \<Rightarrow> u16 \<Rightarrow> u8 list option" where
  "le_write_set_value_u16 buf off v = (case le_read_u16 buf off of None \<Rightarrow> None | Some x \<Rightarrow> le_write_u16 buf off (x OR v))"

definition le_write_clear_value_u16 :: "u8 list \<Rightarrow> nat \<Rightarrow> u16 \<Rightarrow> u8 list option" where
  "le_write_clear_value_u16 buf off v = (case le_read_u16 buf off of None \<Rightarrow> None | Some x \<Rightarrow> le_write_u16 buf off (x AND NOT v))"

lemma length_le_write: "le_write n buf off v = Some b \<Longrightarrow> length b = length buf"
  by (auto simp: le_write_def split: if_splits)

lemma nth_le_write:
  assumes "le_write n buf off v = Some b"
  shows "b ! i = (if off \<le> i \<and> i < off + n then to_le n v ! (i - off) else buf ! i)"
proof (cases "i < length buf")
  case True
  then show ?thesis using assms by (auto simp: le_write_def nth_append split: if_splits)
next
  case False
  then show ?thesis using assms by (auto simp: le_write_def nth_append split: if_splits)
qed

lemma nth_le_read_bit:
  assumes "le_read n buf off = Some (w :: 'a::len word)"
  shows "bit w k \<longleftrightarrow> k < LENGTH('a) \<and> k div 8 < n \<and> bit (buf ! (off + k div 8)) (k mod 8)"
  using assms by (auto simp: le_read_def bit_from_le split: if_splits)

text \<open>Reading a field back, and reading one that does not overlap the one written.\<close>

lemma le_read_write_same:
  assumes "le_write n buf off v = Some b"
  shows "le_read n b off = Some (take_bit (8 * n) v)"
  using assms by (auto simp: le_write_def le_read_def from_le_to_le split: if_splits)

lemma le_read_write_other:
  assumes "le_write n buf off v = Some b" and "off' + m \<le> off \<or> off + n \<le> off'"
  shows "le_read m b off' = le_read m buf off'"
proof -
  have len: "length b = length buf" using length_le_write [OF assms(1)] .
  have "take m (drop off' b) = take m (drop off' buf)" if "off' + m \<le> length buf"
    using that len assms(2) by (intro nth_equalityI) (auto simp: nth_le_write [OF assms(1)])
  then show ?thesis by (simp add: le_read_def len)
qed

section \<open>Function numbers\<close>

definition pci_devfn :: "u8 \<Rightarrow> u8 \<Rightarrow> u8" where
  "pci_devfn slot func = push_bit 3 (slot AND 0x1f) OR (func AND 0x07)"

definition pci_slot :: "u8 \<Rightarrow> u8" where
  "pci_slot devfn = drop_bit 3 devfn AND 0x1f"

definition pci_func :: "u8 \<Rightarrow> u8" where
  "pci_func devfn = devfn AND 0x07"

definition pci_ext_cap_id :: "u32 \<Rightarrow> u16" where
  "pci_ext_cap_id header = ucast (header AND 0xffff)"

definition pci_ext_cap_ver :: "u32 \<Rightarrow> u32" where
  "pci_ext_cap_ver header = drop_bit 16 header AND 0xf"

definition pci_ext_cap_next :: "u32 \<Rightarrow> nat" where
  "pci_ext_cap_next header = unat (drop_bit 20 header AND 0xffc)"

definition swizzle_map_irq :: "u8 \<Rightarrow> u8 \<Rightarrow> u32" where
  "swizzle_map_irq devfn pin = ucast (((drop_bit 3 devfn AND 0x1f) + pin) mod 4)"

end
