(* ===== verification/Bitmap.thy ===== *)
theory Bitmap
  imports Prelude
begin

text \<open>
  util/src/bitmap.rs: bitmaps over vectors of unsigned integers. The bitmap is the list of its
  words; the width of the word type is the source's \<open>T::len()\<close>. Bit numbers are \<open>usize\<close>
  values bounded by the bits of a vector in memory and are natural numbers here.
  \<open>members\<close> is the set a bitmap stands for, and every operation is proved against it.
\<close>

section \<open>Operations\<close>

datatype bitmap_error = OutOfBound nat nat | BitmapPanic panic

definition new_bits :: "nat \<Rightarrow> 'a::len word list" where
  "new_bits sz = replicate sz 0"

definition vol :: "'a::len word list \<Rightarrow> nat" where
  "vol d = length d * LENGTH('a)"

definition bit_index :: "'a::len word list \<Rightarrow> nat \<Rightarrow> nat" where
  "bit_index d num = num div LENGTH('a)"

definition bit_pos :: "'a::len word list \<Rightarrow> nat \<Rightarrow> nat" where
  "bit_pos d num = num mod LENGTH('a)"

text \<open>The operations on one bit share the bounds check and differ in the new word.\<close>

definition update_bit ::
    "('a::len word \<Rightarrow> 'a word \<Rightarrow> 'a word) \<Rightarrow> nat \<Rightarrow> 'a word list \<Rightarrow> (bitmap_error + unit) \<times> 'a word list" where
  "update_bit f num d =
     (let index = bit_index d num
      in if index \<ge> length d then (Inl (OutOfBound index (vol d)), d)
         else (Inr (), d[index := f (d ! index) (shl 1 (bit_pos d num))]))"

definition bm_set :: "nat \<Rightarrow> 'a::len word list \<Rightarrow> (bitmap_error + unit) \<times> 'a word list" where
  "bm_set = update_bit (\<lambda>w b. w OR b)"

definition bm_clear :: "nat \<Rightarrow> 'a::len word list \<Rightarrow> (bitmap_error + unit) \<times> 'a word list" where
  "bm_clear = update_bit (\<lambda>w b. w AND NOT b)"

definition bm_change :: "nat \<Rightarrow> 'a::len word list \<Rightarrow> (bitmap_error + unit) \<times> 'a word list" where
  "bm_change = update_bit (\<lambda>w b. w XOR b)"

text \<open>
  The \<open>while\<close> loop of \<open>set_range\<close>. It ends with the index, the mask and the remaining length,
  or with the error of an index beyond the vector; what was set before stays set.
\<close>

function set_range_loop ::
    "nat \<Rightarrow> nat \<Rightarrow> 'a::len word \<Rightarrow> nat \<Rightarrow> 'a word list \<Rightarrow> (bitmap_error + nat \<times> 'a word \<times> nat) \<times> 'a word list" where
  "set_range_loop index bits_to_set msk len d =
     (if len \<ge> bits_to_set
      then if index \<ge> length d then (Inl (OutOfBound index (vol d)), d)
           else set_range_loop (index + 1) LENGTH('a) (NOT 0) (len - bits_to_set) (d[index := d ! index OR msk])
      else (Inr (index, msk, len), d))"
  by pat_completeness auto
termination by (relation "measure (\<lambda>(index, _, _, _, d). length d - index)") auto

declare set_range_loop.simps [simp del]

definition set_range :: "nat \<Rightarrow> nat \<Rightarrow> 'a::len word list \<Rightarrow> (bitmap_error + unit) \<times> 'a word list" where
  "set_range start len d =
     (if len = 0 then (Inr (), d)
      else case set_range_loop (bit_index d start) (LENGTH('a) - bit_pos d start) (shl (NOT 0) (bit_pos d start)) len d of
        (Inl e, d') \<Rightarrow> (Inl e, d')
      | (Inr (index, msk, rest), d') \<Rightarrow>
          if rest > 0
          then if index \<ge> length d' then (Inl (OutOfBound index (vol d')), d')
               else let bits_to_set = LENGTH('a) - bit_pos d (start + len);
                        msk_end = shr (NOT 0) (bit_pos d bits_to_set)
                    in (Inr (), d'[index := d' ! index OR (msk AND msk_end)])
          else (Inr (), d'))"

function clear_range_loop ::
    "nat \<Rightarrow> nat \<Rightarrow> 'a::len word \<Rightarrow> nat \<Rightarrow> 'a word list \<Rightarrow> (bitmap_error + nat \<times> 'a word \<times> nat) \<times> 'a word list" where
  "clear_range_loop index bits_to_clear msk len d =
     (if len \<ge> bits_to_clear
      then if index \<ge> length d then (Inl (OutOfBound index (vol d)), d)
           else clear_range_loop (index + 1) LENGTH('a) 0 (len - bits_to_clear) (d[index := d ! index AND msk])
      else (Inr (index, msk, len), d))"
  by pat_completeness auto
termination by (relation "measure (\<lambda>(index, _, _, _, d). length d - index)") auto

declare clear_range_loop.simps [simp del]

definition clear_range :: "nat \<Rightarrow> nat \<Rightarrow> 'a::len word list \<Rightarrow> (bitmap_error + unit) \<times> 'a word list" where
  "clear_range start len d =
     (if len = 0 then (Inr (), d)
      else case clear_range_loop (bit_index d start) (LENGTH('a) - bit_pos d start) (NOT (shl (NOT 0) (bit_pos d start))) len d of
        (Inl e, d') \<Rightarrow> (Inl e, d')
      | (Inr (index, msk, rest), d') \<Rightarrow>
          if rest > 0
          then if index \<ge> length d' then (Inl (OutOfBound index (vol d')), d')
               else let bits_to_clear = LENGTH('a) - bit_pos d (start + len);
                        msk_end = NOT (shr (NOT 0) (bit_pos d bits_to_clear))
                    in (Inr (), d'[index := d' ! index AND (msk OR msk_end)])
          else (Inr (), d'))"

text \<open>The guard lets \<open>num = vol\<close> through to the vector access.\<close>

definition contain :: "nat \<Rightarrow> 'a::len word list \<Rightarrow> bitmap_error + bool" where
  "contain num d =
     (if num > vol d then Inl (OutOfBound num (vol d))
      else if bit_index d num \<ge> length d then Inl (BitmapPanic IndexOutOfRange)
      else Inr (d ! bit_index d num AND shl 1 (bit_pos d num) \<noteq> 0))"

definition count_word :: "'a::len word \<Rightarrow> nat" where
  "count_word w = (if w \<noteq> 0 then length (filter (\<lambda>j. w AND shl 1 j \<noteq> 0) [0..<LENGTH('a)]) else 0)"

definition count_front_bits :: "nat \<Rightarrow> 'a::len word list \<Rightarrow> bitmap_error + nat" where
  "count_front_bits offset d =
     (if offset > vol d then Inl (OutOfBound offset (length d))
      else let num = sum_list (map (\<lambda>i. count_word (d ! i)) [0..<bit_index d offset])
           in for_each (\<lambda>j n. and_then (contain j d) (\<lambda>b. Inr (if b then n + 1 else n)))
                [bit_index d offset * LENGTH('a)..<offset] num)"

text \<open>
  The two searches. \<open>skip\<close> is the word value that is passed over without looking at its bits
  and \<open>want\<close> the bit value searched for. The position within the word is reset at the end of
  a turn only, so not for a word that is passed over.
\<close>

fun find_in_word :: "bool \<Rightarrow> 'a::len word list \<Rightarrow> nat \<Rightarrow> nat list \<Rightarrow> bitmap_error + nat option" where
  "find_in_word want d i [] = Inr None"
| "find_in_word want d i (j # js) =
     and_then (contain (i * LENGTH('a) + j) d) (\<lambda>b.
       if b = want then Inr (Some (i * LENGTH('a) + j)) else find_in_word want d i js)"

fun find_in_words :: "'a::len word \<Rightarrow> bool \<Rightarrow> 'a word list \<Rightarrow> nat list \<Rightarrow> nat \<Rightarrow> bitmap_error + nat" where
  "find_in_words skip want d [] offset = Inr (vol d)"
| "find_in_words skip want d (i # is) offset =
     (if d ! i = skip then find_in_words skip want d is offset
      else and_then (find_in_word want d i [offset..<LENGTH('a)]) (\<lambda>r.
        case r of Some n \<Rightarrow> Inr n | None \<Rightarrow> find_in_words skip want d is 0))"

definition find_next_zero :: "nat \<Rightarrow> 'a::len word list \<Rightarrow> bitmap_error + nat" where
  "find_next_zero offset d =
     find_in_words (NOT 0) False d [offset div LENGTH('a)..<length d] (offset mod LENGTH('a))"

definition find_next_bit :: "nat \<Rightarrow> 'a::len word list \<Rightarrow> bitmap_error + nat" where
  "find_next_bit offset d =
     find_in_words 0 True d [offset div LENGTH('a)..<length d] (offset mod LENGTH('a))"

text \<open>Moving the words into a buffer leaves an empty bitmap.\<close>

definition get_data :: "'a::len word list \<Rightarrow> 'a word list \<times> 'a word list" where
  "get_data d = (d, [])"

definition clear_all :: "'a::len word list \<Rightarrow> 'a word list" where
  "clear_all d = fold (\<lambda>i d. d[i := 0]) [0..<length d] d"

section \<open>The set of a bitmap\<close>

definition members :: "'a::len word list \<Rightarrow> nat set" where
  "members d = {n. n div LENGTH('a) < length d \<and> bit (d ! (n div LENGTH('a))) (n mod LENGTH('a))}"

lemma div_less_length: "n div LENGTH('a) < length d \<longleftrightarrow> n < vol (d :: 'a::len word list)"
  by (simp add: vol_def div_less_iff_less_mult)

lemma members_vol: "members d \<subseteq> {..<vol d}"
  by (auto simp: members_def div_less_length)

lemma vol_update [simp]: "vol (d[i := w]) = vol d"
  by (simp add: vol_def)

lemma bit_one_shl: "k < LENGTH('a) \<Longrightarrow> bit (shl 1 k :: 'a::len word) j \<longleftrightarrow> j = k"
  by (auto simp: shl_def bit_simps)

lemma bit_full_shl: "p < LENGTH('a) \<Longrightarrow> bit (shl (NOT 0) p :: 'a::len word) j \<longleftrightarrow> p \<le> j \<and> j < LENGTH('a)"
  by (auto simp: shl_def bit_simps)

lemma bit_full_shr: "p < LENGTH('a) \<Longrightarrow> bit (shr (NOT 0) p :: 'a::len word) j \<longleftrightarrow> j + p < LENGTH('a)"
  by (auto simp: shr_def bit_simps)

lemma and_one_shl:
  assumes "k < LENGTH('a)"
  shows "w AND shl 1 k \<noteq> 0 \<longleftrightarrow> bit (w :: 'a::len word) k"
proof
  assume "w AND shl 1 k \<noteq> 0"
  then obtain j where "bit (w AND shl 1 k) j" by (metis bit_eqI bit_0_eq bot_apply bot_bool_def)
  then show "bit w k" using assms by (auto simp: bit_and_iff bit_one_shl)
next
  assume "bit w k"
  then have "bit (w AND shl 1 k) k" using assms by (simp add: bit_and_iff bit_one_shl)
  then show "w AND shl 1 k \<noteq> 0" by auto
qed

lemma members_update:
  fixes d :: "'a::len word list"
  assumes "i < length d"
  shows "n \<in> members (d[i := w]) \<longleftrightarrow> (if n div LENGTH('a) = i then bit w (n mod LENGTH('a)) else n \<in> members d)"
  using assms by (auto simp: members_def nth_list_update)

lemma members_or:
  fixes d :: "'a::len word list"
  assumes "i < length d"
  shows "members (d[i := d ! i OR w]) = members d \<union> {n. n div LENGTH('a) = i \<and> bit w (n mod LENGTH('a))}"
proof (rule set_eqI)
  fix n
  show "n \<in> members (d[i := d ! i OR w]) \<longleftrightarrow> n \<in> members d \<union> {n. n div LENGTH('a) = i \<and> bit w (n mod LENGTH('a))}"
    using assms by (cases "n div LENGTH('a) = i") (auto simp: members_update bit_or_iff, auto simp: members_def)
qed

text \<open>The bit numbers of a part of one word.\<close>

lemma word_part:
  assumes "p' \<le> l"
  shows "{n. n div l = i \<and> p \<le> n mod l \<and> n mod l < p'} = {i * l + p ..< i * l + p' :: nat}"
proof (intro set_eqI iffI)
  fix n assume n: "n \<in> {n. n div l = i \<and> p \<le> n mod l \<and> n mod l < p'}"
  then have "n = i * l + n mod l" using div_mult_mod_eq [of n l] by simp
  with n show "n \<in> {i * l + p ..< i * l + p'}" by simp
next
  fix n assume n: "n \<in> {i * l + p ..< i * l + p'}"
  then obtain k where k: "n = i * l + k" by (metis atLeastLessThan_iff le_add1 le_trans nat_le_iff_add)
  with n have "p \<le> k" "k < p'" by auto
  with k assms show "n \<in> {n. n div l = i \<and> p \<le> n mod l \<and> n mod l < p'}" by simp
qed

section \<open>One bit\<close>

lemma bit_pos_less: "bit_pos (d :: 'a::len word list) n < LENGTH('a)"
  by (simp add: bit_pos_def)

lemma update_bit_cases:
  fixes d :: "'a::len word list"
  assumes "update_bit f num d = (r, d')"
  obtains "vol d \<le> num" "r = Inl (OutOfBound (num div LENGTH('a)) (vol d))" "d' = d"
  | "num < vol d" "r = Inr ()" "d' = d[num div LENGTH('a) := f (d ! (num div LENGTH('a))) (shl 1 (num mod LENGTH('a)))]"
proof (cases "num < vol d")
  case True
  then have "\<not> length d \<le> num div LENGTH('a)" by (simp add: div_less_length not_le)
  then have "(r, d') = (Inr (), d[num div LENGTH('a) := f (d ! (num div LENGTH('a))) (shl 1 (num mod LENGTH('a)))])"
    unfolding assms [symmetric] by (simp add: update_bit_def bit_index_def bit_pos_def Let_def)
  with that(2) True show thesis by blast
next
  case False
  then have "length d \<le> num div LENGTH('a)" by (metis div_less_length not_less)
  then have "(r, d') = (Inl (OutOfBound (num div LENGTH('a)) (vol d)), d)"
    unfolding assms [symmetric] by (simp add: update_bit_def bit_index_def Let_def)
  moreover have "vol d \<le> num" using False by simp
  ultimately show thesis using that(1) by blast
qed

lemma update_bit_members:
  fixes d :: "'a::len word list"
  assumes "update_bit f num d = (r, d')"
    and f: "\<And>w b j. bit (f w b) j \<longleftrightarrow> g (bit w j) (bit b j)" and g: "\<And>x. g x False = x"
  shows "(r = Inr () \<longleftrightarrow> num < vol d) \<and> length d' = length d \<and>
    (\<forall>n. n \<in> members d' \<longleftrightarrow> (if n = num \<and> num < vol d then g (n \<in> members d) True else n \<in> members d))"
  using assms(1)
proof (cases rule: update_bit_cases)
  case 1
  then show ?thesis by simp
next
  case 2
  then have i: "num div LENGTH('a) < length d" by (simp add: div_less_length)
  have "n \<in> members d' \<longleftrightarrow> (if n = num then g (n \<in> members d) True else n \<in> members d)" for n
  proof (cases "n div LENGTH('a) = num div LENGTH('a)")
    case True
    then have e: "n = num \<longleftrightarrow> n mod LENGTH('a) = num mod LENGTH('a)" by (metis div_mult_mod_eq)
    have m: "n \<in> members d \<longleftrightarrow> bit (d ! (num div LENGTH('a))) (n mod LENGTH('a))"
      unfolding members_def mem_Collect_eq True using i by blast
    have "n \<in> members d' \<longleftrightarrow> g (n \<in> members d) (n = num)"
      unfolding 2(3) members_update [OF i] if_P [OF True] f m e by (simp add: bit_one_shl)
    then show ?thesis using g by simp
  next
    case False
    then have "n \<noteq> num" by blast
    then show ?thesis unfolding 2(3) members_update [OF i] if_not_P [OF False] by simp
  qed
  moreover have "length d' = length d" unfolding 2(3) by simp
  ultimately show ?thesis using 2(1,2) by simp
qed

lemma bm_set_members:
  assumes "bm_set num d = (r, d')"
  shows "r = Inr () \<longleftrightarrow> num < vol d" "length d' = length d" "members d' = members d \<union> ({num} \<inter> {..<vol d})"
  using update_bit_members [OF assms [unfolded bm_set_def], of "(\<or>)"] by (auto simp: bit_or_iff split: if_splits)

lemma bm_clear_members:
  assumes "bm_clear num d = (r, d')"
  shows "r = Inr () \<longleftrightarrow> num < vol d" "length d' = length d" "members d' = members d - {num}"
proof -
  note u = update_bit_members [OF assms [unfolded bm_clear_def], of "\<lambda>x y. x \<and> \<not> y"]
  have *: "bit (w AND NOT b) j \<longleftrightarrow> bit w j \<and> \<not> bit b j" for w b :: "'a word" and j
    by (auto simp: bit_simps dest: bit_imp_le_length)
  show "r = Inr () \<longleftrightarrow> num < vol d" "length d' = length d" "members d' = members d - {num}"
    using u [OF *] members_vol [of d] by (auto split: if_splits)
qed

lemma bm_change_members:
  assumes "bm_change num d = (r, d')"
  shows "r = Inr () \<longleftrightarrow> num < vol d" "length d' = length d"
    "num < vol d \<Longrightarrow> members d' = (if num \<in> members d then members d - {num} else insert num (members d))"
  using update_bit_members [OF assms [unfolded bm_change_def], of "(\<noteq>)"] by (auto simp: bit_xor_iff split: if_splits)

lemma contain_members:
  fixes d :: "'a::len word list"
  assumes "num < vol d"
  shows "contain num d = Inr (num \<in> members d)"
proof -
  have "num div LENGTH('a) < length d" using assms by (simp add: div_less_length)
  then show ?thesis using assms
    by (simp add: contain_def bit_index_def bit_pos_def and_one_shl members_def)
qed

section \<open>Ranges\<close>

lemma vol_le_index: "length d \<le> i \<Longrightarrow> vol (d :: 'a::len word list) \<le> i * LENGTH('a)"
  by (simp add: vol_def)

lemma index_le_vol: "i < length d \<Longrightarrow> i * LENGTH('a) + LENGTH('a) \<le> vol (d :: 'a::len word list)"
  using mult_le_mono1 [of "Suc i" "length d" "LENGTH('a)"] by (simp add: vol_def)

text \<open>One turn of the loop sets the rest of a word.\<close>

lemma members_or_tail:
  fixes d :: "'a::len word list"
  assumes "i < length d" and "p < LENGTH('a)"
  shows "members (d[i := d ! i OR shl (NOT 0) p]) = members d \<union> {i * LENGTH('a) + p ..< i * LENGTH('a) + LENGTH('a)}"
proof -
  have "{n. n div LENGTH('a) = i \<and> bit (shl (NOT 0) p :: 'a word) (n mod LENGTH('a))} =
      {i * LENGTH('a) + p ..< i * LENGTH('a) + LENGTH('a)}"
    unfolding bit_full_shl [OF assms(2)] by (rule word_part) simp
  then show ?thesis unfolding members_or [OF assms(1)] by simp
qed

text \<open>What the loop has done when it ends, for a range of \<open>len\<close> bits from \<open>s\<close>.\<close>

definition range_end ::
    "nat \<Rightarrow> nat \<Rightarrow> 'a::len word list \<Rightarrow> bitmap_error + nat \<times> 'a word \<times> nat \<Rightarrow> 'a word list \<Rightarrow> bool" where
  "range_end s len d r d' \<longleftrightarrow> length d' = length d \<and>
     (case r of
        Inl e \<Rightarrow> vol d < s + len \<and> members d' = members d \<union> ({s..<s + len} \<inter> {..<vol d})
      | Inr (i, m, l) \<Rightarrow> (\<exists>q. q + l < LENGTH('a) \<and> m = shl (NOT 0) q \<and> s + len = i * LENGTH('a) + q + l \<and>
          s \<le> i * LENGTH('a) + q \<and> members d' = members d \<union> {s..<i * LENGTH('a) + q}))"

lemma range_end_step:
  assumes "range_end (s + k) (len - k) d1 r d'" and "members d1 = members d \<union> {s..<s + k}" and "length d1 = length d"
    and "k \<le> len" and "s + k \<le> vol d"
  shows "range_end s len d r d'"
proof -
  have v: "vol d1 = vol d" using assms(3) by (simp add: vol_def)
  have u: "{s..<s + k} \<union> ({s + k..<s + len} \<inter> {..<vol d}) = {s..<s + len} \<inter> {..<vol d}" using assms(4,5) by auto
  have u': "s + k \<le> n \<Longrightarrow> {s..<s + k} \<union> {s + k..<n} = {s..<n}" for n by auto
  show ?thesis
    using assms v u u' by (cases r) (auto simp: range_end_def Un_assoc)
qed

lemma set_range_loop_spec:
  fixes d :: "'a::len word list"
  assumes "set_range_loop i (LENGTH('a) - p) (shl (NOT 0) p) len d = (r, d')" and "p < LENGTH('a)"
  shows "range_end (i * LENGTH('a) + p) len d r d'"
  using assms
proof (induction i "LENGTH('a) - p" "shl (NOT 0) p :: 'a word" len d arbitrary: p rule: set_range_loop.induct)
  case (1 i len d)
  let ?L = "LENGTH('a)"
  show ?case
  proof (cases "len < ?L - p")
    case True
    then have "r = Inr (i, shl (NOT 0) p, len)" "d' = d" using "1.prems"(1) by (auto simp: set_range_loop.simps)
    then show ?thesis using True by (auto simp: range_end_def intro!: exI [of _ p])
  next
    case long: False
    show ?thesis
    proof (cases "i < length d")
      case False
      then have "r = Inl (OutOfBound i (vol d))" "d' = d" using "1.prems"(1) long by (auto simp: set_range_loop.simps)
      moreover have "vol d \<le> i * ?L" using False vol_le_index [of d i] by simp
      ultimately show ?thesis using long "1.prems"(2) by (auto simp: range_end_def)
    next
      case True
      let ?d = "d[i := d ! i OR shl (NOT 0) p]"
      have full: "shl (- 1) 0 = (- 1 :: 'a word)" by (simp add: shl_def)
      have "set_range_loop (i + 1) (?L - 0) (shl (NOT 0) 0) (len - (?L - p)) ?d = (r, d')"
        using "1.prems"(1) long True by (simp add: set_range_loop.simps [of i] full)
      with 1(1) [of 0] long True have ih: "range_end ((i + 1) * ?L + 0) (len - (?L - p)) ?d r d'"
        by (simp add: full)
      have s: "(i + 1) * ?L + 0 = i * ?L + p + (?L - p)" using "1.prems"(2) by simp
      show ?thesis
        using ih members_or_tail [OF True "1.prems"(2)] index_le_vol [OF True] long "1.prems"(2) unfolding s
        by (intro range_end_step [of "i * ?L + p" "?L - p" len ?d]) simp_all
    qed
  qed
qed

lemma members_or_part:
  fixes d :: "'a::len word list"
  assumes "i < length d" and "q + l < LENGTH('a)" and "0 < l"
  shows "members (d[i := d ! i OR (shl (NOT 0) q AND shr (NOT 0) (LENGTH('a) - (q + l)))]) =
    members d \<union> {i * LENGTH('a) + q ..< i * LENGTH('a) + q + l}"
proof -
  let ?L = "LENGTH('a)"
  have q: "q < ?L" "?L - (q + l) < ?L" using assms(2,3) by auto
  have "bit (shl (NOT 0) q AND shr (NOT 0) (?L - (q + l)) :: 'a word) k \<longleftrightarrow> q \<le> k \<and> k < q + l" for k
    unfolding bit_and_iff bit_full_shl [OF q(1)] bit_full_shr [OF q(2)] using assms(2) by linarith
  then have "{n. n div ?L = i \<and> bit (shl (NOT 0) q AND shr (NOT 0) (?L - (q + l)) :: 'a word) (n mod ?L)} =
      {i * ?L + q ..< i * ?L + (q + l)}" using word_part [of "q + l" ?L i q] assms(2) by simp
  then show ?thesis unfolding members_or [OF assms(1)] by (simp add: add.assoc)
qed

lemma set_range_members:
  fixes d :: "'a::len word list"
  assumes "set_range start len d = (r, d')"
  shows "(r = Inr () \<longleftrightarrow> len = 0 \<or> start + len \<le> vol d) \<and> length d' = length d \<and>
    members d' = members d \<union> ({start..<start + len} \<inter> {..<vol d})"
proof (cases "len = 0")
  case True
  then show ?thesis using assms by (simp add: set_range_def)
next
  case False
  let ?L = "LENGTH('a)"
  have st: "bit_index d start * ?L + bit_pos d start = start" by (simp add: bit_index_def bit_pos_def)
  obtain r1 d1 where loop: "set_range_loop (bit_index d start) (?L - bit_pos d start) (shl (NOT 0) (bit_pos d start)) len d = (r1, d1)"
    by (metis surj_pair)
  have fin: "range_end start len d r1 d1"
    using set_range_loop_spec [OF loop bit_pos_less] unfolding st .
  show ?thesis
  proof (cases r1)
    case (Inl e)
    then show ?thesis using assms fin loop False by (auto simp: set_range_def range_end_def)
  next
    case (Inr x)
    obtain i m l where x: "x = (i, m, l)" by (metis prod_cases3)
    with fin Inr obtain q where q: "q + l < ?L" "m = shl (NOT 0) q" "start + len = i * ?L + q + l"
        "start \<le> i * ?L + q" "members d1 = members d \<union> {start..<i * ?L + q}" "length d1 = length d"
      by (auto simp: range_end_def)
    have v: "vol d1 = vol d" using q(6) by (simp add: vol_def)
    have low: "{start..<i * ?L + q} \<subseteq> {..<vol d}" using members_vol [of d1] q(5) v by auto
    show ?thesis
    proof (cases "l = 0")
      case True
      then have "r = Inr ()" "d' = d1" using assms loop Inr x False by (auto simp: set_range_def)
      moreover have "start + len - 1 \<in> {start..<i * ?L + q}"
        unfolding atLeastLessThan_iff using q(3) True False by linarith
      then have "start + len \<le> vol d" using low by auto
      ultimately show ?thesis using q(3,5,6) True by (auto simp: Int_absorb2)
    next
      case l: False
      show ?thesis
      proof (cases "i < length d")
        case True
        have pos: "(start + len) mod ?L = q + l" unfolding q(3) using q(1) by (simp add: add.assoc)
        have "d' = d1[i := d1 ! i OR (shl (NOT 0) q AND shr (NOT 0) (?L - (q + l)))]" "r = Inr ()"
          using assms loop Inr x False l True q pos by (auto simp: set_range_def bit_pos_def Let_def)
        then have "members d' = members d1 \<union> {i * ?L + q ..< i * ?L + q + l}" "r = Inr ()" "length d' = length d"
          using members_or_part [of i d1 q l] q True l by auto
        moreover have "start + len \<le> vol d" using index_le_vol [OF True] q(1,3) by linarith
        moreover have "{start..<i * ?L + q} \<union> {i * ?L + q ..< i * ?L + q + l} = {start..<start + len}" unfolding q(3) using q(4) by auto
        ultimately show ?thesis using q(5) by auto
      next
        case over: False
        then have "d' = d1" "r \<noteq> Inr ()" using assms loop Inr x False l q by (auto simp: set_range_def)
        moreover have "vol d \<le> i * ?L" using over vol_le_index [of d i] by simp
        ultimately show ?thesis using q l low by auto
      qed
    qed
  qed
qed

text \<open>Clearing is setting in the complement.\<close>

lemma map_update_not: "i < length d \<Longrightarrow> (map NOT d)[i := map NOT d ! i AND NOT w] = map NOT (d[i := d ! i OR w])"
  for d :: "'a::len word list"
  by (simp add: map_update)

lemma clear_range_loop_not:
  fixes d :: "'a::len word list"
  shows "clear_range_loop i b (NOT m) len (map NOT d) =
    map_prod (map_sum id (\<lambda>(i, m, l). (i, NOT m, l))) (map NOT) (set_range_loop i b m len d)"
proof (induction i b m len d rule: set_range_loop.induct)
  case (1 i b m len d)
  have v: "vol (map NOT d) = vol d" by (simp add: vol_def)
  show ?case
  proof (cases "b \<le> len \<and> i < length d")
    case True
    then have "clear_range_loop i b (NOT m) len (map NOT d) =
        clear_range_loop (i + 1) LENGTH('a) (NOT (NOT 0)) (len - b) (map NOT (d[i := d ! i OR m]))"
      by (simp add: clear_range_loop.simps [of i] map_update)
    also have "\<dots> = map_prod (map_sum id (\<lambda>(i, m, l). (i, NOT m, l))) (map NOT)
        (set_range_loop (i + 1) LENGTH('a) (NOT 0) (len - b) (d[i := d ! i OR m]))"
      using True by (intro 1) auto
    also have "set_range_loop (i + 1) LENGTH('a) (NOT 0) (len - b) (d[i := d ! i OR m]) = set_range_loop i b m len d"
      using True by (simp add: set_range_loop.simps [of i])
    finally show ?thesis .
  next
    case False
    then show ?thesis by (auto simp: clear_range_loop.simps [of i] set_range_loop.simps [of i] v)
  qed
qed

lemma clear_range_not:
  fixes d :: "'a::len word list"
  shows "clear_range start len (map NOT d) = map_prod id (map NOT) (set_range start len d)"
proof -
  have same: "bit_index (map NOT d) n = bit_index d n" "bit_pos (map NOT d) n = bit_pos d n" for n
    by (simp_all add: bit_index_def bit_pos_def)
  have v: "vol (map NOT d') = vol d'" for d' :: "'a word list" by (simp add: vol_def)
  obtain r d' where l: "set_range_loop (bit_index d start) (LENGTH('a) - bit_pos d start) (shl (NOT 0) (bit_pos d start)) len d = (r, d')"
    by (metis surj_pair)
  show ?thesis
    unfolding clear_range_def set_range_def same clear_range_loop_not l
    by (cases r) (auto simp: v map_update Let_def)
qed

lemma members_not: "members (map NOT d) = {..<vol d} - members d" for d :: "'a::len word list"
  by (auto simp: members_def div_less_length bit_not_iff)

lemma clear_range_members:
  fixes d :: "'a::len word list"
  assumes "clear_range start len d = (r, d')"
  shows "(r = Inr () \<longleftrightarrow> len = 0 \<or> start + len \<le> vol d) \<and> length d' = length d \<and> members d' = members d - {start..<start + len}"
proof -
  have nn: "map NOT (map NOT e) = e" for e :: "'a word list" by (simp add: comp_def)
  obtain r1 d1 where s: "set_range start len (map NOT d) = (r1, d1)" by (metis surj_pair)
  have "(r, d') = (r1, map NOT d1)"
    using clear_range_not [of start len "map NOT d"] unfolding nn assms s by simp
  moreover have "vol d1 = vol d" "vol (map NOT d) = vol d" using set_range_members [OF s] by (simp_all add: vol_def)
  ultimately show ?thesis
    using set_range_members [OF s] members_vol [of d] by (auto simp: members_not)
qed

section \<open>Searching and counting\<close>

lemma find_in_word_spec:
  fixes d :: "'a::len word list"
  assumes "i < length d" and "p \<le> LENGTH('a)"
  shows "\<exists>r. find_in_word want d i [p..<LENGTH('a)] = Inr r \<and>
    (case r of
       None \<Rightarrow> \<forall>n \<in> {i * LENGTH('a) + p ..< i * LENGTH('a) + LENGTH('a)}. (n \<in> members d) \<noteq> want
     | Some n \<Rightarrow> n \<in> {i * LENGTH('a) + p ..< i * LENGTH('a) + LENGTH('a)} \<and> (n \<in> members d) = want \<and>
         (\<forall>m \<in> {i * LENGTH('a) + p ..< n}. (m \<in> members d) \<noteq> want))"
  using assms(2)
proof (induction "LENGTH('a) - p" arbitrary: p)
  case 0
  then show ?case by simp
next
  case (Suc k)
  let ?n = "i * LENGTH('a) + p"
  have p: "p < LENGTH('a)" and k: "k = LENGTH('a) - Suc p" using Suc.hyps(2) by auto
  then have c: "contain ?n d = Inr (?n \<in> members d)" using index_le_vol [OF assms(1)] by (intro contain_members) simp
  show ?case
  proof (cases "(?n \<in> members d) = want")
    case True
    then show ?thesis using p c by (intro exI [of _ "Some ?n"]) (simp add: upt_conv_Cons)
  next
    case False
    obtain r where r: "find_in_word want d i [Suc p..<LENGTH('a)] = Inr r" and
        post: "case r of
           None \<Rightarrow> \<forall>n \<in> {i * LENGTH('a) + Suc p ..< i * LENGTH('a) + LENGTH('a)}. (n \<in> members d) \<noteq> want
         | Some n \<Rightarrow> n \<in> {i * LENGTH('a) + Suc p ..< i * LENGTH('a) + LENGTH('a)} \<and> (n \<in> members d) = want \<and>
             (\<forall>m \<in> {i * LENGTH('a) + Suc p ..< n}. (m \<in> members d) \<noteq> want)"
      using Suc.hyps(1) [OF k] p by auto
    have "find_in_word want d i [p..<LENGTH('a)] = Inr r" using p c r False by (simp add: upt_conv_Cons)
    moreover have "{?n..<e} \<subseteq> insert ?n {i * LENGTH('a) + Suc p ..< e}" for e by auto
    ultimately show ?thesis using post False by (cases r) (fastforce, fastforce)
  qed
qed

text \<open>A search that starts at a word that is looked at, or at the start of a word, finds the first place.\<close>

lemma find_in_words_spec:
  fixes d :: "'a::len word list"
  assumes "\<And>j. j < LENGTH('a) \<Longrightarrow> bit skip j \<noteq> want" and "i \<le> length d" and "p < LENGTH('a)"
    and "p = 0 \<or> i < length d \<and> d ! i \<noteq> skip"
  shows "\<exists>n. find_in_words skip want d [i..<length d] p = Inr n \<and> n \<le> vol d \<and> (i < length d \<longrightarrow> i * LENGTH('a) + p \<le> n) \<and>
    (\<forall>m \<in> {i * LENGTH('a) + p ..< n}. (m \<in> members d) \<noteq> want) \<and> (n < vol d \<longrightarrow> (n \<in> members d) = want)"
  using assms(2-)
proof (induction "length d - i" arbitrary: i p)
  case 0
  then show ?case by (simp add: vol_def)
next
  case (Suc k)
  let ?L = "LENGTH('a)"
  have i: "i < length d" and k: "k = length d - Suc i" using Suc.hyps(2) by auto
  have w: "i * ?L + ?L \<le> vol d" using index_le_vol [OF i] .
  have nxt: "Suc i * ?L + 0 = i * ?L + ?L" by simp
  have "Suc i \<le> length d" using i by simp
  from Suc.hyps(1) [OF k this, of 0] obtain n where
    n: "find_in_words skip want d [Suc i..<length d] 0 = Inr n" "n \<le> vol d" "Suc i < length d \<longrightarrow> i * ?L + ?L \<le> n"
       "\<forall>m \<in> {i * ?L + ?L ..< n}. (m \<in> members d) \<noteq> want" "n < vol d \<longrightarrow> (n \<in> members d) = want"
    unfolding nxt by auto
  have ge: "i * ?L + ?L \<le> n"
  proof (cases "Suc i < length d")
    case False
    then have "n = vol d" using n(1) i by (simp add: not_less)
    then show ?thesis using w by simp
  qed (use n(3) in simp)
  have join: "(\<forall>m \<in> {i * ?L + p ..< n}. (m \<in> members d) \<noteq> want)" if "\<forall>m \<in> {i * ?L + p ..< i * ?L + ?L}. (m \<in> members d) \<noteq> want"
    using that n(4) by (metis atLeastLessThan_iff not_le)
  show ?case
  proof (cases "d ! i = skip")
    case True
    then have "p = 0" using Suc.prems by simp
    have "\<forall>m \<in> {i * ?L ..< i * ?L + ?L}. (m \<in> members d) \<noteq> want"
    proof
      fix m assume "m \<in> {i * ?L ..< i * ?L + ?L}"
      then obtain j where j: "m = i * ?L + j" "j < ?L" by (metis add_less_cancel_left atLeastLessThan_iff le_iff_add)
      then have "m \<in> members d \<longleftrightarrow> bit skip j" using True i by (simp add: members_def)
      then show "(m \<in> members d) \<noteq> want" using assms(1) [OF j(2)] by simp
    qed
    then show ?thesis using True i n ge join \<open>p = 0\<close> by (intro exI [of _ n]) (simp add: upt_conv_Cons)
  next
    case False
    obtain r where r: "find_in_word want d i [p..<?L] = Inr r" and
        post: "case r of
           None \<Rightarrow> \<forall>n \<in> {i * ?L + p ..< i * ?L + ?L}. (n \<in> members d) \<noteq> want
         | Some n \<Rightarrow> n \<in> {i * ?L + p ..< i * ?L + ?L} \<and> (n \<in> members d) = want \<and> (\<forall>m \<in> {i * ?L + p ..< n}. (m \<in> members d) \<noteq> want)"
      using find_in_word_spec [OF i, of p want] Suc.prems(2) by auto
    show ?thesis
    proof (cases r)
      case None
      then show ?thesis using False i r post n ge join Suc.prems(2) by (intro exI [of _ n]) (simp add: upt_conv_Cons)
    next
      case (Some n')
      then show ?thesis using False i r post w by (intro exI [of _ n']) (auto simp: upt_conv_Cons)
    qed
  qed
qed

lemma count_word_card: "count_word w = card {j. bit (w :: 'a::len word) j}"
proof -
  have "{j. bit w j} = set (filter (\<lambda>j. w AND shl 1 j \<noteq> 0) [0..<LENGTH('a)])"
    using and_one_shl [of _ w] bit_imp_le_length [of w] by auto
  then have "card {j. bit w j} = length (filter (\<lambda>j. w AND shl 1 j \<noteq> 0) [0..<LENGTH('a)])"
    by (simp add: distinct_card del: set_filter)
  then show ?thesis by (auto simp: count_word_def)
qed

lemma members_below_word:
  fixes d :: "'a::len word list"
  assumes "i < length d"
  shows "card (members d \<inter> {..<Suc i * LENGTH('a)}) = card (members d \<inter> {..<i * LENGTH('a)}) + card {j. bit (d ! i) j}"
proof -
  let ?L = "LENGTH('a)"
  have split: "members d \<inter> {..<Suc i * ?L} = (members d \<inter> {..<i * ?L}) \<union> (\<lambda>j. i * ?L + j) ` {j. bit (d ! i) j}"
  proof (intro set_eqI iffI)
    fix n assume n: "n \<in> members d \<inter> {..<Suc i * ?L}"
    show "n \<in> (members d \<inter> {..<i * ?L}) \<union> (\<lambda>j. i * ?L + j) ` {j. bit (d ! i) j}"
    proof (cases "n < i * ?L")
      case False
      then obtain j where j: "n = i * ?L + j" by (metis le_iff_add not_less)
      with n have "j < ?L" by simp
      with n j have "bit (d ! i) j" by (simp add: members_def)
      with j show ?thesis by blast
    qed (use n in simp)
  next
    fix n assume "n \<in> (members d \<inter> {..<i * ?L}) \<union> (\<lambda>j. i * ?L + j) ` {j. bit (d ! i) j}"
    then consider "n \<in> members d \<inter> {..<i * ?L}" | j where "n = i * ?L + j" "bit (d ! i) j" by blast
    then show "n \<in> members d \<inter> {..<Suc i * ?L}"
    proof cases
      case 2
      then have "j < ?L" using bit_imp_le_length by blast
      with 2 assms show ?thesis by (simp add: members_def)
    qed auto
  qed
  have "finite {j. bit (d ! i) j}" by (rule finite_subset [of _ "{..<?L}"]) (auto dest: bit_imp_le_length)
  then show ?thesis unfolding split by (subst card_Un_disjoint) (auto simp: card_image inj_on_def)
qed

lemma count_words:
  fixes d :: "'a::len word list"
  assumes "i \<le> length d"
  shows "sum_list (map (\<lambda>i. count_word (d ! i)) [0..<i]) = card (members d \<inter> {..<i * LENGTH('a)})"
  using assms
proof (induction i)
  case (Suc i)
  then show ?case using members_below_word [of i d] by (simp add: count_word_card)
qed simp

lemma count_rest:
  assumes "a \<le> b" and "b \<le> vol d"
  shows "for_each (\<lambda>j n. and_then (contain j d) (\<lambda>b. Inr (if b then n + 1 else n))) [a..<b] (card (members d \<inter> {..<a})) =
    Inr (card (members d \<inter> {..<b}))"
  using assms
proof (induction b rule: dec_induct)
  case (step b)
  have "members d \<inter> {..<Suc b} = (if b \<in> members d then insert b (members d \<inter> {..<b}) else members d \<inter> {..<b})"
    by (auto simp: less_Suc_eq)
  then show ?case using step by (simp add: for_each_append contain_members)
qed simp

lemma count_front_bits_members:
  fixes d :: "'a::len word list"
  assumes "offset \<le> vol d"
  shows "count_front_bits offset d = Inr (card (members d \<inter> {..<offset}))"
proof -
  have "offset div LENGTH('a) \<le> length d" using assms div_le_mono [of offset "vol d" "LENGTH('a)"] by (simp add: vol_def)
  then show ?thesis
    using assms count_rest [of "offset div LENGTH('a) * LENGTH('a)" offset d]
    by (simp add: count_front_bits_def bit_index_def count_words)
qed

section \<open>Properties\<close>

text \<open>
  C25. A bitmap behaves as the set of its members. Setting or clearing a range, word by word with
  masks at both ends, adds or removes exactly the numbers of the range that fit; it succeeds
  exactly when the range is empty or fits, and an error leaves the part that fits changed.
  Counting the bits before an offset gives the number of members below it.
\<close>

theorem bitmap_ranges:
  fixes d :: "'a::len word list"
  shows "(members (snd (set_range start len d)) = members d \<union> ({start..<start + len} \<inter> {..<vol d})) \<and>
    (members (snd (clear_range start len d)) = members d - {start..<start + len}) \<and>
    (fst (set_range start len d) = Inr () \<longleftrightarrow> len = 0 \<or> start + len \<le> vol d) \<and>
    (fst (clear_range start len d) = Inr () \<longleftrightarrow> len = 0 \<or> start + len \<le> vol d) \<and>
    (count_front_bits offset d = (if offset \<le> vol d then Inr (card (members d \<inter> {..<offset})) else Inl (OutOfBound offset (length d))))"
  using set_range_members [OF surjective_pairing, of start len d] clear_range_members [OF surjective_pairing, of start len d]
    count_front_bits_members [of offset d]
  by (auto simp: count_front_bits_def)

text \<open>
  The two searches return the first clear or set bit from the offset on, or the volume when
  there is none, provided that the search starts at a word boundary or in a word that is not
  passed over.
\<close>

theorem find_next_least:
  fixes d :: "'a::len word list"
  assumes "offset < vol d" and "offset mod LENGTH('a) = 0 \<or> d ! (offset div LENGTH('a)) \<notin> {0, NOT 0}"
  shows "(\<exists>n. find_next_zero offset d = Inr n \<and> offset \<le> n \<and> n \<le> vol d \<and> {offset..<n} \<subseteq> members d \<and> (n < vol d \<longrightarrow> n \<notin> members d)) \<and>
    (\<exists>n. find_next_bit offset d = Inr n \<and> offset \<le> n \<and> n \<le> vol d \<and> {offset..<n} \<inter> members d = {} \<and> (n < vol d \<longrightarrow> n \<in> members d))"
proof -
  have i: "offset div LENGTH('a) < length d" using assms(1) by (simp add: div_less_length)
  have o: "offset div LENGTH('a) * LENGTH('a) + offset mod LENGTH('a) = offset" by simp
  have "\<exists>n. find_next_zero offset d = Inr n \<and> offset \<le> n \<and> n \<le> vol d \<and> {offset..<n} \<subseteq> members d \<and> (n < vol d \<longrightarrow> n \<notin> members d)"
    using find_in_words_spec [of "NOT 0" False "offset div LENGTH('a)" d "offset mod LENGTH('a)"] i assms(2) unfolding o
    by (auto simp: find_next_zero_def subset_eq)
  moreover have "\<exists>n. find_next_bit offset d = Inr n \<and> offset \<le> n \<and> n \<le> vol d \<and> {offset..<n} \<inter> members d = {} \<and> (n < vol d \<longrightarrow> n \<in> members d)"
    using find_in_words_spec [of 0 True "offset div LENGTH('a)" d "offset mod LENGTH('a)"] i assms(2) unfolding o
    by (auto simp: find_next_bit_def disjoint_iff)
  ultimately show ?thesis ..
qed

text \<open>
  Without the proviso the searches pass over bits. When the word of the offset is full (or
  empty), the position in it is kept for the next word: its lower bits are never looked at.
\<close>

theorem find_next_skips:
  fixes d :: "'a::len word list"
  assumes "Suc (offset div LENGTH('a)) < length d"
  shows "(d ! (offset div LENGTH('a)) = NOT 0 \<and> d ! Suc (offset div LENGTH('a)) = 0 \<longrightarrow> find_next_zero offset d = Inr (offset + LENGTH('a))) \<and>
    (d ! (offset div LENGTH('a)) = 0 \<and> d ! Suc (offset div LENGTH('a)) = NOT 0 \<longrightarrow> find_next_bit offset d = Inr (offset + LENGTH('a)))"
proof -
  let ?i = "offset div LENGTH('a)" and ?p = "offset mod LENGTH('a)"
  have o: "Suc ?i * LENGTH('a) + ?p = offset + LENGTH('a)" by simp
  have "offset + LENGTH('a) < vol d"
    using index_le_vol [OF assms] mod_less_divisor [of "LENGTH('a)" offset] o len_gt_0 [where 'a = 'a] by linarith
  then have c: "contain (offset + LENGTH('a)) d = Inr (offset + LENGTH('a) \<in> members d)" by (rule contain_members)
  have m: "offset + LENGTH('a) \<in> members d \<longleftrightarrow> bit (d ! Suc ?i) ?p" using assms by (simp add: members_def div_add_self2)
  have u: "[?i..<length d] = ?i # Suc ?i # [Suc (Suc ?i)..<length d]" "[?p..<LENGTH('a)] = ?p # [Suc ?p..<LENGTH('a)]"
    using assms by (simp_all add: upt_conv_Cons)
  show ?thesis
    unfolding find_next_zero_def find_next_bit_def u find_in_words.simps find_in_word.simps o c m by auto
qed

theorem find_next_skips_witness:
  "find_next_zero 5 [0xff, 0 :: u8] = Inr 13 \<and> 8 \<notin> members [0xff, 0 :: u8]"
  using find_next_skips [of 5 "[0xff, 0 :: u8]"] by (simp add: members_def)

theorem find_next_least_witness:
  "\<exists>n. find_next_zero 0 [0xff, 1 :: u8] = Inr n \<and> {0..<n} \<subseteq> members [0xff, 1 :: u8] \<and> n \<le> 16"
  using find_next_least [of 0 "[0xff, 1 :: u8]"] by (auto simp: vol_def)

end
