(* ===== verification/IrqRoute.thy ===== *)
theory IrqRoute
  imports Bitmap
begin

text \<open>
  hypervisor/src/kvm/interrupt.rs: the table of interrupt routes handed to KVM and the allocation
  of interrupt numbers (GSIs), for x86. The number pool is a bitmap; the locale
  \<open>number_pool\<close> states what the allocation relies on.
\<close>

section \<open>Routes\<close>

datatype irqchip = PicMaster | PicSlave | Ioapic

record msi_vector =
  msg_addr_lo :: u32
  msg_addr_hi :: u32
  msg_data :: u32

text \<open>The target is the union of an entry, tagged by its type.\<close>

datatype route_target = IrqChip irqchip u32 | Msi msi_vector

record irq_route_entry =
  re_gsi :: u32
  re_target :: route_target

record irq_route_table =
  irq_routes :: "irq_route_entry list"
  gsi_bitmap :: "u64 list"

definition IOAPIC_NUM_PINS :: nat where "IOAPIC_NUM_PINS = 24"
definition PIC_MASTER_PINS :: nat where "PIC_MASTER_PINS = 8"
definition PIC_SLACE_PINS :: nat where "PIC_SLACE_PINS = 8"

text \<open>The argument is the answer of KVM to the capability query.\<close>

definition get_maximum_gsi_cnt :: "i32 \<Rightarrow> u32" where
  "get_maximum_gsi_cnt gsi_count = (if sint gsi_count < 0 then 0 else gsi_count)"

definition create_irq_route_entry :: "u32 \<Rightarrow> irqchip \<Rightarrow> u32 \<Rightarrow> irq_route_entry" where
  "create_irq_route_entry gsi chip pin = \<lparr>re_gsi = gsi, re_target = IrqChip chip pin\<rparr>"

definition new_irq_table :: "i32 \<Rightarrow> irq_route_table" where
  "new_irq_table answer = \<lparr>irq_routes = [], gsi_bitmap = new_bits (unat (get_maximum_gsi_cnt answer))\<rparr>"

text \<open>One pin; the error of the bitmap is unwrapped.\<close>

definition chip_entries :: "nat \<Rightarrow> irq_route_entry list" where
  "chip_entries i =
     (if i < PIC_MASTER_PINS then [create_irq_route_entry (of_nat i) PicMaster (of_nat i)]
      else if i < PIC_MASTER_PINS + PIC_SLACE_PINS then [create_irq_route_entry (of_nat i) PicSlave (of_nat (i - PIC_MASTER_PINS))]
      else []) @ [create_irq_route_entry (of_nat i) Ioapic (of_nat i)]"

definition init_pin :: "nat \<Rightarrow> irq_route_table \<Rightarrow> panic + irq_route_table" where
  "init_pin i t =
     (case bm_set i (gsi_bitmap t) of
        (Inl e, b) \<Rightarrow> Inl UnwrapNone
      | (Inr _, b) \<Rightarrow> Inr (t\<lparr>irq_routes := irq_routes t @ chip_entries i, gsi_bitmap := b\<rparr>))"

definition init_irq_route_table :: "irq_route_table \<Rightarrow> panic + irq_route_table" where
  "init_irq_route_table t = for_each init_pin [0..<IOAPIC_NUM_PINS] t"

definition add_msi_route :: "u32 \<Rightarrow> msi_vector \<Rightarrow> irq_route_table \<Rightarrow> irq_route_table" where
  "add_msi_route gsi v t = t\<lparr>irq_routes := irq_routes t @ [\<lparr>re_gsi = gsi, re_target = Msi v\<rparr>]\<rparr>"

text \<open>The loop removes the first entry of the number until there is none.\<close>

function remove_routes :: "u32 \<Rightarrow> irq_route_entry list \<Rightarrow> irq_route_entry list" where
  "remove_routes gsi rs =
     (case find (\<lambda>i. re_gsi (rs ! i) = gsi) [0..<length rs] of
        None \<Rightarrow> rs
      | Some i \<Rightarrow> remove_routes gsi (take i rs @ drop (Suc i) rs))"
  by pat_completeness auto
termination
  by (relation "measure (length \<circ> snd)") (auto simp: find_Some_iff)

declare remove_routes.simps [simp del]

definition remove_irq_route :: "u32 \<Rightarrow> irq_route_table \<Rightarrow> irq_route_table" where
  "remove_irq_route gsi t = t\<lparr>irq_routes := remove_routes gsi (irq_routes t)\<rparr>"

definition update_msi_route :: "u32 \<Rightarrow> msi_vector \<Rightarrow> irq_route_table \<Rightarrow> irq_route_table" where
  "update_msi_route gsi v t = add_msi_route gsi v (remove_irq_route gsi t)"

text \<open>Taking the first free number of a pool.\<close>

definition pool_alloc :: "('s \<Rightarrow> 'e + nat) \<Rightarrow> (nat \<Rightarrow> 's \<Rightarrow> ('e + unit) \<times> 's) \<Rightarrow> 's \<Rightarrow> ('e + nat) \<times> 's" where
  "pool_alloc free set_n s =
     (case free s of
        Inl e \<Rightarrow> (Inl e, s)
      | Inr n \<Rightarrow> (case set_n n s of (Inl e, s') \<Rightarrow> (Inl e, s') | (Inr _, s') \<Rightarrow> (Inr n, s')))"

definition allocate_gsi :: "irq_route_table \<Rightarrow> (bitmap_error + u32) \<times> irq_route_table" where
  "allocate_gsi t =
     (case pool_alloc (find_next_zero 0) bm_set (gsi_bitmap t) of
        (Inl e, b) \<Rightarrow> (Inl e, t\<lparr>gsi_bitmap := b\<rparr>)
      | (Inr n, b) \<Rightarrow> (Inr (of_nat n), t\<lparr>gsi_bitmap := b\<rparr>))"

definition release_gsi :: "u32 \<Rightarrow> irq_route_table \<Rightarrow> (bitmap_error + unit) \<times> irq_route_table" where
  "release_gsi gsi t =
     (case bm_clear (unat gsi) (gsi_bitmap t) of
        (Inl e, b) \<Rightarrow> (Inl e, t\<lparr>gsi_bitmap := b\<rparr>)
      | (Inr _, b) \<Rightarrow> (Inr (), remove_irq_route gsi (t\<lparr>gsi_bitmap := b\<rparr>)))"

definition get_irq_route_entry :: "u32 \<Rightarrow> irq_route_table \<Rightarrow> irq_route_entry list" where
  "get_irq_route_entry gsi t = filter (\<lambda>e. gsi = re_gsi e) (irq_routes t)"

section \<open>The number pool\<close>

locale number_pool =
  fixes used :: "'s \<Rightarrow> nat set" and cap :: "'s \<Rightarrow> nat" and free :: "'s \<Rightarrow> 'e + nat"
    and set_n :: "nat \<Rightarrow> 's \<Rightarrow> ('e + unit) \<times> 's" and clear_n :: "nat \<Rightarrow> 's \<Rightarrow> ('e + unit) \<times> 's"
  assumes used_cap: "used s \<subseteq> {..<cap s}"
    and free_first: "\<exists>n. free s = Inr n \<and> n \<le> cap s \<and> {..<n} \<subseteq> used s \<and> (n < cap s \<longrightarrow> n \<notin> used s)"
    and set_used: "set_n n s = (r, s') \<Longrightarrow> (r = Inr () \<longleftrightarrow> n < cap s) \<and> cap s' = cap s \<and> used s' = used s \<union> ({n} \<inter> {..<cap s})"
    and clear_used: "clear_n n s = (r, s') \<Longrightarrow> (r = Inr () \<longleftrightarrow> n < cap s) \<and> cap s' = cap s \<and> used s' = used s - {n}"
begin

text \<open>Allocation takes the least free number, and fails exactly when all are taken.\<close>

lemma alloc_least:
  assumes "pool_alloc free set_n s = (r, s')"
  shows "cap s' = cap s \<and>
    (case r of
       Inl e \<Rightarrow> used s = {..<cap s} \<and> used s' = used s
     | Inr n \<Rightarrow> n < cap s \<and> n \<notin> used s \<and> {..<n} \<subseteq> used s \<and> used s' = insert n (used s))"
proof -
  obtain n where n: "free s = Inr n" "n \<le> cap s" "{..<n} \<subseteq> used s" "n < cap s \<longrightarrow> n \<notin> used s"
    using free_first by blast
  obtain r1 s1 where s1: "set_n n s = (r1, s1)" by (cases "set_n n s")
  note u = set_used [OF s1]
  show ?thesis
  proof (cases "n < cap s")
    case True
    then have "r = Inr n" "s' = s1" using u s1 n(1) assms by (auto simp: pool_alloc_def)
    then show ?thesis using True u n by auto
  next
    case False
    then have "r \<noteq> Inr m" "s' = s1" for m using u s1 n(1) assms by (auto simp: pool_alloc_def split: sum.splits)
    then show ?thesis using False u n used_cap [of s] by (cases r) auto
  qed
qed

lemma alloc_not_full:
  assumes "used s \<noteq> {..<cap s}"
  obtains n s' where "pool_alloc free set_n s = (Inr n, s')"
  using assms alloc_least [OF surjective_pairing, of s] that by (cases "pool_alloc free set_n s"; cases "fst (pool_alloc free set_n s)") auto

end

lemma first_zero:
  fixes d :: "'a::len word list"
  shows "\<exists>n. find_next_zero 0 d = Inr n \<and> n \<le> vol d \<and> {..<n} \<subseteq> members d \<and> (n < vol d \<longrightarrow> n \<notin> members d)"
  using find_in_words_spec [of "NOT 0" False 0 d 0] by (auto simp: find_next_zero_def atLeast0LessThan subset_eq)

lemma vol_length: "length d' = length d \<Longrightarrow> vol d' = vol d" for d d' :: "'a::len word list"
  by (simp add: vol_def)

interpretation gsi_pool: number_pool members vol "find_next_zero 0" bm_set bm_clear
proof
  show "members s \<subseteq> {..<vol s}" for s :: "'a::len word list" by (rule members_vol)
  show "\<exists>n. find_next_zero 0 s = Inr n \<and> n \<le> vol s \<and> {..<n} \<subseteq> members s \<and> (n < vol s \<longrightarrow> n \<notin> members s)"
    for s :: "'a::len word list" by (rule first_zero)
  show "bm_set n s = (r, s') \<Longrightarrow> (r = Inr () \<longleftrightarrow> n < vol s) \<and> vol s' = vol s \<and> members s' = members s \<union> ({n} \<inter> {..<vol s})"
    for n r and s s' :: "'a::len word list" using bm_set_members [of n s r s'] vol_length by blast
  show "bm_clear n s = (r, s') \<Longrightarrow> (r = Inr () \<longleftrightarrow> n < vol s) \<and> vol s' = vol s \<and> members s' = members s - {n}"
    for n r and s s' :: "'a::len word list" using bm_clear_members [of n s r s'] vol_length by blast
qed

section \<open>The table over time\<close>

lemma remove_routes_filter: "remove_routes gsi rs = filter (\<lambda>e. re_gsi e \<noteq> gsi) rs"
proof (induction gsi rs rule: remove_routes.induct)
  case (1 gsi rs)
  show ?case
  proof (cases "find (\<lambda>i. re_gsi (rs ! i) = gsi) [0..<length rs]")
    case None
    then have "\<forall>e \<in> set rs. re_gsi e \<noteq> gsi" by (auto simp: find_None_iff in_set_conv_nth)
    then show ?thesis using None by (subst remove_routes.simps) (simp add: filter_id_conv)
  next
    case (Some i)
    then have i: "i < length rs" "re_gsi (rs ! i) = gsi" by (auto simp: find_Some_iff)
    have "remove_routes gsi rs = filter (\<lambda>e. re_gsi e \<noteq> gsi) (take i rs @ drop (Suc i) rs)"
      using Some 1 [OF Some] by (subst remove_routes.simps) simp
    also have "\<dots> = filter (\<lambda>e. re_gsi e \<noteq> gsi) (take i rs @ rs ! i # drop (Suc i) rs)" using i(2) by simp
    also have "take i rs @ rs ! i # drop (Suc i) rs = rs" using i(1) by (simp add: id_take_nth_drop [symmetric])
    finally show ?thesis .
  qed
qed

definition is_msi :: "irq_route_entry \<Rightarrow> bool" where
  "is_msi e = (case re_target e of Msi v \<Rightarrow> True | IrqChip c p \<Rightarrow> False)"

lemma is_msi_target [simp]: "is_msi \<lparr>re_gsi = g, re_target = Msi v\<rparr>" "\<not> is_msi (create_irq_route_entry g c p)"
  by (simp_all add: is_msi_def create_irq_route_entry_def)

definition msi_gsis :: "irq_route_table \<Rightarrow> u32 list" where
  "msi_gsis t = map re_gsi (filter is_msi (irq_routes t))"

definition chip_table :: "irq_route_entry list" where
  "chip_table = concat (map chip_entries [0..<IOAPIC_NUM_PINS])"

text \<open>A device gets a number with a route, changes the route of a number it holds, or gives it back.\<close>

inductive irq_step :: "irq_route_table \<Rightarrow> irq_route_table \<Rightarrow> bool" where
  route: "allocate_gsi t = (Inr g, t') \<Longrightarrow> irq_step t (add_msi_route g v t')"
| update: "g \<in> set (msi_gsis t) \<Longrightarrow> irq_step t (update_msi_route g v t)"
| release: "g \<in> set (msi_gsis t) \<Longrightarrow> release_gsi g t = (r, t') \<Longrightarrow> irq_step t t'"

definition irq_inv :: "irq_route_table \<Rightarrow> bool" where
  "irq_inv t \<longleftrightarrow> filter (Not \<circ> is_msi) (irq_routes t) = chip_table \<and> distinct (msi_gsis t) \<and>
     (\<forall>g \<in> set (msi_gsis t). unat g \<in> members (gsi_bitmap t) \<and> IOAPIC_NUM_PINS \<le> unat g) \<and>
     {..<IOAPIC_NUM_PINS} \<subseteq> members (gsi_bitmap t) \<and> vol (gsi_bitmap t) \<le> 2 ^ 32"

lemma chip_gsi: "e \<in> set chip_table \<Longrightarrow> unat (re_gsi e) < IOAPIC_NUM_PINS"
  by (auto simp: chip_table_def chip_entries_def create_irq_route_entry_def IOAPIC_NUM_PINS_def unat_of_nat take_bit_nat_eq_self
      split: if_splits)

lemma irq_inv_gsi:
  assumes "irq_inv t" and "e \<in> set (irq_routes t)"
  shows "unat (re_gsi e) \<in> members (gsi_bitmap t)" and "\<not> is_msi e \<Longrightarrow> unat (re_gsi e) < IOAPIC_NUM_PINS"
proof -
  have c: "unat (re_gsi e) < IOAPIC_NUM_PINS" if "\<not> is_msi e"
  proof -
    have "e \<in> set (filter (Not \<circ> is_msi) (irq_routes t))" using assms(2) that by simp
    then show ?thesis using assms(1) chip_gsi unfolding irq_inv_def by metis
  qed
  then show "\<not> is_msi e \<Longrightarrow> unat (re_gsi e) < IOAPIC_NUM_PINS" .
  show "unat (re_gsi e) \<in> members (gsi_bitmap t)"
  proof (cases "is_msi e")
    case True
    then have "re_gsi e \<in> set (msi_gsis t)" using assms(2) unfolding msi_gsis_def by simp
    then show ?thesis using assms(1) by (simp add: irq_inv_def)
  next
    case False
    then show ?thesis using c assms(1) by (auto simp: irq_inv_def)
  qed
qed

lemma allocate_gsi_fresh:
  assumes "irq_inv t" and "allocate_gsi t = (Inr g, t')"
  shows "unat g \<notin> members (gsi_bitmap t)" "IOAPIC_NUM_PINS \<le> unat g" "irq_routes t' = irq_routes t"
    "members (gsi_bitmap t') = insert (unat g) (members (gsi_bitmap t))" "vol (gsi_bitmap t') = vol (gsi_bitmap t)"
proof -
  obtain n b where p: "pool_alloc (find_next_zero 0) bm_set (gsi_bitmap t) = (Inr n, b)" and g: "g = of_nat n" "t' = t\<lparr>gsi_bitmap := b\<rparr>"
    using assms(2) by (auto simp: allocate_gsi_def split: prod.splits sum.splits)
  note l = gsi_pool.alloc_least [OF p]
  have "n < 2 ^ 32" using l assms(1) by (simp add: irq_inv_def)
  then have u: "unat g = n" unfolding g by (simp add: unat_of_nat take_bit_nat_eq_self)
  show "unat g \<notin> members (gsi_bitmap t)" "irq_routes t' = irq_routes t"
    "members (gsi_bitmap t') = insert (unat g) (members (gsi_bitmap t))" "vol (gsi_bitmap t') = vol (gsi_bitmap t)"
    using l u g by auto
  then show "IOAPIC_NUM_PINS \<le> unat g" using assms(1) by (auto simp: irq_inv_def not_less [symmetric])
qed

lemma filter_chip:
  assumes "irq_inv t" and "IOAPIC_NUM_PINS \<le> unat g"
  shows "filter (Not \<circ> is_msi) (filter (\<lambda>e. re_gsi e \<noteq> g) (irq_routes t)) = chip_table"
proof -
  have "filter (Not \<circ> is_msi) (filter (\<lambda>e. re_gsi e \<noteq> g) (irq_routes t)) = filter (Not \<circ> is_msi) (irq_routes t)"
    unfolding filter_filter using irq_inv_gsi(2) [OF assms(1)] assms(2) by (intro filter_cong) (auto simp: not_le [symmetric])
  then show ?thesis using assms(1) by (simp add: irq_inv_def)
qed

lemma msi_gsis_remove: "msi_gsis (remove_irq_route g t) = filter (\<lambda>x. x \<noteq> g) (msi_gsis t)"
  unfolding msi_gsis_def remove_irq_route_def remove_routes_filter
  by (simp add: filter_map comp_def conj_commute)

lemma msi_gsis_add [simp]: "msi_gsis (add_msi_route g v t) = msi_gsis t @ [g]"
  by (simp add: msi_gsis_def add_msi_route_def)

lemma bitmap_kept [simp]:
  "gsi_bitmap (add_msi_route g v t) = gsi_bitmap t" "gsi_bitmap (remove_irq_route g t) = gsi_bitmap t"
  "gsi_bitmap (update_msi_route g v t) = gsi_bitmap t"
  by (simp_all add: add_msi_route_def remove_irq_route_def update_msi_route_def)

lemma chips_kept:
  "filter (Not \<circ> is_msi) (irq_routes (add_msi_route g v t)) = filter (Not \<circ> is_msi) (irq_routes t)"
  "irq_inv t \<Longrightarrow> IOAPIC_NUM_PINS \<le> unat g \<Longrightarrow> filter (Not \<circ> is_msi) (irq_routes (remove_irq_route g t)) = chip_table"
  using filter_chip [of t g] by (simp_all add: add_msi_route_def remove_irq_route_def remove_routes_filter)

lemma irq_step_inv:
  assumes "irq_step t t'" and "irq_inv t"
  shows "irq_inv t'"
  using assms
proof (cases rule: irq_step.cases)
  case (route g t1 v)
  note f = allocate_gsi_fresh [OF assms(2) route(2)]
  have m: "msi_gsis t1 = msi_gsis t" using f(3) by (simp add: msi_gsis_def)
  moreover have "g \<notin> set (msi_gsis t)" using f(1) assms(2) unfolding irq_inv_def by blast
  ultimately show ?thesis using f assms(2) unfolding route(1) irq_inv_def chips_kept by auto
next
  case (update g v)
  have "IOAPIC_NUM_PINS \<le> unat g" "unat g \<in> members (gsi_bitmap t)" using assms(2) update(2) by (auto simp: irq_inv_def)
  moreover note chips_kept(2) [OF assms(2) this(1)]
  ultimately show ?thesis using assms(2)
    unfolding update(1) update_msi_route_def irq_inv_def chips_kept(1) by (auto simp: msi_gsis_remove)
next
  case (release g r)
  obtain r1 b where c: "bm_clear (unat g) (gsi_bitmap t) = (r1, b)" by (cases "bm_clear (unat g) (gsi_bitmap t)")
  have g: "IOAPIC_NUM_PINS \<le> unat g" "unat g \<in> members (gsi_bitmap t)" using assms(2) release(1) by (auto simp: irq_inv_def)
  note k = bm_clear_members [OF c]
  have "r1 = Inr ()" using k(1) g(2) members_vol by blast
  then have t': "t' = remove_irq_route g (t\<lparr>gsi_bitmap := b\<rparr>)" using release(2) c by (simp add: release_gsi_def)
  have ch: "filter (Not \<circ> is_msi) (irq_routes t') = chip_table"
    using chips_kept(2) [OF assms(2) g(1)] by (simp add: t' remove_irq_route_def)
  have ms: "msi_gsis t' = filter (\<lambda>x. x \<noteq> g) (msi_gsis t)"
    unfolding t' msi_gsis_remove by (simp add: msi_gsis_def)
  show ?thesis
    using assms(2) ch g k vol_length [OF k(2)] unfolding irq_inv_def ms by (auto simp: t' word_eq_unat)
qed

lemma init_pins:
  assumes "n \<le> vol (gsi_bitmap t)" and "irq_routes t = []" and "members (gsi_bitmap t) = {}"
  shows "\<exists>t'. for_each init_pin [0..<n] t = Inr t' \<and> irq_routes t' = concat (map chip_entries [0..<n]) \<and>
    members (gsi_bitmap t') = {..<n} \<and> vol (gsi_bitmap t') = vol (gsi_bitmap t)"
  using assms(1)
proof (induction n)
  case 0
  then show ?case using assms by simp
next
  case (Suc n)
  then obtain t' where t': "for_each init_pin [0..<n] t = Inr t'" "irq_routes t' = concat (map chip_entries [0..<n])"
      "members (gsi_bitmap t') = {..<n}" "vol (gsi_bitmap t') = vol (gsi_bitmap t)" by auto
  obtain r b where b: "bm_set n (gsi_bitmap t') = (r, b)" by (cases "bm_set n (gsi_bitmap t')")
  note k = bm_set_members [OF b]
  have "r = Inr ()" using k(1) t'(4) Suc.prems by simp
  then have step: "init_pin n t' = Inr (t'\<lparr>irq_routes := irq_routes t' @ chip_entries n, gsi_bitmap := b\<rparr>)"
    using b by (simp add: init_pin_def)
  have "{n} \<inter> {..<vol (gsi_bitmap t')} = {n}" using t'(4) Suc.prems by simp
  then show ?case using t' step k(3) vol_length [OF k(2)] by (simp add: for_each_append lessThan_Suc)
qed

lemma new_table_vol:
  assumes "unat answer \<le> 2 ^ 26"
  shows "vol (gsi_bitmap (new_irq_table answer)) = unat answer * 64"
proof -
  have u: "uint answer = int (unat answer)" by simp
  have "int (unat answer) \<le> int (2 ^ 26)" using assms by (simp only: of_nat_le_iff)
  then have "uint answer < 2 ^ 31" unfolding u by (rule order.strict_trans1) simp
  moreover have "- (2 ^ 31) \<le> uint answer" by (rule order_trans [of _ 0]) simp_all
  ultimately have "sint answer = uint answer" unfolding sint_uint by (intro signed_take_bit_int_eq_self) simp_all
  then have "\<not> sint answer < 0" by (simp add: not_less)
  then have "get_maximum_gsi_cnt answer = answer" unfolding get_maximum_gsi_cnt_def by (rule if_not_P)
  then show ?thesis by (simp add: new_irq_table_def vol_def new_bits_def)
qed

lemma new_table_inv:
  assumes "0 < unat answer" and "unat answer \<le> 2 ^ 26"
  shows "\<exists>t. init_irq_route_table (new_irq_table answer) = Inr t \<and> irq_inv t"
proof -
  let ?t = "new_irq_table answer"
  note v = new_table_vol [OF assms(2)]
  have "members (gsi_bitmap ?t) = {}" by (auto simp: new_irq_table_def members_def new_bits_def)
  then obtain t' where t': "for_each init_pin [0..<IOAPIC_NUM_PINS] ?t = Inr t'" "irq_routes t' = concat (map chip_entries [0..<IOAPIC_NUM_PINS])"
      "members (gsi_bitmap t') = {..<IOAPIC_NUM_PINS}" "vol (gsi_bitmap t') = vol (gsi_bitmap ?t)"
    using init_pins [of IOAPIC_NUM_PINS ?t] v assms(1) by (auto simp: IOAPIC_NUM_PINS_def new_irq_table_def)
  have chips: "\<forall>e \<in> set chip_table. \<not> is_msi e"
    by (auto simp: chip_table_def chip_entries_def split: if_splits)
  have "irq_routes t' = chip_table" using t'(2) by (simp add: chip_table_def)
  moreover have "filter (Not \<circ> is_msi) chip_table = chip_table" "filter is_msi chip_table = []"
    using chips by (auto simp: filter_id_conv filter_empty_conv)
  ultimately have "irq_inv t'" using t' v assms(2) by (simp add: irq_inv_def msi_gsis_def)
  then show ?thesis using t'(1) by (auto simp: init_irq_route_table_def)
qed

section \<open>Properties\<close>

text \<open>
  C19. From the initial table on, whatever devices get numbers, change their routes and give them
  back: the routes of the interrupt controllers stay as they were set up, no number has two
  MSI routes and none of them is a pin of a controller, and a newly allocated
  number has no route at all.
\<close>

theorem gsi_routes_unique:
  assumes "0 < unat answer" and "unat answer \<le> 2 ^ 26" and "init_irq_route_table (new_irq_table answer) = Inr t0"
    and "irq_step\<^sup>*\<^sup>* t0 t"
  shows "filter (Not \<circ> is_msi) (irq_routes t) = chip_table \<and> distinct (msi_gsis t) \<and> (\<forall>g \<in> set (msi_gsis t). 24 \<le> unat g) \<and>
    (\<forall>g t'. allocate_gsi t = (Inr g, t') \<longrightarrow> get_irq_route_entry g t = [])"
proof -
  have "irq_inv t0" using new_table_inv [OF assms(1,2)] assms(3) by auto
  with assms(4) have inv: "irq_inv t" by (induction rule: rtranclp_induct) (auto intro: irq_step_inv)
  have "get_irq_route_entry g t = []" if "allocate_gsi t = (Inr g, t')" for g t'
    using allocate_gsi_fresh(1) [OF inv that] irq_inv_gsi(1) [OF inv] by (auto simp: get_irq_route_entry_def filter_empty_conv)
  then show ?thesis using inv by (simp add: irq_inv_def IOAPIC_NUM_PINS_def)
qed

text \<open>
  The pool is larger than what KVM supports. \<open>Bitmap::new\<close> takes the number of 64-bit words and
  is given the number of GSIs, so when all the numbers KVM supports are taken, one more is
  allocated without an error.
\<close>

theorem allocate_beyond_limit:
  assumes "0 < unat answer" and "unat answer \<le> 2 ^ 26" and "members (gsi_bitmap t) = {..<unat answer}"
    and "length (gsi_bitmap t) = length (gsi_bitmap (new_irq_table answer))"
  shows "fst (allocate_gsi t) = Inr answer"
proof -
  have "vol (gsi_bitmap t) = unat answer * 64" using new_table_vol [OF assms(2)] vol_length [OF assms(4)] by simp
  then have "members (gsi_bitmap t) \<noteq> {..<vol (gsi_bitmap t)}" using assms(1,3) by (simp add: lessThan_eq_iff)
  then obtain n b where p: "pool_alloc (find_next_zero 0) bm_set (gsi_bitmap t) = (Inr n, b)" by (rule gsi_pool.alloc_not_full)
  then have "n = unat answer" using gsi_pool.alloc_least [OF p] assms(3) by auto
  then show ?thesis using p by (simp add: allocate_gsi_def)
qed

theorem gsi_routes_unique_witness:
  "\<exists>t0 t. init_irq_route_table (new_irq_table 1) = Inr t0 \<and> irq_step t0 t \<and> msi_gsis t \<noteq> [] \<and> distinct (msi_gsis t) \<and>
     filter (Not \<circ> is_msi) (irq_routes t) = chip_table"
proof -
  have v: "vol (gsi_bitmap (new_irq_table 1)) = 64" using new_table_vol [of 1] by simp
  have "members (gsi_bitmap (new_irq_table 1)) = {}" by (auto simp: new_irq_table_def members_def new_bits_def)
  then obtain t0 where t0: "init_irq_route_table (new_irq_table 1) = Inr t0" "members (gsi_bitmap t0) = {..<24}" "vol (gsi_bitmap t0) = 64"
    using init_pins [of IOAPIC_NUM_PINS "new_irq_table 1"] v
    by (auto simp: init_irq_route_table_def IOAPIC_NUM_PINS_def new_irq_table_def)
  then have "members (gsi_bitmap t0) \<noteq> {..<vol (gsi_bitmap t0)}" by simp
  then obtain n b where "pool_alloc (find_next_zero 0) bm_set (gsi_bitmap t0) = (Inr n, b)" by (rule gsi_pool.alloc_not_full)
  then have step: "irq_step t0 (add_msi_route (of_nat n) v (t0\<lparr>gsi_bitmap := b\<rparr>))" for v
    by (intro irq_step.route) (simp add: allocate_gsi_def)
  have "irq_step\<^sup>*\<^sup>* t0 (add_msi_route (of_nat n) v (t0\<lparr>gsi_bitmap := b\<rparr>))" for v using step by blast
  from gsi_routes_unique [OF _ _ t0(1) this] step t0(1) show ?thesis by (fastforce simp: msi_gsis_add)
qed

theorem allocate_beyond_limit_witness: "fst (allocate_gsi \<lparr>irq_routes = [], gsi_bitmap = [1]\<rparr>) = Inr 1"
proof -
  have "members [1 :: u64] = {0}"
  proof (intro set_eqI iffI)
    fix n assume "n \<in> members [1 :: u64]"
    then have "n < 64" "n mod 64 = 0" by (auto simp: members_def bit_simps)
    then show "n \<in> {0}" by simp
  qed (simp add: members_def)
  then show ?thesis
    using allocate_beyond_limit [of 1 "\<lparr>irq_routes = [], gsi_bitmap = [1]\<rparr>"]
    by (simp add: new_irq_table_def new_bits_def get_maximum_gsi_cnt_def lessThan_Suc)
qed

end
