(* ===== verification/Msix.thy ===== *)
theory Msix
  imports PciRegs IrqRoute "HOL-Library.AList"
begin

text \<open>
  devices/src/pci/msix.rs: the MSI-X table and pending bits of a PCI device. A vector that is
  masked when the device signals it becomes pending and is delivered when it is unmasked.
  Messages handed to KVM are recorded in order with the device number. The operations on routes
  take and return the route table of \<open>IrqRoute\<close>; whether the KVM calls behind them succeed is
  an argument.
\<close>

section \<open>State\<close>

definition MSIX_TABLE_ENTRY_SIZE :: u16 where "MSIX_TABLE_ENTRY_SIZE = 16"
definition MSIX_TABLE_VEC_CTL :: u16 where "MSIX_TABLE_VEC_CTL = 0x0c"
definition MSIX_TABLE_MASK_BIT :: u8 where "MSIX_TABLE_MASK_BIT = 0x01"
definition MSIX_TABLE_SIZE_MAX :: u16 where "MSIX_TABLE_SIZE_MAX = 0x7ff"
definition MSIX_MSG_UPPER_ADDR :: u16 where "MSIX_MSG_UPPER_ADDR = 0x04"
definition MSIX_MSG_DATA :: u16 where "MSIX_MSG_DATA = 0x08"
definition MSIX_CAP_CONTROL :: nat where "MSIX_CAP_CONTROL = 2"
definition MSIX_CAP_ENABLE :: u16 where "MSIX_CAP_ENABLE = 0x8000"
definition MSIX_CAP_FUNC_MASK :: u16 where "MSIX_CAP_FUNC_MASK = 0x4000"

lemmas msix_consts = MSIX_TABLE_ENTRY_SIZE_def MSIX_TABLE_VEC_CTL_def MSIX_TABLE_MASK_BIT_def
  MSIX_MSG_UPPER_ADDR_def MSIX_MSG_DATA_def MSIX_CAP_CONTROL_def MSIX_CAP_ENABLE_def MSIX_CAP_FUNC_MASK_def

record message =
  address_lo :: u32
  address_hi :: u32
  mdata :: u32

record gsi_msi_route =
  gr_gsi :: i32
  gr_msg :: message

text \<open>The hash map of routes is an association list; its iteration order is that of the list.\<close>

record msix =
  mx_table :: "u8 list"
  mx_pba :: "u8 list"
  func_masked :: bool
  mx_enabled :: bool
  msix_cap_offset :: u16
  mx_dev_id :: u16
  gsi_msi_routes :: "(u16 \<times> gsi_msi_route) list"
  mx_sent :: "(message \<times> u16) list"

record msi_kvm =
  mk_unregister :: "u32 \<Rightarrow> bool"
  mk_register :: "u32 \<Rightarrow> bool"
  mk_commit :: "irq_route_table \<Rightarrow> bool"

section \<open>Masks and pending bits\<close>

definition nr_vectors :: "msix \<Rightarrow> u16" where
  "nr_vectors m = of_nat (length (mx_table m)) div MSIX_TABLE_ENTRY_SIZE"

definition mask_entry :: "nat \<Rightarrow> u8 list \<Rightarrow> u8 list" where
  "mask_entry v t = t[v * 16 + 12 := t ! (v * 16 + 12) OR MSIX_TABLE_MASK_BIT]"

definition mask_all_vectors :: "msix \<Rightarrow> msix" where
  "mask_all_vectors m = m\<lparr>mx_table := fold mask_entry [0..<length (mx_table m) div 16] (mx_table m)\<rparr>"

definition new_msix :: "u32 \<Rightarrow> u32 \<Rightarrow> u16 \<Rightarrow> u16 \<Rightarrow> msix" where
  "new_msix table_size pba_size cap dev_id =
     mask_all_vectors \<lparr>mx_table = replicate (unat table_size) 0, mx_pba = replicate (unat pba_size) 0,
       func_masked = True, mx_enabled = True, msix_cap_offset = cap, mx_dev_id = dev_id,
       gsi_msi_routes = [], mx_sent = []\<rparr>"

definition msix_reset :: "msix \<Rightarrow> msix" where
  "msix_reset m = mask_all_vectors (m\<lparr>mx_table := replicate (length (mx_table m)) 0, mx_pba := replicate (length (mx_pba m)) 0,
     func_masked := True, mx_enabled := True\<rparr>)"

definition is_vector_masked :: "u16 \<Rightarrow> msix \<Rightarrow> panic + bool" where
  "is_vector_masked v m =
     (if \<not> mx_enabled m \<or> func_masked m then Inr True
      else let off = unat (v * MSIX_TABLE_ENTRY_SIZE + MSIX_TABLE_VEC_CTL)
           in if off < length (mx_table m) then Inr (mx_table m ! off AND MSIX_TABLE_MASK_BIT \<noteq> 0)
              else Inl IndexOutOfRange)"

text \<open>The word that holds a pending bit is addressed by \<open>vector / 64\<close> as a byte offset, as in the source.\<close>

definition pba_word :: "u16 \<Rightarrow> msix \<Rightarrow> panic + u64" where
  "pba_word v m = (case le_read_u64 (mx_pba m) (unat v div 64) of None \<Rightarrow> Inl UnwrapNone | Some w \<Rightarrow> Inr w)"

definition pba_store :: "u16 \<Rightarrow> u64 \<Rightarrow> msix \<Rightarrow> panic + msix" where
  "pba_store v w m = (case le_write_u64 (mx_pba m) (unat v div 64) w of None \<Rightarrow> Inl UnwrapNone | Some p \<Rightarrow> Inr (m\<lparr>mx_pba := p\<rparr>))"

definition pending_bit :: "u16 \<Rightarrow> u64" where
  "pending_bit v = shl 1 (unat v mod 64)"

definition is_vector_pending :: "u16 \<Rightarrow> msix \<Rightarrow> panic + bool" where
  "is_vector_pending v m = and_then (pba_word v m) (\<lambda>w. Inr (w AND pending_bit v > 0))"

definition set_pending_vector :: "u16 \<Rightarrow> msix \<Rightarrow> panic + msix" where
  "set_pending_vector v m = and_then (pba_word v m) (\<lambda>w. pba_store v (w OR pending_bit v) m)"

definition clear_pending_vector :: "u16 \<Rightarrow> msix \<Rightarrow> panic + msix" where
  "clear_pending_vector v m = and_then (pba_word v m) (\<lambda>w. pba_store v (w AND NOT (pending_bit v)) m)"

definition vectors :: "msix \<Rightarrow> u16 list" where
  "vectors m = map of_nat [0..<unat (nr_vectors m)]"

definition clear_pending_vectors :: "msix \<Rightarrow> panic + msix" where
  "clear_pending_vectors m = for_each clear_pending_vector (vectors m) m"

section \<open>Messages\<close>

definition table_u32 :: "nat \<Rightarrow> msix \<Rightarrow> panic + u32" where
  "table_u32 off m = (case le_read_u32 (mx_table m) off of None \<Rightarrow> Inl UnwrapNone | Some w \<Rightarrow> Inr w)"

definition get_message :: "u16 \<Rightarrow> msix \<Rightarrow> panic + message" where
  "get_message v m =
     (let e = v * MSIX_TABLE_ENTRY_SIZE
      in and_then (table_u32 (unat e) m) (\<lambda>lo.
         and_then (table_u32 (unat (e + MSIX_MSG_UPPER_ADDR)) m) (\<lambda>hi.
         and_then (table_u32 (unat (e + MSIX_MSG_DATA)) m) (\<lambda>d.
           Inr \<lparr>address_lo = lo, address_hi = hi, mdata = d\<rparr>))))"

definition send_msix :: "message \<Rightarrow> u16 \<Rightarrow> msix \<Rightarrow> msix" where
  "send_msix msg dev m = m\<lparr>mx_sent := mx_sent m @ [(msg, dev)]\<rparr>"

definition msix_notify :: "u16 \<Rightarrow> u16 \<Rightarrow> msix \<Rightarrow> panic + msix" where
  "msix_notify v dev m =
     (if v \<ge> nr_vectors m then Inr m
      else and_then (is_vector_masked v m) (\<lambda>masked.
        if masked then set_pending_vector v m
        else and_then (get_message v m) (\<lambda>msg. Inr (send_msix msg dev m))))"

section \<open>Guest accesses\<close>

text \<open>The control register in the capability, read from the configuration space.\<close>

definition msix_control :: "nat \<Rightarrow> u8 list \<Rightarrow> panic + u16" where
  "msix_control cap config = (case le_read_u16 config (cap + MSIX_CAP_CONTROL) of None \<Rightarrow> Inl UnwrapNone | Some w \<Rightarrow> Inr w)"

definition is_msix_enabled :: "nat \<Rightarrow> u8 list \<Rightarrow> panic + bool" where
  "is_msix_enabled cap config = and_then (msix_control cap config) (\<lambda>c. Inr (c AND MSIX_CAP_ENABLE > 0))"

definition is_msix_func_masked :: "nat \<Rightarrow> u8 list \<Rightarrow> panic + bool" where
  "is_msix_func_masked cap config = and_then (msix_control cap config) (\<lambda>c. Inr (c AND MSIX_CAP_FUNC_MASK > 0))"

text \<open>Delivering one vector that is pending and no longer masked.\<close>

definition deliver_vector :: "u16 \<Rightarrow> u16 \<Rightarrow> msix \<Rightarrow> panic + msix" where
  "deliver_vector dev v m =
     and_then (is_vector_masked v m) (\<lambda>masked.
       if masked then Inr m
       else and_then (is_vector_pending v m) (\<lambda>pending.
         if \<not> pending then Inr m
         else and_then (clear_pending_vector v m) (\<lambda>m1.
              and_then (get_message v m1) (\<lambda>msg. Inr (send_msix msg dev m1)))))"

definition msix_write_config :: "u8 list \<Rightarrow> u16 \<Rightarrow> nat \<Rightarrow> nat \<Rightarrow> msix \<Rightarrow> panic + msix" where
  "msix_write_config config dev off len m =
     (case ranges_overlap (of_nat off) (of_nat len) (ucast (msix_cap_offset m) + of_nat MSIX_CAP_CONTROL + 1) 1 of
        None \<Rightarrow> Inl UnwrapNone
      | Some False \<Rightarrow> Inr m
      | Some True \<Rightarrow>
          and_then (is_msix_func_masked (unat (msix_cap_offset m)) config) (\<lambda>masked.
          and_then (is_msix_enabled (unat (msix_cap_offset m)) config) (\<lambda>enabled.
            let changed = (\<not> (func_masked m = masked \<and> mx_enabled m = enabled));
                m1 = m\<lparr>func_masked := masked, mx_enabled := enabled\<rparr>
            in if changed \<and> enabled \<and> \<not> masked then for_each (deliver_vector dev) (vectors m1) m1 else Inr m1)))"

section \<open>Routes\<close>

definition msi_vector_of :: "message \<Rightarrow> msi_vector" where
  "msi_vector_of e = \<lparr>msg_addr_lo = address_lo e, msg_addr_hi = address_hi e, msg_data = mdata e\<rparr>"

text \<open>The flag says whether the operation succeeded; what it did before a failing call stays done.\<close>

definition update_irq_routing ::
    "msi_kvm \<Rightarrow> u16 \<Rightarrow> bool \<Rightarrow> msix \<times> irq_route_table \<Rightarrow> panic + bool \<times> msix \<times> irq_route_table" where
  "update_irq_routing K v is_masked mt =
     (case mt of (m, t) \<Rightarrow>
       and_then (get_message v m) (\<lambda>entry.
         case map_of (gsi_msi_routes m) v of
           None \<Rightarrow> Inr (True, m, t)
         | Some r \<Rightarrow>
             if is_masked then Inr (mk_unregister K (gr_gsi r), m, t)
             else if mdata (gr_msg r) \<noteq> mdata entry \<or> address_lo (gr_msg r) \<noteq> address_lo entry \<or> address_hi (gr_msg r) \<noteq> address_hi entry
             then let t1 = update_msi_route (gr_gsi r) (msi_vector_of entry) t
                  in if \<not> mk_commit K t1 then Inr (False, m, t1)
                     else Inr (mk_register K (gr_gsi r),
                               m\<lparr>gsi_msi_routes := AList.update v (r\<lparr>gr_msg := entry\<rparr>) (gsi_msi_routes m)\<rparr>, t1)
             else Inr (mk_register K (gr_gsi r), m, t)))"

definition register_irqfd ::
    "msi_kvm \<Rightarrow> u16 \<Rightarrow> msix \<times> irq_route_table \<Rightarrow> panic + bool \<times> msix \<times> irq_route_table" where
  "register_irqfd K v mt =
     (case mt of (m, t) \<Rightarrow>
       and_then (get_message v m) (\<lambda>entry.
         case allocate_gsi t of
           (Inl e, t1) \<Rightarrow> Inr (False, m, t1)
         | (Inr gsi, t1) \<Rightarrow>
             let t2 = add_msi_route gsi (msi_vector_of entry) t1
             in if \<not> mk_commit K t2 then Inr (False, m, t2)
                else if \<not> mk_register K gsi then Inr (False, m, t2)
                else Inr (True, m\<lparr>gsi_msi_routes := AList.update v \<lparr>gr_gsi = gsi, gr_msg = entry\<rparr> (gsi_msi_routes m)\<rparr>, t2)))"

fun unregister_routes :: "msi_kvm \<Rightarrow> (u16 \<times> gsi_msi_route) list \<Rightarrow> irq_route_table \<Rightarrow> bool \<times> irq_route_table" where
  "unregister_routes K [] t = (True, t)"
| "unregister_routes K ((v, r) # rs) t =
     (if \<not> mk_unregister K (gr_gsi r) then (False, t)
      else case release_gsi (gr_gsi r) t of
        (Inl e, t1) \<Rightarrow> (False, t1)
      | (Inr _, t1) \<Rightarrow> unregister_routes K rs t1)"

definition unregister_irqfd :: "msi_kvm \<Rightarrow> msix \<times> irq_route_table \<Rightarrow> bool \<times> msix \<times> irq_route_table" where
  "unregister_irqfd K mt =
     (case mt of (m, t) \<Rightarrow>
       case unregister_routes K (gsi_msi_routes m) t of
         (False, t1) \<Rightarrow> (False, m, t1)
       | (True, t1) \<Rightarrow> (True, m\<lparr>gsi_msi_routes := []\<rparr>, t1))"

section \<open>Guest accesses to the table\<close>

definition msix_table_read :: "nat \<Rightarrow> nat \<Rightarrow> msix \<Rightarrow> u8 list option" where
  "msix_table_read len off m =
     (if off + len > length (mx_table m) then None else Some (take len (drop off (mx_table m))))"

text \<open>
  \<open>copy_from_slice\<close> panics unless the data has the length of its destination, which is four
  bytes. The flag is the closure's answer.
\<close>

definition msix_table_write ::
    "msi_kvm \<Rightarrow> u8 list \<Rightarrow> nat \<Rightarrow> u16 \<Rightarrow> msix \<times> irq_route_table \<Rightarrow> panic + bool \<times> msix \<times> irq_route_table" where
  "msix_table_write K data off dev mt =
     (case mt of (m, t) \<Rightarrow>
        if off + length data > length (mx_table m) then Inr (False, m, t)
        else let v = of_nat off div MSIX_TABLE_ENTRY_SIZE
             in and_then (is_vector_masked v m) (\<lambda>was_masked.
                if off + 4 > length (mx_table m) \<or> length data \<noteq> 4 then Inl IndexOutOfRange
                else let m1 = m\<lparr>mx_table := take off (mx_table m) @ data @ drop (off + 4) (mx_table m)\<rparr>
                     in and_then (is_vector_masked v m1) (\<lambda>is_masked.
                        and_then (if was_masked \<noteq> is_masked then update_irq_routing K v is_masked (m1, t) else Inr (True, m1, t))
                          (\<lambda>(ok, m2, t2).
                             if \<not> ok then Inr (False, m2, t2)
                             else if was_masked \<and> \<not> is_masked
                             then and_then (is_vector_pending v m2) (\<lambda>pending.
                                    if pending
                                    then and_then (clear_pending_vector v m2) (\<lambda>m3.
                                         and_then (msix_notify v dev m3) (\<lambda>m4. Inr (True, m4, t2)))
                                    else Inr (True, m2, t2))
                             else Inr (True, m2, t2)))))"

definition msix_pba_read :: "nat \<Rightarrow> nat \<Rightarrow> msix \<Rightarrow> u8 list option" where
  "msix_pba_read len off m =
     (if off + len > length (mx_pba m) then None else Some (take len (drop off (mx_pba m))))"

section \<open>Migration\<close>

record msix_state =
  ms_table :: "u8 list"
  ms_pba :: "u8 list"
  ms_func_masked :: bool
  ms_enabled :: bool
  ms_cap_offset :: u16
  ms_dev_id :: u16

text \<open>The arrays of the state have 2048 and 256 bytes; copying more panics.\<close>

definition msix_get_state :: "msix \<Rightarrow> panic + msix_state" where
  "msix_get_state m =
     (if length (mx_table m) > 2048 \<or> length (mx_pba m) > 256 then Inl IndexOutOfRange
      else Inr \<lparr>ms_table = mx_table m @ replicate (2048 - length (mx_table m)) 0,
                ms_pba = mx_pba m @ replicate (256 - length (mx_pba m)) 0,
                ms_func_masked = func_masked m, ms_enabled = mx_enabled m, ms_cap_offset = msix_cap_offset m, ms_dev_id = mx_dev_id m\<rparr>)"

definition msix_set_state :: "msix_state \<Rightarrow> msix \<Rightarrow> panic + msix" where
  "msix_set_state st m =
     (if length (mx_table m) > length (ms_table st) \<or> length (mx_pba m) > length (ms_pba st) then Inl IndexOutOfRange
      else Inr (m\<lparr>mx_table := take (length (mx_table m)) (ms_table st), mx_pba := take (length (mx_pba m)) (ms_pba st),
                  func_masked := ms_func_masked st, mx_enabled := ms_enabled st, msix_cap_offset := ms_cap_offset st,
                  mx_dev_id := ms_dev_id st\<rparr>))"

text \<open>Resuming on the destination: every unmasked vector gets a route, and pending ones are sent.\<close>

definition resume_vector ::
    "msi_kvm \<Rightarrow> u16 \<Rightarrow> bool \<times> msix \<times> irq_route_table \<Rightarrow> panic + bool \<times> msix \<times> irq_route_table" where
  "resume_vector K v s =
     (case s of (ok, m, t) \<Rightarrow>
        if \<not> ok then Inr s
        else and_then (is_vector_masked v m) (\<lambda>masked.
          if masked then Inr s
          else and_then (get_message v m) (\<lambda>msg.
            case allocate_gsi t of
              (Inl e, t1) \<Rightarrow> Inr (False, m, t1)
            | (Inr gsi, t1) \<Rightarrow>
                let t2 = add_msi_route gsi (msi_vector_of msg) t1
                in if \<not> mk_commit K t2 then Inr (False, m, t2)
                   else and_then (is_vector_pending v m) (\<lambda>pending.
                     if pending then and_then (clear_pending_vector v m) (\<lambda>m1. Inr (True, send_msix msg (mx_dev_id m) m1, t2))
                     else Inr (True, m, t2)))))"

definition msix_resume :: "msi_kvm \<Rightarrow> msix \<times> irq_route_table \<Rightarrow> panic + bool \<times> msix \<times> irq_route_table" where
  "msix_resume K mt =
     (case mt of (m, t) \<Rightarrow>
        if mx_enabled m \<and> \<not> func_masked m then for_each (resume_vector K) (vectors m) (True, m, t) else Inr (True, m, t))"

end
