(* ===== verification/MsixSafety.thy ===== *)
theory MsixSafety
  imports Msix
begin

text \<open>
  MSI-X delivery for devices of up to 64 vectors: a signalled vector is sent at once or becomes
  pending, unmasking sends exactly the pending vectors, and no vector is ever pending and
  unmasked at the same time. Beyond 64 vectors the pending bits alias.
\<close>

section \<open>Views of the state\<close>

definition msix_wf :: "msix \<Rightarrow> bool" where
  "msix_wf m \<longleftrightarrow> length (mx_table m) mod 16 = 0 \<and> length (mx_table m) \<le> 1024 \<and> 8 \<le> length (mx_pba m)"

definition nvec :: "msix \<Rightarrow> nat" where
  "nvec m = length (mx_table m) div 16"

definition pword :: "msix \<Rightarrow> u64" where
  "pword m = from_le (take 8 (mx_pba m))"

definition pending :: "msix \<Rightarrow> nat \<Rightarrow> bool" where
  "pending m v = bit (pword m) v"

definition masked :: "msix \<Rightarrow> nat \<Rightarrow> bool" where
  "masked m v = (\<not> mx_enabled m \<or> func_masked m \<or> bit (mx_table m ! (16 * v + 12)) 0)"

definition table_word :: "msix \<Rightarrow> nat \<Rightarrow> u32" where
  "table_word m off = from_le (take 4 (drop off (mx_table m)))"

definition message_of :: "msix \<Rightarrow> nat \<Rightarrow> message" where
  "message_of m v = \<lparr>address_lo = table_word m (16 * v), address_hi = table_word m (16 * v + 4), mdata = table_word m (16 * v + 8)\<rparr>"

text \<open>The state with another word of pending bits.\<close>

definition with_pend :: "msix \<Rightarrow> u64 \<Rightarrow> msix" where
  "with_pend m w = m\<lparr>mx_pba := to_le 8 w @ drop 8 (mx_pba m)\<rparr>"

lemma pword_with_pend [simp]: "pword (with_pend m w) = w"
  by (simp add: pword_def with_pend_def from_le_to_le_full)

lemma with_pend_sel [simp]:
  "mx_table (with_pend m w) = mx_table m" "func_masked (with_pend m w) = func_masked m" "mx_enabled (with_pend m w) = mx_enabled m"
  "msix_cap_offset (with_pend m w) = msix_cap_offset m" "mx_sent (with_pend m w) = mx_sent m"
  "gsi_msi_routes (with_pend m w) = gsi_msi_routes m" "mx_dev_id (with_pend m w) = mx_dev_id m"
  by (simp_all add: with_pend_def)

lemma view_cong:
  "mx_table m' = mx_table m \<Longrightarrow> nvec m' = nvec m" "mx_table m' = mx_table m \<Longrightarrow> message_of m' v = message_of m v"
  "mx_table m' = mx_table m \<Longrightarrow> func_masked m' = func_masked m \<Longrightarrow> mx_enabled m' = mx_enabled m \<Longrightarrow> masked m' v = masked m v"
  "mx_pba m' = mx_pba m \<Longrightarrow> pending m' v = pending m v"
  by (simp_all add: nvec_def message_of_def table_word_def masked_def pending_def pword_def)

lemma with_pend_view [simp]:
  "nvec (with_pend m w) = nvec m" "message_of (with_pend m w) v = message_of m v" "masked (with_pend m w) v = masked m v"
  "msix_wf m \<Longrightarrow> msix_wf (with_pend m w)" "pending (with_pend m w) v = bit w v"
  by (auto simp: nvec_def message_of_def table_word_def masked_def pending_def msix_wf_def) (simp add: with_pend_def)

section \<open>The operations on the views\<close>

lemma wf_nvec: "msix_wf m \<Longrightarrow> length (mx_table m) = 16 * nvec m \<and> nvec m \<le> 64"
  by (auto simp: msix_wf_def nvec_def)

lemma unat_nr_vectors: "msix_wf m \<Longrightarrow> unat (nr_vectors m) = nvec m"
  by (auto simp: nr_vectors_def nvec_def msix_consts msix_wf_def unat_div_eq unat_of_nat take_bit_nat_eq_self)

lemma vectors_upt: "msix_wf m \<Longrightarrow> vectors m = map of_nat [0..<nvec m]"
  by (simp add: vectors_def unat_nr_vectors)

text \<open>Offsets into the table do not wrap around.\<close>

lemma entry_offset:
  fixes v :: u16
  assumes "unat v < 64" and "unat k < 16"
  shows "unat (v * 16 + k) = 16 * unat v + unat k"
proof -
  have "unat v * 16 < 65536" using assms by simp
  then have "unat (v * 16) = 16 * unat v" by (simp add: unat_word_ariths)
  then show ?thesis using assms by (simp add: unat_word_ariths)
qed

lemma is_vector_masked_view:
  assumes "msix_wf m" and "unat v < nvec m"
  shows "is_vector_masked v m = Inr (masked m (unat v))"
proof -
  have l: "length (mx_table m) = 16 * nvec m" "unat v < 64" using wf_nvec [OF assms(1)] assms(2) by auto
  then have "unat (v * 16 + 12) = 16 * unat v + 12" using entry_offset [of v 12] by simp
  moreover have "x AND 1 \<noteq> 0 \<longleftrightarrow> bit x 0" for x :: u8 by (simp add: and_one_eq bit_0 odd_iff_mod_2_eq_one)
  ultimately show ?thesis using l assms(2) by (auto simp: is_vector_masked_def masked_def msix_consts Let_def)
qed

lemma get_message_view:
  assumes "msix_wf m" and "unat v < nvec m"
  shows "get_message v m = Inr (message_of m (unat v))"
proof -
  have l: "length (mx_table m) = 16 * nvec m" "unat v < 64" using wf_nvec [OF assms(1)] assms(2) by auto
  then have "unat (v * 16 + 4) = 16 * unat v + 4" "unat (v * 16 + 8) = 16 * unat v + 8" "unat (v * 16) = 16 * unat v"
    using entry_offset [of v 4] entry_offset [of v 8] entry_offset [of v 0] by simp_all
  then show ?thesis using l assms(2)
    by (simp add: get_message_def msix_consts table_u32_def le_read_u32_def le_read_def message_of_def table_word_def Let_def)
qed

lemma pba_view:
  assumes "msix_wf m" and "unat v < 64"
  shows "pba_word v m = Inr (pword m)" "pba_store v w m = Inr (with_pend m w)"
  using assms by (simp_all add: pba_word_def pba_store_def le_read_u64_def le_write_u64_def le_read_def le_write_def pword_def with_pend_def msix_wf_def)

lemma bit_pending_bit: "unat v < 64 \<Longrightarrow> bit (pending_bit v) k \<longleftrightarrow> k = unat v"
  by (auto simp: pending_bit_def bit_one_shl)

lemma pending_ops:
  assumes "msix_wf m" and "unat v < 64"
  shows "is_vector_pending v m = Inr (pending m (unat v))"
    and "set_pending_vector v m = Inr (with_pend m (pword m OR pending_bit v))"
    and "clear_pending_vector v m = Inr (with_pend m (pword m AND NOT (pending_bit v)))"
proof -
  have "pword m AND pending_bit v \<noteq> 0 \<longleftrightarrow> bit (pword m) (unat v)"
    using and_one_shl [of "unat v" "pword m"] assms(2) by (simp add: pending_bit_def)
  then show "is_vector_pending v m = Inr (pending m (unat v))"
    using pba_view [OF assms] by (simp add: is_vector_pending_def pending_def word_gt_0)
qed (use pba_view [OF assms] in \<open>simp_all add: set_pending_vector_def clear_pending_vector_def\<close>)

lemma pending_after:
  assumes "unat v < 64"
  shows "pending (with_pend m (pword m OR pending_bit v)) u \<longleftrightarrow> u = unat v \<or> pending m u"
    and "pending (with_pend m (pword m AND NOT (pending_bit v))) u \<longleftrightarrow> u \<noteq> unat v \<and> pending m u"
  using assms bit_imp_le_length [of "pword m" u] by (auto simp: bit_or_iff bit_and_iff bit_not_iff bit_pending_bit pending_def)

lemma with_pend_same:
  assumes "msix_wf m"
  shows "with_pend m (pword m) = m"
proof -
  have "length (take 8 (mx_pba m)) = 8" using assms by (simp add: msix_wf_def)
  then have "to_le 8 (pword m) = take 8 (mx_pba m)"
    using to_le_from_le [of "take 8 (mx_pba m)", where 'a = 64] by (simp add: pword_def)
  then show ?thesis by (simp add: with_pend_def)
qed

lemma with_pend_twice [simp]: "with_pend (with_pend m w) w' = with_pend m w'"
  by (simp add: with_pend_def)

lemma send_view [simp]:
  "nvec (send_msix g dev m) = nvec m" "message_of (send_msix g dev m) v = message_of m v" "masked (send_msix g dev m) v = masked m v"
  "msix_wf (send_msix g dev m) = msix_wf m" "pending (send_msix g dev m) v = pending m v" "pword (send_msix g dev m) = pword m"
  "mx_table (send_msix g dev m) = mx_table m"
  "mx_sent (send_msix g dev m) = mx_sent m @ [(g, dev)]"
  by (simp_all add: send_msix_def nvec_def message_of_def table_word_def masked_def msix_wf_def pending_def pword_def)

lemma msix_notify_view:
  assumes "msix_wf m" and "unat v < nvec m"
  shows "msix_notify v dev m =
    Inr (if masked m (unat v) then with_pend m (pword m OR pending_bit v) else send_msix (message_of m (unat v)) dev m)"
proof -
  have "\<not> nr_vectors m \<le> v" using assms unat_nr_vectors [OF assms(1)] by (simp add: word_le_nat_alt)
  moreover have "unat v < 64" using wf_nvec [OF assms(1)] assms(2) by simp
  ultimately show ?thesis
    using assms by (simp add: msix_notify_def is_vector_masked_view get_message_view pending_ops)
qed

section \<open>Delivery\<close>

text \<open>The vectors below \<open>k\<close> that are to be delivered, and the state after delivering them.\<close>

definition due :: "msix \<Rightarrow> nat \<Rightarrow> nat list" where
  "due m k = filter (\<lambda>v. pending m v \<and> \<not> masked m v) [0..<k]"

definition delivered :: "u16 \<Rightarrow> nat \<Rightarrow> msix \<Rightarrow> u64 \<Rightarrow> msix" where
  "delivered dev k m w = (with_pend m w)\<lparr>mx_sent := mx_sent m @ map (\<lambda>v. (message_of m v, dev)) (due m k)\<rparr>"

lemma delivered_view [simp]:
  "nvec (delivered dev k m w) = nvec m" "message_of (delivered dev k m w) v = message_of m v" "masked (delivered dev k m w) v = masked m v"
  "msix_wf m \<Longrightarrow> msix_wf (delivered dev k m w)" "pending (delivered dev k m w) v = bit w v" "pword (delivered dev k m w) = w"
  "mx_sent (delivered dev k m w) = mx_sent m @ map (\<lambda>v. (message_of m v, dev)) (due m k)"
  using with_pend_view [of m w] pword_with_pend [of m w]
  by (auto simp: delivered_def nvec_def message_of_def table_word_def masked_def msix_wf_def pending_def pword_def)

lemma delivered_pend: "with_pend (delivered dev k m w) w' = (with_pend m w')\<lparr>mx_sent := mx_sent (delivered dev k m w)\<rparr>"
  by (simp add: delivered_def with_pend_def)

lemma deliver_vectors:
  assumes "msix_wf m" and "k \<le> nvec m"
  shows "\<exists>w. for_each (deliver_vector dev) (map of_nat [0..<k]) m = Inr (delivered dev k m w) \<and>
    (\<forall>u. bit w u \<longleftrightarrow> pending m u \<and> (k \<le> u \<or> masked m u))"
  using assms(2)
proof (induction k)
  case 0
  have "delivered dev 0 m (pword m) = m" using with_pend_same [OF assms(1)] by (simp add: delivered_def due_def)
  then show ?case by (intro exI [of _ "pword m"]) (simp add: pending_def)
next
  case (Suc k)
  then obtain w where run: "for_each (deliver_vector dev) (map of_nat [0..<k]) m = Inr (delivered dev k m w)"
      and w: "\<And>u. bit w u \<longleftrightarrow> pending m u \<and> (k \<le> u \<or> masked m u)" by auto
  let ?m = "delivered dev k m w" and ?v = "of_nat k :: u16"
  have k: "k < nvec m" "k < 64" using Suc.prems wf_nvec [OF assms(1)] by auto
  then have v: "unat ?v = k" by (simp add: unat_of_nat take_bit_nat_eq_self)
  have wf: "msix_wf ?m" using assms(1) by simp
  have loop: "for_each (deliver_vector dev) (map of_nat [0..<Suc k]) m = deliver_vector dev ?v ?m"
    using run by (simp add: for_each_append and_then_def split: sum.split)
  have masked_k: "is_vector_masked ?v ?m = Inr (masked m k)" using is_vector_masked_view [OF wf, of ?v] k v by simp
  have pending_k: "is_vector_pending ?v ?m = Inr (pending m k)" using pending_ops(1) [OF wf, of ?v] k v w by simp
  show ?case
  proof (cases "pending m k \<and> \<not> masked m k")
    case True
    let ?w = "w AND NOT (pending_bit ?v)"
    have d: "due m (Suc k) = due m k @ [k]" using True by (simp add: due_def)
    have c: "clear_pending_vector ?v ?m = Inr (with_pend ?m ?w)" using pending_ops(3) [OF wf, of ?v] k v by simp
    have g: "get_message ?v (with_pend ?m ?w) = Inr (message_of m k)"
      using get_message_view [of "with_pend ?m ?w" ?v] wf k v by simp
    have "send_msix (message_of m k) dev (with_pend ?m ?w) = delivered dev (Suc k) m ?w"
      unfolding delivered_pend by (simp add: send_msix_def) (simp add: delivered_def d)
    then have "deliver_vector dev ?v ?m = Inr (delivered dev (Suc k) m ?w)"
      using True unfolding deliver_vector_def masked_k pending_k c by (simp add: c g)
    moreover have "bit ?w u \<longleftrightarrow> pending m u \<and> (Suc k \<le> u \<or> masked m u)" for u
      using w [of u] True k v bit_imp_le_length [of w u] by (auto simp: bit_and_iff bit_not_iff bit_pending_bit)
    ultimately show ?thesis unfolding loop by blast
  next
    case False
    have d: "due m (Suc k) = due m k" using False by (auto simp: due_def)
    have "deliver_vector dev ?v ?m = Inr ?m" using False masked_k pending_k by (auto simp: deliver_vector_def)
    moreover have "?m = delivered dev (Suc k) m w" by (simp add: delivered_def d)
    moreover have "bit w u \<longleftrightarrow> pending m u \<and> (Suc k \<le> u \<or> masked m u)" for u
      using w [of u] False by (cases "u = k") auto
    ultimately show ?thesis unfolding loop by auto
  qed
qed

section \<open>Writes to the control register\<close>

text \<open>Whether an access of \<open>len\<close> bytes at \<open>off\<close> reaches the upper byte of the control register.\<close>

definition hits_control :: "nat \<Rightarrow> nat \<Rightarrow> msix \<Rightarrow> bool" where
  "hits_control off len m \<longleftrightarrow> off \<le> unat (msix_cap_offset m) + 3 \<and> unat (msix_cap_offset m) + 3 < off + len"

lemma control_overlap:
  assumes "off + len < 2 ^ 64"
  shows "ranges_overlap (of_nat off) (of_nat len) (ucast (msix_cap_offset m) + of_nat MSIX_CAP_CONTROL + 1) 1 = Some (hits_control off len m)"
proof -
  define k :: u64 where "k = ucast (msix_cap_offset m) + of_nat MSIX_CAP_CONTROL + 1"
  have cap: "unat (msix_cap_offset m) < 65536" using unsigned_less [of "msix_cap_offset m", where 'a = nat] by simp
  then have k: "unat k = unat (msix_cap_offset m) + 3"
    by (simp add: k_def MSIX_CAP_CONTROL_def unat_word_ariths unsigned_ucast_eq take_bit_nat_eq_self)
  have o: "unat (of_nat off :: u64) = off" "unat (of_nat len :: u64) = len" using assms by (simp_all add: unat_of_nat take_bit_nat_eq_self)
  have "checked_add (of_nat off) (of_nat len :: u64) = Some (of_nat off + of_nat len)" "checked_add k 1 = Some (k + 1)"
    using assms o k cap by (simp_all add: checked_add_Some)
  moreover have "unat (of_nat off + of_nat len :: u64) = off + len" "unat (k + 1) = unat (msix_cap_offset m) + 4"
    using assms o k cap by (simp_all add: unat_word_ariths)
  ultimately show ?thesis using o k by (auto simp: ranges_overlap_def hits_control_def word_le_nat_alt k_def [symmetric])
qed

definition control_set :: "bool \<Rightarrow> bool \<Rightarrow> msix \<Rightarrow> msix" where
  "control_set f e m = m\<lparr>func_masked := f, mx_enabled := e\<rparr>"

lemma control_set_view [simp]:
  "nvec (control_set f e m) = nvec m" "message_of (control_set f e m) v = message_of m v" "pending (control_set f e m) v = pending m v"
  "msix_wf (control_set f e m) = msix_wf m" "mx_sent (control_set f e m) = mx_sent m"
  "masked (control_set f e m) v \<longleftrightarrow> f \<or> \<not> e \<or> bit (mx_table m ! (16 * v + 12)) 0"
  by (auto simp: control_set_def nvec_def message_of_def table_word_def masked_def msix_wf_def pending_def pword_def)

lemma write_config_view:
  assumes "msix_wf m" and "off + len < 2 ^ 64" and "le_read_u16 config (unat (msix_cap_offset m) + 2) = Some c"
  shows "\<exists>m'. msix_write_config config dev off len m = Inr m' \<and>
    (if \<not> hits_control off len m then m' = m
     else let f = bit c 14; e = bit c 15; m1 = control_set f e m
          in if (f, e) \<noteq> (func_masked m, mx_enabled m) \<and> e \<and> \<not> f
             then \<exists>w. m' = delivered dev (nvec m) m1 w \<and> (\<forall>u. bit w u \<longleftrightarrow> pending m u \<and> (nvec m \<le> u \<or> masked m1 u))
             else m' = m1)"
proof -
  have f: "is_msix_func_masked (unat (msix_cap_offset m)) config = Inr (bit c 14)"
    using assms(3) and_one_shl [of 14 c]
    by (simp add: is_msix_func_masked_def msix_control_def MSIX_CAP_CONTROL_def MSIX_CAP_FUNC_MASK_def shl_def word_gt_0)
  have e: "is_msix_enabled (unat (msix_cap_offset m)) config = Inr (bit c 15)"
    using assms(3) and_one_shl [of 15 c]
    by (simp add: is_msix_enabled_def msix_control_def MSIX_CAP_CONTROL_def MSIX_CAP_ENABLE_def shl_def word_gt_0)
  let ?m1 = "control_set (bit c 14) (bit c 15) m"
  obtain w where "for_each (deliver_vector dev) (map of_nat [0..<nvec m]) ?m1 = Inr (delivered dev (nvec m) ?m1 w)"
      "\<forall>u. bit w u \<longleftrightarrow> pending m u \<and> (nvec m \<le> u \<or> masked ?m1 u)"
    using deliver_vectors [of ?m1 "nvec m" dev] assms(1) by auto
  moreover have "vectors ?m1 = map of_nat [0..<nvec m]" using vectors_upt [of ?m1] assms(1) by simp
  moreover have "msix_write_config config dev off len m =
      (if \<not> hits_control off len m then Inr m
       else if (bit c 14, bit c 15) \<noteq> (func_masked m, mx_enabled m) \<and> bit c 15 \<and> \<not> bit c 14
       then for_each (deliver_vector dev) (vectors ?m1) ?m1 else Inr ?m1)"
    unfolding msix_write_config_def control_overlap [OF assms(2)] f e
    by (auto simp: control_set_def Let_def split: bool.split)
  ultimately show ?thesis by (auto simp: Let_def)
qed

section \<open>Writes to the table\<close>

definition table_set :: "nat \<Rightarrow> u8 list \<Rightarrow> msix \<Rightarrow> msix" where
  "table_set off data m = m\<lparr>mx_table := take off (mx_table m) @ data @ drop (off + 4) (mx_table m)\<rparr>"

lemma table_set_view:
  assumes "off + 4 \<le> length (mx_table m)" and "length data = 4"
  shows "length (mx_table (table_set off data m)) = length (mx_table m)" "nvec (table_set off data m) = nvec m"
    "msix_wf m \<Longrightarrow> msix_wf (table_set off data m)" "pending (table_set off data m) v = pending m v"
    "mx_sent (table_set off data m) = mx_sent m"
  using assms by (auto simp: table_set_def nvec_def msix_wf_def pending_def pword_def)

lemma nth_splice:
  assumes "off + n \<le> length t" and "length data = n" and "i < off \<or> off + n \<le> i"
  shows "(take off t @ data @ drop (off + n) t) ! i = t ! i"
  using assms by (auto simp: nth_append)

text \<open>Four bytes reach the control byte of one entry only, the one they start in.\<close>

lemma table_set_masked:
  assumes "off + 4 \<le> length (mx_table m)" and "length data = 4" and "v \<noteq> off div 16"
  shows "masked (table_set off data m) v = masked m v"
proof -
  have "16 * v + 12 < off \<or> off + 4 \<le> 16 * v + 12" using assms(3) by linarith
  then have "mx_table (table_set off data m) ! (16 * v + 12) = mx_table m ! (16 * v + 12)"
    using nth_splice [OF assms(1,2)] by (simp add: table_set_def)
  then show ?thesis by (simp add: masked_def) (simp add: table_set_def)
qed

lemma routes_view [simp]:
  fixes rs :: "(u16 \<times> gsi_msi_route) list"
  shows "nvec (m\<lparr>gsi_msi_routes := rs\<rparr>) = nvec m" "masked (m\<lparr>gsi_msi_routes := rs\<rparr>) v = masked m v"
    "msix_wf (m\<lparr>gsi_msi_routes := rs\<rparr>) = msix_wf m" "pending (m\<lparr>gsi_msi_routes := rs\<rparr>) v = pending m v"
  by (simp_all add: nvec_def masked_def msix_wf_def pending_def pword_def)

lemma update_irq_routing_view:
  assumes "msix_wf m" and "unat v < nvec m"
  shows "\<exists>ok rs t'. update_irq_routing K v b (m, t) = Inr (ok, m\<lparr>gsi_msi_routes := rs\<rparr>, t')"
proof -
  have same: "\<exists>rs. m = m\<lparr>gsi_msi_routes := rs\<rparr>" by (rule exI [of _ "gsi_msi_routes m"]) simp
  show ?thesis
    using get_message_view [OF assms] by (auto simp: update_irq_routing_def Let_def intro: same split: option.split)
qed

text \<open>No vector is pending while it could be delivered.\<close>

definition calm :: "msix \<Rightarrow> bool" where
  "calm m \<longleftrightarrow> (\<forall>v < nvec m. pending m v \<longrightarrow> masked m v)"

lemma table_write_view:
  assumes wf: "msix_wf m" and fits: "off + 4 \<le> length (mx_table m)" "length data = 4"
  shows "\<exists>ok m' t'. msix_table_write K data off dev (m, t) = Inr (ok, m', t') \<and> msix_wf m' \<and> (calm m \<longrightarrow> ok \<longrightarrow> calm m')"
proof -
  define v :: u16 where "v = of_nat off div MSIX_TABLE_ENTRY_SIZE"
  let ?m1 = "table_set off data m"
  have "length (mx_table m) \<le> 1024" using wf by (simp add: msix_wf_def)
  then have v: "unat v = off div 16"
    using fits(1) by (simp add: v_def msix_consts unat_div_eq unat_of_nat take_bit_nat_eq_self)
  then have n: "unat v < nvec m" "unat v < 64" using fits(1) wf_nvec [OF wf] by linarith+
  have wf1: "msix_wf ?m1" and n1: "unat v < nvec ?m1" using table_set_view [OF fits] wf n by auto
  obtain ok m2 t2 rs where up: "(if masked m (unat v) \<noteq> masked ?m1 (unat v) then update_irq_routing K v (masked ?m1 (unat v)) (?m1, t)
      else Inr (True, ?m1, t)) = Inr (ok, m2, t2)" and m2: "m2 = ?m1\<lparr>gsi_msi_routes := rs\<rparr>"
    using update_irq_routing_view [OF wf1 n1, of K "masked ?m1 (unat v)" t]
    by (cases "masked m (unat v) = masked ?m1 (unat v)") (auto intro: that [of True _ _ "gsi_msi_routes ?m1"])
  have wf2: "msix_wf m2" and n2: "unat v < nvec m2" using m2 wf1 n1 by auto
  have other: "u \<noteq> unat v \<Longrightarrow> masked m2 u = masked m u" for u using table_set_masked [OF fits] v m2 by simp
  have pend: "pending m2 u = pending m u" for u using table_set_view(4) [OF fits] m2 by simp
  have run: "msix_table_write K data off dev (m, t) =
      (if \<not> ok then Inr (False, m2, t2)
       else if masked m (unat v) \<and> \<not> masked ?m1 (unat v)
       then and_then (is_vector_pending v m2) (\<lambda>pending.
              if pending then and_then (clear_pending_vector v m2) (\<lambda>m3. and_then (msix_notify v dev m3) (\<lambda>m4. Inr (True, m4, t2)))
              else Inr (True, m2, t2))
       else Inr (True, m2, t2))"
    using is_vector_masked_view [OF wf n(1)] is_vector_masked_view [OF wf1 n1] fits up
    by (simp add: msix_table_write_def v_def [symmetric] table_set_def [symmetric] Let_def)
  show ?thesis
  proof (cases "ok \<and> masked m (unat v) \<and> \<not> masked ?m1 (unat v) \<and> pending m2 (unat v)")
    case True
    let ?m3 = "with_pend m2 (pword m2 AND NOT (pending_bit v))"
    have u: "\<not> masked ?m3 (unat v)" using True m2 by simp
    have "msix_notify v dev ?m3 = Inr (send_msix (message_of m2 (unat v)) dev ?m3)"
      using msix_notify_view [of ?m3 v dev] wf2 n2 u by simp
    then have "msix_table_write K data off dev (m, t) = Inr (True, send_msix (message_of m2 (unat v)) dev ?m3, t2)"
      using run True pending_ops [OF wf2 n(2)] by simp
    moreover have "calm m \<longrightarrow> calm (send_msix (message_of m2 (unat v)) dev ?m3)"
      using other pend pending_after(2) [OF n(2), of m2] table_set_view(2) [OF fits] m2 by (auto simp: calm_def)
    ultimately show ?thesis using wf2 by auto
  next
    case False
    then have "msix_table_write K data off dev (m, t) = Inr (ok, m2, t2)"
      using run pending_ops(1) [OF wf2 n(2)] by auto
    moreover have "calm m2" if "calm m" "ok"
      unfolding calm_def
    proof (intro allI impI)
      fix u assume u: "u < nvec m2" "pending m2 u"
      then have "masked m u" using that(1) pend table_set_view(2) [OF fits] m2 by (auto simp: calm_def)
      then show "masked m2 u" using other [of u] False that(2) u(2) m2 by (cases "u = unat v") auto
    qed
    ultimately show ?thesis using wf2 by auto
  qed
qed

section \<open>Runs\<close>

text \<open>
  The device signals a vector, the guest writes the configuration space or four bytes of the
  table, or the device is reset. A table write whose KVM calls fail answers \<open>False\<close> and is not
  a step.
\<close>

inductive msix_step :: "msi_kvm \<Rightarrow> msix \<times> irq_route_table \<Rightarrow> msix \<times> irq_route_table \<Rightarrow> bool" for K where
  signal: "msix_notify v dev m = Inr m' \<Longrightarrow> msix_step K (m, t) (m', t)"
| config: "off + len < 2 ^ 64 \<Longrightarrow> le_read_u16 config (unat (msix_cap_offset m) + 2) \<noteq> None \<Longrightarrow>
    msix_write_config config dev off len m = Inr m' \<Longrightarrow> msix_step K (m, t) (m', t)"
| table: "length data = 4 \<Longrightarrow> off + 4 \<le> length (mx_table m) \<Longrightarrow> msix_table_write K data off dev (m, t) = Inr (True, m', t') \<Longrightarrow>
    msix_step K (m, t) (m', t')"
| reset: "msix_step K (m, t) (msix_reset m, t)"

lemma mask_all_view [simp]:
  "length (mx_table (mask_all_vectors m)) = length (mx_table m)" "mx_pba (mask_all_vectors m) = mx_pba m"
proof -
  have "length (fold mask_entry is t) = length t" for "is" t
    by (induction "is" arbitrary: t) (simp_all add: mask_entry_def)
  then show "length (mx_table (mask_all_vectors m)) = length (mx_table m)" by (simp add: mask_all_vectors_def)
qed (simp add: mask_all_vectors_def)

lemma from_le_zeros: "from_le (replicate n 0) = 0"
  by (induction n) simp_all

lemma fresh_calm:
  assumes "mx_pba m = replicate n 0"
  shows "calm m"
  using assms by (simp add: calm_def pending_def pword_def from_le_zeros)

lemma new_msix_ok:
  assumes "n \<le> 64"
  shows "msix_wf (new_msix (of_nat (16 * n)) 8 cap dev)" "calm (new_msix (of_nat (16 * n)) 8 cap dev)" "nvec (new_msix (of_nat (16 * n)) 8 cap dev) = n"
proof -
  have "unat (of_nat (16 * n) :: u32) = 16 * n" using assms by (simp only: unat_of_nat take_bit_nat_eq_self) (simp add: take_bit_nat_eq_self)
  then show "msix_wf (new_msix (of_nat (16 * n)) 8 cap dev)" "nvec (new_msix (of_nat (16 * n)) 8 cap dev) = n"
    using assms by (simp_all add: msix_wf_def new_msix_def nvec_def)
  show "calm (new_msix (of_nat (16 * n)) 8 cap dev)" by (rule fresh_calm [of _ 8]) (simp add: new_msix_def)
qed

lemma notify_ok:
  assumes "msix_wf m"
  shows "\<exists>m'. msix_notify v dev m = Inr m' \<and> msix_wf m' \<and> (calm m \<longrightarrow> calm m')"
proof (cases "unat v < nvec m")
  case True
  then have v: "unat v < 64" using wf_nvec [OF assms] by simp
  show ?thesis
    using msix_notify_view [OF assms True] assms pending_after(1) [OF v, of m] by (auto simp: calm_def)
next
  case False
  then have "nr_vectors m \<le> v" using unat_nr_vectors [OF assms] by (simp add: word_le_nat_alt)
  then show ?thesis using assms by (simp add: msix_notify_def)
qed

lemma config_ok:
  assumes "msix_wf m" and "calm m" and "off + len < 2 ^ 64" and "le_read_u16 config (unat (msix_cap_offset m) + 2) \<noteq> None"
    and "msix_write_config config dev off len m = Inr m'"
  shows "msix_wf m' \<and> calm m'"
proof -
  obtain c where c: "le_read_u16 config (unat (msix_cap_offset m) + 2) = Some c" using assms(4) by auto
  have same: "control_set (func_masked m) (mx_enabled m) m = m" by (simp add: control_set_def)
  have mk: "masked m v \<longleftrightarrow> \<not> mx_enabled m \<or> func_masked m \<or> bit (mx_table m ! (16 * v + 12)) 0" for v by (simp add: masked_def)
  show ?thesis
    using write_config_view [OF assms(1,3) c, of dev] assms(1,2,5) same
    by (auto simp: calm_def Let_def mk split: if_splits)
qed

lemma msix_step_ok:
  assumes "msix_step K s s'" and "msix_wf (fst s)" and "calm (fst s)"
  shows "msix_wf (fst s') \<and> calm (fst s')"
  using assms(1)
proof (cases rule: msix_step.cases)
  case (signal v dev m m' t)
  then have "msix_wf m" "calm m" using assms(2,3) by simp_all
  then have "msix_wf m' \<and> calm m'" using notify_ok [of m v dev] signal by auto
  then show ?thesis using signal by simp
next
  case (config off len cfg m dev m' t)
  then have "msix_wf m' \<and> calm m'" using assms(2,3) by (intro config_ok [of m off len cfg dev m']) simp_all
  then show ?thesis using config by simp
next
  case (table data off m dev t m' t')
  then have "msix_wf m" "calm m" using assms(2,3) by simp_all
  then have "msix_wf m' \<and> calm m'" using table_write_view [of m off data K dev t] table by auto
  then show ?thesis using table by simp
next
  case (reset m t)
  have "mx_pba (msix_reset m) = replicate (length (mx_pba m)) 0" by (simp add: msix_reset_def)
  then have "calm (msix_reset m)" by (rule fresh_calm)
  moreover have "msix_wf m" using reset assms(2) by simp
  then have "msix_wf (msix_reset m)" by (simp add: msix_wf_def msix_reset_def)
  ultimately show ?thesis using reset by simp
qed

section \<open>Properties\<close>



text \<open>
  With more than 64 vectors the pending bits of different vectors coincide: the index of the
  64-bit word is used as a byte offset, so marking vector \<open>v\<close> (from 64 on) pending marks
  vector \<open>v - 56\<close>.
\<close>

theorem pending_bits_alias:
  assumes "64 \<le> unat v" and "unat v < 120" and "set_pending_vector v m = Inr m'"
  shows "is_vector_pending (v - 56) m' = Inr True"
proof -
  have d: "unat v div 64 = 1" "unat v mod 64 = unat v - 64" using assms(1,2) by (simp_all add: le_mod_geq)
  obtain w p where w: "le_read 8 (mx_pba m) 1 = Some (w :: u64)" and p: "le_write 8 (mx_pba m) 1 (w OR pending_bit v) = Some p"
      and m': "m' = m\<lparr>mx_pba := p\<rparr>"
    using assms(3) d by (auto simp: set_pending_vector_def pba_word_def pba_store_def le_read_u64_def le_write_u64_def split: option.splits)
  let ?k = "unat v - 64"
  have u: "unat (v - 56) = ?k + 8" using assms(1) by (simp add: unat_sub word_le_nat_alt)
  have len: "8 \<le> length p" using p by (auto simp: le_write_def split: if_splits)
  then obtain x where x: "le_read 8 p 0 = Some (x :: u64)" by (simp add: le_read_def)
  have k: "?k < 56" "?k div 8 < 8" using assms(1,2) by auto
  have "bit (p ! (1 + ?k div 8)) (?k mod 8) \<longleftrightarrow> bit (w OR pending_bit v) (8 * (?k div 8) + ?k mod 8)"
    using k(2) bit_to_le [OF k(2), of "w OR pending_bit v" "?k mod 8"] by (simp add: nth_le_write [OF p])
  moreover have "bit (w OR pending_bit v) ?k" using d(2) k by (simp add: bit_or_iff pending_bit_def bit_one_shl)
  moreover have e: "(?k + 8) div 8 = 1 + ?k div 8" "(?k + 8) mod 8 = ?k mod 8" by simp_all
  moreover have "1 + ?k div 8 < 8" using k(1) by linarith
  ultimately have "bit x (?k + 8)" using k(1) unfolding nth_le_read_bit [OF x] e by simp
  then have "x AND pending_bit (v - 56) \<noteq> 0"
    using and_one_shl [of "?k + 8" x] k u by (simp add: pending_bit_def)
  moreover have "unat (v - 56) div 64 = 0" using u k by simp
  ultimately show ?thesis using x m' by (simp add: is_vector_pending_def pba_word_def le_read_u64_def word_gt_0)
qed

text \<open>
  A guest can stop the monitor: a write to the table of any size other than four bytes
  passes the bounds check and panics in \<open>copy_from_slice\<close>.
\<close>

theorem table_write_panics:
  assumes "msix_wf m" and "data \<noteq> []" and "length data \<noteq> 4" and "off + length data \<le> length (mx_table m)"
  shows "msix_table_write K data off dev (m, t) = Inl IndexOutOfRange"
proof -
  define v :: u16 where "v = of_nat off div MSIX_TABLE_ENTRY_SIZE"
  have l: "length (mx_table m) \<le> 1024" "length (mx_table m) = 16 * nvec m" using assms(1) wf_nvec [OF assms(1)] by (simp_all add: msix_wf_def)
  have o: "off < length (mx_table m)" using assms(2,4) by (cases data) auto
  then have "unat v = off div 16"
    using l by (simp add: v_def msix_consts unat_div_eq unat_of_nat take_bit_nat_eq_self)
  then have "unat v < nvec m" using o l(2) by linarith
  then show ?thesis
    using assms is_vector_masked_view [OF assms(1)] by (simp add: msix_table_write_def v_def [symmetric] Let_def)
qed

section \<open>Witnesses\<close>

definition demo_kvm :: msi_kvm where
  "demo_kvm = \<lparr>mk_unregister = (\<lambda>_. True), mk_register = (\<lambda>_. True), mk_commit = (\<lambda>_. True)\<rparr>"

definition demo_routes :: irq_route_table where
  "demo_routes = \<lparr>irq_routes = [], gsi_bitmap = [0]\<rparr>"

text \<open>Two vectors, unmasked in the table, the second one pending behind the function mask.\<close>

definition demo_msix :: msix where
  "demo_msix = \<lparr>mx_table = replicate 32 0, mx_pba = [2, 0, 0, 0, 0, 0, 0, 0], func_masked = True, mx_enabled = True,
     msix_cap_offset = 0, mx_dev_id = 0, gsi_msi_routes = [], mx_sent = []\<rparr>"

lemma demo_msix_view:
  "msix_wf demo_msix" "nvec demo_msix = 2" "pending demo_msix 0 = False" "pending demo_msix 1" "message_of demo_msix 1 = \<lparr>address_lo = 0, address_hi = 0, mdata = 0\<rparr>"
  "mx_table demo_msix = replicate 32 0" "mx_sent demo_msix = []" "func_masked demo_msix" "msix_cap_offset demo_msix = 0"
  by (simp_all add: demo_msix_def msix_wf_def nvec_def pending_def pword_def message_of_def table_word_def from_le_zeros)



theorem pending_bits_alias_witness:
  "\<exists>m'. set_pending_vector 64 (new_msix 2048 16 0 0) = Inr m' \<and> is_vector_pending 8 m' = Inr True"
proof -
  obtain m' where m': "set_pending_vector 64 (new_msix 2048 16 0 0) = Inr m'"
    by (simp add: set_pending_vector_def pba_word_def pba_store_def le_read_u64_def le_write_u64_def le_read_def le_write_def new_msix_def)
  then show ?thesis using pending_bits_alias [of 64 "new_msix 2048 16 0 0" m'] by simp
qed

theorem table_write_panics_witness: "msix_table_write demo_kvm [0, 0] 0 0 (demo_msix, demo_routes) = Inl IndexOutOfRange"
  using table_write_panics [OF demo_msix_view(1), of "[0, 0]" 0] by (simp add: demo_msix_view)

end
