(* ===== verification/Intx.thy ===== *)
theory Intx
  imports PciRegs
begin

text \<open>
  devices/src/pci/intx.rs: the four level-triggered interrupt lines of a PCI bus, shared by its
  devices. The calls of the interrupt handler are recorded; its errors are only logged in
  the source. The enabling and disabling by the command register is from devices/src/pci/config.rs.
\<close>

section \<open>Operations\<close>

type_synonym i8 = "8 word"

definition PCI_PIN_NUM :: nat where "PCI_PIN_NUM = 4"

record pci_intx_state =
  gsi_base :: u32
  irq_count :: "i8 list"
  irq_log :: "(u32 \<times> bool) list"

definition new_intx_state :: "u32 \<Rightarrow> pci_intx_state" where
  "new_intx_state gsi = \<lparr>gsi_base = gsi, irq_count = replicate PCI_PIN_NUM 0, irq_log = []\<rparr>"

text \<open>\<open>has_state\<close> says whether the device refers to the lines of a bus.\<close>

record intx =
  irq_pin :: u32
  int_level :: u8
  int_enabled :: bool
  has_state :: bool

definition new_intx :: "u32 \<Rightarrow> bool \<Rightarrow> intx" where
  "new_intx pin st = \<lparr>irq_pin = pin, int_level = 0, int_enabled = True, has_state = st\<rparr>"

definition change_irq_level :: "i8 \<Rightarrow> intx \<Rightarrow> pci_intx_state \<Rightarrow> panic + pci_intx_state" where
  "change_irq_level change d st =
     (if \<not> has_state d then Inr st
      else let p = unat (irq_pin d)
           in if p \<ge> length (irq_count st) then Inl IndexOutOfRange
              else let c = irq_count st ! p + change;
                       n = (if sint c < 0 then 0 else c)
                   in Inr (st\<lparr>irq_count := (irq_count st)[p := n], irq_log := irq_log st @ [(gsi_base st + irq_pin d, n \<noteq> 0)]\<rparr>))"

definition intx_notify :: "u8 \<Rightarrow> intx \<times> pci_intx_state \<Rightarrow> panic + intx \<times> pci_intx_state" where
  "intx_notify level ds =
     (case ds of (d, st) \<Rightarrow>
        if \<not> (level = 0 \<or> level = 1) then Inl AssertFailed
        else if int_level d = level then Inr (d, st)
        else let d1 = d\<lparr>int_level := level\<rparr>
             in if \<not> int_enabled d then Inr (d1, st)
                else and_then (change_irq_level (level - int_level d) d1 st) (\<lambda>st1. Inr (d1, st1)))"

definition intx_reset :: "intx \<times> pci_intx_state \<Rightarrow> panic + intx \<times> pci_intx_state" where
  "intx_reset ds = and_then (intx_notify 0 ds) (\<lambda>(d, st). Inr (d\<lparr>int_enabled := True\<rparr>, st))"

text \<open>What a write to the command register does to the interrupt of the device.\<close>

definition intx_command :: "bool \<Rightarrow> intx \<times> pci_intx_state \<Rightarrow> panic + intx \<times> pci_intx_state" where
  "intx_command enabled ds =
     (case ds of (d, st) \<Rightarrow>
        if int_enabled d \<noteq> enabled
        then and_then (change_irq_level (if \<not> enabled then - int_level d else int_level d) d st) (\<lambda>st1.
               Inr (d\<lparr>int_enabled := enabled\<rparr>, st1))
        else Inr (d, st))"

section \<open>The lines of a bus\<close>

datatype intx_op = Notify u8 | Command bool | Reset

fun intx_do :: "intx_op \<Rightarrow> intx \<times> pci_intx_state \<Rightarrow> panic + intx \<times> pci_intx_state" where
  "intx_do (Notify l) = intx_notify l"
| "intx_do (Command e) = intx_command e"
| "intx_do Reset = intx_reset"

text \<open>One operation of one of the devices.\<close>

definition bus_do :: "nat \<times> intx_op \<Rightarrow> intx list \<times> pci_intx_state \<Rightarrow> panic + intx list \<times> pci_intx_state" where
  "bus_do io ds =
     (case ds of (devs, st) \<Rightarrow>
        and_then (intx_do (snd io) (devs ! fst io, st)) (\<lambda>(d, st1). Inr (devs[fst io := d], st1)))"

definition asserted :: "intx \<Rightarrow> bool" where
  "asserted d \<longleftrightarrow> int_enabled d \<and> int_level d = 1"

definition on_pin :: "nat \<Rightarrow> intx list \<Rightarrow> nat" where
  "on_pin p devs = length (filter (\<lambda>d. unat (irq_pin d) = p \<and> asserted d) devs)"

text \<open>The level last given to the handler for a line.\<close>

definition last_level :: "u32 \<Rightarrow> (u32 \<times> bool) list \<Rightarrow> bool" where
  "last_level irq log = fold (\<lambda>(i, l) b. if i = irq then l else b) log False"

lemma last_level_snoc: "last_level irq (log @ [(i, l)]) = (if i = irq then l else last_level irq log)"
  by (simp add: last_level_def)

definition bus_inv :: "u32 \<Rightarrow> intx list \<times> pci_intx_state \<Rightarrow> bool" where
  "bus_inv gsi ds = (case ds of (devs, st) \<Rightarrow> gsi_base st = gsi \<and> length (irq_count st) = PCI_PIN_NUM \<and> length devs < 128 \<and>
     (\<forall>d \<in> set devs. has_state d \<and> unat (irq_pin d) < PCI_PIN_NUM \<and> int_level d \<in> {0, 1}) \<and>
     (\<forall>p < PCI_PIN_NUM. irq_count st ! p = of_nat (on_pin p devs) \<and>
        last_level (gsi_base st + of_nat p) (irq_log st) = (0 < on_pin p devs)))"

lemma length_filter_update:
  "i < length xs \<Longrightarrow> length (filter P (xs[i := y])) + of_bool (P (xs ! i)) = length (filter P xs) + of_bool (P y)"
proof (induction xs arbitrary: i)
  case (Cons x xs)
  show ?case
  proof (cases i)
    case (Suc j)
    then show ?thesis using Cons.IH [of j] Cons.prems by simp
  qed simp
qed simp

lemma on_pin_update:
  assumes "i < length devs" and "irq_pin d = irq_pin (devs ! i)"
  shows "on_pin p (devs[i := d]) + of_bool (unat (irq_pin d) = p \<and> asserted (devs ! i)) = on_pin p devs + of_bool (unat (irq_pin d) = p \<and> asserted d)"
  using length_filter_update [OF assms(1), of "\<lambda>d. unat (irq_pin d) = p \<and> asserted d" d] assms(2) by (simp add: on_pin_def)

lemma on_pin_bound: "on_pin p devs \<le> length devs"
  by (simp add: on_pin_def)

text \<open>A small number is not negative as a signed byte.\<close>

lemma sint_small:
  assumes "n < 128"
  shows "\<not> sint (of_nat n :: i8) < 0"
proof -
  have "uint (of_nat n :: i8) = int n" using assms by (simp add: uint_nat unat_of_nat take_bit_nat_eq_self del: of_nat_unat)
  moreover have "sint (of_nat n :: i8) = signed_take_bit 7 (uint (of_nat n :: i8))" by (simp add: sint_uint)
  moreover have "signed_take_bit 7 (int n) = int n" using assms by (intro signed_take_bit_int_eq_self) simp_all
  ultimately have "sint (of_nat n :: i8) = int n" by simp
  then show ?thesis by simp
qed

lemma small_nonzero: "n < 128 \<Longrightarrow> (of_nat n :: i8) \<noteq> 0 \<longleftrightarrow> 0 < n"
  by (simp add: word_eq_unat unat_of_nat take_bit_nat_eq_self)

text \<open>A change of one device by \<open>delta\<close> that matches the change of its asserted state.\<close>

lemma change_irq_level_bus:
  assumes inv: "bus_inv gsi (devs, st)" and i: "i < length devs" and d: "irq_pin d = irq_pin (devs ! i)" "has_state d" "int_level d \<in> {0, 1}"
    and e: "has_state e" "irq_pin e = irq_pin d"
    and delta: "change + of_bool (asserted (devs ! i)) = of_bool (asserted d)"
  shows "\<exists>st'. change_irq_level change e st = Inr st' \<and> bus_inv gsi (devs[i := d], st')"
proof -
  let ?p = "unat (irq_pin d)"
  have p: "?p < PCI_PIN_NUM" "length (irq_count st) = PCI_PIN_NUM" "length devs < 128"
    using inv i d(1) by (auto simp: bus_inv_def)
  have cnt: "\<forall>q < PCI_PIN_NUM. irq_count st ! q = of_nat (on_pin q devs) \<and> last_level (gsi_base st + of_nat q) (irq_log st) = (0 < on_pin q devs)"
    using inv unfolding bus_inv_def by blast
  let ?n = "on_pin ?p (devs[i := d])"
  have n: "?n < 128" using on_pin_bound [of ?p "devs[i := d]"] p(3) by simp
  have upd: "on_pin q (devs[i := d]) + of_bool (?p = q \<and> asserted (devs ! i)) = on_pin q devs + of_bool (?p = q \<and> asserted d)" for q
    using on_pin_update [OF i d(1)] .
  have "(of_nat ?n :: i8) + of_bool (asserted (devs ! i)) = of_nat (on_pin ?p devs) + of_bool (asserted d)"
    using arg_cong [OF upd [of ?p], of "of_nat :: nat \<Rightarrow> i8"] by simp
  then have "(of_nat (on_pin ?p devs) + change) + of_bool (asserted (devs ! i)) = of_nat ?n + of_bool (asserted (devs ! i))"
    using delta by (simp add: add.assoc)
  then have c: "irq_count st ! ?p + change = of_nat ?n" using cnt p(1) by simp
  let ?st = "st\<lparr>irq_count := (irq_count st)[?p := of_nat ?n], irq_log := irq_log st @ [(gsi_base st + irq_pin d, 0 < ?n)]\<rparr>"
  have "change_irq_level change e st = Inr ?st"
    using p e c sint_small [OF n] small_nonzero [OF n] by (simp add: change_irq_level_def Let_def)
  moreover have "bus_inv gsi (devs[i := d], ?st)"
  proof -
    have same: "on_pin q (devs[i := d]) = on_pin q devs" if "q \<noteq> ?p" for q using upd [of q] that by auto
    have irq: "gsi_base st + irq_pin d = gsi_base st + of_nat q \<longleftrightarrow> q = ?p" if "q < PCI_PIN_NUM" for q
    proof -
      have "irq_pin d = of_nat q \<longleftrightarrow> q = ?p" using that by (auto simp: word_eq_unat [of "irq_pin d"] unat_of_nat take_bit_nat_eq_self PCI_PIN_NUM_def)
      then show ?thesis by simp
    qed
    have "\<forall>x \<in> set (devs[i := d]). has_state x \<and> unat (irq_pin x) < PCI_PIN_NUM \<and> int_level x \<in> {0, 1}"
    proof
      fix x assume "x \<in> set (devs[i := d])"
      then have "x \<in> set devs \<or> x = d" using set_update_subset_insert [of devs i d] by auto
      then show "has_state x \<and> unat (irq_pin x) < PCI_PIN_NUM \<and> int_level x \<in> {0, 1}"
        using inv d(2,3) p(1) unfolding bus_inv_def by auto
    qed
    moreover have "irq_count ?st ! q = of_nat (on_pin q (devs[i := d])) \<and>
        last_level (gsi_base ?st + of_nat q) (irq_log ?st) = (0 < on_pin q (devs[i := d]))" if q: "q < PCI_PIN_NUM" for q
    proof (cases "q = ?p")
      case True
      then show ?thesis using irq [OF q] p by (simp add: last_level_snoc)
    next
      case False
      then show ?thesis using irq [OF q] same [OF False] cnt q by (simp add: last_level_snoc)
    qed
    ultimately show ?thesis using p inv by (simp add: bus_inv_def)
  qed
  ultimately show ?thesis by blast
qed

lemma bus_inv_same:
  assumes inv: "bus_inv gsi (devs, st)" and i: "i < length devs"
    and e: "irq_pin e = irq_pin (devs ! i)" "has_state e" "int_level e \<in> {0, 1}" "asserted e = asserted (devs ! i)"
  shows "bus_inv gsi (devs[i := e], st)"
proof -
  have "on_pin q (devs[i := e]) = on_pin q devs" for q using on_pin_update [OF i e(1), of q] e(4) by simp
  moreover have "\<forall>x \<in> set (devs[i := e]). x \<in> set devs \<or> x = e" using set_update_subset_insert [of devs i e] by auto
  moreover have "unat (irq_pin e) < PCI_PIN_NUM" using inv i e(1) by (auto simp: bus_inv_def)
  ultimately show ?thesis using inv e(2,3) unfolding bus_inv_def by auto
qed

lemma bus_do_ok:
  assumes inv: "bus_inv gsi (devs, st)" and i: "i < length devs" and op: "\<And>l. op = Notify l \<Longrightarrow> l \<in> {0, 1}"
  shows "\<exists>ds'. bus_do (i, op) (devs, st) = Inr ds' \<and> bus_inv gsi ds' \<and> length (fst ds') = length devs"
proof -
  let ?d = "devs ! i"
  have d: "has_state ?d" "int_level ?d \<in> {0, 1}" using inv i by (auto simp: bus_inv_def)
  note chg = change_irq_level_bus [OF inv i]
  have notify: "\<exists>e st'. intx_notify l (?d, st) = Inr (e, st') \<and> bus_inv gsi (devs[i := e], st') \<and> irq_pin e = irq_pin ?d \<and>
      has_state e \<and> int_level e = l \<and> int_enabled e = int_enabled ?d" if l: "l \<in> {0, 1}" for l
  proof (cases "int_level ?d = l \<or> \<not> int_enabled ?d")
    case True
    then show ?thesis using l d bus_inv_same [OF inv i, of "?d\<lparr>int_level := l\<rparr>"] inv by (auto simp: intx_notify_def asserted_def)
  next
    case False
    let ?e = "?d\<lparr>int_level := l\<rparr>"
    have "l - int_level ?d + of_bool (asserted ?d) = of_bool (asserted ?e)" using False l d(2) by (auto simp: asserted_def)
    then have "\<exists>st'. change_irq_level (l - int_level ?d) ?e st = Inr st' \<and> bus_inv gsi (devs[i := ?e], st')"
      using d l by (intro chg) simp_all
    then obtain st' where "change_irq_level (l - int_level ?d) ?e st = Inr st'" "bus_inv gsi (devs[i := ?e], st')" by blast
    then show ?thesis using False l d by (intro exI [of _ ?e] exI [of _ st']) (auto simp: intx_notify_def Let_def)
  qed
  show ?thesis
  proof (cases op)
    case (Notify l)
    then show ?thesis using notify [OF op] by (auto simp: bus_do_def)
  next
    case (Command e)
    show ?thesis
    proof (cases "int_enabled ?d = e")
      case True
      then show ?thesis using Command inv by (simp add: bus_do_def intx_command_def)
    next
      case False
      let ?e = "?d\<lparr>int_enabled := e\<rparr>" and ?c = "if \<not> e then - int_level ?d else int_level ?d"
      from d(2) consider "int_level ?d = 0" | "int_level ?d = 1" by blast
      then have "?c + of_bool (asserted ?d) = of_bool (asserted ?e)"
        using False by cases (cases e; simp add: asserted_def)+
      then have "\<exists>st'. change_irq_level ?c ?d st = Inr st' \<and> bus_inv gsi (devs[i := ?e], st')"
        using d by (intro chg) simp_all
      then obtain st' where "change_irq_level ?c ?d st = Inr st'" "bus_inv gsi (devs[i := ?e], st')" by blast
      then show ?thesis using Command False by (simp add: bus_do_def intx_command_def)
    qed
  next
    case Reset
    obtain e st' where e: "intx_notify 0 (?d, st) = Inr (e, st')" "bus_inv gsi (devs[i := e], st')" "irq_pin e = irq_pin ?d" "has_state e"
        "int_level e = 0" using notify [of 0] by auto
    have "bus_inv gsi (devs[i := e\<lparr>int_enabled := True\<rparr>], st')"
      using bus_inv_same [OF e(2), of i "e\<lparr>int_enabled := True\<rparr>"] e i by (simp add: asserted_def)
    then show ?thesis using Reset e(1) by (simp add: bus_do_def intx_reset_def)
  qed
qed

section \<open>Properties\<close>

text \<open>
  C18. The lines of a bus are shared correctly: after any sequence of signals, resets and command
  register writes by up to 127 devices none of which panics, the level last given to the
  interrupt handler for a line is high exactly when some device on that line has its
  interrupt raised and not disabled.
\<close>

theorem intx_wired_or:
  assumes "length devs < 128" and "\<forall>d \<in> set devs. \<exists>p < 4. d = new_intx (of_nat p) True"
    and "\<forall>(i, op) \<in> set ops. i < length devs \<and> (\<forall>l. op = Notify l \<longrightarrow> l = 0 \<or> l = 1)"
  shows "\<exists>devs' st. for_each bus_do ops (devs, new_intx_state gsi) = Inr (devs', st) \<and>
    (\<forall>p < 4. last_level (gsi + of_nat p) (irq_log st) \<longleftrightarrow>
       (\<exists>d \<in> set devs'. unat (irq_pin d) = p \<and> int_enabled d \<and> int_level d = 1))"
proof -
  have none: "on_pin p devs = 0" for p using assms(2) by (auto simp: on_pin_def filter_empty_conv asserted_def new_intx_def)
  have pins: "has_state d \<and> unat (irq_pin d) < 4 \<and> int_level d = 0" if "d \<in> set devs" for d
    using assms(2) that by (auto simp: new_intx_def unat_of_nat take_bit_nat_eq_self)
  have "bus_inv gsi (devs, new_intx_state gsi)"
    using assms(1) none pins by (simp add: bus_inv_def new_intx_state_def PCI_PIN_NUM_def last_level_def)
  then have "\<exists>ds. for_each bus_do ops (devs, new_intx_state gsi) = Inr ds \<and> bus_inv gsi ds \<and> length (fst ds) = length devs"
    using assms(3)
  proof (induction ops rule: rev_induct)
    case (snoc x ops)
    then obtain devs1 st1 where r: "for_each bus_do ops (devs, new_intx_state gsi) = Inr (devs1, st1)" "bus_inv gsi (devs1, st1)" "length devs1 = length devs"
      by fastforce
    then show ?case using snoc.prems bus_do_ok [of gsi devs1 st1 "fst x" "snd x"] by (fastforce simp: for_each_append)
  qed auto
  then obtain devs' st where r: "for_each bus_do ops (devs, new_intx_state gsi) = Inr (devs', st)" and inv: "bus_inv gsi (devs', st)" by auto
  have "0 < on_pin p devs' \<longleftrightarrow> (\<exists>d \<in> set devs'. unat (irq_pin d) = p \<and> int_enabled d \<and> int_level d = 1)" for p
    by (auto simp: on_pin_def length_greater_0_conv filter_empty_conv asserted_def simp del: length_0_conv)
  then show ?thesis using r inv by (auto simp: bus_inv_def PCI_PIN_NUM_def)
qed

theorem intx_wired_or_witness:
  "\<exists>devs' st. for_each bus_do [(0, Notify 1), (1, Notify 1), (0, Notify 0)] ([new_intx 2 True, new_intx 2 True], new_intx_state 16) = Inr (devs', st) \<and>
    (\<forall>p < 4. last_level (16 + of_nat p) (irq_log st) \<longleftrightarrow>
       (\<exists>d \<in> set devs'. unat (irq_pin d) = p \<and> int_enabled d \<and> int_level d = 1))"
proof -
  have "\<forall>d \<in> set [new_intx 2 True, new_intx 2 True]. \<exists>p < 4. d = new_intx (of_nat p) True" by (auto intro!: exI [of _ "2 :: nat"])
  then show ?thesis by (intro intx_wired_or) auto
qed

end
