(* ===== verification/PciConfig.thy ===== *)
theory PciConfig
  imports Intx Msix Region "HOL-Library.While_Combinator"
begin

text \<open>
  devices/src/pci/config.rs: the configuration space of a PCI device, its base address registers
  (BARs) and its capabilities, on x86. Mapping a BAR adds the BAR's region to the region of the
  parent bridge; the two operations on regions are a record of functions over a state of regions,
  as several address spaces provide them.
\<close>

section \<open>Constants\<close>

definition PCI_CONFIG_SPACE_SIZE :: nat where "PCI_CONFIG_SPACE_SIZE = 256"
definition PCIE_CONFIG_SPACE_SIZE :: nat where "PCIE_CONFIG_SPACE_SIZE = 4096"
definition REG_SIZE :: nat where "REG_SIZE = 4"
definition COMMAND :: nat where "COMMAND = 0x04"
definition STATUS :: nat where "STATUS = 0x06"
definition CACHE_LINE_SIZE :: nat where "CACHE_LINE_SIZE = 0x0c"
definition HEADER_TYPE :: nat where "HEADER_TYPE = 0x0e"
definition BAR_0 :: nat where "BAR_0 = 0x10"
definition PRIMARY_BUS_NUM :: nat where "PRIMARY_BUS_NUM = 0x18"
definition IO_BASE :: nat where "IO_BASE = 0x1c"
definition IO_LIMIT :: nat where "IO_LIMIT = 0x1d"
definition MEMORY_BASE :: nat where "MEMORY_BASE = 0x20"
definition PREF_MEMORY_BASE :: nat where "PREF_MEMORY_BASE = 0x24"
definition PREF_MEM_BASE_UPPER :: nat where "PREF_MEM_BASE_UPPER = 0x28"
definition ROM_ADDRESS_ENDPOINT :: nat where "ROM_ADDRESS_ENDPOINT = 0x30"
definition ROM_ADDRESS_BRIDGE :: nat where "ROM_ADDRESS_BRIDGE = 0x38"
definition CAP_LIST :: nat where "CAP_LIST = 0x34"
definition INTERRUPT_LINE :: nat where "INTERRUPT_LINE = 0x3c"
definition INTERRUPT_PIN :: nat where "INTERRUPT_PIN = 0x3d"
definition BRIDGE_CONTROL :: nat where "BRIDGE_CONTROL = 0x3e"
definition PCI_CONFIG_HEAD_END :: nat where "PCI_CONFIG_HEAD_END = 64"
definition NEXT_CAP_OFFSET :: nat where "NEXT_CAP_OFFSET = 1"
definition STATUS_CAP_LIST :: u8 where "STATUS_CAP_LIST = 0x10"
definition STATUS_INTERRUPT :: u8 where "STATUS_INTERRUPT = 0x08"
definition HEADER_TYPE_ENDPOINT :: u8 where "HEADER_TYPE_ENDPOINT = 0"
definition HEADER_TYPE_BRIDGE :: u8 where "HEADER_TYPE_BRIDGE = 1"
definition COMMAND_IO_SPACE :: u16 where "COMMAND_IO_SPACE = 0x0001"
definition COMMAND_MEMORY_SPACE :: u16 where "COMMAND_MEMORY_SPACE = 0x0002"
definition COMMAND_BUS_MASTER :: u16 where "COMMAND_BUS_MASTER = 0x0004"
definition COMMAND_SERR_ENABLE :: u16 where "COMMAND_SERR_ENABLE = 0x0100"
definition COMMAND_INTERRUPT_DISABLE :: u16 where "COMMAND_INTERRUPT_DISABLE = 0x0400"
definition BAR_IO_SPACE :: u8 where "BAR_IO_SPACE = 0x01"
definition BAR_MEM_64BIT :: u8 where "BAR_MEM_64BIT = 0x04"
definition BAR_PREFETCH :: u8 where "BAR_PREFETCH = 0x08"
definition IO_BASE_ADDR_MASK :: u32 where "IO_BASE_ADDR_MASK = 0xfffffffc"
definition MEM_BASE_ADDR_MASK :: u64 where "MEM_BASE_ADDR_MASK = 0xfffffffffffffff0"
definition BAR_SPACE_UNMAPPED :: u64 where "BAR_SPACE_UNMAPPED = 0xffffffffffffffff"
definition BAR_NUM_MAX_FOR_ENDPOINT :: nat where "BAR_NUM_MAX_FOR_ENDPOINT = 6"
definition BAR_NUM_MAX_FOR_BRIDGE :: nat where "BAR_NUM_MAX_FOR_BRIDGE = 2"
definition MINIMUM_BAR_SIZE_FOR_PIO :: u64 where "MINIMUM_BAR_SIZE_FOR_PIO = 0x4"

lemmas pci_offsets = PCI_CONFIG_SPACE_SIZE_def PCIE_CONFIG_SPACE_SIZE_def REG_SIZE_def COMMAND_def STATUS_def CACHE_LINE_SIZE_def
  HEADER_TYPE_def BAR_0_def PRIMARY_BUS_NUM_def IO_BASE_def IO_LIMIT_def MEMORY_BASE_def PREF_MEMORY_BASE_def PREF_MEM_BASE_UPPER_def
  ROM_ADDRESS_ENDPOINT_def ROM_ADDRESS_BRIDGE_def CAP_LIST_def INTERRUPT_LINE_def INTERRUPT_PIN_def BRIDGE_CONTROL_def
  PCI_CONFIG_HEAD_END_def NEXT_CAP_OFFSET_def BAR_NUM_MAX_FOR_ENDPOINT_def BAR_NUM_MAX_FOR_BRIDGE_def

section \<open>State\<close>

datatype pci_region_type = Io | Mem32Bit | Mem64Bit

record 'r bar =
  b_type :: pci_region_type
  b_address :: u64
  b_size :: u64
  b_region :: "'r option"
  parent_io_region :: "'r option"
  parent_mem_region :: "'r option"

record 'r pci_config =
  pc_config :: "u8 list"
  write_mask :: "u8 list"
  write_clear_mask :: "u8 list"
  pc_bars :: "'r bar list"
  last_cap_end :: u16
  last_ext_cap_offset :: u16
  last_ext_cap_end :: u16
  pc_msix :: "msix option"
  pci_express_cap_offset :: u16
  pc_intx :: "intx option"

datatype pci_error =
    AddPciCap u8 nat
  | AddPcieExtCap u16 nat
  | InvalidConf
  | RegOutOfBounds
  | BarRegion nat as_error
  | PciPanic panic

definition new_bar :: "'r bar" where
  "new_bar = \<lparr>b_type = Mem32Bit, b_address = 0, b_size = 0, b_region = None, parent_io_region = None, parent_mem_region = None\<rparr>"

definition new_pci_config :: "nat \<Rightarrow> u8 \<Rightarrow> 'r pci_config" where
  "new_pci_config config_size nr_bar =
     \<lparr>pc_config = replicate config_size 0, write_mask = replicate config_size 0, write_clear_mask = replicate config_size 0,
      pc_bars = replicate (unat nr_bar) new_bar, last_cap_end = of_nat PCI_CONFIG_HEAD_END, last_ext_cap_offset = 0,
      last_ext_cap_end = of_nat PCI_CONFIG_SPACE_SIZE, pc_msix = None,
      pci_express_cap_offset = of_nat PCI_CONFIG_HEAD_END, pc_intx = None\<rparr>"

section \<open>Writing registers and masks\<close>

text \<open>The writes of the source with a \<open>?\<close>: fields of \<open>n\<close> bytes, and single bytes, which panic out of range.\<close>

type_synonym 'r cfg_op = "'r pci_config \<Rightarrow> (pci_error + unit) \<times> 'r pci_config"

definition put_config :: "nat \<Rightarrow> nat \<Rightarrow> 'a::len word \<Rightarrow> 'r cfg_op" where
  "put_config n off v c =
     (case le_write n (pc_config c) off v of None \<Rightarrow> (Inl RegOutOfBounds, c) | Some b \<Rightarrow> (Inr (), c\<lparr>pc_config := b\<rparr>))"

definition put_mask :: "nat \<Rightarrow> nat \<Rightarrow> 'a::len word \<Rightarrow> 'r cfg_op" where
  "put_mask n off v c =
     (case le_write n (write_mask c) off v of None \<Rightarrow> (Inl RegOutOfBounds, c) | Some b \<Rightarrow> (Inr (), c\<lparr>write_mask := b\<rparr>))"

definition put_clear_mask :: "nat \<Rightarrow> nat \<Rightarrow> 'a::len word \<Rightarrow> 'r cfg_op" where
  "put_clear_mask n off v c =
     (case le_write n (write_clear_mask c) off v of None \<Rightarrow> (Inl RegOutOfBounds, c) | Some b \<Rightarrow> (Inr (), c\<lparr>write_clear_mask := b\<rparr>))"

definition set_config :: "nat \<Rightarrow> u8 \<Rightarrow> 'r cfg_op" where
  "set_config i v c =
     (if i < length (pc_config c) then (Inr (), c\<lparr>pc_config := (pc_config c)[i := v]\<rparr>) else (Inl (PciPanic IndexOutOfRange), c))"

definition set_mask :: "nat \<Rightarrow> u8 \<Rightarrow> 'r cfg_op" where
  "set_mask i v c =
     (if i < length (write_mask c) then (Inr (), c\<lparr>write_mask := (write_mask c)[i := v]\<rparr>) else (Inl (PciPanic IndexOutOfRange), c))"

definition all_ops :: "'r cfg_op list \<Rightarrow> 'r cfg_op" where
  "all_ops = try_for_each (\<lambda>f. f)"

definition init_common_write_mask :: "'r cfg_op" where
  "init_common_write_mask c =
     all_ops ([set_mask CACHE_LINE_SIZE 0xff, set_mask INTERRUPT_LINE 0xff,
        put_mask 2 COMMAND (COMMAND_IO_SPACE OR COMMAND_MEMORY_SPACE OR COMMAND_BUS_MASTER OR COMMAND_INTERRUPT_DISABLE OR COMMAND_SERR_ENABLE)]
        @ map (\<lambda>k. put_mask 4 (PCI_CONFIG_HEAD_END + 4 * k) (0xffffffff :: u32)) [0..<(length (pc_config c) - PCI_CONFIG_HEAD_END + 3) div 4]) c"

definition init_bridge_write_mask :: "'r cfg_op" where
  "init_bridge_write_mask =
     all_ops [set_mask IO_BASE 0xf0, set_mask IO_LIMIT 0xf0, put_mask 4 PRIMARY_BUS_NUM (0xffffffff :: u32),
       put_mask 4 MEMORY_BASE (0xfff0fff0 :: u32), put_mask 4 PREF_MEMORY_BASE (0xfff0fff0 :: u32),
       put_mask 8 PREF_MEM_BASE_UPPER (0xffffffffffffffff :: u64),
       put_mask 2 BRIDGE_CONTROL (0x0001 OR 0x0002 OR 0x0004 OR 0x0008 OR 0x0010 OR 0x0040 OR 0x0080 OR 0x0100 OR 0x0200 OR 0x0800 :: u16)]"

definition init_bridge_write_clear_mask :: "'r cfg_op" where
  "init_bridge_write_clear_mask = put_clear_mask 2 BRIDGE_CONTROL (0x0400 :: u16)"

definition init_common_write_clear_mask :: "'r cfg_op" where
  "init_common_write_clear_mask =
     put_clear_mask 2 STATUS (0x0100 OR 0x0800 OR 0x1000 OR 0x2000 OR 0x4000 OR 0x8000 :: u16)"

definition reset_bridge_regs :: "'r cfg_op" where
  "reset_bridge_regs =
     all_ops [put_config 4 PRIMARY_BUS_NUM (0 :: u32), set_config IO_BASE 0xff, set_config IO_LIMIT 0,
       put_config 4 MEMORY_BASE (0xffff :: u32), put_config 4 PREF_MEMORY_BASE (0xffff :: u32),
       put_config 8 PREF_MEM_BASE_UPPER (0 :: u64)]"

definition reset_single_writable_reg :: "nat \<Rightarrow> 'r cfg_op" where
  "reset_single_writable_reg off c =
     (case (le_read_u16 (write_mask c) off, le_read_u16 (write_clear_mask c) off, le_read_u16 (pc_config c) off) of
        (Some w, Some wc, Some old) \<Rightarrow> put_config 2 off (old AND NOT (w OR wc)) c
      | _ \<Rightarrow> (Inl (PciPanic UnwrapNone), c))"

definition reset_common_regs :: "'r cfg_op" where
  "reset_common_regs =
     all_ops [reset_single_writable_reg COMMAND, reset_single_writable_reg STATUS, reset_single_writable_reg INTERRUPT_LINE,
       set_config CACHE_LINE_SIZE 0]"

section \<open>Capabilities\<close>

text \<open>
  The walk over the list of capabilities. The offsets seen are remembered; \<open>Inl\<close> is an index out
  of the configuration space.
\<close>

function find_cap_loop :: "u8 list \<Rightarrow> u8 \<Rightarrow> u8 \<Rightarrow> u8 set \<Rightarrow> panic + nat" where
  "find_cap_loop cfg cap_id off seen =
     (if unat off \<ge> length cfg then Inl IndexOutOfRange
      else if cfg ! unat off = cap_id then Inr (unat off)
      else if unat off + NEXT_CAP_OFFSET \<ge> length cfg then Inl IndexOutOfRange
      else let next_off = cfg ! (unat off + NEXT_CAP_OFFSET)
           in if next_off = 0 \<or> next_off \<in> seen then Inr 0xff
              else find_cap_loop cfg cap_id next_off (insert next_off seen))"
  by pat_completeness auto
termination
  by (relation "measure (\<lambda>(_, _, _, seen). card (UNIV - seen))") (auto simp: card_gt_0_iff subset_eq intro!: diff_less)

declare find_cap_loop.simps [simp del]

definition find_pci_cap :: "u8 \<Rightarrow> 'r pci_config \<Rightarrow> panic + nat" where
  "find_pci_cap cap_id c =
     (if CAP_LIST \<ge> length (pc_config c) then Inl IndexOutOfRange
      else find_cap_loop (pc_config c) cap_id (pc_config c ! CAP_LIST) {pc_config c ! CAP_LIST})"

definition regs_num :: "nat \<Rightarrow> nat" where
  "regs_num sz = (if sz mod REG_SIZE = 0 then sz div REG_SIZE else sz div REG_SIZE + 1)"

text \<open>Making the registers of a capability read-only, one after the other.\<close>

definition protect_cap_reg :: "'r cfg_op" where
  "protect_cap_reg = sm_bind (\<lambda>c. put_mask 4 (unat (last_cap_end c)) (0 :: u32) c)
     (\<lambda>_ c. (Inr (), c\<lparr>last_cap_end := last_cap_end c + of_nat REG_SIZE\<rparr>))"

definition protect_ext_cap_reg :: "'r cfg_op" where
  "protect_ext_cap_reg = sm_bind (\<lambda>c. put_mask 4 (unat (last_ext_cap_end c)) (0 :: u32) c)
     (\<lambda>_ c. (Inr (), c\<lparr>last_ext_cap_end := last_ext_cap_end c + of_nat REG_SIZE\<rparr>))"

definition add_pci_cap :: "u8 \<Rightarrow> nat \<Rightarrow> 'r pci_config \<Rightarrow> (pci_error + nat) \<times> 'r pci_config" where
  "add_pci_cap cap_id sz c =
     (let off = unat (last_cap_end c)
      in if off + sz > PCI_CONFIG_SPACE_SIZE then (Inl (AddPciCap cap_id sz), c)
         else sm_bind
           (all_ops ([set_config off cap_id,
              \<lambda>c. set_config (off + NEXT_CAP_OFFSET) (pc_config c ! CAP_LIST) c,
              set_config CAP_LIST (of_nat off),
              \<lambda>c. set_config STATUS (pc_config c ! STATUS OR STATUS_CAP_LIST) c]
              @ replicate (regs_num sz) protect_cap_reg))
           (\<lambda>_ c. (Inr off, c)) c)"

definition link_ext_cap :: "nat \<Rightarrow> 'r cfg_op" where
  "link_ext_cap off c =
     (if last_ext_cap_offset c \<noteq> 0
      then case le_read_u32 (pc_config c) (unat (last_ext_cap_offset c)) of
             None \<Rightarrow> (Inl RegOutOfBounds, c)
           | Some old \<Rightarrow> put_config 4 (unat (last_ext_cap_offset c)) (old OR shl (of_nat off) 20) c
      else (Inr (), c))"

definition add_pcie_ext_cap :: "u16 \<Rightarrow> nat \<Rightarrow> u32 \<Rightarrow> 'r pci_config \<Rightarrow> (pci_error + nat) \<times> 'r pci_config" where
  "add_pcie_ext_cap cap_id sz version c =
     (let off = unat (last_ext_cap_end c)
      in if off + sz > PCIE_CONFIG_SPACE_SIZE then (Inl (AddPcieExtCap cap_id sz), c)
         else sm_bind
           (all_ops (replicate (regs_num sz) protect_ext_cap_reg
              @ [put_config 4 off (ucast cap_id OR shl version 16), link_ext_cap off]))
           (\<lambda>_ c. (Inr off, c\<lparr>last_ext_cap_offset := of_nat off\<rparr>)) c)"

definition add_pcie_cap :: "u8 \<Rightarrow> u8 \<Rightarrow> u8 \<Rightarrow> 'r pci_config \<Rightarrow> (pci_error + nat) \<times> 'r pci_config" where
  "add_pcie_cap devfn port_num dev_type =
     sm_bind (add_pci_cap 0x10 0x3c) (\<lambda>cap c.
       sm_bind (all_ops
         [put_config 2 (cap + 0x02) ((ucast (shl dev_type 4) :: u16) AND 0x00f0 OR 0x0002 OR 0x0100),
          put_config 4 (cap + 0x04) (0x8000 :: u32),
          put_mask 2 (cap + 0x08) (0x01 OR 0x02 OR 0x04 OR 0x08 :: u16),
          put_clear_mask 2 (cap + 0x0a) (0x01 OR 0x02 OR 0x04 OR 0x08 :: u16),
          put_config 4 (cap + 0x0c) (0x4 OR 0x200 OR 0x400 OR 0x200000 OR 0x100000 OR shl (ucast port_num) 24 :: u32),
          put_config 2 (cap + 0x12) (0x0001 OR 0x0010 :: u16),
          put_config 4 (cap + 0x14) (0x1 OR 0x2 OR 0x8 OR 0x10 OR 0x20 OR 0x40 OR shl (ucast (shr devfn 3)) 19 :: u32),
          put_config 2 (cap + 0x18) (0x00c0 OR 0x0300 OR 0x0400 :: u16),
          put_mask 2 (cap + 0x18) (0x0001 OR 0x0008 OR 0x0010 OR 0x0020 OR 0x00c0 OR 0x0300 OR 0x0400 OR 0x0800 :: u16),
          put_clear_mask 2 (cap + 0x1a) (0x0001 OR 0x0008 OR 0x0010 :: u16),
          put_mask 2 (cap + 0x1c) (0x01 OR 0x02 OR 0x04 :: u16),
          put_config 4 (cap + 0x24) (0x20 OR 0x100000 OR 0x200000 :: u32),
          put_mask 2 (cap + 0x28) (0x0020 OR 0x8000 :: u16),
          put_config 4 (cap + 0x2c) (0x02 OR 0x04 OR 0x08 OR 0x10 :: u32),
          put_config 2 (cap + 0x30) (0x0004 :: u16)])
         (\<lambda>_ c. (Inr cap, c)) (c\<lparr>pci_express_cap_offset := of_nat cap\<rparr>))"

text \<open>The walk over the extended capabilities; \<open>None\<close> is a list that runs in a circle.\<close>

definition get_ext_cap_size :: "nat \<Rightarrow> 'r pci_config \<Rightarrow> (panic + nat) option" where
  "get_ext_cap_size pos c =
     map_option (\<lambda>r. case r of Inl p \<Rightarrow> Inl p | Inr (_, end_pos) \<Rightarrow> Inr (end_pos - pos))
       (while_option
          (\<lambda>r. case r of Inl _ \<Rightarrow> False | Inr (cap, _) \<Rightarrow> PCI_CONFIG_SPACE_SIZE \<le> cap \<and> cap < PCIE_CONFIG_SPACE_SIZE)
          (\<lambda>r. case r of
             Inl p \<Rightarrow> Inl p
           | Inr (cap, end_pos) \<Rightarrow>
               (case le_read_u32 (pc_config c) cap of
                  None \<Rightarrow> Inl UnwrapNone
                | Some header \<Rightarrow>
                    let n = pci_ext_cap_next header in Inr (n, if n > pos \<and> n < end_pos then n else end_pos)))
          (Inr (PCI_CONFIG_SPACE_SIZE, PCIE_CONFIG_SPACE_SIZE)))"

definition set_interrupt_pin :: "'r cfg_op" where
  "set_interrupt_pin = set_config INTERRUPT_PIN 0x01"

definition revise_msix_vector :: "u32 \<Rightarrow> 'r pci_config \<Rightarrow> bool" where
  "revise_msix_vector vector_nr c =
     (case pc_msix c of None \<Rightarrow> False | Some m \<Rightarrow> vector_nr < of_nat (length (mx_table m) div 16))"

section \<open>Base address registers\<close>

definition get_bar_address :: "nat \<Rightarrow> 'r pci_config \<Rightarrow> panic + u64" where
  "get_bar_address i c =
     (let off = BAR_0 + i * REG_SIZE; reg32 = le_read_u32 (pc_config c) off; reg64 = le_read_u64 (pc_config c) off
      in case le_read_u16 (pc_config c) COMMAND of
           None \<Rightarrow> Inl UnwrapNone
         | Some command \<Rightarrow>
             if off \<ge> length (pc_config c) then Inl IndexOutOfRange
             else if pc_config c ! off AND BAR_IO_SPACE > 0
             then if command AND COMMAND_IO_SPACE = 0 then Inr BAR_SPACE_UNMAPPED
                  else (case reg32 of None \<Rightarrow> Inl UnwrapNone | Some v \<Rightarrow> Inr (ucast (v AND IO_BASE_ADDR_MASK)))
             else if command AND COMMAND_MEMORY_SPACE = 0 then Inr BAR_SPACE_UNMAPPED
             else if i \<ge> length (pc_bars c) then Inl IndexOutOfRange
             else case b_type (pc_bars c ! i) of
                    Io \<Rightarrow> Inr BAR_SPACE_UNMAPPED
                  | Mem32Bit \<Rightarrow> (case reg32 of None \<Rightarrow> Inl UnwrapNone | Some v \<Rightarrow> Inr (ucast (v AND ucast MEM_BASE_ADDR_MASK)))
                  | Mem64Bit \<Rightarrow> (case reg64 of None \<Rightarrow> Inl UnwrapNone | Some v \<Rightarrow> Inr (v AND MEM_BASE_ADDR_MASK)))"

definition validate_bar_id :: "nat \<Rightarrow> 'r pci_config \<Rightarrow> pci_error + unit" where
  "validate_bar_id i c =
     (if HEADER_TYPE \<ge> length (pc_config c) then Inl (PciPanic IndexOutOfRange)
      else if pc_config c ! HEADER_TYPE = HEADER_TYPE_ENDPOINT \<and> i \<ge> BAR_NUM_MAX_FOR_ENDPOINT
           \<or> pc_config c ! HEADER_TYPE = HEADER_TYPE_BRIDGE \<and> i \<ge> BAR_NUM_MAX_FOR_BRIDGE
      then Inl InvalidConf else Inr ())"

definition is_power_of_two :: "u64 \<Rightarrow> bool" where
  "is_power_of_two w = (w \<noteq> 0 \<and> w AND (w - 1) = 0)"

definition validate_bar_size :: "pci_region_type \<Rightarrow> u64 \<Rightarrow> pci_error + unit" where
  "validate_bar_size ty sz =
     (if \<not> is_power_of_two sz \<or> ty = Io \<and> sz < MINIMUM_BAR_SIZE_FOR_PIO \<or> ty = Mem32Bit \<and> sz > 0xffffffff \<or> ty = Io \<and> sz > 0xffff
      then Inl InvalidConf else Inr ())"

text \<open>The errors of the masks are unwrapped; an index beyond the BARs panics.\<close>

definition bar_registers :: "nat \<Rightarrow> pci_region_type \<Rightarrow> bool \<Rightarrow> u64 \<Rightarrow> 'r cfg_op" where
  "bar_registers off ty prefetchable sz =
     all_ops
       ((case ty of
           Io \<Rightarrow> [put_mask 4 off (ucast (NOT (sz - 1)) :: u32), set_config off BAR_IO_SPACE]
         | Mem32Bit \<Rightarrow> [put_mask 4 off (ucast (NOT (sz - 1)) :: u32)]
         | Mem64Bit \<Rightarrow> [put_mask 8 off (NOT (sz - 1)), set_config off BAR_MEM_64BIT])
        @ (if prefetchable then [\<lambda>c. set_config off (pc_config c ! off OR BAR_PREFETCH) c] else []))"

definition register_bar :: "nat \<Rightarrow> 'r \<Rightarrow> pci_region_type \<Rightarrow> bool \<Rightarrow> u64 \<Rightarrow> 'r cfg_op" where
  "register_bar i region ty prefetchable sz c =
     (case validate_bar_id i c of
        Inl e \<Rightarrow> (Inl e, c)
      | Inr _ \<Rightarrow>
          (case validate_bar_size ty sz of
             Inl e \<Rightarrow> (Inl e, c)
           | Inr _ \<Rightarrow>
               (case bar_registers (BAR_0 + i * REG_SIZE) ty prefetchable sz c of
                  (Inl e, c1) \<Rightarrow> (Inl (PciPanic UnwrapNone), c1)
                | (Inr _, c1) \<Rightarrow>
                    if i \<ge> length (pc_bars c1) then (Inl (PciPanic IndexOutOfRange), c1)
                    else (Inr (), c1\<lparr>pc_bars := (pc_bars c1)[i := (pc_bars c1 ! i)\<lparr>b_type := ty, b_address := BAR_SPACE_UNMAPPED,
                           b_size := sz, b_region := Some region\<rparr>]\<rparr>))))"

text \<open>The operations on regions that map and unmap a BAR, over a state \<open>'s\<close> of regions.\<close>

record ('r, 's) bar_space =
  bs_add :: "'r \<Rightarrow> 'r \<Rightarrow> u64 \<Rightarrow> 's \<Rightarrow> (as_error + unit) \<times> 's"
  bs_delete :: "'r \<Rightarrow> 'r \<Rightarrow> 's \<Rightarrow> (as_error + unit) \<times> 's"

type_synonym ('r, 's) mapped_config = "'r pci_config \<times> 's"

definition set_bar :: "nat \<Rightarrow> ('r bar \<Rightarrow> 'r bar) \<Rightarrow> 'r pci_config \<Rightarrow> 'r pci_config" where
  "set_bar i f c = c\<lparr>pc_bars := (pc_bars c)[i := f (pc_bars c ! i)]\<rparr>"

definition bar_parent :: "'r bar \<Rightarrow> 'r option" where
  "bar_parent b = (if b_type b = Io then parent_io_region b else parent_mem_region b)"

definition unmap_bar :: "('r, 's) bar_space \<Rightarrow> nat \<Rightarrow> ('r, 's) mapped_config \<Rightarrow> (pci_error + unit) \<times> ('r, 's) mapped_config" where
  "unmap_bar B i cs =
     (case cs of (c, s) \<Rightarrow>
        let b = pc_bars c ! i
        in if b_address b = BAR_SPACE_UNMAPPED then (Inr (), cs)
           else case bar_parent b of
             None \<Rightarrow> (Inr (), set_bar i (\<lambda>b. b\<lparr>b_address := BAR_SPACE_UNMAPPED\<rparr>) c, s)
           | Some p \<Rightarrow>
               (case b_region b of
                  None \<Rightarrow> (Inl (PciPanic UnwrapNone), cs)
                | Some r \<Rightarrow>
                    (case bs_delete B p r s of
                       (Inl e, s1) \<Rightarrow> (Inl (BarRegion i e), c, s1)
                     | (Inr _, s1) \<Rightarrow> (Inr (), set_bar i (\<lambda>b. b\<lparr>b_address := BAR_SPACE_UNMAPPED\<rparr>) c, s1))))"

definition is_bar_region_empty :: "nat \<Rightarrow> 'r option \<Rightarrow> 'r option \<Rightarrow> 'r pci_config \<Rightarrow> bool" where
  "is_bar_region_empty i io_region mem_region c =
     (if b_type (pc_bars c ! i) = Io then io_region = None else mem_region = None)"

definition map_bar ::
    "('r, 's) bar_space \<Rightarrow> nat \<Rightarrow> 'r \<Rightarrow> u64 \<Rightarrow> ('r, 's) mapped_config \<Rightarrow> (pci_error + unit) \<times> ('r, 's) mapped_config" where
  "map_bar B i p new_addr cs =
     (case cs of (c, s) \<Rightarrow>
        case b_region (pc_bars c ! i) of
          None \<Rightarrow> (Inl (PciPanic UnwrapNone), cs)
        | Some r \<Rightarrow>
            (case bs_add B p r new_addr s of
               (Inl e, s1) \<Rightarrow> (Inl (BarRegion i e), c, s1)
             | (Inr _, s1) \<Rightarrow>
                 (Inr (), set_bar i (\<lambda>b. (if b_type b = Io then b\<lparr>parent_io_region := Some p\<rparr> else b\<lparr>parent_mem_region := Some p\<rparr>)
                     \<lparr>b_address := new_addr\<rparr>) c, s1)))"

text \<open>One turn of the loop; \<open>False\<close> is the early return, which leaves the BARs behind it as they are.\<close>

definition update_bar ::
    "('r, 's) bar_space \<Rightarrow> 'r option \<Rightarrow> 'r option \<Rightarrow> nat \<Rightarrow> ('r, 's) mapped_config \<Rightarrow> (pci_error + bool) \<times> ('r, 's) mapped_config" where
  "update_bar B io_region mem_region i cs =
     (case cs of (c, s) \<Rightarrow>
        let b = pc_bars c ! i
        in if b_size b = 0 then (Inr True, cs)
           else case get_bar_address i c of
             Inl p \<Rightarrow> (Inl (PciPanic p), cs)
           | Inr new_addr \<Rightarrow>
               if b_address b = new_addr then (Inr True, cs)
               else sm_bind (unmap_bar B i) (\<lambda>_ cs1.
                 if is_bar_region_empty i io_region mem_region (fst cs1) then (Inr False, cs1)
                 else if new_addr = BAR_SPACE_UNMAPPED then (Inr True, cs1)
                 else case (if b_type b = Io then io_region else mem_region) of
                        None \<Rightarrow> (Inl (PciPanic UnwrapNone), cs1)
                      | Some p \<Rightarrow> sm_bind (map_bar B i p new_addr) (\<lambda>_ cs2. (Inr True, cs2)) cs1) cs)"

fun update_bars ::
    "('r, 's) bar_space \<Rightarrow> 'r option \<Rightarrow> 'r option \<Rightarrow> nat list \<Rightarrow> ('r, 's) mapped_config \<Rightarrow> (pci_error + unit) \<times> ('r, 's) mapped_config" where
  "update_bars B io_region mem_region [] cs = (Inr (), cs)"
| "update_bars B io_region mem_region (i # is) cs =
     (case update_bar B io_region mem_region i cs of
        (Inl e, cs1) \<Rightarrow> (Inl e, cs1)
      | (Inr True, cs1) \<Rightarrow> update_bars B io_region mem_region is cs1
      | (Inr False, cs1) \<Rightarrow> (Inr (), cs1))"

definition update_bar_mapping ::
    "('r, 's) bar_space \<Rightarrow> 'r option \<Rightarrow> 'r option \<Rightarrow> ('r, 's) mapped_config \<Rightarrow> (pci_error + unit) \<times> ('r, 's) mapped_config" where
  "update_bar_mapping B io_region mem_region cs =
     update_bars B io_region mem_region [0..<length (pc_bars (fst cs))] cs"

text \<open>The bus's two regions; a BAR that was unregistered loses its region.\<close>

fun unregister_bars_loop ::
    "('r, 's) bar_space \<Rightarrow> 'r \<Rightarrow> 'r \<Rightarrow> nat list \<Rightarrow> ('r, 's) mapped_config \<Rightarrow> (pci_error + unit) \<times> ('r, 's) mapped_config" where
  "unregister_bars_loop B io_region mem_region [] cs = (Inr (), cs)"
| "unregister_bars_loop B io_region mem_region (i # is) (c, s) =
     (let b = pc_bars c ! i; p = (if b_type b = Io then io_region else mem_region);
          c1 = set_bar i (\<lambda>b. b\<lparr>b_region := None\<rparr>) c
      in if b_address b = BAR_SPACE_UNMAPPED \<or> b_size b = 0 then unregister_bars_loop B io_region mem_region is (c, s)
         else case b_region b of
           None \<Rightarrow> unregister_bars_loop B io_region mem_region is (c1, s)
         | Some r \<Rightarrow>
             (case bs_delete B p r s of
                (Inl e, s1) \<Rightarrow> (Inl (BarRegion i e), c, s1)
              | (Inr _, s1) \<Rightarrow> unregister_bars_loop B io_region mem_region is (c1, s1)))"

definition unregister_bars ::
    "('r, 's) bar_space \<Rightarrow> 'r \<Rightarrow> 'r \<Rightarrow> ('r, 's) mapped_config \<Rightarrow> (pci_error + unit) \<times> ('r, 's) mapped_config" where
  "unregister_bars B io_region mem_region cs =
     unregister_bars_loop B io_region mem_region [0..<length (pc_bars (fst cs))] cs"

section \<open>Guest accesses and reset\<close>

text \<open>The device's configuration with the interrupt lines of its bus and the regions it is mapped into.\<close>

record ('r, 's) pci_world =
  w_cfg :: "'r pci_config"
  w_lines :: pci_intx_state
  w_space :: 's

definition validate_config_boundary :: "nat \<Rightarrow> nat \<Rightarrow> 'r pci_config \<Rightarrow> bool" where
  "validate_config_boundary off len c \<longleftrightarrow> len \<le> 4 \<and> off + len \<le> length (pc_config c)"

text \<open>\<open>ranges_overlap(..).unwrap()\<close> on the small numbers of the configuration space.\<close>

definition overlaps :: "nat \<Rightarrow> nat \<Rightarrow> nat \<Rightarrow> nat \<Rightarrow> panic + bool" where
  "overlaps a n b k =
     (case ranges_overlap (of_nat a) (of_nat n) (of_nat b) (of_nat k) of None \<Rightarrow> Inl UnwrapNone | Some r \<Rightarrow> Inr r)"

definition pci_read :: "nat \<Rightarrow> u8 list \<Rightarrow> 'r pci_config \<Rightarrow> panic + u8 list \<times> 'r pci_config" where
  "pci_read off buf c =
     (if \<not> validate_config_boundary off (length buf) c then Inr (buf, c)
      else and_then (overlaps off (length buf) STATUS 1) (\<lambda>st.
        let old = pc_config c ! STATUS;
            c1 = (case pc_intx c of
                    Some d \<Rightarrow> if st then c\<lparr>pc_config := (pc_config c)[STATUS :=
                                      if int_level d = 1 then old OR STATUS_INTERRUPT else old AND NOT STATUS_INTERRUPT]\<rparr> else c
                  | None \<Rightarrow> c)
        in Inr (take (length buf) (drop off (pc_config c1)), c1)))"

text \<open>Writable bits take the new value and write-one-to-clear bits are cleared where a one is written.\<close>

definition masked_byte :: "u8 \<Rightarrow> u8 \<Rightarrow> u8 \<Rightarrow> u8 \<Rightarrow> u8" where
  "masked_byte old wm wcm d = ((old AND NOT wm) OR (d AND wm)) AND NOT (d AND wcm)"

fun write_bytes :: "nat \<Rightarrow> u8 list \<Rightarrow> 'r pci_config \<Rightarrow> 'r pci_config" where
  "write_bytes off [] c = c"
| "write_bytes off (d # ds) c =
     write_bytes (off + 1) ds (c\<lparr>pc_config := (pc_config c)[off := masked_byte (pc_config c ! off) (write_mask c ! off) (write_clear_mask c ! off) d]\<rparr>)"

definition bar_layout :: "'r pci_config \<Rightarrow> nat \<times> nat" where
  "bar_layout c =
     (if pc_config c ! HEADER_TYPE AND HEADER_TYPE_BRIDGE = HEADER_TYPE_BRIDGE then (BAR_NUM_MAX_FOR_BRIDGE, ROM_ADDRESS_BRIDGE)
      else (BAR_NUM_MAX_FOR_ENDPOINT, ROM_ADDRESS_ENDPOINT))"

text \<open>The errors of the mapping are logged; its panics are not.\<close>

definition remap :: "('r, 's) bar_space \<Rightarrow> 'r option \<Rightarrow> 'r option \<Rightarrow> ('r, 's) pci_world \<Rightarrow> panic + ('r, 's) pci_world" where
  "remap B io_region mem_region w =
     (case update_bar_mapping B io_region mem_region (w_cfg w, w_space w) of
        (Inl (PciPanic p), _) \<Rightarrow> Inl p
      | (_, c, s) \<Rightarrow> Inr (w\<lparr>w_cfg := c, w_space := s\<rparr>))"

definition write_command :: "('r, 's) pci_world \<Rightarrow> panic + ('r, 's) pci_world" where
  "write_command w =
     (case pc_intx (w_cfg w) of
        None \<Rightarrow> Inr w
      | Some d \<Rightarrow>
          (case le_read_u16 (pc_config (w_cfg w)) COMMAND of
             None \<Rightarrow> Inl UnwrapNone
           | Some cmd \<Rightarrow>
               and_then (intx_command (cmd AND COMMAND_INTERRUPT_DISABLE = 0) (d, w_lines w)) (\<lambda>(d1, l1).
                 Inr (w\<lparr>w_cfg := (w_cfg w)\<lparr>pc_intx := Some d1\<rparr>, w_lines := l1\<rparr>))))"

definition write_msix :: "u16 \<Rightarrow> nat \<Rightarrow> nat \<Rightarrow> ('r, 's) pci_world \<Rightarrow> panic + ('r, 's) pci_world" where
  "write_msix dev off len w =
     (case pc_msix (w_cfg w) of
        None \<Rightarrow> Inr w
      | Some m \<Rightarrow>
          and_then (is_msix_enabled (unat (msix_cap_offset m)) (pc_config (w_cfg w))) (\<lambda>enabled.
          and_then (case pc_intx (w_cfg w) of
                      Some d \<Rightarrow> if enabled
                                then and_then (intx_notify 0 (d, w_lines w)) (\<lambda>(d1, l1).
                                       Inr (w\<lparr>w_cfg := (w_cfg w)\<lparr>pc_intx := Some d1\<rparr>, w_lines := l1\<rparr>))
                                else Inr w
                    | None \<Rightarrow> Inr w) (\<lambda>w1.
          and_then (msix_write_config (pc_config (w_cfg w1)) dev off len m) (\<lambda>m1.
            Inr (w1\<lparr>w_cfg := (w_cfg w1)\<lparr>pc_msix := Some m1\<rparr>\<rparr>)))))"

definition pci_write ::
    "('r, 's) bar_space \<Rightarrow> nat \<Rightarrow> u8 list \<Rightarrow> u16 \<Rightarrow> 'r option \<Rightarrow> 'r option \<Rightarrow> ('r, 's) pci_world \<Rightarrow> panic + ('r, 's) pci_world" where
  "pci_write B off data dev io_region mem_region w =
     (if \<not> validate_config_boundary off (length data) (w_cfg w) then Inr w
      else let c = write_bytes off data (w_cfg w); w1 = w\<lparr>w_cfg := c\<rparr>; len = length data
           in if HEADER_TYPE \<ge> length (pc_config c) then Inl IndexOutOfRange
              else and_then (overlaps off len COMMAND 1) (\<lambda>cmd.
                   and_then (overlaps off len BAR_0 (REG_SIZE * fst (bar_layout c))) (\<lambda>bar.
                   and_then (overlaps off len (snd (bar_layout c)) 4) (\<lambda>rom.
                   and_then (if cmd \<or> bar \<or> rom then remap B io_region mem_region w1 else Inr w1) (\<lambda>w2.
                   and_then (if cmd then write_command w2 else Inr w2) (\<lambda>w3.
                     write_msix dev off len w3))))))"

text \<open>The first error ends the reset.\<close>

definition pci_reset :: "('r, 's) bar_space \<Rightarrow> ('r, 's) pci_world \<Rightarrow> panic + (pci_error + unit) \<times> ('r, 's) pci_world" where
  "pci_reset B w =
     and_then (case pc_intx (w_cfg w) of
                 None \<Rightarrow> Inr w
               | Some d \<Rightarrow> and_then (intx_reset (d, w_lines w)) (\<lambda>(d1, l1).
                   Inr (w\<lparr>w_cfg := (w_cfg w)\<lparr>pc_intx := Some d1\<rparr>, w_lines := l1\<rparr>))) (\<lambda>w1.
       case reset_common_regs (w_cfg w1) of
         (Inl (PciPanic p), _) \<Rightarrow> Inl p
       | (Inl e, c) \<Rightarrow> Inr (Inl e, w1\<lparr>w_cfg := c\<rparr>)
       | (Inr _, c) \<Rightarrow>
           and_then (remap B None None (w1\<lparr>w_cfg := c\<rparr>)) (\<lambda>w2.
             Inr (Inr (), w2\<lparr>w_cfg := (w_cfg w2)\<lparr>pc_msix := map_option msix_reset (pc_msix (w_cfg w2))\<rparr>\<rparr>)))"



end
