(* ===== verification/PciCaps.thy ===== *)
theory PciCaps
  imports PciConfig
begin

text \<open>
  The capability list of the configuration space: a chain of offsets that starts at the
  capabilities pointer. Adding a capability puts it in front of the chain and makes its
  registers read-only; the search walks the chain.
\<close>

section \<open>The chain\<close>

fun cap_chain :: "u8 list \<Rightarrow> u8 \<Rightarrow> u8 list \<Rightarrow> bool" where
  "cap_chain cfg off [] = (off = 0)"
| "cap_chain cfg off (x # xs) = (off = x \<and> x \<noteq> 0 \<and> cap_chain cfg (cfg ! (unat x + 1)) xs)"

definition caps_ok :: "'r pci_config \<Rightarrow> u8 list \<Rightarrow> bool" where
  "caps_ok c xs \<longleftrightarrow> cap_chain (pc_config c) (pc_config c ! CAP_LIST) xs \<and> distinct xs \<and>
     (\<forall>x \<in> set xs. 64 \<le> unat x \<and> unat x + 2 \<le> unat (last_cap_end c)) \<and>
     64 \<le> unat (last_cap_end c) \<and> unat (last_cap_end c) \<le> 256 \<and> unat (last_cap_end c) mod 4 = 0 \<and>
     256 \<le> length (pc_config c) \<and> length (write_mask c) = length (pc_config c)"

lemma cap_chain_cong:
  assumes "cap_chain cfg off xs" and "\<And>x. x \<in> set xs \<Longrightarrow> cfg' ! (unat x + 1) = cfg ! (unat x + 1)"
  shows "cap_chain cfg' off xs"
  using assms by (induction xs arbitrary: off) auto

text \<open>The walk finds the first capability of the chain with the number asked for.\<close>

lemma find_cap_chain:
  assumes "cap_chain cfg x (x # xs)" and "distinct (x # xs)" and "seen \<inter> set xs = {}"
    and "\<And>y. y \<in> set (x # xs) \<Longrightarrow> unat y + 1 < length cfg"
  shows "find_cap_loop cfg i x seen = Inr (case find (\<lambda>y. cfg ! unat y = i) (x # xs) of Some y \<Rightarrow> unat y | None \<Rightarrow> 0xff)"
  using assms
proof (induction xs arbitrary: x seen)
  case Nil
  then show ?case by (subst find_cap_loop.simps) (auto simp: NEXT_CAP_OFFSET_def Let_def)
next
  case (Cons z zs)
  have z: "cfg ! (unat x + 1) = z" "z \<noteq> 0" "z \<notin> seen" using Cons.prems(1,3) by auto
  have x: "unat x + 1 < length cfg" using Cons.prems(4) by simp
  have "find_cap_loop cfg i z (insert z seen) = Inr (case find (\<lambda>y. cfg ! unat y = i) (z # zs) of Some y \<Rightarrow> unat y | None \<Rightarrow> 0xff)"
    using Cons.prems by (intro Cons.IH) auto
  then show ?case using z x by (subst find_cap_loop.simps) (auto simp: NEXT_CAP_OFFSET_def Let_def)
qed

lemma find_pci_cap_chain:
  assumes "caps_ok c (x # xs)"
  shows "find_pci_cap i c = Inr (case find (\<lambda>y. pc_config c ! unat y = i) (x # xs) of Some y \<Rightarrow> unat y | None \<Rightarrow> 0xff)"
proof -
  have x: "pc_config c ! CAP_LIST = x" "\<not> length (pc_config c) \<le> CAP_LIST" using assms by (auto simp: caps_ok_def CAP_LIST_def)
  have "unat y + 1 < length (pc_config c)" if "y \<in> set (x # xs)" for y
  proof -
    have "unat y + 2 \<le> unat (last_cap_end c)" "unat (last_cap_end c) \<le> 256" "256 \<le> length (pc_config c)"
      using assms that unfolding caps_ok_def by blast+
    then show ?thesis by linarith
  qed
  then show ?thesis unfolding find_pci_cap_def x(1) using assms x by (subst find_cap_chain) (auto simp: caps_ok_def)
qed

section \<open>Adding a capability\<close>

lemma put_mask_zero:
  assumes "off + 4 \<le> length (write_mask c)"
  shows "\<exists>wm. put_mask 4 off (0 :: u32) c = (Inr (), c\<lparr>write_mask := wm\<rparr>) \<and> length wm = length (write_mask c) \<and>
    (\<forall>i. wm ! i = (if off \<le> i \<and> i < off + 4 then 0 else write_mask c ! i))"
proof -
  obtain wm where wm: "le_write 4 (write_mask c) off (0 :: u32) = Some wm" using assms by (auto simp: le_write_def)
  have "to_le 4 (0 :: u32) ! j = 0" if "j < 4" for j using that by (simp add: to_le_def)
  then show ?thesis using wm length_le_write [OF wm] nth_le_write [OF wm]
    by (intro exI [of _ wm]) (auto simp: put_mask_def)
qed

lemma protect_cap_regs:
  assumes "unat (last_cap_end c) + 4 * n \<le> length (write_mask c)" and "unat (last_cap_end c) + 4 * n < 65536"
  shows "\<exists>wm. all_ops (replicate n protect_cap_reg) c =
      (Inr (), c\<lparr>write_mask := wm, last_cap_end := of_nat (unat (last_cap_end c) + 4 * n)\<rparr>) \<and> length wm = length (write_mask c) \<and>
    (\<forall>i. wm ! i = (if unat (last_cap_end c) \<le> i \<and> i < unat (last_cap_end c) + 4 * n then 0 else write_mask c ! i))"
  using assms
proof (induction n arbitrary: c)
  case 0
  then show ?case by (intro exI [of _ "write_mask c"]) (auto simp: all_ops_def)
next
  case (Suc n)
  let ?o = "unat (last_cap_end c)"
  obtain wm where wm: "put_mask 4 ?o (0 :: u32) c = (Inr (), c\<lparr>write_mask := wm\<rparr>)" "length wm = length (write_mask c)"
      "\<And>i. wm ! i = (if ?o \<le> i \<and> i < ?o + 4 then 0 else write_mask c ! i)"
    using put_mask_zero [of ?o c] Suc.prems by auto
  let ?c = "c\<lparr>write_mask := wm, last_cap_end := last_cap_end c + 4\<rparr>"
  have o: "unat (last_cap_end ?c) = ?o + 4" using Suc.prems(2) by (simp add: unat_word_ariths)
  have step: "protect_cap_reg c = (Inr (), ?c)" using wm(1) by (simp add: protect_cap_reg_def sm_bind_def REG_SIZE_def)
  obtain wm' where wm': "all_ops (replicate n protect_cap_reg) ?c = (Inr (), ?c\<lparr>write_mask := wm', last_cap_end := of_nat (?o + 4 + 4 * n)\<rparr>)"
      "length wm' = length wm" "\<And>i. wm' ! i = (if ?o + 4 \<le> i \<and> i < ?o + 4 + 4 * n then 0 else wm ! i)"
    using Suc.IH [of ?c] Suc.prems wm(2) o by (auto simp: algebra_simps)
  have "all_ops (replicate (Suc n) protect_cap_reg) c = (Inr (), c\<lparr>write_mask := wm', last_cap_end := of_nat (?o + 4 * Suc n)\<rparr>)"
    using step wm'(1) by (simp add: all_ops_def algebra_simps)
  then show ?case using wm wm' by (intro exI [of _ wm']) auto
qed

lemma all_ops_append:
  "all_ops (xs @ ys) c = (case all_ops xs c of (Inl e, c1) \<Rightarrow> (Inl e, c1) | (Inr _, c1) \<Rightarrow> all_ops ys c1)"
  by (simp add: all_ops_def try_for_each_append split: prod.split sum.split)

lemma regs_num_cover:
  assumes "off mod 4 = 0" and "off + sz \<le> 256"
  shows "sz \<le> 4 * regs_num sz" "off + 4 * regs_num sz \<le> 256" "0 < sz \<Longrightarrow> 0 < regs_num sz"
proof -
  obtain p where p: "off = 4 * p" using assms(1) by auto
  obtain q r where q: "sz = 4 * q + r" "r < 4" by (metis mod_less_divisor mult.commute mult_div_mod_eq zero_less_numeral)
  then have n: "regs_num sz = (if r = 0 then q else q + 1)" by (simp add: regs_num_def REG_SIZE_def)
  have "4 * p + 4 * q + r \<le> 4 * 64" using assms(2) p q by simp
  then have "p + q + (if r = 0 then 0 else 1) \<le> 64" by (cases "r = 0") auto
  then show "sz \<le> 4 * regs_num sz" "off + 4 * regs_num sz \<le> 256" "0 < sz \<Longrightarrow> 0 < regs_num sz"
    using n p q by (auto split: if_splits)
qed

text \<open>The registers after adding a capability at \<open>off\<close>.\<close>

definition with_cap :: "u8 \<Rightarrow> nat \<Rightarrow> u8 list \<Rightarrow> u8 list" where
  "with_cap i off cfg = (let cfg1 = cfg[off := i, off + 1 := cfg ! CAP_LIST, CAP_LIST := of_nat off]
     in cfg1[STATUS := cfg1 ! STATUS OR STATUS_CAP_LIST])"

lemma with_cap_nth:
  assumes "64 \<le> off" and "off + 2 \<le> length cfg" and "256 \<le> length cfg"
  shows "length (with_cap i off cfg) = length cfg" "with_cap i off cfg ! off = i" "with_cap i off cfg ! (off + 1) = cfg ! CAP_LIST"
    "with_cap i off cfg ! CAP_LIST = of_nat off"
    "64 \<le> j \<Longrightarrow> j \<noteq> off \<Longrightarrow> j \<noteq> off + 1 \<Longrightarrow> with_cap i off cfg ! j = cfg ! j"
  using assms by (auto simp: with_cap_def Let_def CAP_LIST_def STATUS_def nth_list_update)

lemma add_pci_cap_run:
  assumes "caps_ok c xs" and "2 \<le> sz" and "off + sz \<le> 256" and off: "unat (last_cap_end c) = off"
  shows "\<exists>wm. add_pci_cap i sz c = (Inr off,
      c\<lparr>pc_config := with_cap i off (pc_config c), write_mask := wm,
        last_cap_end := of_nat (off + 4 * regs_num sz)\<rparr>) \<and>
    length wm = length (write_mask c) \<and> (\<forall>j. off \<le> j \<and> j < off + sz \<longrightarrow> wm ! j = 0)"
proof -
  let ?o = off
  let ?c = "c\<lparr>pc_config := with_cap i ?o (pc_config c)\<rparr>"
  have o: "64 \<le> ?o" "?o mod 4 = 0" "256 \<le> length (pc_config c)" "length (write_mask c) = length (pc_config c)"
    using assms(1) off by (auto simp: caps_ok_def)
  note n = regs_num_cover [OF o(2) assms(3)]
  have first: "all_ops [set_config ?o i, \<lambda>c. set_config (?o + NEXT_CAP_OFFSET) (pc_config c ! CAP_LIST) c,
      set_config CAP_LIST (of_nat ?o), \<lambda>c. set_config STATUS (pc_config c ! STATUS OR STATUS_CAP_LIST) c] c = (Inr (), ?c)"
    using o assms(2,3) by (simp add: all_ops_def set_config_def with_cap_def pci_offsets Let_def)
  obtain wm where wm: "all_ops (replicate (regs_num sz) protect_cap_reg) ?c = (Inr (), ?c\<lparr>write_mask := wm, last_cap_end := of_nat (?o + 4 * regs_num sz)\<rparr>)"
      "length wm = length (write_mask c)" "\<And>j. wm ! j = (if ?o \<le> j \<and> j < ?o + 4 * regs_num sz then 0 else write_mask c ! j)"
    using protect_cap_regs [of ?c "regs_num sz"] o n off by auto
  have "add_pci_cap i sz c = (Inr ?o, ?c\<lparr>write_mask := wm, last_cap_end := of_nat (?o + 4 * regs_num sz)\<rparr>)"
    using assms(3) by (simp add: add_pci_cap_def Let_def sm_bind_def off all_ops_append first wm(1) PCI_CONFIG_SPACE_SIZE_def del: append_Cons)
  then show ?thesis using wm(2,3) n(1) by (intro exI [of _ wm]) auto
qed

section \<open>Property\<close>

text \<open>
  C27. Adding a capability that fits succeeds: it becomes the first of the list and is found at
  its offset, the capabilities added before are found where they were, and all
  registers of the new one are read-only.
\<close>

theorem add_pci_cap_found:
  assumes "caps_ok c xs" and "2 \<le> sz" and "unat (last_cap_end c) + sz \<le> 256"
  shows "\<exists>off c'. add_pci_cap i sz c = (Inr off, c') \<and> caps_ok c' (of_nat off # xs) \<and> find_pci_cap i c' = Inr off \<and>
    (\<forall>k. k \<noteq> i \<longrightarrow> xs \<noteq> [] \<longrightarrow> find_pci_cap k c' = find_pci_cap k c) \<and> (\<forall>j. off \<le> j \<and> j < off + sz \<longrightarrow> write_mask c' ! j = 0)"
proof -
  obtain off where off: "unat (last_cap_end c) = off" by simp
  let ?o = off
  obtain wm where run: "add_pci_cap i sz c = (Inr ?o, c\<lparr>pc_config := with_cap i ?o (pc_config c), write_mask := wm,
        last_cap_end := of_nat (?o + 4 * regs_num sz)\<rparr>)" (is "_ = (_, ?c)")
      and wm: "length wm = length (write_mask c)" "\<forall>j. ?o \<le> j \<and> j < ?o + sz \<longrightarrow> wm ! j = 0"
    using add_pci_cap_run [OF assms(1,2) _ off, of i] assms(3) off by blast
  have o: "64 \<le> ?o" "?o mod 4 = 0" "256 \<le> length (pc_config c)" "length (write_mask c) = length (pc_config c)"
      and xs: "cap_chain (pc_config c) (pc_config c ! CAP_LIST) xs" "distinct xs" "\<And>x. x \<in> set xs \<Longrightarrow> 64 \<le> unat x \<and> unat x + 2 \<le> ?o"
    using assms(1) off by (auto simp: caps_ok_def)
  have fit: "off + sz \<le> 256" using assms(3) off by simp
  note n = regs_num_cover [OF o(2) fit]
  have u: "unat (of_nat ?o :: u8) = ?o" using assms(2) fit by (simp add: unat_of_nat take_bit_nat_eq_self)
  have u16: "k \<le> 256 \<Longrightarrow> unat (of_nat k :: u16) = k" for k by (simp add: unat_of_nat take_bit_nat_eq_self)
  note e = u16 [OF n(2)]
  have w: "length (with_cap i ?o (pc_config c)) = length (pc_config c)" "with_cap i ?o (pc_config c) ! ?o = i"
      "with_cap i ?o (pc_config c) ! (?o + 1) = pc_config c ! CAP_LIST" "with_cap i ?o (pc_config c) ! CAP_LIST = of_nat ?o"
      "\<And>j. 64 \<le> j \<Longrightarrow> j < ?o \<Longrightarrow> with_cap i ?o (pc_config c) ! j = pc_config c ! j"
    using with_cap_nth [where off = off and cfg = "pc_config c" and i = i] o assms(2) fit by auto
  have old: "with_cap i ?o (pc_config c) ! unat x = pc_config c ! unat x" "with_cap i ?o (pc_config c) ! (unat x + 1) = pc_config c ! (unat x + 1)"
    if "x \<in> set xs" for x using w(5) xs(3) [OF that] by auto
  have "of_nat ?o \<noteq> (0 :: u8)" using u o(1) by (metis not_numeral_le_zero unat_0)
  moreover have "of_nat ?o \<notin> set xs" using u xs(3) by fastforce
  moreover have "?o + 2 \<le> ?o + 4 * regs_num sz" using n assms(2) by linarith
  moreover have "(?o + 4 * regs_num sz) mod 4 = 0" using o(2) by simp
  moreover have "cap_chain (with_cap i ?o (pc_config c)) (pc_config c ! CAP_LIST) xs" using cap_chain_cong [OF xs(1)] old(2) by blast
  moreover have "64 \<le> unat x \<and> unat x + 2 \<le> ?o + 4 * regs_num sz" if "x \<in> set xs" for x using xs(3) [OF that] by simp
  ultimately have ok: "caps_ok ?c (of_nat ?o # xs)"
    using o w wm(1) u e n xs by (auto simp: caps_ok_def)
  have find: "find_pci_cap k ?c = Inr (case find (\<lambda>y. with_cap i ?o (pc_config c) ! unat y = k) (of_nat ?o # xs) of Some y \<Rightarrow> unat y | None \<Rightarrow> 0xff)" for k
    using find_pci_cap_chain [OF ok, of k] by simp
  have "find_pci_cap i ?c = Inr ?o" unfolding find using w(2) u by simp
  moreover have "find_pci_cap k ?c = find_pci_cap k c" if k: "k \<noteq> i" and ne: "xs \<noteq> []" for k
  proof -
    obtain y ys where y: "xs = y # ys" using ne by (cases xs) auto
    have "find (\<lambda>y. with_cap i ?o (pc_config c) ! unat y = k) xs = find (\<lambda>y. pc_config c ! unat y = k) xs"
      using old(1) by (intro find_cong) auto
    then show ?thesis using find_pci_cap_chain [of c y ys k] assms(1) y k w(2) u unfolding find by simp
  qed
  ultimately show ?thesis using run ok wm(2) by (intro exI [of _ ?o] exI [of _ ?c]) auto
qed

theorem add_pci_cap_found_witness:
  "\<exists>off c'. add_pci_cap 0x11 12 (new_pci_config 256 2 :: unit pci_config) = (Inr off, c') \<and> find_pci_cap 0x11 c' = Inr off"
proof -
  have ok: "caps_ok (new_pci_config 256 2 :: unit pci_config) []" by (simp add: caps_ok_def new_pci_config_def pci_offsets)
  show ?thesis using add_pci_cap_found [OF ok, where sz = 12 and i = "0x11"]
    by (auto simp: new_pci_config_def pci_offsets)
qed

end
