(* ===== verification/PciConfigSafety.thy ===== *)
theory PciConfigSafety
  imports PciConfig
begin

text \<open>
  Properties of the configuration space: the guest can change writable bits only, added
  capabilities are found, and the BARs are mapped where their registers say.
\<close>

section \<open>Register bits\<close>

lemma write_bytes_other [simp]:
  "write_mask (write_bytes off ds c) = write_mask c" "write_clear_mask (write_bytes off ds c) = write_clear_mask c"
  "pc_bars (write_bytes off ds c) = pc_bars c" "pc_msix (write_bytes off ds c) = pc_msix c" "pc_intx (write_bytes off ds c) = pc_intx c"
  "length (pc_config (write_bytes off ds c)) = length (pc_config c)"
  by (induction off ds c rule: write_bytes.induct) simp_all

lemma write_bytes_nth:
  assumes "off + length ds \<le> length (pc_config c)"
  shows "pc_config (write_bytes off ds c) ! i =
    (if off \<le> i \<and> i < off + length ds then masked_byte (pc_config c ! i) (write_mask c ! i) (write_clear_mask c ! i) (ds ! (i - off))
     else pc_config c ! i)"
  using assms
proof (induction off ds c rule: write_bytes.induct)
  case (2 off d ds c)
  consider "i = off" | "i < off \<or> off + Suc (length ds) \<le> i" | "off < i" "i < off + Suc (length ds)" by linarith
  then show ?case
  proof cases
    case 3
    then have "i - off = Suc (i - Suc off)" by simp
    then show ?thesis using 2 3 by simp
  qed (use 2 in auto)
qed auto

lemma bit_masked_byte:
  "bit (masked_byte old wm wcm d) k \<longleftrightarrow>
     k < 8 \<and> (if bit wm k then bit d k else bit old k) \<and> \<not> (bit d k \<and> bit wcm k)"
  using bit_imp_le_length [of old k] bit_imp_le_length [of d k]
  by (auto simp: masked_byte_def bit_and_iff bit_or_iff bit_not_iff)

text \<open>The parts of the state the other steps of a write leave alone.\<close>

definition same_regs :: "'r pci_config \<Rightarrow> 'r pci_config \<Rightarrow> bool" where
  "same_regs c c' \<longleftrightarrow> pc_config c' = pc_config c \<and> write_mask c' = write_mask c \<and> write_clear_mask c' = write_clear_mask c \<and>
     map b_type (pc_bars c') = map b_type (pc_bars c)"

lemma same_regs_trans: "same_regs a b \<Longrightarrow> same_regs b c \<Longrightarrow> same_regs a c"
  by (simp add: same_regs_def)

lemma set_bar_regs [simp]: "(\<And>b. b_type (f b) = b_type b) \<Longrightarrow> same_regs c (set_bar i f c)" "same_regs c c"
  by (cases "i < length (pc_bars c)") (auto simp: same_regs_def set_bar_def map_update list_update_beyond list_update_same_conv)

lemma unmap_bar_regs: "same_regs (fst cs) (fst (snd (unmap_bar B i cs)))"
  by (cases cs) (auto simp: unmap_bar_def Let_def split: option.splits prod.splits sum.splits)

lemma map_bar_regs: "same_regs (fst cs) (fst (snd (map_bar B i p a cs)))"
  by (cases cs) (auto simp: map_bar_def split: option.splits prod.splits sum.splits)

lemma update_bar_regs: "same_regs (fst cs) (fst (snd (update_bar B io mem i cs)))"
proof -
  have "same_regs (fst cs) (fst (snd (sm_bind (unmap_bar B i) f cs)))"
    if "\<And>x cs1. same_regs (fst cs1) (fst (snd (f x cs1)))" for f :: "unit \<Rightarrow> 'a pci_config \<times> 'b \<Rightarrow> (pci_error + bool) \<times> 'a pci_config \<times> 'b"
    using unmap_bar_regs [of cs B i] that by (auto simp: sm_bind_def split: prod.splits sum.splits intro: same_regs_trans)
  moreover have "same_regs (fst cs1) (fst (snd (sm_bind (map_bar B i p a) (\<lambda>_ cs2. (Inr True, cs2)) cs1)))" for p a and cs1 :: "'a pci_config \<times> 'b"
    using map_bar_regs [of cs1 B i p a] by (auto simp: sm_bind_def split: prod.splits sum.splits)
  ultimately show ?thesis
    by (cases cs) (auto simp: update_bar_def Let_def split: sum.split option.split)
qed

lemma update_bars_regs: "same_regs (fst cs) (fst (snd (update_bars B io mem is cs)))"
proof (induction "is" arbitrary: cs)
  case (Cons i "is")
  then show ?case
    using update_bar_regs [of cs B io mem i] by (auto split: prod.splits sum.splits bool.splits intro: same_regs_trans)
qed simp

lemma remap_regs: "remap B io mem w = Inr w' \<Longrightarrow> same_regs (w_cfg w) (w_cfg w')"
  using update_bars_regs [of "(w_cfg w, w_space w)" B io mem "[0..<length (pc_bars (w_cfg w))]"]
  by (auto simp: remap_def update_bar_mapping_def split: prod.splits sum.splits pci_error.splits)

lemma write_command_regs: "write_command w = Inr w' \<Longrightarrow> same_regs (w_cfg w) (w_cfg w')"
  by (auto simp: write_command_def and_then_Inr same_regs_def split: option.splits prod.splits)

lemma write_msix_regs: "write_msix dev off len w = Inr w' \<Longrightarrow> same_regs (w_cfg w) (w_cfg w')"
  by (auto simp: write_msix_def and_then_Inr same_regs_def split: option.splits prod.splits if_splits)

lemma pci_write_regs:
  assumes "pci_write B off data dev io mem w = Inr w'" and "validate_config_boundary off (length data) (w_cfg w)"
  shows "same_regs (write_bytes off data (w_cfg w)) (w_cfg w')"
proof -
  let ?w1 = "w\<lparr>w_cfg := write_bytes off data (w_cfg w)\<rparr>" and ?c = "write_bytes off data (w_cfg w)"
  have "\<not> HEADER_TYPE \<ge> length (pc_config ?c)" using assms by (auto simp: pci_write_def Let_def)
  then have "and_then (overlaps off (length data) COMMAND 1) (\<lambda>cmd.
      and_then (overlaps off (length data) BAR_0 (REG_SIZE * fst (bar_layout ?c))) (\<lambda>bar.
      and_then (overlaps off (length data) (snd (bar_layout ?c)) 4) (\<lambda>rom.
      and_then (if cmd \<or> bar \<or> rom then remap B io mem ?w1 else Inr ?w1) (\<lambda>w2.
      and_then (if cmd then write_command w2 else Inr w2) (\<lambda>w3. write_msix dev off (length data) w3))))) = Inr w'"
    using assms by (simp add: pci_write_def Let_def)
  then obtain w2 w3 cmd bar rom where
    2: "(if cmd \<or> bar \<or> rom then remap B io mem ?w1 else Inr ?w1) = Inr w2" and
    3: "(if cmd then write_command w2 else Inr w2) = Inr w3" and 4: "write_msix dev off (length data) w3 = Inr w'"
    unfolding and_then_Inr by blast
  have "same_regs (write_bytes off data (w_cfg w)) (w_cfg w2)" using 2 by (auto split: if_splits dest: remap_regs)
  moreover have "same_regs (w_cfg w2) (w_cfg w3)" using 3 by (auto split: if_splits dest: write_command_regs)
  ultimately show ?thesis using write_msix_regs [OF 4] by (blast intro: same_regs_trans)
qed

section \<open>Guest runs\<close>

text \<open>The guest reads and writes the configuration space of the device.\<close>

inductive pci_guest_step :: "('r, 's) bar_space \<Rightarrow> ('r, 's) pci_world \<Rightarrow> ('r, 's) pci_world \<Rightarrow> bool" for B where
  guest_write: "pci_write B off data dev io mem w = Inr w' \<Longrightarrow> pci_guest_step B w w'"
| guest_read: "pci_read off buf (w_cfg w) = Inr (out, c) \<Longrightarrow> pci_guest_step B w (w\<lparr>w_cfg := c\<rparr>)"

definition read_only_bit :: "'r pci_config \<Rightarrow> nat \<Rightarrow> nat \<Rightarrow> bool" where
  "read_only_bit c i k \<longleftrightarrow> \<not> bit (write_mask c ! i) k \<and> \<not> bit (write_clear_mask c ! i) k \<and> (i, k) \<noteq> (STATUS, 3)"

definition regs_kept :: "'r pci_config \<Rightarrow> 'r pci_config \<Rightarrow> bool" where
  "regs_kept c c' \<longleftrightarrow> write_mask c' = write_mask c \<and> write_clear_mask c' = write_clear_mask c \<and>
     length (pc_config c') = length (pc_config c) \<and> map b_type (pc_bars c') = map b_type (pc_bars c) \<and>
     (\<forall>i k. read_only_bit c i k \<longrightarrow> bit (pc_config c' ! i) k = bit (pc_config c ! i) k)"

lemma regs_kept_trans: "regs_kept a b \<Longrightarrow> regs_kept b c \<Longrightarrow> regs_kept a c"
  by (auto simp: regs_kept_def read_only_bit_def)

lemma write_regs_kept:
  assumes "pci_write B off data dev io mem w = Inr w'"
  shows "regs_kept (w_cfg w) (w_cfg w')"
proof (cases "validate_config_boundary off (length data) (w_cfg w)")
  case True
  then have off: "off + length data \<le> length (pc_config (w_cfg w))" by (simp add: validate_config_boundary_def)
  have "bit (pc_config (write_bytes off data (w_cfg w)) ! i) k = bit (pc_config (w_cfg w) ! i) k" if "read_only_bit (w_cfg w) i k" for i k
    using that bit_imp_le_length [of "pc_config (w_cfg w) ! i" k]
    by (auto simp: write_bytes_nth [OF off] bit_masked_byte read_only_bit_def)
  then show ?thesis using pci_write_regs [OF assms True] by (simp add: same_regs_def regs_kept_def)
next
  case False
  then show ?thesis using assms by (simp add: pci_write_def regs_kept_def)
qed

lemma bit_status_interrupt: "bit STATUS_INTERRUPT k \<longleftrightarrow> k = 3"
proof -
  have e: "STATUS_INTERRUPT = push_bit 3 1" by (simp add: STATUS_INTERRUPT_def)
  show ?thesis unfolding e bit_push_bit_iff bit_1_iff by auto
qed

lemma read_regs_kept:
  assumes "pci_read off buf c = Inr (out, c')"
  shows "regs_kept c c'"
proof -
  let ?upd = "\<lambda>b. (pc_config c)[STATUS := if b then pc_config c ! STATUS OR STATUS_INTERRUPT else pc_config c ! STATUS AND NOT STATUS_INTERRUPT]"
  have "bit (x OR STATUS_INTERRUPT) k = bit x k" "bit (x AND NOT STATUS_INTERRUPT) k = bit x k" if "k \<noteq> 3" for x :: u8 and k
    using that bit_imp_le_length [of x k] by (auto simp: bit_or_iff bit_and_iff bit_not_iff bit_status_interrupt)
  then have upd: "bit (?upd b ! i) k = bit (pc_config c ! i) k" if "(i, k) \<noteq> (STATUS, 3)" for i k b
    using that by (cases "i = STATUS"; cases "STATUS < length (pc_config c)") (auto simp: list_update_beyond)
  have "c' = c \<or> (\<exists>b. c' = c\<lparr>pc_config := ?upd b\<rparr>)"
  proof (cases "validate_config_boundary off (length buf) c")
    case True
    then obtain st where "overlaps off (length buf) STATUS 1 = Inr st" using assms by (cases "overlaps off (length buf) STATUS 1") (auto simp: pci_read_def)
    then have c': "c' = (case pc_intx c of Some d \<Rightarrow> if st then c\<lparr>pc_config := ?upd (int_level d = 1)\<rparr> else c | None \<Rightarrow> c)"
      using assms True by (simp add: pci_read_def Let_def)
    show ?thesis
    proof (cases "pc_intx c")
      case (Some d)
      then show ?thesis using c' by (cases st) (simp, blast, simp)
    qed (use c' in simp)
  qed (use assms in \<open>simp add: pci_read_def\<close>)
  then show ?thesis
  proof
    assume "\<exists>b. c' = c\<lparr>pc_config := ?upd b\<rparr>"
    then obtain b where c': "c' = c\<lparr>pc_config := ?upd b\<rparr>" by blast
    have "read_only_bit c i k \<Longrightarrow> bit (?upd b ! i) k = bit (pc_config c ! i) k" for i k by (rule upd) (simp add: read_only_bit_def)
    then show ?thesis unfolding c' regs_kept_def by simp
  qed (simp add: regs_kept_def)
qed

lemma guest_run_kept:
  assumes "(pci_guest_step B)\<^sup>*\<^sup>* w w'"
  shows "regs_kept (w_cfg w) (w_cfg w')"
  using assms
proof (induction rule: rtranclp_induct)
  case base
  then show ?case by (simp add: regs_kept_def)
next
  case (step v v')
  from step(2) have "regs_kept (w_cfg v) (w_cfg v')"
  proof (cases rule: pci_guest_step.cases)
    case (guest_write off data dev io mem)
    then show ?thesis by (rule write_regs_kept)
  next
    case (guest_read off buf out c)
    then show ?thesis using read_regs_kept by simp
  qed
  with step(3) show ?case by (rule regs_kept_trans)
qed

section \<open>Properties of the registers\<close>

text \<open>
  C14. Whatever the guest reads and writes in the configuration space of a device, bits that are
  neither writable nor write-one-to-clear keep their value (except the interrupt status bit, which
  the device shows there), and the masks do not change.
\<close>

theorem guest_keeps_read_only:
  assumes "(pci_guest_step B)\<^sup>*\<^sup>* w w'"
  shows "write_mask (w_cfg w') = write_mask (w_cfg w) \<and> write_clear_mask (w_cfg w') = write_clear_mask (w_cfg w) \<and>
    (\<forall>i k. \<not> bit (write_mask (w_cfg w) ! i) k \<and> \<not> bit (write_clear_mask (w_cfg w) ! i) k \<and> (i, k) \<noteq> (STATUS, 3) \<longrightarrow>
       bit (pc_config (w_cfg w') ! i) k = bit (pc_config (w_cfg w) ! i) k)"
  using guest_run_kept [OF assms] by (auto simp: regs_kept_def read_only_bit_def)

definition example_world :: "(nat, unit) pci_world" where
  "example_world =
     \<lparr>w_cfg = (new_pci_config 64 0)\<lparr>write_mask := (replicate 64 0)[INTERRUPT_LINE := 0xff]\<rparr>, w_lines = new_intx_state 0, w_space = ()\<rparr>"

definition no_space :: "(nat, unit) bar_space" where
  "no_space = \<lparr>bs_add = (\<lambda>_ _ _ s. (Inr (), s)), bs_delete = (\<lambda>_ _ s. (Inr (), s))\<rparr>"

theorem guest_keeps_read_only_witness:
  "\<exists>w'. pci_write no_space 0x3c [7, 7] 0 None None example_world = Inr w' \<and>
     pc_config (w_cfg w') ! 0x3c = 7 \<and> \<not> bit (pc_config (w_cfg w') ! 0x3d) 0"
proof -
  let ?c = "w_cfg example_world" and ?w' = "example_world\<lparr>w_cfg := write_bytes 0x3c [7, 7] (w_cfg example_world)\<rparr>"
  have v: "validate_config_boundary 60 (length [7 :: u8, 7]) ?c" "\<not> HEADER_TYPE \<ge> length (pc_config ?c)"
    "pc_msix ?c = None"
    by (simp_all add: validate_config_boundary_def example_world_def new_pci_config_def HEADER_TYPE_def)
  have "write_bytes 60 [7, 7] ?c = ?c\<lparr>pc_config := (replicate 64 0)[60 := 7]\<rparr>"
    by (simp add: example_world_def new_pci_config_def INTERRUPT_LINE_def masked_byte_def numeral_eq_Suc)
  then have l: "bar_layout (write_bytes 60 [7, 7] ?c) = (6, 0x30)"
    by (simp add: bar_layout_def HEADER_TYPE_def HEADER_TYPE_BRIDGE_def pci_offsets)
  have o: "overlaps 60 (Suc (Suc 0)) COMMAND (Suc 0) = Inr False" "overlaps 60 (Suc (Suc 0)) BAR_0 (REG_SIZE * 6) = Inr False"
    "overlaps 60 (Suc (Suc 0)) 0x30 4 = Inr False"
    by (simp_all add: overlaps_def ranges_overlap_def checked_add_def pci_offsets)
  have w: "pci_write no_space 0x3c [7, 7] 0 None None example_world = Inr ?w'"
    using v by (simp add: pci_write_def Let_def l o write_msix_def del: write_bytes.simps)
  have c: "\<not> bit (write_mask ?c ! 0x3d) 0" "\<not> bit (write_clear_mask ?c ! 0x3d) 0" "\<not> bit (pc_config ?c ! 0x3d) 0"
    by (simp_all add: example_world_def new_pci_config_def INTERRUPT_LINE_def)
  have d: "pc_config (w_cfg ?w') ! 0x3c = 7"
    by (simp add: example_world_def new_pci_config_def INTERRUPT_LINE_def masked_byte_def)
  show ?thesis
    using guest_keeps_read_only [OF r_into_rtranclp [where r = "pci_guest_step no_space", OF guest_write [OF w]]] w c d by (auto simp: STATUS_def)
qed

end
