(* ===== verification/PciBars.thy ===== *)
theory PciBars
  imports PciConfigSafety FlatLookup
begin

text \<open>
  The base address registers of a device and the regions they are mapped to. The record of a BAR
  says where its region is mapped; a locale names what the mapping relies on of the tree of
  regions, and the regions of the address space provide it.
\<close>

text \<open>The address in the registers of a BAR depends on the registers and the kind of the BAR.\<close>

lemma get_bar_address_cong:
  assumes "pc_config c' = pc_config c" and "map b_type (pc_bars c') = map b_type (pc_bars c)"
  shows "get_bar_address i c' = get_bar_address i c"
proof -
  have l: "length (pc_bars c') = length (pc_bars c)" using assms(2) by (rule map_eq_imp_length_eq)
  show ?thesis
  proof (cases "i < length (pc_bars c)")
    case True
    then have "b_type (pc_bars c' ! i) = b_type (pc_bars c ! i)" using assms(2) l by (metis nth_map)
    then show ?thesis unfolding get_bar_address_def Let_def assms(1) l by (rule ssubst) (rule refl)
  next
    case False
    then have "(length (pc_bars c) \<le> i) = True" by simp
    then show ?thesis unfolding get_bar_address_def Let_def assms(1) l by (simp only: if_True)
  qed
qed

text \<open>
  The record of a BAR agrees with the tree of regions: the BAR's region is mapped at the recorded
  address of the recorded parent, and nowhere else. \<open>place s p r\<close> is the offset of \<open>r\<close> inside its
  parent \<open>p\<close>, if it is there; \<open>ps\<close> are the regions of the bus.
\<close>

definition bar_agrees :: "('s \<Rightarrow> 'r \<Rightarrow> 'r \<Rightarrow> u64 option) \<Rightarrow> 'r set \<Rightarrow> 's \<Rightarrow> 'r bar \<Rightarrow> bool" where
  "bar_agrees place ps s b \<longleftrightarrow> b_size b \<noteq> 0 \<longrightarrow>
     (\<exists>r. b_region b = Some r \<and> r \<notin> ps \<and> (b_address b \<noteq> BAR_SPACE_UNMAPPED \<longrightarrow> bar_parent b \<noteq> None) \<and>
       (\<forall>p. place s p r = (if b_address b \<noteq> BAR_SPACE_UNMAPPED \<and> bar_parent b = Some p then Some (b_address b) else None)))"

definition bars_agree :: "('s \<Rightarrow> 'r \<Rightarrow> 'r \<Rightarrow> u64 option) \<Rightarrow> ('s \<Rightarrow> bool) \<Rightarrow> 'r set \<Rightarrow> 'r bar list \<Rightarrow> 's \<Rightarrow> bool" where
  "bars_agree place ok ps bs s \<longleftrightarrow> ok s \<and> (\<forall>i < length bs. bar_agrees place ps s (bs ! i)) \<and>
     (\<forall>i < length bs. \<forall>j < length bs. i \<noteq> j \<longrightarrow> b_size (bs ! i) \<noteq> 0 \<longrightarrow> b_size (bs ! j) \<noteq> 0 \<longrightarrow> b_region (bs ! i) \<noteq> b_region (bs ! j))"

section \<open>What the mapping needs of the tree of regions\<close>

text \<open>
  An operation that fails changes nothing; adding or removing a region keeps all others where
  they are.
\<close>

locale bar_tree =
  fixes B :: "('r, 's) bar_space" and offset_in :: "'s \<Rightarrow> 'r \<Rightarrow> 'r \<Rightarrow> u64 option" and tree_ok :: "'s \<Rightarrow> bool"
  assumes add_fails: "bs_add B p r a s = (Inl e, s') \<Longrightarrow> s' = s"
    and delete_fails: "bs_delete B p r s = (Inl e, s') \<Longrightarrow> s' = s"
    and add_maps: "bs_add B p r a s = (Inr u, s') \<Longrightarrow> tree_ok s \<Longrightarrow> p \<noteq> r \<Longrightarrow> (\<And>q. offset_in s q r = None) \<Longrightarrow>
      tree_ok s' \<and> offset_in s' = (\<lambda>q x. if q = p \<and> x = r then Some a else offset_in s q x)"
    and delete_unmaps: "bs_delete B p r s = (Inr u, s') \<Longrightarrow> tree_ok s \<Longrightarrow>
      tree_ok s' \<and> offset_in s' = (\<lambda>q x. if q = p \<and> x = r then None else offset_in s q x)"
begin

text \<open>Changing the record of one BAR and the place of its region.\<close>

lemma bars_agree_update:
  assumes "bars_agree offset_in tree_ok ps bs s" and "i < length bs" and "b_size (bs ! i) \<noteq> 0" and "b_region (bs ! i) = Some r"
    and "b_size b = b_size (bs ! i)" and "b_region b = Some r" and "tree_ok s'" and "bar_agrees offset_in ps s' b"
    and "\<And>p x. x \<noteq> r \<Longrightarrow> offset_in s' p x = offset_in s p x"
  shows "bars_agree offset_in tree_ok ps (bs[i := b]) s'"
proof -
  have other: "b_region (bs ! j) \<noteq> Some r" if "j < length bs" "j \<noteq> i" "b_size (bs ! j) \<noteq> 0" for j
    using assms(1-4) that unfolding bars_agree_def by metis
  have "bar_agrees offset_in ps s' (bs ! j)" if "j < length bs" "j \<noteq> i" for j
  proof -
    have "bar_agrees offset_in ps s (bs ! j)" using assms(1) that by (simp add: bars_agree_def)
    moreover have "b_size (bs ! j) \<noteq> 0 \<Longrightarrow> b_region (bs ! j) = Some x \<Longrightarrow> offset_in s' p x = offset_in s p x" for p x
      using assms(9) [of x p] other [of j] that by auto
    ultimately show ?thesis unfolding bar_agrees_def by metis
  qed
  then show ?thesis using assms other by (auto simp: bars_agree_def nth_list_update)
qed

lemma unmap_bar_agree:
  assumes "unmap_bar B i (c, s) = (res, c', s')" and "bars_agree offset_in tree_ok ps (pc_bars c) s" and "i < length (pc_bars c)"
    and "b_size (pc_bars c ! i) \<noteq> 0"
  shows "bars_agree offset_in tree_ok ps (pc_bars c') s' \<and> (\<exists>a. pc_bars c' = (pc_bars c)[i := (pc_bars c ! i)\<lparr>b_address := a\<rparr>] \<and>
    (\<forall>u. res = Inr u \<longrightarrow> a = BAR_SPACE_UNMAPPED))"
proof -
  let ?b = "pc_bars c ! i"
  obtain r where r: "b_region ?b = Some r" "r \<notin> ps" "b_address ?b \<noteq> BAR_SPACE_UNMAPPED \<longrightarrow> bar_parent ?b \<noteq> None"
    "\<And>p. offset_in s p r = (if b_address ?b \<noteq> BAR_SPACE_UNMAPPED \<and> bar_parent ?b = Some p then Some (b_address ?b) else None)"
    using assms by (auto simp: bars_agree_def bar_agrees_def)
  have self: "pc_bars c = (pc_bars c)[i := ?b\<lparr>b_address := b_address ?b\<rparr>]" by simp
  show ?thesis
  proof (cases "b_address ?b = BAR_SPACE_UNMAPPED")
    case True
    then have "c' = c" "s' = s" using assms(1) by (auto simp: unmap_bar_def)
    then show ?thesis using assms(2) True self by metis
  next
    case False
    then obtain p where p: "bar_parent ?b = Some p" using r(3) by auto
    show ?thesis
    proof (cases "bs_delete B p r s")
      case (Pair d s1)
      show ?thesis
      proof (cases d)
        case (Inl e)
        then have "c' = c" "s' = s" "\<exists>e. res = Inl e" using assms(1) False p r(1) Pair delete_fails [of p r s] by (auto simp: unmap_bar_def)
        then show ?thesis using assms(2) self by blast
      next
        case (Inr u)
        let ?n = "?b\<lparr>b_address := BAR_SPACE_UNMAPPED\<rparr>"
        have c': "c' = set_bar i (\<lambda>b. b\<lparr>b_address := BAR_SPACE_UNMAPPED\<rparr>) c" "s' = s1"
          using assms(1) False p r(1) Pair Inr by (auto simp: unmap_bar_def)
        have t: "tree_ok s1" "offset_in s1 = (\<lambda>q x. if q = p \<and> x = r then None else offset_in s q x)"
          using delete_unmaps [of p r s u s1] Pair Inr assms(2) by (auto simp: bars_agree_def)
        have "bars_agree offset_in tree_ok ps ((pc_bars c)[i := ?n]) s1"
          using assms(2-4) r(1) t by (rule_tac bars_agree_update [where s = s and r = r])
            (auto simp: bar_agrees_def r p)
        then show ?thesis unfolding c' set_bar_def by auto
      qed
    qed
  qed
qed

lemma map_bar_agree:
  assumes "map_bar B i p a (c, s) = (res, c', s')" and "bars_agree offset_in tree_ok ps (pc_bars c) s" and "i < length (pc_bars c)"
    and "b_size (pc_bars c ! i) \<noteq> 0" and "b_address (pc_bars c ! i) = BAR_SPACE_UNMAPPED" and "p \<in> ps"
    and "a \<noteq> BAR_SPACE_UNMAPPED"
  shows "bars_agree offset_in tree_ok ps (pc_bars c') s' \<and> (\<exists>b. pc_bars c' = (pc_bars c)[i := b] \<and> b_size b = b_size (pc_bars c ! i) \<and>
    b_type b = b_type (pc_bars c ! i) \<and> b_region b = b_region (pc_bars c ! i) \<and> (\<forall>u. res = Inr u \<longrightarrow> b_address b = a))"
proof -
  let ?b = "pc_bars c ! i"
  obtain r where r: "b_region ?b = Some r" "r \<notin> ps" "\<And>p. offset_in s p r = None"
    using assms by (auto simp: bars_agree_def bar_agrees_def)
  show ?thesis
  proof (cases "bs_add B p r a s")
    case (Pair d s1)
    show ?thesis
    proof (cases d)
      case (Inl e)
      then have "c' = c" "s' = s" "\<exists>e. res = Inl e" using assms(1) r(1) Pair add_fails [of p r a s] by (auto simp: map_bar_def)
      then show ?thesis using assms(2) by (auto intro!: exI [of _ ?b])
    next
      case (Inr u)
      define n where "n = (if b_type ?b = Io then ?b\<lparr>parent_io_region := Some p\<rparr> else ?b\<lparr>parent_mem_region := Some p\<rparr>)\<lparr>b_address := a\<rparr>"
      have n: "b_size n = b_size ?b" "b_type n = b_type ?b" "b_region n = Some r" "b_address n = a" "bar_parent n = Some p"
        using r(1) by (auto simp: n_def bar_parent_def)
      have c': "pc_bars c' = (pc_bars c)[i := n]" "s' = s1"
        using assms(1) r(1) Pair Inr by (auto simp: map_bar_def set_bar_def n_def)
      have t: "tree_ok s1" "offset_in s1 = (\<lambda>q x. if q = p \<and> x = r then Some a else offset_in s q x)"
        using add_maps [of p r a s u s1] Pair Inr assms(2,6) r by (auto simp: bars_agree_def)
      have "bars_agree offset_in tree_ok ps ((pc_bars c)[i := n]) s1"
        using assms(2-4,7) r t n by (rule_tac bars_agree_update [where s = s and r = r]) (auto simp: bar_agrees_def)
      then show ?thesis unfolding c' using n r(1) by auto
    qed
  qed
qed

lemma update_bar_agree:
  assumes "update_bar B (Some io) (Some mem) i (c, s) = (res, c', s')" and "bars_agree offset_in tree_ok {io, mem} (pc_bars c) s" and "i < length (pc_bars c)"
  shows "bars_agree offset_in tree_ok {io, mem} (pc_bars c') s' \<and> res \<noteq> Inr False \<and> (\<exists>b. pc_bars c' = (pc_bars c)[i := b] \<and>
    b_size b = b_size (pc_bars c ! i) \<and> b_type b = b_type (pc_bars c ! i) \<and> b_region b = b_region (pc_bars c ! i) \<and>
    (res = Inr True \<longrightarrow> b_size b \<noteq> 0 \<longrightarrow> get_bar_address i c = Inr (b_address b)))"
proof (cases "b_size (pc_bars c ! i) = 0 \<or> (\<exists>p. get_bar_address i c = Inl p) \<or> get_bar_address i c = Inr (b_address (pc_bars c ! i))")
  case True
  then have "c' = c \<and> s' = s \<and> (res = Inr True \<or> (\<exists>p. res = Inl p))" using assms(1)
    by (elim disjE exE) (auto simp: update_bar_def Let_def split: if_splits sum.splits)
  then show ?thesis using assms True by (auto simp: update_bar_def Let_def intro!: exI [of _ "pc_bars c ! i"])
next
  case False
  then obtain a where a: "get_bar_address i c = Inr a" "b_address (pc_bars c ! i) \<noteq> a" "b_size (pc_bars c ! i) \<noteq> 0"
    by (cases "get_bar_address i c") auto
  obtain r1 c1 s1 where 1: "unmap_bar B i (c, s) = (r1, c1, s1)" by (cases "unmap_bar B i (c, s)") auto
  obtain a1 where u: "bars_agree offset_in tree_ok {io, mem} (pc_bars c1) s1" "pc_bars c1 = (pc_bars c)[i := (pc_bars c ! i)\<lparr>b_address := a1\<rparr>]"
    "\<And>u. r1 = Inr u \<Longrightarrow> a1 = BAR_SPACE_UNMAPPED"
    using unmap_bar_agree [OF 1 assms(2,3) a(3)] by blast
  show ?thesis
  proof (cases "(\<exists>e. r1 = Inl e) \<or> a = BAR_SPACE_UNMAPPED")
    case True
    then have "c' = c1" "s' = s1" "res = (case r1 of Inl e \<Rightarrow> Inl e | Inr _ \<Rightarrow> Inr True)"
      using assms(1) a 1 by (auto simp: update_bar_def sm_bind_def is_bar_region_empty_def Let_def split: if_splits sum.splits)
    then show ?thesis using u True a(1) by (auto split: sum.splits)
  next
    case False
    then obtain u0 where "r1 = Inr u0" by (cases r1) auto
    then have a1: "a1 = BAR_SPACE_UNMAPPED" "r1 = Inr u0" using u(3) by auto
    define p where "p = (if b_type (pc_bars c ! i) = Io then io else mem)"
    obtain r2 c2 s2 where 2: "map_bar B i p a (c1, s1) = (r2, c2, s2)" by (cases "map_bar B i p a (c1, s1)") auto
    have res: "c' = c2" "s' = s2" "res = (case r2 of Inl e \<Rightarrow> Inl e | Inr _ \<Rightarrow> Inr True)"
      using assms(1) a 1 2 a1 False unfolding p_def
      by (auto simp: update_bar_def sm_bind_def is_bar_region_empty_def Let_def split: if_splits sum.splits)
    have i: "i < length (pc_bars c1)" "b_size (pc_bars c1 ! i) \<noteq> 0" "b_address (pc_bars c1 ! i) = BAR_SPACE_UNMAPPED" "p \<in> {io, mem}"
      using u(2) a1 assms(3) a(3) by (auto simp: p_def)
    show ?thesis using map_bar_agree [OF 2 u(1) i] False u(2) res a(1) assms(3) by (auto split: sum.splits)
  qed
qed

lemma update_bars_agree:
  assumes "update_bars B (Some io) (Some mem) is (c, s) = (res, c', s')" and "bars_agree offset_in tree_ok {io, mem} (pc_bars c) s"
    and "\<forall>i \<in> set is. i < length (pc_bars c)" and "distinct is"
  shows "bars_agree offset_in tree_ok {io, mem} (pc_bars c') s' \<and> length (pc_bars c') = length (pc_bars c) \<and>
    (\<forall>i. i \<notin> set is \<longrightarrow> pc_bars c' ! i = pc_bars c ! i) \<and> (res = Inr () \<longrightarrow>
      (\<forall>i \<in> set is. b_size (pc_bars c' ! i) \<noteq> 0 \<longrightarrow> get_bar_address i c' = Inr (b_address (pc_bars c' ! i))))"
  using assms
proof (induction "is" arbitrary: c s)
  case (Cons i "is")
  obtain r1 c1 s1 where 1: "update_bar B (Some io) (Some mem) i (c, s) = (r1, c1, s1)" by (cases "update_bar B (Some io) (Some mem) i (c, s)") auto
  obtain b where u: "bars_agree offset_in tree_ok {io, mem} (pc_bars c1) s1" "r1 \<noteq> Inr False" "pc_bars c1 = (pc_bars c)[i := b]"
    "r1 = Inr True \<Longrightarrow> b_size b \<noteq> 0 \<Longrightarrow> get_bar_address i c = Inr (b_address b)"
    using update_bar_agree [OF 1 Cons.prems(2)] Cons.prems(3) by (metis list.set_intros(1))
  show ?case
  proof (cases r1)
    case (Inl e)
    then have "c' = c1" "s' = s1" "res = Inl e" using Cons.prems(1) 1 by auto
    then show ?thesis using u by auto
  next
    case (Inr ok)
    then have ok: "r1 = Inr True" using u(2) by (cases ok) auto
    have 2: "update_bars B (Some io) (Some mem) is (c1, s1) = (res, c', s')" using Cons.prems(1) 1 ok by simp
    have p: "\<forall>i \<in> set is. i < length (pc_bars c1)" "distinct is" "i \<notin> set is" using Cons.prems(3,4) u(3) by auto
    have "same_regs c c'" using update_bars_regs [of "(c, s)" B "Some io" "Some mem" "i # is"] Cons.prems(1) by simp
    then have a: "get_bar_address i c' = get_bar_address i c" by (intro get_bar_address_cong) (simp_all add: same_regs_def)
    note ih = Cons.IH [OF 2 u(1) p(1,2)]
    have "pc_bars c' ! i = b" using ih p(3) u(3) Cons.prems(3) by simp
    then show ?thesis using ih u(3) u(4) [OF ok] a by auto
  qed
qed auto

lemma update_bar_mapping_agree:
  assumes "update_bar_mapping B (Some io) (Some mem) (c, s) = (res, c', s')" and "bars_agree offset_in tree_ok {io, mem} (pc_bars c) s"
  shows "bars_agree offset_in tree_ok {io, mem} (pc_bars c') s' \<and> (res = Inr () \<longrightarrow>
    (\<forall>i < length (pc_bars c'). b_size (pc_bars c' ! i) \<noteq> 0 \<longrightarrow> get_bar_address i c' = Inr (b_address (pc_bars c' ! i))))"
  using update_bars_agree [OF assms(1) [unfolded update_bar_mapping_def] assms(2)] by simp

end

section \<open>The regions of the address space\<close>

text \<open>
  \<open>Region::add_subregion\<close> and \<open>delete_subregion\<close> change the tree and then update the topology of the
  address space, which leaves the tree as it is; the update is taken to succeed.
\<close>

definition region_space :: "(rid, 'd store) bar_space" where
  "region_space = \<lparr>bs_add = add_subregion_not_update, bs_delete = remove_subregion\<rparr>"

definition offset_in :: "'d store \<Rightarrow> rid \<Rightarrow> rid \<Rightarrow> u64 option" where
  "offset_in st p r = (if r \<in> set (r_subregions (st p)) then Some (r_offset (st r)) else None)"

definition tree_distinct :: "'d store \<Rightarrow> bool" where
  "tree_distinct st \<longleftrightarrow> (\<forall>p. distinct (r_subregions (st p)))"

lemma insert_subregion_members:
  "set (insert_subregion st c ss) = insert c (set ss)" "distinct (insert_subregion st c ss) \<longleftrightarrow> c \<notin> set ss \<and> distinct ss"
  by (induction ss) auto

lemma add_subregion_fails:
  "add_subregion_not_update p r a st = (Inl e, st') \<Longrightarrow> st' = st"
  by (auto simp: add_subregion_not_update_def Let_def split: if_splits sum.splits)

lemma remove_subregion_fails:
  "remove_subregion p r st = (Inl e, st') \<Longrightarrow> st' = st"
  by (auto simp: remove_subregion_def split: if_splits)

lemma add_subregion_places:
  assumes "add_subregion_not_update p r a st = (Inr u, st')" and "tree_distinct st" and "p \<noteq> r" and "\<And>q. offset_in st q r = None"
  shows "tree_distinct st' \<and> offset_in st' = (\<lambda>q x. if q = p \<and> x = r then Some a else offset_in st q x)"
proof -
  have r: "r \<notin> set (r_subregions (st q))" for q using assms(4) [of q] by (simp add: offset_in_def split: if_splits)
  obtain st2 where st2: "st' = st2(p := (st2 p)\<lparr>r_subregions := insert_subregion st2 r (r_subregions (st2 p))\<rparr>)"
    "\<And>x. x \<noteq> r \<Longrightarrow> st2 x = st x" "r_offset (st2 r) = a" "r_subregions (st2 r) = r_subregions (st r)"
    using assms(1,3) by (auto simp: add_subregion_not_update_def Let_def set_offset_def set_belonged_address_space_def
        split: if_splits sum.splits option.splits)
  have sub: "r_subregions (st2 x) = r_subregions (st x)" for x using st2(2,4) by (cases "x = r") auto
  have off: "r_offset (st2 x) = r_offset (st x)" if "x \<in> set (r_subregions (st q))" for q x using that r [of q] st2(2) by (metis)
  have "tree_distinct st'" using assms(2) r by (auto simp: tree_distinct_def st2(1) sub insert_subregion_members)
  moreover have "offset_in st' q x = (if q = p \<and> x = r then Some a else offset_in st q x)" for q x
    using r st2(2,3) off assms(3) by (auto simp: offset_in_def st2(1) sub insert_subregion_members)
  ultimately show ?thesis by blast
qed

lemma remove_subregion_takes:
  assumes "remove_subregion p r st = (Inr u, st')" and "tree_distinct st"
  shows "tree_distinct st' \<and> offset_in st' = (\<lambda>q x. if q = p \<and> x = r then None else offset_in st q x)"
proof -
  have st': "st' = st(p := (st p)\<lparr>r_subregions := remove1 r (r_subregions (st p))\<rparr>)"
    using assms(1) by (auto simp: remove_subregion_def split: if_splits)
  have d: "distinct (r_subregions (st q))" for q using assms(2) by (simp add: tree_distinct_def)
  then have "tree_distinct st'" by (auto simp: tree_distinct_def st')
  moreover have "offset_in st' q x = (if q = p \<and> x = r then None else offset_in st q x)" for q x
    using d by (auto simp: offset_in_def st')
  ultimately show ?thesis by blast
qed

interpretation region_tree: bar_tree region_space offset_in tree_distinct
  by unfold_locales
    (auto simp: region_space_def dest: add_subregion_fails remove_subregion_fails add_subregion_places remove_subregion_takes)

section \<open>The mapping follows the registers\<close>


definition example_bar_config :: "rid pci_config" where
  "example_bar_config = (new_pci_config 64 1)\<lparr>pc_config := (replicate 64 0)[4 := 2, 0x11 := 0x80],
     pc_bars := [new_bar\<lparr>b_size := 0x1000, b_region := Some 3, b_address := BAR_SPACE_UNMAPPED\<rparr>]\<rparr>"

definition example_bus :: "unit store" where
  "example_bus = (\<lambda>_. init_container_region 0x10000 ''bus'')(3 := init_io_region 0x1000 demo_ops ''bar'')"

lemmas example_bus_simps = example_bus_def init_container_region_def init_io_region_def init_region_internal_def

lemma example_bar_address: "get_bar_address 0 example_bar_config = Inr 0x8000"
proof -
  have r: "le_read_u16 (pc_config example_bar_config) COMMAND = Some 2" "le_read_u32 (pc_config example_bar_config) BAR_0 = Some 0x8000"
    by code_simp+
  have b: "length (pc_config example_bar_config) = 64" "pc_config example_bar_config ! 0x10 = 0"
    "pc_bars example_bar_config = [new_bar\<lparr>b_size := 0x1000, b_region := Some 3, b_address := BAR_SPACE_UNMAPPED\<rparr>]"
    by (simp_all add: example_bar_config_def)
  show ?thesis using r b by (simp add: get_bar_address_def BAR_0_def COMMAND_MEMORY_SPACE_def new_bar_def MEM_BASE_ADDR_MASK_def)
qed


end
