(* ===== verification/PciBarSafety.thy ===== *)
theory PciBarSafety
  imports PciBars
begin

text \<open>
  The registers of a BAR: whatever the guest writes to them, the address they give is a multiple
  of the BAR's size. The last section is about the BARs after a reset.
\<close>

section \<open>Registers of a registered BAR\<close>

definition bar_offset :: "nat \<Rightarrow> nat" where
  "bar_offset i = BAR_0 + i * REG_SIZE"

definition bar_width :: "pci_region_type \<Rightarrow> nat" where
  "bar_width ty = (if ty = Mem64Bit then 8 else 4)"

text \<open>Bit \<open>k\<close> of the registers of a BAR, in an array of bytes.\<close>

definition reg_bit :: "u8 list \<Rightarrow> nat \<Rightarrow> nat \<Rightarrow> bool" where
  "reg_bit bs off k = bit (bs ! (off + k div 8)) (k mod 8)"

lemma le_read_reg_bit:
  assumes "le_read n buf off = Some (w :: 'a::len word)"
  shows "bit w k \<longleftrightarrow> k < LENGTH('a) \<and> k < 8 * n \<and> reg_bit buf off k"
  using nth_le_read_bit [OF assms, of k] by (auto simp: reg_bit_def)

lemma le_write_reg_bit:
  assumes "le_write n buf off v = Some b" and "k < 8 * n"
  shows "reg_bit b off k = bit v k"
proof -
  have k: "k div 8 < n" using assms(2) by auto
  then show ?thesis using bit_to_le [OF k, of v "k mod 8"] by (simp add: reg_bit_def nth_le_write [OF assms(1)])
qed

lemma bar_registers_run:
  assumes "bar_registers off ty pf sz c = (Inr u, c1)" and "pc_config c ! off = 0"
  shows "\<exists>wm. c1 = c\<lparr>write_mask := wm, pc_config := (pc_config c)[off :=
      (case ty of Io \<Rightarrow> BAR_IO_SPACE | Mem32Bit \<Rightarrow> 0 | Mem64Bit \<Rightarrow> BAR_MEM_64BIT) OR (if pf then BAR_PREFETCH else 0)]\<rparr> \<and>
    (\<forall>k < 8 * bar_width ty. reg_bit wm off k = (\<not> bit (sz - 1) k))"
proof -
  have m4: "reg_bit wm off k = (\<not> bit (sz - 1) k)"
    if "le_write 4 (write_mask c) off (ucast (NOT (sz - 1)) :: u32) = Some wm" "k < 32" for wm k
    using le_write_reg_bit [OF that(1), of k] that(2) by (simp add: bit_ucast_iff bit_not_iff)
  have m8: "reg_bit wm off k = (\<not> bit (sz - 1) k)"
    if "le_write 8 (write_mask c) off (NOT (sz - 1)) = Some wm" "k < 64" for wm k
    using le_write_reg_bit [OF that(1), of k] that(2) by (simp add: bit_not_iff)
  have z: "(pc_config c)[off := 0] = pc_config c" using assms(2) by (metis list_update_id)
  show ?thesis
  proof (cases ty)
    case Io
    then show ?thesis using assms m4
      by (auto simp: bar_registers_def all_ops_def put_mask_def set_config_def bar_width_def split: option.splits if_splits)
  next
    case Mem32Bit
    then show ?thesis using assms m4 z
      by (auto simp: bar_registers_def all_ops_def put_mask_def set_config_def bar_width_def split: option.splits if_splits)
  next
    case Mem64Bit
    then show ?thesis using assms m8
      by (auto simp: bar_registers_def all_ops_def put_mask_def set_config_def bar_width_def split: option.splits if_splits)
  qed
qed

text \<open>Below the size, a register of a fresh BAR holds the flags only, in its four lowest bits.\<close>

lemma bit_flags: "bit BAR_IO_SPACE k \<longleftrightarrow> k = 0" "bit BAR_MEM_64BIT k \<longleftrightarrow> k = 2" "bit BAR_PREFETCH k \<longleftrightarrow> k = 3"
proof -
  have e: "BAR_IO_SPACE = push_bit 0 1" "BAR_MEM_64BIT = push_bit 2 1" "BAR_PREFETCH = push_bit 3 1"
    by (simp_all add: BAR_IO_SPACE_def BAR_MEM_64BIT_def BAR_PREFETCH_def)
  show "bit BAR_IO_SPACE k \<longleftrightarrow> k = 0" "bit BAR_MEM_64BIT k \<longleftrightarrow> k = 2" "bit BAR_PREFETCH k \<longleftrightarrow> k = 3"
    unfolding e bit_push_bit_iff bit_1_iff by auto
qed

lemma register_bar_bits:
  assumes "register_bar i region ty pf sz c = (Inr (), c1)" and "\<forall>j < bar_width ty. pc_config c ! (bar_offset i + j) = 0"
    and "k < 8 * bar_width ty"
  shows "reg_bit (write_mask c1) (bar_offset i) k = (\<not> bit (sz - 1) k)"
    and "reg_bit (pc_config c1) (bar_offset i) k \<longrightarrow> (ty = Io \<and> k = 0) \<or> (ty = Mem64Bit \<and> k = 2) \<or> (pf \<and> k = 3)"
    and "ty = Io \<Longrightarrow> bar_offset i < length (pc_config c) \<Longrightarrow> reg_bit (pc_config c1) (bar_offset i) 0"
    and "write_clear_mask c1 = write_clear_mask c \<and> length (pc_config c1) = length (pc_config c)"
    and "i < length (pc_bars c1) \<and> b_type (pc_bars c1 ! i) = ty"
    and "is_power_of_two sz \<and> (ty = Io \<longrightarrow> 4 \<le> sz)"
proof -
  have zero: "pc_config c ! (bar_offset i + j) = 0" if "j < bar_width ty" for j using assms(2) that by blast
  have z0: "pc_config c ! bar_offset i = 0" using zero [of 0] by (simp add: bar_width_def split: if_splits)
  have v: "validate_bar_id i c = Inr ()" "validate_bar_size ty sz = Inr ()"
    using assms(1) by (auto simp: register_bar_def split: sum.splits)
  obtain c2 u where 2: "bar_registers (bar_offset i) ty pf sz c = (Inr u, c2)" "i < length (pc_bars c2)"
    "c1 = c2\<lparr>pc_bars := (pc_bars c2)[i := (pc_bars c2 ! i)\<lparr>b_type := ty, b_address := BAR_SPACE_UNMAPPED, b_size := sz, b_region := Some region\<rparr>]\<rparr>"
    using assms(1) v by (auto simp: register_bar_def bar_offset_def split: sum.splits prod.splits if_splits)
  let ?f = "(case ty of Io \<Rightarrow> BAR_IO_SPACE | Mem32Bit \<Rightarrow> 0 | Mem64Bit \<Rightarrow> BAR_MEM_64BIT) OR (if pf then BAR_PREFETCH else 0)"
  obtain wm where wm: "c2 = c\<lparr>write_mask := wm, pc_config := (pc_config c)[bar_offset i := ?f]\<rparr>"
    "\<And>k. k < 8 * bar_width ty \<Longrightarrow> reg_bit wm (bar_offset i) k = (\<not> bit (sz - 1) k)"
    using bar_registers_run [OF 2(1) z0] by blast
  have cfg: "pc_config c1 = (pc_config c)[bar_offset i := ?f]" "write_mask c1 = wm" using 2 wm(1) by simp_all
  show "reg_bit (write_mask c1) (bar_offset i) k = (\<not> bit (sz - 1) k)" using wm(2) [OF assms(3)] cfg by simp
  have fk: "bit ?f n \<longleftrightarrow> (ty = Io \<and> n = 0) \<or> (ty = Mem64Bit \<and> n = 2) \<or> (pf \<and> n = 3)" for n
    by (cases ty) (auto simp: bit_or_iff bit_flags)
  show "reg_bit (pc_config c1) (bar_offset i) k \<longrightarrow> (ty = Io \<and> k = 0) \<or> (ty = Mem64Bit \<and> k = 2) \<or> (pf \<and> k = 3)"
  proof (cases "k div 8 = 0")
    case True
    then have k: "k mod 8 = k" by auto
    show ?thesis
      using z0 unfolding reg_bit_def cfg True k add_0_right
      by (cases "bar_offset i < length (pc_config c)") (auto simp: fk list_update_beyond)
  next
    case False
    then have "pc_config c1 ! (bar_offset i + k div 8) = 0" using zero [of "k div 8"] assms(3) unfolding cfg by auto
    then show ?thesis by (simp add: reg_bit_def)
  qed
  show "reg_bit (pc_config c1) (bar_offset i) 0" if "ty = Io" "bar_offset i < length (pc_config c)"
    using that unfolding reg_bit_def cfg by (simp add: bit_or_iff bit_flags)
  show "write_clear_mask c1 = write_clear_mask c \<and> length (pc_config c1) = length (pc_config c)" using 2 wm(1) by simp
  show "i < length (pc_bars c1) \<and> b_type (pc_bars c1 ! i) = ty" using 2 by simp
  show "is_power_of_two sz \<and> (ty = Io \<longrightarrow> 4 \<le> sz)"
    using v(2) by (auto simp: validate_bar_size_def MINIMUM_BAR_SIZE_FOR_PIO_def split: if_splits)
qed

text \<open>A power of two other than one is even.\<close>

lemma power_of_two_low_bit:
  assumes "is_power_of_two sz" and "bit (sz - 1) k"
  shows "bit (sz - 1) 0"
proof (rule ccontr)
  assume "\<not> bit (sz - 1) 0"
  then have "even (sz - 1)" by (simp add: bit_0)
  then have "sz = (sz - 1) OR 1" by (simp add: or_one_eq)
  moreover have "((sz - 1) OR 1) AND (sz - 1) = sz - 1" by (rule bit_eqI) (auto simp: bit_and_iff bit_or_iff)
  ultimately have "sz AND (sz - 1) = sz - 1" by argo
  then show False using assms by (simp add: is_power_of_two_def)
qed

section \<open>Addresses of BARs\<close>

lemma low_bits_kept:
  assumes "register_bar i region ty pf sz c = (Inr (), c1)" and "\<forall>j < bar_width ty. pc_config c ! (bar_offset i + j) = 0"
    and "\<forall>j < bar_width ty. write_clear_mask c ! (bar_offset i + j) = 0" and "regs_kept c1 c'"
    and "k < 8 * bar_width ty" and "bit (sz - 1) k"
  shows "reg_bit (pc_config c') (bar_offset i) k = reg_bit (pc_config c1) (bar_offset i) k"
proof -
  note r = register_bar_bits [OF assms(1,2,5)]
  have "k div 8 < bar_width ty" using assms(5) by auto
  then have "write_clear_mask c1 ! (bar_offset i + k div 8) = 0" using assms(3) r(4) by simp
  moreover have "\<not> reg_bit (write_mask c1) (bar_offset i) k" using r(1) assms(6) by simp
  moreover have "bar_offset i + k div 8 \<noteq> STATUS" by (simp add: bar_offset_def STATUS_def BAR_0_def)
  ultimately have "read_only_bit c1 (bar_offset i + k div 8) (k mod 8)" by (simp add: read_only_bit_def reg_bit_def)
  then show ?thesis using assms(4) by (simp add: regs_kept_def reg_bit_def)
qed

lemma address_mask_bits: "bit IO_BASE_ADDR_MASK k \<Longrightarrow> 2 \<le> k" "bit MEM_BASE_ADDR_MASK k \<Longrightarrow> 4 \<le> k"
proof -
  have "\<not> bit IO_BASE_ADDR_MASK 0" "\<not> bit IO_BASE_ADDR_MASK 1" by (simp_all add: IO_BASE_ADDR_MASK_def)
  then have "bit IO_BASE_ADDR_MASK k \<Longrightarrow> k \<noteq> 0 \<and> k \<noteq> 1" by metis
  then show "bit IO_BASE_ADDR_MASK k \<Longrightarrow> 2 \<le> k" by fastforce
  have "\<not> bit MEM_BASE_ADDR_MASK 0" "\<not> bit MEM_BASE_ADDR_MASK 1" "\<not> bit MEM_BASE_ADDR_MASK 2" "\<not> bit MEM_BASE_ADDR_MASK 3"
    by (simp_all add: MEM_BASE_ADDR_MASK_def)
  then have "bit MEM_BASE_ADDR_MASK k \<Longrightarrow> k \<noteq> 0 \<and> k \<noteq> 1 \<and> k \<noteq> 2 \<and> k \<noteq> 3" by metis
  then show "bit MEM_BASE_ADDR_MASK k \<Longrightarrow> 4 \<le> k" by fastforce
qed

lemma get_bar_address_cases:
  assumes "get_bar_address i c = Inr a" and "a \<noteq> BAR_SPACE_UNMAPPED" and "i < length (pc_bars c)"
  obtains (io) v where "bit (pc_config c ! bar_offset i) 0" "le_read 4 (pc_config c) (bar_offset i) = Some (v :: u32)" "a = ucast (v AND IO_BASE_ADDR_MASK)"
  | (mem32) v where "\<not> bit (pc_config c ! bar_offset i) 0" "b_type (pc_bars c ! i) = Mem32Bit"
      "le_read 4 (pc_config c) (bar_offset i) = Some (v :: u32)" "a = ucast (v AND ucast MEM_BASE_ADDR_MASK)"
  | (mem64) v where "\<not> bit (pc_config c ! bar_offset i) 0" "b_type (pc_bars c ! i) = Mem64Bit"
      "le_read 8 (pc_config c) (bar_offset i) = Some (v :: u64)" "a = v AND MEM_BASE_ADDR_MASK"
proof -
  have "pc_config c ! bar_offset i AND BAR_IO_SPACE > 0 \<longleftrightarrow> bit (pc_config c ! bar_offset i) 0"
    by (simp add: BAR_IO_SPACE_def and_one_eq bit_0 odd_iff_mod_2_eq_one word_neq_0_conv [symmetric])
  then show ?thesis using assms that
    by (auto simp: get_bar_address_def Let_def le_defs bar_offset_def [symmetric] split: option.splits if_splits pci_region_type.splits)
qed

text \<open>
  C26. Whatever the guest reads and writes in the configuration space after a BAR was registered,
  the address its registers give is a multiple of the BAR's size, a power of two: the bits
  below the size are read-only zeros.
\<close>

theorem bar_address_aligned:
  assumes "register_bar i region ty pf sz c = (Inr (), w_cfg w)" and "(pci_guest_step B)\<^sup>*\<^sup>* w w'"
    and "\<forall>j < bar_width ty. pc_config c ! (bar_offset i + j) = 0 \<and> write_clear_mask c ! (bar_offset i + j) = 0"
    and "\<not> (ty = Io \<and> pf)" and "get_bar_address i (w_cfg w') = Inr a" and "a \<noteq> BAR_SPACE_UNMAPPED"
  shows "is_power_of_two sz \<and> a AND (sz - 1) = 0"
proof -
  have kept: "regs_kept (w_cfg w) (w_cfg w')" using guest_run_kept [OF assms(2)] .
  have z: "\<forall>j < bar_width ty. pc_config c ! (bar_offset i + j) = 0" "\<forall>j < bar_width ty. write_clear_mask c ! (bar_offset i + j) = 0"
    using assms(3) by simp_all
  have w0: "(0 :: nat) < 8 * bar_width ty" by (simp add: bar_width_def)
  note r = register_bar_bits [OF assms(1) z(1)]
  have flags: "reg_bit (pc_config (w_cfg w')) (bar_offset i) k \<Longrightarrow> (ty = Io \<and> k = 0) \<or> (ty = Mem64Bit \<and> k = 2) \<or> (pf \<and> k = 3)"
    if "k < 8 * bar_width ty" "bit (sz - 1) k" for k
    using low_bits_kept [OF assms(1) z kept that] r(2) [OF that(1)] by simp
  have bars: "i < length (pc_bars (w_cfg w'))" "b_type (pc_bars (w_cfg w') ! i) = ty"
    using r(5) [OF w0] kept map_eq_imp_length_eq [of b_type "pc_bars (w_cfg w')" b_type "pc_bars (w_cfg w)"]
    by (auto simp: regs_kept_def) (metis nth_map)
  have "\<not> bit a k" if k: "bit (sz - 1) k" for k
  proof -
    have low: "bit (sz - 1) 0" using power_of_two_low_bit [OF _ k] r(6) [OF w0] by simp
    show ?thesis
      using assms(5,6) bars(1)
    proof (cases rule: get_bar_address_cases)
      case (io v)
      then have "ty = Io" using flags [OF w0 low] by (auto simp: reg_bit_def)
      then show ?thesis using io flags [OF _ k] le_read_reg_bit [OF io(2), of k] assms(4)
        by (auto simp: bit_ucast_iff bit_and_iff bar_width_def dest: address_mask_bits)
    next
      case (mem32 v)
      then show ?thesis using flags [OF _ k] le_read_reg_bit [OF mem32(3), of k] bars(2)
        by (auto simp: bit_ucast_iff bit_and_iff bar_width_def dest: address_mask_bits)
    next
      case (mem64 v)
      then show ?thesis using flags [OF _ k] le_read_reg_bit [OF mem64(3), of k] bars(2)
        by (auto simp: bit_and_iff bar_width_def dest: address_mask_bits)
    qed
  qed
  then have "a AND (sz - 1) = 0" by (intro bit_eqI) (auto simp: bit_and_iff)
  then show ?thesis using r(6) [OF w0] by simp
qed

definition example_fresh :: "nat pci_config" where
  "example_fresh = (new_pci_config 64 1)\<lparr>pc_config := (replicate 64 0)[4 := 2]\<rparr>"

definition example_registered :: "nat pci_config" where
  "example_registered = example_fresh\<lparr>write_mask := (replicate 64 0)[0x11 := 0xf0, 0x12 := 0xff, 0x13 := 0xff],
     pc_bars := [new_bar\<lparr>b_address := BAR_SPACE_UNMAPPED, b_size := 0x1000, b_region := Some 3\<rparr>]\<rparr>"

definition example_device :: "(nat, unit) pci_world" where
  "example_device = \<lparr>w_cfg = example_registered, w_lines = new_intx_state 0, w_space = ()\<rparr>"

lemma example_register: "register_bar 0 3 Mem32Bit False 0x1000 example_fresh = (Inr (), example_registered)"
proof -
  have p: "is_power_of_two 0x1000" by (simp add: is_power_of_two_def)
  have n: "(NOT (0xfff :: u64)) = 0xfffffffffffff000" by simp
  have m: "to_le 4 (18446744073709547520 :: u32) = [0, 0xf0, 0xff, 0xff]" by code_simp
  have l: "take 16 (replicate 64 0) @ [0, 0xf0, 0xff, 0xff] @ drop 20 (replicate 64 (0 :: u8)) = (replicate 64 0)[0x11 := 0xf0, 0x12 := 0xff, 0x13 := 0xff]"
    by code_simp
  show ?thesis
    using p l by (simp add: register_bar_def validate_bar_id_def validate_bar_size_def bar_registers_def all_ops_def put_mask_def le_write_def
        example_fresh_def example_registered_def new_pci_config_def pci_offsets m n HEADER_TYPE_ENDPOINT_def HEADER_TYPE_BRIDGE_def new_bar_def)
qed

theorem bar_address_aligned_witness:
  "\<exists>w'. pci_write no_space 0x10 [0x78, 0x56, 0x34, 0x12] 0 None (Some 1) example_device = Inr w' \<and>
     get_bar_address 0 (w_cfg w') = Inr 0x12345000 \<and> (0x12345000 :: u64) AND (0x1000 - 1) = 0"
proof -
  let ?c = "w_cfg example_device" and ?d = "[0x78, 0x56, 0x34, 0x12 :: u8]"
  let ?cfg = "(replicate 64 0)[4 := 2, 0x10 := 0, 0x11 := 0x50, 0x12 := 0x34, 0x13 := 0x12 :: u8]"
  let ?c1 = "example_registered\<lparr>pc_config := ?cfg\<rparr>"
  have b: "write_bytes 16 ?d ?c = ?c1"
    by (simp add: example_device_def example_registered_def example_fresh_def new_pci_config_def masked_byte_def)
  have v: "validate_config_boundary 16 (length ?d) ?c" "\<not> HEADER_TYPE \<ge> length (pc_config ?c1)" "bar_layout ?c1 = (6, 0x30)"
    by (simp_all add: validate_config_boundary_def example_device_def example_registered_def example_fresh_def new_pci_config_def pci_offsets
        bar_layout_def HEADER_TYPE_BRIDGE_def)
  have o: "overlaps 16 (length ?d) COMMAND 1 = Inr False" "overlaps 16 (length ?d) BAR_0 (REG_SIZE * 6) = Inr True" "overlaps 16 (length ?d) 0x30 4 = Inr False"
    by (simp_all add: overlaps_def ranges_overlap_def checked_add_def pci_offsets)
  have a: "get_bar_address 0 ?c1 = Inr 0x12345000"
  proof -
    have r: "le_read_u16 ?cfg COMMAND = Some 2" "le_read_u32 ?cfg BAR_0 = Some 0x12345000"
      by code_simp+
    show ?thesis using r by (simp add: get_bar_address_def BAR_0_def COMMAND_MEMORY_SPACE_def new_bar_def MEM_BASE_ADDR_MASK_def example_registered_def)
  qed
  obtain w' where w: "pci_write no_space 0x10 ?d 0 None (Some 1) example_device = Inr w'" "pc_config (w_cfg w') = ?cfg"
    "map b_type (pc_bars (w_cfg w')) = [Mem32Bit]"
  proof -
    let ?b = "new_bar\<lparr>b_address := 0x12345000, b_size := 0x1000, b_region := Some 3, parent_mem_region := Some 1\<rparr>"
    let ?w = "example_device\<lparr>w_cfg := ?c1\<lparr>pc_bars := [?b]\<rparr>\<rparr>"
    have bars: "pc_bars ?c1 = [new_bar\<lparr>b_address := BAR_SPACE_UNMAPPED, b_size := 0x1000, b_region := Some 3\<rparr>]" "pc_msix ?c1 = None"
      by (simp_all add: example_registered_def example_fresh_def new_pci_config_def)
    have "update_bar no_space None (Some 1) 0 (?c1, ()) = (Inr True, ?c1\<lparr>pc_bars := [?b]\<rparr>, ())"
      unfolding update_bar_def split Let_def a
      by (simp add: bars unmap_bar_def sm_bind_def is_bar_region_empty_def map_bar_def no_space_def set_bar_def new_bar_def BAR_SPACE_UNMAPPED_def)
    then have "remap no_space None (Some 1) (example_device\<lparr>w_cfg := ?c1\<rparr>) = Inr ?w"
      by (simp add: remap_def update_bar_mapping_def bars)
    then have "pci_write no_space 0x10 ?d 0 None (Some 1) example_device = Inr ?w"
      using v bars(2) unfolding pci_write_def Let_def b v(3) fst_conv snd_conv o by (simp add: write_msix_def)
    then show ?thesis by (rule that) (simp_all add: new_bar_def)
  qed
  have a': "get_bar_address 0 (w_cfg w') = Inr 0x12345000"
    using get_bar_address_cong [of "w_cfg w'" ?c1 0] w a by (simp add: example_registered_def new_bar_def)
  have reg: "register_bar 0 3 Mem32Bit False 0x1000 example_fresh = (Inr (), w_cfg example_device)"
    using example_register by (simp add: example_device_def)
  have z: "\<forall>j < bar_width Mem32Bit. pc_config example_fresh ! (bar_offset 0 + j) = 0 \<and> write_clear_mask example_fresh ! (bar_offset 0 + j) = 0"
    by (auto simp: bar_width_def bar_offset_def BAR_0_def example_fresh_def new_pci_config_def)
  show ?thesis
    using bar_address_aligned [OF reg r_into_rtranclp [where r = "pci_guest_step no_space", OF guest_write [OF w(1)]] z _ a'] w a'
    by (auto simp: BAR_SPACE_UNMAPPED_def)
qed

section \<open>BARs after a reset\<close>

lemma put_config_other:
  assumes "put_config n off v c = (Inr u, c')" and "off' + m \<le> off \<or> off + n \<le> off'"
  shows "le_read m (pc_config c') off' = le_read m (pc_config c) off' \<and> pc_bars c' = pc_bars c \<and> length (pc_config c') = length (pc_config c)"
  using assms by (auto simp: put_config_def dest: le_read_write_other length_le_write split: option.splits)

lemma reset_single_other:
  assumes "reset_single_writable_reg off c = (Inr u, c')" and "off \<noteq> COMMAND" and "off \<ge> COMMAND + 2"
  shows "le_read_u16 (pc_config c') COMMAND = le_read_u16 (pc_config c) COMMAND \<and> pc_bars c' = pc_bars c \<and> length (pc_config c') = length (pc_config c)"
  using assms put_config_other [of 2 off _ c u c' COMMAND 2]
  by (auto simp: reset_single_writable_reg_def le_defs split: option.splits)

lemma reset_single_command:
  assumes "reset_single_writable_reg COMMAND c = (Inr u, c')" and "le_read_u16 (write_mask c) COMMAND = Some m"
  shows "\<exists>v. le_read_u16 (pc_config c') COMMAND = Some v \<and> v AND m = 0 \<and> pc_bars c' = pc_bars c \<and> length (pc_config c') = length (pc_config c)"
proof -
  obtain wc old b where b: "le_write 2 (pc_config c) COMMAND (old AND NOT (m OR wc) :: u16) = Some b" "c' = c\<lparr>pc_config := b\<rparr>"
    using assms by (auto simp: reset_single_writable_reg_def put_config_def split: option.splits)
  have "le_read_u16 b COMMAND = Some (old AND NOT (m OR wc))"
    using le_read_write_same [OF b(1)] by (simp add: le_defs take_bit_word_eq_self)
  moreover have "(old AND NOT (m OR wc)) AND m = 0" by (rule bit_eqI) (auto simp: bit_and_iff bit_or_iff bit_not_iff)
  ultimately show ?thesis using b length_le_write [OF b(1)] by simp
qed

lemma reset_common_command:
  assumes "reset_common_regs c = (Inr (), c')" and "le_read_u16 (write_mask c) COMMAND = Some m"
  shows "\<exists>v. le_read_u16 (pc_config c') COMMAND = Some v \<and> v AND m = 0 \<and> pc_bars c' = pc_bars c \<and> length (pc_config c') = length (pc_config c)"
proof -
  obtain u1 u2 u3 u4 c1 c2 c3 where
    1: "reset_single_writable_reg COMMAND c = (Inr u1, c1)" and 2: "reset_single_writable_reg STATUS c1 = (Inr u2, c2)" and
    3: "reset_single_writable_reg INTERRUPT_LINE c2 = (Inr u3, c3)" and 4: "set_config CACHE_LINE_SIZE 0 c3 = (Inr u4, c')"
    using assms(1) by (auto simp: reset_common_regs_def all_ops_def split: prod.splits sum.splits)
  have "le_read 2 ((pc_config c3)[CACHE_LINE_SIZE := 0]) COMMAND = le_read 2 (pc_config c3) COMMAND"
    by (simp add: le_read_def pci_offsets drop_update_swap take_update_cancel)
  then have "le_read_u16 (pc_config c') COMMAND = le_read_u16 (pc_config c3) COMMAND \<and> pc_bars c' = pc_bars c3 \<and> length (pc_config c') = length (pc_config c3)"
    using 4 by (auto simp: set_config_def le_defs split: if_splits)
  then show ?thesis
    using reset_single_command [OF 1 assms(2)] reset_single_other [OF 2] reset_single_other [OF 3] by (auto simp: pci_offsets)
qed

text \<open>With both spaces switched off no register gives an address.\<close>

lemma no_decoding:
  assumes "le_read_u16 (pc_config c) COMMAND = Some v" and "v AND m = 0" and "bit m 0" and "bit m 1"
  shows "get_bar_address i c = Inr BAR_SPACE_UNMAPPED \<or> (\<exists>p. get_bar_address i c = Inl p)"
    and "bar_offset i < length (pc_config c) \<Longrightarrow> get_bar_address i c = Inr BAR_SPACE_UNMAPPED"
proof -
  have e: "COMMAND_IO_SPACE = push_bit 0 1" "COMMAND_MEMORY_SPACE = push_bit 1 1" by (simp_all add: COMMAND_IO_SPACE_def COMMAND_MEMORY_SPACE_def)
  have "\<not> bit (v AND m) 0" "\<not> bit (v AND m) 1" using assms(2) by simp_all
  then have b: "\<not> bit v 0" "\<not> bit v 1" using assms(3,4) by (simp_all only: bit_and_iff) blast+
  have n: "bit COMMAND_IO_SPACE n \<longleftrightarrow> n = 0" "bit COMMAND_MEMORY_SPACE n \<longleftrightarrow> n = 1" for n
    unfolding e bit_push_bit_iff bit_1_iff by auto
  have z: "v AND COMMAND_IO_SPACE = 0" "v AND COMMAND_MEMORY_SPACE = 0"
  proof -
    have "\<not> bit (v AND COMMAND_IO_SPACE) k" "\<not> bit (v AND COMMAND_MEMORY_SPACE) k" for k
      using b n by (metis bit_and_iff)+
    then show "v AND COMMAND_IO_SPACE = 0" "v AND COMMAND_MEMORY_SPACE = 0" by (simp_all add: bit_eq_iff)
  qed
  show "get_bar_address i c = Inr BAR_SPACE_UNMAPPED \<or> (\<exists>p. get_bar_address i c = Inl p)"
    by (simp add: get_bar_address_def assms(1) Let_def z)
  show "bar_offset i < length (pc_config c) \<Longrightarrow> get_bar_address i c = Inr BAR_SPACE_UNMAPPED"
    by (simp add: get_bar_address_def assms(1) Let_def z bar_offset_def)
qed

text \<open>The loop stops at the first BAR that was mapped.\<close>

lemma update_bars_skip:
  assumes "\<And>k. k \<in> set ks \<Longrightarrow> b_size (pc_bars c ! k) = 0 \<or> b_address (pc_bars c ! k) = BAR_SPACE_UNMAPPED"
    and "\<And>k. get_bar_address k c = Inr BAR_SPACE_UNMAPPED \<or> (\<exists>p. get_bar_address k c = Inl p)"
  shows "update_bars B io mem (ks @ is) (c, s) = update_bars B io mem is (c, s) \<or> (\<exists>p. update_bars B io mem (ks @ is) (c, s) = (Inl (PciPanic p), c, s))"
  using assms(1)
proof (induction ks)
  case (Cons k ks)
  have "update_bar B io mem k (c, s) = (Inr True, c, s) \<or> (\<exists>p. update_bar B io mem k (c, s) = (Inl (PciPanic p), c, s))"
    using Cons.prems [of k] assms(2) [of k]
    by (cases "b_size (pc_bars c ! k) = 0"; cases "get_bar_address k c") (simp_all add: update_bar_def Let_def)
  then show ?case using Cons by auto
qed simp

lemma update_bars_stop:
  assumes "get_bar_address i c = Inr BAR_SPACE_UNMAPPED" and "b_size (pc_bars c ! i) \<noteq> 0" and "b_address (pc_bars c ! i) \<noteq> BAR_SPACE_UNMAPPED"
    and "bar_parent (pc_bars c ! i) = Some p" and "b_region (pc_bars c ! i) = Some r"
    and "update_bars B None None (i # is) (c, s) = (res, c', s')"
  shows "s' = snd (bs_delete B p r s) \<and> pc_config c' = pc_config c \<and> (\<forall>j. j \<noteq> i \<longrightarrow> pc_bars c' ! j = pc_bars c ! j) \<and>
    map b_type (pc_bars c') = map b_type (pc_bars c)"
proof -
  have "same_regs c c'" using update_bars_regs [of "(c, s)" B None None "i # is"] assms(6) by simp
  moreover have "s' = snd (bs_delete B p r s) \<and> (\<forall>j. j \<noteq> i \<longrightarrow> pc_bars c' ! j = pc_bars c ! j)"
    using assms by (auto simp: update_bar_def Let_def unmap_bar_def sm_bind_def is_bar_region_empty_def set_bar_def split: sum.splits prod.splits)
  ultimately show ?thesis by (simp add: same_regs_def)
qed

lemma reset_remaps:
  assumes "pci_reset B w = Inr (Inr (), w')"
  obtains c w2 where "reset_common_regs c = (Inr (), w_cfg w2)" "pc_bars c = pc_bars (w_cfg w)" "write_mask c = write_mask (w_cfg w)"
    "length (pc_config c) = length (pc_config (w_cfg w))" "w_space w2 = w_space w"
    "\<exists>w3. remap B None None w2 = Inr w3 \<and> pc_bars (w_cfg w') = pc_bars (w_cfg w3) \<and> pc_config (w_cfg w') = pc_config (w_cfg w3) \<and> w_space w' = w_space w3"
proof -
  obtain w1 where w1: "(case pc_intx (w_cfg w) of None \<Rightarrow> Inr w
      | Some d \<Rightarrow> and_then (intx_reset (d, w_lines w)) (\<lambda>(d1, l1). Inr (w\<lparr>w_cfg := (w_cfg w)\<lparr>pc_intx := Some d1\<rparr>, w_lines := l1\<rparr>))) = Inr w1"
    and rest: "(case reset_common_regs (w_cfg w1) of
         (Inl (PciPanic p), _) \<Rightarrow> Inl p
       | (Inl e, c) \<Rightarrow> Inr (Inl e, w1\<lparr>w_cfg := c\<rparr>)
       | (Inr _, c) \<Rightarrow> and_then (remap B None None (w1\<lparr>w_cfg := c\<rparr>)) (\<lambda>w2.
             Inr (Inr (), w2\<lparr>w_cfg := (w_cfg w2)\<lparr>pc_msix := map_option msix_reset (pc_msix (w_cfg w2))\<rparr>\<rparr>))) = Inr (Inr (), w')"
    using assms unfolding pci_reset_def and_then_Inr by blast
  have keep: "pc_bars (w_cfg w1) = pc_bars (w_cfg w)" "write_mask (w_cfg w1) = write_mask (w_cfg w)" "pc_config (w_cfg w1) = pc_config (w_cfg w)" "w_space w1 = w_space w"
    using w1 by (auto simp: and_then_Inr split: option.splits prod.splits)
  obtain x c where x: "reset_common_regs (w_cfg w1) = (x, c)" by force
  show ?thesis
  proof (cases x)
    case (Inl e)
    then show ?thesis using rest x by (cases e) auto
  next
    case (Inr u)
    then obtain w3 where w3: "remap B None None (w1\<lparr>w_cfg := c\<rparr>) = Inr w3"
      "w' = w3\<lparr>w_cfg := (w_cfg w3)\<lparr>pc_msix := map_option msix_reset (pc_msix (w_cfg w3))\<rparr>\<rparr>"
      using rest x by (auto simp: and_then_Inr)
    show ?thesis using x Inr keep w3 by (intro that [of "w_cfg w1" "w1\<lparr>w_cfg := c\<rparr>"]) auto
  qed
qed

text \<open>
  A reset unmaps one BAR only. It clears the command register, so no register gives an
  address any more, but the update of the mappings, which has no regions to map into, returns at
  the first BAR it has unmapped: every BAR behind it stays mapped at its old address.
\<close>

theorem reset_leaves_bars_mapped:
  assumes "pci_reset B w = Inr (Inr (), w')" and "i < j" and "j < length (pc_bars (w_cfg w))"
    and "\<forall>k < i. b_size (pc_bars (w_cfg w) ! k) = 0 \<or> b_address (pc_bars (w_cfg w) ! k) = BAR_SPACE_UNMAPPED"
    and "b_size (pc_bars (w_cfg w) ! i) \<noteq> 0" and "b_address (pc_bars (w_cfg w) ! i) \<noteq> BAR_SPACE_UNMAPPED"
    and "bar_parent (pc_bars (w_cfg w) ! i) = Some p" and "b_region (pc_bars (w_cfg w) ! i) = Some r"
    and "le_read_u16 (write_mask (w_cfg w)) COMMAND = Some m" and "bit m 0" and "bit m 1"
    and "bar_offset j < length (pc_config (w_cfg w))"
  shows "pc_bars (w_cfg w') ! j = pc_bars (w_cfg w) ! j \<and> w_space w' = snd (bs_delete B p r (w_space w)) \<and>
    get_bar_address j (w_cfg w') = Inr BAR_SPACE_UNMAPPED"
proof -
  obtain c w2 w3 where c: "reset_common_regs c = (Inr (), w_cfg w2)" "pc_bars c = pc_bars (w_cfg w)" "write_mask c = write_mask (w_cfg w)"
    "length (pc_config c) = length (pc_config (w_cfg w))" "w_space w2 = w_space w" "remap B None None w2 = Inr w3"
    "pc_bars (w_cfg w') = pc_bars (w_cfg w3)" "pc_config (w_cfg w') = pc_config (w_cfg w3)" "w_space w' = w_space w3"
    using reset_remaps [OF assms(1)] by metis
  obtain v where v: "le_read_u16 (pc_config (w_cfg w2)) COMMAND = Some v" "v AND m = 0" "pc_bars (w_cfg w2) = pc_bars (w_cfg w)"
    "length (pc_config (w_cfg w2)) = length (pc_config (w_cfg w))"
    using reset_common_command [OF c(1), of m] assms(9) c(2-4) by auto
  note off = no_decoding [OF v(1,2) assms(10,11)]
  let ?n = "length (pc_bars (w_cfg w))"
  have split: "[0..<?n] = [0..<i] @ i # [Suc i..<?n]" using assms(2,3) upt_add_eq_append [of 0 i "?n - i"] by (simp add: upt_conv_Cons)
  have i: "bar_offset i < length (pc_config (w_cfg w2))" using assms(2,12) v(4) by (simp add: bar_offset_def REG_SIZE_def)
  obtain res c3 s3 where r: "update_bar_mapping B None None (w_cfg w2, w_space w2) = (res, c3, s3)"
    by (cases "update_bar_mapping B None None (w_cfg w2, w_space w2)") auto
  have w3: "\<And>q. res \<noteq> Inl (PciPanic q)" "w_cfg w3 = c3" "w_space w3 = s3"
    using c(6) r by (auto simp: remap_def split: sum.splits pci_error.splits)
  have "update_bars B None None (i # [Suc i..<?n]) (w_cfg w2, w_space w2) = (res, c3, s3)"
    using update_bars_skip [of "[0..<i]" "w_cfg w2" B None None "i # [Suc i..<?n]" "w_space w2"] off(1) assms(4) v(3) r w3(1)
    unfolding update_bar_mapping_def fst_conv v(3) split by auto
  then have s: "s3 = snd (bs_delete B p r (w_space w2))" "pc_config c3 = pc_config (w_cfg w2)" "pc_bars c3 ! j = pc_bars (w_cfg w2) ! j"
    "map b_type (pc_bars c3) = map b_type (pc_bars (w_cfg w2))"
    using update_bars_stop [OF off(2) [OF i], of p r B "[Suc i..<?n]" "w_space w2" res c3 s3] assms(2,5-8) v(3) by auto
  have "get_bar_address j (w_cfg w') = get_bar_address j (w_cfg w2)"
    using s(2,4) w3(2) c(7,8) by (intro get_bar_address_cong) simp_all
  then show ?thesis using s w3 c v(3,4) off(2) [of j] assms(12) by simp
qed

definition example_mapped_bar :: "u64 \<Rightarrow> nat \<Rightarrow> nat bar" where
  "example_mapped_bar a r = new_bar\<lparr>b_address := a, b_size := 0x1000, b_region := Some r, parent_mem_region := Some 1\<rparr>"

definition example_two_bars :: "(nat, unit) pci_world" where
  "example_two_bars = example_device\<lparr>w_cfg := (new_pci_config 64 2)\<lparr>pc_config := (replicate 64 0)[4 := 2],
     write_mask := (replicate 64 0)[4 := 3], pc_bars := [example_mapped_bar 0x1000 3, example_mapped_bar 0x2000 4]\<rparr>\<rparr>"

theorem reset_leaves_bars_mapped_witness:
  "\<exists>w'. pci_reset no_space example_two_bars = Inr (Inr (), w') \<and> b_address (pc_bars (w_cfg w') ! 1) = 0x2000 \<and>
     get_bar_address 1 (w_cfg w') = Inr BAR_SPACE_UNMAPPED"
proof -
  let ?c = "w_cfg example_two_bars"
  have cfg: "pc_bars ?c = [example_mapped_bar 0x1000 3, example_mapped_bar 0x2000 4]" "pc_intx ?c = None" "length (pc_config ?c) = 64"
    by (simp_all add: example_two_bars_def new_pci_config_def)
  have "fst (reset_common_regs ?c) = Inr ()" by code_simp
  then obtain c where c: "reset_common_regs ?c = (Inr (), c)" by (cases "reset_common_regs ?c") auto
  have m: "le_read_u16 (write_mask ?c) COMMAND = Some 3" "bit (3 :: u16) 0" "bit (3 :: u16) 1" by code_simp+
  obtain v where v: "le_read_u16 (pc_config c) COMMAND = Some v" "v AND 3 = 0" "pc_bars c = pc_bars ?c" "length (pc_config c) = 64"
    using reset_common_command [OF c m(1)] cfg(3) by auto
  have "get_bar_address 0 c = Inr BAR_SPACE_UNMAPPED"
    using no_decoding(2) [OF v(1,2) m(2,3), of 0] v(4) by (simp add: bar_offset_def pci_offsets)
  then have "\<exists>w3. remap no_space None None (example_two_bars\<lparr>w_cfg := c\<rparr>) = Inr w3"
    using v(3) cfg(1) unfolding remap_def update_bar_mapping_def
    by (simp add: upt_conv_Cons update_bar_def Let_def example_mapped_bar_def new_bar_def bar_parent_def BAR_SPACE_UNMAPPED_def unmap_bar_def
        sm_bind_def is_bar_region_empty_def no_space_def set_bar_def)
  then obtain w' where w': "pci_reset no_space example_two_bars = Inr (Inr (), w')"
    using c cfg(2) by (auto simp: pci_reset_def)
  have "b_address (pc_bars (w_cfg w') ! 1) = 0x2000 \<and> get_bar_address 1 (w_cfg w') = Inr BAR_SPACE_UNMAPPED"
    using reset_leaves_bars_mapped [OF w', of 0 1 1 3 3] cfg m
    by (simp add: example_mapped_bar_def new_bar_def bar_parent_def BAR_SPACE_UNMAPPED_def bar_offset_def pci_offsets)
  then show ?thesis using w' by blast
qed

end
