(* ===== verification/Aml.thy ===== *)
theory Aml
  imports Prelude
begin

text \<open>
  acpi/src/aml_compiler.rs: the encoder of the ACPI machine language (AML). A structure of the
  source holds the bytes of its parts; here \<open>aml\<close> is the object a caller builds with the
  constructors and \<open>append_child\<close>, and \<open>aml_bytes\<close> the bytes of it, where \<open>Inl\<close> is a panic. The
  children of a field are field units and those of a resource template are resource descriptors,
  as everywhere in the repository. Strings are ASCII bytes; the lengths are \<open>usize\<close> values far
  below the wrap-around and are natural numbers.
\<close>

unbundle bit_operations_syntax

section \<open>Constants and names\<close>

text \<open>\<open>AmlByte\<close> to \<open>AmlQWord\<close>: an opcode and the little-endian bytes of the value.\<close>

definition bytes_type :: "u8 \<Rightarrow> nat \<Rightarrow> 'a::len word \<Rightarrow> u8 list" where
  "bytes_type opc n v = opc # to_le n v"

definition integer_bytes :: "u64 \<Rightarrow> u8 list" where
  "integer_bytes v =
     (if v = 0 then [0x00] else if v = 1 then [0x01]
      else if v \<le> 0xff then bytes_type 0x0a 1 (ucast v :: u8)
      else if v \<le> 0xffff then bytes_type 0x0b 2 (ucast v :: u16)
      else if v \<le> 0xffffffff then bytes_type 0x0c 4 (ucast v :: u32)
      else bytes_type 0x0e 8 v)"

definition string_bytes :: "u8 list \<Rightarrow> u8 list" where
  "string_bytes s = [0x0d] @ s @ [0x00]"

definition ACPI_NAME_SEG_MAX :: nat where "ACPI_NAME_SEG_MAX = 4"

definition build_name_seg :: "u8 list \<Rightarrow> panic + u8 list" where
  "build_name_seg name =
     (if length name > ACPI_NAME_SEG_MAX then Inl AssertFailed
      else Inr (name @ replicate (ACPI_NAME_SEG_MAX - length name) 0x5f))"

text \<open>\<open>str::split\<close>: never empty.\<close>

fun split_on :: "u8 \<Rightarrow> u8 list \<Rightarrow> u8 list list" where
  "split_on c [] = [[]]"
| "split_on c (x # xs) =
     (if x = c then [] # split_on c xs
      else case split_on c xs of [] \<Rightarrow> [[x]] | s # ss \<Rightarrow> (x # s) # ss)"

text \<open>
  The loop over the first segment: the root and parent prefixes, and the index of the first
  other character. The index stays 0 when there is no other character.
\<close>

fun name_prefix :: "nat \<Rightarrow> u8 list \<Rightarrow> u8 list \<times> nat" where
  "name_prefix i [] = ([], 0)"
| "name_prefix i (c # cs) =
     (if c = 0x5c \<or> c = 0x5e then (case name_prefix (i + 1) cs of (bs, index) \<Rightarrow> (c # bs, index)) else ([], i))"

fun build_segs :: "u8 list list \<Rightarrow> panic + u8 list" where
  "build_segs [] = Inr []"
| "build_segs (s # ss) = and_then (build_name_seg s) (\<lambda>b. and_then (build_segs ss) (\<lambda>bs. Inr (b @ bs)))"

definition build_name_string :: "u8 list \<Rightarrow> panic + u8 list" where
  "build_name_string name =
     (let strs = split_on 0x2e name in
      if strs = [] \<or> length strs > 255 then Inl AssertFailed
      else case name_prefix 0 (hd strs) of (prefix, index) \<Rightarrow>
        let remain_first = drop index (hd strs)
        in if length strs = 1
           then if remain_first = [] then Inr (prefix @ [0x00])
                else and_then (build_name_seg remain_first) (\<lambda>b. Inr (prefix @ b))
           else and_then (build_segs (remain_first # tl strs)) (\<lambda>b.
             Inr (prefix @ (if length strs = 2 then [0x2e] else [0x2f, of_nat (length strs)]) @ b)))"

definition name_decl_bytes :: "u8 list \<Rightarrow> u8 list \<Rightarrow> panic + u8 list" where
  "name_decl_bytes name obj = and_then (build_name_string name) (\<lambda>n. Inr ([0x08] @ n @ obj))"

section \<open>Identifiers\<close>

text \<open>\<open>char::to_digit(16)\<close>\<close>

definition hex_digit :: "u8 \<Rightarrow> u32 option" where
  "hex_digit c =
     (if 0x30 \<le> c \<and> c \<le> 0x39 then Some (ucast (c - 0x30))
      else if 0x41 \<le> c \<and> c \<le> 0x46 then Some (ucast (c - 0x41) + 10)
      else if 0x61 \<le> c \<and> c \<le> 0x66 then Some (ucast (c - 0x61) + 10) else None)"

definition digit_at :: "u8 list \<Rightarrow> nat \<Rightarrow> panic + u32" where
  "digit_at s i =
     (if i < length s then (case hex_digit (s ! i) of Some d \<Rightarrow> Inr d | None \<Rightarrow> Inl UnwrapNone) else Inl IndexOutOfRange)"

definition eisa_dword :: "u8 list \<Rightarrow> panic + u32" where
  "eisa_dword s =
     (if length s \<noteq> 7 then Inl AssertFailed
      else and_then (digit_at s 3) (\<lambda>d3. and_then (digit_at s 4) (\<lambda>d4. and_then (digit_at s 5) (\<lambda>d5. and_then (digit_at s 6) (\<lambda>d6.
        Inr (push_bit 26 (ucast (s ! 0) - 0x40) OR push_bit 21 (ucast (s ! 1) - 0x40) OR push_bit 16 (ucast (s ! 2) - 0x40)
             OR push_bit 12 d3 OR push_bit 8 d4 OR push_bit 4 d5 OR d6))))))"

definition eisa_id_bytes :: "u8 list \<Rightarrow> panic + u8 list" where
  "eisa_id_bytes s = and_then (eisa_dword s) (\<lambda>d. Inr (0x0c # rev (to_le 4 d)))"

definition check_valid_uuid :: "u8 list \<Rightarrow> bool" where
  "check_valid_uuid s \<longleftrightarrow> length s = 36 \<and> (\<forall>i \<in> set [8, 13, 18, 23]. s ! i = 0x2d) \<and>
     (\<forall>c \<in> set s. c = 0x2d \<or> hex_digit c \<noteq> None)"

fun uuid_digits :: "u8 list \<Rightarrow> nat list \<Rightarrow> panic + u8 list" where
  "uuid_digits s [] = Inr []"
| "uuid_digits s (i # is) =
     and_then (digit_at s i) (\<lambda>h. and_then (digit_at s (i + 1)) (\<lambda>l. and_then (uuid_digits s is) (\<lambda>bs.
       Inr ((push_bit 4 (ucast h) OR ucast l) # bs))))"

section \<open>Package lengths and buffers\<close>

definition pkg_bytes_count :: "nat \<Rightarrow> nat" where
  "pkg_bytes_count len =
     (if len + 1 < 2 ^ 6 then 1 else if len + 2 < 2 ^ 12 then 2 else if len + 3 < 2 ^ 20 then 3 else 4)"

definition build_pkg_length :: "nat \<Rightarrow> bool \<Rightarrow> u8 list" where
  "build_pkg_length len include_self =
     (let count = pkg_bytes_count len; pkg = (if include_self then len + count else len); low = pkg AND 0xf in
      if count = 1 then [of_nat pkg]
      else if count = 2 then [of_nat (push_bit 6 1 OR low), of_nat (drop_bit 4 pkg)]
      else if count = 3 then [of_nat (push_bit 6 2 OR low), of_nat (drop_bit 4 pkg), of_nat (drop_bit 12 pkg)]
      else [of_nat (push_bit 6 3 OR low), of_nat (drop_bit 4 pkg), of_nat (drop_bit 12 pkg), of_nat (drop_bit 20 pkg)])"

text \<open>The objects that are an opcode, a package length and a body.\<close>

definition pkg_object :: "u8 list \<Rightarrow> u8 list \<Rightarrow> u8 list" where
  "pkg_object opc body = opc @ build_pkg_length (length body) True @ body"

definition buffer_bytes :: "u8 list \<Rightarrow> u8 list" where
  "buffer_bytes d = pkg_object [0x11] (integer_bytes (of_nat (length d)) @ d)"

definition to_uuid_bytes :: "u8 list \<Rightarrow> panic + u8 list" where
  "to_uuid_bytes s =
     (if \<not> check_valid_uuid s then Inl AssertFailed
      else and_then (uuid_digits s [6, 4, 2, 0, 11, 9, 16, 14, 19, 21, 24, 26, 28, 30, 32, 34]) (\<lambda>d. Inr (buffer_bytes d)))"

definition package_bytes :: "u8 list \<Rightarrow> u8 list" where
  "package_bytes buf = pkg_object [0x12] buf"

definition var_package_bytes :: "u8 list \<Rightarrow> u8 list" where
  "var_package_bytes buf = pkg_object [0x13] buf"

section \<open>Regions and fields\<close>

datatype aml_address_space_type =
  SystemMemory | SystemIO | PCIConfig | EmbeddedControl | SMBus | SystemCMOS | PciBarTarget | IPMI
| GeneralPurposeIO | GenericSerialBus | PCC

fun space_type_code :: "aml_address_space_type \<Rightarrow> u8" where
  "space_type_code SystemMemory = 0" | "space_type_code SystemIO = 1" | "space_type_code PCIConfig = 2"
| "space_type_code EmbeddedControl = 3" | "space_type_code SMBus = 4" | "space_type_code SystemCMOS = 5"
| "space_type_code PciBarTarget = 6" | "space_type_code IPMI = 7" | "space_type_code GeneralPurposeIO = 8"
| "space_type_code GenericSerialBus = 9" | "space_type_code PCC = 10"

definition op_region_bytes :: "u8 list \<Rightarrow> aml_address_space_type \<Rightarrow> u64 \<Rightarrow> u64 \<Rightarrow> panic + u8 list" where
  "op_region_bytes name space off len =
     and_then (build_name_string name) (\<lambda>n. Inr ([0x5b, 0x80] @ n @ [space_type_code space] @ integer_bytes off @ integer_bytes len))"

datatype aml_field_access_type = AccAny | AccByte | AccWord | AccDWord | AccQWord | AccBuffer
datatype aml_field_lock_rule = NoLock | Lock
datatype aml_field_update_rule = Preserve | WriteAsOnes | WriteAsZeros

fun access_code :: "aml_field_access_type \<Rightarrow> u8" where
  "access_code AccAny = 0" | "access_code AccByte = 1" | "access_code AccWord = 2" | "access_code AccDWord = 3"
| "access_code AccQWord = 4" | "access_code AccBuffer = 5"

fun lock_code :: "aml_field_lock_rule \<Rightarrow> u8" where
  "lock_code NoLock = 0" | "lock_code Lock = 1"

fun update_code :: "aml_field_update_rule \<Rightarrow> u8" where
  "update_code Preserve = 0" | "update_code WriteAsOnes = 1" | "update_code WriteAsZeros = 2"

definition field_flags :: "aml_field_access_type \<Rightarrow> aml_field_lock_rule \<Rightarrow> aml_field_update_rule \<Rightarrow> u8" where
  "field_flags acc lck upd = push_bit 5 (update_code upd) OR push_bit 1 (lock_code lck) OR (access_code acc AND 0x0f)"

definition field_new :: "u8 list \<Rightarrow> aml_field_access_type \<Rightarrow> aml_field_lock_rule \<Rightarrow> aml_field_update_rule \<Rightarrow> panic + u8 list" where
  "field_new name acc lck upd = and_then (build_name_string name) (\<lambda>n. Inr (n @ [field_flags acc lck upd]))"

definition field_bytes :: "u8 list \<Rightarrow> u8 list" where
  "field_bytes buf = pkg_object [0x5b, 0x81] buf"

text \<open>A field unit; a unit without a name is reserved.\<close>

type_synonym field_unit = "u8 list option \<times> u32"

definition field_unit_bytes :: "field_unit \<Rightarrow> panic + u8 list" where
  "field_unit_bytes u =
     (case u of (name, len) \<Rightarrow>
        and_then (case name of Some s \<Rightarrow> build_name_seg s | None \<Rightarrow> Inr [0x00]) (\<lambda>b.
          Inr (b @ build_pkg_length (unat len) False)))"

fun field_units_bytes :: "field_unit list \<Rightarrow> panic + u8 list" where
  "field_units_bytes [] = Inr []"
| "field_units_bytes (u # us) = and_then (field_unit_bytes u) (\<lambda>b. and_then (field_units_bytes us) (\<lambda>bs. Inr (b @ bs)))"

section \<open>Scopes, methods and operators\<close>

definition scope_bytes :: "u8 list \<Rightarrow> u8 list" where
  "scope_bytes buf = pkg_object [0x10] buf"

definition device_bytes :: "u8 list \<Rightarrow> u8 list" where
  "device_bytes buf = pkg_object [0x5b, 0x82] buf"

definition method_new :: "u8 list \<Rightarrow> u8 \<Rightarrow> bool \<Rightarrow> panic + u8 list" where
  "method_new name args_count serialized =
     (if args_count > 7 then Inl AssertFailed
      else and_then (build_name_string name) (\<lambda>n. Inr (n @ [if serialized then args_count OR push_bit 3 1 else args_count])))"

definition method_bytes :: "u8 list \<Rightarrow> u8 list" where
  "method_bytes buf = pkg_object [0x14] buf"

definition local_bytes :: "u8 \<Rightarrow> panic + u8 list" where
  "local_bytes i = (if i > 7 then Inl AssertFailed else Inr [0x60 + i])"

definition arg_bytes :: "u8 \<Rightarrow> panic + u8 list" where
  "arg_bytes i = (if i > 6 then Inl AssertFailed else Inr [0x68 + i])"

definition return_bytes :: "u8 list \<Rightarrow> u8 list" where
  "return_bytes v = [0xa4] @ v"

definition call_bytes :: "u8 list \<Rightarrow> u8 list \<Rightarrow> panic + u8 list" where
  "call_bytes name buf = and_then (build_name_string name) (\<lambda>n. Inr (n @ buf))"

datatype aml_op3 = AmlAdd | AmlSubtract | AmlConcat | AmlAnd | AmlOr | AmlShiftLeft | AmlShiftRight | AmlIndex
datatype aml_op1 = AmlIncrement | AmlDecrement | AmlLNot | AmlSizeOf | AmlDeRefOf
datatype aml_op2 = AmlStore | AmlNotify | AmlEqual | AmlLGreater | AmlLLess | AmlLAnd | AmlLOr
datatype aml_create_field = AmlCreateWordField | AmlCreateDWordField | AmlCreateQWordField

fun op3_code :: "aml_op3 \<Rightarrow> u8" where
  "op3_code AmlAdd = 0x72" | "op3_code AmlSubtract = 0x74" | "op3_code AmlConcat = 0x73" | "op3_code AmlAnd = 0x7b"
| "op3_code AmlOr = 0x7d" | "op3_code AmlShiftLeft = 0x79" | "op3_code AmlShiftRight = 0x7a" | "op3_code AmlIndex = 0x88"

fun op1_code :: "aml_op1 \<Rightarrow> u8" where
  "op1_code AmlIncrement = 0x75" | "op1_code AmlDecrement = 0x76" | "op1_code AmlLNot = 0x92" | "op1_code AmlSizeOf = 0x87"
| "op1_code AmlDeRefOf = 0x83"

fun op2_code :: "aml_op2 \<Rightarrow> u8" where
  "op2_code AmlStore = 0x70" | "op2_code AmlNotify = 0x86" | "op2_code AmlEqual = 0x93" | "op2_code AmlLGreater = 0x94"
| "op2_code AmlLLess = 0x95" | "op2_code AmlLAnd = 0x90" | "op2_code AmlLOr = 0x91"

fun create_field_code :: "aml_create_field \<Rightarrow> u8" where
  "create_field_code AmlCreateWordField = 0x8b" | "create_field_code AmlCreateDWordField = 0x8a" | "create_field_code AmlCreateQWordField = 0x8f"

definition op3_bytes :: "u8 \<Rightarrow> u8 list \<Rightarrow> u8 list \<Rightarrow> u8 list \<Rightarrow> u8 list" where
  "op3_bytes opc arg1 arg2 dst = [opc] @ arg1 @ arg2 @ dst"

definition op1_bytes :: "u8 \<Rightarrow> u8 list \<Rightarrow> u8 list" where
  "op1_bytes opc arg = [opc] @ arg"

definition op2_bytes :: "u8 \<Rightarrow> u8 list \<Rightarrow> u8 list \<Rightarrow> u8 list" where
  "op2_bytes opc arg1 arg2 = [opc] @ arg1 @ arg2"

definition if_bytes :: "u8 list \<Rightarrow> u8 list" where
  "if_bytes buf = pkg_object [0xa0] buf"

definition else_bytes :: "u8 list \<Rightarrow> u8 list" where
  "else_bytes buf = pkg_object [0xa1] buf"

definition while_bytes :: "u8 list \<Rightarrow> u8 list" where
  "while_bytes buf = pkg_object [0xa2] buf"

definition mutex_bytes :: "u8 list \<Rightarrow> u8 \<Rightarrow> panic + u8 list" where
  "mutex_bytes name sync_level =
     (if sync_level > 15 then Inl AssertFailed
      else and_then (build_name_string name) (\<lambda>n. Inr ([0x5b, 0x01] @ n @ [sync_level])))"

definition acquire_bytes :: "u8 list \<Rightarrow> u16 \<Rightarrow> u8 list" where
  "acquire_bytes mtx time_out = [0x5b, 0x23] @ mtx @ to_le 2 time_out"

definition release_bytes :: "u8 list \<Rightarrow> u8 list" where
  "release_bytes mtx = [0x5b, 0x27] @ mtx"

definition create_field_bytes :: "u8 \<Rightarrow> u8 list \<Rightarrow> u8 list \<Rightarrow> u8 list \<Rightarrow> panic + u8 list" where
  "create_field_bytes opc src bit_index name = and_then (build_name_string name) (\<lambda>n. Inr ([opc] @ src @ bit_index @ n))"

section \<open>Resource descriptors\<close>

datatype aml_dma_type = Compatibility | TypeA | TypeB | TypeF
datatype aml_dma_trans_size = Size8 | Size8_16 | Size16
datatype aml_io_decode = Decode10 | Decode16
datatype aml_read_and_write = ReadOnly | ReadWrite
datatype aml_cacheable = NonCacheable | Cacheable | WriteCombining | Prefetchable
datatype aml_isa_ranges = ISAOnly | NonISAOnly | EntireRange
datatype aml_resource_type = ResMemory | ResIO | ResBusNumber
datatype aml_address_space_decode = Positive | Subtract
datatype aml_resource_usage = Producer | Consumer
datatype aml_edge_level = Level | Edge
datatype aml_active_level = High | Low
datatype aml_int_share = Exclusive | Share | ExclusiveWake | ShareWake

text \<open>The numbers of the variants.\<close>

definition dma_type_code :: "aml_dma_type \<Rightarrow> u8" where
  "dma_type_code t = (case t of Compatibility \<Rightarrow> 0 | TypeA \<Rightarrow> 1 | TypeB \<Rightarrow> 2 | TypeF \<Rightarrow> 3)"

definition trans_size_code :: "aml_dma_trans_size \<Rightarrow> u8" where
  "trans_size_code t = (case t of Size8 \<Rightarrow> 0 | Size8_16 \<Rightarrow> 1 | Size16 \<Rightarrow> 2)"

definition io_decode_code :: "aml_io_decode \<Rightarrow> u8" where
  "io_decode_code t = (case t of Decode10 \<Rightarrow> 0 | Decode16 \<Rightarrow> 1)"

definition rw_code :: "aml_read_and_write \<Rightarrow> u8" where
  "rw_code t = (case t of ReadOnly \<Rightarrow> 0 | ReadWrite \<Rightarrow> 1)"

definition cache_code :: "aml_cacheable \<Rightarrow> u8" where
  "cache_code t = (case t of NonCacheable \<Rightarrow> 0 | Cacheable \<Rightarrow> 1 | WriteCombining \<Rightarrow> 2 | Prefetchable \<Rightarrow> 3)"

definition isa_code :: "aml_isa_ranges \<Rightarrow> u8" where
  "isa_code t = (case t of ISAOnly \<Rightarrow> 1 | NonISAOnly \<Rightarrow> 2 | EntireRange \<Rightarrow> 3)"

definition resource_type_code :: "aml_resource_type \<Rightarrow> u8" where
  "resource_type_code t = (case t of ResMemory \<Rightarrow> 0 | ResIO \<Rightarrow> 1 | ResBusNumber \<Rightarrow> 2)"

definition space_decode_code :: "aml_address_space_decode \<Rightarrow> u8" where
  "space_decode_code t = (case t of Positive \<Rightarrow> 0 | Subtract \<Rightarrow> 1)"

definition usage_code :: "aml_resource_usage \<Rightarrow> u8" where
  "usage_code t = (case t of Producer \<Rightarrow> 0 | Consumer \<Rightarrow> 1)"

definition edge_code :: "aml_edge_level \<Rightarrow> u8" where
  "edge_code t = (case t of Level \<Rightarrow> 0 | Edge \<Rightarrow> 1)"

definition active_code :: "aml_active_level \<Rightarrow> u8" where
  "active_code t = (case t of High \<Rightarrow> 0 | Low \<Rightarrow> 1)"

definition share_code :: "aml_int_share \<Rightarrow> u8" where
  "share_code t = (case t of Exclusive \<Rightarrow> 0 | Share \<Rightarrow> 1 | ExclusiveWake \<Rightarrow> 2 | ShareWake \<Rightarrow> 3)"

definition dma_resource_bytes :: "aml_dma_type \<Rightarrow> bool \<Rightarrow> aml_dma_trans_size \<Rightarrow> u8 \<Rightarrow> panic + u8 list" where
  "dma_resource_bytes ty is_master trans_sz channel =
     (if channel > 7 then Inl AssertFailed
      else let flags = trans_size_code trans_sz OR push_bit 5 (dma_type_code ty)
           in Inr [0x2a, push_bit (unat channel) 1, if is_master then flags OR push_bit 2 1 else flags])"

definition io_resource_bytes :: "aml_io_decode \<Rightarrow> u16 \<Rightarrow> u16 \<Rightarrow> u8 \<Rightarrow> u8 \<Rightarrow> u8 list" where
  "io_resource_bytes dec min_addr max_addr align len =
     [0x47, io_decode_code dec, ucast (min_addr AND 0xff), ucast (drop_bit 8 min_addr),
      ucast (max_addr AND 0xff), ucast (drop_bit 8 max_addr), align, len]"

definition memory32_bytes :: "aml_read_and_write \<Rightarrow> u32 \<Rightarrow> u32 \<Rightarrow> u8 list" where
  "memory32_bytes rw addr len = [0x86, 0x09, 0x00, rw_code rw] @ to_le 4 addr @ to_le 4 len"

text \<open>\<open>space_desc_define\<close>: the fields granularity, minimum, maximum, translation and length follow as bytes.\<close>

definition space_desc_bytes :: "u8 \<Rightarrow> u8 \<Rightarrow> aml_resource_type \<Rightarrow> aml_address_space_decode \<Rightarrow> u8 \<Rightarrow> u8 list \<Rightarrow> u8 list" where
  "space_desc_bytes opc ml res_type dec type_flags fields =
     [opc, ml, 0x00, resource_type_code res_type, push_bit 1 (space_decode_code dec) OR push_bit 2 1 OR push_bit 3 1, type_flags] @ fields"

definition memory_type_flags :: "aml_cacheable \<Rightarrow> aml_read_and_write \<Rightarrow> u8" where
  "memory_type_flags cache rw = rw_code rw OR push_bit 1 (cache_code cache)"

definition irq_no_flags_bytes :: "u8 \<Rightarrow> panic + u8 list" where
  "irq_no_flags_bytes irq =
     (if irq > 15 then Inl AssertFailed
      else let irq_mask = push_bit (unat irq) 1 :: u32
           in Inr [0x22, ucast (irq_mask AND 0xff), ucast (drop_bit 8 irq_mask)])"

definition extended_interrupt_bytes ::
    "aml_resource_usage \<Rightarrow> aml_edge_level \<Rightarrow> aml_active_level \<Rightarrow> aml_int_share \<Rightarrow> u32 list \<Rightarrow> panic + u8 list" where
  "extended_interrupt_bytes usage mode polar share irqs =
     (if irqs = [] then Inl AssertFailed
      else Inr ([0x89] @ to_le 2 (2 + of_nat (length irqs * 4) :: u16)
             @ [usage_code usage OR push_bit 1 (edge_code mode) OR push_bit 2 (active_code polar) OR push_bit 3 (share_code share),
                of_nat (length irqs)] @ concat (map (to_le 4) irqs)))"

datatype aml_resource =
  AmlDmaResource aml_dma_type bool aml_dma_trans_size u8
| AmlIoResource aml_io_decode u16 u16 u8 u8
| AmlMemory32Fixed aml_read_and_write u32 u32
| AmlWordDesc aml_resource_type aml_address_space_decode u8 u16 u16 u16 u16 u16
| AmlDWordDesc aml_resource_type aml_address_space_decode u8 u32 u32 u32 u32 u32
| AmlQWordDesc aml_resource_type aml_address_space_decode u8 u64 u64 u64 u64 u64
| AmlIrqNoFlags u8
| AmlExtendedInterrupt aml_resource_usage aml_edge_level aml_active_level aml_int_share "u32 list"

fun resource_bytes :: "aml_resource \<Rightarrow> panic + u8 list" where
  "resource_bytes (AmlDmaResource ty master sz ch) = dma_resource_bytes ty master sz ch"
| "resource_bytes (AmlIoResource dec mn mx al ln) = Inr (io_resource_bytes dec mn mx al ln)"
| "resource_bytes (AmlMemory32Fixed rw a l) = Inr (memory32_bytes rw a l)"
| "resource_bytes (AmlWordDesc rt dec fl g mn mx tr ln) =
     Inr (space_desc_bytes 0x88 0x0d rt dec fl (concat (map (to_le 2) [g, mn, mx, tr, ln])))"
| "resource_bytes (AmlDWordDesc rt dec fl g mn mx tr ln) =
     Inr (space_desc_bytes 0x87 23 rt dec fl (concat (map (to_le 4) [g, mn, mx, tr, ln])))"
| "resource_bytes (AmlQWordDesc rt dec fl g mn mx tr ln) =
     Inr (space_desc_bytes 0x8a 0x2b rt dec fl (concat (map (to_le 8) [g, mn, mx, tr, ln])))"
| "resource_bytes (AmlIrqNoFlags irq) = irq_no_flags_bytes irq"
| "resource_bytes (AmlExtendedInterrupt us md po sh irqs) = extended_interrupt_bytes us md po sh irqs"

definition new_memory_dword ::
    "aml_address_space_decode \<Rightarrow> aml_cacheable \<Rightarrow> aml_read_and_write \<Rightarrow> u32 \<Rightarrow> u32 \<Rightarrow> u32 \<Rightarrow> u32 \<Rightarrow> u32 \<Rightarrow> aml_resource" where
  "new_memory_dword dec cache rw = AmlDWordDesc ResMemory dec (memory_type_flags cache rw)"

definition new_memory_qword ::
    "aml_address_space_decode \<Rightarrow> aml_cacheable \<Rightarrow> aml_read_and_write \<Rightarrow> u64 \<Rightarrow> u64 \<Rightarrow> u64 \<Rightarrow> u64 \<Rightarrow> u64 \<Rightarrow> aml_resource" where
  "new_memory_qword dec cache rw = AmlQWordDesc ResMemory dec (memory_type_flags cache rw)"

definition new_io_word :: "aml_address_space_decode \<Rightarrow> aml_isa_ranges \<Rightarrow> u16 \<Rightarrow> u16 \<Rightarrow> u16 \<Rightarrow> u16 \<Rightarrow> u16 \<Rightarrow> aml_resource" where
  "new_io_word dec isa = AmlWordDesc ResIO dec (isa_code isa)"

definition new_io_dword :: "aml_address_space_decode \<Rightarrow> aml_isa_ranges \<Rightarrow> u32 \<Rightarrow> u32 \<Rightarrow> u32 \<Rightarrow> u32 \<Rightarrow> u32 \<Rightarrow> aml_resource" where
  "new_io_dword dec isa = AmlDWordDesc ResIO dec (isa_code isa)"

definition new_bus_number :: "aml_address_space_decode \<Rightarrow> u16 \<Rightarrow> u16 \<Rightarrow> u16 \<Rightarrow> u16 \<Rightarrow> u16 \<Rightarrow> aml_resource" where
  "new_bus_number dec = AmlWordDesc ResBusNumber dec 0"

fun resources_bytes :: "aml_resource list \<Rightarrow> panic + u8 list" where
  "resources_bytes [] = Inr []"
| "resources_bytes (r # rs) = and_then (resource_bytes r) (\<lambda>b. and_then (resources_bytes rs) (\<lambda>bs. Inr (b @ bs)))"

definition res_template_bytes :: "u8 list \<Rightarrow> u8 list" where
  "res_template_bytes buf = pkg_object [0x11] (integer_bytes (of_nat (length buf) + 2) @ buf @ [0x79, 0x00])"

section \<open>Objects\<close>

datatype aml =
  AmlZero | AmlOne | AmlOnes | AmlByte u8 | AmlWord u16 | AmlDWord u32 | AmlQWord u64 | AmlInteger u64
| AmlString "u8 list"
| AmlNameDecl "u8 list" aml
| AmlName "u8 list"
| AmlEisaId "u8 list"
| AmlToUuid "u8 list"
| AmlBuffer "u8 list"
| AmlPackage u8 "aml list"
| AmlVarPackage u8 "aml list"
| AmlOpRegion "u8 list" aml_address_space_type u64 u64
| AmlField "u8 list" aml_field_access_type aml_field_lock_rule aml_field_update_rule "field_unit list"
| AmlScope "u8 list" "aml list"
| AmlDevice "u8 list" "aml list"
| AmlMethod "u8 list" u8 bool "aml list"
| AmlLocal u8
| AmlArg u8
| AmlReturn "aml option"
| AmlCall "u8 list" "aml list"
| AmlOp3 aml_op3 aml aml aml
| AmlOp1 aml_op1 aml
| AmlOp2 aml_op2 aml aml
| AmlIf aml "aml list"
| AmlElse "aml list"
| AmlWhile aml "aml list"
| AmlMutex "u8 list" u8
| AmlAcquire aml u16
| AmlRelease aml
| AmlCreateField aml_create_field aml aml "u8 list"
| AmlResTemplate "aml_resource list"

fun aml_bytes :: "aml \<Rightarrow> panic + u8 list" and children_bytes :: "aml list \<Rightarrow> panic + u8 list" where
  "aml_bytes AmlZero = Inr [0x00]"
| "aml_bytes AmlOne = Inr [0x01]"
| "aml_bytes AmlOnes = Inr [0xff]"
| "aml_bytes (AmlByte v) = Inr (bytes_type 0x0a 1 v)"
| "aml_bytes (AmlWord v) = Inr (bytes_type 0x0b 2 v)"
| "aml_bytes (AmlDWord v) = Inr (bytes_type 0x0c 4 v)"
| "aml_bytes (AmlQWord v) = Inr (bytes_type 0x0e 8 v)"
| "aml_bytes (AmlInteger v) = Inr (integer_bytes v)"
| "aml_bytes (AmlString s) = Inr (string_bytes s)"
| "aml_bytes (AmlNameDecl name obj) = and_then (aml_bytes obj) (name_decl_bytes name)"
| "aml_bytes (AmlName name) = build_name_string name"
| "aml_bytes (AmlEisaId s) = eisa_id_bytes s"
| "aml_bytes (AmlToUuid s) = to_uuid_bytes s"
| "aml_bytes (AmlBuffer d) = Inr (buffer_bytes d)"
| "aml_bytes (AmlPackage n cs) = and_then (children_bytes cs) (\<lambda>bs. Inr (package_bytes (n # bs)))"
| "aml_bytes (AmlVarPackage n cs) = and_then (children_bytes cs) (\<lambda>bs. Inr (var_package_bytes (n # bs)))"
| "aml_bytes (AmlOpRegion name space off len) = op_region_bytes name space off len"
| "aml_bytes (AmlField name acc lck upd us) =
     and_then (field_new name acc lck upd) (\<lambda>b. and_then (field_units_bytes us) (\<lambda>bs. Inr (field_bytes (b @ bs))))"
| "aml_bytes (AmlScope name cs) =
     and_then (build_name_string name) (\<lambda>b. and_then (children_bytes cs) (\<lambda>bs. Inr (scope_bytes (b @ bs))))"
| "aml_bytes (AmlDevice name cs) =
     and_then (build_name_string name) (\<lambda>b. and_then (children_bytes cs) (\<lambda>bs. Inr (device_bytes (b @ bs))))"
| "aml_bytes (AmlMethod name n ser cs) =
     and_then (method_new name n ser) (\<lambda>b. and_then (children_bytes cs) (\<lambda>bs. Inr (method_bytes (b @ bs))))"
| "aml_bytes (AmlLocal i) = local_bytes i"
| "aml_bytes (AmlArg i) = arg_bytes i"
| "aml_bytes (AmlReturn None) = Inr (return_bytes [0x00])"
| "aml_bytes (AmlReturn (Some v)) = and_then (aml_bytes v) (\<lambda>b. Inr (return_bytes b))"
| "aml_bytes (AmlCall name args) = and_then (children_bytes args) (call_bytes name)"
| "aml_bytes (AmlOp3 p a1 a2 d) =
     and_then (aml_bytes a1) (\<lambda>b1. and_then (aml_bytes a2) (\<lambda>b2. and_then (aml_bytes d) (\<lambda>b3. Inr (op3_bytes (op3_code p) b1 b2 b3))))"
| "aml_bytes (AmlOp1 p a) = and_then (aml_bytes a) (\<lambda>b. Inr (op1_bytes (op1_code p) b))"
| "aml_bytes (AmlOp2 p a1 a2) = and_then (aml_bytes a1) (\<lambda>b1. and_then (aml_bytes a2) (\<lambda>b2. Inr (op2_bytes (op2_code p) b1 b2)))"
| "aml_bytes (AmlIf c cs) = and_then (aml_bytes c) (\<lambda>b. and_then (children_bytes cs) (\<lambda>bs. Inr (if_bytes (b @ bs))))"
| "aml_bytes (AmlElse cs) = and_then (children_bytes cs) (\<lambda>bs. Inr (else_bytes bs))"
| "aml_bytes (AmlWhile c cs) = and_then (aml_bytes c) (\<lambda>b. and_then (children_bytes cs) (\<lambda>bs. Inr (while_bytes (b @ bs))))"
| "aml_bytes (AmlMutex name lvl) = mutex_bytes name lvl"
| "aml_bytes (AmlAcquire m t) = and_then (aml_bytes m) (\<lambda>b. Inr (acquire_bytes b t))"
| "aml_bytes (AmlRelease m) = and_then (aml_bytes m) (\<lambda>b. Inr (release_bytes b))"
| "aml_bytes (AmlCreateField k src idx name) =
     and_then (aml_bytes src) (\<lambda>b1. and_then (aml_bytes idx) (\<lambda>b2. create_field_bytes (create_field_code k) b1 b2 name))"
| "aml_bytes (AmlResTemplate rs) = and_then (resources_bytes rs) (\<lambda>bs. Inr (res_template_bytes bs))"
| "children_bytes [] = Inr []"
| "children_bytes (c # cs) = and_then (aml_bytes c) (\<lambda>b. and_then (children_bytes cs) (\<lambda>bs. Inr (b @ bs)))"

end
