(* ===== verification/AmlParse.thy ===== *)
theory AmlParse
  imports Aml
begin

text \<open>
  A decoder of AML after the grammar of the ACPI specification (terms, names, package lengths),
  and the proof that it reads the objects of the encoder back. The decoder is the specification
  here: it says what an operating system makes of the tables.
\<close>

section \<open>Names\<close>

definition is_prefix :: "u8 \<Rightarrow> bool" where
  "is_prefix c \<longleftrightarrow> c = 0x5c \<or> c = 0x5e"

definition seg_start :: "u8 \<Rightarrow> bool" where
  "seg_start c \<longleftrightarrow> 0x41 \<le> c \<and> c \<le> 0x5a \<or> c = 0x5f"

definition name_start :: "u8 \<Rightarrow> bool" where
  "name_start c \<longleftrightarrow> is_prefix c \<or> seg_start c \<or> c = 0x2e \<or> c = 0x2f"

fun take_segs :: "nat \<Rightarrow> u8 list \<Rightarrow> (u8 list list \<times> u8 list) option" where
  "take_segs 0 bs = Some ([], bs)"
| "take_segs (Suc n) bs =
     (if length bs < 4 then None
      else Option.bind (take_segs n (drop 4 bs)) (\<lambda>(ss, r). Some (take 4 bs # ss, r)))"

fun join_dots :: "u8 list list \<Rightarrow> u8 list" where
  "join_dots [] = []"
| "join_dots [s] = s"
| "join_dots (s # ss) = s @ 0x2e # join_dots ss"

definition parse_segs :: "u8 list \<Rightarrow> (u8 list list \<times> u8 list) option" where
  "parse_segs bs =
     (case bs of
        [] \<Rightarrow> None
      | b # r \<Rightarrow>
          if b = 0x2e then take_segs 2 r
          else if b = 0x2f then (case r of [] \<Rightarrow> None | n # r1 \<Rightarrow> take_segs (unat n) r1)
          else if b = 0x00 then Some ([], r)
          else take_segs 1 bs)"

definition parse_name :: "u8 list \<Rightarrow> (u8 list \<times> u8 list) option" where
  "parse_name bs =
     Option.bind (parse_segs (dropWhile is_prefix bs)) (\<lambda>(ss, r). Some (takeWhile is_prefix bs @ join_dots ss, r))"

text \<open>The names callers may give: prefixes and segments of one to four characters.\<close>

definition seg_ok :: "u8 list \<Rightarrow> bool" where
  "seg_ok s \<longleftrightarrow> s \<noteq> [] \<and> length s \<le> 4 \<and> seg_start (hd s)"

definition name_segs :: "u8 list \<Rightarrow> u8 list list" where
  "name_segs name = split_on 0x2e (dropWhile is_prefix name)"

definition name_ok :: "u8 list \<Rightarrow> bool" where
  "name_ok name \<longleftrightarrow> length (name_segs name) \<le> 255 \<and> (\<forall>s \<in> set (name_segs name). seg_ok s)"

definition pad_seg :: "u8 list \<Rightarrow> u8 list" where
  "pad_seg s = s @ replicate (4 - length s) 0x5f"

definition canon_name :: "u8 list \<Rightarrow> u8 list" where
  "canon_name name = takeWhile is_prefix name @ join_dots (map pad_seg (name_segs name))"

lemma split_on_not_Nil [simp]: "split_on c xs \<noteq> []"
  by (cases xs) (auto split: list.splits)

lemma split_on_append:
  assumes "c \<notin> set pre"
  shows "split_on c (pre @ ys) = (pre @ hd (split_on c ys)) # tl (split_on c ys)"
  using assms by (induction pre) (auto split: list.splits)

lemma name_prefix_append:
  assumes "\<forall>c \<in> set pre. is_prefix c" and "s \<noteq> []" and "\<not> is_prefix (hd s)"
  shows "name_prefix i (pre @ s) = (pre, i + length pre)"
  using assms
proof (induction pre arbitrary: i)
  case Nil
  then show ?case by (cases s) (auto simp: is_prefix_def)
qed (auto simp: is_prefix_def)

lemma seg_start_not_prefix: "seg_start c \<Longrightarrow> \<not> is_prefix c \<and> c \<noteq> 0x2e \<and> c \<noteq> 0x2f \<and> c \<noteq> 0"
  by (auto simp: seg_start_def is_prefix_def)

lemma build_name_seg_ok: "seg_ok s \<Longrightarrow> build_name_seg s = Inr (pad_seg s)"
  by (simp add: seg_ok_def build_name_seg_def pad_seg_def ACPI_NAME_SEG_MAX_def)

lemma build_segs_ok: "\<forall>s \<in> set ss. seg_ok s \<Longrightarrow> build_segs ss = Inr (concat (map pad_seg ss))"
  by (induction ss) (simp_all add: build_name_seg_ok)

lemma length_pad_seg: "seg_ok s \<Longrightarrow> length (pad_seg s) = 4"
  by (simp add: seg_ok_def pad_seg_def)

lemma take_segs_ok:
  assumes "\<forall>s \<in> set ss. seg_ok s"
  shows "take_segs (length ss) (concat (map pad_seg ss) @ rest) = Some (map pad_seg ss, rest)"
  using assms by (induction ss) (simp_all add: length_pad_seg)

definition name_body :: "u8 list list \<Rightarrow> u8 list" where
  "name_body ss = (if length ss = 1 then [] else if length ss = 2 then [0x2e] else [0x2f, of_nat (length ss)]) @ concat (map pad_seg ss)"

lemma build_name_string_ok:
  assumes "name_ok name"
  shows "build_name_string name = Inr (takeWhile is_prefix name @ name_body (name_segs name))"
proof -
  let ?pre = "takeWhile is_prefix name"
  obtain s ss where ss: "name_segs name = s # ss" by (cases "name_segs name") (simp_all add: name_segs_def)
  have nd: "0x2e \<notin> set ?pre" by (auto simp: is_prefix_def dest: set_takeWhileD)
  have split: "split_on 0x2e name = (?pre @ s) # ss"
    using split_on_append [OF nd, of "dropWhile is_prefix name"] ss by (simp add: name_segs_def)
  have ok: "seg_ok s" "\<forall>s \<in> set (s # ss). seg_ok s" "length (s # ss) \<le> 255"
    using assms ss by (auto simp: name_ok_def)
  have p: "name_prefix 0 (?pre @ s) = (?pre, length ?pre)"
    using name_prefix_append [of ?pre s 0] ok(1) seg_start_not_prefix by (auto simp: seg_ok_def dest: set_takeWhileD)
  have ne: "s \<noteq> []" using ok(1) by (simp add: seg_ok_def)
  show ?thesis
    using ne ok(3) build_segs_ok [OF ok(2)] build_name_seg_ok [OF ok(1)]
    by (cases "ss = []") (simp_all add: build_name_string_def Let_def split p ss name_body_def del: build_segs.simps)
qed

lemma name_body_start:
  assumes "name_ok name"
  shows "\<not> is_prefix (hd (name_body (name_segs name)))" and "4 \<le> length (name_body (name_segs name))"
    and "name_start (hd (takeWhile is_prefix name @ name_body (name_segs name)))"
    and "parse_segs (name_body (name_segs name) @ rest) = Some (map pad_seg (name_segs name), rest)"
proof -
  let ?ss = "name_segs name"
  obtain s ss where ss: "?ss = s # ss" by (cases ?ss) (simp_all add: name_segs_def)
  have ok: "seg_ok s" "\<forall>s \<in> set ?ss. seg_ok s" "length ?ss \<le> 255" using assms ss by (auto simp: name_ok_def)
  obtain c cs where c: "s = c # cs" "seg_start c" using ok(1) by (cases s) (auto simp: seg_ok_def)
  note nc = seg_start_not_prefix [OF c(2)]
  have pad: "pad_seg s = c # (cs @ replicate (4 - length s) 0x5f)" by (simp add: pad_seg_def c(1))
  have l4: "length (pad_seg s) = 4" using length_pad_seg [OF ok(1)] .
  show np: "\<not> is_prefix (hd (name_body ?ss))" using nc by (simp add: name_body_def ss pad is_prefix_def)
  show "4 \<le> length (name_body ?ss)" using l4 by (simp add: name_body_def ss)
  have "name_start (hd (name_body ?ss))" using c(2) by (auto simp: name_body_def ss pad name_start_def)
  moreover have "takeWhile is_prefix name \<noteq> [] \<Longrightarrow> is_prefix (hd (takeWhile is_prefix name))"
    by (metis hd_in_set set_takeWhileD)
  ultimately show "name_start (hd (takeWhile is_prefix name @ name_body ?ss))" by (cases "takeWhile is_prefix name = []") (auto simp: name_start_def)
  have u: "unat (of_nat (length ?ss) :: u8) = length ?ss" using ok(3) by (simp add: unat_of_nat take_bit_nat_eq_self)
  have t: "take_segs (length ?ss) (concat (map pad_seg ?ss) @ rest) = Some (map pad_seg ?ss, rest)" using take_segs_ok [OF ok(2)] .
  show "parse_segs (name_body ?ss @ rest) = Some (map pad_seg ?ss, rest)"
  proof (cases "ss = []")
    case True
    then have "name_body ?ss = pad_seg s" by (simp add: name_body_def ss)
    then show ?thesis using t True nc by (simp add: parse_segs_def ss pad)
  next
    case False
    then have l: "length ?ss \<noteq> 1" by (simp add: ss)
    show ?thesis
    proof (cases "length ?ss = 2")
      case True
      then have "name_body ?ss = 0x2e # concat (map pad_seg ?ss)" by (simp add: name_body_def)
      then show ?thesis using t unfolding True parse_segs_def by simp
    next
      case False
      then have "name_body ?ss = 0x2f # of_nat (length ?ss) # concat (map pad_seg ?ss)" using l by (simp add: name_body_def)
      then show ?thesis using t u unfolding parse_segs_def by simp
    qed
  qed
qed

lemma parse_name_ok:
  assumes "name_ok name" and "build_name_string name = Inr bs"
  shows "parse_name (bs @ rest) = Some (canon_name name, rest)" and "name_start (hd bs)" and "4 \<le> length bs"
proof -
  let ?pre = "takeWhile is_prefix name" and ?b = "name_body (name_segs name)"
  have bs: "bs = ?pre @ ?b" using build_name_string_ok [OF assms(1)] assms(2) by simp
  note b = name_body_start [OF assms(1)]
  have ne: "?b \<noteq> []" using b(2) by auto
  then have tw: "takeWhile is_prefix (?pre @ ?b @ rest) = ?pre" "dropWhile is_prefix (?pre @ ?b @ rest) = ?b @ rest"
    using b(1) by (cases ?b; auto simp: takeWhile_append dropWhile_append dest: set_takeWhileD)+
  show "parse_name (bs @ rest) = Some (canon_name name, rest)"
    using b(4) tw by (simp add: parse_name_def bs canon_name_def)
  show "name_start (hd bs)" using b(3) by (simp add: bs)
  show "4 \<le> length bs" using b(2) by (simp add: bs)
qed

section \<open>Package lengths\<close>

fun le_nat :: "u8 list \<Rightarrow> nat" where
  "le_nat [] = 0"
| "le_nat (b # bs) = unat b + 256 * le_nat bs"

definition parse_pkg_len :: "u8 list \<Rightarrow> (nat \<times> nat \<times> u8 list) option" where
  "parse_pkg_len bs =
     (case bs of
        [] \<Rightarrow> None
      | b # r \<Rightarrow>
          let k = unat b div 64 in
          if k = 0 then Some (unat b, 1, r)
          else if length r < k then None
          else Some (unat b mod 16 + 16 * le_nat (take k r), k + 1, drop k r))"

definition parse_body :: "u8 list \<Rightarrow> (u8 list \<times> u8 list) option" where
  "parse_body bs =
     Option.bind (parse_pkg_len bs) (\<lambda>(v, k, r). if k \<le> v \<and> v - k \<le> length r then Some (take (v - k) r, drop (v - k) r) else None)"

lemma nat_low_bits: "(n :: nat) AND 15 = n mod 16" "push_bit 6 k OR (n mod 16) = 64 * k + n mod 16"
proof -
  have m: "n mod 16 = take_bit 4 n" by (simp add: take_bit_eq_mod)
  show "n AND 15 = n mod 16" using take_bit_eq_mask [of 4 n] by (simp add: m mask_eq_exp_minus_1)
  have "push_bit 6 k + take_bit 4 n = push_bit 6 k OR take_bit 4 n"
    by (rule disjunctive_add) (auto simp: bit_push_bit_iff bit_take_bit_iff)
  then show "push_bit 6 k OR (n mod 16) = 64 * k + n mod 16" unfolding m by (simp add: push_bit_eq_mult)
qed

lemma pkg_len_bytes:
  assumes "n < 2 ^ 28"
  shows "unat (of_nat (drop_bit 4 n) :: u8) + 256 * unat (of_nat (drop_bit 12 n) :: u8) + 65536 * unat (of_nat (drop_bit 20 n) :: u8) = n div 16"
    and "n < 2 ^ 12 \<Longrightarrow> unat (of_nat (drop_bit 4 n) :: u8) = n div 16"
    and "n < 2 ^ 20 \<Longrightarrow> unat (of_nat (drop_bit 4 n) :: u8) + 256 * unat (of_nat (drop_bit 12 n) :: u8) = n div 16"
proof -
  have u: "unat (of_nat (drop_bit k n) :: u8) = n div 2 ^ k mod 256" for k by (simp add: unat_of_nat take_bit_eq_mod drop_bit_eq_div)
  have a: "n div 2 ^ 12 = n div 16 div 256" "n div 2 ^ 20 = n div 16 div 256 div 256" by (simp_all add: div_mult2_eq [symmetric])
  let ?q = "n div 16"
  have q: "?q = ?q mod 256 + 256 * (?q div 256 mod 256) + 65536 * (?q div 256 div 256)"
    using div_mult_mod_eq [of ?q 256] div_mult_mod_eq [of "?q div 256" 256] by linarith
  have b: "?q < 2 ^ 24" using assms by simp
  then have "?q div 256 div 256 mod 256 = ?q div 256 div 256" by simp
  then show "unat (of_nat (drop_bit 4 n) :: u8) + 256 * unat (of_nat (drop_bit 12 n) :: u8) + 65536 * unat (of_nat (drop_bit 20 n) :: u8) = n div 16"
    using q unfolding u a by simp
  show "n < 2 ^ 12 \<Longrightarrow> unat (of_nat (drop_bit 4 n) :: u8) = n div 16" unfolding u by simp
  show "unat (of_nat (drop_bit 4 n) :: u8) + 256 * unat (of_nat (drop_bit 12 n) :: u8) = n div 16" if "n < 2 ^ 20"
  proof -
    have "?q div 256 mod 256 = ?q div 256" using that by simp
    then show ?thesis unfolding u a by simp
  qed
qed

lemma unat_of_nat_u8: "m < 256 \<Longrightarrow> unat (of_nat m :: u8) = m"
  by (simp add: unat_of_nat take_bit_nat_eq_self)

lemma parse_pkg_len_ok:
  assumes "len + 4 < 2 ^ 28"
  shows "parse_pkg_len (build_pkg_length len incl @ rest) =
    Some (if incl then len + pkg_bytes_count len else len, pkg_bytes_count len, rest)"
proof -
  define pkg where "pkg = (if incl then len + pkg_bytes_count len else len)"
  have b: "len \<le> pkg" "pkg \<le> len + pkg_bytes_count len" by (simp_all add: pkg_def)
  have hd: "unat (of_nat (64 * k + pkg mod 16) :: u8) = 64 * k + pkg mod 16" if "k < 4" for k
    using that mod_less_divisor [of 16 pkg] by (intro unat_of_nat_u8) linarith
  have k: "(64 * k + pkg mod 16) div 64 = k" "(64 * k + pkg mod 16) mod 16 = pkg mod 16" for k :: nat
  proof -
    have "pkg mod 16 < 64" using mod_less_divisor [of 16 pkg] by linarith
    then show "(64 * k + pkg mod 16) div 64 = k" by simp
    have "64 * k + pkg mod 16 = pkg mod 16 + 16 * (4 * k)" by simp
    then show "(64 * k + pkg mod 16) mod 16 = pkg mod 16" by (metis mod_mult_self2 mod_mod_trivial)
  qed
  have dm: "pkg mod 16 + 16 * (pkg div 16) = pkg" by simp
  consider "pkg_bytes_count len = 1" "pkg < 64" | "pkg_bytes_count len = 2" "pkg < 2 ^ 12" | "pkg_bytes_count len = 3" "pkg < 2 ^ 20"
    | "pkg_bytes_count len = 4" "pkg < 2 ^ 28"
    using b assms by (auto simp: pkg_bytes_count_def split: if_splits)
  then show ?thesis
  proof cases
    case 1
    then have u: "unat (of_nat pkg :: u8) = pkg" by (intro unat_of_nat_u8) simp
    show ?thesis
      using 1 u unfolding build_pkg_length_def Let_def pkg_def [symmetric] by (simp add: parse_pkg_len_def)
  next
    case 2
    have "unat (of_nat (drop_bit 4 pkg) :: u8) = pkg div 16" using pkg_len_bytes(2) [of pkg] 2 by simp
    then show ?thesis
      using 2 hd [of 1] k [of 1] dm unfolding build_pkg_length_def Let_def pkg_def [symmetric] nat_low_bits
      by (simp add: parse_pkg_len_def del: of_nat_add)
  next
    case 3
    have "unat (of_nat (drop_bit 4 pkg) :: u8) + 256 * unat (of_nat (drop_bit 12 pkg) :: u8) = pkg div 16" using pkg_len_bytes(3) [of pkg] 3 by simp
    then show ?thesis
      using 3 hd [of 2] k [of 2] dm unfolding build_pkg_length_def Let_def pkg_def [symmetric] nat_low_bits
      by (simp add: parse_pkg_len_def numeral_2_eq_2 del: of_nat_add)
  next
    case 4
    have "pkg mod 16 + (16 * unat (of_nat (drop_bit 4 pkg) :: u8) + (4096 * unat (of_nat (drop_bit 12 pkg) :: u8) +
        1048576 * unat (of_nat (drop_bit 20 pkg) :: u8))) = pkg"
      using pkg_len_bytes(1) [OF 4(2)] dm by linarith
    then show ?thesis
      using 4 hd [of 3] k [of 3] dm unfolding build_pkg_length_def Let_def pkg_def [symmetric] nat_low_bits
      by (simp add: parse_pkg_len_def numeral_3_eq_3 del: of_nat_add)
  qed
qed

lemma length_pkg [simp]: "length (build_pkg_length len incl) = pkg_bytes_count len"
  by (simp add: build_pkg_length_def Let_def pkg_bytes_count_def)

lemma pkg_bytes_count_pos: "0 < pkg_bytes_count len"
  by (simp add: pkg_bytes_count_def)

lemma parse_body_ok:
  assumes "length body + 4 < 2 ^ 28"
  shows "parse_body (build_pkg_length (length body) True @ body @ rest) = Some (body, rest)"
  using parse_pkg_len_ok [OF assms, of True "body @ rest"] by (simp add: parse_body_def)

section \<open>Constants\<close>

text \<open>An integer constant, and the other terms without parts.\<close>

definition parse_int :: "u8 list \<Rightarrow> (u64 \<times> u8 list) option" where
  "parse_int bs =
     (case bs of
        [] \<Rightarrow> None
      | b # r \<Rightarrow>
          if b = 0x00 then Some (0, r) else if b = 0x01 then Some (1, r)
          else if b = 0x0a \<and> length r \<ge> 1 then Some (from_le (take 1 r), drop 1 r)
          else if b = 0x0b \<and> length r \<ge> 2 then Some (from_le (take 2 r), drop 2 r)
          else if b = 0x0c \<and> length r \<ge> 4 then Some (from_le (take 4 r), drop 4 r)
          else if b = 0x0e \<and> length r \<ge> 8 then Some (from_le (take 8 r), drop 8 r)
          else None)"

definition parse_leaf :: "u8 list \<Rightarrow> (aml \<times> u8 list) option" where
  "parse_leaf bs =
     (case bs of
        [] \<Rightarrow> None
      | b # r \<Rightarrow>
          if b = 0x00 then Some (AmlZero, r) else if b = 0x01 then Some (AmlOne, r) else if b = 0xff then Some (AmlOnes, r)
          else if b = 0x0a \<and> length r \<ge> 1 then Some (AmlByte (from_le (take 1 r)), drop 1 r)
          else if b = 0x0b \<and> length r \<ge> 2 then Some (AmlWord (from_le (take 2 r)), drop 2 r)
          else if b = 0x0c \<and> length r \<ge> 4 then Some (AmlDWord (from_le (take 4 r)), drop 4 r)
          else if b = 0x0e \<and> length r \<ge> 8 then Some (AmlQWord (from_le (take 8 r)), drop 8 r)
          else if b = 0x0d \<and> 0 \<in> set r then Some (AmlString (takeWhile (\<lambda>c. c \<noteq> 0) r), tl (dropWhile (\<lambda>c. c \<noteq> 0) r))
          else if 0x60 \<le> b \<and> b \<le> 0x67 then Some (AmlLocal (b - 0x60), r)
          else if 0x68 \<le> b \<and> b \<le> 0x6e then Some (AmlArg (b - 0x68), r)
          else if b = 0x11
          then Option.bind (parse_body r) (\<lambda>(body, r1). Option.bind (parse_int body) (\<lambda>(n, d).
                 if unat n = length d then Some (AmlBuffer d, r1) else None))
          else None)"

definition int_term :: "u64 \<Rightarrow> aml" where
  "int_term v =
     (if v = 0 then AmlZero else if v = 1 then AmlOne
      else if v \<le> 0xff then AmlByte (ucast v) else if v \<le> 0xffff then AmlWord (ucast v)
      else if v \<le> 0xffffffff then AmlDWord (ucast v) else AmlQWord v)"

lemma to_le_ucast:
  assumes "8 * n \<le> LENGTH('b::len)"
  shows "to_le n (ucast (v :: 'a::len word) :: 'b word) = to_le n v"
proof (rule nth_equalityI)
  fix i assume "i < length (to_le n (ucast v :: 'b word))"
  then have i: "i < n" by simp
  show "to_le n (ucast v :: 'b word) ! i = to_le n v ! i"
    using assms i by (intro bit_eqI) (auto simp: bit_to_le bit_ucast_iff)
qed simp

lemma take_bit_below: "unat v < 2 ^ k \<Longrightarrow> take_bit k v = (v :: 'a::len word)"
  by (simp add: word_unat_eq_iff unsigned_take_bit_eq take_bit_nat_eq_self)

lemma from_le_sized: "unat (v :: u64) < 2 ^ (8 * n) \<Longrightarrow> from_le (to_le n v) = v"
  by (simp add: from_le_to_le take_bit_below)

lemma parse_int_ok: "parse_int (integer_bytes v @ rest) = Some (v, rest)"
proof -
  have b: "to_le 1 (ucast v :: u8) = to_le 1 v" "to_le 2 (ucast v :: u16) = to_le 2 v" "to_le 4 (ucast v :: u32) = to_le 4 v"
    by (simp_all add: to_le_ucast)
  have "v \<le> 0xff \<Longrightarrow> from_le (to_le 1 v) = v" "v \<le> 0xffff \<Longrightarrow> from_le (to_le 2 v) = v" "v \<le> 0xffffffff \<Longrightarrow> from_le (to_le 4 v) = v"
    "from_le (to_le 8 v) = v"
    by (intro from_le_sized; simp add: word_le_nat_alt)+
  then show ?thesis by (auto simp: parse_int_def integer_bytes_def bytes_type_def b [unfolded One_nat_def])
qed

lemma parse_leaf_int: "parse_leaf (integer_bytes v @ rest) = Some (int_term v, rest)"
  by (auto simp: parse_leaf_def integer_bytes_def bytes_type_def int_term_def from_le_to_le_full)

lemma parse_leaf_string: "0 \<notin> set s \<Longrightarrow> parse_leaf (string_bytes s @ rest) = Some (AmlString s, rest)"
  by (auto simp: parse_leaf_def string_bytes_def takeWhile_append dropWhile_append)

lemma integer_bytes_pos: "integer_bytes v \<noteq> []" "length (integer_bytes v) \<le> 9"
  by (simp_all add: integer_bytes_def bytes_type_def)

lemma parse_leaf_buffer:
  assumes "length d < 2 ^ 27"
  shows "parse_leaf (buffer_bytes d @ rest) = Some (AmlBuffer d, rest)"
proof -
  let ?b = "integer_bytes (of_nat (length d)) @ d"
  have l: "length ?b + 4 < 2 ^ 28" using integer_bytes_pos(2) [of "of_nat (length d)"] assms by simp
  have "unat (of_nat (length d) :: u64) = length d" using assms by (simp add: unat_of_nat take_bit_nat_eq_self)
  then show ?thesis
    using parse_body_ok [OF l, of rest] by (simp add: parse_leaf_def buffer_bytes_def pkg_object_def parse_int_ok)
qed

section \<open>Fields\<close>

definition code_of :: "('p \<Rightarrow> u8) \<Rightarrow> 'p list \<Rightarrow> u8 \<Rightarrow> 'p option" where
  "code_of f ps b = find (\<lambda>p. f p = b) ps"

definition space_types :: "aml_address_space_type list" where
  "space_types = [SystemMemory, SystemIO, PCIConfig, EmbeddedControl, SMBus, SystemCMOS, PciBarTarget, IPMI, GeneralPurposeIO, GenericSerialBus, PCC]"

definition access_types :: "aml_field_access_type list" where
  "access_types = [AccAny, AccByte, AccWord, AccDWord, AccQWord, AccBuffer]"

definition update_rules :: "aml_field_update_rule list" where
  "update_rules = [Preserve, WriteAsOnes, WriteAsZeros]"

text \<open>The flags of a field: the access type in bits 0 to 3, the lock rule in bit 4, the update rule in bits 5 and 6.\<close>

definition parse_field_flags :: "u8 \<Rightarrow> (aml_field_access_type \<times> aml_field_lock_rule \<times> aml_field_update_rule) option" where
  "parse_field_flags b =
     Option.bind (code_of access_code access_types (b AND 0x0f)) (\<lambda>acc.
     Option.bind (code_of update_code update_rules (drop_bit 5 b AND 0x03)) (\<lambda>upd.
       Some (acc, if bit b 4 then Lock else NoLock, upd)))"

definition parse_unit :: "u8 list \<Rightarrow> (field_unit \<times> u8 list) option" where
  "parse_unit bs =
     (case bs of
        [] \<Rightarrow> None
      | b # r \<Rightarrow>
          if b = 0 then Option.bind (parse_pkg_len r) (\<lambda>(v, _, r1). Some ((None, of_nat v), r1))
          else if length bs < 4 then None
          else Option.bind (parse_pkg_len (drop 4 bs)) (\<lambda>(v, _, r1). Some ((Some (take 4 bs), of_nat v), r1)))"

fun parse_units :: "nat \<Rightarrow> u8 list \<Rightarrow> field_unit list option" where
  "parse_units 0 bs = (if bs = [] then Some [] else None)"
| "parse_units (Suc n) bs =
     (if bs = [] then Some []
      else Option.bind (parse_unit bs) (\<lambda>(u, r). Option.bind (parse_units n r) (\<lambda>us. Some (u # us))))"

fun unit_ok :: "field_unit \<Rightarrow> bool" where
  "unit_ok (name, len) \<longleftrightarrow> (case name of Some s \<Rightarrow> seg_ok s | None \<Rightarrow> True) \<and> unat len + 4 < 2 ^ 28"

fun canon_unit :: "field_unit \<Rightarrow> field_unit" where
  "canon_unit (name, len) = (map_option pad_seg name, len)"

lemma parse_field_flags_ok: "parse_field_flags (field_flags acc NoLock upd) = Some (acc, NoLock, upd)"
  by (cases acc; cases upd; simp add: parse_field_flags_def field_flags_def code_of_def access_types_def update_rules_def)

lemma space_type_ok: "code_of space_type_code space_types (space_type_code t) = Some t"
  by (cases t) (simp_all add: code_of_def space_types_def)

lemma parse_unit_ok:
  assumes "unit_ok u" and "field_unit_bytes u = Inr b"
  shows "parse_unit (b @ rest) = Some (canon_unit u, rest)" and "b \<noteq> []"
proof -
  obtain name len where u: "u = (name, len)" by (cases u) auto
  have l: "unat len + 4 < 2 ^ 28" using assms(1) by (simp add: u)
  note p = parse_pkg_len_ok [OF l, of False rest]
  have "parse_unit (b @ rest) = Some (canon_unit u, rest) \<and> b \<noteq> []"
  proof (cases name)
    case None
    then show ?thesis using assms(2) p by (auto simp: u field_unit_bytes_def parse_unit_def)
  next
    case (Some s)
    then have ok: "seg_ok s" using assms(1) by (simp add: u)
    obtain c cs where c: "s = c # cs" "seg_start c" using ok by (cases s) (auto simp: seg_ok_def)
    have b: "b = pad_seg s @ build_pkg_length (unat len) False" using assms(2) build_name_seg_ok [OF ok] by (simp add: u field_unit_bytes_def Some)
    have "pad_seg s = c # (cs @ replicate (4 - length s) 0x5f)" by (simp add: pad_seg_def c(1))
    then have "parse_unit (b @ rest) = Option.bind (parse_pkg_len (drop 4 (b @ rest))) (\<lambda>(v, _, r1). Some ((Some (take 4 (b @ rest)), of_nat v), r1))"
      using seg_start_not_prefix [OF c(2)] length_pad_seg [OF ok] by (simp add: parse_unit_def b)
    then show ?thesis using p length_pad_seg [OF ok] by (auto simp: b u Some)
  qed
  then show "parse_unit (b @ rest) = Some (canon_unit u, rest)" "b \<noteq> []" by simp_all
qed

lemma parse_units_ok:
  assumes "\<forall>u \<in> set us. unit_ok u" and "field_units_bytes us = Inr b" and "length b \<le> n"
  shows "parse_units n b = Some (map canon_unit us)"
  using assms
proof (induction us arbitrary: b n)
  case Nil
  then show ?case by (cases n) simp_all
next
  case (Cons u us)
  obtain b1 b2 where b: "field_unit_bytes u = Inr b1" "field_units_bytes us = Inr b2" "b = b1 @ b2"
    using Cons.prems(2) by (auto simp: and_then_Inr)
  note p = parse_unit_ok [OF _ b(1)]
  have ok: "unit_ok u" using Cons.prems(1) by simp
  obtain m where m: "n = Suc m" using Cons.prems(3) p(2) [OF ok] b(3) by (cases n) auto
  have "0 < length b1" using p(2) [OF ok] by simp
  then have "length b2 \<le> m" using Cons.prems(3) b(3) m by (simp del: length_greater_0_conv)
  then show ?case using Cons.IH [OF _ b(2)] Cons.prems(1) p(1) [OF ok] p(2) [OF ok] by (simp add: m b(3))
qed

section \<open>Terms\<close>

definition op3s :: "aml_op3 list" where
  "op3s = [AmlAdd, AmlSubtract, AmlConcat, AmlAnd, AmlOr, AmlShiftLeft, AmlShiftRight, AmlIndex]"

definition op1s :: "aml_op1 list" where
  "op1s = [AmlIncrement, AmlDecrement, AmlLNot, AmlSizeOf, AmlDeRefOf]"

definition op2s :: "aml_op2 list" where
  "op2s = [AmlStore, AmlNotify, AmlEqual, AmlLGreater, AmlLLess, AmlLAnd, AmlLOr]"

definition create_fields :: "aml_create_field list" where
  "create_fields = [AmlCreateWordField, AmlCreateDWordField, AmlCreateQWordField]"

definition parse_op_region :: "u8 list \<Rightarrow> (aml \<times> u8 list) option" where
  "parse_op_region bs =
     Option.bind (parse_name bs) (\<lambda>(nm, r). case r of [] \<Rightarrow> None | b # r1 \<Rightarrow>
       Option.bind (code_of space_type_code space_types b) (\<lambda>sp. Option.bind (parse_int r1) (\<lambda>(off, r2).
       Option.bind (parse_int r2) (\<lambda>(len, r3). Some (AmlOpRegion nm sp off len, r3)))))"

definition parse_field :: "u8 list \<Rightarrow> (aml \<times> u8 list) option" where
  "parse_field bs =
     Option.bind (parse_body bs) (\<lambda>(body, rest). Option.bind (parse_name body) (\<lambda>(nm, r). case r of [] \<Rightarrow> None | fl # r1 \<Rightarrow>
       Option.bind (parse_field_flags fl) (\<lambda>(acc, lck, upd). Option.bind (parse_units (length r1) r1) (\<lambda>us.
         Some (AmlField nm acc lck upd us, rest)))))"

definition parse_mutex :: "u8 list \<Rightarrow> (aml \<times> u8 list) option" where
  "parse_mutex bs = Option.bind (parse_name bs) (\<lambda>(nm, r). case r of [] \<Rightarrow> None | lvl # r1 \<Rightarrow> Some (AmlMutex nm lvl, r1))"

text \<open>
  Terms, lists of terms that fill a body, and a number of arguments. \<open>ar\<close> is the number of
  arguments of a name, which the decoder knows from the declarations. The natural number
  bounds the nesting; the length of the input is enough.
\<close>

fun parse_term :: "(u8 list \<Rightarrow> nat) \<Rightarrow> nat \<Rightarrow> u8 list \<Rightarrow> (aml \<times> u8 list) option"
  and parse_list :: "(u8 list \<Rightarrow> nat) \<Rightarrow> nat \<Rightarrow> u8 list \<Rightarrow> aml list option"
  and parse_args :: "(u8 list \<Rightarrow> nat) \<Rightarrow> nat \<Rightarrow> nat \<Rightarrow> u8 list \<Rightarrow> (aml list \<times> u8 list) option" where
  "parse_term ar 0 bs = None"
| "parse_term ar (Suc n) [] = None"
| "parse_term ar (Suc n) (b # r) =
     (if name_start b
      then Option.bind (parse_name (b # r)) (\<lambda>(nm, r1).
             if ar nm = 0 then Some (AmlName nm, r1)
             else Option.bind (parse_args ar n (ar nm) r1) (\<lambda>(as, r2). Some (AmlCall nm as, r2)))
      else if b = 0x5b
      then (case r of
              [] \<Rightarrow> None
            | x # r1 \<Rightarrow>
                if x = 0x80 then parse_op_region r1
                else if x = 0x81 then parse_field r1
                else if x = 0x01 then parse_mutex r1
                else if x = 0x82
                then Option.bind (parse_body r1) (\<lambda>(body, rest). Option.bind (parse_name body) (\<lambda>(nm, r2).
                       Option.bind (parse_list ar n r2) (\<lambda>cs. Some (AmlDevice nm cs, rest))))
                else if x = 0x23
                then Option.bind (parse_term ar n r1) (\<lambda>(m, r2).
                       if length r2 < 2 then None else Some (AmlAcquire m (from_le (take 2 r2)), drop 2 r2))
                else if x = 0x27 then Option.bind (parse_term ar n r1) (\<lambda>(m, r2). Some (AmlRelease m, r2))
                else None)
      else if b = 0x08
      then Option.bind (parse_name r) (\<lambda>(nm, r1). Option.bind (parse_term ar n r1) (\<lambda>(t, r2). Some (AmlNameDecl nm t, r2)))
      else if b = 0x12
      then Option.bind (parse_body r) (\<lambda>(body, rest).
             case body of [] \<Rightarrow> None | k # r1 \<Rightarrow> Option.bind (parse_list ar n r1) (\<lambda>cs. Some (AmlPackage k cs, rest)))
      else if b = 0x10
      then Option.bind (parse_body r) (\<lambda>(body, rest). Option.bind (parse_name body) (\<lambda>(nm, r1).
             Option.bind (parse_list ar n r1) (\<lambda>cs. Some (AmlScope nm cs, rest))))
      else if b = 0x14
      then Option.bind (parse_body r) (\<lambda>(body, rest). Option.bind (parse_name body) (\<lambda>(nm, r1).
             case r1 of [] \<Rightarrow> None | fl # r2 \<Rightarrow> Option.bind (parse_list ar n r2) (\<lambda>cs.
               Some (AmlMethod nm (fl AND 7) (bit fl 3) cs, rest))))
      else if b = 0xa4 then Option.bind (parse_term ar n r) (\<lambda>(t, r1). Some (AmlReturn (Some t), r1))
      else if b = 0xa0
      then Option.bind (parse_body r) (\<lambda>(body, rest). Option.bind (parse_term ar n body) (\<lambda>(c, r1).
             Option.bind (parse_list ar n r1) (\<lambda>cs. Some (AmlIf c cs, rest))))
      else if b = 0xa1
      then Option.bind (parse_body r) (\<lambda>(body, rest). Option.bind (parse_list ar n body) (\<lambda>cs. Some (AmlElse cs, rest)))
      else if b = 0xa2
      then Option.bind (parse_body r) (\<lambda>(body, rest). Option.bind (parse_term ar n body) (\<lambda>(c, r1).
             Option.bind (parse_list ar n r1) (\<lambda>cs. Some (AmlWhile c cs, rest))))
      else case code_of op3_code op3s b of
        Some p \<Rightarrow> Option.bind (parse_term ar n r) (\<lambda>(t1, r1). Option.bind (parse_term ar n r1) (\<lambda>(t2, r2).
                    Option.bind (parse_term ar n r2) (\<lambda>(t3, r3). Some (AmlOp3 p t1 t2 t3, r3))))
      | None \<Rightarrow> (case code_of op1_code op1s b of
          Some p \<Rightarrow> Option.bind (parse_term ar n r) (\<lambda>(t1, r1). Some (AmlOp1 p t1, r1))
        | None \<Rightarrow> (case code_of op2_code op2s b of
            Some p \<Rightarrow> Option.bind (parse_term ar n r) (\<lambda>(t1, r1). Option.bind (parse_term ar n r1) (\<lambda>(t2, r2). Some (AmlOp2 p t1 t2, r2)))
          | None \<Rightarrow> (case code_of create_field_code create_fields b of
              Some p \<Rightarrow> Option.bind (parse_term ar n r) (\<lambda>(t1, r1). Option.bind (parse_term ar n r1) (\<lambda>(t2, r2).
                          Option.bind (parse_name r2) (\<lambda>(nm, r3). Some (AmlCreateField p t1 t2 nm, r3))))
            | None \<Rightarrow> parse_leaf (b # r)))))"
| "parse_list ar 0 bs = (if bs = [] then Some [] else None)"
| "parse_list ar (Suc n) bs =
     (if bs = [] then Some []
      else Option.bind (parse_term ar n bs) (\<lambda>(t, r). Option.bind (parse_list ar n r) (\<lambda>ts. Some (t # ts))))"
| "parse_args ar n 0 bs = Some ([], bs)"
| "parse_args ar 0 (Suc k) bs = None"
| "parse_args ar (Suc n) (Suc k) bs =
     Option.bind (parse_term ar n bs) (\<lambda>(t, r). Option.bind (parse_args ar n k r) (\<lambda>(ts, r1). Some (t # ts, r1)))"

text \<open>What callers may build, and the form in which the decoder returns it.\<close>

fun aml_ok :: "(u8 list \<Rightarrow> nat) \<Rightarrow> aml \<Rightarrow> bool" where
  "aml_ok ar (AmlString s) \<longleftrightarrow> 0 \<notin> set s"
| "aml_ok ar (AmlNameDecl nm t) \<longleftrightarrow> name_ok nm \<and> aml_ok ar t"
| "aml_ok ar (AmlName nm) \<longleftrightarrow> name_ok nm \<and> ar (canon_name nm) = 0"
| "aml_ok ar (AmlPackage k cs) \<longleftrightarrow> (\<forall>c \<in> set cs. aml_ok ar c)"
| "aml_ok ar (AmlVarPackage k cs) \<longleftrightarrow> False"
| "aml_ok ar (AmlOpRegion nm sp off len) \<longleftrightarrow> name_ok nm"
| "aml_ok ar (AmlField nm acc lck upd us) \<longleftrightarrow> name_ok nm \<and> lck = NoLock \<and> (\<forall>u \<in> set us. unit_ok u)"
| "aml_ok ar (AmlScope nm cs) \<longleftrightarrow> name_ok nm \<and> (\<forall>c \<in> set cs. aml_ok ar c)"
| "aml_ok ar (AmlDevice nm cs) \<longleftrightarrow> name_ok nm \<and> (\<forall>c \<in> set cs. aml_ok ar c)"
| "aml_ok ar (AmlMethod nm k ser cs) \<longleftrightarrow> name_ok nm \<and> (\<forall>c \<in> set cs. aml_ok ar c)"
| "aml_ok ar (AmlReturn None) \<longleftrightarrow> True"
| "aml_ok ar (AmlReturn (Some t)) \<longleftrightarrow> aml_ok ar t"
| "aml_ok ar (AmlCall nm as) \<longleftrightarrow> name_ok nm \<and> as \<noteq> [] \<and> ar (canon_name nm) = length as \<and> (\<forall>a \<in> set as. aml_ok ar a)"
| "aml_ok ar (AmlOp3 p t1 t2 t3) \<longleftrightarrow> aml_ok ar t1 \<and> aml_ok ar t2 \<and> aml_ok ar t3"
| "aml_ok ar (AmlOp1 p t) \<longleftrightarrow> aml_ok ar t"
| "aml_ok ar (AmlOp2 p t1 t2) \<longleftrightarrow> aml_ok ar t1 \<and> aml_ok ar t2"
| "aml_ok ar (AmlIf c cs) \<longleftrightarrow> aml_ok ar c \<and> (\<forall>c \<in> set cs. aml_ok ar c)"
| "aml_ok ar (AmlElse cs) \<longleftrightarrow> (\<forall>c \<in> set cs. aml_ok ar c)"
| "aml_ok ar (AmlWhile c cs) \<longleftrightarrow> aml_ok ar c \<and> (\<forall>c \<in> set cs. aml_ok ar c)"
| "aml_ok ar (AmlMutex nm lvl) \<longleftrightarrow> name_ok nm"
| "aml_ok ar (AmlAcquire m t) \<longleftrightarrow> aml_ok ar m"
| "aml_ok ar (AmlRelease m) \<longleftrightarrow> aml_ok ar m"
| "aml_ok ar (AmlCreateField k t1 t2 nm) \<longleftrightarrow> aml_ok ar t1 \<and> aml_ok ar t2 \<and> name_ok nm"
| "aml_ok ar t \<longleftrightarrow> True"

fun canon :: "aml \<Rightarrow> aml" where
  "canon (AmlInteger v) = int_term v"
| "canon (AmlNameDecl nm t) = AmlNameDecl (canon_name nm) (canon t)"
| "canon (AmlName nm) = AmlName (canon_name nm)"
| "canon (AmlEisaId s) = (case eisa_dword s of Inr d \<Rightarrow> AmlDWord (from_le (rev (to_le 4 d))) | Inl _ \<Rightarrow> AmlEisaId s)"
| "canon (AmlToUuid s) =
     (case uuid_digits s [6, 4, 2, 0, 11, 9, 16, 14, 19, 21, 24, 26, 28, 30, 32, 34] of Inr d \<Rightarrow> AmlBuffer d | Inl _ \<Rightarrow> AmlToUuid s)"
| "canon (AmlPackage k cs) = AmlPackage k (map canon cs)"
| "canon (AmlVarPackage k cs) = AmlVarPackage k (map canon cs)"
| "canon (AmlOpRegion nm sp off len) = AmlOpRegion (canon_name nm) sp off len"
| "canon (AmlField nm acc lck upd us) = AmlField (canon_name nm) acc lck upd (map canon_unit us)"
| "canon (AmlScope nm cs) = AmlScope (canon_name nm) (map canon cs)"
| "canon (AmlDevice nm cs) = AmlDevice (canon_name nm) (map canon cs)"
| "canon (AmlMethod nm k ser cs) = AmlMethod (canon_name nm) k ser (map canon cs)"
| "canon (AmlReturn None) = AmlReturn (Some AmlZero)"
| "canon (AmlReturn (Some t)) = AmlReturn (Some (canon t))"
| "canon (AmlCall nm as) = AmlCall (canon_name nm) (map canon as)"
| "canon (AmlOp3 p t1 t2 t3) = AmlOp3 p (canon t1) (canon t2) (canon t3)"
| "canon (AmlOp1 p t) = AmlOp1 p (canon t)"
| "canon (AmlOp2 p t1 t2) = AmlOp2 p (canon t1) (canon t2)"
| "canon (AmlIf c cs) = AmlIf (canon c) (map canon cs)"
| "canon (AmlElse cs) = AmlElse (map canon cs)"
| "canon (AmlWhile c cs) = AmlWhile (canon c) (map canon cs)"
| "canon (AmlMutex nm lvl) = AmlMutex (canon_name nm) lvl"
| "canon (AmlAcquire m t) = AmlAcquire (canon m) t"
| "canon (AmlRelease m) = AmlRelease (canon m)"
| "canon (AmlCreateField k t1 t2 nm) = AmlCreateField k (canon t1) (canon t2) (canon_name nm)"
| "canon (AmlResTemplate rs) = (case resources_bytes rs of Inr bs \<Rightarrow> AmlBuffer (bs @ [0x79, 0x00]) | Inl _ \<Rightarrow> AmlResTemplate rs)"
| "canon t = t"

end
