(* ===== verification/AmlRoundtrip.thy ===== *)
theory AmlRoundtrip
  imports AmlParse
begin

text \<open>
  The decoder reads back what the encoder writes, for every object whose names and strings are
  well formed and whose encoding is shorter than 128 MiB. Two flaws of the encoder are at the end.
\<close>

section \<open>One step of the decoder\<close>

lemma parse_term_name:
  assumes "name_ok nm" and "build_name_string nm = Inr b"
  shows "parse_term ar (Suc m) (b @ r) =
    (if ar (canon_name nm) = 0 then Some (AmlName (canon_name nm), r)
     else Option.bind (parse_args ar m (ar (canon_name nm)) r) (\<lambda>(as, r2). Some (AmlCall (canon_name nm) as, r2)))"
proof -
  note p = parse_name_ok [OF assms]
  obtain c cs where c: "b = c # cs" using p(3) by (cases b) auto
  have "name_start c" using p(2) c by simp
  moreover have "parse_name (c # cs @ r) = Some (canon_name nm, r)" using p(1) [of r] c by simp
  ultimately show ?thesis by (simp add: c)
qed

definition leaf_code :: "u8 \<Rightarrow> bool" where
  "leaf_code b \<longleftrightarrow> \<not> name_start b \<and> b \<notin> {0x5b, 0x08, 0x12, 0x10, 0x14, 0xa4, 0xa0, 0xa1, 0xa2} \<and>
     code_of op3_code op3s b = None \<and> code_of op1_code op1s b = None \<and> code_of op2_code op2s b = None \<and>
     code_of create_field_code create_fields b = None"

lemma parse_term_leaf: "leaf_code b \<Longrightarrow> parse_term ar (Suc m) (b # r) = parse_leaf (b # r)"
  by (simp add: leaf_code_def)

lemmas code_tables = code_of_def op3s_def op1s_def op2s_def create_fields_def
lemmas start_defs = name_start_def is_prefix_def seg_start_def word_le_nat_alt

lemma leaf_codes:
  "leaf_code 0x00" "leaf_code 0x01" "leaf_code 0xff" "leaf_code 0x0a" "leaf_code 0x0b" "leaf_code 0x0c" "leaf_code 0x0e"
  "leaf_code 0x0d" "leaf_code 0x11"
  by (simp_all add: leaf_code_def start_defs code_tables)

lemma u8_small: "i \<le> 7 \<Longrightarrow> i = 0 \<or> i = 1 \<or> i = 2 \<or> i = 3 \<or> i = 4 \<or> i = 5 \<or> i = 6 \<or> i = (7 :: u8)"
proof -
  assume "i \<le> 7"
  then have "unat i \<le> 7" by (simp add: word_le_nat_alt)
  then have "unat i = 0 \<or> unat i = 1 \<or> unat i = 2 \<or> unat i = 3 \<or> unat i = 4 \<or> unat i = 5 \<or> unat i = 6 \<or> unat i = 7" by linarith
  then show ?thesis by (simp add: word_unat_eq_iff)
qed

lemma u8_small_6: "i \<le> 6 \<Longrightarrow> i = 0 \<or> i = 1 \<or> i = 2 \<or> i = 3 \<or> i = 4 \<or> i = 5 \<or> i = (6 :: u8)"
proof -
  assume "i \<le> 6"
  then have "i \<le> 7" "i \<noteq> 7" by (auto simp: word_le_nat_alt)
  then show ?thesis using u8_small [of i] by blast
qed

lemma parse_local:
  assumes "i \<le> 7"
  shows "parse_term ar (Suc m) ((0x60 + i) # r) = Some (AmlLocal i, r)"
proof -
  have "leaf_code (0x60 + i)" using u8_small [OF assms] by (elim disjE) (simp_all add: leaf_code_def start_defs code_tables)
  moreover have "parse_leaf ((0x60 + i) # r) = Some (AmlLocal i, r)"
    using u8_small [OF assms] by (elim disjE) (simp_all add: parse_leaf_def word_le_nat_alt)
  ultimately show ?thesis by (metis parse_term_leaf)
qed

lemma parse_arg:
  assumes "i \<le> 6"
  shows "parse_term ar (Suc m) ((0x68 + i) # r) = Some (AmlArg i, r)"
proof -
  have "leaf_code (0x68 + i)" using u8_small_6 [OF assms] by (elim disjE) (simp_all add: leaf_code_def start_defs code_tables)
  moreover have "parse_leaf ((0x68 + i) # r) = Some (AmlArg i, r)"
    using u8_small_6 [OF assms] by (elim disjE) (simp_all add: parse_leaf_def word_le_nat_alt)
  ultimately show ?thesis by (metis parse_term_leaf)
qed

lemma leaf_integer: "parse_term ar (Suc m) (integer_bytes v @ rest) = Some (int_term v, rest)"
proof -
  obtain b r where b: "integer_bytes v = b # r" by (cases "integer_bytes v") (simp_all add: integer_bytes_pos)
  have "leaf_code b" using b leaf_codes by (auto simp: integer_bytes_def bytes_type_def split: if_splits)
  then have "parse_term ar (Suc m) (b # r @ rest) = parse_leaf (b # r @ rest)" by (rule parse_term_leaf)
  then show ?thesis using parse_leaf_int [of v rest] b by simp
qed

lemma leaf_buffer:
  assumes "length d < 2 ^ 27"
  shows "parse_term ar (Suc m) (buffer_bytes d @ rest) = Some (AmlBuffer d, rest)"
  using parse_leaf_buffer [OF assms, of rest] parse_term_leaf [OF leaf_codes(9), of ar m]
  by (simp add: buffer_bytes_def pkg_object_def del: parse_term.simps)

text \<open>An object with a package length, behind its opcode.\<close>

lemma parse_pkg_object:
  assumes "length body + 4 < 2 ^ 28"
  shows "parse_body (drop (length opc) (pkg_object opc body @ rest)) = Some (body, rest)"
  using parse_body_ok [OF assms, of rest] by (simp add: pkg_object_def)

lemma pkg_object_len: "length (pkg_object opc body) = length opc + pkg_bytes_count (length body) + length body"
  by (simp add: pkg_object_def)

lemma op3_step: "parse_term ar (Suc m) (op3_code p # r) =
    Option.bind (parse_term ar m r) (\<lambda>(t1, r1). Option.bind (parse_term ar m r1) (\<lambda>(t2, r2).
      Option.bind (parse_term ar m r2) (\<lambda>(t3, r3). Some (AmlOp3 p t1 t2 t3, r3))))"
  by (cases p) (simp_all add: start_defs code_tables)

lemma op1_step: "parse_term ar (Suc m) (op1_code p # r) = Option.bind (parse_term ar m r) (\<lambda>(t1, r1). Some (AmlOp1 p t1, r1))"
  by (cases p) (simp_all add: start_defs code_tables)

lemma op2_step: "parse_term ar (Suc m) (op2_code p # r) =
    Option.bind (parse_term ar m r) (\<lambda>(t1, r1). Option.bind (parse_term ar m r1) (\<lambda>(t2, r2). Some (AmlOp2 p t1 t2, r2)))"
  by (cases p) (simp_all add: start_defs code_tables)

lemma create_step: "parse_term ar (Suc m) (create_field_code p # r) =
    Option.bind (parse_term ar m r) (\<lambda>(t1, r1). Option.bind (parse_term ar m r1) (\<lambda>(t2, r2).
      Option.bind (parse_name r2) (\<lambda>(nm, r3). Some (AmlCreateField p t1 t2 nm, r3))))"
  by (cases p) (simp_all add: start_defs code_tables)

lemma opcode_steps:
  "parse_term ar (Suc m) (0x5b # 0x80 # r) = parse_op_region r"
  "parse_term ar (Suc m) (0x5b # 0x81 # r) = parse_field r"
  "parse_term ar (Suc m) (0x5b # 0x01 # r) = parse_mutex r"
  "parse_term ar (Suc m) (0x5b # 0x82 # r) = Option.bind (parse_body r) (\<lambda>(body, rest). Option.bind (parse_name body) (\<lambda>(nm, r2).
     Option.bind (parse_list ar m r2) (\<lambda>cs. Some (AmlDevice nm cs, rest))))"
  "parse_term ar (Suc m) (0x5b # 0x23 # r) = Option.bind (parse_term ar m r) (\<lambda>(x, r2).
     if length r2 < 2 then None else Some (AmlAcquire x (from_le (take 2 r2)), drop 2 r2))"
  "parse_term ar (Suc m) (0x5b # 0x27 # r) = Option.bind (parse_term ar m r) (\<lambda>(x, r2). Some (AmlRelease x, r2))"
  "parse_term ar (Suc m) (0x08 # r) = Option.bind (parse_name r) (\<lambda>(nm, r1). Option.bind (parse_term ar m r1) (\<lambda>(t, r2). Some (AmlNameDecl nm t, r2)))"
  "parse_term ar (Suc m) (0x12 # r) = Option.bind (parse_body r) (\<lambda>(body, rest).
     case body of [] \<Rightarrow> None | k # r1 \<Rightarrow> Option.bind (parse_list ar m r1) (\<lambda>cs. Some (AmlPackage k cs, rest)))"
  "parse_term ar (Suc m) (0x10 # r) = Option.bind (parse_body r) (\<lambda>(body, rest). Option.bind (parse_name body) (\<lambda>(nm, r1).
     Option.bind (parse_list ar m r1) (\<lambda>cs. Some (AmlScope nm cs, rest))))"
  "parse_term ar (Suc m) (0x14 # r) = Option.bind (parse_body r) (\<lambda>(body, rest). Option.bind (parse_name body) (\<lambda>(nm, r1).
     case r1 of [] \<Rightarrow> None | fl # r2 \<Rightarrow> Option.bind (parse_list ar m r2) (\<lambda>cs. Some (AmlMethod nm (fl AND 7) (bit fl 3) cs, rest))))"
  "parse_term ar (Suc m) (0xa4 # r) = Option.bind (parse_term ar m r) (\<lambda>(t, r1). Some (AmlReturn (Some t), r1))"
  "parse_term ar (Suc m) (0xa0 # r) = Option.bind (parse_body r) (\<lambda>(body, rest). Option.bind (parse_term ar m body) (\<lambda>(c, r1).
     Option.bind (parse_list ar m r1) (\<lambda>cs. Some (AmlIf c cs, rest))))"
  "parse_term ar (Suc m) (0xa1 # r) = Option.bind (parse_body r) (\<lambda>(body, rest). Option.bind (parse_list ar m body) (\<lambda>cs. Some (AmlElse cs, rest)))"
  "parse_term ar (Suc m) (0xa2 # r) = Option.bind (parse_body r) (\<lambda>(body, rest). Option.bind (parse_term ar m body) (\<lambda>(c, r1).
     Option.bind (parse_list ar m r1) (\<lambda>cs. Some (AmlWhile c cs, rest))))"
  by (simp_all add: start_defs)

declare parse_term.simps(3) [simp del]

section \<open>Reading back\<close>

text \<open>\<open>bs\<close> is read as the term \<open>t\<close>, or as the terms \<open>cs\<close>, whatever follows.\<close>

definition reads :: "(u8 list \<Rightarrow> nat) \<Rightarrow> aml \<Rightarrow> u8 list \<Rightarrow> bool" where
  "reads ar t bs \<longleftrightarrow> bs \<noteq> [] \<and> (\<forall>n rest. length bs \<le> n \<longrightarrow> parse_term ar n (bs @ rest) = Some (canon t, rest))"

definition reads_all :: "(u8 list \<Rightarrow> nat) \<Rightarrow> aml list \<Rightarrow> u8 list \<Rightarrow> bool" where
  "reads_all ar cs bs \<longleftrightarrow> (\<forall>n rest. length bs < n \<longrightarrow> parse_list ar n bs = Some (map canon cs) \<and>
     parse_args ar n (length cs) (bs @ rest) = Some (map canon cs, rest))"

lemma readsI:
  assumes "bs \<noteq> []" and "\<And>m rest. length bs \<le> Suc m \<Longrightarrow> parse_term ar (Suc m) (bs @ rest) = Some (canon t, rest)"
  shows "reads ar t bs"
  unfolding reads_def
proof (intro conjI allI impI)
  show "bs \<noteq> []" by (rule assms(1))
  fix n rest assume n: "length bs \<le> n"
  then obtain m where "n = Suc m" using assms(1) by (cases n) auto
  then show "parse_term ar n (bs @ rest) = Some (canon t, rest)" using assms(2) n by simp
qed

lemma readsD: "reads ar t bs \<Longrightarrow> length bs \<le> n \<Longrightarrow> parse_term ar n (bs @ rest) = Some (canon t, rest)"
  by (simp add: reads_def)

lemma reads_allD:
  assumes "reads_all ar cs bs" and "length bs < n"
  shows "parse_list ar n bs = Some (map canon cs)" and "parse_args ar n (length cs) (bs @ rest) = Some (map canon cs, rest)"
  using assms by (simp_all add: reads_all_def)

lemma reads_Nil: "reads_all ar [] []"
  unfolding reads_all_def by (auto simp: gr0_conv_Suc)

lemma reads_Cons:
  assumes "reads ar c b" and "reads_all ar cs bs"
  shows "reads_all ar (c # cs) (b @ bs)"
  unfolding reads_all_def
proof (intro allI impI)
  fix n and rest :: "u8 list"
  assume n: "length (b @ bs) < n"
  have b: "b \<noteq> []" "0 < length b" using assms(1) by (simp_all add: reads_def)
  obtain m where m: "n = Suc m" using n by (cases n) auto
  have l: "length b \<le> m" "length bs < m" using n m b(2) by (auto simp del: length_greater_0_conv)
  show "parse_list ar n (b @ bs) = Some (map canon (c # cs)) \<and> parse_args ar n (length (c # cs)) ((b @ bs) @ rest) = Some (map canon (c # cs), rest)"
    using readsD [OF assms(1) l(1)] reads_allD [OF assms(2) l(2)] b(1) by (simp add: m)
qed

text \<open>Objects with a body, given how the body is read.\<close>

lemma reads_pkg1:
  assumes "length (pkg_object [x] body) < 2 ^ 27"
    and "\<And>m rest r. length body < m \<Longrightarrow> parse_body r = Some (body, rest) \<Longrightarrow> parse_term ar (Suc m) (x # r) = Some (canon t, rest)"
  shows "reads ar t (pkg_object [x] body)"
proof (rule readsI)
  show "pkg_object [x] body \<noteq> []" by (simp add: pkg_object_def)
  fix m and rest :: "u8 list"
  assume m: "length (pkg_object [x] body) \<le> Suc m"
  have "length body < m" using m pkg_bytes_count_pos [of "length body"] by (simp add: pkg_object_len)
  moreover have "length body + 4 < 2 ^ 28" using assms(1) by (simp add: pkg_object_len)
  ultimately show "parse_term ar (Suc m) (pkg_object [x] body @ rest) = Some (canon t, rest)"
    using assms(2) parse_body_ok [of body rest] by (simp add: pkg_object_def)
qed

lemma reads_pkg2:
  assumes "length (pkg_object [x, y] body) < 2 ^ 27"
    and "\<And>m rest r. length body < m \<Longrightarrow> parse_body r = Some (body, rest) \<Longrightarrow> parse_term ar (Suc m) (x # y # r) = Some (canon t, rest)"
  shows "reads ar t (pkg_object [x, y] body)"
proof (rule readsI)
  show "pkg_object [x, y] body \<noteq> []" by (simp add: pkg_object_def)
  fix m and rest :: "u8 list"
  assume m: "length (pkg_object [x, y] body) \<le> Suc m"
  have "length body < m" using m pkg_bytes_count_pos [of "length body"] by (simp add: pkg_object_len)
  moreover have "length body + 4 < 2 ^ 28" using assms(1) by (simp add: pkg_object_len)
  ultimately show "parse_term ar (Suc m) (pkg_object [x, y] body @ rest) = Some (canon t, rest)"
    using assms(2) parse_body_ok [of body rest] by (simp add: pkg_object_def)
qed

lemma reads_scope:
  assumes "name_ok nm" and "build_name_string nm = Inr b" and "reads_all ar cs bs"
  shows "length (scope_bytes (b @ bs)) < 2 ^ 27 \<Longrightarrow> reads ar (AmlScope nm cs) (scope_bytes (b @ bs))"
    and "length (device_bytes (b @ bs)) < 2 ^ 27 \<Longrightarrow> reads ar (AmlDevice nm cs) (device_bytes (b @ bs))"
proof -
  note p = parse_name_ok [OF assms(1,2)]
  have l: "length bs < m" if "length (b @ bs) < m" for m using that by simp
  show "length (scope_bytes (b @ bs)) < 2 ^ 27 \<Longrightarrow> reads ar (AmlScope nm cs) (scope_bytes (b @ bs))"
    unfolding scope_bytes_def by (erule reads_pkg1) (simp add: opcode_steps p(1) reads_allD(1) [OF assms(3) l])
  show "length (device_bytes (b @ bs)) < 2 ^ 27 \<Longrightarrow> reads ar (AmlDevice nm cs) (device_bytes (b @ bs))"
    unfolding device_bytes_def by (erule reads_pkg2) (simp add: opcode_steps p(1) reads_allD(1) [OF assms(3) l])
qed

lemma reads_method:
  assumes "name_ok nm" and "method_new nm k ser = Inr b" and "reads_all ar cs bs" and "length (method_bytes (b @ bs)) < 2 ^ 27"
  shows "reads ar (AmlMethod nm k ser cs) (method_bytes (b @ bs))"
proof -
  define fl where "fl = (if ser then k OR push_bit 3 1 else k)"
  obtain b0 where b0: "build_name_string nm = Inr b0" "b = b0 @ [fl]" "k \<le> 7"
    using assms(2) by (auto simp: method_new_def and_then_Inr fl_def split: if_splits)
  note p = parse_name_ok [OF assms(1) b0(1)]
  have f: "fl AND 7 = k" "bit fl 3 = ser"
    using u8_small [OF b0(3)] unfolding fl_def by (cases ser; elim disjE; simp)+
  show ?thesis
    using assms(4) unfolding method_bytes_def
    by (rule reads_pkg1) (simp add: opcode_steps b0(2) p(1) f reads_allD(1) [OF assms(3)])
qed

lemma reads_package:
  assumes "reads_all ar cs bs" and "length (package_bytes (k # bs)) < 2 ^ 27"
  shows "reads ar (AmlPackage k cs) (package_bytes (k # bs))"
  using assms(2) unfolding package_bytes_def
  by (rule reads_pkg1) (simp add: opcode_steps reads_allD(1) [OF assms(1)])

lemma reads_else:
  assumes "reads_all ar cs bs" and "length (else_bytes bs) < 2 ^ 27"
  shows "reads ar (AmlElse cs) (else_bytes bs)"
  using assms(2) unfolding else_bytes_def
  by (rule reads_pkg1) (simp add: opcode_steps reads_allD(1) [OF assms(1)])

lemma reads_if:
  assumes "reads ar c b" and "reads_all ar cs bs"
  shows "length (if_bytes (b @ bs)) < 2 ^ 27 \<Longrightarrow> reads ar (AmlIf c cs) (if_bytes (b @ bs))"
    and "length (while_bytes (b @ bs)) < 2 ^ 27 \<Longrightarrow> reads ar (AmlWhile c cs) (while_bytes (b @ bs))"
proof -
  show "length (if_bytes (b @ bs)) < 2 ^ 27 \<Longrightarrow> reads ar (AmlIf c cs) (if_bytes (b @ bs))"
    unfolding if_bytes_def by (erule reads_pkg1) (simp add: opcode_steps readsD [OF assms(1)] reads_allD(1) [OF assms(2)])
  show "length (while_bytes (b @ bs)) < 2 ^ 27 \<Longrightarrow> reads ar (AmlWhile c cs) (while_bytes (b @ bs))"
    unfolding while_bytes_def by (erule reads_pkg1) (simp add: opcode_steps readsD [OF assms(1)] reads_allD(1) [OF assms(2)])
qed

lemma reads_field:
  assumes "name_ok nm" and "field_new nm acc NoLock upd = Inr b" and "\<forall>u \<in> set us. unit_ok u" and "field_units_bytes us = Inr bs"
    and "length (field_bytes (b @ bs)) < 2 ^ 27"
  shows "reads ar (AmlField nm acc NoLock upd us) (field_bytes (b @ bs))"
proof -
  obtain b0 where b0: "build_name_string nm = Inr b0" "b = b0 @ [field_flags acc NoLock upd]"
    using assms(2) by (auto simp: field_new_def and_then_Inr)
  note p = parse_name_ok [OF assms(1) b0(1)]
  show ?thesis
    using assms(5) unfolding field_bytes_def
    by (rule reads_pkg2) (simp add: opcode_steps parse_field_def b0(2) p(1) parse_field_flags_ok parse_units_ok [OF assms(3,4)])
qed

section \<open>Terms without a body\<close>

lemma reads_leaf:
  assumes "leaf_code b" and "\<And>rest. parse_leaf (b # r @ rest) = Some (canon t, rest)"
  shows "reads ar t (b # r)"
  using assms parse_term_leaf [OF assms(1)] by (intro readsI) simp_all

lemma reads_sized:
  "reads ar (AmlByte v1) (bytes_type 0x0a 1 v1)" "reads ar (AmlWord v2) (bytes_type 0x0b 2 v2)"
  "reads ar (AmlDWord v4) (bytes_type 0x0c 4 v4)" "reads ar (AmlQWord v8) (bytes_type 0x0e 8 v8)"
  unfolding bytes_type_def
  by (rule reads_leaf, simp add: leaf_codes, simp add: parse_leaf_def from_le_to_le_full)+

lemma reads_zero: "reads ar AmlZero [0]" "reads ar AmlOne [1]" "reads ar AmlOnes [0xff]"
  by (rule reads_leaf, simp add: leaf_codes, simp add: parse_leaf_def)+

lemma reads_string: "0 \<notin> set s \<Longrightarrow> reads ar (AmlString s) (string_bytes s)"
  using parse_leaf_string [of s] leaf_codes(8) by (auto simp: string_bytes_def intro: reads_leaf)

lemma reads_integer: "reads ar (AmlInteger v) (integer_bytes v)"
  by (rule readsI) (simp_all add: integer_bytes_pos leaf_integer)

lemma reads_buffer:
  assumes "canon t = AmlBuffer d" and "length (buffer_bytes d) < 2 ^ 27"
  shows "reads ar t (buffer_bytes d)"
proof -
  have "length d < 2 ^ 27" using assms(2) by (simp add: buffer_bytes_def pkg_object_len)
  then show ?thesis using assms(1) leaf_buffer [of d ar] by (intro readsI) (simp_all add: buffer_bytes_def pkg_object_def)
qed

lemma reads_eisa:
  assumes "eisa_id_bytes s = Inr bs"
  shows "reads ar (AmlEisaId s) bs"
proof -
  obtain d where d: "eisa_dword s = Inr d" "bs = 0x0c # rev (to_le 4 d)" using assms by (auto simp: eisa_id_bytes_def and_then_Inr)
  show ?thesis unfolding d(2) by (rule reads_leaf) (simp_all add: leaf_codes parse_leaf_def d(1))
qed

lemma reads_local: "local_bytes i = Inr bs \<Longrightarrow> reads ar (AmlLocal i) bs" "arg_bytes i = Inr bs \<Longrightarrow> reads ar (AmlArg i) bs"
  by (auto simp: local_bytes_def arg_bytes_def parse_local parse_arg split: if_splits intro!: readsI)

section \<open>Names, operators and declarations\<close>

lemma reads_name:
  assumes "name_ok nm" and "build_name_string nm = Inr bs" and "ar (canon_name nm) = 0"
  shows "reads ar (AmlName nm) bs"
  using parse_term_name [OF assms(1,2)] parse_name_ok(3) [OF assms(1,2)] assms(3) by (intro readsI) auto

lemma reads_call:
  assumes "name_ok nm" and "call_bytes nm b = Inr bs" and "reads_all ar as b" and "as \<noteq> []" and "ar (canon_name nm) = length as"
  shows "reads ar (AmlCall nm as) bs"
proof -
  obtain n where n: "build_name_string nm = Inr n" "bs = n @ b" using assms(2) by (auto simp: call_bytes_def and_then_Inr)
  note p = parse_name_ok(3) [OF assms(1) n(1)]
  show ?thesis
  proof (rule readsI)
    show "bs \<noteq> []" using p n(2) by auto
    fix m and rest :: "u8 list"
    assume "length bs \<le> Suc m"
    then have "length b < m" using p n(2) by simp
    then show "parse_term ar (Suc m) (bs @ rest) = Some (canon (AmlCall nm as), rest)"
      using parse_term_name [OF assms(1) n(1), of ar m "b @ rest"] reads_allD(2) [OF assms(3)] assms(4,5) by (simp add: n(2))
  qed
qed

lemma reads_ops:
  assumes "reads ar t1 b1"
  shows "reads ar (AmlOp1 p1 t1) (op1_bytes (op1_code p1) b1)"
    and "reads ar t2 b2 \<Longrightarrow> reads ar (AmlOp2 p2 t1 t2) (op2_bytes (op2_code p2) b1 b2)"
    and "reads ar t2 b2 \<Longrightarrow> reads ar t3 b3 \<Longrightarrow> reads ar (AmlOp3 p3 t1 t2 t3) (op3_bytes (op3_code p3) b1 b2 b3)"
    and "reads ar (AmlReturn (Some t1)) (return_bytes b1)"
    and "reads ar (AmlRelease t1) (release_bytes b1)"
    and "reads ar (AmlAcquire t1 tm) (acquire_bytes b1 tm)"
  by (rule readsI; simp add: op1_bytes_def op2_bytes_def op3_bytes_def return_bytes_def release_bytes_def acquire_bytes_def
      op1_step op2_step op3_step opcode_steps readsD [OF assms] readsD from_le_to_le_full)+

lemmas op_bytes_defs = op1_bytes_def op2_bytes_def op3_bytes_def return_bytes_def release_bytes_def acquire_bytes_def

lemmas reads_ops_flat = reads_ops [unfolded op_bytes_defs append_Cons append_Nil]

lemma reads_return_none: "reads ar (AmlReturn None) [0xa4, 0]"
  using reads_ops_flat(4) [OF reads_zero(1)] by (simp add: reads_def)

lemma reads_create:
  assumes "reads ar t1 b1" and "reads ar t2 b2" and "name_ok nm" and "create_field_bytes (create_field_code k) b1 b2 nm = Inr bs"
  shows "reads ar (AmlCreateField k t1 t2 nm) bs"
proof -
  obtain n where n: "build_name_string nm = Inr n" "bs = [create_field_code k] @ b1 @ b2 @ n"
    using assms(4) by (auto simp: create_field_bytes_def and_then_Inr)
  show ?thesis unfolding n(2)
    by (rule readsI) (simp_all add: create_step readsD [OF assms(1)] readsD [OF assms(2)] parse_name_ok(1) [OF assms(3) n(1)])
qed

lemma reads_name_decl:
  assumes "reads ar t b" and "name_ok nm" and "name_decl_bytes nm b = Inr bs"
  shows "reads ar (AmlNameDecl nm t) bs"
proof -
  obtain n where n: "build_name_string nm = Inr n" "bs = [0x08] @ n @ b" using assms(3) by (auto simp: name_decl_bytes_def and_then_Inr)
  show ?thesis unfolding n(2)
    by (rule readsI) (simp_all add: opcode_steps readsD [OF assms(1)] parse_name_ok(1) [OF assms(2) n(1)])
qed

lemma reads_op_region:
  assumes "name_ok nm" and "op_region_bytes nm sp off len = Inr bs"
  shows "reads ar (AmlOpRegion nm sp off len) bs"
proof -
  obtain n where n: "build_name_string nm = Inr n" "bs = [0x5b, 0x80] @ n @ [space_type_code sp] @ integer_bytes off @ integer_bytes len"
    using assms(2) by (auto simp: op_region_bytes_def and_then_Inr)
  show ?thesis unfolding n(2)
    by (rule readsI) (simp_all add: opcode_steps parse_op_region_def parse_name_ok(1) [OF assms(1) n(1)] space_type_ok parse_int_ok)
qed

lemma reads_mutex:
  assumes "name_ok nm" and "mutex_bytes nm lvl = Inr bs"
  shows "reads ar (AmlMutex nm lvl) bs"
proof -
  obtain n where n: "build_name_string nm = Inr n" "bs = [0x5b, 0x01] @ n @ [lvl]"
    using assms(2) by (auto simp: mutex_bytes_def and_then_Inr split: if_splits)
  show ?thesis unfolding n(2)
    by (rule readsI) (simp_all add: opcode_steps(3) [unfolded One_nat_def] opcode_steps parse_mutex_def parse_name_ok(1) [OF assms(1) n(1)])
qed

lemma res_template_buffer: "res_template_bytes buf = buffer_bytes (buf @ [0x79, 0x00])"
  by (simp add: res_template_bytes_def buffer_bytes_def add.commute)

lemma enclosed_len:
  "length (scope_bytes b) < n \<Longrightarrow> length b < n" "length (device_bytes b) < n \<Longrightarrow> length b < n" "length (method_bytes b) < n \<Longrightarrow> length b < n"
  "length (package_bytes b) < n \<Longrightarrow> length b < n" "length (else_bytes b) < n \<Longrightarrow> length b < n" "length (if_bytes b) < n \<Longrightarrow> length b < n"
  "length (while_bytes b) < n \<Longrightarrow> length b < n"
  by (simp_all add: scope_bytes_def device_bytes_def method_bytes_def package_bytes_def else_bytes_def if_bytes_def while_bytes_def pkg_object_len)

lemma named_len:
  "call_bytes nm b = Inr bs \<Longrightarrow> length b \<le> length bs" "name_decl_bytes nm b = Inr bs \<Longrightarrow> length b \<le> length bs"
  "create_field_bytes c b b' nm = Inr bs \<Longrightarrow> length b + length b' \<le> length bs"
  by (auto simp: call_bytes_def name_decl_bytes_def create_field_bytes_def and_then_Inr)

section \<open>What the encoding loses\<close>

text \<open>
  The conditions of \<open>aml_ok\<close> on names and fields are needed. A name of prefixes only is followed by
  the prefixes again as a padded segment, and the lock rule is shifted into the bits of the access
  type, so that a locked field of any access reads as an unlocked one of word access.
\<close>

lemma root_name_mangled: "build_name_string [0x5c] = Inr [0x5c, 0x5c, 0x5f, 0x5f, 0x5f]"
  by code_simp

lemma field_lock_aliases: "field_flags AccAny Lock upd = field_flags AccWord NoLock upd"
  by (simp add: field_flags_def)

section \<open>The property\<close>

lemma reads_aml:
  "aml_bytes t = Inr bs \<Longrightarrow> aml_ok ar t \<Longrightarrow> length bs < 2 ^ 27 \<Longrightarrow> reads ar t bs"
  "children_bytes cs = Inr bs \<Longrightarrow> \<forall>c \<in> set cs. aml_ok ar c \<Longrightarrow> length bs < 2 ^ 27 \<Longrightarrow> reads_all ar cs bs"
proof (induction t and cs arbitrary: bs and bs rule: aml_bytes_children_bytes.induct)
  case (10 nm t)
  then obtain b where "aml_bytes t = Inr b" "name_decl_bytes nm b = Inr bs" by (auto simp: and_then_Inr)
  then show ?case using 10 named_len(2) [of nm b bs] by (auto intro: reads_name_decl)
next
  case (13 s)
  then obtain d where "uuid_digits s [6, 4, 2, 0, 11, 9, 16, 14, 19, 21, 24, 26, 28, 30, 32, 34] = Inr d" "bs = buffer_bytes d"
    by (auto simp: to_uuid_bytes_def and_then_Inr split: if_splits)
  then show ?case using 13(3) by (auto intro: reads_buffer)
next
  case (15 n cs)
  then obtain b where b: "children_bytes cs = Inr b" "bs = package_bytes (n # b)" by (auto simp: and_then_Inr)
  then have "length (n # b) < 2 ^ 27" using 15(4) enclosed_len(4) by blast
  then show ?case using 15 b by (auto intro!: reads_package)
next
  case (18 nm acc lck upd us)
  then show ?case by (auto simp: and_then_Inr intro!: reads_field)
next
  case (19 nm cs)
  then show ?case by (auto simp: and_then_Inr dest: enclosed_len intro!: reads_scope)
next
  case (20 nm cs)
  then show ?case by (auto simp: and_then_Inr dest: enclosed_len intro!: reads_scope)
next
  case (21 nm n ser cs)
  then show ?case by (auto simp: and_then_Inr dest: enclosed_len intro!: reads_method)
next
  case (26 nm as)
  then obtain b where "children_bytes as = Inr b" "call_bytes nm b = Inr bs" by (auto simp: and_then_Inr)
  then show ?case using 26 named_len(1) [of nm b bs] by (auto intro: reads_call)
next
  case (30 c cs)
  then show ?case by (auto simp: and_then_Inr dest: enclosed_len intro!: reads_if)
next
  case (31 cs)
  then show ?case by (auto simp: and_then_Inr dest: enclosed_len intro!: reads_else)
next
  case (32 c cs)
  then show ?case by (auto simp: and_then_Inr dest: enclosed_len intro!: reads_if)
next
  case (36 k t1 t2 nm)
  then obtain b1 b2 where "aml_bytes t1 = Inr b1" "aml_bytes t2 = Inr b2" "create_field_bytes (create_field_code k) b1 b2 nm = Inr bs"
    by (auto simp: and_then_Inr)
  then show ?case using 36 named_len(3) [of "create_field_code k" b1 b2 nm bs] by (auto intro: reads_create)
next
  case (37 rs)
  then show ?case by (auto simp: and_then_Inr res_template_buffer intro: reads_buffer)
qed (auto simp: and_then_Inr op_bytes_defs reads_return_none intro: reads_zero reads_sized reads_sized(1) [unfolded One_nat_def] reads_integer reads_string
    reads_Nil reads_Cons reads_name reads_buffer reads_eisa reads_local reads_op_region reads_mutex reads_ops_flat)


definition example_device :: aml where
  "example_device = AmlDevice [0x43, 0x4f, 0x4d, 0x31]
     [AmlNameDecl [0x5f, 0x48, 0x49, 0x44] (AmlEisaId [0x50, 0x4e, 0x50, 0x30, 0x35, 0x30, 0x31]),
      AmlMethod [0x5f, 0x53, 0x54, 0x41] 0 False [AmlReturn (Some (AmlInteger 0x0f))]]"

definition example_device_bytes :: "u8 list" where
  "example_device_bytes = (case aml_bytes example_device of Inr bs \<Rightarrow> bs | Inl _ \<Rightarrow> [])"

lemma example_device_facts:
  "aml_bytes example_device = Inr example_device_bytes" "length example_device_bytes = 27" "aml_ok (\<lambda>_. 0) example_device"
  by code_simp+


end
