(* ===== verification/AmlResources.thy ===== *)
theory AmlResources
  imports Aml
begin

text \<open>
  Resource templates of the ACPI machine language (acpi/src/aml_compiler.rs), as a reader walks
  them: a small item has its length in the low three bits of its tag, a large item in the two
  bytes after it. The descriptors the compiler emits are separated again by such a walk.
\<close>

section \<open>The reader\<close>

fun item_len :: "u8 list \<Rightarrow> nat option" where
  "item_len (b # r) =
     (if b < 0x80 then Some (1 + unat (b AND 7))
      else if 2 \<le> length r then Some (3 + unat (from_le (take 2 r) :: u16)) else None)"
| "item_len [] = None"

text \<open>The end tag is a small item of type 15; what follows its checksum byte is left.\<close>

fun read_items :: "nat \<Rightarrow> u8 list \<Rightarrow> (u8 list list \<times> u8 list) option" where
  "read_items 0 bs = None"
| "read_items (Suc n) bs =
     (case item_len bs of
        None \<Rightarrow> None
      | Some l \<Rightarrow>
          if length bs < l then None
          else if hd bs = 0x79 then Some ([], drop l bs)
          else Option.bind (read_items n (drop l bs)) (\<lambda>(is, r). Some (take l bs # is, r)))"

fun resource_ok :: "aml_resource \<Rightarrow> bool" where
  "resource_ok (AmlExtendedInterrupt us md po sh irqs) \<longleftrightarrow> length irqs \<le> 255"
| "resource_ok r \<longleftrightarrow> True"

section \<open>Every descriptor states its own length\<close>

lemma item_len_bytes:
  assumes "resource_bytes r = Inr b" and "resource_ok r"
  shows "item_len (b @ rest) = Some (length b)" and "b \<noteq> []" and "hd b \<noteq> 0x79"
proof -
  have "item_len (b @ rest) = Some (length b) \<and> b \<noteq> [] \<and> hd b \<noteq> 0x79"
  proof (cases r)
    case (AmlExtendedInterrupt us md po sh irqs)
    define w where "w = (2 + of_nat (length irqs) * 4 :: u16)"
    have n: "length irqs \<le> 255" "irqs \<noteq> []" using assms AmlExtendedInterrupt by (auto simp: extended_interrupt_bytes_def split: if_splits)
    have "w = of_nat (2 + length irqs * 4)" by (simp add: w_def)
    then have "unat w = (2 + length irqs * 4) mod 2 ^ 16" using unat_of_nat [where 'a = 16, of "2 + length irqs * 4"] by (simp del: of_nat_add)
    then have "unat w = 2 + length irqs * 4" using n(1) by simp
    moreover have "length (concat (map (to_le 4) irqs)) = length irqs * 4" by (induction irqs) auto
    moreover have "take 2 (to_le 2 w @ xs) = to_le 2 w" for xs by simp
    ultimately show ?thesis using assms(1) n(2) AmlExtendedInterrupt
      by (auto simp: extended_interrupt_bytes_def from_le_to_le_full word_less_nat_alt simp flip: w_def)
  qed (use assms in \<open>auto simp: dma_resource_bytes_def io_resource_bytes_def memory32_bytes_def space_desc_bytes_def irq_no_flags_bytes_def Let_def
      word_less_nat_alt split: if_splits\<close>)
  then show "item_len (b @ rest) = Some (length b)" "b \<noteq> []" "hd b \<noteq> 0x79" by simp_all
qed

lemma read_items_cons:
  assumes "resource_bytes r = Inr b" and "resource_ok r" and "read_items n bs = Some (is, rest)"
  shows "read_items (Suc n) (b @ bs) = Some (b # is, rest)"
  using item_len_bytes(1) [OF assms(1,2), of bs] item_len_bytes(2,3) [OF assms(1,2)] assms(3) by simp

fun resource_list :: "aml_resource list \<Rightarrow> u8 list list" where
  "resource_list [] = []"
| "resource_list (r # rs) = (case resource_bytes r of Inr b \<Rightarrow> b # resource_list rs | Inl _ \<Rightarrow> [])"

section \<open>The property\<close>

text \<open>
  The descriptors of a resource template tell their own lengths: a reader that walks the
  template by the lengths in the tags finds each descriptor the compiler appended, in order,
  and stops at the end tag, having used exactly the template.
\<close>

theorem resource_template_walk:
  assumes "resources_bytes rs = Inr bs" and "\<forall>r \<in> set rs. resource_ok r"
  shows "read_items (Suc (length rs)) (bs @ [0x79, 0x00] @ rest) = Some (resource_list rs, rest)"
  using assms
proof (induction rs arbitrary: bs)
  case Nil
  then show ?case by (simp add: word_less_nat_alt)
next
  case (Cons r rs)
  then obtain b b' where b: "resource_bytes r = Inr b" "resources_bytes rs = Inr b'" "bs = b @ b'" by (auto simp: and_then_Inr)
  then have "read_items (Suc (length rs)) (b' @ [0x79, 0x00] @ rest) = Some (resource_list rs, rest)" using Cons by simp
  from read_items_cons [OF b(1) _ this] show ?case using Cons.prems(2) b by simp
qed

theorem resource_template_walk_witness:
  "read_items 3 ([0x22, 0x10, 0x00, 0x89, 0x06, 0x00, 0x03, 0x01, 0x05, 0x00, 0x00, 0x00] @ [0x79, 0x00] @ [0x5b])
   = Some ([[0x22, 0x10, 0x00], [0x89, 0x06, 0x00, 0x03, 0x01, 0x05, 0x00, 0x00, 0x00]], [0x5b])"
proof -
  let ?rs = "[AmlIrqNoFlags 4, AmlExtendedInterrupt Consumer Edge High Exclusive [5]]"
  have "resources_bytes ?rs = Inr [0x22, 0x10, 0x00, 0x89, 0x06, 0x00, 0x03, 0x01, 0x05, 0x00, 0x00, 0x00]" by code_simp
  moreover have "resource_list ?rs = [[0x22, 0x10, 0x00], [0x89, 0x06, 0x00, 0x03, 0x01, 0x05, 0x00, 0x00, 0x00]]" by code_simp
  ultimately show ?thesis using resource_template_walk [of ?rs _ "[0x5b]"] by (simp add: numeral_3_eq_3 del: read_items.simps resource_list.simps resources_bytes.simps)
qed

end
