(* ===== verification/Qcow2Cache.thy ===== *)
theory Qcow2Cache
  imports NumOps
begin

text \<open>
  block_backend/src/qcow2/cache.rs and the metadata accesses of block_backend/src/qcow2/mod.rs
  (\<open>SyncAioInfo\<close>): tables of an image in memory, the cache that holds the most recently used
  of them, and the list of those that were modified.

  The cache map and the list of modified tables share their tables by reference counting, so
  the tables live in a store and both hold identifiers. The image file is a byte map. A request to
  the file that fails is decided by the parameter \<open>io\<close>, which also says what a failed write
  leaves behind. The order in which a \<open>HashMap\<close> is iterated is the parameter \<open>ord\<close>.
\<close>

section \<open>The image file\<close>

datatype aio_request = Preadv u64 nat | Pwritev u64 "u8 list"

type_synonym aio_fail = "aio_request \<Rightarrow> memory \<Rightarrow> memory option"

text \<open>The last value stands for a loop that never ends.\<close>

datatype qcow2_error =
  EAio | ERound | EEntrySize | EInvalidIdx u64 | EUnsupportedEntry nat | EQPanic panic
| EL2Unallocated | EUnaligned u64 | ENotCached u64 | EHeader
| EOutOfRange | ERcTable u64 | ERcBlock u64 | ERcOverflow | ERecover bool | EAllocZero | ECompressed | ENoReturn

definition read_buffer :: "aio_fail \<Rightarrow> u64 \<Rightarrow> nat \<Rightarrow> memory \<Rightarrow> qcow2_error + u8 list" where
  "read_buffer io off n d = (case io (Preadv off n) d of None \<Rightarrow> Inr (load d off n) | Some _ \<Rightarrow> Inl EAio)"

definition write_buffer :: "aio_fail \<Rightarrow> u64 \<Rightarrow> u8 list \<Rightarrow> memory \<Rightarrow> (qcow2_error + unit) \<times> memory" where
  "write_buffer io off buf d = (case io (Pwritev off buf) d of None \<Rightarrow> (Inr (), store d off buf) | Some d' \<Rightarrow> (Inl EAio, d'))"

text \<open>Big-endian numbers.\<close>

definition to_be :: "nat \<Rightarrow> 'a::len word \<Rightarrow> u8 list" where
  "to_be n v = rev (to_le n v)"

definition from_be :: "u8 list \<Rightarrow> 'a::len word" where
  "from_be bs = from_le (rev bs)"

definition write_ctrl_cluster :: "aio_fail \<Rightarrow> u64 \<Rightarrow> u64 list \<Rightarrow> memory \<Rightarrow> (qcow2_error + unit) \<times> memory" where
  "write_ctrl_cluster io addr buf = write_buffer io addr (concat (map (to_be 8) buf))"

definition read_ctrl_cluster :: "aio_fail \<Rightarrow> u64 \<Rightarrow> nat \<Rightarrow> memory \<Rightarrow> qcow2_error + u64 list" where
  "read_ctrl_cluster io addr sz d =
     and_then (read_buffer io addr (8 * sz) d) (\<lambda>v. Inr (map (\<lambda>i. from_be (take 8 (drop (8 * i) v))) [0..<sz]))"

definition DEFAULT_SECTOR_SIZE :: u64 where "DEFAULT_SECTOR_SIZE = 512"

definition write_dirty_info :: "aio_fail \<Rightarrow> u64 \<Rightarrow> u8 list \<Rightarrow> u64 \<Rightarrow> u64 \<Rightarrow> memory \<Rightarrow> (qcow2_error + unit) \<times> memory" where
  "write_dirty_info io addr buf start end d =
     (case round_down start DEFAULT_SECTOR_SIZE of
        Inr (Some s) \<Rightarrow>
          (case round_up end DEFAULT_SECTOR_SIZE of
             Inr (Some e) \<Rightarrow>
               if unat s \<le> unat e \<and> unat e \<le> length buf
               then write_buffer io (addr + s) (take (unat e - unat s) (drop (unat s) buf)) d
               else (Inl (EQPanic IndexOutOfRange), d)
           | _ \<Rightarrow> (Inl ERound, d))
      | _ \<Rightarrow> (Inl ERound, d))"

section \<open>Tables\<close>

record dirty_info =
  di_is_dirty :: bool
  di_start :: u64
  di_end :: u64

definition clean_info :: dirty_info where
  "clean_info = \<lparr>di_is_dirty = False, di_start = - 1, di_end = 0\<rparr>"

record cache_table =
  ct_dirty :: dirty_info
  ct_lru_count :: u64
  ct_addr :: u64
  ct_entry_size :: u64
  ct_data :: "u8 list"

definition ENTRY_SIZE_U16 :: u64 where "ENTRY_SIZE_U16 = 2"
definition ENTRY_SIZE_U64 :: u64 where "ENTRY_SIZE_U64 = 8"

definition new_cache_table :: "u64 \<Rightarrow> u8 list \<Rightarrow> u64 \<Rightarrow> qcow2_error + cache_table" where
  "new_cache_table addr data entry_size =
     (if entry_size = 0 then Inl EEntrySize
      else Inr \<lparr>ct_dirty = clean_info, ct_lru_count = 0, ct_addr = addr, ct_entry_size = entry_size, ct_data = data\<rparr>)"

text \<open>The bytes of an entry: the check on its end, and the panic of a slice that ends before it starts.\<close>

definition entry_slice :: "u64 \<Rightarrow> cache_table \<Rightarrow> qcow2_error + nat" where
  "entry_slice idx t =
     (let start = idx * ct_entry_size t; end = start + ct_entry_size t in
      if unat end > length (ct_data t) then Inl (EInvalidIdx idx)
      else if ct_entry_size t \<noteq> ENTRY_SIZE_U16 \<and> ct_entry_size t \<noteq> ENTRY_SIZE_U64 then Inl (EUnsupportedEntry (unat (ct_entry_size t)))
      else if end < start then Inl (EQPanic IndexOutOfRange)
      else Inr (unat start))"

definition get_entry_map :: "u64 \<Rightarrow> cache_table \<Rightarrow> qcow2_error + u64" where
  "get_entry_map idx t =
     and_then (entry_slice idx t) (\<lambda>s. Inr (from_be (take (unat (ct_entry_size t)) (drop s (ct_data t)))))"

definition get_entry_num :: "cache_table \<Rightarrow> nat" where
  "get_entry_num t = length (ct_data t) div unat (ct_entry_size t)"

definition put_bytes :: "nat \<Rightarrow> u8 list \<Rightarrow> u8 list \<Rightarrow> u8 list" where
  "put_bytes s bs data = take s data @ bs @ drop (s + length bs) data"

definition set_entry_map :: "u64 \<Rightarrow> u64 \<Rightarrow> cache_table \<Rightarrow> qcow2_error + cache_table" where
  "set_entry_map idx v t =
     and_then (entry_slice idx t) (\<lambda>s.
       let di = ct_dirty t; start = idx * ct_entry_size t; end = start + ct_entry_size t in
       Inr (t\<lparr>ct_data := put_bytes s (to_be (unat (ct_entry_size t)) v) (ct_data t),
              ct_dirty := \<lparr>di_is_dirty = True, di_start = min (di_start di) start, di_end = max (di_end di) end\<rparr>\<rparr>))"

section \<open>The cache\<close>

type_synonym tid = nat

record qcow2_cache =
  qc_max_size :: nat
  qc_lru_count :: u64
  qc_map :: "(u64 \<times> tid) list"
  qc_dirty_tables :: "tid list"

type_synonym tables = "tid \<Rightarrow> cache_table"

definition CACHE_DEFAULT_SIZE :: nat where "CACHE_DEFAULT_SIZE = 1"

definition new_qcow2_cache :: "nat \<Rightarrow> qcow2_cache" where
  "new_qcow2_cache max_size =
     \<lparr>qc_max_size = (if max_size = 0 then CACHE_DEFAULT_SIZE else max_size), qc_lru_count = 0, qc_map = [], qc_dirty_tables = []\<rparr>"

definition reset_lru :: "tid list \<Rightarrow> tables \<Rightarrow> tables" where
  "reset_lru ids ts = (\<lambda>i. if i \<in> set ids then (ts i)\<lparr>ct_lru_count := 0\<rparr> else ts i)"

definition check_refcount :: "qcow2_cache \<times> tables \<Rightarrow> qcow2_cache \<times> tables" where
  "check_refcount = (\<lambda>(c, ts).
     if qc_lru_count c < - 1 then (c, ts) else (c\<lparr>qc_lru_count := 0\<rparr>, reset_lru (map snd (qc_map c)) ts))"

definition contains_keys :: "u64 \<Rightarrow> qcow2_cache \<Rightarrow> bool" where
  "contains_keys key c \<longleftrightarrow> map_of (qc_map c) key \<noteq> None"

definition touch :: "tid \<Rightarrow> qcow2_cache \<times> tables \<Rightarrow> qcow2_cache \<times> tables" where
  "touch i = (\<lambda>(c, ts). (c\<lparr>qc_lru_count := qc_lru_count c + 1\<rparr>, ts(i := (ts i)\<lparr>ct_lru_count := qc_lru_count c\<rparr>)))"

definition cache_get :: "u64 \<Rightarrow> qcow2_cache \<times> tables \<Rightarrow> tid option \<times> qcow2_cache \<times> tables" where
  "cache_get key s =
     (let s1 = check_refcount s in
      case map_of (qc_map (fst s1)) key of None \<Rightarrow> (None, s1) | Some i \<Rightarrow> (Some i, touch i s1))"

definition clear_cache :: "qcow2_cache \<Rightarrow> qcow2_cache" where
  "clear_cache c = c\<lparr>qc_map := [], qc_dirty_tables := []\<rparr>"

definition hash_remove :: "u64 \<Rightarrow> (u64 \<times> tid) list \<Rightarrow> (u64 \<times> tid) list" where
  "hash_remove k m = filter (\<lambda>(k', _). k' \<noteq> k) m"

definition hash_insert :: "u64 \<Rightarrow> tid \<Rightarrow> (u64 \<times> tid) list \<Rightarrow> (u64 \<times> tid) list" where
  "hash_insert k v m = (k, v) # hash_remove k m"

text \<open>The loop of \<open>lru_replace\<close>: the entry with the least count below \<open>u64::MAX\<close>, the first of them in the order of iteration.\<close>

fun least_used :: "tables \<Rightarrow> u64 \<Rightarrow> (u64 \<times> tid) option \<Rightarrow> (u64 \<times> tid) list \<Rightarrow> (u64 \<times> tid) option" where
  "least_used ts lru best [] = best"
| "least_used ts lru best ((k, i) # m) =
     (if ct_lru_count (ts i) < lru then least_used ts (ct_lru_count (ts i)) (Some (k, i)) m else least_used ts lru best m)"

type_synonym hash_order = "(u64 \<times> tid) list \<Rightarrow> (u64 \<times> tid) list"

definition lru_replace :: "hash_order \<Rightarrow> u64 \<Rightarrow> tid \<Rightarrow> qcow2_cache \<times> tables \<Rightarrow> tid option \<times> qcow2_cache \<times> tables" where
  "lru_replace ord key i s =
     (case touch i (check_refcount s) of (c, ts) \<Rightarrow>
        if length (qc_map c) < qc_max_size c then (None, c\<lparr>qc_map := hash_insert key i (qc_map c)\<rparr>, ts)
        else let victim = least_used ts (- 1) None (ord (qc_map c));
                 target = (case victim of Some (k, _) \<Rightarrow> k | None \<Rightarrow> 0)
             in (map_option snd victim, c\<lparr>qc_map := hash_insert key i (hash_remove target (qc_map c))\<rparr>, ts))"

definition clean_up_dirty_cache :: "qcow2_cache \<Rightarrow> tables \<Rightarrow> qcow2_cache" where
  "clean_up_dirty_cache c ts = c\<lparr>qc_map := filter (\<lambda>(_, i). \<not> di_is_dirty (ct_dirty (ts i))) (qc_map c)\<rparr>"

text \<open>Writing the modified part of a table to the file.\<close>

definition write_table :: "aio_fail \<Rightarrow> cache_table \<Rightarrow> memory \<Rightarrow> (qcow2_error + unit) \<times> memory" where
  "write_table io t = write_dirty_info io (ct_addr t) (ct_data t) (di_start (ct_dirty t)) (di_end (ct_dirty t))"

definition clear_dirty :: "tid \<Rightarrow> tables \<Rightarrow> tables" where
  "clear_dirty i ts = ts(i := (ts i)\<lparr>ct_dirty := clean_info\<rparr>)"

fun flush_tables :: "aio_fail \<Rightarrow> tid list \<Rightarrow> qcow2_error + unit \<Rightarrow> tables \<Rightarrow> memory \<Rightarrow> (qcow2_error + unit) \<times> tables \<times> memory" where
  "flush_tables io [] ret ts d = (ret, ts, d)"
| "flush_tables io (i # is) ret ts d =
     (if \<not> di_is_dirty (ct_dirty (ts i)) then flush_tables io is ret ts d
      else case write_table io (ts i) d of
             (Inr _, d') \<Rightarrow> flush_tables io is ret (clear_dirty i ts) d'
           | (Inl (EQPanic p), d') \<Rightarrow> (Inl (EQPanic p), ts, d')
           | (Inl e, d') \<Rightarrow> flush_tables io is (Inl e) (clear_dirty i ts) d')"

definition cache_flush :: "aio_fail \<Rightarrow> qcow2_cache \<Rightarrow> tables \<Rightarrow> memory \<Rightarrow> (qcow2_error + unit) \<times> qcow2_cache \<times> tables \<times> memory" where
  "cache_flush io c ts d =
     (case flush_tables io (qc_dirty_tables c) (Inr ()) ts d of
        (ret, ts', d') \<Rightarrow> (ret, c\<lparr>qc_dirty_tables := []\<rparr>, ts', d'))"

definition add_dirty_table :: "tid \<Rightarrow> qcow2_cache \<Rightarrow> qcow2_cache" where
  "add_dirty_table i c = c\<lparr>qc_dirty_tables := qc_dirty_tables c @ [i]\<rparr>"

end
