(* ===== verification/Qcow2Header.thy ===== *)
theory Qcow2Header
  imports Qcow2Cache
begin

text \<open>
  block_backend/src/qcow2/header.rs: the header of an image, its encoding and its check.
\<close>

section \<open>The header\<close>

record qcow_header =
  h_magic :: u32
  h_version :: u32
  h_backing_file_offset :: u64
  h_backing_file_size :: u32
  h_cluster_bits :: u32
  h_size :: u64
  h_crypt_method :: u32
  h_l1_size :: u32
  h_l1_table_offset :: u64
  h_refcount_table_offset :: u64
  h_refcount_table_clusters :: u32
  h_nb_snapshots :: u32
  h_snapshots_offset :: u64
  h_incompatible_features :: u64
  h_compatible_features :: u64
  h_autoclear_features :: u64
  h_refcount_order :: u32
  h_header_length :: u32

definition QCOW_MAGIC :: u32 where "QCOW_MAGIC = 0x514649fb"
definition QCOW_VERSION_2_MIN_LEN :: nat where "QCOW_VERSION_2_MIN_LEN = 72"
definition QCOW_VERSION_3_MIN_LEN :: nat where "QCOW_VERSION_3_MIN_LEN = 104"
definition MAX_REFTABLE_SIZE :: u64 where "MAX_REFTABLE_SIZE = 8 * 2 ^ 20"
definition MAX_L1TABLE_SIZE :: u64 where "MAX_L1TABLE_SIZE = 32 * 2 ^ 20"
definition ENTRY_BITS :: u64 where "ENTRY_BITS = 3"
definition ENTRY_SIZE :: u64 where "ENTRY_SIZE = shl 1 (unat ENTRY_BITS)"

definition be_field :: "u8 list \<Rightarrow> nat \<Rightarrow> nat \<Rightarrow> 'a::len word" where
  "be_field buf a n = from_be (take n (drop a buf))"

definition header_from_vec :: "u8 list \<Rightarrow> qcow2_error + qcow_header" where
  "header_from_vec buf =
     (if length buf < QCOW_VERSION_2_MIN_LEN then Inl EHeader
      else let header = \<lparr>h_magic = be_field buf 0 4, h_version = be_field buf 4 4, h_backing_file_offset = be_field buf 8 8,
             h_backing_file_size = be_field buf 16 4, h_cluster_bits = be_field buf 20 4, h_size = be_field buf 24 8,
             h_crypt_method = be_field buf 32 4, h_l1_size = be_field buf 36 4, h_l1_table_offset = be_field buf 40 8,
             h_refcount_table_offset = be_field buf 48 8, h_refcount_table_clusters = be_field buf 56 4,
             h_nb_snapshots = be_field buf 60 4, h_snapshots_offset = be_field buf 64 8,
             h_incompatible_features = 0, h_compatible_features = 0, h_autoclear_features = 0, h_refcount_order = 0, h_header_length = 0\<rparr>
      in if h_magic header \<noteq> QCOW_MAGIC then Inl EHeader
         else if h_version header = 2
         then Inr (header\<lparr>h_refcount_order := 4, h_header_length := of_nat QCOW_VERSION_2_MIN_LEN\<rparr>)
         else if h_version header = 3
         then if length buf < QCOW_VERSION_3_MIN_LEN then Inl EHeader
              else Inr (header\<lparr>h_incompatible_features := be_field buf 72 8, h_compatible_features := be_field buf 80 8,
                h_autoclear_features := be_field buf 88 8, h_refcount_order := be_field buf 96 4, h_header_length := be_field buf 100 4\<rparr>)
         else Inl EHeader)"

text \<open>
  The buffer is 72 bytes long for version 2 and \<open>size_of::<QcowHeader>()\<close>, which is 104, for any
  other version; the last five fields are written from version 3 on.
\<close>

definition header_to_vec :: "qcow_header \<Rightarrow> u8 list" where
  "header_to_vec h =
     to_be 4 (h_magic h) @ to_be 4 (h_version h) @ to_be 8 (h_backing_file_offset h) @ to_be 4 (h_backing_file_size h) @
     to_be 4 (h_cluster_bits h) @ to_be 8 (h_size h) @ to_be 4 (h_crypt_method h) @ to_be 4 (h_l1_size h) @
     to_be 8 (h_l1_table_offset h) @ to_be 8 (h_refcount_table_offset h) @ to_be 4 (h_refcount_table_clusters h) @
     to_be 4 (h_nb_snapshots h) @ to_be 8 (h_snapshots_offset h) @
     (if h_version h = 2 then []
      else if h_version h \<ge> 3
      then to_be 8 (h_incompatible_features h) @ to_be 8 (h_compatible_features h) @ to_be 8 (h_autoclear_features h) @
        to_be 4 (h_refcount_order h) @ to_be 4 (h_header_length h)
      else replicate 32 0)"

definition cluster_size :: "qcow_header \<Rightarrow> u64" where
  "cluster_size h = shl 1 (unat (h_cluster_bits h))"

definition cluster_aligned :: "qcow_header \<Rightarrow> u64 \<Rightarrow> bool" where
  "cluster_aligned h off \<longleftrightarrow> off AND (cluster_size h - 1) = 0"

definition check_refcount_table :: "qcow_header \<Rightarrow> qcow2_error + unit" where
  "check_refcount_table h =
     (if h_refcount_table_clusters h = 0 then Inl EHeader
      else if ucast (h_refcount_table_clusters h) > MAX_REFTABLE_SIZE div cluster_size h then Inl EHeader
      else if \<not> cluster_aligned h (h_refcount_table_offset h) then Inl EHeader
      else case checked_add (h_refcount_table_offset h) (ucast (h_refcount_table_clusters h) * cluster_size h) of
             None \<Rightarrow> Inl EHeader | Some _ \<Rightarrow> Inr ())"

definition check_l1_table :: "qcow_header \<Rightarrow> qcow2_error + unit" where
  "check_l1_table h =
     (if ucast (h_l1_size h) > MAX_L1TABLE_SIZE div ENTRY_SIZE then Inl EHeader
      else if \<not> cluster_aligned h (h_l1_table_offset h) then Inl EHeader
      else case div_round_up (h_size h) (cluster_size h * cluster_size h div ENTRY_SIZE) of
             None \<Rightarrow> Inl EHeader
           | Some l1_need_sz \<Rightarrow>
               if ucast (h_l1_size h) < l1_need_sz then Inl EHeader
               else case checked_add (h_l1_table_offset h) (ucast (h_l1_size h) * ENTRY_SIZE) of None \<Rightarrow> Inl EHeader | Some _ \<Rightarrow> Inr ())"

definition header_check :: "qcow_header \<Rightarrow> qcow2_error + unit" where
  "header_check h =
     (if \<not> (9 \<le> h_cluster_bits h \<and> h_cluster_bits h \<le> 21) then Inl EHeader
      else if ucast (h_header_length h) > cluster_size h then Inl EHeader
      else if h_backing_file_offset h \<noteq> 0 then Inl EHeader
      else if h_refcount_order h \<noteq> 4 then Inl EHeader
      else and_then (check_refcount_table h) (\<lambda>_. check_l1_table h))"

section \<open>What a checked header gives\<close>

lemma length_to_be [simp]: "length (to_be n v) = n"
  by (simp add: to_be_def)

lemma from_be_to_be: "8 * n = LENGTH('a) \<Longrightarrow> from_be (to_be n v) = (v :: 'a::len word)"
  by (simp add: from_be_def to_be_def from_le_to_le_full)

text \<open>The header of an image of 64 clusters of 512 bytes, with its L1 table at 0x200.\<close>

definition ex_image_header :: qcow_header where
  "ex_image_header = \<lparr>h_magic = QCOW_MAGIC, h_version = 3, h_backing_file_offset = 0, h_backing_file_size = 0, h_cluster_bits = 9,
     h_size = 32768, h_crypt_method = 0, h_l1_size = 1, h_l1_table_offset = 512, h_refcount_table_offset = 1024,
     h_refcount_table_clusters = 1, h_nb_snapshots = 0, h_snapshots_offset = 0, h_incompatible_features = 0,
     h_compatible_features = 0, h_autoclear_features = 0, h_refcount_order = 4, h_header_length = 104\<rparr>"

text \<open>
  C38. A header that the driver wrote, of version 3, or of version 2 with the values that version
  fixes, is read back as it was, whatever follows it in the file.
\<close>

theorem header_roundtrip:
  assumes "h_magic h = QCOW_MAGIC" and "h_version h = 3 \<or> h_version h = 2 \<and> h_refcount_order h = 4 \<and> h_header_length h = 72 \<and>
    h_incompatible_features h = 0 \<and> h_compatible_features h = 0 \<and> h_autoclear_features h = 0"
  shows "header_from_vec (header_to_vec h @ rest) = Inr h"
  using assms
  by (elim disjE conjE) (simp_all add: header_from_vec_def header_to_vec_def be_field_def from_be_to_be QCOW_MAGIC_def
      QCOW_VERSION_2_MIN_LEN_def QCOW_VERSION_3_MIN_LEN_def)

theorem header_roundtrip_witness: "header_from_vec (header_to_vec ex_image_header @ [1, 2, 3]) = Inr ex_image_header"
  by (rule header_roundtrip) (simp_all add: ex_image_header_def)

end
