(* ===== verification/Qcow2Table.thy ===== *)
theory Qcow2Table
  imports Qcow2Header
begin

text \<open>
  block_backend/src/qcow2/table.rs and the lookup of an L2 entry in
  block_backend/src/qcow2/mod.rs: the two levels of tables that map the clusters of the
  virtual disk to clusters of the image.
\<close>

section \<open>Entries\<close>

definition L1_TABLE_OFFSET_MASK :: u64 where "L1_TABLE_OFFSET_MASK = 0x00fffffffffffe00"
definition L2_TABLE_OFFSET_MASK :: u64 where "L2_TABLE_OFFSET_MASK = 0x00fffffffffffe00"
definition QCOW2_OFLAG_ZERO :: u64 where "QCOW2_OFLAG_ZERO = shl 1 0"
definition QCOW2_OFFSET_COMPRESSED :: u64 where "QCOW2_OFFSET_COMPRESSED = shl 1 62"
definition QCOW2_OFFSET_COPIED :: u64 where "QCOW2_OFFSET_COPIED = shl 1 63"

datatype qcow2_cluster_type = Unallocated | ZeroPlain | ZeroAlloc | Normal | Compressed

definition is_allocated :: "qcow2_cluster_type \<Rightarrow> bool" where
  "is_allocated t \<longleftrightarrow> t = Compressed \<or> t = Normal \<or> t = ZeroAlloc"

definition is_read_zero :: "qcow2_cluster_type \<Rightarrow> bool" where
  "is_read_zero t \<longleftrightarrow> t = Unallocated \<or> t = ZeroAlloc \<or> t = ZeroPlain"

definition get_cluster_type :: "u64 \<Rightarrow> qcow2_cluster_type" where
  "get_cluster_type l2_entry =
     (if l2_entry AND QCOW2_OFFSET_COMPRESSED \<noteq> 0 then Compressed
      else if l2_entry AND QCOW2_OFLAG_ZERO \<noteq> 0
      then (if l2_entry AND L2_TABLE_OFFSET_MASK \<noteq> 0 then ZeroAlloc else ZeroPlain)
      else if l2_entry AND L2_TABLE_OFFSET_MASK = 0 then Unallocated
      else Normal)"

section \<open>The tables\<close>

record qcow2_table =
  qt_cluster_bits :: u64
  qt_cluster_size :: u64
  qt_l1_table :: "u64 list"
  qt_l1_table_offset :: u64
  qt_l1_size :: u32
  qt_cache :: qcow2_cache
  qt_l2_bits :: u64
  qt_l2_size :: u64

definition MAX_L2_CACHE_SIZE :: u64 where "MAX_L2_CACHE_SIZE = 32 * 2 ^ 20"

definition new_qcow2_table :: qcow2_table where
  "new_qcow2_table = \<lparr>qt_cluster_bits = 0, qt_cluster_size = 0, qt_l1_table = [], qt_l1_table_offset = 0, qt_l1_size = 0,
     qt_cache = \<lparr>qc_max_size = 0, qc_lru_count = 0, qc_map = [], qc_dirty_tables = []\<rparr>, qt_l2_bits = 0, qt_l2_size = 0\<rparr>"

text \<open>The argument \<open>l2_cache_size\<close> is the field of the configuration. \<open>header.cluster_size()\<close> is never 0.\<close>

definition init_table_info :: "qcow_header \<Rightarrow> u64 option \<Rightarrow> qcow2_table \<Rightarrow> qcow2_error + qcow2_table" where
  "init_table_info h l2_cache_size tb =
     (case div_round_up (h_size h) (cluster_size h) of
        None \<Rightarrow> Inl ERound
      | Some max_l2_entries \<Rightarrow>
          (case div_round_up (max_l2_entries * ENTRY_SIZE) (cluster_size h) of
             None \<Rightarrow> Inl ERound
           | Some max_l2_cache \<Rightarrow>
               (let cache_size = (case l2_cache_size of
                      Some n \<Rightarrow> n div cluster_size h
                    | None \<Rightarrow> min max_l2_cache (MAX_L2_CACHE_SIZE div cluster_size h))
                in Inr (tb\<lparr>qt_cluster_bits := ucast (h_cluster_bits h), qt_cluster_size := cluster_size h,
                     qt_l2_bits := ucast (h_cluster_bits h) - ENTRY_BITS, qt_l2_size := cluster_size h div ENTRY_SIZE,
                     qt_cache := new_qcow2_cache (unat cache_size), qt_l1_table_offset := h_l1_table_offset h,
                     qt_l1_size := h_l1_size h\<rparr>))))"

definition load_l1_table :: "aio_fail \<Rightarrow> memory \<Rightarrow> qcow2_table \<Rightarrow> qcow2_error + qcow2_table" where
  "load_l1_table io d tb =
     and_then (read_ctrl_cluster io (qt_l1_table_offset tb) (unat (qt_l1_size tb)) d) (\<lambda>l1. Inr (tb\<lparr>qt_l1_table := l1\<rparr>))"

definition save_l1_table :: "aio_fail \<Rightarrow> qcow2_table \<Rightarrow> memory \<Rightarrow> (qcow2_error + unit) \<times> memory" where
  "save_l1_table io tb = write_ctrl_cluster io (qt_l1_table_offset tb) (qt_l1_table tb)"

definition get_l1_table_index :: "qcow2_table \<Rightarrow> u64 \<Rightarrow> u64" where
  "get_l1_table_index tb guest_offset = shr guest_offset (unat (qt_cluster_bits tb + qt_l2_bits tb))"

definition get_l2_table_index :: "qcow2_table \<Rightarrow> u64 \<Rightarrow> u64" where
  "get_l2_table_index tb guest_offset = shr guest_offset (unat (qt_cluster_bits tb)) AND (qt_l2_size tb - 1)"

definition get_l1_table_entry :: "qcow2_table \<Rightarrow> u64 \<Rightarrow> qcow2_error + u64" where
  "get_l1_table_entry tb guest_offset =
     (let l1_idx = unat (get_l1_table_index tb guest_offset) in
      if l1_idx < length (qt_l1_table tb) then Inr (qt_l1_table tb ! l1_idx) else Inl (EQPanic IndexOutOfRange))"

definition get_l2_table_max_remain_size :: "qcow2_table \<Rightarrow> u64 \<Rightarrow> u64 \<Rightarrow> u64" where
  "get_l2_table_max_remain_size tb guest_offset offset_in_cluster =
     (qt_l2_size tb - get_l2_table_index tb guest_offset) * qt_cluster_size tb - offset_in_cluster"

definition update_l1_table :: "nat \<Rightarrow> u64 \<Rightarrow> qcow2_table \<Rightarrow> qcow2_error + qcow2_table" where
  "update_l1_table l1_index l2_address tb =
     (if l1_index < length (qt_l1_table tb) then Inr (tb\<lparr>qt_l1_table := (qt_l1_table tb)[l1_index := l2_address]\<rparr>)
      else Inl (EQPanic IndexOutOfRange))"

section \<open>The tables in memory\<close>

text \<open>The table, the store of cached tables with the next free identifier, and the file.\<close>

record l2_state =
  ls_table :: qcow2_table
  ls_tabs :: tables
  ls_next :: tid
  ls_disk :: memory

definition set_cache :: "qcow2_cache \<times> tables \<Rightarrow> l2_state \<Rightarrow> l2_state" where
  "set_cache = (\<lambda>(c, ts) s. s\<lparr>ls_table := (ls_table s)\<lparr>qt_cache := c\<rparr>, ls_tabs := ts\<rparr>)"

definition ls_cache :: "l2_state \<Rightarrow> qcow2_cache" where
  "ls_cache s = qt_cache (ls_table s)"

definition alloc_table :: "cache_table \<Rightarrow> l2_state \<Rightarrow> tid \<times> l2_state" where
  "alloc_table t s = (ls_next s, s\<lparr>ls_tabs := (ls_tabs s)(ls_next s := t), ls_next := Suc (ls_next s)\<rparr>)"

definition get_l2_table_cache_entry :: "u64 \<Rightarrow> l2_state \<Rightarrow> (qcow2_error + tid option) \<times> l2_state" where
  "get_l2_table_cache_entry guest_offset s =
     (case get_l1_table_entry (ls_table s) guest_offset of
        Inl e \<Rightarrow> (Inl e, s)
      | Inr l1_entry \<Rightarrow>
          (let l2_entry_addr = l1_entry AND L1_TABLE_OFFSET_MASK in
           if l2_entry_addr = 0 then (Inr None, s)
           else case cache_get l2_entry_addr (ls_cache s, ls_tabs s) of (r, ct) \<Rightarrow> (Inr r, set_cache ct s)))"

definition update_l2_table :: "tid \<Rightarrow> u64 \<Rightarrow> u64 \<Rightarrow> l2_state \<Rightarrow> (qcow2_error + unit) \<times> l2_state" where
  "update_l2_table i index entry s =
     (let is_dirty = di_is_dirty (ct_dirty (ls_tabs s i)) in
      case set_entry_map index entry (ls_tabs s i) of
        Inl e \<Rightarrow> (Inl e, s)
      | Inr t \<Rightarrow> (Inr (), set_cache (if is_dirty then ls_cache s else add_dirty_table i (ls_cache s), (ls_tabs s)(i := t)) s))"

definition cache_l2_table :: "aio_fail \<Rightarrow> hash_order \<Rightarrow> tid \<Rightarrow> l2_state \<Rightarrow> (qcow2_error + unit) \<times> l2_state" where
  "cache_l2_table io ord i s =
     (let addr = ct_addr (ls_tabs s i); c = ls_cache s;
          c1 = (if contains_keys addr c then c\<lparr>qc_map := hash_remove addr (qc_map c)\<rparr> else c)
      in case lru_replace ord addr i (c1, ls_tabs s) of
           (victim, ct) \<Rightarrow>
             (let s1 = set_cache ct s in
              case victim of
                None \<Rightarrow> (Inr (), s1)
              | Some v \<Rightarrow>
                  if di_is_dirty (ct_dirty (ls_tabs s1 v))
                  then (case write_table io (ls_tabs s1 v) (ls_disk s1) of (r, d) \<Rightarrow> (r, s1\<lparr>ls_disk := d\<rparr>))
                  else (Inr (), s1)))"

definition table_flush :: "aio_fail \<Rightarrow> l2_state \<Rightarrow> (qcow2_error + unit) \<times> l2_state" where
  "table_flush io s =
     (case cache_flush io (ls_cache s) (ls_tabs s) (ls_disk s) of (r, c, ts, d) \<Rightarrow> (r, (set_cache (c, ts) s)\<lparr>ls_disk := d\<rparr>))"

definition table_drop_dirty_caches :: "l2_state \<Rightarrow> l2_state" where
  "table_drop_dirty_caches s = set_cache (clean_up_dirty_cache (ls_cache s) (ls_tabs s), ls_tabs s) s"

section \<open>Looking up an entry\<close>

definition is_aligned :: "u64 \<Rightarrow> u64 \<Rightarrow> bool" where
  "is_aligned cluster_sz off \<longleftrightarrow> off AND (cluster_sz - 1) = 0"

definition load_cluster :: "aio_fail \<Rightarrow> qcow_header \<Rightarrow> u64 \<Rightarrow> memory \<Rightarrow> qcow2_error + u8 list" where
  "load_cluster io h addr d =
     (if \<not> is_aligned (cluster_size h) addr then Inl (EUnaligned addr) else read_buffer io addr (unat (cluster_size h)) d)"

definition get_l2_entry :: "aio_fail \<Rightarrow> hash_order \<Rightarrow> qcow_header \<Rightarrow> u64 \<Rightarrow> l2_state \<Rightarrow> (qcow2_error + u64) \<times> l2_state" where
  "get_l2_entry io ord h guest_offset s =
     (let l2_index = get_l2_table_index (ls_table s) guest_offset in
      case get_l2_table_cache_entry guest_offset s of
        (Inl e, s1) \<Rightarrow> (Inl e, s1)
      | (Inr (Some i), s1) \<Rightarrow> (get_entry_map l2_index (ls_tabs s1 i), s1)
      | (Inr None, s1) \<Rightarrow>
          (case get_l1_table_entry (ls_table s1) guest_offset of
             Inl e \<Rightarrow> (Inl e, s1)
           | Inr l1_entry \<Rightarrow>
               (let l2_address = l1_entry AND L1_TABLE_OFFSET_MASK in
                if l2_address = 0 then (Inl EL2Unallocated, s1)
                else case and_then (load_cluster io h l2_address (ls_disk s1)) (\<lambda>l2_cluster. new_cache_table l2_address l2_cluster ENTRY_SIZE_U64) of
                       Inl e \<Rightarrow> (Inl e, s1)
                     | Inr t \<Rightarrow>
                         (case get_entry_map l2_index t of
                            Inl e \<Rightarrow> (Inl e, s1)
                          | Inr res \<Rightarrow>
                              (case alloc_table t s1 of (i, s2) \<Rightarrow>
                                 (case cache_l2_table io ord i s2 of (Inl e, s3) \<Rightarrow> (Inl e, s3) | (Inr _, s3) \<Rightarrow> (Inr res, s3)))))))"

text \<open>The last part of \<open>get_table_cluster\<close>: the table at an address that is allocated, from the cache or from the file.\<close>

definition cached_l2_table :: "aio_fail \<Rightarrow> hash_order \<Rightarrow> qcow_header \<Rightarrow> u64 \<Rightarrow> l2_state \<Rightarrow> (qcow2_error + tid) \<times> l2_state" where
  "cached_l2_table io ord h l2_address s =
     (case cache_get l2_address (ls_cache s, ls_tabs s) of
        (Some i, ct) \<Rightarrow> (Inr i, set_cache ct s)
      | (None, ct) \<Rightarrow>
          (let s1 = set_cache ct s in
           case and_then (load_cluster io h l2_address (ls_disk s1)) (\<lambda>l2_cluster. new_cache_table l2_address l2_cluster ENTRY_SIZE_U64) of
             Inl e \<Rightarrow> (Inl e, s1)
           | Inr t \<Rightarrow>
               (case alloc_table t s1 of (i, s2) \<Rightarrow>
                  (case cache_l2_table io ord i s2 of (Inl e, s3) \<Rightarrow> (Inl e, s3) | (Inr _, s3) \<Rightarrow> (Inr i, s3)))))"

end
