(* ===== verification/Qcow2Coherence.thy ===== *)
theory Qcow2Coherence
  imports Qcow2Table
begin

text \<open>
  The cache of L2 tables against the tables themselves: what the driver sees through the cache is
  one table of bytes per cluster, whatever was evicted, reloaded or flushed in between, and after
  a flush the file holds it.
\<close>

section \<open>Clusters and their bytes\<close>

definition size_ok :: "nat \<Rightarrow> bool" where
  "size_ok cs \<longleftrightarrow> 512 dvd cs \<and> 0 < cs \<and> cs dvd 2 ^ 64 \<and> cs < 2 ^ 32"

definition at_cluster :: "nat \<Rightarrow> u64 \<Rightarrow> bool" where
  "at_cluster cs a \<longleftrightarrow> cs dvd unat a"

lemma cluster_end:
  assumes "size_ok cs" and "at_cluster cs a"
  shows "unat a + cs \<le> 2 ^ 64"
proof -
  obtain k where k: "unat a = cs * k" using assms(2) by (auto simp: at_cluster_def)
  obtain n where n: "2 ^ 64 = cs * n" using assms(1) by (auto simp: size_ok_def)
  have "unat a < 2 ^ 64" using unat_lt_64 [of a] by simp
  then have "k < n" using k n assms(1) by (auto simp: size_ok_def)
  then have "cs * (k + 1) \<le> cs * n" by (intro mult_le_mono2) simp
  then show ?thesis using k n by simp
qed

lemma byte_addr:
  assumes "size_ok cs" and "at_cluster cs a" and "p < cs"
  shows "unat (a + of_nat p) = unat a + p"
proof -
  have p: "unat (of_nat p :: u64) = p" using assms(1,3) by (simp add: unat_of_nat take_bit_nat_eq_self size_ok_def)
  then show ?thesis using cluster_end [OF assms(1,2)] assms(3) by (subst unat_add_eq) simp_all
qed

lemma byte_addr_inj:
  assumes "size_ok cs" and "at_cluster cs a" and "at_cluster cs b" and "p < cs" and "q < cs"
    and "a + of_nat p = b + of_nat q"
  shows "a = b \<and> p = q"
proof -
  have e: "unat a + p = unat b + q" using byte_addr [OF assms(1,2,4)] byte_addr [OF assms(1,3,5)] assms(6) by simp
  obtain k where k: "unat a = cs * k" using assms(2) by (auto simp: at_cluster_def)
  obtain l where l: "unat b = cs * l" using assms(3) by (auto simp: at_cluster_def)
  have "(cs * k + p) div cs = (cs * l + q) div cs" using e k l by simp
  then have "k = l" using assms(4,5) by simp
  then show ?thesis using e k l by (simp add: word_unat_eq_iff)
qed

section \<open>The bytes a table writes\<close>

definition lo :: "cache_table \<Rightarrow> nat" where
  "lo t = unat (di_start (ct_dirty t)) div 512 * 512"

definition hi :: "cache_table \<Rightarrow> nat" where
  "hi t = (unat (di_end (ct_dirty t)) + 511) div 512 * 512"

definition writes :: "cache_table \<Rightarrow> nat \<Rightarrow> u8 option" where
  "writes t p = (if di_is_dirty (ct_dirty t) \<and> lo t \<le> p \<and> p < hi t then Some (ct_data t ! p) else None)"

definition tab_ok :: "nat \<Rightarrow> cache_table \<Rightarrow> bool" where
  "tab_ok cs t \<longleftrightarrow> length (ct_data t) = cs \<and> at_cluster cs (ct_addr t) \<and> ct_entry_size t = ENTRY_SIZE_U64 \<and>
     (if di_is_dirty (ct_dirty t) then unat (di_start (ct_dirty t)) < unat (di_end (ct_dirty t)) \<and> unat (di_end (ct_dirty t)) \<le> cs
      else ct_dirty t = clean_info)"

lemma round_up_512:
  assumes "(u :: nat) mod 512 \<noteq> 0" and "u mod 512 < 512"
  shows "u + (512 - u mod 512) = (u + 511) div 512 * 512"
proof -
  define q where "q = u div 512"
  define r where "r = u mod 512"
  have u: "512 * q + r = u" by (simp add: q_def r_def)
  have r: "0 < r" "r < 512" using assms by (simp_all add: r_def)
  have "u + 511 = (r - 1) + 512 * (q + 1)" using u r by (simp flip: u)
  then have "(u + 511) div 512 = ((r - 1) + 512 * (q + 1)) div 512" by (rule arg_cong)
  also have "\<dots> = q + 1" using r by (simp add: div_mult_self2)
  finally show ?thesis using u r by (fold r_def) linarith
qed

lemma round_512:
  assumes "unat e \<le> cs" and "size_ok cs"
  shows "round_down s 512 = Inr (Some (s - s mod 512)) \<and> unat (s - s mod 512) = unat s div 512 * 512"
    and "\<exists>e'. round_up e 512 = Inr (Some e') \<and> unat e' = (unat e + 511) div 512 * 512"
    and "(unat e + 511) div 512 * 512 \<le> cs"
proof -
  obtain k where k: "cs = 512 * k" using assms(2) by (auto simp: size_ok_def)
  show le: "(unat e + 511) div 512 * 512 \<le> cs" using assms(1) k by simp
  have m: "unat (s mod 512) = unat s mod 512" by (simp add: unat_mod_eq)
  have "s mod 512 \<le> s" using m by (simp add: word_le_nat_alt)
  then have "unat (s - s mod 512) = unat s - unat s mod 512" using m by (simp add: unat_sub)
  also have "\<dots> = unat s div 512 * 512" by (simp add: minus_mod_eq_div_mult)
  finally show "round_down s 512 = Inr (Some (s - s mod 512)) \<and> unat (s - s mod 512) = unat s div 512 * 512"
    using \<open>s mod 512 \<le> s\<close> by (simp add: round_down_def Let_def checked_sub_def)
  show "\<exists>e'. round_up e 512 = Inr (Some e') \<and> unat e' = (unat e + 511) div 512 * 512"
  proof (cases "e mod 512 = 0")
    case True
    then have "unat e mod 512 = 0" by (simp add: word_unat_eq_iff unat_mod_eq)
    then have "(unat e + 511) div 512 * 512 = unat e" by (auto simp: mod_eq_0_iff_dvd)
    then show ?thesis using True by (simp add: round_up_def Let_def)
  next
    case False
    have me: "unat (e mod 512) = unat e mod 512" by (simp add: unat_mod_eq)
    then have nz: "unat e mod 512 \<noteq> 0" "unat e mod 512 < 512" using False by (auto simp: word_unat_eq_iff)
    then have "e mod 512 \<le> 512" using me by (simp add: word_le_nat_alt)
    then have d: "unat (512 - e mod 512) = 512 - unat e mod 512" using me by (simp add: unat_sub)
    have up: "unat e + (512 - unat e mod 512) = (unat e + 511) div 512 * 512" using nz by (rule round_up_512)
    then have "unat e + unat (512 - e mod 512) < 2 ^ 64" using d le assms(2) by (simp add: size_ok_def)
    then show ?thesis using False up d by (simp add: round_up_def Let_def checked_add_def unat_add_eq)
  qed
qed

text \<open>A byte that is not in the part written lies at least its length behind its start, counting around the end of the address space.\<close>

lemma outside_slice:
  assumes "size_ok cs" and "at_cluster cs a" and "at_cluster cs b" and "p < cs" and "l < cs" and "h \<le> cs"
    and "\<not> (a = b \<and> l \<le> p \<and> p < h)" and base: "unat base = unat b + l"
  shows "h - l \<le> unat (a + of_nat p - base)"
proof (cases "unat base \<le> unat (a + of_nat p)")
  case True
  have x: "unat (a + of_nat p) = unat a + p" by (rule byte_addr [OF assms(1,2,4)])
  have "unat (a + of_nat p - base) = unat a + p - (unat b + l)" using unat_sub_eq [OF True] x base by simp
  moreover have "h \<le> p" if "a = b" using that True x base assms(7) by auto
  moreover have "unat b + cs \<le> unat a" if "a \<noteq> b"
  proof -
    obtain k where k: "unat a = cs * k" using assms(2) by (auto simp: at_cluster_def)
    obtain m where m: "unat b = cs * m" using assms(3) by (auto simp: at_cluster_def)
    have "k \<noteq> m" using that k m by (auto simp: word_unat_eq_iff)
    moreover have "m \<le> k"
    proof (rule ccontr)
      assume "\<not> m \<le> k"
      then have "cs * (k + 1) \<le> cs * m" by (intro mult_le_mono2) simp
      then show False using True x base k m assms(4) by simp
    qed
    ultimately have "cs * (m + 1) \<le> cs * k" by (intro mult_le_mono2) simp
    then show ?thesis using k m by simp
  qed
  ultimately show ?thesis using assms(6) by (cases "a = b") auto
next
  case False
  have "unat (a + of_nat p - base) = 2 ^ 64 + unat (a + of_nat p) - unat base" using False unat_sub_if' [of "a + of_nat p" base] by simp
  then show ?thesis using cluster_end [OF assms(1,3)] base assms(6) by linarith
qed

lemma write_table_bytes:
  assumes "size_ok cs" and "tab_ok cs t" and "di_is_dirty (ct_dirty t)" and "write_table io t d = (Inr (), d')"
    and "at_cluster cs a" and "p < cs"
  shows "d' (a + of_nat p) = (if a = ct_addr t then case writes t p of Some v \<Rightarrow> v | None \<Rightarrow> d (a + of_nat p) else d (a + of_nat p))"
proof -
  let ?s = "di_start (ct_dirty t)" and ?e = "di_end (ct_dirty t)"
  have t: "length (ct_data t) = cs" "at_cluster cs (ct_addr t)" "unat ?s < unat ?e" "unat ?e \<le> cs"
    using assms(2,3) by (auto simp: tab_ok_def)
  note r = round_512 [OF t(4) assms(1)]
  obtain e' where e': "round_up ?e 512 = Inr (Some e')" "unat e' = hi t" using r(2) by (auto simp: hi_def)
  define s' where "s' = ?s - ?s mod 512"
  have s': "round_down ?s 512 = Inr (Some s')" "unat s' = lo t" using r(1) [of ?s] by (auto simp: lo_def s'_def)
  have hi: "hi t \<le> cs" using r(3) by (simp add: hi_def)
  let ?w = "take (hi t - lo t) (drop (lo t) (ct_data t))"
  have d': "d' = store d (ct_addr t + s') ?w"
    using assms(4) e' s' by (auto simp: write_table_def write_dirty_info_def DEFAULT_SECTOR_SIZE_def write_buffer_def split: if_splits option.splits)
  have len: "length ?w = hi t - lo t" using t(1) hi by simp
  have lt: "lo t < cs" using t(3,4) unfolding lo_def by (metis div_times_less_eq_dividend le_less_trans less_le_trans)
  have "of_nat (lo t) = s'" using s'(2) lt assms(1) by (simp add: word_unat_eq_iff unat_of_nat take_bit_nat_eq_self size_ok_def)
  then have sn: "unat (ct_addr t + s') = unat (ct_addr t) + lo t" using byte_addr [OF assms(1) t(2) lt] by simp
  have x: "unat (a + of_nat p) = unat a + p" by (rule byte_addr [OF assms(1,5,6)])
  show ?thesis
  proof (cases "a = ct_addr t \<and> lo t \<le> p \<and> p < hi t")
    case True
    then have "unat (a + of_nat p - (ct_addr t + s')) = p - lo t" using x sn unat_sub_eq [of "ct_addr t + s'" "a + of_nat p"] by simp
    moreover have "p - lo t < hi t - lo t" using True by linarith
    ultimately show ?thesis using True assms(3) len hi t(1) by (simp add: d' store_def writes_def)
  next
    case False
    then have "hi t - lo t \<le> unat (a + of_nat p - (ct_addr t + s'))" by (rule outside_slice [OF assms(1,5) t(2) assms(6) lt hi _ sn])
    then show ?thesis using False len by (auto simp: d' store_other writes_def)
  qed
qed

section \<open>What a flush writes\<close>

text \<open>The byte the last table of a list writes at position \<open>p\<close> of cluster \<open>a\<close>.\<close>

fun lastw :: "tables \<Rightarrow> tid list \<Rightarrow> u64 \<Rightarrow> nat \<Rightarrow> u8 option" where
  "lastw ts [] a p = None"
| "lastw ts (i # is) a p =
     (case lastw ts is a p of Some v \<Rightarrow> Some v | None \<Rightarrow> if ct_addr (ts i) = a then writes (ts i) p else None)"

lemma lastw_cong:
  assumes "\<And>i. i \<in> set is \<Longrightarrow> ct_addr (ts' i) = ct_addr (ts i) \<and> (ct_addr (ts i) = a \<longrightarrow> writes (ts' i) p = writes (ts i) p)"
  shows "lastw ts' is a p = lastw ts is a p"
  using assms by (induction "is") (auto split: option.split)

lemma lastw_append: "lastw ts (is @ js) a p = (case lastw ts js a p of Some v \<Rightarrow> Some v | None \<Rightarrow> lastw ts is a p)"
  by (induction "is") (auto split: option.split)

lemma lastw_None: "(\<And>i. i \<in> set is \<Longrightarrow> ct_addr (ts i) \<noteq> a) \<Longrightarrow> lastw ts is a p = None"
  by (induction "is") auto

lemma flush_tables_failed: "fst (flush_tables io is (Inl e) ts d) \<noteq> Inr ()"
  by (induction "is" arbitrary: e ts d) (auto split: prod.split sum.split qcow2_error.split)

definition cleaned :: "tid list \<Rightarrow> tables \<Rightarrow> tables" where
  "cleaned is ts = (\<lambda>i. if i \<in> set is then (ts i)\<lparr>ct_dirty := clean_info\<rparr> else ts i)"

lemma flush_tables_bytes:
  assumes "size_ok cs" and "distinct is" and "\<And>i. i \<in> set is \<Longrightarrow> tab_ok cs (ts i)" and "flush_tables io is (Inr ()) ts d = (Inr (), ts', d')"
  shows "ts' = cleaned is ts \<and> (\<forall>a p. at_cluster cs a \<longrightarrow> p < cs \<longrightarrow>
    d' (a + of_nat p) = (case lastw ts is a p of Some v \<Rightarrow> v | None \<Rightarrow> d (a + of_nat p)))"
  using assms(2-4)
proof (induction "is" arbitrary: ts d)
  case Nil
  then show ?case by (simp add: cleaned_def fun_eq_iff)
next
  case (Cons i "is")
  note ok = Cons.prems(2) [of i, simplified]
  show ?case
  proof (cases "di_is_dirty (ct_dirty (ts i))")
    case False
    then have "flush_tables io is (Inr ()) ts d = (Inr (), ts', d')" using Cons.prems(3) by simp
    from Cons.IH [OF _ _ this] Cons.prems(1,2) have ih: "ts' = cleaned is ts"
      "\<forall>a p. at_cluster cs a \<longrightarrow> p < cs \<longrightarrow> d' (a + of_nat p) = (case lastw ts is a p of Some v \<Rightarrow> v | None \<Rightarrow> d (a + of_nat p))" by auto
    have "ct_dirty (ts i) = clean_info" using ok False by (simp add: tab_ok_def)
    then have "cleaned is ts = cleaned (i # is) ts" by (auto simp: cleaned_def fun_eq_iff)
    moreover have "writes (ts i) p = None" for p using False by (simp add: writes_def)
    ultimately show ?thesis using ih by (auto split: option.split)
  next
    case True
    obtain r d1 where w: "write_table io (ts i) d = (r, d1)" by (cases "write_table io (ts i) d")
    have r: "r = Inr ()"
    proof (cases r)
      case (Inl e)
      then have "fst (flush_tables io (i # is) (Inr ()) ts d) \<noteq> Inr ()" using True w flush_tables_failed by (cases e) auto
      then show ?thesis using Cons.prems(3) by simp
    qed simp
    let ?ts = "clear_dirty i ts"
    have run: "flush_tables io is (Inr ()) ?ts d1 = (Inr (), ts', d')" using Cons.prems(3) True w r by simp
    have same: "?ts j = ts j" if "j \<in> set is" for j using that Cons.prems(1) by (auto simp: clear_dirty_def)
    from Cons.IH [OF _ _ run] Cons.prems(1,2) same have ih: "ts' = cleaned is ?ts"
      "\<forall>a p. at_cluster cs a \<longrightarrow> p < cs \<longrightarrow> d' (a + of_nat p) = (case lastw ?ts is a p of Some v \<Rightarrow> v | None \<Rightarrow> d1 (a + of_nat p))" by auto
    have l: "lastw ?ts is a p = lastw ts is a p" for a p by (rule lastw_cong) (simp add: same)
    have "cleaned is ?ts = cleaned (i # is) ts" using Cons.prems(1) by (auto simp: cleaned_def clear_dirty_def fun_eq_iff)
    then show ?thesis using ih l write_table_bytes [OF assms(1) ok True w [unfolded r]] by (auto split: option.split)
  qed
qed

section \<open>Coherence\<close>

text \<open>
  The byte of a cluster as the driver sees it: in the cached table if there is one, otherwise in
  the file.
\<close>

definition view_byte :: "(u64 \<times> tid) list \<Rightarrow> tables \<Rightarrow> memory \<Rightarrow> u64 \<Rightarrow> nat \<Rightarrow> u8" where
  "view_byte m ts d a p = (case map_of m a of Some i \<Rightarrow> ct_data (ts i) ! p | None \<Rightarrow> d (a + of_nat p))"

text \<open>
  Every modified table that is cached is in the list, behind all others of its cluster; outside
  its modified part it agrees with the file; and no table in the list, in particular none that was
  evicted meanwhile, would write anything but the byte that is seen.
\<close>

definition ids_ok :: "nat \<Rightarrow> (u64 \<times> tid) list \<Rightarrow> tid list \<Rightarrow> tables \<Rightarrow> tid \<Rightarrow> bool" where
  "ids_ok cs m ds ts nx \<longleftrightarrow> distinct (map fst m) \<and> distinct (map snd m) \<and> distinct ds \<and> 0 \<notin> fst ` set m \<and>
     (\<forall>(k, i) \<in> set m. i < nx \<and> tab_ok cs (ts i) \<and> ct_addr (ts i) = k) \<and> (\<forall>j \<in> set ds. j < nx \<and> tab_ok cs (ts j))"

definition last_ok :: "(u64 \<times> tid) list \<Rightarrow> tid list \<Rightarrow> tables \<Rightarrow> bool" where
  "last_ok m ds ts \<longleftrightarrow> (\<forall>(k, i) \<in> set m. (di_is_dirty (ct_dirty (ts i)) \<longleftrightarrow> i \<in> set ds) \<and>
     (\<forall>xs ys. ds = xs @ i # ys \<longrightarrow> (\<forall>j \<in> set ys. ct_addr (ts j) \<noteq> k)))"

definition file_ok :: "nat \<Rightarrow> (u64 \<times> tid) list \<Rightarrow> tables \<Rightarrow> memory \<Rightarrow> bool" where
  "file_ok cs m ts d \<longleftrightarrow> (\<forall>(k, i) \<in> set m. \<forall>p < cs. writes (ts i) p = None \<longrightarrow> d (k + of_nat p) = ct_data (ts i) ! p)"

definition pending_ok :: "nat \<Rightarrow> (u64 \<times> tid) list \<Rightarrow> tid list \<Rightarrow> tables \<Rightarrow> memory \<Rightarrow> bool" where
  "pending_ok cs m ds ts d \<longleftrightarrow> (\<forall>a p v. at_cluster cs a \<longrightarrow> p < cs \<longrightarrow> lastw ts ds a p = Some v \<longrightarrow> v = view_byte m ts d a p)"

definition coh :: "nat \<Rightarrow> (u64 \<times> tid) list \<Rightarrow> tid list \<Rightarrow> tables \<Rightarrow> tid \<Rightarrow> memory \<Rightarrow> bool" where
  "coh cs m ds ts nx d \<longleftrightarrow> ids_ok cs m ds ts nx \<and> last_ok m ds ts \<and> file_ok cs m ts d \<and> pending_ok cs m ds ts d"

lemma ids_okD:
  assumes "ids_ok cs m ds ts nx"
  shows "distinct (map fst m)" "distinct (map snd m)" "distinct ds" "0 \<notin> fst ` set m"
    "(k, i) \<in> set m \<Longrightarrow> i < nx \<and> tab_ok cs (ts i) \<and> ct_addr (ts i) = k" "j \<in> set ds \<Longrightarrow> j < nx \<and> tab_ok cs (ts j)"
  using assms by (auto simp: ids_ok_def)

lemma last_okD:
  assumes "last_ok m ds ts" and "(k, i) \<in> set m"
  shows "di_is_dirty (ct_dirty (ts i)) \<longleftrightarrow> i \<in> set ds" "ds = xs @ i # ys \<Longrightarrow> n \<in> set ys \<Longrightarrow> ct_addr (ts n) \<noteq> k"
  using bspec [OF assms(1) [unfolded last_ok_def] assms(2)] by simp_all

lemma file_okD: "file_ok cs m ts d \<Longrightarrow> (k, i) \<in> set m \<Longrightarrow> p < cs \<Longrightarrow> writes (ts i) p = None \<Longrightarrow> d (k + of_nat p) = ct_data (ts i) ! p"
  by (auto simp: file_ok_def)

lemma pending_okD:
  "pending_ok cs m ds ts d \<Longrightarrow> at_cluster cs a \<Longrightarrow> p < cs \<Longrightarrow> lastw ts ds a p = Some v \<Longrightarrow> v = view_byte m ts d a p"
  by (simp add: pending_ok_def)

text \<open>A dirty table that is cached writes last.\<close>

lemma lastw_cached:
  assumes "last_ok m ds ts" and "(k, i) \<in> set m" and "ct_addr (ts i) = k" and "writes (ts i) p = Some v"
  shows "lastw ts ds k p = Some v"
proof -
  have "di_is_dirty (ct_dirty (ts i))" using assms(4) by (auto simp: writes_def split: if_splits)
  then obtain xs ys where ds: "ds = xs @ i # ys" using last_okD(1) [OF assms(1,2)] by (auto simp: in_set_conv_decomp)
  have "lastw ts ys k p = None" using last_okD(2) [OF assms(1,2) ds] by (intro lastw_None) auto
  then show ?thesis using assms(3,4) by (simp add: ds lastw_append)
qed

lemma coh_flush:
  assumes "size_ok cs" and "coh cs m ds ts nx d" and "flush_tables io ds (Inr ()) ts d = (Inr (), ts', d')"
  shows "coh cs m [] ts' nx d'" and "at_cluster cs a \<Longrightarrow> p < cs \<Longrightarrow> view_byte m ts' d' a p = view_byte m ts d a p"
    and "at_cluster cs a \<Longrightarrow> p < cs \<Longrightarrow> d' (a + of_nat p) = view_byte m ts d a p"
proof -
  note i = ids_okD [OF assms(2) [unfolded coh_def, THEN conjunct1]]
  have l: "last_ok m ds ts" and f: "file_ok cs m ts d" and q: "pending_ok cs m ds ts d" and ids: "ids_ok cs m ds ts nx" using assms(2) by (auto simp: coh_def)
  note w = flush_tables_bytes [OF assms(1) i(3) _ assms(3)]
  have ts': "ts' = cleaned ds ts" using w i(6) by blast
  have data: "ct_data (ts' j) = ct_data (ts j)" "ct_addr (ts' j) = ct_addr (ts j)" for j by (simp_all add: ts' cleaned_def)
  have d': "d' (b + of_nat n) = view_byte m ts d b n" if b: "at_cluster cs b" "n < cs" for b n
  proof (cases "lastw ts ds b n")
    case None
    have "d (b + of_nat n) = ct_data (ts j) ! n" if "map_of m b = Some j" for j
    proof -
      have j: "(b, j) \<in> set m" using that by (rule map_of_SomeD)
      then have "writes (ts j) n = None" using lastw_cached [OF l j] None i(5) by (cases "writes (ts j) n") auto
      then show ?thesis using file_okD [OF f j b(2)] by simp
    qed
    then show ?thesis using w i(6) b None by (auto simp: view_byte_def split: option.split)
  next
    case (Some v)
    then show ?thesis using w i(6) b pending_okD [OF q b Some] by auto
  qed
  then show "at_cluster cs a \<Longrightarrow> p < cs \<Longrightarrow> d' (a + of_nat p) = view_byte m ts d a p" by blast
  show "at_cluster cs a \<Longrightarrow> p < cs \<Longrightarrow> view_byte m ts' d' a p = view_byte m ts d a p"
    using d' data by (auto simp: view_byte_def split: option.splits)
  have clean: "ct_dirty (ts' j) = clean_info" if "(k, j) \<in> set m" for k j
    using i(5) [OF that] last_okD(1) [OF l that] by (cases "di_is_dirty (ct_dirty (ts j))") (simp_all add: ts' cleaned_def tab_ok_def)
  have ok: "tab_ok cs (ts' j)" if "(k, j) \<in> set m" for k j
    using i(5) [OF that] clean [OF that] data by (auto simp: tab_ok_def clean_info_def ts' cleaned_def)
  have nw: "\<not> di_is_dirty (ct_dirty (ts' j))" if "(k, j) \<in> set m" for k j using clean [OF that] by (simp add: clean_info_def)
  have "ids_ok cs m [] ts' nx" using ids ok data by (auto simp: ids_ok_def)
  moreover have "last_ok m [] ts'" using nw by (auto simp: last_ok_def)
  moreover have "file_ok cs m ts' d'"
    unfolding file_ok_def
  proof (clarify)
    fix k j p assume j: "(k, j) \<in> set m" and p: "p < cs"
    have "at_cluster cs k" "map_of m k = Some j" using i(5) [OF j] j i(1) by (auto simp: tab_ok_def)
    then show "d' (k + of_nat p) = ct_data (ts' j) ! p" using d' p data by (simp add: view_byte_def)
  qed
  moreover have "pending_ok cs m [] ts' d'" by (simp add: pending_ok_def)
  ultimately show "coh cs m [] ts' nx d'" by (simp add: coh_def)
qed

section \<open>Eviction, loading and updates\<close>

definition same_core :: "tables \<Rightarrow> tables \<Rightarrow> bool" where
  "same_core ts ts' \<longleftrightarrow> (\<forall>i. ct_dirty (ts' i) = ct_dirty (ts i) \<and> ct_addr (ts' i) = ct_addr (ts i) \<and>
     ct_entry_size (ts' i) = ct_entry_size (ts i) \<and> ct_data (ts' i) = ct_data (ts i))"

lemma same_core_refl [simp]: "same_core ts ts"
  by (simp add: same_core_def)

lemma same_core_trans: "same_core a b \<Longrightarrow> same_core b c \<Longrightarrow> same_core a c"
  by (simp add: same_core_def)

lemma same_core_writes: "same_core ts ts' \<Longrightarrow> writes (ts' i) p = writes (ts i) p"
  by (simp add: same_core_def writes_def lo_def hi_def)

lemma coh_core:
  assumes "same_core ts ts'"
  shows "coh cs m ds ts' nx d = coh cs m ds ts nx d" and "view_byte m ts' d a p = view_byte m ts d a p"
proof -
  have "lastw ts' ds a p = lastw ts ds a p" for a p
    using assms same_core_writes [OF assms] by (intro lastw_cong) (simp add: same_core_def)
  moreover have v: "view_byte m ts' d a p = view_byte m ts d a p" for a p
    using assms by (simp add: view_byte_def same_core_def split: option.split)
  moreover have "tab_ok cs (ts' i) = tab_ok cs (ts i)" for i using assms by (simp add: tab_ok_def same_core_def)
  ultimately show "coh cs m ds ts' nx d = coh cs m ds ts nx d"
    using assms same_core_writes [OF assms]
    by (simp add: coh_def ids_ok_def last_ok_def file_ok_def pending_ok_def same_core_def)
  show "view_byte m ts' d a p = view_byte m ts d a p" by (rule v)
qed

lemma map_of_hash_remove: "map_of (hash_remove k m) a = (if a = k then None else map_of m a)"
  by (induction m) (auto simp: hash_remove_def)

lemma set_hash_remove: "set (hash_remove k m) = {x \<in> set m. fst x \<noteq> k}"
  by (auto simp: hash_remove_def)

lemma hash_remove_id: "k \<notin> fst ` set m \<Longrightarrow> hash_remove k m = m"
  by (induction m) (auto simp: hash_remove_def)

lemma distinct_hash_remove: "distinct (map f m) \<Longrightarrow> distinct (map f (hash_remove k m))"
  by (simp add: hash_remove_def distinct_map_filter)

text \<open>Evicting a table: if it was modified it is written first.\<close>

lemma coh_evict:
  assumes sz: "size_ok cs" and c: "coh cs m ds ts nx d" and v: "(k, v) \<in> set m"
    and w: "if di_is_dirty (ct_dirty (ts v)) then write_table io (ts v) d = (Inr (), d') else d' = d"
  shows "coh cs (hash_remove k m) ds ts nx d'"
    and "at_cluster cs a \<Longrightarrow> p < cs \<Longrightarrow> view_byte (hash_remove k m) ts d' a p = view_byte m ts d a p"
proof -
  have ids: "ids_ok cs m ds ts nx" and l: "last_ok m ds ts" and f: "file_ok cs m ts d" and q: "pending_ok cs m ds ts d" using c by (auto simp: coh_def)
  note i = ids_okD [OF ids]
  have tv: "tab_ok cs (ts v)" "ct_addr (ts v) = k" using i(5) [OF v] by auto
  have mv: "map_of m k = Some v" using v i(1) by simp
  have other: "d' (b + of_nat n) = d (b + of_nat n)" if "at_cluster cs b" "n < cs" "b \<noteq> k" for b n
    using w write_table_bytes [OF sz tv(1) _ _ that(1,2), of io d d'] that(3) tv(2) by (auto split: if_splits)
  have own: "d' (k + of_nat n) = ct_data (ts v) ! n" if n: "n < cs" for n
  proof -
    have k: "at_cluster cs k" using tv by (auto simp: tab_ok_def)
    show ?thesis
    proof (cases "writes (ts v) n")
      case None
      then have "d' (k + of_nat n) = d (k + of_nat n)" using w write_table_bytes [OF sz tv(1) _ _ k n, of io d d'] tv(2) by (auto split: if_splits)
      then show ?thesis using file_okD [OF f v n None] by simp
    next
      case (Some b)
      then have "di_is_dirty (ct_dirty (ts v))" "b = ct_data (ts v) ! n" by (auto simp: writes_def split: if_splits)
      then show ?thesis using w write_table_bytes [OF sz tv(1) _ _ k n, of io d d'] tv(2) Some by simp
    qed
  qed
  have view: "view_byte (hash_remove k m) ts d' b n = view_byte m ts d b n" if "at_cluster cs b" "n < cs" for b n
    using other [OF that] own [OF that(2)] mv by (auto simp: view_byte_def map_of_hash_remove split: option.split)
  then show "at_cluster cs a \<Longrightarrow> p < cs \<Longrightarrow> view_byte (hash_remove k m) ts d' a p = view_byte m ts d a p" by blast
  have "ids_ok cs (hash_remove k m) ds ts nx"
    using ids by (auto simp: ids_ok_def set_hash_remove distinct_hash_remove)
  moreover have "last_ok (hash_remove k m) ds ts" using l by (auto simp: last_ok_def set_hash_remove)
  moreover have "file_ok cs (hash_remove k m) ts d'"
    unfolding file_ok_def
  proof (clarify)
    fix b j p assume "(b, j) \<in> set (hash_remove k m)" "p < cs" "writes (ts j) p = None"
    then have j: "(b, j) \<in> set m" "b \<noteq> k" by (auto simp: set_hash_remove)
    have "at_cluster cs b" using i(5) [OF j(1)] by (auto simp: tab_ok_def)
    then show "d' (b + of_nat p) = ct_data (ts j) ! p"
      using other [OF _ \<open>p < cs\<close> j(2)] file_okD [OF f j(1) \<open>p < cs\<close> \<open>writes (ts j) p = None\<close>] by simp
  qed
  moreover have "pending_ok cs (hash_remove k m) ds ts d'" using q view by (auto simp: pending_ok_def)
  ultimately show "coh cs (hash_remove k m) ds ts nx d'" by (simp add: coh_def)
qed

text \<open>Caching a table that was just read from the file, or just written to it.\<close>

lemma coh_insert:
  assumes c: "coh cs m ds ts nx d" and k: "map_of m k = None" "k \<noteq> 0" "ct_addr t = k" "tab_ok cs t" "ct_dirty t = clean_info"
    and data: "\<And>p. p < cs \<Longrightarrow> d (k + of_nat p) = ct_data t ! p"
  shows "coh cs ((k, nx) # m) ds (ts(nx := t)) (Suc nx) d"
    and "at_cluster cs a \<Longrightarrow> p < cs \<Longrightarrow> view_byte ((k, nx) # m) (ts(nx := t)) d a p = view_byte m ts d a p"
proof -
  have ids: "ids_ok cs m ds ts nx" and l: "last_ok m ds ts" and f: "file_ok cs m ts d" and q: "pending_ok cs m ds ts d" using c by (auto simp: coh_def)
  note i = ids_okD [OF ids]
  have nm: "j \<noteq> nx" if "(b, j) \<in> set m" for b j using i(5) [OF that] by simp
  have nd: "j \<noteq> nx" if "j \<in> set ds" for j using i(6) [OF that] by simp
  have view: "view_byte ((k, nx) # m) (ts(nx := t)) d b n = view_byte m ts d b n" if "at_cluster cs b" "n < cs" for b n
    using data [OF that(2)] k(1) nm map_of_SomeD [of m b] by (auto simp: view_byte_def split: option.split)
  then show "at_cluster cs a \<Longrightarrow> p < cs \<Longrightarrow> view_byte ((k, nx) # m) (ts(nx := t)) d a p = view_byte m ts d a p" by blast
  have lw: "lastw (ts(nx := t)) ds b n = lastw ts ds b n" for b n using nd by (intro lastw_cong) auto
  have fk: "k \<notin> fst ` set m" using k(1) by (simp add: map_of_eq_None_iff)
  have "b = k \<and> j = nx \<or> (b, j) \<in> set m" if "(b, j) \<in> set ((k, nx) # m)" for b j using that by auto
  then have tab: "j < Suc nx \<and> tab_ok cs ((ts(nx := t)) j) \<and> ct_addr ((ts(nx := t)) j) = b" if "(b, j) \<in> set ((k, nx) # m)" for b j
    using that i(5) [of b j] nm [of b j] k(3,4) by auto
  have tabd: "j < Suc nx \<and> tab_ok cs ((ts(nx := t)) j)" if "j \<in> set ds" for j using i(6) [OF that] nd [OF that] by simp
  have "nx \<notin> snd ` set m" by (auto dest: nm)
  moreover have "\<forall>(b, j) \<in> set ((k, nx) # m). j < Suc nx \<and> tab_ok cs ((ts(nx := t)) j) \<and> ct_addr ((ts(nx := t)) j) = b"
    by (rule ballI, rule case_prodI2, rule tab, simp)
  ultimately have "ids_ok cs ((k, nx) # m) ds (ts(nx := t)) (Suc nx)"
    unfolding ids_ok_def using i(1-4) fk k(2) tabd by (intro conjI) (simp_all del: fun_upd_apply)
  moreover have "last_ok ((k, nx) # m) ds (ts(nx := t))"
    unfolding last_ok_def
  proof (intro ballI, clarify)
    fix b j assume bj: "(b, j) \<in> set ((k, nx) # m)"
    show "(di_is_dirty (ct_dirty ((ts(nx := t)) j)) \<longleftrightarrow> j \<in> set ds) \<and>
        (\<forall>xs ys. ds = xs @ j # ys \<longrightarrow> (\<forall>n \<in> set ys. ct_addr ((ts(nx := t)) n) \<noteq> b))"
    proof (cases "j = nx")
      case True
      have "nx \<notin> set ds" by (auto dest: nd)
      then show ?thesis using k(5) True by (auto simp: clean_info_def)
    next
      case False
      then have j: "(b, j) \<in> set m" using bj by simp
      have "ct_addr ((ts(nx := t)) n) \<noteq> b" if "ds = xs @ j # ys" "n \<in> set ys" for xs ys n
        using last_okD(2) [OF l j that] nd [of n] that by simp
      then show ?thesis using last_okD(1) [OF l j] False by auto
    qed
  qed
  moreover have "file_ok cs ((k, nx) # m) (ts(nx := t)) d" 
    using f data by (auto simp: file_ok_def dest: nm)
  moreover have "pending_ok cs ((k, nx) # m) ds (ts(nx := t)) d" using q view lw by (auto simp: pending_ok_def)
  ultimately show "coh cs ((k, nx) # m) ds (ts(nx := t)) (Suc nx) d" by (simp add: coh_def)
qed

text \<open>Changing an entry of a cached table.\<close>

lemma entry_slice_ok:
  assumes "entry_slice idx t = Inr st" and "ct_entry_size t = ENTRY_SIZE_U64" and "unat idx < 2 ^ 60"
  shows "st = 8 * unat idx" and "8 * unat idx + 8 \<le> length (ct_data t)" and "unat (idx * ct_entry_size t) = 8 * unat idx"
    and "unat (idx * ct_entry_size t + ct_entry_size t) = 8 * unat idx + 8"
proof -
  have s: "unat (idx * 8) = 8 * unat idx" using assms(3) unat_mult_lem [of idx "8 :: u64"] by simp
  have e: "unat (idx * 8 + 8) = 8 * unat idx + 8" using assms(3) s by (subst unat_add_eq) simp_all
  show "st = 8 * unat idx" "8 * unat idx + 8 \<le> length (ct_data t)" "unat (idx * ct_entry_size t) = 8 * unat idx"
    "unat (idx * ct_entry_size t + ct_entry_size t) = 8 * unat idx + 8"
    using assms s e by (auto simp: entry_slice_def Let_def ENTRY_SIZE_U64_def split: if_splits)
qed

lemma put_bytes_nth:
  "s + length bs \<le> length data \<Longrightarrow> p < length data \<Longrightarrow>
     put_bytes s bs data ! p = (if s \<le> p \<and> p < s + length bs then bs ! (p - s) else data ! p)"
  by (auto simp: put_bytes_def nth_append)

lemma length_put_bytes [simp]: "s + length bs \<le> length data \<Longrightarrow> length (put_bytes s bs data) = length data"
  by (simp add: put_bytes_def)

lemma set_entry_writes:
  assumes sz: "size_ok cs" and t: "tab_ok cs t" and idx: "unat idx < 2 ^ 60" and set: "set_entry_map idx v t = Inr t'"
  shows "tab_ok cs t'" "ct_addr t' = ct_addr t" "di_is_dirty (ct_dirty t')" "ct_data t' = put_bytes (8 * unat idx) (to_be 8 v) (ct_data t)"
    "8 * unat idx + 8 \<le> cs"
    "p < cs \<Longrightarrow> writes t' p = None \<Longrightarrow> writes t p = None \<and> ct_data t' ! p = ct_data t ! p"
proof -
  have len: "length (ct_data t) = cs" and es: "ct_entry_size t = ENTRY_SIZE_U64" using t by (auto simp: tab_ok_def)
  obtain st where st: "entry_slice idx t = Inr st" using set by (auto simp: set_entry_map_def and_then_Inr)
  note e = entry_slice_ok [OF st es idx]
  let ?di = "ct_dirty t" and ?s = "idx * ct_entry_size t" and ?e = "idx * ct_entry_size t + ct_entry_size t"
  have t': "t' = t\<lparr>ct_data := put_bytes st (to_be 8 v) (ct_data t),
      ct_dirty := \<lparr>di_is_dirty = True, di_start = min (di_start ?di) ?s, di_end = max (di_end ?di) ?e\<rparr>\<rparr>"
    using set st es by (simp add: set_entry_map_def Let_def ENTRY_SIZE_U64_def)
  show "ct_addr t' = ct_addr t" "di_is_dirty (ct_dirty t')" "ct_data t' = put_bytes (8 * unat idx) (to_be 8 v) (ct_data t)" "8 * unat idx + 8 \<le> cs"
    using t' e len by simp_all
  have "unat (di_end ?di) \<le> cs" using t by (cases "di_is_dirty ?di") (auto simp: tab_ok_def clean_info_def)
  then show "tab_ok cs t'" using t t' e len by (auto simp: tab_ok_def word_ge_min word_ge_max)
  assume p: "p < cs" and n: "writes t' p = None"
  have b: "lo t' \<le> 8 * unat idx" "8 * unat idx + 8 \<le> hi t'" "lo t' \<le> lo t" "hi t \<le> hi t'"
    using e by (auto simp: t' lo_def hi_def word_ge_min word_ge_max div_le_mono)
  show "writes t p = None \<and> ct_data t' ! p = ct_data t ! p"
    using n p b e len by (auto simp: writes_def put_bytes_nth t' split: if_splits)
qed

lemma coh_update:
  assumes sz: "size_ok cs" and c: "coh cs m ds ts nx d" and i: "(k, i) \<in> set m" and idx: "unat idx < 2 ^ 60"
    and set: "set_entry_map idx v (ts i) = Inr t"
    and ds': "ds' = (if di_is_dirty (ct_dirty (ts i)) then ds else ds @ [i])" and ts': "ts' = ts(i := t)"
  shows "coh cs m ds' ts' nx d"
    and "at_cluster cs a \<Longrightarrow> p < cs \<Longrightarrow> view_byte m ts' d a p =
      (if a = k \<and> 8 * unat idx \<le> p \<and> p < 8 * unat idx + 8 then to_be 8 v ! (p - 8 * unat idx) else view_byte m ts d a p)"
proof -
  have ids: "ids_ok cs m ds ts nx" and l: "last_ok m ds ts" and f: "file_ok cs m ts d" and q: "pending_ok cs m ds ts d" using c by (auto simp: coh_def)
  note o = ids_okD [OF ids]
  have ti: "tab_ok cs (ts i)" "ct_addr (ts i) = k" "i < nx" using o(5) [OF i] by auto
  note w = set_entry_writes [OF sz ti(1) idx set]
  have mk: "map_of m k = Some i" using i o(1) by simp
  have other: "j \<noteq> i" if "(b, j) \<in> set m" "b \<noteq> k" for b j
    using that i o(5) ti(2) by fastforce
  have view: "view_byte m ts' d b n =
      (if b = k \<and> 8 * unat idx \<le> n \<and> n < 8 * unat idx + 8 then to_be 8 v ! (n - 8 * unat idx) else view_byte m ts d b n)"
    if "at_cluster cs b" "n < cs" for b n
  proof (cases "b = k")
    case True
    have "length (ct_data (ts i)) = cs" using ti(1) by (simp add: tab_ok_def)
    then show ?thesis using True mk w(4,5) that(2) by (simp add: view_byte_def ts' put_bytes_nth)
  next
    case False
    then show ?thesis using other [OF map_of_SomeD] by (auto simp: view_byte_def ts' split: option.split)
  qed
  then show "at_cluster cs a \<Longrightarrow> p < cs \<Longrightarrow> view_byte m ts' d a p =
      (if a = k \<and> 8 * unat idx \<le> p \<and> p < 8 * unat idx + 8 then to_be 8 v ! (p - 8 * unat idx) else view_byte m ts d a p)" by blast
  have addr: "ct_addr (ts' j) = ct_addr (ts j)" for j using w(2) by (simp add: ts')
  have ok: "tab_ok cs (ts' j)" if "tab_ok cs (ts j)" for j using that w(1) by (simp add: ts')
  have di: "di_is_dirty (ct_dirty (ts i)) \<longleftrightarrow> i \<in> set ds" by (rule last_okD(1) [OF l i])
  have "ids_ok cs m ds' ts' nx" using ids ok addr ti(1,3) di by (auto simp: ids_ok_def ds')
  moreover have last': "last_ok m ds' ts'"
    unfolding last_ok_def
  proof (intro ballI, clarify)
    fix b j assume j: "(b, j) \<in> set m"
    have "map_of m b = Some j" using j o(1) by simp
    then have ji: "j = i \<longleftrightarrow> b = k" using other [OF j] mk by auto
    have d: "di_is_dirty (ct_dirty (ts' j)) \<longleftrightarrow> j \<in> set ds'" using last_okD(1) [OF l j] w(3) di by (auto simp: ts' ds')
    have "ct_addr (ts' n) \<noteq> b" if x: "ds' = xs @ j # ys" "n \<in> set ys" for xs ys n
    proof (cases "i \<in> set ds")
      case True
      then show ?thesis using last_okD(2) [OF l j _ x(2)] x(1) addr di by (simp add: ds')
    next
      case False
      then have e: "ds @ [i] = xs @ j # ys" using x(1) di by (simp add: ds')
      show ?thesis
      proof (cases ys rule: rev_cases)
        case Nil
        then show ?thesis using x(2) by simp
      next
        case (snoc ys0 y)
        then have "ds = xs @ j # ys0" "y = i" using e by (simp_all flip: append_Cons append_assoc)
        moreover have "j \<noteq> i" using calculation(1) False by auto
        ultimately show ?thesis using last_okD(2) [OF l j, of xs ys0 n] x(2) snoc addr ti(2) ji by auto
      qed
    qed
    then show "(di_is_dirty (ct_dirty (ts' j)) \<longleftrightarrow> j \<in> set ds') \<and> (\<forall>xs ys. ds' = xs @ j # ys \<longrightarrow> (\<forall>n \<in> set ys. ct_addr (ts' n) \<noteq> b))"
      using d by blast
  qed
  moreover have "file_ok cs m ts' d"
    unfolding file_ok_def
  proof (clarify)
    fix b j p assume j: "(b, j) \<in> set m" and p: "p < cs" "writes (ts' j) p = None"
    show "d (b + of_nat p) = ct_data (ts' j) ! p"
    proof (cases "j = i")
      case True
      then show ?thesis using w(6) [OF p(1)] p file_okD [OF f j p(1)] by (simp add: ts')
    next
      case False
      then show ?thesis using p file_okD [OF f j p(1)] by (simp add: ts')
    qed
  qed
  moreover have "pending_ok cs m ds' ts' d"
    unfolding pending_ok_def
  proof (intro allI impI)
    fix b n u assume b: "at_cluster cs b" "n < cs" and u: "lastw ts' ds' b n = Some u"
    have old: "lastw ts' ds' b n = lastw ts ds b n" if "b \<noteq> k \<or> writes t n = None \<and> writes (ts i) n = None"
    proof -
      have "lastw ts' ds b n = lastw ts ds b n" using that addr ti(2) by (intro lastw_cong) (auto simp: ts')
      moreover have "lastw ts' [i] b n = None" using that w(2) ti(2) by (auto simp: ts')
      ultimately show ?thesis by (simp add: ds' lastw_append)
    qed
    show "u = view_byte m ts' d b n"
    proof (cases "b = k")
      case False
      then show ?thesis using old u pending_okD [OF q b] view [OF b] by auto
    next
      case True
      show ?thesis
      proof (cases "writes t n")
        case None
        then have "writes (ts i) n = None" "ct_data t ! n = ct_data (ts i) ! n" using w(6) [OF b(2)] by auto
        then show ?thesis using old u pending_okD [OF q b] None True mk by (auto simp: view_byte_def ts')
      next
        case (Some x)
        have "lastw ts' ds' k n = Some x" using Some i w(2) ti(2) by (intro lastw_cached [OF last' i]) (simp_all add: ts')
        then have "u = x" using u True by simp
        then show ?thesis using True mk Some by (auto simp: view_byte_def ts' writes_def split: if_splits)
      qed
    qed
  qed
  ultimately show "coh cs m ds' ts' nx d" by (simp add: coh_def)
qed

end
