(* ===== verification/Qcow2L2.thy ===== *)
theory Qcow2L2
  imports Qcow2Coherence
begin

text \<open>
  The operations on L2 tables keep the cache coherent, so that they behave like operations on one
  plain table of entries per cluster.
\<close>

section \<open>The least recently used table\<close>

lemma least_used_mem: "least_used ts n best xs = Some e \<Longrightarrow> best = Some e \<or> e \<in> set xs"
  by (induction ts n best xs rule: least_used.induct) (auto split: if_splits)

lemma check_refcount_core:
  "check_refcount (c, ts) = (c', ts') \<Longrightarrow>
     qc_map c' = qc_map c \<and> qc_dirty_tables c' = qc_dirty_tables c \<and> qc_max_size c' = qc_max_size c \<and> same_core ts ts'"
  by (auto simp: check_refcount_def reset_lru_def same_core_def split: if_splits)

lemma touch_core:
  "touch i (c, ts) = (c', ts') \<Longrightarrow>
     qc_map c' = qc_map c \<and> qc_dirty_tables c' = qc_dirty_tables c \<and> qc_max_size c' = qc_max_size c \<and> same_core ts ts'"
  by (auto simp: touch_def same_core_def)

lemma cache_get_core:
  assumes "cache_get key (c, ts) = (r, c', ts')"
  shows "r = map_of (qc_map c) key \<and> qc_map c' = qc_map c \<and> qc_dirty_tables c' = qc_dirty_tables c \<and> same_core ts ts'"
proof -
  obtain c1 ts1 where 1: "check_refcount (c, ts) = (c1, ts1)" by (cases "check_refcount (c, ts)")
  note k = check_refcount_core [OF 1]
  show ?thesis
  proof (cases "map_of (qc_map c1) key")
    case None
    then show ?thesis using assms 1 k by (simp add: cache_get_def)
  next
    case (Some i)
    then have "touch i (c1, ts1) = (c', ts')" "r = Some i" using assms 1 by (auto simp: cache_get_def)
    then show ?thesis using touch_core [of i c1 ts1] k Some same_core_trans by auto
  qed
qed

lemma lru_replace_core:
  assumes run: "lru_replace ord key i (c, ts) = (v, c', ts')" and ord: "\<And>m. set (ord m) = set m" and z: "0 \<notin> fst ` set (qc_map c)"
    and new: "key \<notin> fst ` set (qc_map c)"
  shows "qc_dirty_tables c' = qc_dirty_tables c \<and> same_core ts ts' \<and>
    (case v of None \<Rightarrow> qc_map c' = (key, i) # qc_map c
     | Some j \<Rightarrow> \<exists>k. (k, j) \<in> set (qc_map c) \<and> qc_map c' = (key, i) # hash_remove k (qc_map c))"
proof -
  obtain c1 ts1 where 1: "check_refcount (c, ts) = (c1, ts1)" by (cases "check_refcount (c, ts)")
  obtain c2 ts2 where 2: "touch i (c1, ts1) = (c2, ts2)" by (cases "touch i (c1, ts1)")
  have k: "qc_map c2 = qc_map c" "qc_dirty_tables c2 = qc_dirty_tables c" "same_core ts ts2"
    using check_refcount_core [OF 1] touch_core [OF 2] same_core_trans by auto
  have rem: "hash_remove key (hash_remove k (qc_map c)) = hash_remove k (qc_map c)" for k
    using new by (intro hash_remove_id) (auto simp: set_hash_remove)
  show ?thesis
  proof (cases "length (qc_map c2) < qc_max_size c2")
    case True
    then show ?thesis using run 1 2 k new by (auto simp: lru_replace_def hash_insert_def hash_remove_id)
  next
    case False
    note full = this
    show ?thesis
    proof (cases "least_used ts2 (- 1) None (ord (qc_map c2))")
      case None
      then show ?thesis using run 1 2 k full new z by (auto simp: lru_replace_def hash_insert_def hash_remove_id)
    next
      case (Some e)
      obtain kv jv where e: "e = (kv, jv)" by (cases e)
      then have "(kv, jv) \<in> set (qc_map c)" using least_used_mem [OF Some] ord k(1) by simp
      moreover have "v = Some jv" "c' = c2\<lparr>qc_map := (key, i) # hash_remove kv (qc_map c)\<rparr>" "ts' = ts2"
        using run 1 2 k(1) full Some rem [of kv] e by (auto simp: lru_replace_def hash_insert_def Let_def)
      ultimately show ?thesis using k by auto
    qed
  qed
qed

section \<open>States\<close>

definition l2_coh :: "nat \<Rightarrow> l2_state \<Rightarrow> bool" where
  "l2_coh cs s \<longleftrightarrow> coh cs (qc_map (ls_cache s)) (qc_dirty_tables (ls_cache s)) (ls_tabs s) (ls_next s) (ls_disk s)"

definition l2_byte :: "l2_state \<Rightarrow> u64 \<Rightarrow> nat \<Rightarrow> u8" where
  "l2_byte s = view_byte (qc_map (ls_cache s)) (ls_tabs s) (ls_disk s)"

text \<open>What an operation on the cache leaves alone: the L1 table and the geometry.\<close>

definition same_l1 :: "l2_state \<Rightarrow> l2_state \<Rightarrow> bool" where
  "same_l1 s s' \<longleftrightarrow> (\<exists>c. ls_table s' = (ls_table s)\<lparr>qt_cache := c\<rparr>)"

definition same_view :: "nat \<Rightarrow> l2_state \<Rightarrow> l2_state \<Rightarrow> bool" where
  "same_view cs s s' \<longleftrightarrow> (\<forall>a p. at_cluster cs a \<longrightarrow> p < cs \<longrightarrow> l2_byte s' a p = l2_byte s a p)"

lemma set_cache_simps [simp]:
  "ls_cache (set_cache (c, ts) s) = c" "ls_tabs (set_cache (c, ts) s) = ts" "ls_next (set_cache (c, ts) s) = ls_next s"
  "ls_disk (set_cache (c, ts) s) = ls_disk s" "ls_table (set_cache (c, ts) s) = (ls_table s)\<lparr>qt_cache := c\<rparr>"
  by (simp_all add: set_cache_def ls_cache_def)

lemma ls_cache_disk [simp]: "ls_cache (s\<lparr>ls_disk := d\<rparr>) = ls_cache s" "ls_cache (s\<lparr>ls_tabs := ts, ls_next := n\<rparr>) = ls_cache s"
  by (simp_all add: ls_cache_def)

lemma get_entry_core: "same_core ts ts' \<Longrightarrow> get_entry_map idx (ts' i) = get_entry_map idx (ts i)"
  by (simp add: same_core_def get_entry_map_def entry_slice_def Let_def)

text \<open>Looking a cached table up.\<close>

lemma cache_get_coh:
  assumes "cache_get key (ls_cache s, ls_tabs s) = (r, ct)" and "l2_coh cs s"
  shows "r = map_of (qc_map (ls_cache s)) key" "l2_coh cs (set_cache ct s)" "same_view cs s (set_cache ct s)"
    "same_l1 s (set_cache ct s)" "same_core (ls_tabs s) (ls_tabs (set_cache ct s))" "qc_map (ls_cache (set_cache ct s)) = qc_map (ls_cache s)"
    "ls_disk (set_cache ct s) = ls_disk s" "ls_next (set_cache ct s) = ls_next s"
proof -
  obtain c ts where ct: "ct = (c, ts)" by (cases ct)
  note g = cache_get_core [OF assms(1) [unfolded ct]]
  show "r = map_of (qc_map (ls_cache s)) key" "same_core (ls_tabs s) (ls_tabs (set_cache ct s))"
    "qc_map (ls_cache (set_cache ct s)) = qc_map (ls_cache s)" "ls_disk (set_cache ct s) = ls_disk s" "ls_next (set_cache ct s) = ls_next s"
    using g ct by simp_all
  show "l2_coh cs (set_cache ct s)" "same_view cs s (set_cache ct s)"
    using assms(2) g coh_core [of "ls_tabs s" ts] by (simp_all add: l2_coh_def same_view_def l2_byte_def ct)
  show "same_l1 s (set_cache ct s)" by (auto simp: same_l1_def ct)
qed

lemma write_table_core: "same_core ts ts' \<Longrightarrow> write_table io (ts' i) d = write_table io (ts i) d"
  by (simp add: same_core_def write_table_def)

lemma ls_disk_same: "ls_disk s = d \<Longrightarrow> s\<lparr>ls_disk := d\<rparr> = s"
  by (cases s) simp

text \<open>Caching a table that was just loaded.\<close>

lemma cache_l2_new:
  assumes sz: "size_ok cs" and c: "l2_coh cs s" and ord: "\<And>m. set (ord m) = set m"
    and k: "map_of (qc_map (ls_cache s)) k = None" "k \<noteq> 0" "ct_addr t = k" "tab_ok cs t" "ct_dirty t = clean_info"
    and data: "\<And>p. p < cs \<Longrightarrow> ls_disk s (k + of_nat p) = ct_data t ! p"
    and run: "alloc_table t s = (i, s2)" "cache_l2_table io ord i s2 = (Inr (), s3)"
  shows "l2_coh cs s3" "same_view cs s s3" "same_l1 s s3" "map_of (qc_map (ls_cache s3)) k = Some i"
proof -
  let ?m = "qc_map (ls_cache s)" and ?ds = "qc_dirty_tables (ls_cache s)" and ?ts = "ls_tabs s" and ?d = "ls_disk s"
  have i: "i = ls_next s" "s2 = s\<lparr>ls_tabs := ?ts(i := t), ls_next := Suc i\<rparr>" using run(1) by (auto simp: alloc_table_def)
  have coh: "coh cs ?m ?ds ?ts i ?d" using c i(1) by (simp add: l2_coh_def)
  have ids: "ids_ok cs ?m ?ds ?ts i" using coh by (simp add: coh_def)
  have new: "k \<notin> fst ` set ?m" using k(1) by (simp add: map_of_eq_None_iff)
  have s2: "ls_cache s2 = ls_cache s" "ls_tabs s2 i = t" "ls_tabs s2 = ?ts(i := t)" "ls_disk s2 = ?d" "ls_next s2 = Suc i" "ls_table s2 = ls_table s"
    using i(2) by (simp_all add: ls_cache_def)
  have nc: "\<not> contains_keys k (ls_cache s)" using k(1) by (simp add: contains_keys_def)
  obtain v c' ts' where lru: "lru_replace ord k i (ls_cache s, ?ts(i := t)) = (v, c', ts')" by (metis prod_cases3)
  note r = lru_replace_core [OF lru ord ids_okD(4) [OF ids] new]
  have core: "same_core (?ts(i := t)) ts'" and ds': "qc_dirty_tables c' = ?ds" using r by auto
  let ?s1 = "set_cache (c', ts') s2"
  show "l2_coh cs s3" "same_view cs s s3" "same_l1 s s3" "map_of (qc_map (ls_cache s3)) k = Some i"
  proof -
    obtain d' m0 where s3: "s3 = ?s1\<lparr>ls_disk := d'\<rparr>" and m0: "qc_map c' = (k, i) # m0"
      and ev: "coh cs m0 ?ds ?ts i d'" "\<And>a p. at_cluster cs a \<Longrightarrow> p < cs \<Longrightarrow> view_byte m0 ?ts d' a p = view_byte ?m ?ts ?d a p"
      and none: "map_of m0 k = None"
    proof (cases v)
      case None
      then have "s3 = ?s1" using run(2) lru s2 k(3) nc by (simp add: cache_l2_table_def Let_def)
      then have "s3 = ?s1\<lparr>ls_disk := ?d\<rparr>" using s2(4) by (simp add: ls_disk_same)
      then show thesis using that [of ?d ?m] r None coh k(1) by simp
    next
      case (Some j)
      then obtain kv where kv: "(kv, j) \<in> set ?m" "qc_map c' = (k, i) # hash_remove kv ?m" using r by auto
      have ji: "j \<noteq> i" using ids_okD(5) [OF ids kv(1)] by simp
      have cj: "ct_dirty (ts' j) = ct_dirty (?ts j)" using core ji by (simp add: same_core_def)
      have wj: "write_table io (ts' j) ?d = write_table io (?ts j) ?d" using write_table_core [OF core] ji by simp
      obtain d' where d': "s3 = ?s1\<lparr>ls_disk := d'\<rparr>"
        "if di_is_dirty (ct_dirty (?ts j)) then write_table io (?ts j) ?d = (Inr (), d') else d' = ?d"
      proof (cases "di_is_dirty (ct_dirty (?ts j))")
        case True
        obtain q d' where w: "write_table io (?ts j) ?d = (q, d')" by (cases "write_table io (?ts j) ?d")
        have "q = Inr ()" "s3 = ?s1\<lparr>ls_disk := d'\<rparr>" using run(2) lru s2 k(3) nc Some True cj wj w by (simp_all add: cache_l2_table_def Let_def)
        then show thesis using that [of d'] True w by simp
      next
        case False
        have "s3 = ?s1" using run(2) lru s2 k(3) nc Some False cj by (simp add: cache_l2_table_def Let_def)
        then show thesis using that [of ?d] False s2(4) by (simp add: ls_disk_same)
      qed
      note e = coh_evict [OF sz coh kv(1) d'(2)]
      show thesis using that [OF d'(1) kv(2) e] k(1) by (simp add: map_of_hash_remove)
    qed
    have kc: "at_cluster cs k" using k(3,4) by (auto simp: tab_ok_def)
    have d'k: "d' (k + of_nat p) = ct_data t ! p" if "p < cs" for p
      using ev(2) [OF kc that] data [OF that] none k(1) by (simp add: view_byte_def)
    note n = coh_insert [OF ev(1) none k(2-5) d'k]
    show "l2_coh cs s3" using n(1) coh_core(1) [OF core] s2(5) by (simp add: l2_coh_def s3 m0 ds')
    show "same_view cs s s3" using n(2) ev(2) coh_core(2) [OF core] by (simp add: same_view_def l2_byte_def s3 m0)
    show "same_l1 s s3" by (auto simp: same_l1_def s3 s2)
    show "map_of (qc_map (ls_cache s3)) k = Some i" by (simp add: s3 m0)
  qed
qed

section \<open>Entries\<close>

text \<open>The geometry of an image whose header passed the check.\<close>

definition geometry :: "nat \<Rightarrow> qcow_header \<Rightarrow> qcow2_table \<Rightarrow> bool" where
  "geometry cs h tb \<longleftrightarrow> (\<exists>n. 9 \<le> n \<and> n \<le> 21 \<and> cs = 2 ^ n \<and> cluster_size h = 2 ^ n \<and> qt_l2_size tb = 2 ^ (n - 3))"

definition entry_at :: "(u64 \<Rightarrow> nat \<Rightarrow> u8) \<Rightarrow> u64 \<Rightarrow> nat \<Rightarrow> u64" where
  "entry_at f a n = from_be (map (f a) [8 * n..<8 * n + 8])"

lemma geometry_size:
  assumes "geometry cs h tb"
  shows "size_ok cs" and "unat (cluster_size h) = cs" and "is_aligned (cluster_size h) a \<longleftrightarrow> at_cluster cs a"
    and "unat (get_l2_table_index tb g) < cs div 8"
proof -
  obtain n where n: "9 \<le> n" "n \<le> 21" "cs = 2 ^ n" "cluster_size h = 2 ^ n" "qt_l2_size tb = 2 ^ (n - 3)"
    using assms by (auto simp: geometry_def)
  have p: "(2 :: nat) ^ n \<le> 2 ^ 21" using n(2) by (intro power_increasing) simp_all
  moreover have "(512 :: nat) dvd 2 ^ n" using le_imp_power_dvd [OF n(1), of "2 :: nat"] by simp
  moreover have "(2 :: nat) ^ n dvd 2 ^ 64" using n(2) by (intro le_imp_power_dvd) simp
  ultimately show "size_ok cs" by (simp add: size_ok_def n(3))
  have "unat (of_nat (2 ^ n) :: u64) = 2 ^ n" using p by (simp add: unat_of_nat take_bit_nat_eq_self del: of_nat_power)
  then show "unat (cluster_size h) = cs" using n by simp
  have "(2 ^ n - 1 :: u64) = mask n" by (simp add: mask_eq_exp_minus_1)
  then show "is_aligned (cluster_size h) a \<longleftrightarrow> at_cluster cs a"
    using n(3,4) and_mask_dvd_nat [of n a] by (simp add: is_aligned_def at_cluster_def)
  have "x AND (2 ^ (n - 3) - 1) = take_bit (n - 3) x" for x :: u64 by (simp add: take_bit_eq_mask mask_eq_exp_minus_1)
  then have "unat (get_l2_table_index tb g) < 2 ^ (n - 3)"
    by (simp add: get_l2_table_index_def n(5) unsigned_take_bit_eq)
  moreover have "cs div 8 = 2 ^ (n - 3)" using n(1,3) by (simp add: power_diff)
  ultimately show "unat (get_l2_table_index tb g) < cs div 8" by simp
qed

lemma get_entry_tab:
  assumes "size_ok cs" and "tab_ok cs t" and "unat idx < cs div 8" and "\<And>p. p < cs \<Longrightarrow> f a p = ct_data t ! p"
  shows "get_entry_map idx t = Inr (entry_at f a (unat idx))"
proof -
  have t: "length (ct_data t) = cs" "ct_entry_size t = 8" using assms(2) by (auto simp: tab_ok_def ENTRY_SIZE_U64_def)
  have b: "8 * unat idx + 8 \<le> cs" "cs < 2 ^ 32" using assms(1,3) by (auto simp: size_ok_def)
  have s: "unat (idx * 8) = 8 * unat idx" using b unat_mult_lem [of idx "8 :: u64"] by simp
  have e: "unat (idx * 8 + 8) = 8 * unat idx + 8" using b s by (subst unat_add_eq) simp_all
  have "take 8 (drop (8 * unat idx) (ct_data t)) = map (f a) [8 * unat idx..<8 * unat idx + 8]"
    using b t(1) assms(4) by (intro nth_equalityI) simp_all
  then show ?thesis using t b s e
    by (simp add: get_entry_map_def entry_slice_def Let_def ENTRY_SIZE_U64_def entry_at_def word_less_nat_alt)
qed

lemma get_entry_cached:
  assumes "size_ok cs" and "l2_coh cs s" and "map_of (qc_map (ls_cache s)) a = Some i" and "unat idx < cs div 8"
  shows "get_entry_map idx (ls_tabs s i) = Inr (entry_at (l2_byte s) a (unat idx))"
proof -
  have "(a, i) \<in> set (qc_map (ls_cache s))" using assms(3) by (rule map_of_SomeD)
  then have "tab_ok cs (ls_tabs s i)" using assms(2) ids_okD(5) by (auto simp: l2_coh_def coh_def)
  then show ?thesis using assms by (intro get_entry_tab) (simp_all add: l2_byte_def view_byte_def)
qed

lemma load_l2:
  assumes "geometry cs h tb" and "and_then (load_cluster io h a d) (\<lambda>l2_cluster. new_cache_table a l2_cluster ENTRY_SIZE_U64) = Inr t"
  shows "at_cluster cs a" "ct_addr t = a" "tab_ok cs t" "ct_dirty t = clean_info" "p < cs \<Longrightarrow> d (a + of_nat p) = ct_data t ! p"
proof -
  note g = geometry_size [OF assms(1)]
  have r: "is_aligned (cluster_size h) a" and t: "t = \<lparr>ct_dirty = clean_info, ct_lru_count = 0, ct_addr = a, ct_entry_size = ENTRY_SIZE_U64, ct_data = load d a cs\<rparr>"
    using assms(2) g(2) by (auto simp: and_then_Inr load_cluster_def read_buffer_def new_cache_table_def ENTRY_SIZE_U64_def split: if_splits option.splits)
  show a: "at_cluster cs a" using r g(3) by simp
  show "ct_addr t = a" "ct_dirty t = clean_info" "p < cs \<Longrightarrow> d (a + of_nat p) = ct_data t ! p" by (simp_all add: t)
  show "tab_ok cs t" using a by (simp add: t tab_ok_def clean_info_def)
qed

lemma same_view_refl [simp]: "same_view cs s s"
  by (simp add: same_view_def)

lemma same_view_trans: "same_view cs a b \<Longrightarrow> same_view cs b c \<Longrightarrow> same_view cs a c"
  by (simp add: same_view_def)

lemma same_l1_refl [simp]: "same_l1 s s"
  unfolding same_l1_def by (rule exI [of _ "qt_cache (ls_table s)"]) simp

lemma same_l1_trans: "same_l1 a b \<Longrightarrow> same_l1 b c \<Longrightarrow> same_l1 a c"
  by (auto simp: same_l1_def)

lemma same_l1_fields:
  assumes "same_l1 s s'"
  shows "get_l1_table_entry (ls_table s') g = get_l1_table_entry (ls_table s) g"
    "get_l2_table_index (ls_table s') g = get_l2_table_index (ls_table s) g" "geometry cs h (ls_table s') = geometry cs h (ls_table s)"
  using assms by (auto simp: same_l1_def get_l1_table_entry_def get_l1_table_index_def get_l2_table_index_def geometry_def Let_def)

lemma cached_l2_table_coh:
  assumes g: "geometry cs h (ls_table s)" and c: "l2_coh cs s" and ord: "\<And>m. set (ord m) = set m" and a: "a \<noteq> 0"
    and run: "cached_l2_table io ord h a s = (Inr i, s')"
  shows "l2_coh cs s'" "same_view cs s s'" "same_l1 s s'" "map_of (qc_map (ls_cache s')) a = Some i"
proof -
  obtain r ct where get: "cache_get a (ls_cache s, ls_tabs s) = (r, ct)" by (cases "cache_get a (ls_cache s, ls_tabs s)")
  note k = cache_get_coh [OF get c]
  let ?s1 = "set_cache ct s"
  have "l2_coh cs s' \<and> same_view cs s s' \<and> same_l1 s s' \<and> map_of (qc_map (ls_cache s')) a = Some i"
  proof (cases r)
    case (Some j)
    then have "i = j" "s' = ?s1" using run get by (simp_all add: cached_l2_table_def)
    then show ?thesis using k Some by simp
  next
    case None
    then obtain t s2 where t: "and_then (load_cluster io h a (ls_disk ?s1)) (\<lambda>l2. new_cache_table a l2 ENTRY_SIZE_U64) = Inr t"
      "alloc_table t ?s1 = (i, s2)" "cache_l2_table io ord i s2 = (Inr (), s')"
      using run get by (auto simp: cached_l2_table_def Let_def split: sum.splits prod.splits)
    note l = load_l2 [OF g t(1)]
    have n: "map_of (qc_map (ls_cache ?s1)) a = None" using k(1,6) None by simp
    note w = cache_l2_new [OF geometry_size(1) [OF g] k(2) ord n a l(2,3,4) l(5) t(2,3)]
    show ?thesis using w k same_view_trans [OF k(3)] same_l1_trans [OF k(4)] by simp
  qed
  then show "l2_coh cs s'" "same_view cs s s'" "same_l1 s s'" "map_of (qc_map (ls_cache s')) a = Some i" by simp_all
qed

lemma entry_at_cong: "(\<And>p. p < cs \<Longrightarrow> f a p = g a p) \<Longrightarrow> n < cs div 8 \<Longrightarrow> entry_at f a n = entry_at g a n"
  unfolding entry_at_def by (rule arg_cong [where f = from_be]) (auto intro!: map_cong)

lemma same_view_entry: "same_view cs s s' \<Longrightarrow> at_cluster cs a \<Longrightarrow> n < cs div 8 \<Longrightarrow> entry_at (l2_byte s') a n = entry_at (l2_byte s) a n"
  by (rule entry_at_cong) (auto simp: same_view_def)

lemma cached_cluster: "l2_coh cs s \<Longrightarrow> map_of (qc_map (ls_cache s)) a = Some i \<Longrightarrow> at_cluster cs a"
  using ids_okD(5) map_of_SomeD by (fastforce simp: l2_coh_def coh_def tab_ok_def)

text \<open>Reading an entry.\<close>

lemma get_l2_entry_coh:
  assumes g: "geometry cs h (ls_table s)" and c: "l2_coh cs s" and ord: "\<And>m. set (ord m) = set m"
    and run: "get_l2_entry io ord h off s = (Inr v, s')" and l1: "get_l1_table_entry (ls_table s) off = Inr l1_entry"
  shows "l2_coh cs s'" "same_view cs s s'" "same_l1 s s'" "at_cluster cs (l1_entry AND L1_TABLE_OFFSET_MASK)"
    "v = entry_at (l2_byte s) (l1_entry AND L1_TABLE_OFFSET_MASK) (unat (get_l2_table_index (ls_table s) off))"
proof -
  let ?a = "l1_entry AND L1_TABLE_OFFSET_MASK" and ?x = "get_l2_table_index (ls_table s) off"
  note sz = geometry_size [OF g]
  have nz: "?a \<noteq> 0" using run l1 by (auto simp: get_l2_entry_def get_l2_table_cache_entry_def)
  obtain r ct where get: "cache_get ?a (ls_cache s, ls_tabs s) = (r, ct)" by (cases "cache_get ?a (ls_cache s, ls_tabs s)")
  note k = cache_get_coh [OF get c]
  let ?s1 = "set_cache ct s"
  have cached: "get_l2_table_cache_entry off s = (Inr r, ?s1)" using l1 nz get by (simp add: get_l2_table_cache_entry_def)
  have "l2_coh cs s' \<and> same_view cs s s' \<and> same_l1 s s' \<and> at_cluster cs ?a \<and> v = entry_at (l2_byte s) ?a (unat ?x)"
  proof (cases r)
    case (Some i)
    have m: "map_of (qc_map (ls_cache ?s1)) ?a = Some i" using k(1,6) Some by simp
    note e = get_entry_cached [OF sz(1) k(2) m sz(4)]
    have "s' = ?s1" "Inr v = get_entry_map ?x (ls_tabs ?s1 i)" using run cached Some by (auto simp: get_l2_entry_def Let_def)
    then show ?thesis using k e same_view_entry [OF k(3) cached_cluster [OF k(2) m] sz(4)] cached_cluster [OF k(2) m] by simp
  next
    case None
    have l1': "get_l1_table_entry (ls_table ?s1) off = Inr l1_entry" using l1 same_l1_fields(1) [OF k(4)] by simp
    obtain t i s2 where t: "and_then (load_cluster io h ?a (ls_disk ?s1)) (\<lambda>l2. new_cache_table ?a l2 ENTRY_SIZE_U64) = Inr t"
      "get_entry_map ?x t = Inr v" "alloc_table t ?s1 = (i, s2)" "cache_l2_table io ord i s2 = (Inr (), s')"
      using run cached None l1' nz by (auto simp: get_l2_entry_def Let_def split: sum.splits prod.splits)
    note l = load_l2 [OF g t(1)]
    have n: "map_of (qc_map (ls_cache ?s1)) ?a = None" using k(1,6) None by simp
    note w = cache_l2_new [OF sz(1) k(2) ord n nz l(2,3,4) l(5) t(3,4)]
    have "same_view cs s s'" by (rule same_view_trans [OF k(3) w(2)])
    moreover have "get_entry_map ?x t = Inr (entry_at (l2_byte ?s1) ?a (unat ?x))"
      using n l(5) by (intro get_entry_tab [OF sz(1) l(3) sz(4)]) (simp add: l2_byte_def view_byte_def)
    ultimately show ?thesis using t(2) w same_l1_trans [OF k(4)] same_view_entry [OF k(3) l(1) sz(4)] l(1) by simp
  qed
  then show "l2_coh cs s'" "same_view cs s s'" "same_l1 s s'" "at_cluster cs ?a" "v = entry_at (l2_byte s) ?a (unat ?x)" by simp_all
qed

text \<open>Changing an entry.\<close>

lemma entry_at_byte:
  assumes "\<And>p. p < cs \<Longrightarrow> f' a p = (if a = k \<and> 8 * n \<le> p \<and> p < 8 * n + 8 then to_be 8 v ! (p - 8 * n) else f a p)" and "m < cs div 8"
  shows "entry_at f' a m = (if a = k \<and> m = n then v else entry_at f a m)"
proof (cases "a = k \<and> m = n")
  case True
  then have "map (f' a) [8 * m..<8 * m + 8] = to_be 8 v" using assms by (intro nth_equalityI) simp_all
  then show ?thesis using True by (simp add: entry_at_def from_be_to_be)
next
  case False
  then have "map (f' a) [8 * m..<8 * m + 8] = map (f a) [8 * m..<8 * m + 8]" using assms by (intro map_cong) auto
  then have "entry_at f' a m = entry_at f a m" unfolding entry_at_def by (rule arg_cong)
  then show ?thesis using False by auto
qed

lemma update_l2_table_coh:
  assumes sz: "size_ok cs" and c: "l2_coh cs s" and m: "map_of (qc_map (ls_cache s)) k = Some i" and idx: "unat idx < cs div 8"
    and run: "update_l2_table i idx v s = (Inr (), s')"
  shows "l2_coh cs s'" "same_l1 s s'"
    "at_cluster cs a \<Longrightarrow> n < cs div 8 \<Longrightarrow> entry_at (l2_byte s') a n = (if a = k \<and> n = unat idx then v else entry_at (l2_byte s) a n)"
proof -
  obtain t where t: "set_entry_map idx v (ls_tabs s i) = Inr t" using run by (auto simp: update_l2_table_def Let_def split: sum.splits)
  define c where "c = (if di_is_dirty (ct_dirty (ls_tabs s i)) then ls_cache s else add_dirty_table i (ls_cache s))"
  have s': "s' = set_cache (c, (ls_tabs s)(i := t)) s" using run t by (simp add: update_l2_table_def Let_def c_def)
  have "unat idx < cs" using idx div_le_dividend [of cs 8] by (rule less_le_trans)
  then have big: "unat idx < 2 ^ 60" using sz by (simp add: size_ok_def)
  note u = coh_update [OF sz assms(2) [unfolded l2_coh_def] map_of_SomeD [OF m] big t refl refl]
  have mp: "qc_map c = qc_map (ls_cache s)"
    "qc_dirty_tables c = (if di_is_dirty (ct_dirty (ls_tabs s i)) then qc_dirty_tables (ls_cache s) else qc_dirty_tables (ls_cache s) @ [i])"
    by (simp_all add: c_def add_dirty_table_def)
  show "l2_coh cs s'" unfolding l2_coh_def s' set_cache_simps mp by (rule u(1))
  show "same_l1 s s'" by (auto simp: same_l1_def s')
  assume "at_cluster cs a" "n < cs div 8"
  then show "entry_at (l2_byte s') a n = (if a = k \<and> n = unat idx then v else entry_at (l2_byte s) a n)"
    using u(2) [of a] by (intro entry_at_byte) (simp_all only: l2_byte_def s' set_cache_simps mp)
qed

text \<open>Flushing.\<close>

lemma table_flush_coh:
  assumes sz: "size_ok cs" and c: "l2_coh cs s" and run: "table_flush io s = (Inr (), s')"
  shows "l2_coh cs s'" "same_view cs s s'" "same_l1 s s'" "at_cluster cs a \<Longrightarrow> p < cs \<Longrightarrow> ls_disk s' (a + of_nat p) = l2_byte s a p"
proof -
  obtain ts d where f: "flush_tables io (qc_dirty_tables (ls_cache s)) (Inr ()) (ls_tabs s) (ls_disk s) = (Inr (), ts, d)"
    and s': "s' = (set_cache ((ls_cache s)\<lparr>qc_dirty_tables := []\<rparr>, ts) s)\<lparr>ls_disk := d\<rparr>"
    using run by (auto simp: table_flush_def cache_flush_def split: prod.splits)
  note w = coh_flush [OF sz c [unfolded l2_coh_def] f]
  show "l2_coh cs s'" "same_view cs s s'" using w(1,2) by (simp_all add: s' l2_coh_def same_view_def l2_byte_def)
  show "same_l1 s s'" by (auto simp: same_l1_def s')
  show "at_cluster cs a \<Longrightarrow> p < cs \<Longrightarrow> ls_disk s' (a + of_nat p) = l2_byte s a p" using w(3) by (simp add: s' l2_byte_def)
qed

section \<open>Runs\<close>

text \<open>
  The operations the driver performs on entries: reading one, replacing one in an allocated table,
  and flushing the tables.
\<close>

datatype l2_op = ReadEntry u64 | WriteEntry u64 u64 | FlushTables

definition write_l2_entry :: "aio_fail \<Rightarrow> hash_order \<Rightarrow> qcow_header \<Rightarrow> u64 \<Rightarrow> u64 \<Rightarrow> l2_state \<Rightarrow> (qcow2_error + unit) \<times> l2_state" where
  "write_l2_entry io ord h off v s =
     (case get_l1_table_entry (ls_table s) off of
        Inl e \<Rightarrow> (Inl e, s)
      | Inr l1_entry \<Rightarrow>
          (let l2_address = l1_entry AND L1_TABLE_OFFSET_MASK in
           if l2_address = 0 then (Inl EL2Unallocated, s)
           else case cached_l2_table io ord h l2_address s of
                  (Inl e, s1) \<Rightarrow> (Inl e, s1)
                | (Inr i, s1) \<Rightarrow> update_l2_table i (get_l2_table_index (ls_table s1) off) v s1))"

fun l2_step :: "aio_fail \<Rightarrow> hash_order \<Rightarrow> qcow_header \<Rightarrow> l2_op \<Rightarrow> l2_state \<Rightarrow> (qcow2_error + u64 option) \<times> l2_state" where
  "l2_step io ord h (ReadEntry off) s = (case get_l2_entry io ord h off s of (r, s') \<Rightarrow> (and_then r (\<lambda>v. Inr (Some v)), s'))"
| "l2_step io ord h (WriteEntry off v) s = (case write_l2_entry io ord h off v s of (r, s') \<Rightarrow> (and_then r (\<lambda>_. Inr None), s'))"
| "l2_step io ord h FlushTables s = (case table_flush io s of (r, s') \<Rightarrow> (and_then r (\<lambda>_. Inr None), s'))"

fun l2_run :: "aio_fail \<Rightarrow> hash_order \<Rightarrow> qcow_header \<Rightarrow> l2_op list \<Rightarrow> l2_state \<Rightarrow> (qcow2_error + u64 option list) \<times> l2_state" where
  "l2_run io ord h [] s = (Inr [], s)"
| "l2_run io ord h (p # ps) s =
     (case l2_step io ord h p s of
        (Inl e, s1) \<Rightarrow> (Inl e, s1)
      | (Inr v, s1) \<Rightarrow> (case l2_run io ord h ps s1 of (r, s2) \<Rightarrow> (and_then r (\<lambda>vs. Inr (v # vs)), s2)))"

text \<open>The same operations on plain tables: an entry for each table address and index, and no cache.\<close>

definition slot_of :: "qcow2_table \<Rightarrow> u64 \<Rightarrow> u64 \<times> nat" where
  "slot_of tb off = (case get_l1_table_entry tb off of Inr e \<Rightarrow> e AND L1_TABLE_OFFSET_MASK | Inl _ \<Rightarrow> 0, unat (get_l2_table_index tb off))"

fun plain_step :: "qcow2_table \<Rightarrow> l2_op \<Rightarrow> (u64 \<times> nat \<Rightarrow> u64) \<Rightarrow> u64 option \<times> (u64 \<times> nat \<Rightarrow> u64)" where
  "plain_step tb (ReadEntry off) A = (Some (A (slot_of tb off)), A)"
| "plain_step tb (WriteEntry off v) A = (None, A(slot_of tb off := v))"
| "plain_step tb FlushTables A = (None, A)"

fun plain_run :: "qcow2_table \<Rightarrow> l2_op list \<Rightarrow> (u64 \<times> nat \<Rightarrow> u64) \<Rightarrow> u64 option list \<times> (u64 \<times> nat \<Rightarrow> u64)" where
  "plain_run tb [] A = ([], A)"
| "plain_run tb (p # ps) A = (case plain_step tb p A of (v, A1) \<Rightarrow> (case plain_run tb ps A1 of (vs, A2) \<Rightarrow> (v # vs, A2)))"

definition shows_tables :: "nat \<Rightarrow> (u64 \<Rightarrow> nat \<Rightarrow> u8) \<Rightarrow> (u64 \<times> nat \<Rightarrow> u64) \<Rightarrow> bool" where
  "shows_tables cs f A \<longleftrightarrow> (\<forall>a n. at_cluster cs a \<longrightarrow> n < cs div 8 \<longrightarrow> entry_at f a n = A (a, n))"

lemma write_l2_entry_coh:
  assumes g: "geometry cs h (ls_table s)" and c: "l2_coh cs s" and ord: "\<And>m. set (ord m) = set m"
    and run: "write_l2_entry io ord h off v s = (Inr (), s')" and A: "shows_tables cs (l2_byte s) A"
  shows "l2_coh cs s' \<and> same_l1 s s' \<and> shows_tables cs (l2_byte s') (A(slot_of (ls_table s) off := v))"
proof -
  obtain e where e: "get_l1_table_entry (ls_table s) off = Inr e" using run by (auto simp: write_l2_entry_def split: sum.splits)
  let ?a = "e AND L1_TABLE_OFFSET_MASK"
  have nz: "?a \<noteq> 0" using run e by (auto simp: write_l2_entry_def)
  obtain i s1 where t: "cached_l2_table io ord h ?a s = (Inr i, s1)" and u: "update_l2_table i (get_l2_table_index (ls_table s1) off) v s1 = (Inr (), s')"
    using run e nz by (auto simp: write_l2_entry_def Let_def split: prod.splits sum.splits)
  note k = cached_l2_table_coh [OF g c ord nz t]
  note f = same_l1_fields [OF k(3)]
  have sz: "size_ok cs" "unat (get_l2_table_index (ls_table s1) off) < cs div 8" using geometry_size(1,4) [OF g] f(2) by simp_all
  note w = update_l2_table_coh [OF sz(1) k(1,4) sz(2) u]
  have "shows_tables cs (l2_byte s') (A(slot_of (ls_table s) off := v))"
    unfolding shows_tables_def
  proof (intro allI impI)
    fix a n assume an: "at_cluster cs a" "n < cs div 8"
    have "A (a, n) = entry_at (l2_byte s) a n" using A an unfolding shows_tables_def by simp
    then have "A (a, n) = entry_at (l2_byte s1) a n" using same_view_entry [OF k(2) an] by (simp only:)
    then show "entry_at (l2_byte s') a n = (A(slot_of (ls_table s) off := v)) (a, n)"
      using w(3) [OF an] f(2) e by (simp add: slot_of_def)
  qed
  then show ?thesis using w(1) same_l1_trans [OF k(3) w(2)] by blast
qed

lemma same_l1_slot:
  assumes l: "same_l1 s s'"
  shows "slot_of (ls_table s') = slot_of (ls_table s)"
  by (rule ext) (simp only: slot_of_def same_l1_fields(1,2) [OF l])

lemma plain_step_cong: "slot_of tb' = slot_of tb \<Longrightarrow> plain_step tb' p A = plain_step tb p A"
  by (cases p) simp_all

lemma plain_run_cong:
  assumes l: "slot_of tb' = slot_of tb"
  shows "plain_run tb' ps A = plain_run tb ps A"
  by (induction ps arbitrary: A) (simp_all add: plain_step_cong [OF l])

lemma same_view_shows: "same_view cs s s' \<Longrightarrow> shows_tables cs (l2_byte s) A \<Longrightarrow> shows_tables cs (l2_byte s') A"
  unfolding shows_tables_def by (metis same_view_entry)

lemma l2_step_refines:
  assumes g: "geometry cs h (ls_table s)" and c: "l2_coh cs s" and ord: "\<And>m. set (ord m) = set m"
    and A: "shows_tables cs (l2_byte s) A" and run: "l2_step io ord h p s = (Inr v, s')"
  shows "l2_coh cs s' \<and> same_l1 s s' \<and> v = fst (plain_step (ls_table s) p A) \<and> shows_tables cs (l2_byte s') (snd (plain_step (ls_table s) p A))"
proof (cases p)
  case (ReadEntry off)
  then obtain x where x: "get_l2_entry io ord h off s = (Inr x, s')" "v = Some x" using run by (auto simp: and_then_Inr split: prod.splits)
  obtain e where e: "get_l1_table_entry (ls_table s) off = Inr e"
    using x(1) by (auto simp: get_l2_entry_def get_l2_table_cache_entry_def split: sum.splits)
  note k = get_l2_entry_coh [OF g c ord x(1) e]
  have "x = A (slot_of (ls_table s) off)" using A k(4,5) geometry_size(4) [OF g] e by (simp add: shows_tables_def slot_of_def)
  then show ?thesis using ReadEntry x(2) k(1,3) same_view_shows [OF k(2) A] by simp
next
  case (WriteEntry off w)
  then have "write_l2_entry io ord h off w s = (Inr (), s')" "v = None" using run by (auto simp: and_then_Inr split: prod.splits)
  then show ?thesis using WriteEntry write_l2_entry_coh [OF g c ord _ A] by simp
next
  case FlushTables
  then have f: "table_flush io s = (Inr (), s')" "v = None" using run by (auto simp: and_then_Inr split: prod.splits)
  note k = table_flush_coh [OF geometry_size(1) [OF g] c f(1)]
  show ?thesis using FlushTables f(2) k(1,3) same_view_shows [OF k(2) A] by simp
qed

lemma l2_run_refines:
  assumes "geometry cs h (ls_table s)" and "l2_coh cs s" and ord: "\<And>m. set (ord m) = set m"
    and "shows_tables cs (l2_byte s) A" and "l2_run io ord h ps s = (Inr vs, s')"
  shows "l2_coh cs s' \<and> same_l1 s s' \<and> vs = fst (plain_run (ls_table s) ps A) \<and> shows_tables cs (l2_byte s') (snd (plain_run (ls_table s) ps A))"
  using assms(1,2,4,5)
proof (induction ps arbitrary: s A vs)
  case Nil
  then show ?case by auto
next
  case (Cons p ps)
  obtain v s1 ws where p: "l2_step io ord h p s = (Inr v, s1)" and r: "l2_run io ord h ps s1 = (Inr ws, s')" "vs = v # ws"
    using Cons.prems(4) by (cases "l2_step io ord h p s"; cases "fst (l2_step io ord h p s)") (auto simp: and_then_Inr split: prod.splits)
  note k = l2_step_refines [OF Cons.prems(1,2) ord Cons.prems(3) p]
  obtain v1 A1 where A1: "plain_step (ls_table s) p A = (v1, A1)" by (cases "plain_step (ls_table s) p A")
  have l: "same_l1 s s1" using k by blast
  have g: "geometry cs h (ls_table s1)" using Cons.prems(1) same_l1_fields(3) [OF l] by simp
  have c: "l2_coh cs s1" "shows_tables cs (l2_byte s1) A1" using k A1 by auto
  note ih = Cons.IH [OF g c r(1)]
  have "plain_run (ls_table s1) ps A1 = plain_run (ls_table s) ps A1" by (rule plain_run_cong [OF same_l1_slot [OF l]])
  moreover have "same_l1 s s'" using ih same_l1_trans [OF l] by blast
  ultimately show ?case using ih k A1 r(2) by (cases "plain_run (ls_table s) ps A1") simp
qed

end
