(* ===== verification/Qcow2Open.thy ===== *)
theory Qcow2Open
  imports Qcow2L2
begin

text \<open>
  The mapping tables of an image from its opening on (\<open>load_metadata\<close> of
  block_backend/src/qcow2/mod.rs): the checked header covers the whole disk with L1 entries, the cache of
  L2 tables is transparent, and as long as no request to the file fails no operation on an
  allocated table does.
\<close>

section \<open>An opened image\<close>

text \<open>What \<open>load_metadata\<close> does with the mapping tables once the header is checked.\<close>

definition open_tables :: "aio_fail \<Rightarrow> qcow_header \<Rightarrow> u64 option \<Rightarrow> memory \<Rightarrow> qcow2_error + qcow2_table" where
  "open_tables io h l2_cache_size d = and_then (init_table_info h l2_cache_size new_qcow2_table) (load_l1_table io d)"

definition opened :: "qcow2_table \<Rightarrow> tables \<Rightarrow> memory \<Rightarrow> l2_state" where
  "opened tb ts d = \<lparr>ls_table = tb, ls_tabs = ts, ls_next = 0, ls_disk = d\<rparr>"

definition file_entry :: "memory \<Rightarrow> u64 \<times> nat \<Rightarrow> u64" where
  "file_entry d = (\<lambda>(a, n). from_be (load d (a + 8 * of_nat n) 8))"

lemma header_cluster:
  assumes "header_check h = Inr ()"
  obtains n where "9 \<le> n" "n \<le> 21" "unat (h_cluster_bits h) = n" "cluster_size h = 2 ^ n"
proof -
  have b: "9 \<le> unat (h_cluster_bits h)" "unat (h_cluster_bits h) \<le> 21"
    using assms by (auto simp: header_check_def word_le_nat_alt split: if_splits)
  have "cluster_size h = 2 ^ unat (h_cluster_bits h)" using b by (simp add: cluster_size_def shl_def push_bit_eq_mult)
  then show thesis using b by (intro that [of "unat (h_cluster_bits h)"]) simp_all
qed

lemma div_8_pow: "3 \<le> n \<Longrightarrow> n \<le> 21 \<Longrightarrow> (2 ^ n :: u64) div 8 = 2 ^ (n - 3)"
  by (simp add: word_unat_eq_iff unat_div unat_pow2 power_diff)

lemma open_tables_table:
  assumes "header_check h = Inr ()" and "open_tables io h sz d = Inr tb"
  shows "\<exists>n. 9 \<le> n \<and> n \<le> 21 \<and> unat (cluster_size h) = 2 ^ n \<and> cluster_size h = 2 ^ n \<and> qt_cluster_bits tb = of_nat n \<and> qt_l2_bits tb = of_nat (n - 3) \<and>
    qt_l2_size tb = 2 ^ (n - 3) \<and> length (qt_l1_table tb) = unat (h_l1_size h) \<and>
    qc_map (qt_cache tb) = [] \<and> qc_dirty_tables (qt_cache tb) = [] \<and> 0 < qc_max_size (qt_cache tb)"
proof -
  obtain n where n: "9 \<le> n" "n \<le> 21" "unat (h_cluster_bits h) = n" "cluster_size h = 2 ^ n" using header_cluster [OF assms(1)] .
  have c: "ucast (h_cluster_bits h) = (of_nat n :: u64)" using n(2,3) by (simp add: word_unat_eq_iff unat_of_nat unsigned_ucast_eq take_bit_nat_eq_self)
  show ?thesis using assms(2) n c div_8_pow [of n]
    by (intro exI [of _ n]) (auto simp: open_tables_def init_table_info_def load_l1_table_def read_ctrl_cluster_def new_qcow2_cache_def
        CACHE_DEFAULT_SIZE_def ENTRY_BITS_def ENTRY_SIZE_def shl_def unat_pow2 and_then_Inr Let_def split: option.splits if_splits)
qed

lemma div_round_up_above:
  assumes r: "div_round_up n q = Some k" and q: "2 \<le> unat q" and x: "x < n"
  shows "unat x div unat q < unat k"
proof -
  have k: "k = (if n mod q = 0 then n div q else n div q + 1)" using r q by (auto simp: div_round_up_def checked_div_def split: if_splits)
  have lt: "unat x < unat n" using x by (simp add: word_less_nat_alt)
  show ?thesis
  proof (cases "n mod q = 0")
    case True
    then have "unat n mod unat q = 0" by (metis unat_mod unat_0)
    then have "unat n = unat k * unat q" using k True by (auto simp: unat_div)
    then show ?thesis using lt by (simp add: less_mult_imp_div_less)
  next
    case False
    have "unat n div unat q \<le> unat n div 2" using q by (intro div_le_mono2) simp_all
    also have "\<dots> < 2 ^ 63" using unat_lt_64 [of n] by (intro less_mult_imp_div_less) (simp del: unat_lt_64)
    finally have "unat n div unat q + 1 < 2 ^ 64" by simp
    then have "unat k = unat n div unat q + 1" using k False by (simp add: unat_add_eq unat_div)
    moreover have "unat x div unat q \<le> unat n div unat q" using lt by (intro div_le_mono) simp
    ultimately show ?thesis by simp
  qed
qed

lemma open_tables_geometry:
  assumes "header_check h = Inr ()" and "open_tables io h sz d = Inr tb"
  shows "geometry (unat (cluster_size h)) h tb"
  using open_tables_table [OF assms] unfolding geometry_def by metis

text \<open>The header was checked for an L1 table that covers the whole virtual disk.\<close>

lemma open_tables_covers:
  assumes h: "header_check h = Inr ()" and t: "open_tables io h sz d = Inr tb" and off: "off < h_size h"
  obtains e where "get_l1_table_entry tb off = Inr e"
proof -
  obtain n where n: "9 \<le> n" "n \<le> 21" "cluster_size h = 2 ^ n" "qt_cluster_bits tb = of_nat n" "qt_l2_bits tb = of_nat (n - 3)"
    "length (qt_l1_table tb) = unat (h_l1_size h)" using open_tables_table [OF h t] by auto
  have p: "unat (cluster_size h * cluster_size h div ENTRY_SIZE) = 2 ^ (2 * n - 3)"
  proof -
    have "cluster_size h * cluster_size h = 2 ^ (2 * n)" by (simp add: n(3) power_add mult_2)
    then show ?thesis using n(1,2) by (simp add: unat_div unat_pow2 ENTRY_SIZE_def ENTRY_BITS_def shl_def power_diff)
  qed
  have "unat (of_nat n + of_nat (n - 3) :: u64) = 2 * n - 3"
  proof -
    have "of_nat n + of_nat (n - 3) = (of_nat (2 * n - 3) :: u64)" using n(1) unfolding of_nat_add [symmetric] by (intro arg_cong [of _ _ of_nat]) simp
    then show ?thesis using n(2) by (simp add: unat_of_nat take_bit_nat_eq_self del: of_nat_diff)
  qed
  then have i: "unat (get_l1_table_index tb off) = unat off div 2 ^ (2 * n - 3)"
    using n(1,2) unat_lt_64 [of off] by (simp add: get_l1_table_index_def n(4,5) shr_def unsigned_drop_bit_eq drop_bit_nat_def take_bit_nat_eq_self)
  obtain need where need: "div_round_up (h_size h) (cluster_size h * cluster_size h div ENTRY_SIZE) = Some need" "need \<le> ucast (h_l1_size h)"
    using h by (auto simp: header_check_def check_l1_table_def and_then_Inr not_less split: if_splits option.splits)
  have "unat off div 2 ^ (2 * n - 3) < unat need" using div_round_up_above [OF need(1) _ off] p n(1) self_le_power [of "2 :: nat" "2 * n - 3"] by simp
  also have "\<dots> \<le> unat (h_l1_size h)" using need(2) take_bit_nat_less_eq_self by (auto simp: word_le_nat_alt unsigned_ucast_eq intro: order_trans)
  finally show thesis using that i n(6) by (simp add: get_l1_table_entry_def)
qed

lemma opened_coh:
  assumes "qc_map (qt_cache tb) = []" and "qc_dirty_tables (qt_cache tb) = []"
  shows "l2_coh cs (opened tb ts d)" and "l2_byte (opened tb ts d) = (\<lambda>a p. d (a + of_nat p))"
  using assms by (auto simp: l2_coh_def opened_def ls_cache_def coh_def ids_ok_def last_ok_def file_ok_def pending_ok_def l2_byte_def view_byte_def fun_eq_iff)

lemma entry_at_file: "entry_at (\<lambda>a p. d (a + of_nat p)) a n = file_entry d (a, n)"
proof -
  have "map (\<lambda>p. d (a + of_nat p)) [8 * n..<8 * n + 8] = load d (a + 8 * of_nat n) 8"
    by (rule nth_equalityI) (simp_all add: add.assoc)
  then show ?thesis by (simp add: entry_at_def file_entry_def)
qed

lemma opened_run:
  assumes h: "header_check h = Inr ()" and t: "open_tables io h sz d = Inr tb" and ord: "\<And>m. set (ord m) = set m"
    and run: "l2_run io ord h ps (opened tb ts d) = (Inr vs, s')"
  shows "l2_coh (unat (cluster_size h)) s' \<and> same_l1 (opened tb ts d) s' \<and> vs = fst (plain_run tb ps (file_entry d)) \<and>
    shows_tables (unat (cluster_size h)) (l2_byte s') (snd (plain_run tb ps (file_entry d)))"
proof -
  have e: "qc_map (qt_cache tb) = []" "qc_dirty_tables (qt_cache tb) = []" using open_tables_table [OF h t] by auto
  have "shows_tables (unat (cluster_size h)) (l2_byte (opened tb ts d)) (file_entry d)"
    by (simp add: shows_tables_def opened_coh(2) [OF e] entry_at_file)
  from l2_run_refines [OF _ opened_coh(1) [OF e] ord this run] show ?thesis
    using open_tables_geometry [OF h t] by (simp add: opened_def)
qed

section \<open>Operations that cannot fail\<close>

lemma write_table_ok:
  assumes "size_ok cs" and "tab_ok cs t" and "di_is_dirty (ct_dirty t)" and io: "io = (\<lambda>_ _. None)"
  obtains d' where "write_table io t d = (Inr (), d')"
proof -
  have t: "length (ct_data t) = cs" "unat (di_start (ct_dirty t)) < unat (di_end (ct_dirty t))" "unat (di_end (ct_dirty t)) \<le> cs"
    using assms(2,3) by (auto simp: tab_ok_def)
  note r = round_512 [OF t(3) assms(1)]
  obtain e' where e': "round_up (di_end (ct_dirty t)) 512 = Inr (Some e')" "unat e' = hi t" using r(2) by (auto simp: hi_def)
  have "unat (di_start (ct_dirty t)) div 512 \<le> (unat (di_end (ct_dirty t)) + 511) div 512" using t(2) by (intro div_le_mono) simp
  then have "lo t \<le> hi t" by (simp add: lo_def hi_def)
  then show thesis using r(1,3) e' t(1) that
    by (auto simp: write_table_def write_dirty_info_def DEFAULT_SECTOR_SIZE_def write_buffer_def io lo_def hi_def)
qed

lemma flush_tables_ok:
  assumes sz: "size_ok cs" and io: "io = (\<lambda>_ _. None)" and "\<And>i. i \<in> set is \<Longrightarrow> tab_ok cs (ts i)"
  shows "fst (flush_tables io is (Inr ()) ts d) = Inr ()"
  using assms(3)
proof (induction "is" arbitrary: ts d)
  case (Cons i "is")
  have keep: "tab_ok cs (clear_dirty i ts j)" if "j \<in> set is" for j
    using Cons.prems [of j] Cons.prems [of i] that by (auto simp: clear_dirty_def tab_ok_def clean_info_def)
  show ?case
  proof (cases "di_is_dirty (ct_dirty (ts i))")
    case True
    obtain d' where "write_table io (ts i) d = (Inr (), d')" using write_table_ok [OF sz Cons.prems True io] by auto
    then show ?thesis using True Cons.IH [OF keep] by simp
  qed (use Cons in simp)
qed simp

lemma table_flush_ok:
  assumes sz: "size_ok cs" and c: "l2_coh cs s" and io: "io = (\<lambda>_ _. None)"
  obtains s' where "table_flush io s = (Inr (), s')"
proof -
  have "fst (flush_tables io (qc_dirty_tables (ls_cache s)) (Inr ()) (ls_tabs s) (ls_disk s)) = Inr ()"
    using c ids_okD(6) by (intro flush_tables_ok [OF sz io]) (auto simp: l2_coh_def coh_def)
  then obtain ts d where "flush_tables io (qc_dirty_tables (ls_cache s)) (Inr ()) (ls_tabs s) (ls_disk s) = (Inr (), ts, d)"
    by (metis prod.collapse)
  then show thesis using that by (simp add: table_flush_def cache_flush_def)
qed

lemma cache_l2_table_ok:
  assumes sz: "size_ok cs" and c: "l2_coh cs s" and io: "io = (\<lambda>_ _. None)" and ord: "\<And>m. set (ord m) = set m"
    and k: "map_of (qc_map (ls_cache s)) (ct_addr t) = None" "alloc_table t s = (i, s2)"
  obtains s3 where "cache_l2_table io ord i s2 = (Inr (), s3)"
proof -
  have ids: "ids_ok cs (qc_map (ls_cache s)) (qc_dirty_tables (ls_cache s)) (ls_tabs s) (ls_next s)" using c by (simp add: l2_coh_def coh_def)
  have s2: "i = ls_next s" "ls_cache s2 = ls_cache s" "ls_tabs s2 = (ls_tabs s)(i := t)" using k(2) by (auto simp: alloc_table_def ls_cache_def)
  obtain v c' ts' where lru: "lru_replace ord (ct_addr t) i (ls_cache s, (ls_tabs s)(i := t)) = (v, c', ts')" by (metis prod_cases3)
  have "ct_addr t \<notin> fst ` set (qc_map (ls_cache s))" using k(1) by (simp add: map_of_eq_None_iff)
  note r = lru_replace_core [OF lru ord ids_okD(4) [OF ids] this]
  have nc: "\<not> contains_keys (ct_addr t) (ls_cache s)" using k(1) by (simp add: contains_keys_def)
  have "\<exists>s3. cache_l2_table io ord i s2 = (Inr (), s3)"
  proof (cases v)
    case None
    then show ?thesis using lru s2 nc by (simp add: cache_l2_table_def Let_def)
  next
    case (Some j)
    then obtain kv where kv: "(kv, j) \<in> set (qc_map (ls_cache s))" using r by auto
    have j: "j \<noteq> i" "tab_ok cs (ls_tabs s j)" using ids_okD(5) [OF ids kv] s2(1) by auto
    have core: "same_core ((ls_tabs s)(i := t)) ts'" using r by blast
    then have tj: "tab_ok cs (ts' j)" using j by (simp add: same_core_def tab_ok_def)
    show ?thesis
    proof (cases "di_is_dirty (ct_dirty (ts' j))")
      case True
      obtain d' where "write_table io (ts' j) (ls_disk s2) = (Inr (), d')" using write_table_ok [OF sz tj True io] .
      then show ?thesis using True lru s2 nc Some by (simp add: cache_l2_table_def Let_def)
    qed (use lru s2 nc Some in \<open>simp add: cache_l2_table_def Let_def\<close>)
  qed
  then show thesis using that by blast
qed

lemma load_l2_ok:
  assumes g: "geometry cs h tb" and io: "io = (\<lambda>_ _. None)" and a: "is_aligned (cluster_size h) a"
  obtains t where "and_then (load_cluster io h a d) (\<lambda>l2_cluster. new_cache_table a l2_cluster ENTRY_SIZE_U64) = Inr t"
  using a that by (simp add: load_cluster_def read_buffer_def io new_cache_table_def ENTRY_SIZE_U64_def)

lemma cached_l2_table_ok:
  assumes g: "geometry cs h (ls_table s)" and c: "l2_coh cs s" and io: "io = (\<lambda>_ _. None)" and ord: "\<And>m. set (ord m) = set m"
    and a: "is_aligned (cluster_size h) a" "a \<noteq> 0"
  obtains i s' where "cached_l2_table io ord h a s = (Inr i, s')"
proof -
  obtain r ct where get: "cache_get a (ls_cache s, ls_tabs s) = (r, ct)" by (cases "cache_get a (ls_cache s, ls_tabs s)")
  note k = cache_get_coh [OF get c]
  show thesis
  proof (cases r)
    case None
    obtain t where t: "and_then (load_cluster io h a (ls_disk (set_cache ct s))) (\<lambda>l2_cluster. new_cache_table a l2_cluster ENTRY_SIZE_U64) = Inr t"
      using load_l2_ok [OF g io a(1)] .
    obtain i s2 where al: "alloc_table t (set_cache ct s) = (i, s2)" by (cases "alloc_table t (set_cache ct s)")
    have "map_of (qc_map (ls_cache (set_cache ct s))) (ct_addr t) = None" using k(1,6) None load_l2(2) [OF g t] by simp
    then obtain s3 where "cache_l2_table io ord i s2 = (Inr (), s3)" using cache_l2_table_ok [OF geometry_size(1) [OF g] k(2) io ord _ al] by auto
    then show thesis using that get None t al by (simp add: cached_l2_table_def)
  qed (use that get in \<open>simp add: cached_l2_table_def\<close>)
qed

lemma get_l2_entry_ok:
  assumes g: "geometry cs h (ls_table s)" and c: "l2_coh cs s" and io: "io = (\<lambda>_ _. None)" and ord: "\<And>m. set (ord m) = set m"
    and e: "get_l1_table_entry (ls_table s) off = Inr e" and a: "is_aligned (cluster_size h) (e AND L1_TABLE_OFFSET_MASK)" "e AND L1_TABLE_OFFSET_MASK \<noteq> 0"
  obtains v s' where "get_l2_entry io ord h off s = (Inr v, s')"
proof -
  let ?a = "e AND L1_TABLE_OFFSET_MASK" and ?x = "get_l2_table_index (ls_table s) off"
  note sz = geometry_size [OF g]
  obtain r ct where get: "cache_get ?a (ls_cache s, ls_tabs s) = (r, ct)" by (cases "cache_get ?a (ls_cache s, ls_tabs s)")
  note k = cache_get_coh [OF get c]
  let ?s1 = "set_cache ct s"
  have l: "get_l2_table_cache_entry off s = (Inr r, ?s1)" using e a(2) get by (simp add: get_l2_table_cache_entry_def)
  show thesis
  proof (cases r)
    case None
    obtain t where t: "and_then (load_cluster io h ?a (ls_disk ?s1)) (\<lambda>l2_cluster. new_cache_table ?a l2_cluster ENTRY_SIZE_U64) = Inr t"
      using load_l2_ok [OF g io a(1)] .
    obtain i s2 where al: "alloc_table t ?s1 = (i, s2)" by (cases "alloc_table t ?s1")
    have "map_of (qc_map (ls_cache ?s1)) (ct_addr t) = None" using k(1,6) None load_l2(2) [OF g t] by simp
    then obtain s3 where s3: "cache_l2_table io ord i s2 = (Inr (), s3)" using cache_l2_table_ok [OF sz(1) k(2) io ord _ al] by auto
    have "get_entry_map ?x t = Inr (entry_at (\<lambda>_ p. ct_data t ! p) ?a (unat ?x))" by (rule get_entry_tab [OF sz(1) load_l2(3) [OF g t] sz(4)]) simp
    then show thesis using that l None same_l1_fields(1) [OF k(4)] e a(2) t al s3 by (simp add: get_l2_entry_def)
  next
    case (Some i)
    then have "map_of (qc_map (ls_cache ?s1)) ?a = Some i" using k(1,6) by simp
    from get_entry_cached [OF sz(1) k(2) this sz(4)] show thesis using that l Some by (simp add: get_l2_entry_def)
  qed
qed

lemma write_l2_entry_ok:
  assumes g: "geometry cs h (ls_table s)" and c: "l2_coh cs s" and io: "io = (\<lambda>_ _. None)" and ord: "\<And>m. set (ord m) = set m"
    and e: "get_l1_table_entry (ls_table s) off = Inr e" and a: "is_aligned (cluster_size h) (e AND L1_TABLE_OFFSET_MASK)" "e AND L1_TABLE_OFFSET_MASK \<noteq> 0"
  obtains s' where "write_l2_entry io ord h off v s = (Inr (), s')"
proof -
  obtain i s1 where t: "cached_l2_table io ord h (e AND L1_TABLE_OFFSET_MASK) s = (Inr i, s1)" using cached_l2_table_ok [OF g c io ord a] .
  note k = cached_l2_table_coh [OF g c ord a(2) t]
  have "geometry cs h (ls_table s1)" using g same_l1_fields(3) [OF k(3)] by simp
  note sz = geometry_size [OF this]
  from get_entry_cached [OF sz(1) k(1) k(4) sz(4)] obtain st where "entry_slice (get_l2_table_index (ls_table s1) off) (ls_tabs s1 i) = Inr st"
    by (auto simp: get_entry_map_def and_then_Inr)
  then obtain t' where "set_entry_map (get_l2_table_index (ls_table s1) off) v (ls_tabs s1 i) = Inr t'" by (simp add: set_entry_map_def Let_def)
  then show thesis using that e a(2) t by (simp add: write_l2_entry_def update_l2_table_def)
qed

text \<open>
  An offset of the virtual disk whose L1 entry names a table at a cluster. That there is such an entry, and not
  an index behind the end of the L1 table, is not part of it.
\<close>

definition has_table :: "qcow_header \<Rightarrow> qcow2_table \<Rightarrow> u64 \<Rightarrow> bool" where
  "has_table h tb off \<longleftrightarrow> off < h_size h \<and>
     (\<forall>e. get_l1_table_entry tb off = Inr e \<longrightarrow> e AND L1_TABLE_OFFSET_MASK \<noteq> 0 \<and> is_aligned (cluster_size h) (e AND L1_TABLE_OFFSET_MASK))"

fun op_ok :: "qcow_header \<Rightarrow> qcow2_table \<Rightarrow> l2_op \<Rightarrow> bool" where
  "op_ok h tb (ReadEntry off) = has_table h tb off"
| "op_ok h tb (WriteEntry off v) = has_table h tb off"
| "op_ok h tb FlushTables = True"

lemma l2_step_ok:
  assumes g: "geometry cs h (ls_table s)" and c: "l2_coh cs s" and io: "io = (\<lambda>_ _. None)" and ord: "\<And>m. set (ord m) = set m"
    and l1: "\<And>off. off < h_size h \<Longrightarrow> \<exists>e. get_l1_table_entry (ls_table s) off = Inr e" and op: "op_ok h (ls_table s) p"
  obtains v s' where "l2_step io ord h p s = (Inr v, s')"
proof (cases p)
  case (ReadEntry off)
  then obtain e where e: "get_l1_table_entry (ls_table s) off = Inr e" "is_aligned (cluster_size h) (e AND L1_TABLE_OFFSET_MASK)"
    "e AND L1_TABLE_OFFSET_MASK \<noteq> 0" using op l1 [of off] by (auto simp: has_table_def)
  obtain v s' where "get_l2_entry io ord h off s = (Inr v, s')" using get_l2_entry_ok [OF g c io ord e] .
  then show thesis using that ReadEntry by simp
next
  case (WriteEntry off w)
  then obtain e where e: "get_l1_table_entry (ls_table s) off = Inr e" "is_aligned (cluster_size h) (e AND L1_TABLE_OFFSET_MASK)"
    "e AND L1_TABLE_OFFSET_MASK \<noteq> 0" using op l1 [of off] by (auto simp: has_table_def)
  obtain s' where "write_l2_entry io ord h off w s = (Inr (), s')" using write_l2_entry_ok [OF g c io ord e] .
  then show thesis using that WriteEntry by simp
next
  case FlushTables
  obtain s' where "table_flush io s = (Inr (), s')" using table_flush_ok [OF geometry_size(1) [OF g] c io] .
  then show thesis using that FlushTables by simp
qed

lemma op_ok_cong:
  assumes "same_l1 s s'"
  shows "op_ok h (ls_table s') p = op_ok h (ls_table s) p"
  by (cases p) (simp_all add: has_table_def same_l1_fields(1) [OF assms])

lemma l2_run_ok:
  assumes "geometry cs h (ls_table s)" and "l2_coh cs s" and io: "io = (\<lambda>_ _. None)" and ord: "\<And>m. set (ord m) = set m"
    and "\<forall>off. off < h_size h \<longrightarrow> (\<exists>e. get_l1_table_entry (ls_table s) off = Inr e)" and "\<forall>p \<in> set ps. op_ok h (ls_table s) p"
  shows "\<exists>vs s'. l2_run io ord h ps s = (Inr vs, s')"
  using assms(1,2,5,6)
proof (induction ps arbitrary: s)
  case (Cons p ps)
  obtain v s1 where st: "l2_step io ord h p s = (Inr v, s1)" using l2_step_ok [OF Cons.prems(1,2) io ord, of p] Cons.prems(3,4) by auto
  have A: "shows_tables cs (l2_byte s) (\<lambda>(a, n). entry_at (l2_byte s) a n)" by (simp add: shows_tables_def)
  have k: "l2_coh cs s1" "same_l1 s s1" using l2_step_refines [OF Cons.prems(1,2) ord A st] by blast+
  have "\<exists>vs s'. l2_run io ord h ps s1 = (Inr vs, s')"
    using Cons.prems by (intro Cons.IH) (simp_all add: k(1) same_l1_fields(1,3) [OF k(2)] op_ok_cong [OF k(2)])
  then show ?case using st by auto
qed simp

lemma opened_run_ok:
  assumes "header_check h = Inr ()" and "open_tables (\<lambda>_ _. None) h sz d = Inr tb" and ord: "\<And>m. set (ord m) = set m"
    and ps: "\<forall>p \<in> set ps. op_ok h tb p"
  obtains vs s' s'' where "l2_run (\<lambda>_ _. None) ord h ps (opened tb ts d) = (Inr vs, s')" "table_flush (\<lambda>_ _. None) s' = (Inr (), s'')"
proof -
  note g = open_tables_geometry [OF assms(1,2)]
  have e: "qc_map (qt_cache tb) = []" "qc_dirty_tables (qt_cache tb) = []" using open_tables_table [OF assms(1,2)] by auto
  have l1: "\<forall>off. off < h_size h \<longrightarrow> (\<exists>e. get_l1_table_entry tb off = Inr e)" using open_tables_covers [OF assms(1,2)] by metis
  have "\<exists>vs s'. l2_run (\<lambda>_ _. None) ord h ps (opened tb ts d) = (Inr vs, s')"
    using g ps l1 by (intro l2_run_ok [OF _ opened_coh(1) [OF e] refl ord]) (simp_all add: opened_def)
  then obtain vs s' where r: "l2_run (\<lambda>_ _. None) ord h ps (opened tb ts d) = (Inr vs, s')" by blast
  have "l2_coh (unat (cluster_size h)) s'" using opened_run [OF assms(1-3) r] by blast
  then obtain s'' where "table_flush (\<lambda>_ _. None) s' = (Inr (), s'')" using table_flush_ok [OF geometry_size(1) [OF g] _ refl] by blast
  then show ?thesis using r that by blast
qed

text \<open>The file of the example header, with the only L2 table at 0x600.\<close>

definition ex_image :: memory where
  "ex_image = (\<lambda>a. if a = 518 then 6 else 0)"

definition ex_image_table :: qcow2_table where
  "ex_image_table = \<lparr>qt_cluster_bits = 9, qt_cluster_size = 512, qt_l1_table = [1536], qt_l1_table_offset = 512, qt_l1_size = 1,
     qt_cache = new_qcow2_cache 1, qt_l2_bits = 6, qt_l2_size = 64\<rparr>"

definition no_tables :: tables where
  "no_tables = (\<lambda>_. \<lparr>ct_dirty = clean_info, ct_lru_count = 0, ct_addr = 0, ct_entry_size = ENTRY_SIZE_U64, ct_data = []\<rparr>)"

lemma ex_image_checked: "header_check ex_image_header = Inr ()"
  by (simp add: header_check_def check_refcount_table_def check_l1_table_def ex_image_header_def cluster_size_def cluster_aligned_def shl_def
      MAX_REFTABLE_SIZE_def MAX_L1TABLE_SIZE_def ENTRY_SIZE_def ENTRY_BITS_def checked_add_def div_round_up_def checked_div_def
      word_le_nat_alt word_less_nat_alt push_bit_eq_mult)

lemma ex_image_opened: "open_tables (\<lambda>_ _. None) ex_image_header None ex_image = Inr ex_image_table"
  by code_simp

lemmas ex_image_opens = ex_image_checked ex_image_opened

lemma ex_image_entries:
  "get_l1_table_entry ex_image_table 0 = Inr 1536" "get_l1_table_entry ex_image_table 512 = Inr 1536"
  "(1536 :: u64) AND L1_TABLE_OFFSET_MASK = 1536" "is_aligned (cluster_size ex_image_header) 1536" "h_size ex_image_header = 32768"
  by code_simp+

lemma ex_image_ops:
  "\<forall>p \<in> set [WriteEntry 0 2048, ReadEntry 0, ReadEntry 512]. op_ok ex_image_header ex_image_table p"
  by (simp add: has_table_def ex_image_entries)

text \<open>
  C21. As long as no request to the file fails, no sequence of operations fails on entries of the virtual disk whose L2 tables are
  allocated: no index of an L1 or L2 table is out of range, no table that has to make room is
  refused, and the flush at the end succeeds as well.
\<close>

theorem l2_run_returns:
  assumes "header_check h = Inr ()" and "open_tables (\<lambda>_ _. None) h sz d = Inr tb" and "\<And>m. set (ord m) = set m"
    and "\<forall>p \<in> set ps. op_ok h tb p"
  shows "\<exists>vs s' s''. l2_run (\<lambda>_ _. None) ord h ps (opened tb ts d) = (Inr vs, s') \<and> table_flush (\<lambda>_ _. None) s' = (Inr (), s'')"
  using opened_run_ok [OF assms] by metis

theorem l2_run_returns_witness:
  "\<exists>vs s' s''. l2_run (\<lambda>_ _. None) id ex_image_header [WriteEntry 0 2048, ReadEntry 0, ReadEntry 512] (opened ex_image_table no_tables ex_image) = (Inr vs, s') \<and>
     table_flush (\<lambda>_ _. None) s' = (Inr (), s'')"
  by (rule l2_run_returns [OF ex_image_opens _ ex_image_ops]) simp

lemma opened_flush:
  assumes o: "header_check h = Inr ()" "open_tables io h sz d = Inr tb" "\<And>m. set (ord m) = set m"
    "l2_run io ord h ps (opened tb ts d) = (Inr vs, s')"
    and f: "table_flush io s' = (Inr (), s'')" and a: "is_aligned (cluster_size h) a" and n: "n < unat (cluster_size h) div 8"
  shows "file_entry (ls_disk s'') (a, n) = snd (plain_run tb ps (file_entry d)) (a, n)"
proof -
  note r = opened_run [OF o]
  note g = open_tables_geometry [OF o(1,2)]
  have a': "at_cluster (unat (cluster_size h)) a" using a geometry_size(3) [OF g] by simp
  note w = table_flush_coh(4) [OF geometry_size(1) [OF g] _ f a']
  have "entry_at (\<lambda>a p. ls_disk s'' (a + of_nat p)) a n = entry_at (l2_byte s') a n"
    using n r w by (intro entry_at_cong) auto
  then show ?thesis using r a' n by (simp add: entry_at_file shows_tables_def)
qed

text \<open>
  C8. The cache of L2 tables is transparent. On an image whose header passes the check, any sequence
  of reads, updates and flushes of entries that meets no error returns what the same operations return on plain
  tables that start as the file has them, whatever is evicted on the way; and after a
  flush that succeeds the file holds exactly those tables, in every cluster.
\<close>

theorem l2_cache_refines:
  assumes "header_check h = Inr ()" and "open_tables io h sz d = Inr tb" and "\<And>m. set (ord m) = set m"
    and "l2_run io ord h ps (opened tb ts d) = (Inr vs, s')"
  shows "vs = fst (plain_run tb ps (file_entry d)) \<and>
    (\<forall>s'' a n. table_flush io s' = (Inr (), s'') \<longrightarrow> is_aligned (cluster_size h) a \<longrightarrow> n < unat (cluster_size h) div 8 \<longrightarrow>
      file_entry (ls_disk s'') (a, n) = snd (plain_run tb ps (file_entry d)) (a, n))"
  using opened_run [OF assms] opened_flush [OF assms] by blast

theorem l2_cache_refines_witness:
  "\<exists>s'. l2_run (\<lambda>_ _. None) id ex_image_header [WriteEntry 0 2048, ReadEntry 0, ReadEntry 512] (opened ex_image_table no_tables ex_image) = (Inr [None, Some 2048, Some 0], s')"
proof -
  let ?ps = "[WriteEntry 0 2048, ReadEntry 0, ReadEntry 512]"
  have ord: "set (id m) = set m" for m :: "(u64 \<times> tid) list" by simp
  obtain vs s' s'' where r: "l2_run (\<lambda>_ _. None) id ex_image_header ?ps (opened ex_image_table no_tables ex_image) = (Inr vs, s')"
    using opened_run_ok [OF ex_image_opens ord ex_image_ops, of no_tables] by blast
  have p: "fst (plain_run ex_image_table ?ps (file_entry ex_image)) = [None, Some 2048, Some 0]" by code_simp
  have "vs = [None, Some 2048, Some 0]" using conjunct1 [OF l2_cache_refines [OF ex_image_opens ord r]] unfolding p .
  then show ?thesis using r by blast
qed

end
