(* ===== verification/Qcow2Read.thy ===== *)
theory Qcow2Read
  imports Qcow2Open AddressOps
begin

text \<open>
  Reading from a qcow2 image (block_backend/src/qcow2/mod.rs, and the vectors of buffers of
  util/src/aio/mod.rs): a request is cut into pieces that are contiguous in the file or read as
  zero. Whatever is left of the cache, the pieces are what the mapping tables say.
\<close>

section \<open>Pieces of a request\<close>

datatype host_range = DataAddress u64 u64 | DataNotInit u64

definition offset_into_cluster :: "qcow_header \<Rightarrow> u64 \<Rightarrow> u64" where
  "offset_into_cluster h guest_offset = guest_offset AND (cluster_size h - 1)"

definition rounded :: "panic + u64 option \<Rightarrow> qcow2_error + u64" where
  "rounded r = (case r of Inl p \<Rightarrow> Inl (EQPanic p) | Inr None \<Rightarrow> Inl ERound | Inr (Some x) \<Rightarrow> Inr x)"

text \<open>The loop over clusters, with the number of clusters left as its first argument after the header.\<close>

fun continuous_loop :: "aio_fail \<Rightarrow> hash_order \<Rightarrow> qcow_header \<Rightarrow> nat \<Rightarrow> u64 \<Rightarrow> u64 \<Rightarrow> u64 \<Rightarrow> qcow2_cluster_type \<Rightarrow> l2_state \<Rightarrow>
    (qcow2_error + qcow2_cluster_type \<times> u64 \<times> u64) \<times> l2_state" where
  "continuous_loop io ord h 0 begin cnt host_start first_type s = (Inr (first_type, host_start, cnt), s)"
| "continuous_loop io ord h (Suc n) begin cnt host_start first_type s =
     (let off = cnt * cluster_size h in
      case get_l2_entry io ord h (begin + off) s of
        (Inl e, s1) \<Rightarrow> (Inl e, s1)
      | (Inr l2_entry, s1) \<Rightarrow>
          (let cluster_type = get_cluster_type l2_entry; cluster_addr = l2_entry AND L2_TABLE_OFFSET_MASK in
           if cnt = 0 then continuous_loop io ord h n begin (cnt + 1) cluster_addr cluster_type s1
           else if cluster_addr \<noteq> host_start + off \<or> cluster_type \<noteq> first_type then (Inr (first_type, host_start, cnt), s1)
           else continuous_loop io ord h n begin (cnt + 1) host_start first_type s1))"

definition get_continuous_address :: "aio_fail \<Rightarrow> hash_order \<Rightarrow> qcow_header \<Rightarrow> u64 \<Rightarrow> u64 \<Rightarrow> l2_state \<Rightarrow>
    (qcow2_error + qcow2_cluster_type \<times> u64 \<times> u64) \<times> l2_state" where
  "get_continuous_address io ord h guest_offset expect_len s =
     (case and_then (rounded (round_down guest_offset (cluster_size h)))
             (\<lambda>begin. and_then (rounded (round_up (guest_offset + expect_len) (cluster_size h))) (\<lambda>end. Inr (begin, end))) of
        Inl e \<Rightarrow> (Inl e, s)
      | Inr (begin, end) \<Rightarrow>
          (let clusters = (end - begin) div cluster_size h in
           if clusters = 0 then (Inl EOutOfRange, s)
           else case continuous_loop io ord h (unat clusters) begin 0 0 Unallocated s of
                  (Inl e, s1) \<Rightarrow> (Inl e, s1)
                | (Inr (first_type, host_start, cnt), s1) \<Rightarrow>
                    (let sz = cnt * cluster_size h - offset_into_cluster h guest_offset
                     in (Inr (first_type, host_start + offset_into_cluster h guest_offset, min expect_len sz), s1))))"

definition host_offset_for_read :: "aio_fail \<Rightarrow> hash_order \<Rightarrow> qcow_header \<Rightarrow> u64 \<Rightarrow> u64 \<Rightarrow> l2_state \<Rightarrow> (qcow2_error + host_range) \<times> l2_state" where
  "host_offset_for_read io ord h guest_offset req_len s =
     (let l2_max_len = get_l2_table_max_remain_size (ls_table s) guest_offset (offset_into_cluster h guest_offset);
          sz = min req_len l2_max_len
      in case get_l1_table_entry (ls_table s) guest_offset of
           Inl e \<Rightarrow> (Inl e, s)
         | Inr l1_entry \<Rightarrow>
             if l1_entry AND L1_TABLE_OFFSET_MASK = 0 then (Inr (DataNotInit sz), s)
             else case get_continuous_address io ord h guest_offset sz s of
                    (Inl e, s1) \<Rightarrow> (Inl e, s1)
                  | (Inr (cluster_type, host_start, bytes), s1) \<Rightarrow>
                      (Inr (if is_read_zero cluster_type then DataNotInit bytes else DataAddress host_start bytes), s1))"

section \<open>Vectors of buffers\<close>

definition get_iov_size :: "iovec list \<Rightarrow> u64" where
  "get_iov_size iovecs = fold (\<lambda>v sum. sum + iov_len v) iovecs 0"

fun iovecs_split :: "iovec list \<Rightarrow> u64 \<Rightarrow> iovec list \<times> iovec list" where
  "iovecs_split [] sz = ([], [])"
| "iovecs_split (v # vs) sz =
     (if sz = 0 then (case iovecs_split vs sz of (b, e) \<Rightarrow> (b, v # e))
      else if iov_len v > sz
      then (case iovecs_split vs 0 of (b, e) \<Rightarrow>
             (\<lparr>iov_base = iov_base v, iov_len = sz\<rparr> # b, \<lparr>iov_base = iov_base v + sz, iov_len = iov_len v - sz\<rparr> # e))
      else (case iovecs_split vs (sz - iov_len v) of (b, e) \<Rightarrow> (v # b, e)))"

definition iovec_write_zero :: "iovec list \<Rightarrow> memory \<Rightarrow> memory" where
  "iovec_write_zero iovecs = fold (\<lambda>v m. store m (iov_base v) (replicate (unat (iov_len v)) 0)) iovecs"

section \<open>The request\<close>

record combine_request =
  cr_iov :: "iovec list"
  cr_offset :: u64
  cr_nbytes :: u64

definition check_request :: "qcow_header \<Rightarrow> u64 \<Rightarrow> u64 \<Rightarrow> qcow2_error + unit" where
  "check_request h off nbytes =
     (if off > h_size h then Inl EOutOfRange
      else case checked_add off nbytes of
             None \<Rightarrow> Inl EOutOfRange
           | Some end \<Rightarrow> if end > h_size h then Inl EOutOfRange else Inr ())"

text \<open>
  The loop of \<open>read_vectored\<close>, which collects the requests to the file and clears the buffers that
  are not initialised. A turn that makes no progress would be repeated for ever, so one turn per byte and
  one more decide whether it returns.
\<close>

fun read_loop :: "nat \<Rightarrow> aio_fail \<Rightarrow> hash_order \<Rightarrow> qcow_header \<Rightarrow> u64 \<Rightarrow> u64 \<Rightarrow> u64 \<Rightarrow> iovec list \<Rightarrow> memory \<Rightarrow> l2_state \<Rightarrow>
    ((qcow2_error + combine_request list) \<times> memory \<times> l2_state) option" where
  "read_loop 0 io ord h off nbytes copied left m s = None"
| "read_loop (Suc n) io ord h off nbytes copied left m s =
     (if \<not> copied < nbytes then Some (Inr [], m, s)
      else case host_offset_for_read io ord h (off + copied) (nbytes - copied) s of
             (Inl e, s1) \<Rightarrow> Some (Inl e, m, s1)
           | (Inr (DataAddress host_offset cnt), s1) \<Rightarrow>
               (case iovecs_split left cnt of (b, e) \<Rightarrow>
                  map_option (\<lambda>(r, m2, s2). (and_then r (\<lambda>rs. Inr (\<lparr>cr_iov = b, cr_offset = host_offset, cr_nbytes = cnt\<rparr> # rs)), m2, s2))
                    (read_loop n io ord h off nbytes (copied + cnt) e m s1))
           | (Inr (DataNotInit cnt), s1) \<Rightarrow>
               (case iovecs_split left cnt of (b, e) \<Rightarrow> read_loop n io ord h off nbytes (copied + cnt) e (iovec_write_zero b m) s1))"

definition read_vectored :: "aio_fail \<Rightarrow> hash_order \<Rightarrow> qcow_header \<Rightarrow> iovec list \<Rightarrow> u64 \<Rightarrow> memory \<Rightarrow> l2_state \<Rightarrow>
    ((qcow2_error + combine_request list) \<times> memory \<times> l2_state) option" where
  "read_vectored io ord h iovec off m s =
     (let nbytes = get_iov_size iovec in
      case check_request h off nbytes of
        Inl e \<Rightarrow> Some (Inl e, m, s)
      | Inr _ \<Rightarrow> read_loop (Suc (unat nbytes)) io ord h off nbytes 0 iovec m s)"

end
