(* ===== verification/Qcow2Virtual.thy ===== *)
theory Qcow2Virtual
  imports Qcow2Read
begin

text \<open>
  The virtual disk: which byte of the file the tables give for a byte of the disk, and that a
  read fetches exactly these bytes.
\<close>

section \<open>The layout of an address\<close>

definition image_layout :: "nat \<Rightarrow> qcow_header \<Rightarrow> qcow2_table \<Rightarrow> bool" where
  "image_layout n h tb \<longleftrightarrow> 9 \<le> n \<and> n \<le> 21 \<and> cluster_size h = 2 ^ n \<and> qt_cluster_bits tb = of_nat n \<and> qt_cluster_size tb = 2 ^ n \<and>
     qt_l2_bits tb = of_nat (n - 3) \<and> qt_l2_size tb = 2 ^ (n - 3)"

lemma open_tables_layout:
  assumes "header_check h = Inr ()" and "open_tables io h sz d = Inr tb"
  obtains n where "image_layout n h tb"
proof -
  have "qt_cluster_size tb = cluster_size h"
    using assms(2) by (auto simp: open_tables_def init_table_info_def load_l1_table_def and_then_Inr Let_def split: option.splits)
  then show thesis using open_tables_table [OF assms] that unfolding image_layout_def by metis
qed

lemma layout_cache [simp]: "image_layout n h (tb\<lparr>qt_cache := c\<rparr>) = image_layout n h tb"
  by (simp add: image_layout_def)

lemma layout_geometry: "image_layout n h tb \<Longrightarrow> geometry (2 ^ n) h tb"
  by (auto simp: image_layout_def geometry_def)

lemma layout_size: "image_layout n h tb \<Longrightarrow> unat (cluster_size h) = 2 ^ n"
  by (simp add: image_layout_def unat_pow2)

lemma layout_into:
  assumes "image_layout n h tb"
  shows "unat (offset_into_cluster h g) = unat g mod 2 ^ n"
proof -
  have "offset_into_cluster h g = take_bit n g" using assms by (simp add: offset_into_cluster_def image_layout_def take_bit_eq_mask mask_eq_exp_minus_1)
  then show ?thesis by (simp add: unsigned_take_bit_eq take_bit_nat_def)
qed

lemma layout_index:
  assumes "image_layout n h tb"
  shows "unat (get_l1_table_index tb g) = unat g div 2 ^ n div 2 ^ (n - 3)"
    and "unat (get_l2_table_index tb g) = unat g div 2 ^ n mod 2 ^ (n - 3)"
proof -
  have n: "9 \<le> n" "n \<le> 21" using assms by (auto simp: image_layout_def)
  have q: "qt_cluster_bits tb = of_nat n" "qt_l2_bits tb = of_nat (n - 3)" using assms by (simp_all add: image_layout_def)
  have "qt_cluster_bits tb + qt_l2_bits tb = of_nat (n + (n - 3))" unfolding q of_nat_add ..
  then have u: "unat (qt_cluster_bits tb + qt_l2_bits tb) = n + (n - 3)" using n by (simp add: unat_of_nat take_bit_nat_eq_self del: of_nat_add of_nat_diff)
  have "unat (shr g (n + (n - 3))) = unat g div 2 ^ (n + (n - 3))" using n by (intro unat_shr) simp
  also have "\<dots> = unat g div 2 ^ n div 2 ^ (n - 3)" by (simp only: power_add div_mult2_eq)
  finally show "unat (get_l1_table_index tb g) = unat g div 2 ^ n div 2 ^ (n - 3)" unfolding get_l1_table_index_def u .
  have "unat (qt_cluster_bits tb) = n" using assms n by (simp add: image_layout_def unat_of_nat take_bit_nat_eq_self)
  moreover have "x AND (2 ^ (n - 3) - 1) = take_bit (n - 3) x" for x :: u64 by (simp add: take_bit_eq_mask mask_eq_exp_minus_1)
  ultimately show "unat (get_l2_table_index tb g) = unat g div 2 ^ n mod 2 ^ (n - 3)"
    using assms n by (simp add: get_l2_table_index_def image_layout_def unsigned_take_bit_eq take_bit_nat_def unat_shr)
qed

lemma layout_slot:
  assumes "image_layout n h tb" and "unat g div 2 ^ n = unat g' div 2 ^ n"
  shows "slot_of tb g = slot_of tb g'" "get_l1_table_entry tb g = get_l1_table_entry tb g'"
proof -
  have "get_l1_table_index tb g = get_l1_table_index tb g'" "get_l2_table_index tb g = get_l2_table_index tb g'"
    using layout_index [OF assms(1)] assms(2) by (simp_all add: word_unat_eq_iff)
  then show "slot_of tb g = slot_of tb g'" "get_l1_table_entry tb g = get_l1_table_entry tb g'"
    by (simp_all add: slot_of_def get_l1_table_entry_def)
qed

section \<open>The virtual disk\<close>

definition guest_map :: "qcow_header \<Rightarrow> qcow2_table \<Rightarrow> (u64 \<times> nat \<Rightarrow> u64) \<Rightarrow> u64 \<Rightarrow> u64 option" where
  "guest_map h tb A g =
     (if fst (slot_of tb g) = 0 \<or> is_read_zero (get_cluster_type (A (slot_of tb g))) then None
      else Some ((A (slot_of tb g) AND L2_TABLE_OFFSET_MASK) + offset_into_cluster h g))"

definition virtual_byte :: "qcow_header \<Rightarrow> qcow2_table \<Rightarrow> (u64 \<times> nat \<Rightarrow> u64) \<Rightarrow> memory \<Rightarrow> u64 \<Rightarrow> u8" where
  "virtual_byte h tb A d g = (case guest_map h tb A g of None \<Rightarrow> 0 | Some a \<Rightarrow> d a)"

definition read_inv :: "nat \<Rightarrow> qcow_header \<Rightarrow> qcow2_table \<Rightarrow> (u64 \<times> nat \<Rightarrow> u64) \<Rightarrow> l2_state \<Rightarrow> bool" where
  "read_inv n h tb A s \<longleftrightarrow> image_layout n h tb \<and> l2_coh (2 ^ n) s \<and> shows_tables (2 ^ n) (l2_byte s) A \<and> (\<exists>c. ls_table s = tb\<lparr>qt_cache := c\<rparr>)"

lemma slot_cache [simp]: "slot_of (tb\<lparr>qt_cache := c\<rparr>) = slot_of tb"
  by (simp add: slot_of_def get_l1_table_entry_def get_l1_table_index_def get_l2_table_index_def fun_eq_iff Let_def)

lemma get_l2_entry_inv:
  assumes i: "read_inv n h tb A s" and ord: "\<And>m. set (ord m) = set m" and run: "get_l2_entry io ord h g s = (Inr v, s')"
  shows "v = A (slot_of tb g) \<and> read_inv n h tb A s'"
proof -
  obtain c where c: "ls_table s = tb\<lparr>qt_cache := c\<rparr>" using i by (auto simp: read_inv_def)
  have g: "geometry (2 ^ n) h (ls_table s)" using i layout_geometry [of n h "ls_table s"] by (simp add: read_inv_def c)
  have "l2_step io ord h (ReadEntry g) s = (Inr (Some v), s')" using run by simp
  from l2_step_refines [OF g _ ord _ this, of A] i show ?thesis by (auto simp: read_inv_def c same_l1_def)
qed

section \<open>Runs of clusters\<close>

text \<open>The clusters from \<open>begin\<close> on that have one type and follow each other in the file.\<close>

definition run_of :: "qcow_header \<Rightarrow> qcow2_table \<Rightarrow> (u64 \<times> nat \<Rightarrow> u64) \<Rightarrow> u64 \<Rightarrow> nat \<Rightarrow> u64 \<Rightarrow> qcow2_cluster_type \<Rightarrow> bool" where
  "run_of h tb A begin k start t \<longleftrightarrow> (\<forall>j < k. get_cluster_type (A (slot_of tb (begin + of_nat j * cluster_size h))) = t \<and>
     A (slot_of tb (begin + of_nat j * cluster_size h)) AND L2_TABLE_OFFSET_MASK = start + of_nat j * cluster_size h)"

lemma continuous_loop_run:
  assumes "read_inv n h tb A s" and ord: "\<And>m. set (ord m) = set m" and "unat cnt + k < 2 ^ 64" and "run_of h tb A begin (unat cnt) start t"
    and "continuous_loop io ord h k begin cnt start t s = (Inr (t', start', cnt'), s')"
  shows "read_inv n h tb A s' \<and> run_of h tb A begin (unat cnt') start' t' \<and> unat cnt \<le> unat cnt' \<and> unat cnt' \<le> unat cnt + k \<and>
    (cnt = 0 \<and> 0 < k \<longrightarrow> 0 < unat cnt')"
  using assms(1,3-5)
proof (induction k arbitrary: cnt start t s)
  case (Suc k)
  let ?g = "begin + cnt * cluster_size h"
  obtain v s1 where e: "get_l2_entry io ord h ?g s = (Inr v, s1)" using Suc.prems(4) by (auto simp: Let_def split: prod.splits sum.splits)
  have v: "v = A (slot_of tb ?g)" "read_inv n h tb A s1" using get_l2_entry_inv [OF Suc.prems(1) ord e] by auto
  have c1: "unat (cnt + 1) = unat cnt + 1" using Suc.prems(2) by (simp add: unat_add_eq)
  have nc: "of_nat (unat cnt) = cnt" by simp
  have step: "read_inv n h tb A s' \<and> run_of h tb A begin (unat cnt') start' t' \<and> unat cnt \<le> unat cnt' \<and> unat cnt' \<le> unat cnt + Suc k \<and> 0 < unat cnt'"
    if "run_of h tb A begin (unat (cnt + 1)) x y" "continuous_loop io ord h k begin (cnt + 1) x y s1 = (Inr (t', start', cnt'), s')" for x y
    using Suc.IH [OF v(2) _ that] Suc.prems(2) c1 by simp
  show ?case
  proof (cases "cnt = 0")
    case True
    then have "run_of h tb A begin (unat (cnt + 1)) (v AND L2_TABLE_OFFSET_MASK) (get_cluster_type v)" using v(1) by (simp add: run_of_def)
    from step [OF this] show ?thesis using Suc.prems(4) e True by (simp add: Let_def)
  next
    case False
    show ?thesis
    proof (cases "v AND L2_TABLE_OFFSET_MASK \<noteq> start + cnt * cluster_size h \<or> get_cluster_type v \<noteq> t")
      case True
      then have "t' = t" "start' = start" "cnt' = cnt" "s' = s1" using Suc.prems(4) e False by (auto simp: Let_def)
      then show ?thesis using v(2) Suc.prems(3) False by (simp add: word_neq_0_conv word_less_nat_alt)
    next
      case r: False
      then have "run_of h tb A begin (unat (cnt + 1)) start t"
        using Suc.prems(3) v(1) nc unfolding run_of_def c1 by (metis less_Suc_eq Suc_eq_plus1)
      from step [OF this] show ?thesis using Suc.prems(4) e False r by (simp add: Let_def)
    qed
  qed
qed (auto simp: run_of_def)

lemma layout_into_of_nat:
  assumes "image_layout n h tb" and "unat x = k"
  shows "offset_into_cluster h x = of_nat (k mod 2 ^ n)"
proof -
  have "of_nat (unat (offset_into_cluster h x)) = (of_nat (k mod 2 ^ n) :: u64)" using layout_into [OF assms(1), of x] assms(2) by simp
  then show ?thesis by simp
qed

lemma run_byte:
  assumes l: "image_layout n h tb" and r: "run_of h tb A begin k start t" and b: "unat begin = unat g div 2 ^ n * 2 ^ n"
    and x: "unat g mod 2 ^ n + x < k * 2 ^ n" "unat g + x < 2 ^ 64"
  shows "get_cluster_type (A (slot_of tb (g + of_nat x))) = t"
    "(A (slot_of tb (g + of_nat x)) AND L2_TABLE_OFFSET_MASK) + offset_into_cluster h (g + of_nat x) = start + offset_into_cluster h g + of_nat x"
proof -
  define r0 where "r0 = unat g mod 2 ^ n"
  define q where "q = unat g div 2 ^ n"
  define j where "j = (r0 + x) div 2 ^ n"
  have cs: "(0 :: nat) < 2 ^ n" by simp
  have g: "unat g = q * 2 ^ n + r0" unfolding r0_def q_def by (rule div_mult_mod_eq [symmetric])
  have ox: "r0 + x = j * 2 ^ n + (r0 + x) mod 2 ^ n" unfolding j_def by (rule div_mult_mod_eq [symmetric])
  have jk: "j < k" using x(1) by (simp add: j_def r0_def less_mult_imp_div_less)
  have gx: "unat (g + of_nat x) = q * 2 ^ n + (r0 + x)" using x(2) g unat_lt_64 [of g] by (simp add: unat_add_eq unat_of_nat take_bit_nat_eq_self)
  have "q * 2 ^ n + j * 2 ^ n \<le> q * 2 ^ n + (r0 + x)" using ox by linarith
  then have lim: "q * 2 ^ n + j * 2 ^ n < 2 ^ 64" using x(2) g by linarith
  have "begin + of_nat j * cluster_size h = of_nat (q * 2 ^ n + j * 2 ^ n)"
  proof -
    have "begin = of_nat (unat begin)" by simp
    also have "\<dots> = of_nat (q * 2 ^ n)" using b by (simp only: q_def)
    finally show ?thesis using l by (simp add: image_layout_def)
  qed
  then have "unat (begin + of_nat j * cluster_size h) = q * 2 ^ n + j * 2 ^ n" using unat_nat64 [OF lim] by (simp only:)
  then have "unat (g + of_nat x) div 2 ^ n = unat (begin + of_nat j * cluster_size h) div 2 ^ n" using gx by (simp add: j_def flip: distrib_right)
  then have s: "slot_of tb (g + of_nat x) = slot_of tb (begin + of_nat j * cluster_size h)" by (rule layout_slot(1) [OF l])
  show "get_cluster_type (A (slot_of tb (g + of_nat x))) = t" using r jk unfolding run_of_def s by blast
  have a: "A (slot_of tb (g + of_nat x)) AND L2_TABLE_OFFSET_MASK = start + of_nat j * cluster_size h" using r jk unfolding run_of_def s by blast
  have "offset_into_cluster h (g + of_nat x) = of_nat ((r0 + x) mod 2 ^ n)" using layout_into_of_nat [OF l gx] by simp
  moreover have "offset_into_cluster h g = of_nat r0" using layout_into_of_nat [OF l g] by (simp add: r0_def)
  moreover have "of_nat j * cluster_size h + of_nat ((r0 + x) mod 2 ^ n) = (of_nat (r0 + x) :: u64)"
    using l by (subst (2) ox) (simp add: image_layout_def)
  ultimately show "(A (slot_of tb (g + of_nat x)) AND L2_TABLE_OFFSET_MASK) + offset_into_cluster h (g + of_nat x) = start + offset_into_cluster h g + of_nat x"
    unfolding a by (simp add: add.assoc)
qed

lemma continuous_address:
  assumes inv: "read_inv n h tb A s" and ord: "\<And>m. set (ord m) = set m"
    and run: "get_continuous_address io ord h g len s = (Inr (t, a, b), s')" and lim: "unat g + unat len < 2 ^ 64" "0 < unat len"
  shows "read_inv n h tb A s' \<and> 0 < unat b \<and> unat b \<le> unat len \<and>
    (\<forall>x < unat b. get_cluster_type (A (slot_of tb (g + of_nat x))) = t \<and>
       (A (slot_of tb (g + of_nat x)) AND L2_TABLE_OFFSET_MASK) + offset_into_cluster h (g + of_nat x) = a + of_nat x)"
proof -
  have l: "image_layout n h tb" using inv by (simp add: read_inv_def)
  note cs = layout_size [OF l]
  obtain bg e where be: "rounded (round_down g (cluster_size h)) = Inr bg" "rounded (round_up (g + len) (cluster_size h)) = Inr e"
    and nz: "(e - bg) div cluster_size h \<noteq> 0"
    using run by (auto simp: get_continuous_address_def and_then_Inr Let_def split: sum.splits if_splits prod.splits)
  obtain start cnt where lp: "continuous_loop io ord h (unat ((e - bg) div cluster_size h)) bg 0 0 Unallocated s = (Inr (t, start, cnt), s')"
    and res: "a = start + offset_into_cluster h g" "b = min len (cnt * cluster_size h - offset_into_cluster h g)"
    using run be nz by (auto simp: get_continuous_address_def Let_def split: sum.splits prod.splits)
  have c0: "cluster_size h \<noteq> 0" using cs by auto
  have "bg = of_nat (unat g - unat g mod 2 ^ n)" using be(1) round_down_eq [OF c0, of g] cs by (simp add: rounded_def)
  then have "bg = of_nat (unat g div 2 ^ n * 2 ^ n)" by (simp only: minus_mod_eq_div_mult)
  moreover have "unat g div 2 ^ n * 2 ^ n < 2 ^ 64"
    using le_less_trans [OF div_times_less_eq_dividend unat_lt_64, of g "2 ^ n"] by simp
  ultimately have b: "unat bg = unat g div 2 ^ n * 2 ^ n" by (simp only: unat_nat64)
  have "run_of h tb A bg (unat (0 :: u64)) 0 Unallocated" by (simp add: run_of_def)
  note k = continuous_loop_run [OF inv ord _ this lp]
  have k: "read_inv n h tb A s'" "run_of h tb A bg (unat cnt) start t" "unat cnt \<le> unat ((e - bg) div cluster_size h)" "0 < unat cnt"
    using k unat_lt_64 nz by (auto simp: unat_gt_0)
  have "unat cnt * 2 ^ n \<le> unat (e - bg) div 2 ^ n * 2 ^ n" using k(3) cs by (intro mult_le_mono1) (simp add: unat_div)
  then have "unat cnt * 2 ^ n \<le> unat (e - bg)" by (rule le_trans [OF _ div_times_less_eq_dividend])
  then have c64: "unat cnt * 2 ^ n < 2 ^ 64" by (rule le_less_trans) (use unat_lt_64 [of "e - bg"] in simp)
  then have cc: "unat (cnt * cluster_size h) = unat cnt * 2 ^ n" using cs unat_mult_lem [of cnt "cluster_size h"] by simp
  have oi: "unat (offset_into_cluster h g) = unat g mod 2 ^ n" by (rule layout_into [OF l])
  have "(2 :: nat) ^ n \<le> unat cnt * 2 ^ n" using k(4) by simp
  then have lt: "unat g mod 2 ^ n < unat cnt * 2 ^ n" by (rule less_le_trans [OF mod_less_divisor, rotated]) simp
  then have sz: "unat (cnt * cluster_size h - offset_into_cluster h g) = unat cnt * 2 ^ n - unat g mod 2 ^ n" using cc oi by (simp add: unat_sub_eq)
  then have bb: "unat b = min (unat len) (unat cnt * 2 ^ n - unat g mod 2 ^ n)" by (simp add: res(2) word_ge_min)
  have "get_cluster_type (A (slot_of tb (g + of_nat x))) = t \<and>
       (A (slot_of tb (g + of_nat x)) AND L2_TABLE_OFFSET_MASK) + offset_into_cluster h (g + of_nat x) = a + of_nat x" if "x < unat b" for x
  proof -
    have "x < unat len" "x < unat cnt * 2 ^ n - unat g mod 2 ^ n" using that bb by simp_all
    then have "unat g mod 2 ^ n + x < unat cnt * 2 ^ n" "unat g + x < 2 ^ 64" using lim(1) by linarith+
    from run_byte [OF l k(2) b this] show ?thesis by (simp add: res(1))
  qed
  then show ?thesis using k(1) bb lt lim(2) by simp
qed

text \<open>A piece is never empty and is what the tables say of each of its bytes.\<close>

fun piece_ok :: "qcow_header \<Rightarrow> qcow2_table \<Rightarrow> (u64 \<times> nat \<Rightarrow> u64) \<Rightarrow> u64 \<Rightarrow> u64 \<Rightarrow> host_range \<Rightarrow> bool" where
  "piece_ok h tb A g len (DataNotInit b) \<longleftrightarrow> 0 < unat b \<and> unat b \<le> unat len \<and> (\<forall>x < unat b. guest_map h tb A (g + of_nat x) = None)"
| "piece_ok h tb A g len (DataAddress a b) \<longleftrightarrow> 0 < unat b \<and> unat b \<le> unat len \<and> (\<forall>x < unat b. guest_map h tb A (g + of_nat x) = Some (a + of_nat x))"

text \<open>The part of a request that lies in the L2 table of its first byte.\<close>

lemma max_remain:
  assumes l: "image_layout n h tb"
  shows "unat (get_l2_table_max_remain_size tb g (offset_into_cluster h g)) =
    (2 ^ (n - 3) - unat g div 2 ^ n mod 2 ^ (n - 3)) * 2 ^ n - unat g mod 2 ^ n"
proof -
  have n: "9 \<le> n" "n \<le> 21" "qt_l2_size tb = 2 ^ (n - 3)" "qt_cluster_size tb = 2 ^ n" using l by (auto simp: image_layout_def)
  note i = layout_index(2) [OF l, of g]
  have p: "unat (2 ^ (n - 3) :: u64) = 2 ^ (n - 3)" "unat (2 ^ n :: u64) = 2 ^ n" using n by (simp_all add: unat_pow2)
  let ?k = "2 ^ (n - 3) - unat g div 2 ^ n mod 2 ^ (n - 3)"
  have lt: "unat g div 2 ^ n mod 2 ^ (n - 3) < 2 ^ (n - 3)" by simp
  have d: "unat (qt_l2_size tb - get_l2_table_index tb g) = ?k" using i p n lt by (simp add: unat_sub_eq)
  have "?k * 2 ^ n \<le> 2 ^ (n - 3) * 2 ^ n" by (intro mult_le_mono1) simp
  also have "\<dots> = (2 :: nat) ^ (n - 3 + n)" by (simp only: power_add)
  also have "\<dots> < 2 ^ 64" using n by (intro power_strict_increasing) simp_all
  finally have "unat ((qt_l2_size tb - get_l2_table_index tb g) * qt_cluster_size tb) = ?k * 2 ^ n"
    using d p n unat_mult_lem [of "qt_l2_size tb - get_l2_table_index tb g" "qt_cluster_size tb"] by simp
  moreover have "unat g mod 2 ^ n \<le> ?k * 2 ^ n"
  proof -
    have "0 < ?k" using lt by (simp only: zero_less_diff)
    then have a: "(2 :: nat) ^ n \<le> ?k * 2 ^ n" using mult_le_mono1 [of 1 ?k "2 ^ n"] by linarith
    show ?thesis by (rule order_trans [OF less_imp_le [OF mod_less_divisor] a]) simp
  qed
  ultimately show ?thesis using layout_into [OF l, of g] by (simp add: get_l2_table_max_remain_size_def unat_sub_eq)
qed

lemma div_same:
  assumes "y < m - q mod m"
  shows "(q + y) div m = q div (m :: nat)"
proof -
  have e: "q + y = q div m * m + (q mod m + y)" by (simp only: add.assoc [symmetric] div_mult_mod_eq)
  have "(q div m * m + (q mod m + y)) div m = q div m + (q mod m + y) div m" using assms by (intro div_mult_self3) simp
  also have "(q mod m + y) div m = 0" using assms by simp
  finally show ?thesis by (simp only: e add_0_right)
qed

lemma same_l2_table:
  assumes l: "image_layout n h tb" and x: "x < unat (get_l2_table_max_remain_size tb g (offset_into_cluster h g))" "unat g + x < 2 ^ 64"
  shows "get_l1_table_entry tb (g + of_nat x) = get_l1_table_entry tb g"
proof -
  define q where "q = unat g div 2 ^ n"
  define m where "m = (2 :: nat) ^ (n - 3)"
  have m: "0 < m" by (simp add: m_def)
  have b: "unat g mod 2 ^ n + x < (m - q mod m) * 2 ^ n" using x(1) max_remain [OF l] by (simp add: m_def q_def)
  have gx: "unat (g + of_nat x) = unat g + x" using x(2) unat_lt_64 [of g] by (simp add: unat_add_eq unat_nat64)
  have e: "unat g + x = q * 2 ^ n + (unat g mod 2 ^ n + x)" unfolding q_def by (simp only: add.assoc [symmetric] div_mult_mod_eq)
  have d: "(unat g + x) div 2 ^ n = q + (unat g mod 2 ^ n + x) div 2 ^ n" unfolding e by simp
  have "(unat g mod 2 ^ n + x) div 2 ^ n < m - q mod m" using b by (rule less_mult_imp_div_less)
  then have "(q + (unat g mod 2 ^ n + x) div 2 ^ n) div m = q div m" by (rule div_same)
  then have "get_l1_table_index tb (g + of_nat x) = get_l1_table_index tb g"
    using layout_index(1) [OF l] gx d by (simp add: word_unat_eq_iff m_def q_def)
  then show "get_l1_table_entry tb (g + of_nat x) = get_l1_table_entry tb g" by (simp add: get_l1_table_entry_def)
qed

lemma max_remain_pos:
  assumes l: "image_layout n h tb"
  shows "0 < unat (get_l2_table_max_remain_size tb g (offset_into_cluster h g))"
proof -
  let ?k = "2 ^ (n - 3) - unat g div 2 ^ n mod 2 ^ (n - 3) :: nat"
  have "unat g div 2 ^ n mod 2 ^ (n - 3) < 2 ^ (n - 3)" by simp
  then have "0 < ?k" by (simp only: zero_less_diff)
  then have "(2 :: nat) ^ n \<le> ?k * 2 ^ n" using mult_le_mono1 [of 1 ?k "2 ^ n"] by linarith
  then have "unat g mod 2 ^ n < ?k * 2 ^ n" by (rule less_le_trans [OF mod_less_divisor, rotated]) simp
  then show ?thesis unfolding max_remain [OF l] by (simp only: zero_less_diff)
qed

lemma remain_cache [simp]: "get_l2_table_max_remain_size (tb\<lparr>qt_cache := c\<rparr>) g x = get_l2_table_max_remain_size tb g x"
  by (simp add: get_l2_table_max_remain_size_def get_l2_table_index_def)

lemma l1_cache [simp]: "get_l1_table_entry (tb\<lparr>qt_cache := c\<rparr>) g = get_l1_table_entry tb g"
  by (simp add: get_l1_table_entry_def get_l1_table_index_def Let_def)

lemma host_offset_piece:
  assumes inv: "read_inv n h tb A s" and ord: "\<And>m. set (ord m) = set m"
    and run: "host_offset_for_read io ord h g len s = (Inr r, s')" and lim: "unat g + unat len < 2 ^ 64" "0 < unat len"
  shows "read_inv n h tb A s' \<and> piece_ok h tb A g len r"
proof -
  have l: "image_layout n h tb" using inv by (simp add: read_inv_def)
  obtain c where c: "ls_table s = tb\<lparr>qt_cache := c\<rparr>" using inv by (auto simp: read_inv_def)
  define sz where "sz = min len (get_l2_table_max_remain_size tb g (offset_into_cluster h g))"
  have sz: "0 < unat sz" "unat sz \<le> unat len" using lim(2) max_remain_pos [OF l, of g] by (simp_all add: sz_def word_ge_min)
  obtain e where e: "get_l1_table_entry tb g = Inr e" using run by (auto simp: host_offset_for_read_def c Let_def split: sum.splits)
  have same: "fst (slot_of tb (g + of_nat x)) = e AND L1_TABLE_OFFSET_MASK" if "x < unat sz" for x
    using same_l2_table [OF l, of x g] that sz(2) lim(1) e by (simp add: sz_def word_ge_min slot_of_def)
  show ?thesis
  proof (cases "e AND L1_TABLE_OFFSET_MASK = 0")
    case True
    then have "r = DataNotInit sz" "s' = s" using run e by (simp_all add: host_offset_for_read_def c Let_def sz_def)
    then show ?thesis using inv sz same True by (simp add: guest_map_def)
  next
    case False
    obtain t a b where ca: "get_continuous_address io ord h g sz s = (Inr (t, a, b), s')"
      and r: "r = (if is_read_zero t then DataNotInit b else DataAddress a b)"
      using run e False by (auto simp: host_offset_for_read_def c Let_def sz_def split: sum.splits prod.splits)
    have "unat g + unat sz < 2 ^ 64" using sz(2) lim(1) by linarith
    note k = continuous_address [OF inv ord ca this sz(1)]
    then show ?thesis using r same False sz by (auto simp: guest_map_def)
  qed
qed

section \<open>Buffers\<close>

lemma iov_bytes_Cons: "iov_bytes (v # vs) = map (\<lambda>i. iov_base v + of_nat i) [0..<unat (iov_len v)] @ iov_bytes vs"
  by (simp add: iov_bytes_def)

lemma iov_bytes_Nil [simp]: "iov_bytes [] = []"
  by (simp add: iov_bytes_def)

lemma iovecs_split_zero: "iovecs_split vs 0 = ([], vs)"
  by (induction vs) simp_all

lemma iovecs_split_bytes:
  assumes "iovecs_split vs sz = (b, e)"
  shows "iov_bytes b = take (unat sz) (iov_bytes vs) \<and> iov_bytes e = drop (unat sz) (iov_bytes vs)"
  using assms
proof (induction vs sz arbitrary: b e rule: iovecs_split.induct)
  case (2 v vs sz)
  consider (zero) "sz = 0" | (cut) "sz \<noteq> 0" "iov_len v > sz" | (whole) "sz \<noteq> 0" "\<not> iov_len v > sz" by blast
  then show ?case
  proof cases
    case zero
    then show ?thesis using "2.prems" by (simp add: iovecs_split_zero)
  next
    case cut
    have lt: "unat sz < unat (iov_len v)" using cut(2) by (simp add: word_less_nat_alt)
    then have "unat (iov_len v - sz) = unat (iov_len v) - unat sz" by (simp add: unat_sub_eq)
    moreover have "take (unat sz) [0..<unat (iov_len v)] = [0..<unat sz]" using lt by simp
    moreover have "map (\<lambda>i. iov_base v + sz + of_nat i) [0..<unat (iov_len v) - unat sz] = map (\<lambda>i. iov_base v + of_nat i) (drop (unat sz) [0..<unat (iov_len v)])"
      by (rule nth_equalityI) (simp_all add: add.assoc)
    ultimately show ?thesis using "2.prems" cut lt by (auto simp: iovecs_split_zero iov_bytes_Cons take_map drop_map)
  next
    case whole
    obtain b1 e1 where r: "iovecs_split vs (sz - iov_len v) = (b1, e1)" by (cases "iovecs_split vs (sz - iov_len v)")
    have le: "unat (iov_len v) \<le> unat sz" using whole(2) by (simp add: word_less_nat_alt)
    then have "unat (sz - iov_len v) = unat sz - unat (iov_len v)" by (simp add: unat_sub_eq)
    then show ?thesis using "2.prems" "2.IH"(3) [OF whole] r whole le by (auto simp: iov_bytes_Cons)
  qed
qed simp

lemma zero_iov_mem: "a \<in> set (iov_bytes [v]) \<longleftrightarrow> unat (a - iov_base v) < unat (iov_len v)"
proof
  assume "a \<in> set (iov_bytes [v])"
  then obtain i where i: "i < unat (iov_len v)" "a = iov_base v + of_nat i" by auto
  then have "unat (of_nat i :: u64) = i" using less_trans [OF i(1) unat_lt_64] by (intro unat_nat64) simp
  then show "unat (a - iov_base v) < unat (iov_len v)" using i by simp
next
  assume "unat (a - iov_base v) < unat (iov_len v)"
  then show "a \<in> set (iov_bytes [v])" by (auto intro!: image_eqI [of _ _ "unat (a - iov_base v)"])
qed

lemma iovec_write_zero_mem: "iovec_write_zero vs m a = (if a \<in> set (iov_bytes vs) then 0 else m a)"
proof (induction vs arbitrary: m)
  case (Cons v vs)
  have "iovec_write_zero (v # vs) m = iovec_write_zero vs (store m (iov_base v) (replicate (unat (iov_len v)) 0))" by (simp add: iovec_write_zero_def)
  moreover have "store m (iov_base v) (replicate (unat (iov_len v)) 0) a = (if a \<in> set (iov_bytes [v]) then 0 else m a)"
    unfolding zero_iov_mem by (simp add: store_def)
  moreover have "set (iov_bytes (v # vs)) = set (iov_bytes [v]) \<union> set (iov_bytes vs)" by (simp add: iov_bytes_Cons)
  ultimately show ?case using Cons.IH by simp
qed (simp add: iovec_write_zero_def)

text \<open>What a request to the file does once it is carried out: the buffers are filled in order.\<close>

definition fetch :: "memory \<Rightarrow> combine_request \<Rightarrow> memory \<Rightarrow> memory" where
  "fetch d r m = (\<lambda>a. case map_of (zip (iov_bytes (cr_iov r)) (map (\<lambda>i. d (cr_offset r + of_nat i)) [0..<unat (cr_nbytes r)])) a of
     Some b \<Rightarrow> b | None \<Rightarrow> m a)"

lemma fetch_nth:
  assumes "distinct (iov_bytes (cr_iov r))" and "x < length (iov_bytes (cr_iov r))" and "length (iov_bytes (cr_iov r)) = unat (cr_nbytes r)"
  shows "fetch d r m (iov_bytes (cr_iov r) ! x) = d (cr_offset r + of_nat x)"
  using assms by (simp add: fetch_def map_of_zip_nth)

lemma fetch_other: "a \<notin> set (iov_bytes (cr_iov r)) \<Longrightarrow> fetch d r m a = m a"
  unfolding fetch_def by (auto split: option.split dest: map_of_SomeD set_zip_leftD)

definition req_bytes :: "combine_request list \<Rightarrow> u64 set" where
  "req_bytes rs = (\<Union>r \<in> set rs. set (iov_bytes (cr_iov r)))"

lemma fetches_other: "a \<notin> req_bytes rs \<Longrightarrow> fold (fetch d) rs m a = m a"
  by (induction rs arbitrary: m) (simp_all add: req_bytes_def fetch_other)

lemma fetches_cong: "m1 a = m2 a \<Longrightarrow> fold (fetch d) rs m1 a = fold (fetch d) rs m2 a"
proof (induction rs arbitrary: m1 m2)
  case (Cons r rs)
  then have "fetch d r m1 a = fetch d r m2 a" by (simp add: fetch_def split: option.split)
  then show ?case using Cons.IH [of "fetch d r m1" "fetch d r m2"] by simp
qed simp

lemma read_loop_bytes:
  assumes "read_inv n h tb A s" and ord: "\<And>m. set (ord m) = set m" and lim: "unat off + unat nbytes < 2 ^ 64"
    and "read_loop k io ord h off nbytes copied left m s = Some (Inr rs, m', s')"
    and "distinct (iov_bytes left)" and "length (iov_bytes left) + unat copied = unat nbytes"
  shows "read_inv n h tb A s' \<and> req_bytes rs \<subseteq> set (iov_bytes left) \<and> (\<forall>a. a \<notin> set (iov_bytes left) \<longrightarrow> m' a = m a) \<and>
    (\<forall>x < length (iov_bytes left). fold (fetch d) rs m' (iov_bytes left ! x) = virtual_byte h tb A d (off + copied + of_nat x))"
  using assms(1,4-6)
proof (induction k arbitrary: copied left m s rs)
  case (Suc k)
  show ?case
  proof (cases "copied < nbytes")
    case False
    then have "\<not> unat copied < unat nbytes" by (simp add: word_less_nat_alt)
    then have "length (iov_bytes left) = 0" using Suc.prems(4) by linarith
    then show ?thesis using Suc.prems(1,2) False by (auto simp: req_bytes_def)
  next
    case True
    let ?g = "off + copied" and ?len = "nbytes - copied" and ?B = "iov_bytes left"
    have c: "unat copied < unat nbytes" using True by (simp add: word_less_nat_alt)
    then have len: "unat ?len = length ?B" using Suc.prems(4) by (simp add: unat_sub_eq)
    have "unat off + unat copied < 2 ^ 64" using c lim by linarith
    then have "unat ?g = unat off + unat copied" by (intro unat_add_eq) simp
    moreover have "0 < length ?B" using c Suc.prems(4) by linarith
    ultimately have g: "unat ?g + unat ?len < 2 ^ 64" "0 < unat ?len" using lim len Suc.prems(4) by (linarith, simp)
    obtain r s1 where hr: "host_offset_for_read io ord h ?g ?len s = (Inr r, s1)"
      using Suc.prems(2) True by (auto split: prod.splits sum.splits)
    have p: "read_inv n h tb A s1" "piece_ok h tb A ?g ?len r" using host_offset_piece [OF Suc.prems(1) ord hr g] by auto
    define cnt where "cnt = (case r of DataAddress _ b \<Rightarrow> b | DataNotInit b \<Rightarrow> b)"
    have cnt: "unat cnt \<le> length ?B" using p(2) len by (cases r) (auto simp: cnt_def)
    obtain b e where be: "iovecs_split left cnt = (b, e)" by (cases "iovecs_split left cnt")
    note sp = iovecs_split_bytes [OF be]
    have "unat copied + unat cnt \<le> unat nbytes" using cnt Suc.prems(4) by linarith
    then have cc: "unat (copied + cnt) = unat copied + unat cnt" using le_less_trans [OF _ unat_lt_64 [of nbytes]] by (intro unat_add_eq) simp
    have B: "?B = iov_bytes b @ iov_bytes e" using sp by simp
    have de: "distinct (iov_bytes b)" "distinct (iov_bytes e)" "set (iov_bytes b) \<inter> set (iov_bytes e) = {}" using Suc.prems(3) B by auto
    have lb: "length (iov_bytes b) = unat cnt" "length (iov_bytes e) + unat (copied + cnt) = unat nbytes" using sp cnt cc Suc.prems(4) by simp_all
    have shift: "off + copied + of_nat x = off + (copied + cnt) + of_nat (x - unat cnt)" if "unat cnt \<le> x" for x
    proof -
      have "cnt + of_nat (x - unat cnt) = of_nat (unat cnt + (x - unat cnt))" by simp
      then show ?thesis using that by (simp add: add.assoc)
    qed
    have nth: "?B ! x = (if x < unat cnt then iov_bytes b ! x else iov_bytes e ! (x - unat cnt))" for x by (simp add: B nth_append lb(1))
    have front: "iov_bytes b ! x \<in> set (iov_bytes b)" "iov_bytes b ! x \<notin> set (iov_bytes e)" if "x < unat cnt" for x
    proof -
      show "iov_bytes b ! x \<in> set (iov_bytes b)" using that lb(1) by simp
      then show "iov_bytes b ! x \<notin> set (iov_bytes e)" using de(3) by blast
    qed
    have rear: "iov_bytes e ! (x - unat cnt) \<in> set (iov_bytes e)" "iov_bytes e ! (x - unat cnt) \<notin> set (iov_bytes b)"
      "x - unat cnt < length (iov_bytes e)" if "\<not> x < unat cnt" "x < length ?B" for x
    proof -
      show l: "x - unat cnt < length (iov_bytes e)" using that B lb(1) by simp
      then show "iov_bytes e ! (x - unat cnt) \<in> set (iov_bytes e)" by simp
      then show "iov_bytes e ! (x - unat cnt) \<notin> set (iov_bytes b)" using de(3) by blast
    qed
    show ?thesis
    proof (cases r)
      case (DataAddress a b0)
      let ?q = "\<lparr>cr_iov = b, cr_offset = a, cr_nbytes = cnt\<rparr>"
      have b0: "b0 = cnt" using DataAddress by (simp add: cnt_def)
      obtain rs1 where lp: "read_loop k io ord h off nbytes (copied + cnt) e m s1 = Some (Inr rs1, m', s')" and rs: "rs = ?q # rs1"
        using Suc.prems(2) True hr DataAddress be b0 by (auto simp: and_then_Inr)
      note ih = Suc.IH [OF p(1) lp de(2) lb(2)]
      have "fold (fetch d) rs m' (?B ! x) = virtual_byte h tb A d (?g + of_nat x)" if x: "x < length ?B" for x
      proof (cases "x < unat cnt")
        case True
        have "fold (fetch d) rs1 (fetch d ?q m') (iov_bytes b ! x) = fetch d ?q m' (iov_bytes b ! x)"
          using ih front(2) [OF True] by (intro fetches_other) blast
        also have "\<dots> = d (a + of_nat x)" using fetch_nth [of ?q x d m'] de(1) lb(1) True by simp
        finally show ?thesis using True p(2) DataAddress b0 by (simp add: rs nth virtual_byte_def)
      next
        case False
        have "fold (fetch d) rs1 (fetch d ?q m') (iov_bytes e ! (x - unat cnt)) = fold (fetch d) rs1 m' (iov_bytes e ! (x - unat cnt))"
          using rear(2) [OF False x] by (intro fetches_cong fetch_other) simp
        then show ?thesis using ih rear(3) [OF False x] False shift [of x] by (simp add: rs nth add.assoc)
      qed
      then show ?thesis using ih B by (auto simp: rs req_bytes_def)
    next
      case (DataNotInit b0)
      have b0: "b0 = cnt" using DataNotInit by (simp add: cnt_def)
      have lp: "read_loop k io ord h off nbytes (copied + cnt) e (iovec_write_zero b m) s1 = Some (Inr rs, m', s')"
        using Suc.prems(2) True hr DataNotInit be b0 by simp
      note ih = Suc.IH [OF p(1) lp de(2) lb(2)]
      have "fold (fetch d) rs m' (?B ! x) = virtual_byte h tb A d (?g + of_nat x)" if x: "x < length ?B" for x
      proof (cases "x < unat cnt")
        case True
        have "fold (fetch d) rs m' (iov_bytes b ! x) = m' (iov_bytes b ! x)" using ih front(2) [OF True] by (intro fetches_other) blast
        also have "\<dots> = 0" using ih front [OF True] by (simp add: iovec_write_zero_mem)
        finally show ?thesis using True p(2) DataNotInit b0 by (simp add: nth virtual_byte_def)
      next
        case False
        then show ?thesis using ih rear(3) [OF False x] shift [of x] by (simp add: nth add.assoc)
      qed
      then show ?thesis using ih B by (auto simp: iovec_write_zero_mem)
    qed
  qed
qed simp

lemma iov_size_bytes: "length (iov_bytes vs) < 2 ^ 64 \<Longrightarrow> unat (get_iov_size vs) = length (iov_bytes vs)"
proof -
  have "unat (fold (\<lambda>v sum. sum + iov_len v) vs x) = unat x + length (iov_bytes vs)" if "unat x + length (iov_bytes vs) < 2 ^ 64" for x
    using that
  proof (induction vs arbitrary: x)
    case (Cons v vs)
    have "unat (x + iov_len v) = unat x + unat (iov_len v)" using Cons.prems by (intro unat_add_eq) (simp add: iov_bytes_Cons)
    then show ?case using Cons by (simp add: iov_bytes_Cons)
  qed simp
  from this [of 0] show "length (iov_bytes vs) < 2 ^ 64 \<Longrightarrow> ?thesis" by (simp add: get_iov_size_def)
qed

lemma opened_read_inv:
  assumes h: "header_check h = Inr ()" and t: "open_tables io h sz d = Inr tb" and ord: "\<And>m. set (ord m) = set m"
    and run: "l2_run io ord h ps (opened tb ts d) = (Inr vs, s)"
  obtains n where "read_inv n h tb (snd (plain_run tb ps (file_entry d))) s"
proof -
  obtain n where l: "image_layout n h tb" using open_tables_layout [OF h t] .
  have "unat (cluster_size h) = 2 ^ n" by (rule layout_size [OF l])
  then show thesis using opened_run [OF h t ord run] l that [of n] by (auto simp: read_inv_def same_l1_def opened_def)
qed

section \<open>Reads that cannot fail\<close>

definition table_at :: "qcow_header \<Rightarrow> qcow2_table \<Rightarrow> u64 \<Rightarrow> bool" where
  "table_at h tb g \<longleftrightarrow> (\<exists>e. get_l1_table_entry tb g = Inr e \<and> is_aligned (cluster_size h) (e AND L1_TABLE_OFFSET_MASK) \<and> e AND L1_TABLE_OFFSET_MASK \<noteq> 0)"

lemma continuous_loop_ok:
  assumes "read_inv n h tb A s" and io: "io = (\<lambda>_ _. None)" and ord: "\<And>m. set (ord m) = set m" and "unat cnt + k < 2 ^ 64"
    and "\<And>j. unat cnt \<le> j \<Longrightarrow> j < unat cnt + k \<Longrightarrow> table_at h tb (bg + of_nat j * cluster_size h)"
  shows "\<exists>r s'. continuous_loop io ord h k bg cnt start t s = (Inr r, s')"
  using assms(1,4,5)
proof (induction k arbitrary: cnt start t s)
  case (Suc k)
  let ?g = "bg + cnt * cluster_size h"
  obtain c where c: "ls_table s = tb\<lparr>qt_cache := c\<rparr>" using Suc.prems(1) by (auto simp: read_inv_def)
  have g: "geometry (2 ^ n) h (ls_table s)" using Suc.prems(1) layout_geometry [of n h "ls_table s"] by (simp add: read_inv_def c)
  have coh: "l2_coh (2 ^ n) s" using Suc.prems(1) by (simp add: read_inv_def)
  obtain e where e: "get_l1_table_entry (ls_table s) ?g = Inr e" "is_aligned (cluster_size h) (e AND L1_TABLE_OFFSET_MASK)" "e AND L1_TABLE_OFFSET_MASK \<noteq> 0"
    using Suc.prems(3) [of "unat cnt"] by (auto simp: table_at_def c)
  obtain v s1 where v: "get_l2_entry io ord h ?g s = (Inr v, s1)" using get_l2_entry_ok [OF g coh io ord e] .
  have i1: "read_inv n h tb A s1" using get_l2_entry_inv [OF Suc.prems(1) ord v] by blast
  have c1: "unat (cnt + 1) = unat cnt + 1" using Suc.prems(2) by (simp add: unat_add_eq)
  have "\<exists>r s'. continuous_loop io ord h k bg (cnt + 1) x y s1 = (Inr r, s')" for x y
    using Suc.IH [OF i1, of "cnt + 1" x y] Suc.prems(2,3) c1 by simp
  then show ?case using v by (auto simp: Let_def)
qed simp

lemma cluster_table:
  assumes l: "image_layout n h tb" and t: "table_at h tb g" and b: "unat bg = unat g div 2 ^ n * 2 ^ n"
    and sz: "unat sz \<le> unat (get_l2_table_max_remain_size tb g (offset_into_cluster h g))" "unat g + unat sz < 2 ^ 64" "0 < unat sz"
    and j: "j * 2 ^ n < unat g mod 2 ^ n + unat sz"
  shows "table_at h tb (bg + of_nat j * cluster_size h)"
proof -
  define r0 where "r0 = unat g mod 2 ^ n"
  define x where "x = j * 2 ^ n - r0"
  have r0: "r0 < 2 ^ n" by (simp add: r0_def)
  have x: "x < unat sz" using j sz(3) by (simp add: x_def r0_def)
  have g: "unat g = unat g div 2 ^ n * 2 ^ n + r0" unfolding r0_def by (rule div_mult_mod_eq [symmetric])
  have gx: "unat (g + of_nat x) = unat g + x" using x sz(2) by (simp add: unat_add_eq unat_nat64)
  have "unat g div 2 ^ n * 2 ^ n + j * 2 ^ n < 2 ^ 64" using g j sz(2) r0_def by linarith
  moreover have "bg + of_nat j * cluster_size h = of_nat (unat g div 2 ^ n * 2 ^ n + j * 2 ^ n)"
  proof -
    have "bg = of_nat (unat bg)" by simp
    then show ?thesis using l by (simp add: b image_layout_def)
  qed
  ultimately have u: "unat (bg + of_nat j * cluster_size h) = unat g div 2 ^ n * 2 ^ n + j * 2 ^ n" by (simp only: unat_nat64)
  have "(unat g + x) div 2 ^ n = unat g div 2 ^ n + j"
  proof (cases "j = 0")
    case True
    then show ?thesis by (simp add: x_def)
  next
    case False
    then have "r0 \<le> j * 2 ^ n" using r0 mult_le_mono1 [of 1 j "2 ^ n"] by linarith
    then have "unat g + x = (unat g div 2 ^ n + j) * 2 ^ n" using g by (simp add: x_def add_mult_distrib)
    then show ?thesis by simp
  qed
  then have "get_l1_table_entry tb (bg + of_nat j * cluster_size h) = get_l1_table_entry tb (g + of_nat x)"
    using layout_slot(2) [OF l, of "bg + of_nat j * cluster_size h" "g + of_nat x"] u gx by (simp flip: add_mult_distrib)
  also have "\<dots> = get_l1_table_entry tb g" using x sz by (intro same_l2_table [OF l]) simp_all
  finally show ?thesis using t by (simp add: table_at_def)
qed

lemma rounded_up:
  assumes l: "image_layout n h tb" and x: "unat x \<le> 2 ^ 62"
  obtains e where "rounded (round_up x (cluster_size h)) = Inr e" "unat x \<le> unat e" "unat e < unat x + 2 ^ n" "2 ^ n dvd unat e"
proof (cases "x mod cluster_size h = 0")
  case True
  then have "unat x mod 2 ^ n = 0" using layout_size [OF l] by (metis unat_mod unat_0)
  moreover have "cluster_size h \<noteq> 0" using layout_size [OF l] by auto
  then have "rounded (round_up x (cluster_size h)) = Inr x" using True unfolding rounded_def round_up_def by simp
  ultimately show thesis using that [of x] by (simp add: mod_eq_0_iff_dvd)
next
  case False
  let ?a = "cluster_size h" and ?m = "unat x mod 2 ^ n"
  note cs = layout_size [OF l]
  have n: "n \<le> 21" using l by (simp add: image_layout_def)
  have m: "unat (x mod ?a) = ?m" using cs by (simp add: unat_mod)
  have lt: "?m < 2 ^ n" by simp
  have p: "(2 :: nat) ^ n \<le> 2 ^ 21" using n by (intro power_increasing) simp_all
  have d: "unat (?a - x mod ?a) = 2 ^ n - ?m" using m lt cs by (simp add: unat_sub_eq)
  have s: "unat x + unat (?a - x mod ?a) < 2 ^ 64" using d x p by simp
  have pos: "0 < ?m" using False m by (metis unat_eq_zero neq0_conv)
  define e where "e = x + (?a - x mod ?a)"
  have u: "unat e = unat x + (2 ^ n - ?m)" using s d by (simp add: e_def unat_add_eq)
  have "unat x = unat x div 2 ^ n * 2 ^ n + ?m" by (rule div_mult_mod_eq [symmetric])
  then have "unat e = (unat x div 2 ^ n + 1) * 2 ^ n" using u lt by (simp only: add_mult_distrib)
  then have "2 ^ n dvd unat e" by simp
  moreover have "rounded (round_up x ?a) = Inr e" using False s cs by (auto simp: rounded_def round_up_def Let_def checked_add_def e_def)
  moreover have "unat x \<le> unat e" "unat e < unat x + 2 ^ n" using u pos lt by linarith+
  ultimately show thesis using that by blast
qed

lemma rounded_down:
  assumes l: "image_layout n h tb"
  obtains b where "rounded (round_down x (cluster_size h)) = Inr b" "unat b = unat x div 2 ^ n * 2 ^ n"
proof -
  note cs = layout_size [OF l]
  have c0: "cluster_size h \<noteq> 0" using cs by auto
  have "unat x div 2 ^ n * 2 ^ n < 2 ^ 64"
    using le_less_trans [OF div_times_less_eq_dividend unat_lt_64, of x "2 ^ n"] by simp
  then have "unat (of_nat (unat x div 2 ^ n * 2 ^ n) :: u64) = unat x div 2 ^ n * 2 ^ n" by (rule unat_nat64)
  moreover have "rounded (round_down x (cluster_size h)) = Inr (of_nat (unat x div 2 ^ n * 2 ^ n))"
    using round_down_eq [OF c0, of x] cs by (simp add: rounded_def minus_mod_eq_div_mult del: of_nat_mult)
  ultimately show thesis using that by blast
qed

lemma continuous_address_ok:
  assumes inv: "read_inv n h tb A s" and io: "io = (\<lambda>_ _. None)" and ord: "\<And>m. set (ord m) = set m" and t: "table_at h tb g"
    and sz: "unat sz \<le> unat (get_l2_table_max_remain_size tb g (offset_into_cluster h g))" "unat g + unat sz \<le> 2 ^ 62" "0 < unat sz"
  shows "\<exists>r s'. get_continuous_address io ord h g sz s = (Inr r, s')"
proof -
  have l: "image_layout n h tb" using inv by (simp add: read_inv_def)
  note cs = layout_size [OF l]
  have gs: "unat (g + sz) = unat g + unat sz" using sz(2) by (intro unat_add_eq) simp
  obtain b where b: "rounded (round_down g (cluster_size h)) = Inr b" "unat b = unat g div 2 ^ n * 2 ^ n" using rounded_down [OF l] .
  obtain e where e: "rounded (round_up (g + sz) (cluster_size h)) = Inr e" "unat g + unat sz \<le> unat e" "unat e < unat g + unat sz + 2 ^ n" "2 ^ n dvd unat e"
    using rounded_up [OF l, of "g + sz"] gs sz(2) by auto
  have g: "unat g = unat b + unat g mod 2 ^ n" unfolding b(2) by (rule div_mult_mod_eq [symmetric])
  then have eb: "unat (e - b) = unat e - unat b" using e(2) by (intro unat_sub_eq) linarith
  obtain k where k: "unat e - unat b = 2 ^ n * k" using e(4) b(2) by (metis dvd_diff_nat dvd_triv_right dvdE)
  have ek: "unat e = unat b + k * 2 ^ n" using k e(2) g by (simp add: mult.commute)
  have c: "unat ((e - b) div cluster_size h) = k" using eb k cs by (simp add: unat_div)
  have "0 < 2 ^ n * k" using k e(2) g sz(3) by linarith
  then have k0: "0 < k" by simp
  have j: "j * 2 ^ n < unat g mod 2 ^ n + unat sz" if "j < k" for j
  proof -
    have "(j + 1) * 2 ^ n \<le> k * 2 ^ n" using that by (intro mult_le_mono1) simp
    then have "j * 2 ^ n + 2 ^ n \<le> k * 2 ^ n" by (simp only: add_mult_distrib mult_1)
    then show ?thesis using ek e(3) g by linarith
  qed
  have "unat g + unat sz < 2 ^ 64" using sz(2) by simp
  then have "table_at h tb (b + of_nat j * cluster_size h)" if "j < k" for j
    using that by (intro cluster_table [OF l t b(2) sz(1) _ sz(3) j])
  then have "\<exists>r s'. continuous_loop io ord h k b 0 0 Unallocated s = (Inr r, s')"
    using c unat_lt_64 [of "(e - b) div cluster_size h"] by (intro continuous_loop_ok [OF inv io ord]) auto
  moreover have "(e - b) div cluster_size h \<noteq> 0" using c k0 by auto
  ultimately show ?thesis using b e c by (auto simp: get_continuous_address_def Let_def)
qed

lemma host_offset_ok:
  assumes inv: "read_inv n h tb A s" and io: "io = (\<lambda>_ _. None)" and ord: "\<And>m. set (ord m) = set m"
    and t: "get_l1_table_entry tb g = Inr e" "is_aligned (cluster_size h) (e AND L1_TABLE_OFFSET_MASK)"
    and lim: "unat g + unat len \<le> 2 ^ 62" "0 < unat len"
  shows "\<exists>r s'. host_offset_for_read io ord h g len s = (Inr r, s')"
proof (cases "e AND L1_TABLE_OFFSET_MASK = 0")
  case True
  obtain c where c: "ls_table s = tb\<lparr>qt_cache := c\<rparr>" using inv by (auto simp: read_inv_def)
  then show ?thesis using t True by (simp add: host_offset_for_read_def Let_def)
next
  case False
  obtain c where c: "ls_table s = tb\<lparr>qt_cache := c\<rparr>" using inv by (auto simp: read_inv_def)
  have l: "image_layout n h tb" using inv by (simp add: read_inv_def)
  let ?sz = "min len (get_l2_table_max_remain_size tb g (offset_into_cluster h g))"
  have "table_at h tb g" using t False by (simp add: table_at_def)
  then have "\<exists>r s'. get_continuous_address io ord h g ?sz s = (Inr r, s')"
    using lim max_remain_pos [OF l, of g] by (intro continuous_address_ok [OF inv io ord]) (auto simp: word_ge_min)
  then show ?thesis using t False by (auto simp: host_offset_for_read_def Let_def c)
qed

lemma read_loop_ok:
  assumes "read_inv n h tb A s" and io: "io = (\<lambda>_ _. None)" and ord: "\<And>m. set (ord m) = set m" and lim: "unat off + unat nbytes \<le> 2 ^ 62"
    and l1: "\<And>g. unat g < unat off + unat nbytes \<Longrightarrow> \<exists>e. get_l1_table_entry tb g = Inr e \<and> is_aligned (cluster_size h) (e AND L1_TABLE_OFFSET_MASK)"
    and "unat copied \<le> unat nbytes" and "unat nbytes < k + unat copied"
  shows "\<exists>rs m' s'. read_loop k io ord h off nbytes copied left m s = Some (Inr rs, m', s')"
  using assms(1,6,7)
proof (induction k arbitrary: copied left m s)
  case (Suc k)
  show ?case
  proof (cases "copied < nbytes")
    case True
    let ?g = "off + copied" and ?len = "nbytes - copied"
    have c: "unat copied < unat nbytes" using True by (simp add: word_less_nat_alt)
    have len: "unat ?len = unat nbytes - unat copied" using c by (intro unat_sub_eq) simp
    have g: "unat ?g = unat off + unat copied" using c lim by (intro unat_add_eq) simp
    have b: "unat ?g + unat ?len \<le> 2 ^ 62" "0 < unat ?len" using g len c lim by linarith+
    obtain e where e: "get_l1_table_entry tb ?g = Inr e" "is_aligned (cluster_size h) (e AND L1_TABLE_OFFSET_MASK)" using l1 [of ?g] g c by auto
    obtain r s1 where hr: "host_offset_for_read io ord h ?g ?len s = (Inr r, s1)" using host_offset_ok [OF Suc.prems(1) io ord e b] by blast
    have "unat ?g + unat ?len < 2 ^ 64" using b(1) by simp
    from host_offset_piece [OF Suc.prems(1) ord hr this b(2)] have p: "read_inv n h tb A s1" "piece_ok h tb A ?g ?len r" by auto
    define cnt where "cnt = (case r of DataAddress _ b \<Rightarrow> b | DataNotInit b \<Rightarrow> b)"
    have cnt: "0 < unat cnt" "unat cnt \<le> unat ?len" using p(2) by (cases r; simp add: cnt_def)+
    have "unat copied + unat cnt \<le> unat nbytes" using cnt(2) len c by linarith
    then have cc: "unat (copied + cnt) = unat copied + unat cnt" using le_less_trans [OF _ unat_lt_64 [of nbytes]] by (intro unat_add_eq) simp
    have "\<exists>rs m' s'. read_loop k io ord h off nbytes (copied + cnt) e m s1 = Some (Inr rs, m', s')" for e m
      using Suc.IH [OF p(1), of "copied + cnt" e m] cc cnt len c Suc.prems(3) by simp
    note ih = this
    obtain b e where be: "iovecs_split left cnt = (b, e)" by (cases "iovecs_split left cnt")
    show ?thesis
    proof (cases r)
      case (DataAddress a b0)
      then show ?thesis using True hr be ih [of e m] by (auto simp: cnt_def)
    next
      case (DataNotInit b0)
      then show ?thesis using True hr be ih [of e "iovec_write_zero b m"] by (auto simp: cnt_def)
    qed
  qed simp
qed simp

lemma disk_size_bound:
  assumes "header_check h = Inr ()"
  shows "unat (h_size h) \<le> 2 ^ 62"
proof (cases "h_size h = 0")
  case False
  obtain n where n: "9 \<le> n" "n \<le> 21" "cluster_size h = 2 ^ n" using header_cluster [OF assms] .
  let ?D = "cluster_size h * cluster_size h div ENTRY_SIZE"
  have D: "unat ?D = 2 ^ (2 * n - 3)"
  proof -
    have "cluster_size h * cluster_size h = 2 ^ (2 * n)" by (simp add: n(3) power_add mult_2)
    then show ?thesis using n(1,2) by (simp add: unat_div unat_pow2 ENTRY_SIZE_def ENTRY_BITS_def shl_def power_diff)
  qed
  obtain need where need: "div_round_up (h_size h) ?D = Some need" "need \<le> ucast (h_l1_size h)" "ucast (h_l1_size h) \<le> MAX_L1TABLE_SIZE div ENTRY_SIZE"
    using assms by (auto simp: header_check_def check_l1_table_def and_then_Inr not_less split: if_splits option.splits)
  have "need \<le> MAX_L1TABLE_SIZE div ENTRY_SIZE" using need(2,3) by (rule order_trans)
  then have nd: "unat need \<le> 2 ^ 22" by (simp add: word_le_nat_alt unat_div MAX_L1TABLE_SIZE_def ENTRY_SIZE_def ENTRY_BITS_def shl_def)
  have two: "2 \<le> unat ?D" using D n(1) self_le_power [of "2 :: nat" "2 * n - 3"] by simp
  have pos: "0 < unat (h_size h)" using False by (simp add: unat_gt_0)
  then have "h_size h - 1 < h_size h" using False by (simp add: word_less_nat_alt unat_minus_one)
  from div_round_up_above [OF need(1) two this] have "unat (h_size h - 1) div unat ?D < unat need" .
  then have "unat (h_size h - 1) < unat need * 2 ^ (2 * n - 3)" by (simp add: D div_less_iff_less_mult)
  also have "\<dots> \<le> 2 ^ 22 * 2 ^ 39" using nd n(2) by (intro mult_le_mono power_increasing) simp_all
  finally show ?thesis using False by (simp add: unat_minus_one)
qed simp

lemma opened_read_ok:
  assumes h: "header_check h = Inr ()" and t: "open_tables (\<lambda>_ _. None) h sz d = Inr tb" and ord: "\<And>m. set (ord m) = set m"
    and run: "l2_run (\<lambda>_ _. None) ord h ps (opened tb ts d) = (Inr vs, s)"
    and al: "\<forall>e \<in> set (qt_l1_table tb). is_aligned (cluster_size h) (e AND L1_TABLE_OFFSET_MASK)"
    and req: "check_request h off (get_iov_size iov) = Inr ()"
  shows "\<exists>rs m' s'. read_vectored (\<lambda>_ _. None) ord h iov off m s = Some (Inr rs, m', s')"
proof -
  obtain n where inv: "read_inv n h tb (snd (plain_run tb ps (file_entry d))) s" using opened_read_inv [OF h t ord run] .
  have lim: "unat off + unat (get_iov_size iov) \<le> unat (h_size h)"
    using req by (auto simp: check_request_def checked_add_def unat_add_eq word_less_nat_alt not_less split: if_splits option.splits)
  have "\<exists>e. get_l1_table_entry tb g = Inr e \<and> is_aligned (cluster_size h) (e AND L1_TABLE_OFFSET_MASK)" if "unat g < unat off + unat (get_iov_size iov)" for g
  proof -
    have "g < h_size h" using that lim by (simp add: word_less_nat_alt)
    then obtain e where e: "get_l1_table_entry tb g = Inr e" using open_tables_covers [OF h t] by blast
    then have "e \<in> set (qt_l1_table tb)" by (auto simp: get_l1_table_entry_def Let_def split: if_splits)
    then show ?thesis using e al by blast
  qed
  moreover have "unat off + unat (get_iov_size iov) \<le> 2 ^ 62" using lim disk_size_bound [OF h] by linarith
  ultimately have "\<exists>rs m' s'. read_loop (Suc (unat (get_iov_size iov))) (\<lambda>_ _. None) ord h off (get_iov_size iov) 0 iov m s = Some (Inr rs, m', s')"
    by (intro read_loop_ok [OF inv refl ord]) auto
  then show ?thesis by (simp only: read_vectored_def req Let_def sum.case)
qed

text \<open>
  C22. As long as no request to the file fails, every read inside the virtual disk is served: the loop that
  splits it returns, without an error and without an index out of range, on any image whose header
  passes the check and whose L1 entries are aligned.
\<close>

theorem read_vectored_returns:
  assumes "header_check h = Inr ()" and "open_tables (\<lambda>_ _. None) h sz d = Inr tb" and "\<And>m. set (ord m) = set m"
    and "l2_run (\<lambda>_ _. None) ord h ps (opened tb ts d) = (Inr vs, s)"
    and "\<forall>e \<in> set (qt_l1_table tb). is_aligned (cluster_size h) (e AND L1_TABLE_OFFSET_MASK)"
    and "check_request h off (get_iov_size iov) = Inr ()"
  shows "\<exists>rs m' s'. read_vectored (\<lambda>_ _. None) ord h iov off m s = Some (Inr rs, m', s')"
  by (rule opened_read_ok [OF assms])

text \<open>The example image after its first cluster was mapped to the file offset 2048.\<close>

definition ex_iov :: "iovec list" where
  "ex_iov = [\<lparr>iov_base = 4096, iov_len = 3\<rparr>, \<lparr>iov_base = 8192, iov_len = 1\<rparr>]"

lemma ex_image_run:
  obtains vs s where "l2_run (\<lambda>_ _. None) id ex_image_header [WriteEntry 0 0x8000000000000800] (opened ex_image_table no_tables ex_image) = (Inr vs, s)"
proof -
  have ord: "set (id m) = set m" for m :: "(u64 \<times> tid) list" by simp
  have "\<forall>p \<in> set [WriteEntry 0 0x8000000000000800]. op_ok ex_image_header ex_image_table p" using ex_image_ops by simp
  from opened_run_ok [OF ex_image_opens ord this, of no_tables] show thesis using that by blast
qed

lemma ex_image_aligned: "\<forall>e \<in> set (qt_l1_table ex_image_table). is_aligned (cluster_size ex_image_header) (e AND L1_TABLE_OFFSET_MASK)"
  using ex_image_entries(3,4) by (simp add: ex_image_table_def)

lemma ex_image_request: "check_request ex_image_header 1 (get_iov_size ex_iov) = Inr ()"
  by (simp add: check_request_def get_iov_size_def ex_iov_def ex_image_header_def checked_add_def word_less_nat_alt)

theorem read_vectored_returns_witness:
  "\<exists>rs m' s'. read_vectored (\<lambda>_ _. None) id ex_image_header ex_iov 1 (\<lambda>_. 9)
     (snd (l2_run (\<lambda>_ _. None) id ex_image_header [WriteEntry 0 0x8000000000000800] (opened ex_image_table no_tables ex_image))) = Some (Inr rs, m', s')"
proof -
  have ord: "set (id m) = set m" for m :: "(u64 \<times> tid) list" by simp
  obtain vs s where r: "l2_run (\<lambda>_ _. None) id ex_image_header [WriteEntry 0 0x8000000000000800] (opened ex_image_table no_tables ex_image) = (Inr vs, s)"
    using ex_image_run .
  show ?thesis using read_vectored_returns [OF ex_image_opens ord r ex_image_aligned ex_image_request] unfolding r snd_conv .
qed

text \<open>
  C9. Reading returns the virtual disk. After any sequence of operations on the mapping tables, a
  read that is accepted splits its buffers so that, once the requests it
  issues are carried out, each byte of the buffers holds the byte of the file that the tables give for
  its offset, or zero where they give none, and no other byte of memory changes.
\<close>

theorem read_returns_virtual_disk:
  assumes "header_check h = Inr ()" and "open_tables io h sz d = Inr tb" and ord: "\<And>m. set (ord m) = set m"
    and "l2_run io ord h ps (opened tb ts d) = (Inr vs, s)"
    and run: "read_vectored io ord h iov off m s = Some (Inr rs, m', s')"
    and iov: "distinct (iov_bytes iov)" "length (iov_bytes iov) < 2 ^ 64"
  shows "(\<forall>x < length (iov_bytes iov). fold (fetch f) rs m' (iov_bytes iov ! x) =
      virtual_byte h tb (snd (plain_run tb ps (file_entry d))) f (off + of_nat x)) \<and>
    (\<forall>a. a \<notin> set (iov_bytes iov) \<longrightarrow> fold (fetch f) rs m' a = m a)"
proof -
  obtain n where inv: "read_inv n h tb (snd (plain_run tb ps (file_entry d))) s" using opened_read_inv [OF assms(1-4)] .
  note sz = iov_size_bytes [OF iov(2)]
  have lp: "read_loop (Suc (unat (get_iov_size iov))) io ord h off (get_iov_size iov) 0 iov m s = Some (Inr rs, m', s')"
    and "check_request h off (get_iov_size iov) = Inr ()"
    using run by (auto simp: read_vectored_def Let_def split: sum.splits)
  then have lim: "unat off + unat (get_iov_size iov) < 2 ^ 64"
    by (auto simp: check_request_def checked_add_def split: if_splits option.splits)
  note k = read_loop_bytes [OF inv ord lim lp iov(1), of f]
  have k: "req_bytes rs \<subseteq> set (iov_bytes iov)" "\<And>a. a \<notin> set (iov_bytes iov) \<Longrightarrow> m' a = m a"
    "\<And>x. x < length (iov_bytes iov) \<Longrightarrow> fold (fetch f) rs m' (iov_bytes iov ! x) = virtual_byte h tb (snd (plain_run tb ps (file_entry d))) f (off + of_nat x)"
    using k sz by auto
  then show ?thesis using fetches_other by fastforce
qed

theorem read_returns_virtual_disk_witness:
  "\<exists>s rs m' s'. read_vectored (\<lambda>_ _. None) id ex_image_header ex_iov 1 (\<lambda>_. 9) s = Some (Inr rs, m', s') \<and>
     fold (fetch (\<lambda>a. ucast a)) rs m' 4098 = 3 \<and> fold (fetch (\<lambda>a. ucast a)) rs m' 8192 = 4 \<and> fold (fetch (\<lambda>a. ucast a)) rs m' 8193 = 9"
proof -
  let ?ps = "[WriteEntry 0 0x8000000000000800]"
  have ord: "set (id m) = set m" for m :: "(u64 \<times> tid) list" by simp
  obtain vs s where r: "l2_run (\<lambda>_ _. None) id ex_image_header ?ps (opened ex_image_table no_tables ex_image) = (Inr vs, s)"
    using ex_image_run .
  obtain rs m' s' where v: "read_vectored (\<lambda>_ _. None) id ex_image_header ex_iov 1 (\<lambda>_. 9) s = Some (Inr rs, m', s')"
    using opened_read_ok [OF ex_image_opens ord r ex_image_aligned ex_image_request] by blast
  have b: "iov_bytes ex_iov = [4096, 4097, 4098, 8192]" by (simp add: iov_bytes_def ex_iov_def upt_rec)
  have p: "virtual_byte ex_image_header ex_image_table (snd (plain_run ex_image_table ?ps (file_entry ex_image))) (\<lambda>a. ucast a) 3 = 3"
    "virtual_byte ex_image_header ex_image_table (snd (plain_run ex_image_table ?ps (file_entry ex_image))) (\<lambda>a. ucast a) 4 = 4" by code_simp+
  have "distinct (iov_bytes ex_iov)" "length (iov_bytes ex_iov) < 2 ^ 64" by (simp_all add: b)
  note k = read_returns_virtual_disk [OF ex_image_opens ord r v this, of "\<lambda>a. ucast a", unfolded b]
  have "fold (fetch (\<lambda>a. ucast a)) rs m' 4098 = 3" "fold (fetch (\<lambda>a. ucast a)) rs m' 8192 = 4"
    using k [THEN conjunct1, rule_format, of 2] k [THEN conjunct1, rule_format, of 3] p by simp_all
  moreover have "fold (fetch (\<lambda>a. ucast a)) rs m' 8193 = 9" using k by simp
  ultimately show ?thesis using v by blast
qed

end
