(* ===== verification/Qcow2Refcount.thy ===== *)
theory Qcow2Refcount
  imports Qcow2Table
begin

text \<open>
  block_backend/src/qcow2/refcount.rs: how often each cluster of an image is used. The counts are in
  blocks, one entry of 16 bits per cluster; the refcount table has the addresses of the blocks,
  and a cache holds the blocks that were used last, under their index in the table.

  The argument \<open>disc\<close> is what a discarded range becomes in the file.
\<close>

section \<open>Discards\<close>

datatype qcow2_discard_type = Never | Always | Request | Snapshot | Other

record discard_task =
  dt_offset :: u64
  dt_nbytes :: u64

definition is_task_overlap :: "discard_task \<Rightarrow> discard_task \<Rightarrow> bool" where
  "is_task_overlap a t \<longleftrightarrow> \<not> (dt_offset a > dt_offset t + dt_nbytes t \<or> dt_offset t > dt_offset a + dt_nbytes a)"

definition merge_task :: "discard_task \<Rightarrow> discard_task \<Rightarrow> discard_task" where
  "merge_task a t =
     (let off = min (dt_offset a) (dt_offset t);
          end_offset = max (dt_offset a + dt_nbytes a) (dt_offset t + dt_nbytes t)
      in \<lparr>dt_offset = off, dt_nbytes = end_offset - off\<rparr>)"

text \<open>The loop of \<open>update_discard_list\<close>: the task that grows and the tasks that are kept.\<close>

fun merge_tasks :: "discard_task \<Rightarrow> discard_task list \<Rightarrow> discard_task \<times> discard_task list" where
  "merge_tasks a [] = (a, [])"
| "merge_tasks a (t # ts) =
     (if is_task_overlap a t then merge_tasks (merge_task a t) ts
      else case merge_tasks a ts of (a', kept) \<Rightarrow> (a', t # kept))"

definition update_discard_list :: "u64 \<Rightarrow> u64 \<Rightarrow> discard_task list \<Rightarrow> discard_task list" where
  "update_discard_list off nbytes ts = (case merge_tasks \<lparr>dt_offset = off, dt_nbytes = nbytes\<rparr> ts of (a, kept) \<Rightarrow> kept @ [a])"

section \<open>The counts\<close>

definition REFCOUNT_TABLE_OFFSET_MASK :: u64 where "REFCOUNT_TABLE_OFFSET_MASK = 0xfffffffffffffe00"
definition MAX_REFTABLE_NUM :: u64 where "MAX_REFTABLE_NUM = 4"

record ref_count =
  rf_table :: "u64 list"
  rf_cache :: qcow2_cache
  rf_discard_list :: "discard_task list"
  rf_discard_passthrough :: "qcow2_discard_type list"
  rf_free_cluster_index :: u64
  rf_table_offset :: u64
  rf_table_clusters :: u32
  rf_table_size :: u64
  rf_blk_bits :: u32
  rf_blk_size :: u32
  rf_max :: u64
  rf_cluster_size :: u64
  rf_cluster_bits :: u32

definition new_ref_count :: ref_count where
  "new_ref_count = \<lparr>rf_table = [], rf_cache = \<lparr>qc_max_size = 0, qc_lru_count = 0, qc_map = [], qc_dirty_tables = []\<rparr>, rf_discard_list = [],
     rf_discard_passthrough = [], rf_free_cluster_index = 0, rf_table_offset = 0, rf_table_clusters = 0, rf_table_size = 0, rf_blk_bits = 0,
     rf_blk_size = 0, rf_max = 0, rf_cluster_size = 0, rf_cluster_bits = 0\<rparr>"

text \<open>The arguments \<open>discard\<close> and \<open>refcount_cache_size\<close> are fields of the configuration.\<close>

definition init_refcount_info :: "qcow_header \<Rightarrow> bool \<Rightarrow> u64 option \<Rightarrow> ref_count \<Rightarrow> ref_count" where
  "init_refcount_info h discard refcount_cache_size rf =
     (let blk_bits = h_cluster_bits h + 3 - h_refcount_order h;
          refcount_bits = shl (1 :: u32) (unat (h_refcount_order h));
          half = shl (1 :: u64) (unat (refcount_bits - 1))
      in rf\<lparr>rf_discard_passthrough := rf_discard_passthrough rf @ [Always] @ (if discard then [Request, Snapshot] else []),
            rf_table_offset := h_refcount_table_offset h, rf_table_clusters := h_refcount_table_clusters h,
            rf_table_size := ucast (h_refcount_table_clusters h) * cluster_size h div ENTRY_SIZE,
            rf_blk_bits := blk_bits, rf_blk_size := shl 1 (unat blk_bits), rf_cluster_bits := h_cluster_bits h,
            rf_cluster_size := cluster_size h, rf_max := half + (half - 1),
            rf_cache := new_qcow2_cache (unat (case refcount_cache_size of Some n \<Rightarrow> n div cluster_size h | None \<Rightarrow> MAX_REFTABLE_NUM))\<rparr>)"

definition load_refcount_table :: "aio_fail \<Rightarrow> qcow_header \<Rightarrow> memory \<Rightarrow> ref_count \<Rightarrow> qcow2_error + ref_count" where
  "load_refcount_table io h d rf =
     and_then (read_ctrl_cluster io (h_refcount_table_offset h) (unat (ucast (h_refcount_table_clusters h) * (cluster_size h div ENTRY_SIZE))) d)
       (\<lambda>tb. Inr (rf\<lparr>rf_table := tb\<rparr>))"

text \<open>The counts, the store of cached blocks with the next free identifier, the file, and the header of the driver.\<close>

record rc_state =
  rs_rf :: ref_count
  rs_tabs :: tables
  rs_next :: tid
  rs_disk :: memory
  rs_header :: qcow_header

definition rs_set :: "(ref_count \<Rightarrow> ref_count) \<Rightarrow> rc_state \<Rightarrow> rc_state" where
  "rs_set f s = s\<lparr>rs_rf := f (rs_rf s)\<rparr>"

definition rs_cache :: "rc_state \<Rightarrow> qcow2_cache" where
  "rs_cache s = rf_cache (rs_rf s)"

definition rs_set_cache :: "qcow2_cache \<times> tables \<Rightarrow> rc_state \<Rightarrow> rc_state" where
  "rs_set_cache = (\<lambda>(c, ts) s. s\<lparr>rs_rf := (rs_rf s)\<lparr>rf_cache := c\<rparr>, rs_tabs := ts\<rparr>)"

definition start_of_cluster :: "ref_count \<Rightarrow> u64 \<Rightarrow> u64" where
  "start_of_cluster rf off = off AND NOT (rf_cluster_size rf - 1)"

definition cluster_in_rc_block :: "ref_count \<Rightarrow> u64 \<Rightarrow> u64" where
  "cluster_in_rc_block rf cluster_index = cluster_index AND ucast (rf_blk_size rf - 1)"

definition rf_offset_into_cluster :: "ref_count \<Rightarrow> u64 \<Rightarrow> u64" where
  "rf_offset_into_cluster rf off = off AND (rf_cluster_size rf - 1)"

definition bytes_to_clusters :: "u64 \<Rightarrow> u64 \<Rightarrow> qcow2_error + u64" where
  "bytes_to_clusters sz cluster_sz = (case div_round_up sz cluster_sz of None \<Rightarrow> Inl ERound | Some n \<Rightarrow> Inr n)"

section \<open>Blocks\<close>

definition save_refcount_block :: "aio_fail \<Rightarrow> tid \<Rightarrow> rc_state \<Rightarrow> (qcow2_error + unit) \<times> rc_state" where
  "save_refcount_block io i s =
     (let t = rs_tabs s i in
      if \<not> di_is_dirty (ct_dirty t) then (Inr (), s)
      else if \<not> is_aligned (rf_cluster_size (rs_rf s)) (ct_addr t) then (Inl (EUnaligned (ct_addr t)), s)
      else case write_table io t (rs_disk s) of
             (Inl e, d) \<Rightarrow> (Inl e, s\<lparr>rs_disk := d\<rparr>)
           | (Inr _, d) \<Rightarrow> (Inr (), s\<lparr>rs_disk := d, rs_tabs := clear_dirty i (rs_tabs s)\<rparr>))"

definition rs_alloc_table :: "cache_table \<Rightarrow> rc_state \<Rightarrow> tid \<times> rc_state" where
  "rs_alloc_table t s = (rs_next s, s\<lparr>rs_tabs := (rs_tabs s)(rs_next s := t), rs_next := Suc (rs_next s)\<rparr>)"

text \<open>Putting a block into the cache and saving the one that makes room, as both callers do.\<close>

definition cache_block :: "aio_fail \<Rightarrow> hash_order \<Rightarrow> u64 \<Rightarrow> tid \<Rightarrow> rc_state \<Rightarrow> (qcow2_error + unit) \<times> rc_state" where
  "cache_block io ord rt_idx i s =
     (case lru_replace ord rt_idx i (rs_cache s, rs_tabs s) of
        (None, ct) \<Rightarrow> (Inr (), rs_set_cache ct s)
      | (Some v, ct) \<Rightarrow> save_refcount_block io v (rs_set_cache ct s))"

definition load_refcount_block :: "aio_fail \<Rightarrow> hash_order \<Rightarrow> u64 \<Rightarrow> rc_state \<Rightarrow> (qcow2_error + unit) \<times> rc_state" where
  "load_refcount_block io ord rt_idx s =
     (let rf = rs_rf s in
      if \<not> unat rt_idx < length (rf_table rf) then (Inl (EQPanic IndexOutOfRange), s)
      else let rb_addr = rf_table rf ! unat rt_idx in
           if \<not> is_aligned (rf_cluster_size rf) rb_addr then (Inl (EUnaligned rb_addr), s)
           else case and_then (read_buffer io rb_addr (unat (rf_cluster_size rf)) (rs_disk s)) (\<lambda>rc_block. new_cache_table rb_addr rc_block ENTRY_SIZE_U16) of
                  Inl e \<Rightarrow> (Inl e, s)
                | Inr t \<Rightarrow> (case rs_alloc_table t s of (i, s1) \<Rightarrow> cache_block io ord rt_idx i s1))"

text \<open>The lookup that \<open>get_refcount\<close> and \<open>set_refcount\<close> share.\<close>

definition cached_block :: "aio_fail \<Rightarrow> hash_order \<Rightarrow> u64 \<Rightarrow> rc_state \<Rightarrow> (qcow2_error + tid) \<times> rc_state" where
  "cached_block io ord rt_idx s =
     (case (if contains_keys rt_idx (rs_cache s) then (Inr (), s) else load_refcount_block io ord rt_idx s) of
        (Inl e, s1) \<Rightarrow> (Inl e, s1)
      | (Inr _, s1) \<Rightarrow>
          (case cache_get rt_idx (rs_cache s1, rs_tabs s1) of
             (None, ct) \<Rightarrow> (Inl (ENotCached rt_idx), rs_set_cache ct s1)
           | (Some i, ct) \<Rightarrow> (Inr i, rs_set_cache ct s1)))"

definition get_refcount :: "aio_fail \<Rightarrow> hash_order \<Rightarrow> u64 \<Rightarrow> rc_state \<Rightarrow> (qcow2_error + u16) \<times> rc_state" where
  "get_refcount io ord off s =
     (let rf = rs_rf s;
          cluster = shr off (unat (rf_cluster_bits rf));
          rt_idx = shr cluster (unat (rf_blk_bits rf))
      in if rt_idx \<ge> rf_table_size rf then (Inr 0, s)
         else if \<not> unat rt_idx < length (rf_table rf) then (Inl (EQPanic IndexOutOfRange), s)
         else let rb_addr = rf_table rf ! unat rt_idx AND REFCOUNT_TABLE_OFFSET_MASK in
              if rb_addr = 0 then (Inr 0, s)
              else if rf_offset_into_cluster rf rb_addr \<noteq> 0 then (Inl (ERcBlock rb_addr), s)
              else case cached_block io ord rt_idx s of
                     (Inl e, s1) \<Rightarrow> (Inl e, s1)
                   | (Inr i, s1) \<Rightarrow>
                       (case get_entry_map (cluster_in_rc_block rf cluster) (rs_tabs s1 i) of
                          Inl _ \<Rightarrow> (Inl (EQPanic UnwrapNone), s1)
                        | Inr v \<Rightarrow> (Inr (ucast v), s1)))"

section \<open>Changing counts\<close>

text \<open>
  The first loop of \<open>set_refcount\<close>: the new counts of the entries \<open>rb_idx + i\<close>. A count that becomes
  0 frees its cluster at once, before any count is written.
\<close>

definition new_count :: "ref_count \<Rightarrow> bool \<Rightarrow> u16 \<Rightarrow> u16 \<Rightarrow> u16 option" where
  "new_count rf is_add added_value rc_value =
     (if is_add then (case checked_add rc_value added_value of Some v \<Rightarrow> if v \<le> ucast (rf_max rf) then Some v else None | None \<Rightarrow> None)
      else checked_sub rc_value added_value)"

definition cluster_freed :: "qcow2_discard_type \<Rightarrow> u64 \<Rightarrow> ref_count \<Rightarrow> ref_count" where
  "cluster_freed discard_type cluster_idx rf =
     (let rf1 = (if discard_type \<in> set (rf_discard_passthrough rf)
                 then rf\<lparr>rf_discard_list := update_discard_list (cluster_idx * rf_cluster_size rf) (rf_cluster_size rf) (rf_discard_list rf)\<rparr> else rf)
      in if cluster_idx < rf_free_cluster_index rf1 then rf1\<lparr>rf_free_cluster_index := cluster_idx\<rparr> else rf1)"

fun new_refcounts :: "cache_table \<Rightarrow> u64 \<Rightarrow> u64 \<Rightarrow> bool \<Rightarrow> u16 \<Rightarrow> qcow2_discard_type \<Rightarrow> nat list \<Rightarrow> ref_count \<Rightarrow> (qcow2_error + u16 list) \<times> ref_count" where
  "new_refcounts t rt_idx rb_idx is_add added_value discard_type [] rf = (Inr [], rf)"
| "new_refcounts t rt_idx rb_idx is_add added_value discard_type (i # is) rf =
     (case get_entry_map (rb_idx + of_nat i) t of
        Inl e \<Rightarrow> (Inl e, rf)
      | Inr v \<Rightarrow>
          (case new_count rf is_add added_value (ucast v) of
             None \<Rightarrow> (Inl ERcOverflow, rf)
           | Some rc_value \<Rightarrow>
               (let cluster_idx = rt_idx * ucast (rf_blk_size rf) + rb_idx + of_nat i;
                    rf1 = (if rc_value = 0 then cluster_freed discard_type cluster_idx rf else rf)
                in case new_refcounts t rt_idx rb_idx is_add added_value discard_type is rf1 of
                     (r, rf2) \<Rightarrow> (and_then r (\<lambda>vs. Inr (rc_value # vs)), rf2))))"

text \<open>The second loop of \<open>set_refcount\<close>.\<close>

fun put_refcounts :: "u64 \<Rightarrow> u16 list \<Rightarrow> cache_table \<Rightarrow> (qcow2_error + unit) \<times> cache_table" where
  "put_refcounts idx [] t = (Inr (), t)"
| "put_refcounts idx (v # vs) t =
     (case set_entry_map idx (ucast v) t of Inl e \<Rightarrow> (Inl e, t) | Inr t1 \<Rightarrow> put_refcounts (idx + 1) vs t1)"

text \<open>The argument \<open>added\<close> is an \<open>i32\<close>; the callers pass 1 or -1.\<close>

definition set_refcount :: "aio_fail \<Rightarrow> hash_order \<Rightarrow> u64 \<Rightarrow> u64 \<Rightarrow> nat \<Rightarrow> int \<Rightarrow> qcow2_discard_type \<Rightarrow> rc_state \<Rightarrow> (qcow2_error + unit) \<times> rc_state" where
  "set_refcount io ord rt_idx rb_idx clusters added discard_type s =
     (case cached_block io ord rt_idx s of
        (Inl e, s1) \<Rightarrow> (Inl e, s1)
      | (Inr i, s1) \<Rightarrow>
          (let t = rs_tabs s1 i; is_dirty = di_is_dirty (ct_dirty t) in
           case new_refcounts t rt_idx rb_idx (added > 0) (of_int \<bar>added\<bar>) discard_type [0..<clusters] (rs_rf s1) of
             (Inl e, rf) \<Rightarrow> (Inl e, s1\<lparr>rs_rf := rf\<rparr>)
           | (Inr vs, rf) \<Rightarrow>
               (case put_refcounts rb_idx vs t of
                  (Inl e, t1) \<Rightarrow> (Inl e, s1\<lparr>rs_rf := rf, rs_tabs := (rs_tabs s1)(i := t1)\<rparr>)
                | (Inr _, t1) \<Rightarrow>
                    (Inr (), s1\<lparr>rs_rf := (if is_dirty then rf else rf\<lparr>rf_cache := add_dirty_table i (rf_cache rf)\<rparr>),
                                rs_tabs := (rs_tabs s1)(i := t1)\<rparr>))))"

fun set_refcount_blocks :: "aio_fail \<Rightarrow> hash_order \<Rightarrow> (u64 \<times> u64 \<times> nat) list \<Rightarrow> int \<Rightarrow> qcow2_discard_type \<Rightarrow> rc_state \<Rightarrow> nat \<times> rc_state" where
  "set_refcount_blocks io ord [] added discard_type s = (0, s)"
| "set_refcount_blocks io ord ((rt_idx, rb_idx, num) # rc) added discard_type s =
     (case set_refcount io ord rt_idx rb_idx num added discard_type s of
        (Inl _, s1) \<Rightarrow> (0, s1)
      | (Inr _, s1) \<Rightarrow> (case set_refcount_blocks io ord rc added discard_type s1 of (n, s2) \<Rightarrow> (Suc n, s2)))"

definition rc_flush :: "aio_fail \<Rightarrow> rc_state \<Rightarrow> (qcow2_error + unit) \<times> rc_state" where
  "rc_flush io s =
     (case cache_flush io (rs_cache s) (rs_tabs s) (rs_disk s) of (r, c, ts, d) \<Rightarrow> (r, (rs_set_cache (c, ts) s)\<lparr>rs_disk := d\<rparr>))"

text \<open>
  The loop of \<open>update_refcount\<close> that cuts a range of clusters at the borders of blocks. A turn
  advances by at least one cluster, so the number of clusters is enough fuel.
\<close>

fun rc_ranges :: "nat \<Rightarrow> ref_count \<Rightarrow> u64 \<Rightarrow> u64 \<Rightarrow> u64 \<Rightarrow> qcow2_error + (u64 \<times> u64 \<times> nat) list" where
  "rc_ranges k rf first_cluster clusters i =
     (if \<not> i < clusters then Inr []
      else case k of
             0 \<Rightarrow> Inl ENoReturn
           | Suc k' \<Rightarrow>
               (let rt_idx = shr (first_cluster + i) (unat (rf_blk_bits rf)) in
                if rt_idx \<ge> rf_table_size rf then Inl (ERcTable rt_idx)
                else if \<not> unat rt_idx < length (rf_table rf) then Inl (EQPanic IndexOutOfRange)
                else let rb_addr = rf_table rf ! unat rt_idx in
                     if rb_addr = 0 \<or> rf_offset_into_cluster rf rb_addr \<noteq> 0 then Inl (ERcBlock rb_addr)
                     else let rb_idx = cluster_in_rc_block rf (i + first_cluster);
                              num = min (ucast (rf_blk_size rf) - rb_idx) (clusters - i)
                          in and_then (rc_ranges k' rf first_cluster clusters (i + num)) (\<lambda>rs. Inr ((rt_idx, rb_idx, unat num) # rs))))"

declare rc_ranges.simps [simp del]

definition update_refcount :: "aio_fail \<Rightarrow> hash_order \<Rightarrow> u64 \<Rightarrow> u64 \<Rightarrow> int \<Rightarrow> bool \<Rightarrow> qcow2_discard_type \<Rightarrow> rc_state \<Rightarrow> (qcow2_error + unit) \<times> rc_state" where
  "update_refcount io ord off clusters added flush discard_type s =
     (let rf = rs_rf s in
      if rf_offset_into_cluster rf off \<noteq> 0 then (Inl (EUnaligned off), s)
      else case bytes_to_clusters off (rf_cluster_size rf) of
             Inl _ \<Rightarrow> (Inl (EQPanic UnwrapNone), s)
           | Inr first_cluster \<Rightarrow>
               (case rc_ranges (unat clusters) rf first_cluster clusters 0 of
                  Inl e \<Rightarrow> (Inl e, s)
                | Inr rc_vec \<Rightarrow>
                    (case set_refcount_blocks io ord rc_vec added discard_type s of
                       (idx, s1) \<Rightarrow>
                         if idx \<noteq> length rc_vec
                         then (case set_refcount_blocks io ord (take idx rc_vec) (- added) discard_type s1 of
                                 (rev_idx, s2) \<Rightarrow> (Inl (ERecover (rev_idx = idx)), s2))
                         else if flush then rc_flush io s1 else (Inr (), s1))))"

section \<open>Allocation\<close>

definition sync_process_discards :: "(discard_task \<Rightarrow> memory \<Rightarrow> memory) \<Rightarrow> rc_state \<Rightarrow> rc_state" where
  "sync_process_discards disc s =
     (rs_set (\<lambda>rf. rf\<lparr>rf_discard_list := []\<rparr>) s)\<lparr>rs_disk := fold disc (rf_discard_list (rs_rf s)) (rs_disk s)\<rparr>"

text \<open>
  The loop of \<open>alloc_clusters_with_noref\<close>. Behind the clusters that the refcount table covers every cluster
  is free, so as many turns as there are such clusters and clusters wanted are enough.
\<close>

fun alloc_loop :: "nat \<Rightarrow> aio_fail \<Rightarrow> hash_order \<Rightarrow> u64 \<Rightarrow> u64 \<Rightarrow> rc_state \<Rightarrow> (qcow2_error + unit) \<times> rc_state" where
  "alloc_loop k io ord nb_clusters free_clusters s =
     (if \<not> free_clusters < nb_clusters then (Inr (), s)
      else case k of
             0 \<Rightarrow> (Inl ENoReturn, s)
           | Suc k' \<Rightarrow>
               (let off = shl (rf_free_cluster_index (rs_rf s)) (unat (rf_cluster_bits (rs_rf s)));
                    s1 = rs_set (\<lambda>rf. rf\<lparr>rf_free_cluster_index := rf_free_cluster_index rf + 1\<rparr>) s
                in case get_refcount io ord off s1 of
                     (Inl e, s2) \<Rightarrow> (Inl e, s2)
                   | (Inr n, s2) \<Rightarrow> alloc_loop k' io ord nb_clusters (if n \<noteq> 0 then 0 else free_clusters + 1) s2))"

declare alloc_loop.simps [simp del]

definition alloc_fuel :: "ref_count \<Rightarrow> u64 \<Rightarrow> nat" where
  "alloc_fuel rf nb_clusters = unat (rf_table_size rf) * unat (rf_blk_size rf) + unat nb_clusters"

definition alloc_clusters_with_noref :: "aio_fail \<Rightarrow> hash_order \<Rightarrow> (discard_task \<Rightarrow> memory \<Rightarrow> memory) \<Rightarrow> u64 \<Rightarrow> rc_state \<Rightarrow>
    (qcow2_error + u64) \<times> rc_state" where
  "alloc_clusters_with_noref io ord disc sz s =
     (let s1 = (if rf_discard_list (rs_rf s) \<noteq> [] then sync_process_discards disc s else s) in
      case bytes_to_clusters sz (rf_cluster_size (rs_rf s1)) of
        Inl _ \<Rightarrow> (Inl (EQPanic UnwrapNone), s1)
      | Inr nb_clusters \<Rightarrow>
          (case alloc_loop (alloc_fuel (rs_rf s1) nb_clusters) io ord nb_clusters 0 s1 of
             (Inl e, s2) \<Rightarrow> (Inl e, s2)
           | (Inr _, s2) \<Rightarrow>
               (Inr (shl (rf_free_cluster_index (rs_rf s2) - nb_clusters) (unat (rf_cluster_bits (rs_rf s2)))), s2)))"

definition save_refcount_table :: "aio_fail \<Rightarrow> u64 \<Rightarrow> u64 \<Rightarrow> rc_state \<Rightarrow> (qcow2_error + unit) \<times> rc_state" where
  "save_refcount_table io start end s =
     (case write_dirty_info io (rf_table_offset (rs_rf s)) (concat (map (to_be 8) (rf_table (rs_rf s)))) start end (rs_disk s) of
        (r, d) \<Rightarrow> (r, s\<lparr>rs_disk := d\<rparr>))"

definition set_table_entry :: "u64 \<Rightarrow> u64 \<Rightarrow> rc_state \<Rightarrow> rc_state" where
  "set_table_entry rt_idx v = rs_set (\<lambda>rf. rf\<lparr>rf_table := (rf_table rf)[unat rt_idx := v]\<rparr>)"

text \<open>
  \<open>update_alloc_refcount\<close>, with \<open>alloc_block\<close> in the place of \<open>alloc_refcount_block\<close>: the loop that allocates the blocks
  that are missing, and the whole.
\<close>

fun missing_blocks :: "(u64 \<Rightarrow> rc_state \<Rightarrow> (qcow2_error + unit) \<times> rc_state) \<Rightarrow> u64 list \<Rightarrow> rc_state \<Rightarrow> (qcow2_error + unit) \<times> rc_state" where
  "missing_blocks alloc_block [] s = (Inr (), s)"
| "missing_blocks alloc_block (i # is) s =
     (let rf = rs_rf s; rt_idx = shr i (unat (rf_blk_bits rf)) in
      if rt_idx \<ge> rf_table_size rf then (Inl (ERcTable rt_idx), s)
      else if \<not> unat rt_idx < length (rf_table rf) then (Inl (EQPanic IndexOutOfRange), s)
      else if rf_table rf ! unat rt_idx = 0
      then (case alloc_block rt_idx s of
              (Inl e, s1) \<Rightarrow> (Inl e, set_table_entry rt_idx 0 s1)
            | (Inr _, s1) \<Rightarrow> missing_blocks alloc_block is s1)
      else missing_blocks alloc_block is s)"

definition update_alloc_refcount :: "(u64 \<Rightarrow> rc_state \<Rightarrow> (qcow2_error + unit) \<times> rc_state) \<Rightarrow> aio_fail \<Rightarrow> hash_order \<Rightarrow>
    u64 \<Rightarrow> u64 \<Rightarrow> int \<Rightarrow> bool \<Rightarrow> qcow2_discard_type \<Rightarrow> rc_state \<Rightarrow> (qcow2_error + unit) \<times> rc_state" where
  "update_alloc_refcount alloc_block io ord off clusters added flush discard_type s =
     (case div_round_up off (rf_cluster_size (rs_rf s)) of
        None \<Rightarrow> (Inl (EQPanic UnwrapNone), s)
      | Some start_clusters \<Rightarrow>
          (case missing_blocks alloc_block (map of_nat [unat start_clusters..<unat (start_clusters + clusters)]) s of
             (Inl e, s1) \<Rightarrow> (Inl e, s1)
           | (Inr _, s1) \<Rightarrow> update_refcount io ord off clusters added flush discard_type s1))"

text \<open>
  A block may have to be allocated for the count of a new block. Each allocation fills an entry of the
  refcount table that was empty, so that the length of the table bounds the depth, the first argument.
\<close>

fun alloc_refcount_block :: "nat \<Rightarrow> aio_fail \<Rightarrow> hash_order \<Rightarrow> (discard_task \<Rightarrow> memory \<Rightarrow> memory) \<Rightarrow> u64 \<Rightarrow> rc_state \<Rightarrow>
    (qcow2_error + unit) \<times> rc_state" where
  "alloc_refcount_block k io ord disc rt_idx s =
     (if rt_idx \<ge> rf_table_size (rs_rf s) then (Inl (ERcTable rt_idx), s)
      else case alloc_clusters_with_noref io ord disc (rf_cluster_size (rs_rf s)) s of
        (Inl e, s1) \<Rightarrow> (Inl e, s1)
      | (Inr alloc_offset, s1) \<Rightarrow>
          (let rf = rs_rf s1;
               alloc_cluster_idx = shr alloc_offset (unat (rf_cluster_bits rf));
               alloc_rt_idx = shr alloc_cluster_idx (unat (rf_blk_bits rf))
           in if alloc_rt_idx \<ge> rf_table_size rf then (Inl (ERcTable alloc_rt_idx), s1)
              else if \<not> unat rt_idx < length (rf_table rf) then (Inl (EQPanic IndexOutOfRange), s1)
              else let s2 = set_table_entry rt_idx alloc_offset s1 in
                   case new_cache_table alloc_offset (replicate (unat (rf_cluster_size rf)) 0) ENTRY_SIZE_U16 of
                     Inl e \<Rightarrow> (Inl e, s2)
                   | Inr t \<Rightarrow>
                       (case rs_alloc_table t s2 of (i, s3) \<Rightarrow>
                          case cache_block io ord rt_idx i s3 of
                            (Inl e, s4) \<Rightarrow> (Inl e, s4)
                          | (Inr _, s4) \<Rightarrow>
                              (case (if alloc_rt_idx = rt_idx
                                     then and_then (set_entry_map (cluster_in_rc_block rf (cluster_in_rc_block rf alloc_cluster_idx)) 1 (rs_tabs s4 i))
                                            (\<lambda>t1. Inr (t1\<lparr>ct_dirty := clean_info\<rparr>))
                                     else Inr (rs_tabs s4 i)) of
                                 Inl e \<Rightarrow> (Inl e, s4)
                               | Inr t1 \<Rightarrow>
                                   (let s5 = s4\<lparr>rs_tabs := (rs_tabs s4)(i := t1)\<rparr> in
                                    case write_dirty_info io (ct_addr t1) (ct_data t1) 0 (rf_cluster_size rf) (rs_disk s5) of
                                      (Inl e, d) \<Rightarrow> (Inl e, s5\<lparr>rs_disk := d\<rparr>)
                                    | (Inr _, d) \<Rightarrow>
                                        (case (if alloc_rt_idx \<noteq> rt_idx
                                               then (case k of
                                                       0 \<Rightarrow> (Inl ENoReturn, s5\<lparr>rs_disk := d\<rparr>)
                                                     | Suc k' \<Rightarrow> update_alloc_refcount (alloc_refcount_block k' io ord disc) io ord alloc_offset 1 1 True Never (s5\<lparr>rs_disk := d\<rparr>))
                                               else (Inr (), s5\<lparr>rs_disk := d\<rparr>)) of
                                           (Inl e, s6) \<Rightarrow> (Inl e, s6)
                                         | (Inr _, s6) \<Rightarrow>
                                             save_refcount_table io (rt_idx * ENTRY_SIZE) (rt_idx * ENTRY_SIZE + ENTRY_SIZE) s6))))))"

declare alloc_refcount_block.simps [simp del]

section \<open>Growing the table\<close>

text \<open>
  The loop of \<open>refcount_metadata_size\<close>. The total grows with every turn until the loop ends or the reserve is
  added; the fuel is the bound on it.
\<close>

fun metadata_loop :: "nat \<Rightarrow> u64 \<Rightarrow> u64 \<Rightarrow> bool \<Rightarrow> u64 \<Rightarrow> u64 \<Rightarrow> u64 \<Rightarrow> u64 \<Rightarrow> qcow2_error + u64 \<times> u64" where
  "metadata_loop 0 reftable_entries refblock_entries is_reserve clusters tbl blocks last_clusters = Inl ENoReturn"
| "metadata_loop (Suc k) reftable_entries refblock_entries is_reserve clusters tbl blocks last_clusters =
     (case div_round_up (clusters + tbl + blocks) refblock_entries of
        None \<Rightarrow> Inl (EQPanic UnwrapNone)
      | Some blocks1 \<Rightarrow>
          (case div_round_up blocks1 reftable_entries of
             None \<Rightarrow> Inl (EQPanic UnwrapNone)
           | Some tbl1 \<Rightarrow>
               (let total_clusters = tbl1 + blocks1 + clusters in
                if total_clusters = last_clusters
                then if is_reserve
                     then (case div_round_up tbl1 2 of
                             None \<Rightarrow> Inl (EQPanic UnwrapNone)
                           | Some reserve \<Rightarrow> metadata_loop k reftable_entries refblock_entries False (clusters + reserve) tbl1 blocks1 0)
                     else Inr (total_clusters, blocks1)
                else metadata_loop k reftable_entries refblock_entries is_reserve clusters tbl1 blocks1 total_clusters)))"

definition refcount_metadata_size :: "u64 \<Rightarrow> u64 \<Rightarrow> u64 \<Rightarrow> bool \<Rightarrow> qcow2_error + u64 \<times> u64" where
  "refcount_metadata_size nb_clusters cluster_sz refcount_order is_reserve =
     and_then (metadata_loop (4 * unat nb_clusters + 64) (cluster_sz div ENTRY_SIZE) (cluster_sz * 8 div shl 1 (unat refcount_order)) is_reserve nb_clusters 0 0 0)
       (\<lambda>(total_clusters, blocks). Inr (total_clusters - nb_clusters - blocks, blocks))"

text \<open>The loop that gives the new blocks their addresses.\<close>

fun place_blocks :: "nat list \<Rightarrow> u64 \<Rightarrow> u64 \<Rightarrow> u64 list \<Rightarrow> u64 list \<times> u64" where
  "place_blocks [] cluster_sz table_offset tb = (tb, table_offset)"
| "place_blocks (i # is) cluster_sz table_offset tb =
     (if tb ! i = 0 then place_blocks is cluster_sz (table_offset + cluster_sz) (tb[i := table_offset]) else place_blocks is cluster_sz table_offset tb)"

definition extend_refcount_table :: "aio_fail \<Rightarrow> hash_order \<Rightarrow> u64 \<Rightarrow> u64 \<Rightarrow> u64 \<Rightarrow> rc_state \<Rightarrow> (qcow2_error + unit) \<times> rc_state" where
  "extend_refcount_table io ord start_idx new_table_clusters new_block_clusters s =
     (let rf = rs_rf s; cs = rf_cluster_size rf; new_table_size = new_table_clusters * (cs div ENTRY_SIZE) in
      if new_block_clusters > new_table_size then (Inl EOutOfRange, s)
      else
        let resized = take (unat new_table_size) (rf_table rf) @ replicate (unat new_table_size - length (rf_table rf)) 0;
            start_offset = start_idx * cs
        in case place_blocks [0..<unat new_block_clusters] cs start_offset resized of
             (new_table, table_offset) \<Rightarrow>
               (let end_offset = table_offset + new_table_clusters * cs in
                case div_round_up (end_offset - start_offset) cs of
                  None \<Rightarrow> (Inl (EQPanic UnwrapNone), s)
                | Some metadata_clusters \<Rightarrow>
                    (case write_ctrl_cluster io table_offset new_table (rs_disk s) of
                       (Inl e, d) \<Rightarrow> (Inl e, s\<lparr>rs_disk := d\<rparr>)
                     | (Inr _, d) \<Rightarrow>
                         (let new_header = (rs_header s)\<lparr>h_refcount_table_offset := table_offset, h_refcount_table_clusters := ucast new_table_clusters\<rparr> in
                          case write_buffer io 0 (header_to_vec new_header) d of
                            (Inl e, d1) \<Rightarrow> (Inl e, s\<lparr>rs_disk := d1\<rparr>)
                          | (Inr _, d1) \<Rightarrow>
                              (let s1 = (rs_set (\<lambda>rf. rf\<lparr>rf_table := new_table, rf_table_offset := table_offset, rf_table_clusters := ucast new_table_clusters,
                                            rf_table_size := new_table_size, rf_free_cluster_index := end_offset div cs\<rparr>) s)
                                          \<lparr>rs_disk := d1, rs_header := new_header\<rparr>
                               in case update_refcount io ord start_offset metadata_clusters 1 True Never s1 of
                                    (Inl e, s2) \<Rightarrow> (Inl e, s2)
                                  | (Inr _, s2) \<Rightarrow> update_refcount io ord (rf_table_offset rf) (ucast (rf_table_clusters rf)) (- 1) True Other s2)))))"

definition alloc_clusters_with_ref :: "aio_fail \<Rightarrow> hash_order \<Rightarrow> (discard_task \<Rightarrow> memory \<Rightarrow> memory) \<Rightarrow> u64 \<Rightarrow> rc_state \<Rightarrow> (qcow2_error + u64) \<times> rc_state" where
  "alloc_clusters_with_ref io ord disc sz s =
     (if sz = 0 then (Inl EAllocZero, s)
      else case alloc_clusters_with_noref io ord disc sz s of
        (Inl e, s1) \<Rightarrow> (Inl e, s1)
      | (Inr off, s1) \<Rightarrow>
          (let rf = rs_rf s1 in
           case round_up (off + sz) (rf_cluster_size rf) of
             Inr (Some offset_end) \<Rightarrow>
               (let rt_end = shr offset_end (unat (rf_cluster_bits rf + rf_blk_bits rf)) in
                case bytes_to_clusters (offset_end - off) (rf_cluster_size rf) of
                  Inl e \<Rightarrow> (Inl e, s1)
                | Inr nb_clusters \<Rightarrow>
                    (case (if rt_end \<ge> rf_table_size rf
                           then (case refcount_metadata_size (rf_free_cluster_index rf) (rf_cluster_size rf) (ucast (h_refcount_order (rs_header s1))) True of
                                   Inl e \<Rightarrow> (Inl e, s1)
                                 | Inr (tbl, blocks) \<Rightarrow> extend_refcount_table io ord (rf_free_cluster_index rf) tbl blocks s1)
                           else (Inr (), s1)) of
                       (Inl e, s2) \<Rightarrow> (Inl e, s2)
                     | (Inr _, s2) \<Rightarrow>
                         (case update_alloc_refcount (alloc_refcount_block (length (rf_table (rs_rf s2))) io ord disc) io ord off nb_clusters 1 False Never s2 of
                            (Inl e, s3) \<Rightarrow> (Inl e, s3)
                          | (Inr _, s3) \<Rightarrow> (Inr off, s3))))
           | Inr None \<Rightarrow> (Inl (EQPanic UnwrapNone), s1)
           | Inl p \<Rightarrow> (Inl (EQPanic p), s1)))"

definition rc_drop_dirty_caches :: "rc_state \<Rightarrow> rc_state" where
  "rc_drop_dirty_caches s = rs_set_cache (clean_up_dirty_cache (rs_cache s) (rs_tabs s), rs_tabs s) s"

end
