(* ===== verification/Qcow2Types.thy ===== *)
theory Qcow2Types
  imports Qcow2Open
begin

text \<open>
  The shape of the L2 cache, which every operation keeps, whether it succeeds or fails in the
  middle, and the bound on the number of tables in it. What is left of dropped tables.
\<close>

section \<open>The shape\<close>

definition cached_ok :: "nat \<Rightarrow> tables \<Rightarrow> tid \<Rightarrow> u64 \<times> tid \<Rightarrow> bool" where
  "cached_ok cs ts nx = (\<lambda>(k, i). k \<noteq> 0 \<and> i < nx \<and> tab_ok cs (ts i) \<and> ct_addr (ts i) = k \<and> ct_lru_count (ts i) < - 1)"

definition l2_cache_ok :: "nat \<Rightarrow> qcow2_cache \<Rightarrow> tables \<Rightarrow> tid \<Rightarrow> bool" where
  "l2_cache_ok cs c ts nx \<longleftrightarrow> distinct (map fst (qc_map c)) \<and> list_all (cached_ok cs ts nx) (qc_map c) \<and>
     list_all (\<lambda>j. j < nx \<and> tab_ok cs (ts j)) (qc_dirty_tables c) \<and> length (qc_map c) \<le> qc_max_size c \<and> 0 < qc_max_size c"

definition l2_shape :: "nat \<Rightarrow> l2_state \<Rightarrow> bool" where
  "l2_shape cs s \<longleftrightarrow> l2_cache_ok cs (ls_cache s) (ls_tabs s) (ls_next s)"

lemma minus_one_gt_0 [simp]: "(0 :: u64) < - 1"
  by (simp add: word_gt_0)

lemma tab_ok_lru [simp]: "tab_ok cs (t\<lparr>ct_lru_count := n\<rparr>) = tab_ok cs t"
  by (simp add: tab_ok_def)

lemma tab_ok_clean [simp]: "tab_ok cs t \<Longrightarrow> tab_ok cs (t\<lparr>ct_dirty := clean_info\<rparr>)"
  by (simp add: tab_ok_def clean_info_def)

lemma check_refcount_ok:
  assumes "check_refcount (c, ts) = (c', ts')" and "l2_cache_ok cs c ts nx"
  shows "l2_cache_ok cs c' ts' nx" "qc_lru_count c' < - 1" "tab_ok cs (ts i) \<Longrightarrow> tab_ok cs (ts' i)" "ct_addr (ts' i) = ct_addr (ts i)"
    "qc_map c' = qc_map c" "qc_max_size c' = qc_max_size c"
  using assms by (auto simp: check_refcount_def reset_lru_def l2_cache_ok_def cached_ok_def list_all_iff split: if_splits)

lemma touch_ok:
  assumes "touch i (c, ts) = (c', ts')" and "l2_cache_ok cs c ts nx" and "qc_lru_count c < - 1"
  shows "l2_cache_ok cs c' ts' nx" "tab_ok cs (ts i) \<Longrightarrow> tab_ok cs (ts' i)" "ct_addr (ts' i) = ct_addr (ts i)" "ct_lru_count (ts' i) < - 1"
    "qc_map c' = qc_map c"
  using assms by (auto simp: touch_def l2_cache_ok_def cached_ok_def list_all_iff)

lemma cache_get_ok:
  assumes "cache_get key (c, ts) = (r, c', ts')" and "l2_cache_ok cs c ts nx"
  shows "l2_cache_ok cs c' ts' nx \<and> r = map_of (qc_map c') key"
proof -
  obtain c1 ts1 where 1: "check_refcount (c, ts) = (c1, ts1)" by (cases "check_refcount (c, ts)")
  note k = check_refcount_ok [OF 1 assms(2)]
  show ?thesis
  proof (cases "map_of (qc_map c1) key")
    case (Some i)
    obtain c2 ts2 where 2: "touch i (c1, ts1) = (c2, ts2)" by (cases "touch i (c1, ts1)")
    then show ?thesis using touch_ok [OF 2 k(1,2)] assms(1) 1 Some by (simp add: cache_get_def)
  qed (use assms(1) 1 k in \<open>simp add: cache_get_def\<close>)
qed

lemma least_used_some:
  "best \<noteq> None \<or> (\<exists>(k, i) \<in> set xs. ct_lru_count (ts i) < n) \<Longrightarrow> least_used ts n best xs \<noteq> None"
  by (induction ts n best xs rule: least_used.induct) (auto split: if_splits)

lemma length_hash_remove: "k \<in> fst ` set m \<Longrightarrow> length (hash_remove k m) < length m"
  unfolding hash_remove_def by (auto intro: length_filter_less)

lemma hash_remove_ok:
  assumes "list_all P m" and "distinct (map fst m)"
  shows "list_all P (hash_remove k m)" "distinct (map fst (hash_remove k m))" "length (hash_remove k m) \<le> length m" "k \<notin> fst ` set (hash_remove k m)"
  using assms by (auto simp: hash_remove_def list_all_iff distinct_map_filter)

lemma lru_replace_ok:
  assumes run: "lru_replace ord key i (c, ts) = (v, c', ts')" and c: "l2_cache_ok cs c ts nx" and ord: "\<And>m. set (ord m) = set m"
    and i: "i < nx" "tab_ok cs (ts i)" "ct_addr (ts i) = key" "key \<noteq> 0"
  shows "l2_cache_ok cs c' ts' nx \<and> (key, i) \<in> set (qc_map c')"
proof -
  obtain c1 ts1 where 1: "check_refcount (c, ts) = (c1, ts1)" by (cases "check_refcount (c, ts)")
  note k = check_refcount_ok [OF 1 c]
  obtain c2 ts2 where 2: "touch i (c1, ts1) = (c2, ts2)" by (cases "touch i (c1, ts1)")
  note t = touch_ok [OF 2 k(1,2)]
  have ti: "cached_ok cs ts2 nx (key, i)" using t(2-4) k(3,4) i by (simp add: cached_ok_def)
  have m2: "distinct (map fst (qc_map c2))" "list_all (cached_ok cs ts2 nx) (qc_map c2)" "length (qc_map c2) \<le> qc_max_size c2" "0 < qc_max_size c2"
    using t(1) by (auto simp: l2_cache_ok_def)
  show ?thesis
  proof (cases "length (qc_map c2) < qc_max_size c2")
    case True
    then have "c' = c2\<lparr>qc_map := hash_insert key i (qc_map c2)\<rparr>" "ts' = ts2" using run 1 2 by (simp_all add: lru_replace_def)
    then show ?thesis using True t(1) ti hash_remove_ok [OF m2(2,1), of key] by (auto simp: l2_cache_ok_def hash_insert_def)
  next
    case False
    define w where "w = least_used ts2 (- 1) None (ord (qc_map c2))"
    have "qc_map c2 \<noteq> []" using False m2(4) by auto
    then obtain a where "a \<in> set (qc_map c2)" by (meson last_in_set)
    then have "\<exists>(k, i) \<in> set (ord (qc_map c2)). ct_lru_count (ts2 i) < - 1" using m2(2) ord by (auto simp: list_all_iff cached_ok_def intro!: bexI [of _ a])
    then have "w \<noteq> None" unfolding w_def by (intro least_used_some) blast
    then obtain kv j where w: "w = Some (kv, j)" by auto
    then have "(kv, j) \<in> set (qc_map c2)" using least_used_mem [of ts2 "- 1" None "ord (qc_map c2)" "(kv, j)"] ord by (simp add: w_def)
    then have len: "length (hash_remove kv (qc_map c2)) < length (qc_map c2)" by (intro length_hash_remove) (force simp: image_iff)
    have e: "c' = c2\<lparr>qc_map := hash_insert key i (hash_remove kv (qc_map c2))\<rparr>" "ts' = ts2" using run 1 2 False w w_def by (auto simp: lru_replace_def Let_def)
    note r = hash_remove_ok [OF m2(2,1), of kv]
    show ?thesis using len t(1) ti m2(3) hash_remove_ok [OF r(1,2), of key] by (auto simp: e l2_cache_ok_def hash_insert_def)
  qed
qed

section \<open>Every operation keeps it\<close>

lemma l2_cache_ok_less: "l2_cache_ok cs c ts nx \<Longrightarrow> i \<in> snd ` set (qc_map c) \<union> set (qc_dirty_tables c) \<Longrightarrow> i < nx"
  by (auto simp: l2_cache_ok_def cached_ok_def list_all_iff)

lemma l2_cache_ok_new: "l2_cache_ok cs c ts nx \<Longrightarrow> l2_cache_ok cs c (ts(nx := t)) (Suc nx)"
  by (auto simp: l2_cache_ok_def cached_ok_def list_all_iff)

lemma l2_cache_ok_remove:
  assumes "l2_cache_ok cs c ts nx"
  shows "l2_cache_ok cs (c\<lparr>qc_map := hash_remove k (qc_map c)\<rparr>) ts nx"
  using assms hash_remove_ok [of "cached_ok cs ts nx" "qc_map c" k] by (auto simp: l2_cache_ok_def)

lemma set_cache_shape: "l2_shape cs (set_cache (c, ts) s) = l2_cache_ok cs c ts (ls_next s)"
  by (simp add: l2_shape_def)

lemma disk_shape [simp]: "l2_shape cs (s\<lparr>ls_disk := d\<rparr>) = l2_shape cs s"
  by (simp add: l2_shape_def ls_cache_def)

lemma cache_l2_table_shape:
  assumes s: "l2_shape cs s" and ord: "\<And>m. set (ord m) = set m" and t: "tab_ok cs t" "ct_addr t \<noteq> 0"
    and al: "alloc_table t s = (i, s2)"
  shows "l2_shape cs (snd (cache_l2_table io ord i s2)) \<and> (ct_addr t, i) \<in> set (qc_map (ls_cache (snd (cache_l2_table io ord i s2)))) \<and>
    same_l1 s (snd (cache_l2_table io ord i s2))"
proof -
  have s2: "i = ls_next s" "ls_cache s2 = ls_cache s" "ls_tabs s2 = (ls_tabs s)(i := t)" "ls_next s2 = Suc i" "ls_table s2 = ls_table s" using al by (auto simp: alloc_table_def ls_cache_def)
  define c1 where "c1 = (if contains_keys (ct_addr t) (ls_cache s) then (ls_cache s)\<lparr>qc_map := hash_remove (ct_addr t) (qc_map (ls_cache s))\<rparr> else ls_cache s)"
  have "l2_cache_ok cs (ls_cache s) ((ls_tabs s)(i := t)) (Suc i)" using s l2_cache_ok_new s2(1) by (simp add: l2_shape_def)
  then have c1: "l2_cache_ok cs c1 ((ls_tabs s)(i := t)) (Suc i)"
    unfolding c1_def by (simp add: l2_cache_ok_remove)
  obtain v c' ts' where lru: "lru_replace ord (ct_addr t) i (c1, (ls_tabs s)(i := t)) = (v, c', ts')" by (metis prod_cases3)
  have "l2_cache_ok cs c' ts' (Suc i)" "(ct_addr t, i) \<in> set (qc_map c')" using lru_replace_ok [OF lru c1 ord] t by simp_all
  then have "l2_shape cs (set_cache (c', ts') s2)" "(ct_addr t, i) \<in> set (qc_map (ls_cache (set_cache (c', ts') s2)))"
    using s2(4) by (simp_all add: set_cache_shape)
  moreover have e: "\<exists>d. set_cache (c', ts') s2 = (set_cache (c', ts') s2)\<lparr>ls_disk := d\<rparr>" by (metis ls_disk_same)
  moreover have "\<exists>d. snd (cache_l2_table io ord i s2) = (set_cache (c', ts') s2)\<lparr>ls_disk := d\<rparr>"
    using lru s2(2,3) e
    by (auto simp: cache_l2_table_def Let_def c1_def simp del: set_cache_simps split: option.split prod.split)
  ultimately show ?thesis using s2(5) by (auto simp: ls_cache_def same_l1_def)
qed

lemma cache_get_shape:
  assumes "cache_get key (ls_cache s, ls_tabs s) = (r, ct)" and "l2_shape cs s"
  shows "l2_shape cs (set_cache ct s)" "r = map_of (qc_map (ls_cache (set_cache ct s))) key"
proof -
  obtain c ts where ct: "ct = (c, ts)" by (cases ct)
  note g = cache_get_ok [OF assms(1) [unfolded ct] assms(2) [unfolded l2_shape_def]]
  show "l2_shape cs (set_cache ct s)" "r = map_of (qc_map (ls_cache (set_cache ct s))) key" using g by (simp_all add: ct set_cache_shape)
qed

lemma update_l2_table_shape:
  assumes sz: "size_ok cs" and s: "l2_shape cs s" and i: "tab_ok cs (ls_tabs s i)" "i < ls_next s" and idx: "unat idx < 2 ^ 60"
  shows "l2_shape cs (snd (update_l2_table i idx v s))"
proof (cases "set_entry_map idx v (ls_tabs s i)")
  case (Inl e)
  then show ?thesis using s by (simp add: update_l2_table_def Let_def)
next
  case (Inr t)
  have "tab_ok cs t \<and> ct_addr t = ct_addr (ls_tabs s i) \<and> ct_lru_count t = ct_lru_count (ls_tabs s i)"
    using set_entry_writes(1,2) [OF sz i(1) idx Inr] Inr by (auto simp: set_entry_map_def and_then_Inr Let_def)
  then have "l2_cache_ok cs (if di_is_dirty (ct_dirty (ls_tabs s i)) then ls_cache s else add_dirty_table i (ls_cache s)) ((ls_tabs s)(i := t)) (ls_next s)"
    using s i(2) by (auto simp: l2_shape_def l2_cache_ok_def cached_ok_def add_dirty_table_def list_all_iff)
  then show ?thesis using Inr by (simp add: update_l2_table_def Let_def set_cache_shape)
qed

lemma table_drop_shape:
  assumes "l2_shape cs s"
  shows "l2_shape cs (table_drop_dirty_caches s)"
proof -
  have "l2_cache_ok cs (clean_up_dirty_cache (ls_cache s) (ls_tabs s)) (ls_tabs s) (ls_next s)"
    using assms le_trans [OF length_filter_le] by (auto simp: l2_shape_def l2_cache_ok_def clean_up_dirty_cache_def list_all_iff distinct_map_filter)
  then show ?thesis by (simp add: table_drop_dirty_caches_def set_cache_shape)
qed

lemma clear_dirty_ok: "l2_cache_ok cs c ts nx \<Longrightarrow> l2_cache_ok cs c (clear_dirty i ts) nx"
  by (auto simp: l2_cache_ok_def cached_ok_def clear_dirty_def list_all_iff)

lemma flush_tables_shape:
  assumes "l2_cache_ok cs c ts nx" and "flush_tables io is r ts d = (r', ts', d')"
  shows "l2_cache_ok cs c ts' nx"
  using assms
proof (induction io "is" r ts d rule: flush_tables.induct)
  case (2 io i "is" ret ts d)
  note k = clear_dirty_ok [OF "2.prems"(1)]
  show ?case using 2 k by (auto split: if_splits prod.splits sum.splits qcow2_error.splits)
qed simp

lemma table_flush_shape:
  assumes "l2_shape cs s"
  shows "l2_shape cs (snd (table_flush io s))"
proof -
  obtain r ts d where f: "flush_tables io (qc_dirty_tables (ls_cache s)) (Inr ()) (ls_tabs s) (ls_disk s) = (r, ts, d)" by (metis prod_cases3)
  have "l2_cache_ok cs (ls_cache s) ts (ls_next s)" using flush_tables_shape [OF _ f] assms by (simp add: l2_shape_def)
  then have "l2_cache_ok cs ((ls_cache s)\<lparr>qc_dirty_tables := []\<rparr>) ts (ls_next s)" by (simp add: l2_cache_ok_def)
  then show ?thesis using f by (simp add: table_flush_def cache_flush_def set_cache_shape)
qed

lemma cached_l2_table_shape:
  assumes g: "geometry cs h (ls_table s)" and s: "l2_shape cs s" and ord: "\<And>m. set (ord m) = set m" and a: "a \<noteq> 0"
    and run: "cached_l2_table io ord h a s = (r, s')"
  shows "l2_shape cs s' \<and> same_l1 s s' \<and> (\<forall>i. r = Inr i \<longrightarrow> (a, i) \<in> set (qc_map (ls_cache s')))"
proof -
  obtain r0 ct where get: "cache_get a (ls_cache s, ls_tabs s) = (r0, ct)" by (cases "cache_get a (ls_cache s, ls_tabs s)")
  note k = cache_get_shape [OF get s]
  have l: "same_l1 s (set_cache ct s)" by (cases ct) (auto simp: same_l1_def)
  show ?thesis
  proof (cases r0)
    case (Some j)
    then show ?thesis using run get k l by (auto simp: cached_l2_table_def dest: map_of_SomeD)
  next
    case None
    show ?thesis
    proof (cases "and_then (load_cluster io h a (ls_disk (set_cache ct s))) (\<lambda>l2_cluster. new_cache_table a l2_cluster ENTRY_SIZE_U64)")
      case (Inl e)
      then show ?thesis using run get None k l by (auto simp: cached_l2_table_def)
    next
      case (Inr t)
      obtain i s2 where al: "alloc_table t (set_cache ct s) = (i, s2)" by (cases "alloc_table t (set_cache ct s)")
      note w = cache_l2_table_shape [OF k(1) ord load_l2(3) [OF g Inr] _ al, of io]
      show ?thesis using run get None Inr al w load_l2(2) [OF g Inr] a same_l1_trans [OF l]
        by (cases "cache_l2_table io ord i s2") (auto simp: cached_l2_table_def split: sum.splits)
    qed
  qed
qed

lemma get_l2_entry_shape:
  assumes g: "geometry cs h (ls_table s)" and s: "l2_shape cs s" and ord: "\<And>m. set (ord m) = set m"
  shows "l2_shape cs (snd (get_l2_entry io ord h off s)) \<and> same_l1 s (snd (get_l2_entry io ord h off s))"
proof (cases "get_l1_table_entry (ls_table s) off")
  case (Inl e)
  then show ?thesis using s by (simp add: get_l2_entry_def get_l2_table_cache_entry_def)
next
  case (Inr e)
  let ?a = "e AND L1_TABLE_OFFSET_MASK"
  obtain r0 ct where get: "cache_get ?a (ls_cache s, ls_tabs s) = (r0, ct)" by (cases "cache_get ?a (ls_cache s, ls_tabs s)")
  note k = cache_get_shape [OF get s]
  let ?s1 = "set_cache ct s"
  have l: "same_l1 s ?s1" by (cases ct) (auto simp: same_l1_def)
  have e1: "get_l1_table_entry (ls_table ?s1) off = Inr e" using Inr same_l1_fields(1) [OF l] by simp
  show ?thesis
  proof (cases "?a = 0 \<or> r0 \<noteq> None")
    case True
    then show ?thesis using s Inr get k l by (auto simp: get_l2_entry_def get_l2_table_cache_entry_def Let_def split: option.splits)
  next
    case False
    then have c: "get_l2_table_cache_entry off s = (Inr None, ?s1)" using Inr get by (simp add: get_l2_table_cache_entry_def Let_def)
    show ?thesis
    proof (cases "and_then (load_cluster io h ?a (ls_disk ?s1)) (\<lambda>l2_cluster. new_cache_table ?a l2_cluster ENTRY_SIZE_U64)")
      case (Inl x)
      then show ?thesis using c e1 False k(1) l by (simp add: get_l2_entry_def Let_def)
    next
      case t: (Inr t)
      obtain i s2 where al: "alloc_table t ?s1 = (i, s2)" by (cases "alloc_table t ?s1")
      note w = cache_l2_table_shape [OF k(1) ord load_l2(3) [OF g t] _ al, of io]
      show ?thesis using c e1 t False al w load_l2(2) [OF g t] k(1) l same_l1_trans [OF l]
        by (cases "get_entry_map (get_l2_table_index (ls_table s) off) t"; cases "cache_l2_table io ord i s2")
          (auto simp: get_l2_entry_def Let_def split: sum.splits)
    qed
  qed
qed

lemma write_l2_entry_shape:
  assumes g: "geometry cs h (ls_table s)" and s: "l2_shape cs s" and ord: "\<And>m. set (ord m) = set m"
  shows "l2_shape cs (snd (write_l2_entry io ord h off v s)) \<and> same_l1 s (snd (write_l2_entry io ord h off v s))"
proof (cases "get_l1_table_entry (ls_table s) off")
  case (Inl e)
  then show ?thesis using s by (simp add: write_l2_entry_def)
next
  case (Inr e)
  let ?a = "e AND L1_TABLE_OFFSET_MASK"
  obtain r s1 where t: "cached_l2_table io ord h ?a s = (r, s1)" by (cases "cached_l2_table io ord h ?a s")
  show ?thesis
  proof (cases "?a = 0")
    case True
    then show ?thesis using s Inr by (simp add: write_l2_entry_def)
  next
    case False
    note k = cached_l2_table_shape [OF g s ord False t]
    show ?thesis
    proof (cases r)
      case (Inl x)
      then show ?thesis using k Inr t False by (simp add: write_l2_entry_def)
    next
      case i: (Inr i)
      have k1: "l2_shape cs s1" "same_l1 s s1" using k by auto
      have "(?a, i) \<in> set (qc_map (ls_cache s1))" using k i by blast
      then have "tab_ok cs (ls_tabs s1 i)" "i < ls_next s1" using k1(1) by (auto simp: l2_shape_def l2_cache_ok_def cached_ok_def list_all_iff)
      moreover have "geometry cs h (ls_table s1)" using g same_l1_fields(3) [OF k1(2)] by simp
      note sz = geometry_size [OF this]
      moreover have "unat (get_l2_table_index (ls_table s1) off) < 2 ^ 60"
        using less_le_trans [OF sz(4) div_le_dividend, of off] sz(1) by (simp add: size_ok_def)
      ultimately have u: "l2_shape cs (snd (update_l2_table i (get_l2_table_index (ls_table s1) off) v s1))"
        using k1(1) by (intro update_l2_table_shape)
      have "same_l1 s1 (snd (update_l2_table i (get_l2_table_index (ls_table s1) off) v s1))"
        by (cases "set_entry_map (get_l2_table_index (ls_table s1) off) v (ls_tabs s1 i)")
          (simp add: update_l2_table_def, auto simp: update_l2_table_def Let_def same_l1_def)
      from u same_l1_trans [OF k1(2) this] show ?thesis using Inr t False i by (simp add: write_l2_entry_def)
    qed
  qed
qed

section \<open>Histories\<close>

text \<open>
  What happens to the tables of an open image: operations, each with failures of its own, and the
  dropping of modified tables. A failed operation does not end the history.
\<close>

datatype l2_event = Op aio_fail l2_op | DropDirty

fun l2_event_step :: "hash_order \<Rightarrow> qcow_header \<Rightarrow> l2_state \<Rightarrow> l2_event \<Rightarrow> l2_state" where
  "l2_event_step ord h s (Op io p) = snd (l2_step io ord h p s)"
| "l2_event_step ord h s DropDirty = table_drop_dirty_caches s"

lemma l2_event_shape:
  assumes g: "geometry cs h (ls_table s)" and s: "l2_shape cs s" and ord: "\<And>m. set (ord m) = set m"
  shows "l2_shape cs (l2_event_step ord h s e) \<and> same_l1 s (l2_event_step ord h s e)"
proof (cases e)
  case (Op io p)
  have "same_l1 s (snd (table_flush io s))" by (auto simp: table_flush_def same_l1_def split: prod.split)
  then show ?thesis using Op get_l2_entry_shape [OF g s ord] write_l2_entry_shape [OF g s ord] table_flush_shape [OF s]
    by (cases p) (simp_all add: case_prod_unfold)
next
  case DropDirty
  then show ?thesis using table_drop_shape [OF s] by (auto simp: table_drop_dirty_caches_def same_l1_def)
qed

lemma l2_history_shape:
  assumes "geometry cs h (ls_table s)" and "l2_shape cs s" and ord: "\<And>m. set (ord m) = set m"
  shows "l2_shape cs (foldl (l2_event_step ord h) s es)"
  using assms(1,2)
proof (induction es arbitrary: s)
  case (Cons e es)
  note k = l2_event_shape [OF Cons.prems ord, of e]
  show ?case using k Cons.IH [of "l2_event_step ord h s e"] Cons.prems(1) same_l1_fields(3) [of s "l2_event_step ord h s e" cs h] by simp
qed simp

text \<open>
  C20. The cache of L2 tables is well-formed in every reachable state, failed requests and dropped
  tables included: no two cached tables have the same address and none has the address 0, every table in the cache or in
  the list of modified ones has the address it is found under, the bytes of exactly one cluster, entries of 8
  bytes and a modified part that lies inside it, every count of use is below the bound at which the
  counts are reset, and the cache never holds more tables than its size.
\<close>

theorem l2_cache_shape:
  assumes "header_check h = Inr ()" and "open_tables io h sz d = Inr tb" and "\<And>m. set (ord m) = set m"
  shows "l2_shape (unat (cluster_size h)) (foldl (l2_event_step ord h) (opened tb ts d) es)"
proof (rule l2_history_shape)
  show "geometry (unat (cluster_size h)) h (ls_table (opened tb ts d))" using open_tables_geometry [OF assms(1,2)] by (simp add: opened_def)
  show "l2_shape (unat (cluster_size h)) (opened tb ts d)"
    using open_tables_table [OF assms(1,2)] by (auto simp: l2_shape_def l2_cache_ok_def opened_def ls_cache_def)
  show "set (ord m) = set m" for m by (rule assms(3))
qed

theorem l2_cache_shape_witness:
  "l2_shape 512 (foldl (l2_event_step id ex_image_header) (opened ex_image_table no_tables ex_image)
     [Op (\<lambda>_ _. None) (WriteEntry 0 2048), Op (\<lambda>_ d. Some d) FlushTables, DropDirty, Op (\<lambda>_ _. None) (ReadEntry 512)])"
proof -
  have c: "unat (cluster_size ex_image_header) = 512" by code_simp
  have ord: "set (id m) = set m" for m :: "(u64 \<times> tid) list" by simp
  show ?thesis using l2_cache_shape [OF ex_image_opens ord, of no_tables] unfolding c .
qed

section \<open>Dropped tables\<close>

lemma drop_keeps_flush:
  "fst (table_flush io (table_drop_dirty_caches s)) = fst (table_flush io s)"
  "ls_disk (snd (table_flush io (table_drop_dirty_caches s))) = ls_disk (snd (table_flush io s))"
  by (simp_all add: table_flush_def table_drop_dirty_caches_def cache_flush_def clean_up_dirty_cache_def case_prod_unfold)

text \<open>
  C39. Dropping the modified tables, by which a snapshot operation that failed is to be reverted, does not undo
  their changes: whatever was changed in the tables before, the first flush after it
  writes all of it to the file.
\<close>

theorem dropped_tables_reach_file:
  assumes "header_check h = Inr ()" and "open_tables io h sz d = Inr tb" and "\<And>m. set (ord m) = set m"
    and "l2_run io ord h ps (opened tb ts d) = (Inr vs, s')" and f: "table_flush io (table_drop_dirty_caches s') = (Inr (), s'')"
    and "is_aligned (cluster_size h) a" and "n < unat (cluster_size h) div 8"
  shows "file_entry (ls_disk s'') (a, n) = snd (plain_run tb ps (file_entry d)) (a, n)"
proof -
  have "table_flush io s' = (Inr (), snd (table_flush io s'))" "ls_disk (snd (table_flush io s')) = ls_disk s''"
    using drop_keeps_flush [of io s'] f by (simp_all add: prod_eq_iff)
  then show ?thesis using opened_flush [OF assms(1-4) _ assms(6,7)] by metis
qed

theorem dropped_tables_reach_file_witness:
  "\<exists>s' s''. l2_run (\<lambda>_ _. None) id ex_image_header [WriteEntry 0 2048] (opened ex_image_table no_tables ex_image) = (Inr [None], s') \<and>
     table_flush (\<lambda>_ _. None) (table_drop_dirty_caches s') = (Inr (), s'') \<and> file_entry (ls_disk s'') (1536, 0) = 2048"
proof -
  have ord: "set (id m) = set m" for m :: "(u64 \<times> tid) list" by simp
  have ops: "\<forall>p \<in> set [WriteEntry 0 2048]. op_ok ex_image_header ex_image_table p" using ex_image_ops by simp
  obtain vs s' s1 where r: "l2_run (\<lambda>_ _. None) id ex_image_header [WriteEntry 0 2048] (opened ex_image_table no_tables ex_image) = (Inr vs, s')"
    "table_flush (\<lambda>_ _. None) s' = (Inr (), s1)"
    using opened_run_ok [OF ex_image_opens ord ops, of no_tables] by blast
  have f: "table_flush (\<lambda>_ _. None) (table_drop_dirty_caches s') = (Inr (), snd (table_flush (\<lambda>_ _. None) (table_drop_dirty_caches s')))"
    using drop_keeps_flush(1) [of "\<lambda>_ _. None" s'] r(2) by (simp add: prod_eq_iff)
  have c: "unat (cluster_size ex_image_header) div 8 = 64" "is_aligned (cluster_size ex_image_header) 1536" by code_simp+
  have p: "fst (plain_run ex_image_table [WriteEntry 0 2048] (file_entry ex_image)) = [None]"
    "snd (plain_run ex_image_table [WriteEntry 0 2048] (file_entry ex_image)) (1536, 0) = 2048" by code_simp+
  have "vs = [None]" using opened_run [OF ex_image_opens ord r(1)] p(1) by simp
  moreover have "file_entry (ls_disk (snd (table_flush (\<lambda>_ _. None) (table_drop_dirty_caches s')))) (1536, 0) = 2048"
    using dropped_tables_reach_file [OF ex_image_opens ord r(1) f c(2), of 0] c(1) p(2) by simp
  ultimately show ?thesis using r(1) f by blast
qed

end
