(* ===== verification/Qcow2Counts.thy ===== *)
theory Qcow2Counts
  imports Qcow2Refcount Qcow2Types
begin

text \<open>
  The cache of refcount blocks is coherent with the file: loading, evicting and saving blocks does not change any
  count.
\<close>

section \<open>Blocks\<close>

definition blk_ok :: "nat \<Rightarrow> cache_table \<Rightarrow> bool" where
  "blk_ok cs t \<longleftrightarrow> tab_ok cs (t\<lparr>ct_entry_size := ENTRY_SIZE_U64\<rparr>) \<and> ct_entry_size t = ENTRY_SIZE_U16"

definition block_ok :: "nat \<Rightarrow> u64 list \<Rightarrow> tables \<Rightarrow> tid \<Rightarrow> memory \<Rightarrow> u64 \<times> tid \<Rightarrow> bool" where
  "block_ok cs T ts nx d = (\<lambda>(k, i). unat k < length T \<and> T ! unat k \<noteq> 0 \<and> i < nx \<and> blk_ok cs (ts i) \<and> ct_addr (ts i) = T ! unat k \<and>
     ct_lru_count (ts i) < - 1 \<and> (\<forall>p < cs. writes (ts i) p = None \<longrightarrow> d (T ! unat k + of_nat p) = ct_data (ts i) ! p))"

definition blocks_ok :: "nat \<Rightarrow> u64 list \<Rightarrow> (u64 \<times> tid) list \<Rightarrow> tid list \<Rightarrow> tables \<Rightarrow> tid \<Rightarrow> memory \<Rightarrow> bool" where
  "blocks_ok cs T m ds ts nx d \<longleftrightarrow> distinct (map fst m) \<and> distinct (map snd m) \<and> (\<forall>e \<in> set m. block_ok cs T ts nx d e) \<and>
     (\<forall>(k, i) \<in> set m. di_is_dirty (ct_dirty (ts i)) \<longrightarrow> i \<in> set ds) \<and>
     (\<forall>j \<in> set ds. j < nx \<and> blk_ok cs (ts j) \<and> (di_is_dirty (ct_dirty (ts j)) \<longrightarrow> j \<in> snd ` set m))"

definition rc_table_ok :: "nat \<Rightarrow> u64 list \<Rightarrow> bool" where
  "rc_table_ok cs T \<longleftrightarrow> (\<forall>r < length T. at_cluster cs (T ! r)) \<and> (\<forall>r r'. r < length T \<longrightarrow> r' < length T \<longrightarrow> T ! r \<noteq> 0 \<longrightarrow> T ! r = T ! r' \<longrightarrow> r = r')"

text \<open>A byte of the block with index \<open>r\<close>, as the driver sees it.\<close>

definition blk_view :: "u64 list \<Rightarrow> (u64 \<times> tid) list \<Rightarrow> tables \<Rightarrow> memory \<Rightarrow> nat \<Rightarrow> nat \<Rightarrow> u8" where
  "blk_view T m ts d r p = (case map_of m (of_nat r) of Some i \<Rightarrow> ct_data (ts i) ! p | None \<Rightarrow> d (T ! r + of_nat p))"

lemma blocks_okD:
  assumes "blocks_ok cs T m ds ts nx d"
  shows "distinct (map fst m)" "distinct (map snd m)"
    "(k, i) \<in> set m \<Longrightarrow> unat k < length T \<and> T ! unat k \<noteq> 0 \<and> i < nx \<and> blk_ok cs (ts i) \<and> ct_addr (ts i) = T ! unat k \<and> ct_lru_count (ts i) < - 1"
    "(k, i) \<in> set m \<Longrightarrow> p < cs \<Longrightarrow> writes (ts i) p = None \<Longrightarrow> d (T ! unat k + of_nat p) = ct_data (ts i) ! p"
    "(k, i) \<in> set m \<Longrightarrow> di_is_dirty (ct_dirty (ts i)) \<Longrightarrow> i \<in> set ds"
    "j \<in> set ds \<Longrightarrow> j < nx \<and> blk_ok cs (ts j) \<and> (di_is_dirty (ct_dirty (ts j)) \<longrightarrow> j \<in> snd ` set m)"
  using assms by (auto simp: blocks_ok_def block_ok_def)

lemma blk_ok_simps: "blk_ok cs t \<Longrightarrow> length (ct_data t) = cs" "blk_ok cs t \<Longrightarrow> at_cluster cs (ct_addr t)" "blk_ok cs t \<Longrightarrow> ct_entry_size t = ENTRY_SIZE_U16"
  by (auto simp: blk_ok_def tab_ok_def)

lemma blk_ok_clean [simp]: "blk_ok cs t \<Longrightarrow> blk_ok cs (t\<lparr>ct_dirty := clean_info\<rparr>)"
  by (simp add: blk_ok_def tab_ok_def clean_info_def)

lemma blk_ok_core: "same_core ts ts' \<Longrightarrow> blk_ok cs (ts' i) = blk_ok cs (ts i)"
  by (simp add: same_core_def blk_ok_def tab_ok_def)

lemma writes_core: "same_core ts ts' \<Longrightarrow> writes (ts' i) p = writes (ts i) p"
  by (simp add: same_core_def writes_def lo_def hi_def)

lemma writes_clean [simp]: "writes (t\<lparr>ct_dirty := clean_info\<rparr>) p = None"
  by (simp add: writes_def clean_info_def)

lemma write_block_bytes:
  assumes "size_ok cs" and "blk_ok cs t" and "di_is_dirty (ct_dirty t)" and "write_table io t d = (Inr (), d')" and "at_cluster cs a" and "p < cs"
  shows "d' (a + of_nat p) = (if a = ct_addr t then case writes t p of Some v \<Rightarrow> v | None \<Rightarrow> d (a + of_nat p) else d (a + of_nat p))"
proof -
  let ?t = "t\<lparr>ct_entry_size := ENTRY_SIZE_U64\<rparr>"
  have w: "write_table io ?t d = (Inr (), d')" using assms(4) by (simp add: write_table_def)
  have "writes ?t p = writes t p" by (simp add: writes_def lo_def hi_def)
  then show ?thesis using write_table_bytes [OF assms(1) _ _ w assms(5,6)] assms(2,3) by (simp add: blk_ok_def)
qed

text \<open>Once it is written, the file has the block.\<close>

lemma write_block_file:
  assumes sz: "size_ok cs" and b: "blocks_ok cs T m ds ts nx d" and j: "(k, j) \<in> set m" and w: "write_table io (ts j) d = (Inr (), d')" "di_is_dirty (ct_dirty (ts j))" and p: "p < cs"
  shows "d' (T ! unat k + of_nat p) = ct_data (ts j) ! p"
proof -
  note o = blocks_okD(3) [OF b j]
  have "at_cluster cs (T ! unat k)" using blk_ok_simps(2) [of cs "ts j"] o by auto
  from write_block_bytes [OF sz _ w(2,1) this p] o show ?thesis
    using blocks_okD(4) [OF b j p] by (auto simp: writes_def split: option.splits if_splits)
qed

section \<open>Loading and evicting\<close>

text \<open>What keeps every count: the bytes of the blocks that the table names.\<close>

definition same_blocks :: "nat \<Rightarrow> u64 list \<Rightarrow> (nat \<Rightarrow> nat \<Rightarrow> u8) \<Rightarrow> (nat \<Rightarrow> nat \<Rightarrow> u8) \<Rightarrow> bool" where
  "same_blocks cs T f f' \<longleftrightarrow> (\<forall>r < length T. T ! r \<noteq> 0 \<longrightarrow> (\<forall>p < cs. f' r p = f r p))"

lemma same_blocks_refl [simp]: "same_blocks cs T f f"
  by (simp add: same_blocks_def)

lemma same_blocks_trans: "same_blocks cs T f g \<Longrightarrow> same_blocks cs T g h \<Longrightarrow> same_blocks cs T f h"
  by (simp add: same_blocks_def)

lemma blocks_core:
  assumes "same_core ts ts'" and "\<And>k i. (k, i) \<in> set m \<Longrightarrow> ct_lru_count (ts' i) < - 1" and "blocks_ok cs T m ds ts nx d"
  shows "blocks_ok cs T m ds ts' nx d" "blk_view T m ts' d = blk_view T m ts d"
proof -
  have e: "ct_dirty (ts' i) = ct_dirty (ts i)" "ct_addr (ts' i) = ct_addr (ts i)" "ct_data (ts' i) = ct_data (ts i)" for i
    using assms(1) by (simp_all add: same_core_def)
  have "block_ok cs T ts' nx d x" if "x \<in> set m" for x
    using that assms(2,3) unfolding blocks_ok_def block_ok_def
    by (cases x) (auto simp: e blk_ok_core [OF assms(1)] writes_core [OF assms(1)])
  then show "blocks_ok cs T m ds ts' nx d" using assms(3) by (auto simp: blocks_ok_def e blk_ok_core [OF assms(1)])
  show "blk_view T m ts' d = blk_view T m ts d" by (auto simp: blk_view_def e fun_eq_iff split: option.split)
qed

lemma blocks_evict:
  assumes sz: "size_ok cs" and T: "rc_table_ok cs T" "length T < 2 ^ 64" and b: "blocks_ok cs T m ds ts nx d" and j: "(k, j) \<in> set m"
    and w: "if di_is_dirty (ct_dirty (ts j)) then write_table io (ts j) d = (Inr (), d') \<and> ts' = clear_dirty j ts else d' = d \<and> ts' = ts"
  shows "blocks_ok cs T (hash_remove k m) ds ts' nx d'" "same_blocks cs T (blk_view T m ts d) (blk_view T (hash_remove k m) ts' d')"
proof -
  note o = blocks_okD [OF b]
  have jk: "(k', i) \<in> set m \<Longrightarrow> i = j \<longleftrightarrow> k' = k" for k' i
    using o(1,2) j by (metis (no_types, lifting) eq_key_imp_eq_value inj_on_def distinct_map snd_conv prod.inject)
  have data: "ct_data (ts' i) = ct_data (ts i)" "ct_addr (ts' i) = ct_addr (ts i)" "ct_lru_count (ts' i) = ct_lru_count (ts i)" for i
    using w by (auto simp: clear_dirty_def split: if_splits)
  have ok: "blk_ok cs (ts' i)" if "blk_ok cs (ts i)" for i using that w by (auto simp: clear_dirty_def split: if_splits)
  have other: "ts' i = ts i" if "i \<noteq> j" for i using that w by (auto simp: clear_dirty_def split: if_splits)
  have nd: "\<not> di_is_dirty (ct_dirty (ts' j))" using w by (auto simp: clear_dirty_def clean_info_def split: if_splits)
  have disk: "d' (T ! r + of_nat p) = (if r = unat k then ct_data (ts j) ! p else d (T ! r + of_nat p))" if r: "r < length T" "T ! r \<noteq> 0" "p < cs" for r p
  proof (cases "di_is_dirty (ct_dirty (ts j))")
    case True
    then have wt: "write_table io (ts j) d = (Inr (), d')" using w by simp
    have a: "at_cluster cs (T ! r)" using T(1) r(1) by (simp add: rc_table_ok_def)
    have "T ! r = T ! unat k \<longleftrightarrow> r = unat k" using T(1) r o(3) [OF j] by (auto simp: rc_table_ok_def)
    then show ?thesis using write_block_bytes [OF sz _ True wt a r(3)] o(3) [OF j] write_block_file [OF sz b j wt True r(3)] by auto
  next
    case False
    then have "writes (ts j) p = None" "d' = d" using w by (auto simp: writes_def)
    then show ?thesis using o(4) [OF j r(3)] by auto
  qed
  have "block_ok cs T ts' nx d' (k', i)" if x: "(k', i) \<in> set (hash_remove k m)" for k' i
  proof -
    have m: "(k', i) \<in> set m" "k' \<noteq> k" using x by (auto simp: set_hash_remove)
    have "i \<noteq> j" using jk [OF m(1)] m(2) by simp
    moreover have "unat k' \<noteq> unat k" using m(2) by (simp add: word_unat_eq_iff)
    ultimately show ?thesis using o(3) [OF m(1)] o(4) [OF m(1)] disk [of "unat k'"] by (auto simp: block_ok_def other)
  qed
  moreover have "i \<in> set ds" if "(k', i) \<in> set (hash_remove k m)" "di_is_dirty (ct_dirty (ts' i))" for k' i
    using that o(5) [of k' i] jk [of k' i] by (auto simp: set_hash_remove other)
  moreover have "i < nx \<and> blk_ok cs (ts' i) \<and> (di_is_dirty (ct_dirty (ts' i)) \<longrightarrow> i \<in> snd ` set (hash_remove k m))" if "i \<in> set ds" for i
  proof (cases "i = j")
    case True
    then show ?thesis using o(6) [OF that] ok nd by simp
  next
    case False
    then have "i \<in> snd ` set (hash_remove k m)" if "i \<in> snd ` set m" using that jk by (fastforce simp: set_hash_remove image_iff)
    then show ?thesis using o(6) [OF that] False by (simp add: other)
  qed
  ultimately show "blocks_ok cs T (hash_remove k m) ds ts' nx d'"
    using hash_remove_ok(2) [of "\<lambda>_. True" m k] o(1,2) by (auto simp: blocks_ok_def list_all_iff hash_remove_def distinct_map_filter)
  show "same_blocks cs T (blk_view T m ts d) (blk_view T (hash_remove k m) ts' d')"
    unfolding same_blocks_def
  proof (intro allI impI)
    fix r p assume r: "r < length T" "T ! r \<noteq> 0" "p < cs"
    have u: "unat (of_nat r :: u64) = r" using r(1) T(2) by (intro unat_nat64) simp
    show "blk_view T (hash_remove k m) ts' d' r p = blk_view T m ts d r p"
    proof (cases "of_nat r = k")
      case True
      then have "map_of m (of_nat r) = Some j" using j o(1) by simp
      then show ?thesis using True disk [OF r] u by (auto simp: blk_view_def map_of_hash_remove)
    next
      case False
      then have "r \<noteq> unat k" by auto
      then show ?thesis using False disk [OF r] data by (auto simp: blk_view_def map_of_hash_remove split: option.split)
    qed
  qed
qed

lemma blocks_insert:
  assumes b: "blocks_ok cs T m ds ts nx d" and T: "length T < 2 ^ 64" and k: "map_of m k = None" "unat k < length T" "T ! unat k \<noteq> 0"
    and t: "blk_ok cs t" "ct_addr t = T ! unat k" "ct_dirty t = clean_info" "ct_lru_count t < - 1" "\<And>p. p < cs \<Longrightarrow> d (T ! unat k + of_nat p) = ct_data t ! p"
  shows "blocks_ok cs T ((k, nx) # m) ds (ts(nx := t)) (Suc nx) d" "same_blocks cs T (blk_view T m ts d) (blk_view T ((k, nx) # m) (ts(nx := t)) d)"
proof -
  note o = blocks_okD [OF b]
  have new: "i \<noteq> nx" if "(k', i) \<in> set m" for k' i using o(3) [OF that] by simp
  have "block_ok cs T (ts(nx := t)) (Suc nx) d (k', i)" if "(k', i) \<in> set ((k, nx) # m)" for k' i
  proof (cases "(k', i) = (k, nx)")
    case True
    then show ?thesis using k t by (simp add: block_ok_def)
  next
    case False
    then have "(k', i) \<in> set m" using that by auto
    then show ?thesis using o(3) [of k' i] o(4) [of k' i] new by (auto simp: block_ok_def)
  qed
  moreover have "k \<notin> fst ` set m" using k(1) by (simp add: map_of_eq_None_iff)
  moreover have "nx \<notin> snd ` set m" using o(3) by fastforce
  moreover have "nx \<notin> set ds" using o(6) by blast
  ultimately show "blocks_ok cs T ((k, nx) # m) ds (ts(nx := t)) (Suc nx) d"
    using b t(3) new o(5,6) by (fastforce simp: blocks_ok_def clean_info_def)
  show "same_blocks cs T (blk_view T m ts d) (blk_view T ((k, nx) # m) (ts(nx := t)) d)"
    unfolding same_blocks_def
  proof (intro allI impI)
    fix r p assume r: "r < length T" "T ! r \<noteq> 0" "p < cs"
    have u: "unat (of_nat r :: u64) = r" using r(1) T by (intro unat_nat64) simp
    show "blk_view T ((k, nx) # m) (ts(nx := t)) d r p = blk_view T m ts d r p"
    proof (cases "of_nat r = k")
      case True
      then have "d (T ! r + of_nat p) = ct_data t ! p" using t(5) [OF r(3)] u by auto
      then show ?thesis using True k(1) by (simp add: blk_view_def)
    next
      case False
      then show ?thesis using new [OF map_of_SomeD] by (auto simp: blk_view_def split: option.split)
    qed
  qed
qed

text \<open>Counts of use stay below the largest value, so a full cache always finds a block to replace.\<close>

lemma lru_low:
  assumes "touch i (check_refcount (c, ts)) = (c2, ts2)" and "\<forall>(k, j) \<in> set m. ct_lru_count (ts j) < - 1"
  shows "ct_lru_count (ts2 i) < - 1" "\<forall>(k, j) \<in> set m. ct_lru_count (ts2 j) < - 1"
  using assms by (auto simp: touch_def check_refcount_def reset_lru_def split: if_splits)

lemma lru_replace_found:
  assumes run: "lru_replace ord key i (c, ts) = (v, c', ts')" and ord: "\<And>m. set (ord m) = set m" and mx: "0 < qc_max_size c"
    and low: "\<forall>(k, j) \<in> set (qc_map c). ct_lru_count (ts j) < - 1" and new: "key \<notin> fst ` set (qc_map c)"
  shows "qc_dirty_tables c' = qc_dirty_tables c \<and> qc_max_size c' = qc_max_size c \<and> same_core ts ts' \<and> ct_lru_count (ts' i) < - 1 \<and>
    (\<forall>(k, j) \<in> set (qc_map c). ct_lru_count (ts' j) < - 1) \<and>
    (case v of None \<Rightarrow> qc_map c' = (key, i) # qc_map c
     | Some j \<Rightarrow> \<exists>k. (k, j) \<in> set (qc_map c) \<and> qc_map c' = (key, i) # hash_remove k (qc_map c))"
proof -
  obtain c1 ts1 where 1: "check_refcount (c, ts) = (c1, ts1)" by (cases "check_refcount (c, ts)")
  obtain c2 ts2 where 2: "touch i (c1, ts1) = (c2, ts2)" by (cases "touch i (c1, ts1)")
  have k: "qc_map c2 = qc_map c" "qc_dirty_tables c2 = qc_dirty_tables c" "qc_max_size c2 = qc_max_size c" "same_core ts ts2"
    using check_refcount_core [OF 1] touch_core [OF 2] same_core_trans by auto
  note l = lru_low [of i c ts c2 ts2 "qc_map c", unfolded 1 2, OF refl low]
  note l2 = l(2)
  have rem: "hash_remove key (hash_remove k (qc_map c)) = hash_remove k (qc_map c)" for k
    using new by (intro hash_remove_id) (auto simp: set_hash_remove)
  show ?thesis
  proof (cases "length (qc_map c2) < qc_max_size c2")
    case True
    then have "c' = c2\<lparr>qc_map := (key, i) # qc_map c\<rparr>" "ts' = ts2" "v = None" using run 1 2 k new by (auto simp: lru_replace_def hash_insert_def hash_remove_id)
    then show ?thesis using k l l2 by simp
  next
    case False
    have "qc_map c \<noteq> []" using False mx k by auto
    then obtain k1 j1 where "(k1, j1) \<in> set (qc_map c)" by (metis last_in_set surj_pair)
    then have "\<exists>(k, i) \<in> set (ord (qc_map c)). ct_lru_count (ts2 i) < - 1" using l2 ord by (auto intro!: bexI [of _ "(k1, j1)"])
    then have "least_used ts2 (- 1) None (ord (qc_map c)) \<noteq> None" by (intro least_used_some) blast
    then obtain kv jv where e: "least_used ts2 (- 1) None (ord (qc_map c)) = Some (kv, jv)" by auto
    then have "(kv, jv) \<in> set (qc_map c)" using least_used_mem [OF e] ord by simp
    moreover have "v = Some jv" "c' = c2\<lparr>qc_map := (key, i) # hash_remove kv (qc_map c)\<rparr>" "ts' = ts2"
      using run 1 2 k(1) False e rem [of kv] by (auto simp: lru_replace_def hash_insert_def Let_def)
    ultimately show ?thesis using k l l2 by auto
  qed
qed

section \<open>States\<close>

definition rc_layout :: "nat \<Rightarrow> ref_count \<Rightarrow> bool" where
  "rc_layout n rf \<longleftrightarrow> 9 \<le> n \<and> n \<le> 21 \<and> rf_cluster_bits rf = of_nat n \<and> rf_cluster_size rf = 2 ^ n \<and> rf_blk_bits rf = of_nat (n - 1) \<and>
     rf_blk_size rf = 2 ^ (n - 1) \<and> rf_max rf = 65535 \<and> unat (rf_table_size rf) = length (rf_table rf)"

definition rc_ok :: "nat \<Rightarrow> rc_state \<Rightarrow> bool" where
  "rc_ok n s \<longleftrightarrow> rc_layout n (rs_rf s) \<and> rc_table_ok (2 ^ n) (rf_table (rs_rf s)) \<and> 0 < qc_max_size (rs_cache s) \<and>
     blocks_ok (2 ^ n) (rf_table (rs_rf s)) (qc_map (rs_cache s)) (qc_dirty_tables (rs_cache s)) (rs_tabs s) (rs_next s) (rs_disk s)"

definition rc_view :: "rc_state \<Rightarrow> nat \<Rightarrow> nat \<Rightarrow> u8" where
  "rc_view s = blk_view (rf_table (rs_rf s)) (qc_map (rs_cache s)) (rs_tabs s) (rs_disk s)"

definition rc_same :: "nat \<Rightarrow> rc_state \<Rightarrow> rc_state \<Rightarrow> bool" where
  "rc_same n s s' \<longleftrightarrow> (\<exists>c. rs_rf s' = (rs_rf s)\<lparr>rf_cache := c\<rparr>) \<and> rs_header s' = rs_header s \<and> same_blocks (2 ^ n) (rf_table (rs_rf s)) (rc_view s) (rc_view s')"

lemma rc_same_refl [simp]: "rc_same n s s"
  unfolding rc_same_def by (auto intro!: exI [of _ "rf_cache (rs_rf s)"])

lemma rc_same_trans: "rc_same n s s1 \<Longrightarrow> rc_same n s1 s2 \<Longrightarrow> rc_same n s s2"
  unfolding rc_same_def by (auto intro: same_blocks_trans)

lemma rc_layout_cache [simp]: "rc_layout n (rf\<lparr>rf_cache := c\<rparr>) = rc_layout n rf"
  by (simp add: rc_layout_def)

lemma rs_set_cache_simps [simp]:
  "rs_cache (rs_set_cache (c, ts) s) = c" "rs_tabs (rs_set_cache (c, ts) s) = ts" "rs_next (rs_set_cache (c, ts) s) = rs_next s"
  "rs_disk (rs_set_cache (c, ts) s) = rs_disk s" "rs_rf (rs_set_cache (c, ts) s) = (rs_rf s)\<lparr>rf_cache := c\<rparr>" "rs_header (rs_set_cache (c, ts) s) = rs_header s"
  by (simp_all add: rs_set_cache_def rs_cache_def)

lemma rc_size: "rc_layout n rf \<Longrightarrow> size_ok (2 ^ n)" "rc_layout n rf \<Longrightarrow> unat (rf_cluster_size rf) = 2 ^ n" "rc_layout n rf \<Longrightarrow> length (rf_table rf) < 2 ^ 64"
proof -
  assume l: "rc_layout n rf"
  have "geometry (2 ^ n) \<lparr>h_magic = 0, h_version = 0, h_backing_file_offset = 0, h_backing_file_size = 0, h_cluster_bits = of_nat n, h_size = 0, h_crypt_method = 0,
     h_l1_size = 0, h_l1_table_offset = 0, h_refcount_table_offset = 0, h_refcount_table_clusters = 0, h_nb_snapshots = 0, h_snapshots_offset = 0, h_incompatible_features = 0,
     h_compatible_features = 0, h_autoclear_features = 0, h_refcount_order = 0, h_header_length = 0\<rparr> (new_qcow2_table\<lparr>qt_l2_size := 2 ^ (n - 3)\<rparr>)"
    using l by (auto simp: geometry_def rc_layout_def cluster_size_def shl_def push_bit_eq_mult unat_of_nat take_bit_nat_eq_self)
  then show "size_ok (2 ^ n)" by (rule geometry_size(1))
  show "unat (rf_cluster_size rf) = 2 ^ n" using l by (simp add: rc_layout_def unat_pow2)
  show "length (rf_table rf) < 2 ^ 64" using l unat_lt_64 [of "rf_table_size rf"] by (simp add: rc_layout_def)
qed

lemma cache_block_keeps:
  assumes s: "rc_ok n s" and ord: "\<And>m. set (ord m) = set m"
    and k: "map_of (qc_map (rs_cache s)) k = None" "unat k < length (rf_table (rs_rf s))" "rf_table (rs_rf s) ! unat k \<noteq> 0"
    and t: "blk_ok (2 ^ n) t" "ct_addr t = rf_table (rs_rf s) ! unat k" "ct_dirty t = clean_info" "ct_lru_count t = 0"
      "\<And>p. p < 2 ^ n \<Longrightarrow> rs_disk s (rf_table (rs_rf s) ! unat k + of_nat p) = ct_data t ! p"
    and run: "rs_alloc_table t s = (i, s1)" "cache_block io ord k i s1 = (Inr (), s2)"
  shows "rc_ok n s2 \<and> rc_same n s s2 \<and> map_of (qc_map (rs_cache s2)) k = Some i"
proof -
  let ?T = "rf_table (rs_rf s)" and ?m = "qc_map (rs_cache s)" and ?ds = "qc_dirty_tables (rs_cache s)" and ?ts = "rs_tabs s" and ?d = "rs_disk s"
  have l: "rc_layout n (rs_rf s)" and T: "rc_table_ok (2 ^ n) ?T" and mx: "0 < qc_max_size (rs_cache s)" and b: "blocks_ok (2 ^ n) ?T ?m ?ds ?ts (rs_next s) ?d"
    using s by (auto simp: rc_ok_def)
  note sz = rc_size [OF l]
  note o = blocks_okD [OF b]
  have i: "i = rs_next s" "s1 = s\<lparr>rs_tabs := ?ts(i := t), rs_next := Suc i\<rparr>" using run(1) by (auto simp: rs_alloc_table_def)
  have s1: "rs_cache s1 = rs_cache s" "rs_tabs s1 = ?ts(i := t)" "rs_disk s1 = ?d" "rs_next s1 = Suc i" "rs_rf s1 = rs_rf s" "rs_header s1 = rs_header s"
    using i(2) by (simp_all add: rs_cache_def)
  obtain v c' ts' where lru: "lru_replace ord k i (rs_cache s, ?ts(i := t)) = (v, c', ts')" by (metis prod_cases3)
  have low: "\<forall>(k', j) \<in> set ?m. ct_lru_count ((?ts(i := t)) j) < - 1" using o(3) i(1) by fastforce
  have new: "k \<notin> fst ` set ?m" using k(1) by (simp add: map_of_eq_None_iff)
  note r = lru_replace_found [OF lru ord mx low new]
  have core: "same_core (?ts(i := t)) ts'" using r by blast
  have ds': "qc_dirty_tables c' = ?ds" and mx': "qc_max_size c' = qc_max_size (rs_cache s)"
    and low': "\<And>k' j. (k', j) \<in> set ?m \<Longrightarrow> ct_lru_count (ts' j) < - 1" "ct_lru_count (ts' i) < - 1" using r by auto
  have t4: "ct_lru_count t < - 1" using t(4) by simp
  let ?s1 = "rs_set_cache (c', ts') s1"
  have fin: "rc_ok n s2 \<and> rc_same n s s2 \<and> map_of (qc_map (rs_cache s2)) k = Some i"
    if e: "blocks_ok (2 ^ n) ?T m0 ?ds ts0 i d'" "same_blocks (2 ^ n) ?T (blk_view ?T ?m ?ts ?d) (blk_view ?T m0 ts0 d')" "map_of m0 k = None"
      "set m0 \<subseteq> set ?m" "qc_map c' = (k, i) # m0" "s2 = ?s1\<lparr>rs_disk := d', rs_tabs := tsF\<rparr>" "same_core (ts0(i := t)) tsF" "\<And>j. ct_lru_count (tsF j) = ct_lru_count (ts' j)"
    for m0 ts0 d' tsF
  proof -
    have dk: "d' (?T ! unat k + of_nat p) = ct_data t ! p" if "p < 2 ^ n" for p
      using e(2) k that t(5) [OF that] e(3) by (auto simp: same_blocks_def blk_view_def)
    note n1 = blocks_insert [OF e(1) sz(3) e(3) k(2,3) t(1-3) t4 dk]
    have "ct_lru_count (tsF j) < - 1" if "(k', j) \<in> set ((k, i) # m0)" for k' j using that e(4,8) low' by auto
    note n2 = blocks_core [OF e(7) this n1(1)]
    have "rc_ok n s2" using n2(1) l T mx mx' by (simp add: rc_ok_def e(6) e(5) ds' s1 rs_cache_def)
    moreover have "rc_same n s s2" using same_blocks_trans [OF e(2) n1(2)] n2(2) by (auto simp: rc_same_def rc_view_def e(6) e(5) s1 rs_cache_def)
    ultimately show ?thesis by (simp add: e(5,6) rs_cache_def)
  qed
  show ?thesis
  proof (cases v)
    case None
    have "s2 = ?s1" using run(2) lru s1 None by (simp add: cache_block_def)
    then have "s2 = ?s1\<lparr>rs_disk := ?d, rs_tabs := ts'\<rparr>" by (simp add: rs_set_cache_def s1)
    then show ?thesis using r None b i(1) k(1) core by (intro fin [of ?m ?ts ?d ts']) auto
  next
    case (Some j)
    then obtain kv where kv: "(kv, j) \<in> set ?m" "qc_map c' = (k, i) # hash_remove kv ?m" using r by auto
    have ji: "j \<noteq> i" using o(3) [OF kv(1)] i(1) by simp
    have cj: "ct_dirty (ts' j) = ct_dirty (?ts j)" using core ji by (simp add: same_core_def)
    have wj: "write_table io (ts' j) ?d = write_table io (?ts j) ?d" using write_table_core [OF core] ji by simp
    have n: "map_of (hash_remove kv ?m) k = None" using k(1) by (simp add: map_of_hash_remove)
    have sub: "set (hash_remove kv ?m) \<subseteq> set ?m" by (auto simp: set_hash_remove)
    have sv: "save_refcount_block io j ?s1 = (Inr (), s2)" using run(2) lru s1 Some by (simp add: cache_block_def)
    show ?thesis
    proof (cases "di_is_dirty (ct_dirty (?ts j))")
      case True
      obtain d' where d': "write_table io (?ts j) ?d = (Inr (), d')" "s2 = ?s1\<lparr>rs_disk := d', rs_tabs := clear_dirty j ts'\<rparr>"
        using sv True cj wj by (auto simp: save_refcount_block_def Let_def s1 split: if_splits prod.splits sum.splits)
      have e: "blocks_ok (2 ^ n) ?T (hash_remove kv ?m) ?ds (clear_dirty j ?ts) i d'"
        "same_blocks (2 ^ n) ?T (blk_view ?T ?m ?ts ?d) (blk_view ?T (hash_remove kv ?m) (clear_dirty j ?ts) d')"
        using blocks_evict [OF sz(1) T sz(3) b kv(1), of io d' "clear_dirty j ?ts"] d'(1) True i(1) by simp_all
      have sc: "same_core ((clear_dirty j ?ts)(i := t)) (clear_dirty j ts')" using core ji by (auto simp: same_core_def clear_dirty_def)
      have lr: "ct_lru_count (clear_dirty j ts' x) = ct_lru_count (ts' x)" for x by (simp add: clear_dirty_def)
      show ?thesis by (rule fin [OF e n sub kv(2) d'(2) sc lr])
    next
      case False
      have "s2 = ?s1" using sv False cj by (simp add: save_refcount_block_def Let_def)
      then have s2: "s2 = ?s1\<lparr>rs_disk := ?d, rs_tabs := ts'\<rparr>" by (simp add: rs_set_cache_def s1)
      have e: "blocks_ok (2 ^ n) ?T (hash_remove kv ?m) ?ds ?ts i ?d" "same_blocks (2 ^ n) ?T (blk_view ?T ?m ?ts ?d) (blk_view ?T (hash_remove kv ?m) ?ts ?d)"
        using blocks_evict [OF sz(1) T sz(3) b kv(1), of io ?d ?ts] False i(1) by simp_all
      show ?thesis by (rule fin [OF e n sub kv(2) s2 core refl])
    qed
  qed
qed

section \<open>Reading a count\<close>

definition count :: "nat \<Rightarrow> rc_state \<Rightarrow> nat \<Rightarrow> u16" where
  "count n s c =
     (let r = c div 2 ^ (n - 1); T = rf_table (rs_rf s) in
      if r < length T \<and> T ! r \<noteq> 0 then from_be (map (rc_view s r) [2 * (c mod 2 ^ (n - 1))..<2 * (c mod 2 ^ (n - 1)) + 2]) else 0)"

lemma ucast_from_be: "ucast (from_be bs :: u64) = (from_be bs :: u16)"
  unfolding from_be_def by (rule bit_word_eqI) (auto simp: bit_simps bit_from_le)

lemma to_be_ucast: "to_be 2 (ucast (v :: u16) :: u64) = to_be 2 v"
  unfolding to_be_def by (rule arg_cong [where f = rev], rule nth_equalityI) (auto simp: to_le_def intro!: bit_word_eqI simp: bit_simps)

lemma rc_shift:
  assumes "rc_layout n rf"
  shows "unat (rf_cluster_bits rf) = n" "unat (rf_blk_bits rf) = n - 1" "unat (ucast (rf_blk_size rf) :: u64) = 2 ^ (n - 1)"
    "unat (cluster_in_rc_block rf x) = unat x mod 2 ^ (n - 1)" "(2 :: nat) * 2 ^ (n - 1) = 2 ^ n"
proof -
  have n: "9 \<le> n" "n \<le> 21" using assms by (auto simp: rc_layout_def)
  have p: "(2 :: nat) ^ (n - 1) \<le> 2 ^ 20" using n by (intro power_increasing) simp_all
  have "unat (of_nat k :: u32) = k" if "k \<le> 21" for k using that by (simp add: unat_of_nat take_bit_nat_eq_self)
  from this [of n] this [of "n - 1"] show "unat (rf_cluster_bits rf) = n" "unat (rf_blk_bits rf) = n - 1"
    using assms n by (simp_all add: rc_layout_def del: of_nat_diff)
  have u: "unat (2 ^ (n - 1) :: u32) = 2 ^ (n - 1)"
  proof -
    have "unat (of_nat (2 ^ (n - 1)) :: u32) = 2 ^ (n - 1)" using p by (simp add: unat_of_nat take_bit_nat_eq_self del: of_nat_power)
    then show ?thesis by simp
  qed
  then show "unat (ucast (rf_blk_size rf) :: u64) = 2 ^ (n - 1)" using assms n by (simp add: rc_layout_def unsigned_ucast_eq take_bit_nat_eq_self)
  have "rf_blk_size rf - 1 = mask (n - 1)" using assms by (simp add: rc_layout_def mask_eq_exp_minus_1)
  moreover have "ucast (mask (n - 1) :: u32) = (mask (n - 1) :: u64)" using n by (intro bit_word_eqI) (auto simp: bit_simps)
  ultimately have "cluster_in_rc_block rf x = take_bit (n - 1) x" by (simp add: cluster_in_rc_block_def take_bit_eq_mask)
  then show "unat (cluster_in_rc_block rf x) = unat x mod 2 ^ (n - 1)" by (simp add: unsigned_take_bit_eq take_bit_nat_def)
  show "(2 :: nat) * 2 ^ (n - 1) = 2 ^ n" using n by (simp flip: power_Suc)
qed

lemma get_count_tab:
  assumes sz: "size_ok cs" and t: "blk_ok cs t" and j: "2 * unat idx + 2 \<le> cs"
  shows "get_entry_map idx t = Inr (from_be (map (\<lambda>p. ct_data t ! p) [2 * unat idx..<2 * unat idx + 2]))"
proof -
  have l: "length (ct_data t) = cs" "ct_entry_size t = 2" using blk_ok_simps [OF t] by (simp_all add: ENTRY_SIZE_U16_def)
  have b: "cs < 2 ^ 32" using sz by (simp add: size_ok_def)
  have s: "unat (idx * 2) = 2 * unat idx" using b j unat_mult_lem [of idx "2 :: u64"] by simp
  have e: "unat (idx * 2 + 2) = 2 * unat idx + 2" using b j s by (subst unat_add_eq) simp_all
  have "take 2 (drop (2 * unat idx) (ct_data t)) = map (\<lambda>p. ct_data t ! p) [2 * unat idx..<2 * unat idx + 2]"
    using j l(1) by (intro nth_equalityI) (auto simp: less_2_cases_iff)
  then show ?thesis using l j s e by (simp add: get_entry_map_def entry_slice_def Let_def ENTRY_SIZE_U16_def word_less_nat_alt)
qed

lemma rc_table_entry:
  assumes "rc_ok n s" and "r < length (rf_table (rs_rf s))"
  shows "rf_table (rs_rf s) ! r AND REFCOUNT_TABLE_OFFSET_MASK = rf_table (rs_rf s) ! r" "rf_offset_into_cluster (rs_rf s) (rf_table (rs_rf s) ! r) = 0"
    "is_aligned (rf_cluster_size (rs_rf s)) (rf_table (rs_rf s) ! r)"
proof -
  let ?a = "rf_table (rs_rf s) ! r"
  have l: "rc_layout n (rs_rf s)" and a: "2 ^ n dvd unat ?a" using assms by (auto simp: rc_ok_def rc_table_ok_def at_cluster_def)
  have n: "9 \<le> n" "rf_cluster_size (rs_rf s) = 2 ^ n" using l by (auto simp: rc_layout_def)
  have "(2 :: nat) ^ 9 dvd 2 ^ n" using n(1) by (rule le_imp_power_dvd)
  then have "(2 :: nat) ^ 9 dvd unat ?a" using a by (rule dvd_trans)
  then have z: "?a AND mask 9 = 0" by (simp only: and_mask_dvd_nat)
  have "?a = (?a AND mask 9) OR (?a AND NOT (mask 9))" by (rule bit_word_eqI) (auto simp: bit_simps)
  then have "?a AND NOT (mask 9) = ?a" using z by simp
  moreover have "(NOT (mask 9) :: u64) = REFCOUNT_TABLE_OFFSET_MASK" by (simp add: REFCOUNT_TABLE_OFFSET_MASK_def mask_eq_exp_minus_1)
  ultimately show "?a AND REFCOUNT_TABLE_OFFSET_MASK = ?a" by simp
  have "?a AND mask n = 0" using a by (simp add: and_mask_dvd_nat)
  then show "rf_offset_into_cluster (rs_rf s) ?a = 0" "is_aligned (rf_cluster_size (rs_rf s)) ?a"
    by (simp_all add: rf_offset_into_cluster_def is_aligned_def n(2) mask_eq_exp_minus_1)
qed

lemma cache_get_keeps:
  assumes s: "rc_ok n s" and run: "cache_get k (rs_cache s, rs_tabs s) = (r, ct)"
  shows "r = map_of (qc_map (rs_cache s)) k \<and> rc_ok n (rs_set_cache ct s) \<and> rc_same n s (rs_set_cache ct s) \<and> qc_map (rs_cache (rs_set_cache ct s)) = qc_map (rs_cache s)"
proof -
  obtain c ts where ct: "ct = (c, ts)" by (cases ct)
  note g = cache_get_core [OF run [unfolded ct]]
  let ?m = "qc_map (rs_cache s)"
  have b: "blocks_ok (2 ^ n) (rf_table (rs_rf s)) ?m (qc_dirty_tables (rs_cache s)) (rs_tabs s) (rs_next s) (rs_disk s)" using s by (simp add: rc_ok_def)
  have low: "\<forall>(k, j) \<in> set ?m. ct_lru_count (rs_tabs s j) < - 1" using blocks_okD(3) [OF b] by blast
  obtain c1 ts1 where 1: "check_refcount (rs_cache s, rs_tabs s) = (c1, ts1)" by (cases "check_refcount (rs_cache s, rs_tabs s)")
  have mx: "qc_max_size c = qc_max_size (rs_cache s)" and lru: "\<forall>(k, j) \<in> set ?m. ct_lru_count (ts j) < - 1"
    using run ct 1 low by (auto simp: cache_get_def check_refcount_def reset_lru_def touch_def Let_def split: if_splits option.splits)
  have sc: "same_core (rs_tabs s) ts" and lru': "\<And>k i. (k, i) \<in> set ?m \<Longrightarrow> ct_lru_count (ts i) < - 1" using g lru by blast+
  note n = blocks_core [OF sc lru' b]
  have "rc_ok n (rs_set_cache ct s)" using s n(1) g mx by (simp add: rc_ok_def ct)
  moreover have "rc_same n s (rs_set_cache ct s)" using n(2) g by (auto simp: rc_same_def rc_view_def ct)
  ultimately show ?thesis using g by (simp add: ct)
qed

text \<open>Finding the block of an index, in the cache or in the file.\<close>

lemma cached_block_keeps:
  assumes s: "rc_ok n s" and ord: "\<And>m. set (ord m) = set m" and k: "unat k < length (rf_table (rs_rf s))" "rf_table (rs_rf s) ! unat k \<noteq> 0"
    and run: "cached_block io ord k s = (Inr i, s')"
  shows "rc_ok n s' \<and> rc_same n s s' \<and> map_of (qc_map (rs_cache s')) k = Some i"
proof -
  let ?T = "rf_table (rs_rf s)"
  have l: "rc_layout n (rs_rf s)" using s by (simp add: rc_ok_def)
  note sz = rc_size [OF l]
  obtain s1 where ld: "(if contains_keys k (rs_cache s) then (Inr (), s) else load_refcount_block io ord k s) = (Inr (), s1)"
    using run by (auto simp: cached_block_def split: prod.splits sum.splits)
  have 1: "rc_ok n s1 \<and> rc_same n s s1"
  proof (cases "contains_keys k (rs_cache s)")
    case True
    then show ?thesis using ld s by simp
  next
    case False
    have al: "is_aligned (rf_cluster_size (rs_rf s)) (?T ! unat k)" by (rule rc_table_entry(3) [OF s k(1)])
    let ?t = "\<lparr>ct_dirty = clean_info, ct_lru_count = 0, ct_addr = ?T ! unat k, ct_entry_size = ENTRY_SIZE_U16, ct_data = load (rs_disk s) (?T ! unat k) (2 ^ n)\<rparr>"
    obtain i0 s0 where a: "rs_alloc_table ?t s = (i0, s0)" by (cases "rs_alloc_table ?t s")
    have cb: "cache_block io ord k i0 s0 = (Inr (), s1)"
      using ld False k(1) al a sz(2) by (auto simp: load_refcount_block_def Let_def read_buffer_def new_cache_table_def ENTRY_SIZE_U16_def split: option.splits)
    have "at_cluster (2 ^ n) (?T ! unat k)" using s k(1) by (simp add: rc_ok_def rc_table_ok_def)
    then have t: "blk_ok (2 ^ n) ?t" by (simp add: blk_ok_def tab_ok_def clean_info_def)
    have "map_of (qc_map (rs_cache s)) k = None" using False by (simp add: contains_keys_def)
    from cache_block_keeps [OF s ord this k t _ _ _ _ a cb] show ?thesis by simp
  qed
  obtain r ct where g: "cache_get k (rs_cache s1, rs_tabs s1) = (r, ct)" by (cases "cache_get k (rs_cache s1, rs_tabs s1)")
  have "rc_ok n s1" using 1 by blast
  note gk = cache_get_keeps [OF this g]
  have r: "r = Some i" "s' = rs_set_cache ct s1" using run ld g by (auto simp: cached_block_def split: option.splits)
  have "rc_same n s s'" using 1 gk r(2) rc_same_trans by blast
  then show ?thesis using gk r by simp
qed

lemma count_cached:
  assumes s: "rc_ok n s" and k: "map_of (qc_map (rs_cache s)) k = Some i" and j: "j < 2 ^ (n - 1)"
  shows "blk_ok (2 ^ n) (rs_tabs s i)" "get_entry_map (of_nat j) (rs_tabs s i) = Inr v \<Longrightarrow> ucast v = count n s (unat k * 2 ^ (n - 1) + j)"
    "\<exists>v. get_entry_map (of_nat j) (rs_tabs s i) = Inr v"
proof -
  have l: "rc_layout n (rs_rf s)" and b: "blocks_ok (2 ^ n) (rf_table (rs_rf s)) (qc_map (rs_cache s)) (qc_dirty_tables (rs_cache s)) (rs_tabs s) (rs_next s) (rs_disk s)"
    using s by (auto simp: rc_ok_def)
  have sh: "(2 :: nat) * 2 ^ (n - 1) = 2 ^ n" by (rule rc_shift(5) [OF l])
  note o = blocks_okD(3) [OF b map_of_SomeD [OF k]]
  then show ok: "blk_ok (2 ^ n) (rs_tabs s i)" by blast
  have "(2 :: nat) ^ (n - 1) \<le> 2 ^ 20" using l by (intro power_increasing) (auto simp: rc_layout_def)
  then have uj: "unat (of_nat j :: u64) = j" using j by (intro unat_nat64) simp
  then have "2 * unat (of_nat j :: u64) + 2 \<le> 2 ^ n" using j sh by simp
  note g = get_count_tab [OF rc_size(1) [OF l] ok this]
  show "\<exists>v. get_entry_map (of_nat j) (rs_tabs s i) = Inr v" using g by blast
  have "map (rc_view s (unat k)) [2 * j..<2 * j + 2] = map (\<lambda>p. ct_data (rs_tabs s i) ! p) [2 * j..<2 * j + 2]"
    by (simp add: rc_view_def blk_view_def k)
  moreover have "(unat k * 2 ^ (n - 1) + j) div 2 ^ (n - 1) = unat k" "(unat k * 2 ^ (n - 1) + j) mod 2 ^ (n - 1) = j" using j by simp_all
  ultimately show "get_entry_map (of_nat j) (rs_tabs s i) = Inr v \<Longrightarrow> ucast v = count n s (unat k * 2 ^ (n - 1) + j)"
    using g o uj by (auto simp: count_def Let_def ucast_from_be)
qed

end
