(* ===== verification/Qcow2Update.thy ===== *)
theory Qcow2Update
  imports Qcow2Counts
begin

text \<open>
  What changing the counts of a range of clusters does, and which clusters an allocation returns.
\<close>

section \<open>Counts under operations on the cache\<close>

lemma same_count:
  assumes "rc_layout n (rs_rf s)" and "rc_same n s s'"
  shows "count n s' c = count n s c"
proof -
  let ?r = "c div 2 ^ (n - 1)" and ?j = "c mod 2 ^ (n - 1)" and ?T = "rf_table (rs_rf s)"
  have T: "rf_table (rs_rf s') = ?T" using assms(2) by (auto simp: rc_same_def)
  have "?j < 2 ^ (n - 1)" by simp
  then have "2 * ?j + 2 \<le> 2 ^ n" using rc_shift(5) [OF assms(1)] by linarith
  then have "map (rc_view s' ?r) [2 * ?j..<2 * ?j + 2] = map (rc_view s ?r) [2 * ?j..<2 * ?j + 2]" if "?r < length ?T" "?T ! ?r \<noteq> 0"
    using assms(2) that by (auto simp: rc_same_def same_blocks_def)
  then show ?thesis by (simp add: count_def Let_def T)
qed

lemma get_refcount_count:
  assumes s: "rc_ok n s" and ord: "\<And>m. set (ord m) = set m" and run: "get_refcount io ord off s = (Inr v, s')"
  shows "rc_ok n s' \<and> rc_same n s s' \<and> v = count n s (unat off div 2 ^ n)"
proof -
  have l: "rc_layout n (rs_rf s)" using s by (simp add: rc_ok_def)
  note sh = rc_shift [OF l]
  have n: "9 \<le> n" "n \<le> 21" using l by (auto simp: rc_layout_def)
  let ?T = "rf_table (rs_rf s)" and ?c = "shr off n" and ?r = "shr (shr off n) (n - 1)"
  have c: "unat ?c = unat off div 2 ^ n" using n by (simp add: unat_shr)
  have r: "unat ?r = unat off div 2 ^ n div 2 ^ (n - 1)" using n c by (simp add: unat_shr)
  have len: "rf_table_size (rs_rf s) \<le> ?r \<longleftrightarrow> length ?T \<le> unat ?r" using l by (simp add: word_le_nat_alt rc_layout_def)
  show ?thesis
  proof (cases "unat ?r < length ?T \<and> ?T ! unat ?r \<noteq> 0")
    case False
    then show ?thesis using run s len r rc_table_entry(1) [OF s, of "unat ?r"]
      by (auto simp: get_refcount_def Let_def sh count_def split: if_splits)
  next
    case True
    obtain i s1 where cb: "cached_block io ord ?r s = (Inr i, s1)"
      using run True len rc_table_entry [OF s, of "unat ?r"] by (auto simp: get_refcount_def Let_def sh split: if_splits sum.splits prod.splits)
    have k: "rc_ok n s1" "rc_same n s s1" "map_of (qc_map (rs_cache s1)) ?r = Some i" using cached_block_keeps [OF s ord _ _ cb] True by auto
    let ?j = "cluster_in_rc_block (rs_rf s) ?c"
    have j: "unat ?j = unat off div 2 ^ n mod 2 ^ (n - 1)" using sh(4) c by simp
    have jl: "unat ?j < 2 ^ (n - 1)" using j by simp
    obtain w where w: "get_entry_map ?j (rs_tabs s1 i) = Inr w" "v = ucast w" "s' = s1"
      using run True len rc_table_entry [OF s, of "unat ?r"] cb by (auto simp: get_refcount_def Let_def sh split: if_splits sum.splits)
    have "v = count n s1 (unat ?r * 2 ^ (n - 1) + unat ?j)" using count_cached(2) [OF k(1,3) jl, of w] w by simp
    also have "\<dots> = count n s (unat off div 2 ^ n)" using same_count [OF l k(2)] r j by (simp add: div_mult_mod_eq)
    finally show ?thesis using k w(3) by simp
  qed
qed

section \<open>Writing entries of a block\<close>

definition entry16 :: "cache_table \<Rightarrow> nat \<Rightarrow> u16" where
  "entry16 t j = from_be (map (\<lambda>p. ct_data t ! p) [2 * j..<2 * j + 2])"

lemma set_entry16:
  assumes sz: "size_ok cs" and t: "blk_ok cs t" and j: "2 * unat idx + 2 \<le> cs" and set: "set_entry_map idx (ucast (v :: u16)) t = Inr t'"
  shows "blk_ok cs t'" "ct_addr t' = ct_addr t" "ct_lru_count t' = ct_lru_count t" "di_is_dirty (ct_dirty t')"
    "2 * k + 2 \<le> cs \<Longrightarrow> entry16 t' k = (if k = unat idx then v else entry16 t k)"
    "p < cs \<Longrightarrow> writes t' p = None \<Longrightarrow> writes t p = None \<and> ct_data t' ! p = ct_data t ! p"
proof -
  have len: "length (ct_data t) = cs" and es: "ct_entry_size t = 2" using blk_ok_simps [OF t] by (simp_all add: ENTRY_SIZE_U16_def)
  have b: "cs < 2 ^ 32" using sz by (simp add: size_ok_def)
  have s: "unat (idx * 2) = 2 * unat idx" using b j unat_mult_lem [of idx "2 :: u64"] by simp
  have e: "unat (idx * 2 + 2) = 2 * unat idx + 2" using b j s by (subst unat_add_eq) simp_all
  let ?di = "ct_dirty t" and ?bs = "to_be 2 v"
  have t': "t' = t\<lparr>ct_data := put_bytes (2 * unat idx) ?bs (ct_data t),
      ct_dirty := \<lparr>di_is_dirty = True, di_start = min (di_start ?di) (idx * 2), di_end = max (di_end ?di) (idx * 2 + 2)\<rparr>\<rparr>"
    using set j len s e es by (auto simp: set_entry_map_def entry_slice_def Let_def ENTRY_SIZE_U16_def and_then_Inr to_be_ucast word_less_nat_alt split: if_splits)
  show "ct_addr t' = ct_addr t" "ct_lru_count t' = ct_lru_count t" "di_is_dirty (ct_dirty t')" by (simp_all add: t')
  have de: "unat (di_end ?di) \<le> cs" using t by (cases "di_is_dirty ?di") (auto simp: blk_ok_def tab_ok_def clean_info_def)
  show "blk_ok cs t'" using t t' de s e j len by (auto simp: blk_ok_def tab_ok_def word_ge_min word_ge_max)
  have nth: "ct_data t' ! p = (if 2 * unat idx \<le> p \<and> p < 2 * unat idx + 2 then ?bs ! (p - 2 * unat idx) else ct_data t ! p)" if "p < cs" for p
    using that j len by (simp add: t' put_bytes_nth)
  show "entry16 t' k = (if k = unat idx then v else entry16 t k)" if k: "2 * k + 2 \<le> cs"
  proof (cases "k = unat idx")
    case True
    then have "map (\<lambda>p. ct_data t' ! p) [2 * k..<2 * k + 2] = ?bs" using nth k by (intro nth_equalityI) (auto simp: less_Suc_eq)
    then show ?thesis using True by (simp add: entry16_def from_be_to_be)
  next
    case False
    then have "map (\<lambda>p. ct_data t' ! p) [2 * k..<2 * k + 2] = map (\<lambda>p. ct_data t ! p) [2 * k..<2 * k + 2]" using nth k by (intro map_cong) auto
    then show ?thesis using False by (simp add: entry16_def)
  qed
  assume p: "p < cs" and nw: "writes t' p = None"
  have w: "lo t' \<le> 2 * unat idx" "2 * unat idx + 2 \<le> hi t'" "lo t' \<le> lo t" "hi t \<le> hi t'"
    using s e by (auto simp: t' lo_def hi_def word_ge_min word_ge_max div_le_mono)
  show "writes t p = None \<and> ct_data t' ! p = ct_data t ! p"
    using nw p w nth [OF p] by (auto simp: writes_def t' split: if_splits)
qed

text \<open>What a table may become when some of its entries are written.\<close>

definition rewritten :: "nat \<Rightarrow> cache_table \<Rightarrow> cache_table \<Rightarrow> bool" where
  "rewritten cs t t' \<longleftrightarrow> blk_ok cs t' \<and> ct_addr t' = ct_addr t \<and> ct_lru_count t' = ct_lru_count t \<and> (di_is_dirty (ct_dirty t) \<longrightarrow> di_is_dirty (ct_dirty t')) \<and>
     (\<forall>p < cs. writes t' p = None \<longrightarrow> writes t p = None \<and> ct_data t' ! p = ct_data t ! p)"

lemma rewritten_trans: "rewritten cs t t1 \<Longrightarrow> rewritten cs t1 t2 \<Longrightarrow> rewritten cs t t2"
  by (auto simp: rewritten_def)

lemma put_refcounts_entries:
  assumes sz: "size_ok cs" and "blk_ok cs t" and "2 * (unat idx + length vs) \<le> cs" and "put_refcounts idx vs t = (Inr (), t')"
  shows "rewritten cs t t' \<and> (\<forall>k. 2 * k + 2 \<le> cs \<longrightarrow> entry16 t' k = (if unat idx \<le> k \<and> k < unat idx + length vs then vs ! (k - unat idx) else entry16 t k))"
  using assms(2-4)
proof (induction vs arbitrary: idx t)
  case Nil
  then show ?case by (auto simp: rewritten_def)
next
  case (Cons v vs)
  obtain t1 where t1: "set_entry_map idx (ucast v) t = Inr t1" "put_refcounts (idx + 1) vs t1 = (Inr (), t')"
    using Cons.prems(3) by (auto split: sum.splits)
  have j: "2 * unat idx + 2 \<le> cs" using Cons.prems(2) by simp
  note e = set_entry16 [OF sz Cons.prems(1) j t1(1)]
  have "cs < 2 ^ 32" using sz by (simp add: size_ok_def)
  then have i1: "unat (idx + 1) = unat idx + 1" using j by (subst unat_add_eq) simp_all
  have "2 * (unat (idx + 1) + length vs) \<le> cs" using Cons.prems(2) i1 by simp
  note ih = Cons.IH [OF e(1) this t1(2)]
  have "rewritten cs t t1" using e by (auto simp: rewritten_def)
  then have "rewritten cs t t'" using ih rewritten_trans by blast
  moreover have "entry16 t' k = (if unat idx \<le> k \<and> k < unat idx + length (v # vs) then (v # vs) ! (k - unat idx) else entry16 t k)" if k: "2 * k + 2 \<le> cs" for k
    using ih k e(5) [OF k] i1 by (cases "k - unat idx") (auto simp: diff_Suc)
  ultimately show ?case by blast
qed

lemma put_refcounts_ok:
  assumes sz: "size_ok cs" and "blk_ok cs t" and "2 * (unat idx + length vs) \<le> cs"
  shows "\<exists>t'. put_refcounts idx vs t = (Inr (), t')"
  using assms(2,3)
proof (induction vs arbitrary: idx t)
  case (Cons v vs)
  have j: "2 * unat idx + 2 \<le> cs" using Cons.prems(2) by simp
  obtain st where "entry_slice idx t = Inr st" using get_count_tab [OF sz Cons.prems(1) j] by (auto simp: get_entry_map_def and_then_Inr)
  then obtain t1 where t1: "set_entry_map idx (ucast v) t = Inr t1" by (simp add: set_entry_map_def Let_def)
  note e = set_entry16 [OF sz Cons.prems(1) j t1]
  have "cs < 2 ^ 32" using sz by (simp add: size_ok_def)
  then have i1: "unat (idx + 1) = unat idx + 1" using j by (subst unat_add_eq) simp_all
  then show ?case using Cons.IH [OF e(1), of "idx + 1"] Cons.prems(2) t1 by simp
qed simp

lemma blocks_update:
  assumes b: "blocks_ok cs T m ds ts nx d" and i: "(k, i) \<in> set m" and t: "rewritten cs (ts i) t"
    and ds': "set ds' = insert i (set ds)"
  shows "blocks_ok cs T m ds' (ts(i := t)) nx d"
proof -
  note o = blocks_okD [OF b]
  have t': "blk_ok cs t" "ct_addr t = ct_addr (ts i)" "ct_lru_count t = ct_lru_count (ts i)" using t by (auto simp: rewritten_def)
  have "block_ok cs T (ts(i := t)) nx d (k', j)" if x: "(k', j) \<in> set m" for k' j
    using o(3) [OF x] o(4) [OF x] t' t by (auto simp: block_ok_def rewritten_def)
  moreover have "j < nx \<and> blk_ok cs ((ts(i := t)) j) \<and> (di_is_dirty (ct_dirty ((ts(i := t)) j)) \<longrightarrow> j \<in> snd ` set m)" if "j \<in> set ds'" for j
    using that o(6) [of j] o(3) [OF i] image_eqI [OF _ i, of i snd] t'(1) by (auto simp: ds')
  moreover have "j \<in> set ds'" if "(k', j) \<in> set m" "di_is_dirty (ct_dirty ((ts(i := t)) j))" for k' j
    using that o(5) [of k' j] by (auto simp: ds' split: if_splits)
  ultimately show ?thesis using o(1,2) unfolding blocks_ok_def by fast
qed

section \<open>Counts of a block\<close>

text \<open>The fields that changing counts may change: the cache, the discard list and where the search for free clusters begins.\<close>

definition rc_kept :: "ref_count \<Rightarrow> ref_count \<Rightarrow> bool" where
  "rc_kept rf rf' \<longleftrightarrow> rf' = rf\<lparr>rf_cache := rf_cache rf', rf_discard_list := rf_discard_list rf', rf_free_cluster_index := rf_free_cluster_index rf'\<rparr>"

lemma rc_keptI: "rc_kept rf (rf\<lparr>rf_cache := c, rf_discard_list := l, rf_free_cluster_index := f\<rparr>)"
  by (simp add: rc_kept_def)

lemma rc_keptE:
  assumes "rc_kept rf rf'" obtains c l f where "rf' = rf\<lparr>rf_cache := c, rf_discard_list := l, rf_free_cluster_index := f\<rparr>"
  using assms unfolding rc_kept_def by blast

lemma rc_kept_upd [simp]:
  "rc_kept rf rf" "rc_kept rf (rf\<lparr>rf_cache := c\<rparr>)" "rc_kept rf (rf\<lparr>rf_discard_list := l\<rparr>)" "rc_kept rf (rf\<lparr>rf_free_cluster_index := f\<rparr>)"
  by (simp_all add: rc_kept_def)

lemma rc_kept_trans: "rc_kept rf rf1 \<Longrightarrow> rc_kept rf1 rf2 \<Longrightarrow> rc_kept rf rf2"
  by (elim rc_keptE) (simp add: rc_keptI)

lemma rc_kept_simps:
  assumes "rc_kept rf rf'"
  shows "rf_table rf' = rf_table rf" "rf_max rf' = rf_max rf" "rc_layout n rf' = rc_layout n rf" "new_count rf' = new_count rf"
    "rf_offset_into_cluster rf' = rf_offset_into_cluster rf" "rf_cluster_size rf' = rf_cluster_size rf" "rf_cluster_bits rf' = rf_cluster_bits rf"
    "rf_blk_size rf' = rf_blk_size rf" "rf_table_size rf' = rf_table_size rf" "rf_blk_bits rf' = rf_blk_bits rf"
proof -
  obtain c l f where rf': "rf' = rf\<lparr>rf_cache := c, rf_discard_list := l, rf_free_cluster_index := f\<rparr>" by (rule rc_keptE [OF assms])
  show "rf_table rf' = rf_table rf" "rf_max rf' = rf_max rf" "rf_cluster_size rf' = rf_cluster_size rf" "rf_cluster_bits rf' = rf_cluster_bits rf"
    "rf_blk_size rf' = rf_blk_size rf" "rf_table_size rf' = rf_table_size rf" "rf_blk_bits rf' = rf_blk_bits rf" by (simp_all add: rf')
  then show "rc_layout n rf' = rc_layout n rf" "new_count rf' = new_count rf" "rf_offset_into_cluster rf' = rf_offset_into_cluster rf"
    by (simp_all add: rc_layout_def new_count_def fun_eq_iff rf_offset_into_cluster_def cong: if_cong option.case_cong)
qed

lemma cluster_freed_kept: "rc_kept rf (cluster_freed dt c rf)" "rf_cache (cluster_freed dt c rf) = rf_cache rf"
  using rc_kept_trans [OF rc_kept_upd(3) rc_kept_upd(4)] by (simp_all add: cluster_freed_def Let_def)

lemma count_entry16:
  assumes "rc_ok n s" and k: "map_of (qc_map (rs_cache s)) k = Some i" and c: "c div 2 ^ (n - 1) = unat k"
  shows "count n s c = entry16 (rs_tabs s i) (c mod 2 ^ (n - 1))"
proof -
  have "unat k < length (rf_table (rs_rf s))" "rf_table (rs_rf s) ! unat k \<noteq> 0" using assms blocks_okD(3) [OF _ map_of_SomeD [OF k]] by (auto simp: rc_ok_def)
  moreover have "map (rc_view s (unat k)) [2 * j..<2 * j + 2] = map (\<lambda>p. ct_data (rs_tabs s i) ! p) [2 * j..<2 * j + 2]" for j
    by (simp add: rc_view_def blk_view_def k)
  ultimately show ?thesis unfolding count_def Let_def c entry16_def by presburger
qed

lemma new_refcounts_spec:
  assumes sz: "size_ok cs" and t: "blk_ok cs t" and "\<forall>i \<in> set is. 2 * (unat rb + i) + 2 \<le> cs" and "new_refcounts t rt rb a v dt is rf = (r, rf')"
  shows "rc_kept rf rf' \<and> rf_cache rf' = rf_cache rf \<and>
    (case r of Inr vs \<Rightarrow> length vs = length is \<and> (\<forall>p < length is. new_count rf a v (entry16 t (unat rb + is ! p)) = Some (vs ! p))
     | Inl e \<Rightarrow> e = ERcOverflow \<and> (\<exists>i \<in> set is. new_count rf a v (entry16 t (unat rb + i)) = None))"
  using assms(3,4)
proof (induction "is" arbitrary: rf r)
  case Nil
  then show ?case by auto
next
  case (Cons i xs)
  have "2 * (unat rb + i) + 2 \<le> cs" using Cons.prems(1) by simp
  moreover have "cs < 2 ^ 32" using sz by (simp add: size_ok_def)
  ultimately have u: "unat (rb + of_nat i) = unat rb + i" by (subst unat_add_eq) (simp_all add: unat_nat64)
  then have "2 * unat (rb + of_nat i) + 2 \<le> cs" using Cons.prems(1) by simp
  note g = get_count_tab [OF sz t this, unfolded u]
  obtain x :: u64 where x: "get_entry_map (rb + of_nat i) t = Inr x" "(ucast x :: u16) = entry16 t (unat rb + i)"
    unfolding g entry16_def ucast_from_be [symmetric] by blast
  show ?case
  proof (cases "new_count rf a v (entry16 t (unat rb + i))")
    case None
    then show ?thesis using Cons.prems(2) x by auto
  next
    case (Some w)
    define rf1 where "rf1 = (if w = 0 then cluster_freed dt (rt * ucast (rf_blk_size rf) + rb + of_nat i) rf else rf)"
    obtain r2 where n: "new_refcounts t rt rb a v dt xs rf1 = (r2, rf')" "r = and_then r2 (\<lambda>vs. Inr (w # vs))"
      using Cons.prems(2) x Some by (cases "new_refcounts t rt rb a v dt xs rf1") (simp add: Let_def rf1_def [symmetric])
    have k: "rc_kept rf rf1" "rf_cache rf1 = rf_cache rf" using cluster_freed_kept by (auto simp: rf1_def)
    have "\<forall>i \<in> set xs. 2 * (unat rb + i) + 2 \<le> cs" using Cons.prems(1) by simp
    note ih = Cons.IH [OF this n(1), unfolded rc_kept_simps(4) [OF k(1)] k(2)]
    have k': "rc_kept rf rf'" using ih rc_kept_trans [OF k(1)] by blast
    show ?thesis
    proof (cases r2)
      case (Inl e)
      then show ?thesis using ih n(2) k' by auto
    next
      case (Inr vs)
      then show ?thesis using ih n(2) Some k' by (simp add: All_less_Suc2)
    qed
  qed
qed

lemma rc_ok_rf:
  assumes "rc_kept (rs_rf s) rf" and "rf_cache rf = rs_cache s"
  shows "rc_ok n (s\<lparr>rs_rf := rf\<rparr>) = rc_ok n s" "count n (s\<lparr>rs_rf := rf\<rparr>) = count n s"
proof -
  have v: "rc_view (s\<lparr>rs_rf := rf\<rparr>) = rc_view s" using assms(2) rc_kept_simps(1) [OF assms(1)] by (simp add: rc_view_def rs_cache_def)
  show "count n (s\<lparr>rs_rf := rf\<rparr>) = count n s" using rc_kept_simps(1) [OF assms(1)] by (intro ext) (simp add: count_def Let_def v)
  show "rc_ok n (s\<lparr>rs_rf := rf\<rparr>) = rc_ok n s" using assms(2) rc_kept_simps [OF assms(1)] by (simp add: rc_ok_def rs_cache_def)
qed

lemma rc_ok_update:
  assumes s: "rc_ok n s" and k: "map_of (qc_map (rs_cache s)) k = Some i" and t: "rewritten (2 ^ n) (rs_tabs s i) t"
    and rf: "rc_kept (rs_rf s) rf" "qc_map (rf_cache rf) = qc_map (rs_cache s)" "qc_max_size (rf_cache rf) = qc_max_size (rs_cache s)"
      "set (qc_dirty_tables (rf_cache rf)) = insert i (set (qc_dirty_tables (rs_cache s)))"
  shows "rc_ok n (s\<lparr>rs_rf := rf, rs_tabs := (rs_tabs s)(i := t)\<rparr>)"
    "count n (s\<lparr>rs_rf := rf, rs_tabs := (rs_tabs s)(i := t)\<rparr>) c = (if c div 2 ^ (n - 1) = unat k then entry16 t (c mod 2 ^ (n - 1)) else count n s c)"
proof -
  let ?s = "s\<lparr>rs_rf := rf, rs_tabs := (rs_tabs s)(i := t)\<rparr>"
  have b: "blocks_ok (2 ^ n) (rf_table (rs_rf s)) (qc_map (rs_cache s)) (qc_dirty_tables (rs_cache s)) (rs_tabs s) (rs_next s) (rs_disk s)"
    using s by (simp add: rc_ok_def)
  note k' = map_of_SomeD [OF k]
  have "rc_ok n ?s" if "set (qc_dirty_tables (rf_cache rf)) = insert i (set (qc_dirty_tables (rs_cache s)))"
    using s blocks_update [OF b k' t that] rf(2,3) rc_kept_simps [OF rf(1)] by (simp add: rc_ok_def rs_cache_def)
  then show ok: "rc_ok n ?s" using rf(4) by blast
  show "count n ?s c = (if c div 2 ^ (n - 1) = unat k then entry16 t (c mod 2 ^ (n - 1)) else count n s c)"
  proof (cases "c div 2 ^ (n - 1) = unat k")
    case True
    have "map_of (qc_map (rs_cache ?s)) k = Some i" using k rf(2) by (simp add: rs_cache_def)
    from count_entry16 [OF ok this True] show ?thesis using True by simp
  next
    case False
    let ?r = "c div 2 ^ (n - 1)"
    have "rc_view ?s ?r = rc_view s ?r" if r: "?r < length (rf_table (rs_rf s))"
    proof -
      have "unat (of_nat ?r :: u64) = ?r" using r rc_size(3) [of n "rs_rf s"] s by (intro unat_nat64) (simp add: rc_ok_def)
      then have "map_of (qc_map (rs_cache s)) (of_nat ?r) \<noteq> Some i"
        using False map_of_SomeD [of "qc_map (rs_cache s)" "of_nat ?r" i] k' blocks_okD(2) [OF b] by (metis eq_key_imp_eq_value inj_on_contraD distinct_map fst_conv snd_conv prod.inject)
      then show ?thesis using rf(2) rc_kept_simps(1) [OF rf(1)] by (auto simp: rc_view_def rs_cache_def blk_view_def fun_eq_iff split: option.splits)
    qed
    then show ?thesis using False rc_kept_simps(1) [OF rf(1)] by (simp add: count_def Let_def)
  qed
qed

text \<open>Without a failing access of the file the block of an entry is always found.\<close>

lemma cached_block_total:
  assumes s: "rc_ok n s" and ord: "\<And>m. set (ord m) = set m" and k: "unat k < length (rf_table (rs_rf s))" and io: "io = (\<lambda>_ _. None)"
  shows "\<exists>i s'. cached_block io ord k s = (Inr i, s')"
proof -
  let ?m = "qc_map (rs_cache s)"
  have l: "rc_layout n (rs_rf s)" and mx: "0 < qc_max_size (rs_cache s)"
    and b: "blocks_ok (2 ^ n) (rf_table (rs_rf s)) ?m (qc_dirty_tables (rs_cache s)) (rs_tabs s) (rs_next s) (rs_disk s)" using s by (auto simp: rc_ok_def)
  note sz = rc_size [OF l]
  have get: "\<exists>i ct. cache_get k (rs_cache s', rs_tabs s') = (Some i, ct)" if "contains_keys k (rs_cache s')" for s'
    using that by (auto simp: cache_get_def Let_def contains_keys_def check_refcount_def)
  have "\<exists>s'. load_refcount_block io ord k s = (Inr (), s') \<and> contains_keys k (rs_cache s')" if new: "\<not> contains_keys k (rs_cache s)"
  proof -
    let ?t = "\<lparr>ct_dirty = clean_info, ct_lru_count = 0, ct_addr = rf_table (rs_rf s) ! unat k, ct_entry_size = ENTRY_SIZE_U16, ct_data = load (rs_disk s) (rf_table (rs_rf s) ! unat k) (2 ^ n)\<rparr>"
    let ?i = "rs_next s" and ?s = "snd (rs_alloc_table ?t s)"
    have ld: "load_refcount_block io ord k s = cache_block io ord k ?i ?s"
      using k rc_table_entry(3) [OF s k] sz(2) io by (simp add: load_refcount_block_def Let_def read_buffer_def new_cache_table_def ENTRY_SIZE_U16_def rs_alloc_table_def)
    have s1: "rs_cache ?s = rs_cache s" "rs_tabs ?s = (rs_tabs s)(?i := ?t)" "rs_rf ?s = rs_rf s" by (simp_all add: rs_alloc_table_def rs_cache_def)
    obtain v c' ts' where lru: "lru_replace ord k ?i (rs_cache s, (rs_tabs s)(?i := ?t)) = (v, c', ts')" by (metis prod_cases3)
    have low: "\<forall>(k', j) \<in> set ?m. ct_lru_count (((rs_tabs s)(?i := ?t)) j) < - 1" using blocks_okD(3) [OF b] by fastforce
    have "k \<notin> fst ` set ?m" using new by (simp add: contains_keys_def map_of_eq_None_iff)
    note r = lru_replace_found [OF lru ord mx low this]
    show ?thesis
    proof (cases v)
      case None
      then show ?thesis using r ld lru s1 by (simp add: cache_block_def contains_keys_def)
    next
      case (Some j)
      then obtain kv where kv: "(kv, j) \<in> set ?m" "qc_map c' = (k, ?i) # hash_remove kv ?m" using r by auto
      note o = blocks_okD(3) [OF b kv(1)]
      have j: "same_core ((rs_tabs s)(?i := ?t)) ts'" "j \<noteq> ?i" using r o by (blast, simp)
      let ?u = "(rs_tabs s j)\<lparr>ct_entry_size := ENTRY_SIZE_U64\<rparr>"
      have a: "ct_addr (ts' j) = ct_addr (rs_tabs s j)" using j by (simp add: same_core_def)
      have al: "is_aligned (rf_cluster_size (rs_rf s)) (ct_addr (rs_tabs s j))" using rc_table_entry(3) [OF s] o by simp
      have w: "\<exists>d'. write_table io (ts' j) (rs_disk s') = (Inr (), d')" if "di_is_dirty (ct_dirty (rs_tabs s j))" for s'
      proof -
        have "write_table io (ts' j) (rs_disk s') = write_table io ?u (rs_disk s')" using write_table_core [OF j(1)] j(2) by (simp add: write_table_def)
        moreover have "tab_ok (2 ^ n) ?u" using o by (simp add: blk_ok_def)
        moreover have "di_is_dirty (ct_dirty ?u)" using that by simp
        ultimately show ?thesis using write_table_ok [OF sz(1), of ?u io "rs_disk s'"] io by metis
      qed
      have d: "ct_dirty (ts' j) = ct_dirty (rs_tabs s j)" using j by (simp add: same_core_def)
      have "save_refcount_block io j (rs_set_cache (c', ts') ?s) = (Inr (), s2) \<Longrightarrow> contains_keys k (rs_cache s2)" for s2
        using kv(2) by (auto simp: save_refcount_block_def Let_def contains_keys_def rs_cache_def rs_set_cache_def split: if_splits prod.splits sum.splits)
      moreover have "\<exists>s2. save_refcount_block io j (rs_set_cache (c', ts') ?s) = (Inr (), s2)"
        using w [of ?s] al a d s1 by (auto simp: save_refcount_block_def Let_def)
      ultimately show ?thesis using ld lru s1 Some by (auto simp: cache_block_def)
    qed
  qed
  then show ?thesis using get [of s] get by (cases "contains_keys k (rs_cache s)") (fastforce simp: cached_block_def)+
qed

text \<open>\<open>set_refcount\<close> once the block is at hand: the counts of the range change, or none when one would overflow.\<close>

lemma set_refcount_spec:
  assumes s: "rc_ok n s" and ord: "\<And>m. set (ord m) = set m" and k: "unat rt < length (rf_table (rs_rf s))" "rf_table (rs_rf s) ! unat rt \<noteq> 0"
    and m: "unat rb + m \<le> 2 ^ (n - 1)" and cb: "cached_block io ord rt s = (Inr i, s1)" and run: "set_refcount io ord rt rb m added dt s = (r, s')"
  defines "bg \<equiv> unat rt * 2 ^ (n - 1) + unat rb" and "nc \<equiv> \<lambda>c. new_count (rs_rf s) (added > 0) (of_int \<bar>added\<bar>) (count n s c)"
  shows "rc_ok n s' \<and> rc_kept (rs_rf s) (rs_rf s') \<and> rs_header s' = rs_header s \<and>
    (case r of Inr _ \<Rightarrow> \<forall>c. if bg \<le> c \<and> c < bg + m then nc c = Some (count n s' c) else count n s' c = count n s c
     | Inl e \<Rightarrow> count n s' = count n s \<and> (\<exists>c. bg \<le> c \<and> c < bg + m \<and> nc c = None))"
proof -
  have l: "rc_layout n (rs_rf s)" using s by (simp add: rc_ok_def)
  note sz = rc_size(1) [OF l] and sh = rc_shift(5) [OF l]
  have 1: "rc_ok n s1" "rc_same n s s1" "map_of (qc_map (rs_cache s1)) rt = Some i" using cached_block_keeps [OF s ord k cb] by auto
  have kept1: "rc_kept (rs_rf s) (rs_rf s1)" and h1: "rs_header s1 = rs_header s" using 1(2) by (auto simp: rc_same_def)
  have c1: "count n s1 c = count n s c" for c by (rule same_count [OF l 1(2)])
  let ?t = "rs_tabs s1 i" and ?R = "2 ^ (n - 1) :: nat"
  have e1: "entry16 ?t (unat rb + p) = count n s (bg + p)" "(bg + p) div ?R = unat rt" "(bg + p) mod ?R = unat rb + p" if "p < m" for p
    using count_entry16 [OF 1(1,3), of "bg + p"] that m c1 by (simp_all add: bg_def add.assoc)
  have t: "blk_ok (2 ^ n) ?t" using count_cached(1) [OF 1(1,3), of 0] by simp
  obtain r1 rf where nr: "new_refcounts ?t rt rb (added > 0) (of_int \<bar>added\<bar>) dt [0..<m] (rs_rf s1) = (r1, rf)" by fastforce
  have "\<forall>i \<in> set [0..<m]. 2 * (unat rb + i) + 2 \<le> 2 ^ n" using m sh by auto
  note n = new_refcounts_spec [OF sz t this nr]
  have kept: "rc_kept (rs_rf s) rf" "rc_kept (rs_rf s1) rf" "rf_cache rf = rs_cache s1" using n kept1 rc_kept_trans by (auto simp: rs_cache_def)
  have nc: "new_count (rs_rf s1) (added > 0) (of_int \<bar>added\<bar>) (entry16 ?t (unat rb + p)) = nc (bg + p)" if "p < m" for p
    using e1(1) [OF that] by (simp add: nc_def rc_kept_simps(4) [OF kept1])
  show ?thesis
  proof (cases r1)
    case (Inl e)
    then have "r = Inl e" "s' = s1\<lparr>rs_rf := rf\<rparr>" using run cb nr by (simp_all add: set_refcount_def Let_def)
    moreover obtain p where "p < m" "nc (bg + p) = None" using n Inl nc by auto
    ultimately show ?thesis using rc_ok_rf [OF kept(2,3), of n] 1(1) kept(1) h1 c1 by (auto intro!: exI [of _ "bg + p"])
  next
    case (Inr vs)
    have vs: "length vs = m" "\<And>p. p < m \<Longrightarrow> nc (bg + p) = Some (vs ! p)" using n Inr nc by auto
    have "2 * (unat rb + length vs) \<le> 2 ^ n" using m sh vs(1) by simp
    note pr = put_refcounts_ok [OF sz t this] put_refcounts_entries [OF sz t this]
    obtain t' where t': "put_refcounts rb vs ?t = (Inr (), t')" using pr(1) by blast
    let ?rf = "if di_is_dirty (ct_dirty ?t) then rf else rf\<lparr>rf_cache := add_dirty_table i (rf_cache rf)\<rparr>"
    have r: "r = Inr ()" "s' = s1\<lparr>rs_rf := ?rf, rs_tabs := (rs_tabs s1)(i := t')\<rparr>" using run cb nr Inr t' by (simp_all add: set_refcount_def Let_def)
    have rf': "rc_kept rf ?rf" by simp
    have d: "di_is_dirty (ct_dirty ?t) \<Longrightarrow> i \<in> set (qc_dirty_tables (rs_cache s1))"
      using 1(1) blocks_okD(5) map_of_SomeD [OF 1(3)] unfolding rc_ok_def by blast
    have "qc_map (rf_cache ?rf) = qc_map (rs_cache s1)" "qc_max_size (rf_cache ?rf) = qc_max_size (rs_cache s1)"
      "set (qc_dirty_tables (rf_cache ?rf)) = insert i (set (qc_dirty_tables (rs_cache s1)))"
      using kept(3) d by (auto simp: add_dirty_table_def)
    note u = rc_ok_update [OF 1(1,3) conjunct1 [OF pr(2) [OF t']] rc_kept_trans [OF kept(2) rf'] this, folded r(2)]
    have "if bg \<le> c \<and> c < bg + m then nc c = Some (count n s' c) else count n s' c = count n s c" for c
    proof (cases "bg \<le> c \<and> c < bg + m")
      case True
      then obtain p where p: "p < m" "c = bg + p" by (metis add_less_cancel_left le_Suc_ex)
      then show ?thesis using u(2) [of c] e1 [OF p(1)] vs pr(2) [OF t'] m sh by auto
    next
      case False
      have "entry16 t' (c mod ?R) = entry16 ?t (c mod ?R)" if d: "c div ?R = unat rt"
      proof -
        have "c = unat rt * ?R + c mod ?R" using d by (metis div_mult_mod_eq)
        then have o: "\<not> (unat rb \<le> c mod ?R \<and> c mod ?R < unat rb + length vs)" using False vs(1) unfolding bg_def by linarith
        have "c mod ?R < ?R" by simp
        then have "2 * (c mod ?R) + 2 \<le> 2 ^ n" using sh by linarith
        then show ?thesis using pr(2) [OF t'] o by presburger
      qed
      then show ?thesis using u(2) [of c] count_entry16 [OF 1(1,3), of c] c1 [of c] False by auto
    qed
    moreover have "rs_rf s' = ?rf" "rs_header s' = rs_header s1" by (simp_all add: r(2))
    ultimately show ?thesis using u(1) r(1) rc_kept_trans [OF kept(1) rf'] h1 by simp
  qed
qed

section \<open>Flushing\<close>

text \<open>The count that the file itself has, without the cache.\<close>

definition stored_count :: "nat \<Rightarrow> rc_state \<Rightarrow> nat \<Rightarrow> u16" where
  "stored_count n s c =
     (let r = c div 2 ^ (n - 1); T = rf_table (rs_rf s) in
      if r < length T \<and> T ! r \<noteq> 0 then from_be (map (\<lambda>p. rs_disk s (T ! r + of_nat p)) [2 * (c mod 2 ^ (n - 1))..<2 * (c mod 2 ^ (n - 1)) + 2]) else 0)"

lemma blocks_write:
  assumes sz: "size_ok cs" and T: "rc_table_ok cs T" and b: "blocks_ok cs T m (i # ds) ts nx d" and i: "di_is_dirty (ct_dirty (ts i))"
    and w: "write_table io (ts i) d = (Inr (), d')"
  shows "blocks_ok cs T m ds (clear_dirty i ts) nx d'" "same_blocks cs T (blk_view T m ts d) (blk_view T m (clear_dirty i ts) d')"
proof -
  note o = blocks_okD [OF b]
  obtain k where k: "(k, i) \<in> set m" using o(6) [of i] i by auto
  note ok = o(3) [OF k]
  have disk: "d' (T ! r + of_nat p) = (if r = unat k then ct_data (ts i) ! p else d (T ! r + of_nat p))" if r: "r < length T" "T ! r \<noteq> 0" "p < cs" for r p
  proof -
    have a: "at_cluster cs (T ! r)" using T r(1) by (simp add: rc_table_ok_def)
    have "T ! r = T ! unat k \<longleftrightarrow> r = unat k" using T r ok by (auto simp: rc_table_ok_def)
    then show ?thesis using write_block_bytes [OF sz _ i w a r(3)] ok write_block_file [OF sz b k w i r(3)] by auto
  qed
  have "block_ok cs T (clear_dirty i ts) nx d' (k', j)" if x: "(k', j) \<in> set m" for k' j
  proof (cases "j = i")
    case True
    have "inj_on snd (set m)" using o(2) by (simp add: distinct_map)
    then have "k' = k" using True x k inj_onD [of snd "set m" "(k', i)" "(k, i)"] by simp
    then show ?thesis using ok disk True by (simp add: block_ok_def clear_dirty_def)
  next
    case False
    have "k' \<noteq> k" using o(1) x k False by (auto dest: eq_key_imp_eq_value)
    then have "unat k' \<noteq> unat k" by (simp add: word_unat_eq_iff)
    then show ?thesis using o(3) [OF x] o(4) [OF x] disk [of "unat k'"] False by (auto simp: block_ok_def clear_dirty_def)
  qed
  moreover have "j \<in> set ds" if "(k', j) \<in> set m" "di_is_dirty (ct_dirty (clear_dirty i ts j))" for k' j
    using that o(5) [of k' j] by (auto simp: clear_dirty_def clean_info_def split: if_splits)
  moreover have "j < nx \<and> blk_ok cs (clear_dirty i ts j) \<and> (di_is_dirty (ct_dirty (clear_dirty i ts j)) \<longrightarrow> j \<in> snd ` set m)" if "j \<in> set ds" for j
    using that o(6) [of j] k by (auto simp: clear_dirty_def image_iff intro: bexI [of _ "(k, i)"])
  ultimately show "blocks_ok cs T m ds (clear_dirty i ts) nx d'" using o(1,2) unfolding blocks_ok_def by fast
  show "same_blocks cs T (blk_view T m ts d) (blk_view T m (clear_dirty i ts) d')"
    unfolding same_blocks_def
  proof (intro allI impI)
    fix r p assume r: "r < length T" "T ! r \<noteq> 0" "p < cs"
    show "blk_view T m (clear_dirty i ts) d' r p = blk_view T m ts d r p"
    proof (cases "map_of m (of_nat r)")
      case None
      have "of_nat r \<noteq> k" using None k by (auto simp: map_of_eq_None_iff image_iff)
      then have "r \<noteq> unat k" by auto
      then show ?thesis using None disk [OF r] by (simp add: blk_view_def)
    qed (simp add: blk_view_def clear_dirty_def)
  qed
qed

lemma blocks_flush:
  assumes sz: "size_ok cs" and T: "rc_table_ok cs T" and "blocks_ok cs T m ds ts nx d" and "flush_tables io ds (Inr ()) ts d = (Inr (), ts', d')"
  shows "blocks_ok cs T m [] ts' nx d' \<and> same_blocks cs T (blk_view T m ts d) (blk_view T m ts' d')"
  using assms(3,4)
proof (induction ds arbitrary: ts d)
  case (Cons i ds)
  show ?case
  proof (cases "di_is_dirty (ct_dirty (ts i))")
    case False
    then have "blocks_ok cs T m ds ts nx d" using Cons.prems(1) by (auto simp: blocks_ok_def)
    then show ?thesis using Cons.IH [of ts d] Cons.prems(2) False by simp
  next
    case True
    obtain r d1 where w: "write_table io (ts i) d = (r, d1)" by fastforce
    have r: "r = Inr ()"
    proof (cases r)
      case (Inl e)
      have "fst (flush_tables io ds (Inl e) (clear_dirty i ts) d1) \<noteq> Inr ()" by (rule flush_tables_failed)
      then show ?thesis using Cons.prems(2) True w Inl by (auto split: qcow2_error.splits)
    qed simp
    note b = blocks_write [OF sz T Cons.prems(1) True w [unfolded r]]
    have "flush_tables io ds (Inr ()) (clear_dirty i ts) d1 = (Inr (), ts', d')" using Cons.prems(2) True w r by simp
    from Cons.IH [OF b(1) this] show ?thesis using b(2) same_blocks_trans by blast
  qed
qed simp

lemma rc_flush_keeps:
  assumes s: "rc_ok n s" and run: "rc_flush io s = (Inr (), s')"
  shows "rc_ok n s' \<and> rc_same n s s' \<and> stored_count n s' = count n s'"
proof -
  have l: "rc_layout n (rs_rf s)" and T: "rc_table_ok (2 ^ n) (rf_table (rs_rf s))"
    and b: "blocks_ok (2 ^ n) (rf_table (rs_rf s)) (qc_map (rs_cache s)) (qc_dirty_tables (rs_cache s)) (rs_tabs s) (rs_next s) (rs_disk s)" using s by (auto simp: rc_ok_def)
  obtain ts' d' where f: "flush_tables io (qc_dirty_tables (rs_cache s)) (Inr ()) (rs_tabs s) (rs_disk s) = (Inr (), ts', d')"
    "s' = (rs_set_cache ((rs_cache s)\<lparr>qc_dirty_tables := []\<rparr>, ts') s)\<lparr>rs_disk := d'\<rparr>"
    using run by (auto simp: rc_flush_def cache_flush_def split: prod.splits)
  note fl = blocks_flush [OF rc_size(1) [OF l] T b f(1)]
  let ?T = "rf_table (rs_rf s)"
  have sf: "rs_cache s' = (rs_cache s)\<lparr>qc_dirty_tables := []\<rparr>" "rs_tabs s' = ts'" "rs_disk s' = d'" "rs_next s' = rs_next s" "rs_rf s' = (rs_rf s)\<lparr>rf_cache := rs_cache s'\<rparr>"
    "rs_header s' = rs_header s" "rf_table (rs_rf s') = ?T"
    by (simp_all add: f(2) rs_cache_def rs_set_cache_def)
  have ok: "rc_ok n s'" using s fl sf(1-4,7) by (simp add: rc_ok_def) (simp add: sf(5))
  have "rc_view s' r p = d' (?T ! r + of_nat p)" if r: "r < length ?T" "p < 2 ^ n" for r p
  proof (cases "map_of (qc_map (rs_cache s)) (of_nat r)")
    case (Some i)
    note m = map_of_SomeD [OF this]
    have nd: "\<not> di_is_dirty (ct_dirty (ts' i))" using fl blocks_okD(5) m by fastforce
    have "unat (of_nat r :: u64) = r" using r(1) rc_size(3) [OF l] by (intro unat_nat64) simp
    moreover have "writes (ts' i) p = None" using nd by (simp add: writes_def)
    ultimately show ?thesis using fl blocks_okD(4) [OF _ m r(2)] Some by (auto simp: rc_view_def sf blk_view_def)
  qed (simp add: rc_view_def sf blk_view_def)
  note v = this
  have "stored_count n s' c = count n s' c" for c
  proof -
    have "c mod 2 ^ (n - 1) < 2 ^ (n - 1)" by simp
    then have "2 * (c mod 2 ^ (n - 1)) + 2 \<le> 2 ^ n" using rc_shift(5) [OF l] by linarith
    then show ?thesis using v [of "c div 2 ^ (n - 1)"] by (simp add: stored_count_def count_def Let_def sf)
  qed
  moreover have "rc_same n s s'" using fl sf by (auto simp: rc_same_def rc_view_def)
  ultimately show ?thesis using ok by auto
qed

lemma rc_flush_total:
  assumes s: "rc_ok n s" and io: "io = (\<lambda>_ _. None)"
  shows "fst (rc_flush io s) = Inr ()"
proof -
  have l: "rc_layout n (rs_rf s)" and b: "blocks_ok (2 ^ n) (rf_table (rs_rf s)) (qc_map (rs_cache s)) (qc_dirty_tables (rs_cache s)) (rs_tabs s) (rs_next s) (rs_disk s)"
    using s by (auto simp: rc_ok_def)
  let ?f = "\<lambda>ts i. (ts i)\<lparr>ct_entry_size := ENTRY_SIZE_U64\<rparr>"
  have "fst (flush_tables io ds (Inr ()) ts d) = Inr ()" if "\<And>i. i \<in> set ds \<Longrightarrow> tab_ok (2 ^ n) (?f ts i)" for ds ts d
    using that
  proof (induction ds arbitrary: ts d)
    case (Cons i ds)
    have keep: "tab_ok (2 ^ n) (?f (clear_dirty i ts) j)" if "j \<in> set ds" for j
      using Cons.prems [of j] that by (auto simp: clear_dirty_def tab_ok_def clean_info_def)
    have "write_table io (ts i) d = write_table io (?f ts i) d" by (simp add: write_table_def)
    moreover have "tab_ok (2 ^ n) (?f ts i)" using Cons.prems [of i] by simp
    ultimately have "\<exists>d'. write_table io (ts i) d = (Inr (), d')" if "di_is_dirty (ct_dirty (ts i))"
      using write_table_ok [OF rc_size(1) [OF l], of "?f ts i" io d] io that by (metis cache_table.ext_inject cache_table.surjective cache_table.update_convs(4))
    then show ?case using Cons.IH [OF keep] Cons.IH [OF Cons.prems] by auto
  qed simp
  from this [of "qc_dirty_tables (rs_cache s)" "rs_tabs s" "rs_disk s"] show ?thesis
    using blocks_okD(6) [OF b] by (auto simp: rc_flush_def cache_flush_def blk_ok_def split: prod.splits)
qed

section \<open>Ranges of clusters\<close>

text \<open>Pieces that cover the clusters from \<open>a\<close> up to \<open>b\<close> in their order, each within one block.\<close>

fun chain :: "nat \<Rightarrow> u64 list \<Rightarrow> nat \<Rightarrow> (u64 \<times> u64 \<times> nat) list \<Rightarrow> nat \<Rightarrow> bool" where
  "chain n T a [] b = (a = b)"
| "chain n T a ((rt, rb, m) # rs) b \<longleftrightarrow>
     a = unat rt * 2 ^ (n - 1) + unat rb \<and> unat rb + m \<le> 2 ^ (n - 1) \<and> unat rt < length T \<and> T ! unat rt \<noteq> 0 \<and> chain n T (a + m) rs b"

lemma chain_le: "chain n T a rs b \<Longrightarrow> a \<le> b"
  by (induction n T a rs b rule: chain.induct) auto

definition has_block :: "nat \<Rightarrow> u64 list \<Rightarrow> nat \<Rightarrow> bool" where
  "has_block n T c \<longleftrightarrow> c div 2 ^ (n - 1) < length T \<and> T ! (c div 2 ^ (n - 1)) \<noteq> 0"

lemma rc_ranges_chain:
  assumes l: "rc_layout n rf" and fit: "unat fc + unat cl < 2 ^ 64" and T: "\<And>r. r < length (rf_table rf) \<Longrightarrow> rf_offset_into_cluster rf (rf_table rf ! r) = 0"
  shows "unat i \<le> unat cl \<Longrightarrow> unat cl - unat i \<le> k \<Longrightarrow>
    (case rc_ranges k rf fc cl i of Inr rs \<Rightarrow> chain n (rf_table rf) (unat fc + unat i) rs (unat fc + unat cl)
     | Inl e \<Rightarrow> e \<noteq> ENoReturn \<and> (\<exists>c. unat fc + unat i \<le> c \<and> c < unat fc + unat cl \<and> \<not> has_block n (rf_table rf) c))"
proof (induction k arbitrary: i)
  case 0
  then have "i = cl" by (simp add: word_unat_eq_iff)
  then show ?case by (simp add: rc_ranges.simps)
next
  case (Suc k)
  show ?case
  proof (cases "i < cl")
    case False
    then have "i = cl" using Suc.prems(1) by (simp add: word_unat_eq_iff word_less_nat_alt)
    then show ?thesis by (simp add: rc_ranges.simps)
  next
    case True
    note sh = rc_shift [OF l]
    let ?R = "2 ^ (n - 1) :: nat" and ?j = "fc + i"
    have n: "9 \<le> n" "n \<le> 21" using l by (auto simp: rc_layout_def)
    have il: "unat i < unat cl" using True by (simp add: word_less_nat_alt)
    have j: "unat ?j = unat fc + unat i" using fit il by (subst unat_add_eq) simp_all
    let ?rt = "shr ?j (unat (rf_blk_bits rf))" and ?rb = "cluster_in_rc_block rf (i + fc)"
    have rt: "unat ?rt = unat ?j div ?R" using n sh(2) by (simp add: unat_shr)
    have rb: "unat ?rb = unat ?j mod ?R" using sh(4) by (simp add: add.commute)
    have rbl: "unat ?rb < ?R" using rb by simp
    let ?m = "min (ucast (rf_blk_size rf) - ?rb) (cl - i)"
    have m: "unat ?m = min (?R - unat ?rb) (unat cl - unat i)"
      using rbl il sh(3) by (simp add: min_def word_le_nat_alt unat_sub_if')
    have im: "unat (i + ?m) = unat i + unat ?m" using m fit il by (subst unat_add_eq) simp_all
    have pr: "unat (i + ?m) \<le> unat cl" "unat cl - unat (i + ?m) \<le> k" using im m rbl il Suc.prems by linarith+
    note ih = Suc.IH [OF pr]
    have pos: "unat fc + unat i = unat ?rt * ?R + unat ?rb" unfolding rt rb j [symmetric] by (simp only: div_mult_mod_eq)
    have len: "?rt < rf_table_size rf \<longleftrightarrow> unat ?rt < length (rf_table rf)" using l by (simp add: word_less_nat_alt rc_layout_def)
    show ?thesis
    proof (cases "has_block n (rf_table rf) (unat fc + unat i)")
      case False
      then have "\<not> (unat ?rt < length (rf_table rf) \<and> rf_table rf ! unat ?rt \<noteq> 0)" by (simp add: has_block_def rt j)
      then have "\<exists>e. rc_ranges (Suc k) rf fc cl i = Inl e \<and> e \<noteq> ENoReturn" using True len by (subst rc_ranges.simps) (auto simp: Let_def not_le)
      then show ?thesis using False il by (auto intro!: exI [of _ "unat fc + unat i"])
    next
      case True': True
      have ok: "unat ?rt < length (rf_table rf) \<and> rf_table rf ! unat ?rt \<noteq> 0 \<and> rf_offset_into_cluster rf (rf_table rf ! unat ?rt) = 0"
        using True' T by (simp add: has_block_def rt j)
      then have e: "rc_ranges (Suc k) rf fc cl i = and_then (rc_ranges k rf fc cl (i + ?m)) (\<lambda>rs. Inr ((?rt, ?rb, unat ?m) # rs))"
        using True len by (subst rc_ranges.simps) (simp add: Let_def linorder_not_le [symmetric])
      have mr: "unat ?rb + unat ?m \<le> ?R" using m rbl by linarith
      show ?thesis
      proof (cases "rc_ranges k rf fc cl (i + ?m)")
        case (Inr rs)
        then have "chain n (rf_table rf) (unat fc + unat i + unat ?m) rs (unat fc + unat cl)" using ih im by (simp add: add.assoc)
        then have "chain n (rf_table rf) (unat fc + unat i) ((?rt, ?rb, unat ?m) # rs) (unat fc + unat cl)" using ok pos mr unfolding chain.simps by blast
        then show ?thesis by (simp add: e Inr del: chain.simps)
      next
        case (Inl a)
        then obtain c where "a \<noteq> ENoReturn" "unat fc + unat (i + ?m) \<le> c" "c < unat fc + unat cl" "\<not> has_block n (rf_table rf) c" using ih by auto
        then show ?thesis using e Inl im by (auto intro!: exI [of _ c])
      qed
    qed
  qed
qed

text \<open>
  Changing the counts of a chain of pieces: a part of the pieces from the front has changed, all of them
  unless the count of a cluster of the range cannot change.
\<close>

lemma set_blocks_spec:
  assumes ord: "\<And>m. set (ord m) = set m" and io: "io = (\<lambda>_ _. None)"
  shows "rc_ok n s \<Longrightarrow> chain n (rf_table (rs_rf s)) a rs b \<Longrightarrow> set_refcount_blocks io ord rs added dt s = (idx, s') \<Longrightarrow>
    rc_ok n s' \<and> rc_kept (rs_rf s) (rs_rf s') \<and> rs_header s' = rs_header s \<and> idx \<le> length rs \<and>
    (\<exists>e. chain n (rf_table (rs_rf s)) a (take idx rs) e \<and> e \<le> b \<and>
      (\<forall>c. if a \<le> c \<and> c < e then new_count (rs_rf s) (added > 0) (of_int \<bar>added\<bar>) (count n s c) = Some (count n s' c) else count n s' c = count n s c) \<and>
      (if idx = length rs then e = b else \<exists>c. a \<le> c \<and> c < b \<and> new_count (rs_rf s) (added > 0) (of_int \<bar>added\<bar>) (count n s c) = None))"
proof (induction rs arbitrary: a s idx)
  case Nil
  then show ?case by auto
next
  case (Cons x rs)
  obtain rt rb m where x: "x = (rt, rb, m)" by (cases x)
  let ?T = "rf_table (rs_rf s)" and ?nc = "new_count (rs_rf s) (added > 0) (of_int \<bar>added\<bar>)"
  have ch: "a = unat rt * 2 ^ (n - 1) + unat rb" "unat rb + m \<le> 2 ^ (n - 1)" "unat rt < length ?T" "?T ! unat rt \<noteq> 0" "chain n ?T (a + m) rs b"
    using Cons.prems(2) unfolding x chain.simps by blast+
  obtain i s0 where cb: "cached_block io ord rt s = (Inr i, s0)" using cached_block_total [OF Cons.prems(1) ord ch(3) io] by blast
  obtain r s1 where sr: "set_refcount io ord rt rb m added dt s = (r, s1)" by fastforce
  note sp = set_refcount_spec [OF Cons.prems(1) ord ch(3,4,2) cb sr, folded ch(1)]
  have ab: "a + m \<le> b" using chain_le [OF ch(5)] .
  show ?case
  proof (cases r)
    case (Inl e)
    then have "idx = 0" "s' = s1" using Cons.prems(3) sr by (simp_all add: x)
    moreover have "\<exists>c. a \<le> c \<and> c < b \<and> ?nc (count n s c) = None" using sp Inl ab by fastforce
    ultimately show ?thesis using sp Inl ab by simp auto
  next
    case (Inr u)
    obtain j where j: "set_refcount_blocks io ord rs added dt s1 = (j, s')" "idx = Suc j" using Cons.prems(3) sr Inr by (auto simp: x split: prod.splits)
    have k1: "rc_kept (rs_rf s) (rs_rf s1)" and ok1: "rc_ok n s1" using sp by blast+
    note kk = rc_kept_simps [OF k1]
    have "chain n (rf_table (rs_rf s1)) (a + m) rs b" using ch(5) kk(1) by simp
    note ih = Cons.IH [OF ok1 this j(1), unfolded kk(1,4)]
    then obtain e where e: "chain n ?T (a + m) (take j rs) e" "e \<le> b"
      "\<And>c. if a + m \<le> c \<and> c < e then ?nc (count n s1 c) = Some (count n s' c) else count n s' c = count n s1 c"
      "if j = length rs then e = b else \<exists>c. a + m \<le> c \<and> c < b \<and> ?nc (count n s1 c) = None" by blast
    have c1: "if a \<le> c \<and> c < a + m then ?nc (count n s c) = Some (count n s1 c) else count n s1 c = count n s c" for c using sp Inr by auto
    have "a + m \<le> e" using chain_le [OF e(1)] .
    then have "if a \<le> c \<and> c < e then ?nc (count n s c) = Some (count n s' c) else count n s' c = count n s c" for c
      using e(3) [of c] c1 [of c] by (cases "c < a + m") (auto split: if_splits)
    moreover have "chain n ?T a (take idx (x # rs)) e" using e(1) ch by (simp add: x j(2))
    moreover have "if idx = length (x # rs) then e = b else \<exists>c. a \<le> c \<and> c < b \<and> ?nc (count n s c) = None"
    proof (cases "j = length rs")
      case False
      then obtain c where "a + m \<le> c" "c < b" "?nc (count n s1 c) = None" using e(4) by auto
      then show ?thesis using c1 [of c] j(2) False by (auto intro!: exI [of _ c])
    qed (use e(4) j(2) in simp)
    moreover have "rc_ok n s'" "rc_kept (rs_rf s) (rs_rf s')" "rs_header s' = rs_header s" "idx \<le> length (x # rs)"
      using ih rc_kept_trans [OF k1] sp j(2) by auto
    ultimately show ?thesis using e(2) by blast
  qed
qed

text \<open>The change of a count is the addition of an integer, and fails when the sum is not a count.\<close>

lemma new_count_int:
  assumes max: "rf_max rf = 65535" and a: "\<bar>added\<bar> < 65536"
  shows "new_count rf (added > 0) (of_int \<bar>added\<bar>) v = Some w \<longleftrightarrow> int (unat w) = int (unat v) + added"
proof -
  have u: "unat (of_int \<bar>added\<bar> :: u16) = nat \<bar>added\<bar>" using a by (simp add: unsigned_of_int take_bit_int_eq_self)
  have m: "x \<le> ucast (rf_max rf)" for x :: u16
  proof -
    have "(ucast (rf_max rf) :: u16) = - 1" by (simp add: max)
    then show ?thesis by simp
  qed
  show ?thesis
  proof (cases "added > 0")
    case True
    have "new_count rf True (of_int \<bar>added\<bar>) v = Some w \<longleftrightarrow> unat v + unat (of_int \<bar>added\<bar> :: u16) < 2 ^ 16 \<and> w = v + of_int \<bar>added\<bar>"
      using m by (auto simp: new_count_def checked_add_def)
    also have "\<dots> \<longleftrightarrow> unat w = unat v + nat \<bar>added\<bar>"
    proof
      assume "unat v + unat (of_int \<bar>added\<bar> :: u16) < 2 ^ 16 \<and> w = v + of_int \<bar>added\<bar>"
      then show "unat w = unat v + nat \<bar>added\<bar>" using u unat_add_eq [of v "of_int \<bar>added\<bar>"] by simp
    next
      assume w: "unat w = unat v + nat \<bar>added\<bar>"
      then have lt: "unat v + unat (of_int \<bar>added\<bar> :: u16) < 2 ^ 16" using u unsigned_less [of w, where ?'a = nat] by simp
      then show "unat v + unat (of_int \<bar>added\<bar> :: u16) < 2 ^ 16 \<and> w = v + of_int \<bar>added\<bar>"
        using w u unat_add_eq [of v "of_int \<bar>added\<bar>"] by (simp add: word_unat_eq_iff)
    qed
    also have "\<dots> \<longleftrightarrow> int (unat w) = int (unat v) + added" using True by linarith
    finally show ?thesis using True by simp
  next
    case False
    have "new_count rf False (of_int \<bar>added\<bar>) v = Some w \<longleftrightarrow> nat \<bar>added\<bar> \<le> unat v \<and> w = v - of_int \<bar>added\<bar>"
      using u by (simp add: new_count_def checked_sub_Some)
    also have "\<dots> \<longleftrightarrow> unat w + nat \<bar>added\<bar> = unat v"
    proof
      assume "nat \<bar>added\<bar> \<le> unat v \<and> w = v - of_int \<bar>added\<bar>"
      then show "unat w + nat \<bar>added\<bar> = unat v" using u by (simp add: unat_sub_if')
    next
      assume w: "unat w + nat \<bar>added\<bar> = unat v"
      then have "unat (v - of_int \<bar>added\<bar>) = unat w" using u by (simp add: unat_sub_if')
      then show "nat \<bar>added\<bar> \<le> unat v \<and> w = v - of_int \<bar>added\<bar>" using w by (simp add: word_unat_eq_iff)
    qed
    also have "\<dots> \<longleftrightarrow> int (unat w) = int (unat v) + added" using False by linarith
    finally show ?thesis using False by simp
  qed
qed

lemma bytes_to_clusters_aligned:
  assumes l: "rc_layout n rf" and o: "rf_offset_into_cluster rf off = 0"
  shows "\<exists>c. bytes_to_clusters off (rf_cluster_size rf) = Inr c \<and> unat c = unat off div 2 ^ n" "unat off mod 2 ^ n = 0"
proof -
  have n: "rf_cluster_size rf = 2 ^ n" "n < 64" using l by (auto simp: rc_layout_def)
  have "off AND mask n = 0" using o by (simp add: rf_offset_into_cluster_def n(1) mask_eq_exp_minus_1)
  then show d: "unat off mod 2 ^ n = 0" by (simp add: and_mask_dvd_nat mod_eq_0_iff_dvd)
  have u: "unat (2 ^ n :: u64) = 2 ^ n" by (rule unat_pow2 [OF n(2)])
  have z: "(2 ^ n :: u64) \<noteq> 0" using n(2) by simp
  have "off mod 2 ^ n = 0" using d u by (simp add: word_unat_eq_iff unat_mod)
  then show "\<exists>c. bytes_to_clusters off (rf_cluster_size rf) = Inr c \<and> unat c = unat off div 2 ^ n"
    using z u by (simp add: bytes_to_clusters_def div_round_up_def checked_div_def n(1) unat_div)
qed

text \<open>What \<open>update_refcount\<close> does when the file can be read and written.\<close>

lemma update_refcount_spec:
  assumes s: "rc_ok n s" and ord: "\<And>m. set (ord m) = set m" and io: "io = (\<lambda>_ _. None)" and fit: "unat off div 2 ^ n + unat cl < 2 ^ 64" and a: "\<bar>added\<bar> < 65536"
    and run: "update_refcount io ord off cl added flush dt s = (r, s')"
  defines "f \<equiv> unat off div 2 ^ n"
  shows "rc_ok n s' \<and> rc_kept (rs_rf s) (rs_rf s') \<and> rs_header s' = rs_header s \<and> r \<noteq> Inl ENoReturn \<and>
    (\<forall>c. int (unat (count n s' c)) = int (unat (count n s c)) + (if r = Inr () \<and> f \<le> c \<and> c < f + unat cl then added else 0)) \<and>
    (r = Inr () \<and> flush \<longrightarrow> stored_count n s' = count n s') \<and>
    (r \<noteq> Inr () \<and> unat off mod 2 ^ n = 0 \<longrightarrow>
       (\<exists>c. f \<le> c \<and> c < f + unat cl \<and> \<not> (has_block n (rf_table (rs_rf s)) c \<and> 0 \<le> int (unat (count n s c)) + added \<and> int (unat (count n s c)) + added < 65536)))"
proof -
  have l: "rc_layout n (rs_rf s)" and max: "rf_max (rs_rf s) = 65535" using s by (auto simp: rc_ok_def rc_layout_def)
  note nc = new_count_int [OF max a]
  show ?thesis
  proof (cases "rf_offset_into_cluster (rs_rf s) off = 0")
    case False
    then have "unat off mod 2 ^ n \<noteq> 0" using l
      by (auto simp: rf_offset_into_cluster_def rc_layout_def mask_eq_exp_minus_1 [symmetric] and_mask_dvd_nat mod_eq_0_iff_dvd)
    then show ?thesis using False run s by (auto simp: update_refcount_def Let_def)
  next
    case True
    obtain fc where fc: "bytes_to_clusters off (rf_cluster_size (rs_rf s)) = Inr fc" "unat fc = f"
      using bytes_to_clusters_aligned(1) [OF l True] unfolding f_def by blast
    have "unat fc + unat cl < 2 ^ 64" using fit fc(2) by (simp add: f_def)
    note rg = rc_ranges_chain [OF l this rc_table_entry(2) [OF s], of 0 "unat cl", unfolded fc(2)]
    show ?thesis
    proof (cases "rc_ranges (unat cl) (rs_rf s) fc cl 0")
      case (Inl e)
      then show ?thesis using run rg s fc(1) True by (auto simp: update_refcount_def Let_def)
    next
      case (Inr rs)
      have ch: "chain n (rf_table (rs_rf s)) f rs (f + unat cl)" using rg Inr by simp
      obtain idx s1 where b: "set_refcount_blocks io ord rs added dt s = (idx, s1)" by fastforce
      from set_blocks_spec [where ord = ord, OF ord io s ch b] obtain e where
        1: "rc_ok n s1" "rc_kept (rs_rf s) (rs_rf s1)" "rs_header s1 = rs_header s" "idx \<le> length rs" and e: "chain n (rf_table (rs_rf s)) f (take idx rs) e" "e \<le> f + unat cl"
        and c1: "\<And>c. if f \<le> c \<and> c < e then int (unat (count n s1 c)) = int (unat (count n s c)) + added else count n s1 c = count n s c"
        and all: "if idx = length rs then e = f + unat cl else \<exists>c. f \<le> c \<and> c < f + unat cl \<and> new_count (rs_rf s) (added > 0) (of_int \<bar>added\<bar>) (count n s c) = None"
        unfolding nc by blast
      show ?thesis
      proof (cases "idx = length rs")
        case True: True
        have cnt: "int (unat (count n s1 c)) = int (unat (count n s c)) + (if f \<le> c \<and> c < f + unat cl then added else 0)" for c
          using c1 [of c] all True by (auto split: if_splits)
        show ?thesis
        proof (cases flush)
          case False
          then have "r = Inr ()" "s' = s1" using run fc Inr b True \<open>rf_offset_into_cluster (rs_rf s) off = 0\<close> by (auto simp: update_refcount_def Let_def)
          then show ?thesis using 1 cnt False by simp
        next
          case fl: True
          then have fr: "rc_flush io s1 = (r, s')" using run fc Inr b True \<open>rf_offset_into_cluster (rs_rf s) off = 0\<close> by (simp add: update_refcount_def Let_def)
          then have r: "r = Inr ()" using rc_flush_total [OF 1(1) io] by simp
          note fk = rc_flush_keeps [OF 1(1) fr [unfolded r]]
          have l1: "rc_layout n (rs_rf s1)" using 1(1) by (simp add: rc_ok_def)
          have "count n s' c = count n s1 c" for c using same_count [OF l1] fk by blast
          moreover have "rc_kept (rs_rf s) (rs_rf s')" "rs_header s' = rs_header s" using fk 1(2,3) rc_kept_trans [OF 1(2)] by (auto simp: rc_same_def)
          ultimately show ?thesis using fk r cnt by simp
        qed
      next
        case False
        obtain rev s2 where b2: "set_refcount_blocks io ord (take idx rs) (- added) dt s1 = (rev, s2)" by fastforce
        have r: "r = Inl (ERecover (rev = idx))" "s' = s2" using run fc Inr b b2 False True by (auto simp: update_refcount_def Let_def)
        have ch2: "chain n (rf_table (rs_rf s1)) f (take idx rs) e" using e(1) rc_kept_simps(1) [OF 1(2)] by simp
        have max1: "rf_max (rs_rf s1) = 65535" "\<bar>- added\<bar> < 65536" using max rc_kept_simps(2) [OF 1(2)] a by simp_all
        from set_blocks_spec [where ord = ord, OF ord io 1(1) ch2 b2] obtain e' where
          2: "rc_ok n s2" "rc_kept (rs_rf s1) (rs_rf s2)" "rs_header s2 = rs_header s1"
          and c2: "\<And>c. if f \<le> c \<and> c < e' then int (unat (count n s2 c)) = int (unat (count n s1 c)) + - added else count n s2 c = count n s1 c"
          and all2: "if rev = length (take idx rs) then e' = e else \<exists>c. f \<le> c \<and> c < e \<and> new_count (rs_rf s1) (- added > 0) (of_int \<bar>- added\<bar>) (count n s1 c) = None"
          unfolding new_count_int [OF max1] by blast
        have "new_count (rs_rf s1) (- added > 0) (of_int \<bar>- added\<bar>) (count n s1 c) = Some (count n s c)" if "f \<le> c" "c < e" for c
          unfolding new_count_int [OF max1] using c1 [of c] that by simp
        then have "e' = e" using all2 by (auto split: if_splits)
        obtain c where c: "f \<le> c" "c < f + unat cl" "new_count (rs_rf s) (added > 0) (of_int \<bar>added\<bar>) (count n s c) = None" using all False by auto
        have "int (unat (of_nat (nat x) :: u16)) = x" if "0 \<le> x" "x < 65536" for x using that by (simp add: unsigned_of_int take_bit_int_eq_self)
        then have "\<not> (0 \<le> int (unat (count n s c)) + added \<and> int (unat (count n s c)) + added < 65536)"
          using nc [of "count n s c" "of_nat (nat (int (unat (count n s c)) + added))"] c(3) by fastforce
        note bad = this c(1,2)
        have "count n s2 c = count n s c" for c using \<open>e' = e\<close> c1 [of c] c2 [of c] by (auto simp: word_uint_eq_iff split: if_splits)
        then show ?thesis using \<open>e' = e\<close> 2 1(2,3) rc_kept_trans r bad by auto
      qed
    qed
  qed
qed

end
