(* ===== verification/Qcow2Alloc.thy ===== *)
theory Qcow2Alloc
  imports Qcow2Update
begin

text \<open>
  The reference counts of an opened image, and what allocating clusters does.
\<close>

section \<open>An opened image\<close>

definition rc_opened :: "qcow_header \<Rightarrow> memory \<Rightarrow> ref_count \<Rightarrow> rc_state" where
  "rc_opened h d rf = \<lparr>rs_rf = rf, rs_tabs = no_tables, rs_next = 0, rs_disk = d, rs_header = h\<rparr>"

lemma entry_size_8: "ENTRY_SIZE = 8"
  by (simp add: ENTRY_SIZE_def ENTRY_BITS_def shl_def)

lemma rc_opened_ok:
  assumes h: "header_check h = Inr ()" and ld: "load_refcount_table io h d (init_refcount_info h dis sz new_ref_count) = Inr rf"
    and n: "n = unat (h_cluster_bits h)" and T: "rc_table_ok (2 ^ n) (rf_table rf)"
  shows "rc_ok n (rc_opened h d rf)"
proof -
  have b: "9 \<le> n" "n \<le> 21" and o4: "h_refcount_order h = 4" using h n by (auto simp: header_check_def word_le_nat_alt split: if_splits)
  have cs: "cluster_size h = 2 ^ n" using b(2) by (simp add: cluster_size_def shl_def push_bit_eq_mult n)
  let ?c = "ucast (h_refcount_table_clusters h) :: u64"
  have c: "unat ?c < 2 ^ 32" using unsigned_less [of "h_refcount_table_clusters h", where 'a = nat] by (simp add: unsigned_ucast_eq take_bit_nat_eq_self)
  have u: "unat (2 ^ n :: u64) = 2 ^ n" using b by (simp add: unat_pow2)
  have "(2 :: nat) ^ n \<le> 2 ^ 21" using b by (intro power_increasing) simp_all
  then have "unat ?c * 2 ^ n \<le> 2 ^ 32 * 2 ^ 21" using c by (intro mult_mono) simp_all
  then have m: "unat ?c * 2 ^ n < 2 ^ 64" by simp
  have d8: "(2 :: nat) ^ n div 8 * 8 = 2 ^ n" using le_imp_power_dvd [of 3 n "2 :: nat"] b by simp
  have s1: "unat (?c * 2 ^ n div 8) = unat ?c * (2 ^ n div 8)"
  proof -
    have "unat (?c * 2 ^ n) = unat ?c * (2 ^ n div 8) * 8" using m u d8 unat_mult_lem [of ?c "2 ^ n"] by (simp add: mult.assoc)
    then show ?thesis by (simp add: unat_div)
  qed
  have "unat ?c * (2 ^ n div 8) < 2 ^ 64" using m by (rule le_less_trans [rotated]) simp
  then have s2: "unat (?c * (2 ^ n div 8)) = unat ?c * (2 ^ n div 8)" using u unat_mult_lem [of ?c "2 ^ n div 8"] by (simp add: unat_div)
  define tb where "tb = rf_table rf"
  have tb: "length tb = unat ?c * (2 ^ n div 8)" "rf = (init_refcount_info h dis sz new_ref_count)\<lparr>rf_table := tb\<rparr>"
    using ld s2 by (auto simp: tb_def load_refcount_table_def read_ctrl_cluster_def and_then_Inr cs entry_size_8)
  have bits: "h_cluster_bits h = of_nat n" by (simp add: n)
  have "(of_nat n :: u32) + 3 - 4 = of_nat (n - 1)" using b by (simp add: of_nat_diff)
  moreover have "unat (of_nat (n - 1) :: u32) = n - 1" using b by (simp add: unat_of_nat take_bit_nat_eq_self del: of_nat_diff)
  ultimately have "rc_layout n rf" using tb s1 b
    by (simp add: rc_layout_def init_refcount_info_def Let_def o4 bits [symmetric] cs entry_size_8 shl_def push_bit_eq_mult)
  moreover have "0 < qc_max_size (rf_cache rf)" "qc_map (rf_cache rf) = []" "qc_dirty_tables (rf_cache rf) = []"
    by (simp_all add: tb(2) init_refcount_info_def Let_def new_qcow2_cache_def CACHE_DEFAULT_SIZE_def)
  ultimately show ?thesis using T by (simp add: rc_ok_def rc_opened_def rs_cache_def blocks_ok_def)
qed

text \<open>The counts of a small image: one block, at 0x800, where the clusters 0 to 4 are in use.\<close>

definition ex_rc_disk :: memory where
  "ex_rc_disk = (\<lambda>a. if a = 1030 then 8 else if a \<in> {2049, 2051, 2053, 2055, 2057} then 1 else 0)"

definition ex_rf :: ref_count where
  "ex_rf = (init_refcount_info ex_image_header True None new_ref_count)\<lparr>rf_table := 2048 # replicate 63 0\<rparr>"

definition ex_rc :: rc_state where
  "ex_rc = rc_opened ex_image_header ex_rc_disk ex_rf"

lemma ex_rf_loaded: "load_refcount_table (\<lambda>_ _. None) ex_image_header ex_rc_disk (init_refcount_info ex_image_header True None new_ref_count) = Inr ex_rf"
proof -
  have e: "from_be (take 8 (drop (8 * i) (load ex_rc_disk 1024 512))) = (2048 # replicate 63 0 :: u64 list) ! i" if i: "i < 64" for i
  proof -
    have "take 8 (drop (8 * i) (load ex_rc_disk 1024 512)) = map (\<lambda>p. ex_rc_disk (1024 + of_nat (8 * i + p))) [0..<8]"
      using i by (intro nth_equalityI) auto
    also have "\<dots> = (if i = 0 then [0, 0, 0, 0, 0, 0, 8, 0] else [0, 0, 0, 0, 0, 0, 0, 0])"
    proof (cases "i = 0")
      case False
      have "ex_rc_disk (1024 + of_nat (8 * i + p)) = 0" if "p < 8" for p
      proof -
        have "unat (1024 + of_nat (8 * i + p) :: u64) = 1024 + (8 * i + p)" using i that by (subst unat_add_eq) (simp_all add: unat_nat64 del: of_nat_add of_nat_mult)
        then show ?thesis using i that False by (auto simp: ex_rc_disk_def word_unat_eq_iff simp del: of_nat_add of_nat_mult)
      qed
      then have "map (\<lambda>p. ex_rc_disk (1024 + of_nat (8 * i + p))) [0..<8] = map (\<lambda>_. 0) [0..<8]" by (intro map_cong) (simp_all del: of_nat_add of_nat_mult)
      then show ?thesis using False by (simp add: upt_rec)
    qed (simp add: upt_rec ex_rc_disk_def)
    finally show ?thesis using i by (cases i) (simp_all add: from_be_def push_bit_eq_mult)
  qed
  have "map (\<lambda>i. from_be (take 8 (drop (8 * i) (load ex_rc_disk 1024 512)))) [0..<64] = (2048 # replicate 63 0 :: u64 list)"
    using e by (intro nth_equalityI) simp_all
  moreover have "h_refcount_table_offset ex_image_header = 1024" "ucast (h_refcount_table_clusters ex_image_header) * (cluster_size ex_image_header div ENTRY_SIZE) = (64 :: u64)"
    by (simp_all add: ex_image_header_def cluster_size_def shl_def push_bit_eq_mult entry_size_8)
  ultimately show ?thesis by (simp add: load_refcount_table_def read_ctrl_cluster_def read_buffer_def ex_rf_def)
qed

lemma ex_rc_ok: "rc_ok 9 ex_rc"
proof -
  have "rc_table_ok (2 ^ 9) (rf_table ex_rf)" by (auto simp: rc_table_ok_def ex_rf_def at_cluster_def nth_Cons split: nat.splits)
  then show ?thesis unfolding ex_rc_def using rc_opened_ok [OF ex_image_checked ex_rf_loaded, of 9] by (simp add: ex_image_header_def)
qed

lemma ex_rc_simps:
  "rf_table (rs_rf ex_rc) = 2048 # replicate 63 0" "rf_discard_list (rs_rf ex_rc) = []" "rf_free_cluster_index (rs_rf ex_rc) = 0"
  "rf_table_size (rs_rf ex_rc) = 64"
  by (simp_all add: ex_rc_def rc_opened_def ex_rf_def init_refcount_info_def Let_def new_ref_count_def ex_image_header_def cluster_size_def shl_def
      push_bit_eq_mult entry_size_8)

lemma ex_rc_count: "count 9 ex_rc 0 = 1" "count 9 ex_rc 1 = 1" "count 9 ex_rc 2 = 1" "count 9 ex_rc 3 = 1" "count 9 ex_rc 4 = 1" "count 9 ex_rc 5 = 0" "count 9 ex_rc 6 = 0"
proof -
  have v: "rc_view ex_rc 0 p = ex_rc_disk (2048 + of_nat p)" for p
    by (simp add: rc_view_def blk_view_def ex_rc_simps rs_cache_def) (simp add: ex_rc_def rc_opened_def ex_rf_def init_refcount_info_def Let_def new_qcow2_cache_def)
  show "count 9 ex_rc 0 = 1" "count 9 ex_rc 1 = 1" "count 9 ex_rc 2 = 1" "count 9 ex_rc 3 = 1" "count 9 ex_rc 4 = 1" "count 9 ex_rc 5 = 0" "count 9 ex_rc 6 = 0"
    by (simp_all add: count_def ex_rc_simps v upt_rec ex_rc_disk_def from_be_def)
qed

lemma ex_rc_update:
  obtains s' where "update_refcount (\<lambda>_ _. None) id 2048 2 1 True Never ex_rc = (Inr (), s')"
proof -
  have ord: "set (id m) = set m" for m :: "(u64 \<times> tid) list" by simp
  obtain r s' where u: "update_refcount (\<lambda>_ _. None) id 2048 2 1 True Never ex_rc = (r, s')" by fastforce
  have four: "c = 4 \<or> c = 5" if "4 \<le> c" "c < 6" for c :: nat using that by auto
  have "r = Inr ()" using update_refcount_spec [OF ex_rc_ok ord refl _ _ u] ex_rc_count
    by (auto simp: has_block_def ex_rc_simps dest!: four)
  then show thesis using u that by blast
qed

section \<open>Changing counts\<close>



text \<open>
  C23. An update of reference counts that flushes reaches the file: after it succeeds, the counts
  that the file itself holds, read without the cache, are the counts before it with the number added in the range.
\<close>

theorem update_refcount_durable:
  assumes "rc_ok n s" and "\<And>m. set (ord m) = set m" and "unat off div 2 ^ n + unat clusters < 2 ^ 64" and "\<bar>added\<bar> < 65536"
    and "update_refcount (\<lambda>_ _. None) ord off clusters added True discard_type s = (Inr (), s')"
  shows "int (unat (stored_count n s' c)) = int (unat (count n s c)) + (if unat off div 2 ^ n \<le> c \<and> c < unat off div 2 ^ n + unat clusters then added else 0)"
  using update_refcount_spec [OF assms(1,2) refl assms(3-5)] by simp

theorem update_refcount_durable_witness:
  "\<exists>s'. update_refcount (\<lambda>_ _. None) id 2048 2 1 True Never ex_rc = (Inr (), s') \<and> stored_count 9 s' 4 = 2 \<and> stored_count 9 s' 5 = 1"
proof -
  have ord: "set (id m) = set m" for m :: "(u64 \<times> tid) list" by simp
  obtain s' where u: "update_refcount (\<lambda>_ _. None) id 2048 2 1 True Never ex_rc = (Inr (), s')" by (rule ex_rc_update)
  note k = update_refcount_durable [OF ex_rc_ok ord _ _ u]
  show ?thesis using u k [of 4] k [of 5] ex_rc_count by (auto simp: word_uint_eq_iff)
qed

section \<open>Finding free clusters\<close>

lemma get_refcount_total:
  assumes s: "rc_ok n s" and ord: "\<And>m. set (ord m) = set m" and io: "io = (\<lambda>_ _. None)"
  shows "\<exists>v s'. get_refcount io ord off s = (Inr v, s')"
proof -
  have l: "rc_layout n (rs_rf s)" using s by (simp add: rc_ok_def)
  note sh = rc_shift [OF l]
  let ?T = "rf_table (rs_rf s)" and ?r = "shr (shr off n) (n - 1)" and ?j = "cluster_in_rc_block (rs_rf s) (shr off n)"
  have len: "rf_table_size (rs_rf s) \<le> ?r \<longleftrightarrow> length ?T \<le> unat ?r" using l by (simp add: word_le_nat_alt rc_layout_def)
  show ?thesis
  proof (cases "unat ?r < length ?T \<and> ?T ! unat ?r \<noteq> 0")
    case False
    then show ?thesis using len rc_table_entry(1) [OF s, of "unat ?r"] by (auto simp: get_refcount_def Let_def sh)
  next
    case True
    then obtain i s1 where cb: "cached_block io ord ?r s = (Inr i, s1)" using cached_block_total [OF s ord _ io] by blast
    have k: "rc_ok n s1" "map_of (qc_map (rs_cache s1)) ?r = Some i" using cached_block_keeps [OF s ord _ _ cb] True by auto
    have "unat ?j < 2 ^ (n - 1)" using sh(4) [of "shr off n"] by simp
    from count_cached(3) [OF k this] obtain w where "get_entry_map ?j (rs_tabs s1 i) = Inr w" by auto
    then show ?thesis using True len rc_table_entry [OF s, of "unat ?r"] cb by (simp add: get_refcount_def Let_def sh)
  qed
qed

lemma unat_shl:
  assumes "n < 64" and "unat (c :: u64) < 2 ^ (64 - n)"
  shows "unat (shl c n) = unat c * 2 ^ n"
proof -
  have "unat c * 2 ^ n < 2 ^ (64 - n) * 2 ^ n" using assms(2) by simp
  also have "\<dots> = 2 ^ 64" using assms(1) by (simp flip: power_add)
  finally show ?thesis using assms(1) unat_mult_lem [of c "2 ^ n"] by (simp add: shl_def push_bit_eq_mult unat_pow2 mult.commute)
qed

lemma count_beyond: "length (rf_table (rs_rf s)) * 2 ^ (n - 1) \<le> c \<Longrightarrow> count n s c = 0"
  by (simp add: count_def Let_def div_less_iff_less_mult)

text \<open>
  The search: the clusters just before the index are free, and are as many as counted. Each turn below the end of the
  table moves on by one cluster; behind it every cluster is free.
\<close>

lemma alloc_loop_spec:
  assumes ord: "\<And>m. set (ord m) = set m" and io: "io = (\<lambda>_ _. None)"
  shows "rc_ok n s \<Longrightarrow> unat (rf_free_cluster_index (rs_rf s)) + k < 2 ^ (64 - n) \<Longrightarrow> unat free \<le> unat (rf_free_cluster_index (rs_rf s)) \<Longrightarrow>
    free \<le> nb \<Longrightarrow> \<forall>c. unat (rf_free_cluster_index (rs_rf s)) - unat free \<le> c \<and> c < unat (rf_free_cluster_index (rs_rf s)) \<longrightarrow> count n s c = 0 \<Longrightarrow>
    (let fi = unat (rf_free_cluster_index (rs_rf s)); top = length (rf_table (rs_rf s)) * 2 ^ (n - 1)
     in (if fi < top then top - fi + unat nb else unat nb - unat free) \<le> k) \<Longrightarrow>
    \<exists>s'. alloc_loop k io ord nb free s = (Inr (), s') \<and> rc_ok n s' \<and> rc_kept (rs_rf s) (rs_rf s') \<and> rs_header s' = rs_header s \<and> count n s' = count n s \<and>
      unat nb \<le> unat (rf_free_cluster_index (rs_rf s')) \<and> unat (rf_free_cluster_index (rs_rf s')) < 2 ^ (64 - n) \<and>
      (\<forall>c. unat (rf_free_cluster_index (rs_rf s')) - unat nb \<le> c \<and> c < unat (rf_free_cluster_index (rs_rf s')) \<longrightarrow> count n s c = 0) \<and>
      (\<forall>c. unat (rf_free_cluster_index (rs_rf s)) - unat free \<le> c \<and> (\<forall>x. c \<le> x \<and> x < c + unat nb \<longrightarrow> count n s x = 0) \<longrightarrow>
        unat (rf_free_cluster_index (rs_rf s')) - unat nb \<le> c)"
proof (induction k arbitrary: s free)
  case 0
  then have "unat free = unat nb" by (auto simp: Let_def word_le_nat_alt split: if_splits)
  then have "free = nb" by (simp add: word_unat_eq_iff)
  then show ?case using 0 by (simp add: alloc_loop.simps)
next
  case (Suc k)
  show ?case
  proof (cases "free < nb")
    case False
    then have "free = nb" using Suc.prems(4) by simp
    then show ?thesis using Suc.prems by (simp add: alloc_loop.simps)
  next
    case True
    let ?fi = "rf_free_cluster_index (rs_rf s)" and ?top = "length (rf_table (rs_rf s)) * 2 ^ (n - 1)"
    have l: "rc_layout n (rs_rf s)" and n: "n < 64" using Suc.prems(1) by (auto simp: rc_ok_def rc_layout_def)
    have fb: "unat free < unat nb" using True by (simp add: word_less_nat_alt)
    have p: "(2 :: nat) ^ (64 - n) \<le> 2 ^ 64" by (rule power_increasing) simp_all
    have fi1: "unat (?fi + 1) = unat ?fi + 1" using Suc.prems(2) p by (subst unat_add_eq) simp_all
    have fr1: "unat (free + 1) = unat free + 1" using le_less_trans [OF Suc_leI [OF fb] unat_lt_64] by (subst unat_add_eq) simp_all
    let ?rf1 = "(rs_rf s)\<lparr>rf_free_cluster_index := ?fi + 1\<rparr>"
    define s1 where "s1 = s\<lparr>rs_rf := ?rf1\<rparr>"
    have "rf_cache ?rf1 = rs_cache s" by (simp add: rs_cache_def)
    note o1 = rc_ok_rf [OF rc_kept_upd(4) this, of n, folded s1_def]
    have ok1: "rc_ok n s1" using o1(1) Suc.prems(1) by simp
    obtain v s2 where g: "get_refcount io ord (shl ?fi n) s1 = (Inr v, s2)" using get_refcount_total [OF ok1 ord io] by blast
    have l1: "rc_layout n (rs_rf s1)" using ok1 by (simp add: rc_ok_def)
    have "unat (shl ?fi n) div 2 ^ n = unat ?fi" using unat_shl [OF n, of ?fi] Suc.prems(2) by simp
    then have k2: "rc_ok n s2" "rc_same n s1 s2" "v = count n s (unat ?fi)" using get_refcount_count [OF ok1 ord g] o1(2) by auto
    have c2: "count n s2 = count n s" using same_count [OF l1 k2(2)] o1(2) by auto
    have f2: "rf_free_cluster_index (rs_rf s2) = ?fi + 1" "rf_table (rs_rf s2) = rf_table (rs_rf s)" "rc_kept (rs_rf s) (rs_rf s2)" "rs_header s2 = rs_header s"
      using k2(2) rc_kept_trans [OF rc_kept_upd(4) rc_kept_upd(2)] by (auto simp: rc_same_def s1_def)
    let ?free = "if v \<noteq> 0 then 0 else free + 1"
    have e: "alloc_loop (Suc k) io ord nb free s = alloc_loop k io ord nb ?free s2"
      using True g rc_shift(1) [OF l] by (subst alloc_loop.simps) (simp add: Let_def rs_set_def s1_def)
    have pr: "unat (rf_free_cluster_index (rs_rf s2)) + k < 2 ^ (64 - n)" "unat ?free \<le> unat (rf_free_cluster_index (rs_rf s2))" "?free \<le> nb"
      using Suc.prems(2,3) f2 fi1 fr1 fb by (simp_all add: word_le_nat_alt)
    have z: "\<forall>c. unat (rf_free_cluster_index (rs_rf s2)) - unat ?free \<le> c \<and> c < unat (rf_free_cluster_index (rs_rf s2)) \<longrightarrow> count n s2 c = 0"
      using Suc.prems(5) f2 fi1 fr1 k2(3) c2 by (auto simp: less_Suc_eq)
    have v0: "v = 0" if "?top \<le> unat ?fi" using count_beyond that k2(3) by simp
    have fuel: "let fi = unat (rf_free_cluster_index (rs_rf s2)); top = length (rf_table (rs_rf s2)) * 2 ^ (n - 1)
        in (if fi < top then top - fi + unat nb else unat nb - unat ?free) \<le> k"
      using Suc.prems(6) f2 fi1 fr1 v0 by (cases "unat ?fi < ?top") (auto simp: Let_def)
    have first: "unat (rf_free_cluster_index (rs_rf s2)) - unat ?free \<le> c"
      if c: "unat ?fi - unat free \<le> c" "\<forall>x. c \<le> x \<and> x < c + unat nb \<longrightarrow> count n s x = 0" for c
    proof -
      have "\<not> c \<le> unat ?fi" if "v \<noteq> 0"
      proof
        assume "c \<le> unat ?fi"
        moreover have "unat ?fi < c + unat nb" using c(1) fb by linarith
        ultimately show False using c(2) that k2(3) by auto
      qed
      then show ?thesis using c(1) f2(1) fi1 fr1 by auto
    qed
    from Suc.IH [OF k2(1) pr z fuel] obtain s' where
      ih: "alloc_loop k io ord nb ?free s2 = (Inr (), s')" "rc_ok n s'" "rc_kept (rs_rf s2) (rs_rf s')" "rs_header s' = rs_header s2" "count n s' = count n s2"
        "unat nb \<le> unat (rf_free_cluster_index (rs_rf s'))" "unat (rf_free_cluster_index (rs_rf s')) < 2 ^ (64 - n)"
        "\<forall>c. unat (rf_free_cluster_index (rs_rf s')) - unat nb \<le> c \<and> c < unat (rf_free_cluster_index (rs_rf s')) \<longrightarrow> count n s2 c = 0"
        "\<forall>c. unat (rf_free_cluster_index (rs_rf s2)) - unat ?free \<le> c \<and> (\<forall>x. c \<le> x \<and> x < c + unat nb \<longrightarrow> count n s2 x = 0) \<longrightarrow>
          unat (rf_free_cluster_index (rs_rf s')) - unat nb \<le> c" by blast
    note ih = ih [unfolded c2]
    have "alloc_loop (Suc k) io ord nb free s = (Inr (), s')" "rc_kept (rs_rf s) (rs_rf s')" "rs_header s' = rs_header s"
      using e ih(1,4) f2(4) rc_kept_trans [OF f2(3) ih(3)] by simp_all
    moreover have "\<forall>c. unat ?fi - unat free \<le> c \<and> (\<forall>x. c \<le> x \<and> x < c + unat nb \<longrightarrow> count n s x = 0) \<longrightarrow> unat (rf_free_cluster_index (rs_rf s')) - unat nb \<le> c"
      using ih(9) first by blast
    ultimately show ?thesis using ih(2,5-8) by blast
  qed
qed

section \<open>Discarded ranges\<close>

definition in_task :: "discard_task \<Rightarrow> u64 \<Rightarrow> bool" where
  "in_task t a \<longleftrightarrow> unat (a - dt_offset t) < unat (dt_nbytes t)"

text \<open>A discard changes the bytes of its range only, and the queued ranges have no byte of a refcount block.\<close>

definition discards_only :: "(discard_task \<Rightarrow> memory \<Rightarrow> memory) \<Rightarrow> bool" where
  "discards_only disc \<longleftrightarrow> (\<forall>t d a. \<not> in_task t a \<longrightarrow> disc t d a = d a)"

definition clear_of_blocks :: "nat \<Rightarrow> u64 list \<Rightarrow> discard_task list \<Rightarrow> bool" where
  "clear_of_blocks n T ts \<longleftrightarrow> (\<forall>t \<in> set ts. \<forall>r < length T. T ! r \<noteq> 0 \<longrightarrow> (\<forall>p < 2 ^ n. \<not> in_task t (T ! r + of_nat p)))"

lemma fold_discards: "discards_only disc \<Longrightarrow> \<forall>t \<in> set ts. \<not> in_task t a \<Longrightarrow> fold disc ts d a = d a"
  by (induction ts arbitrary: d) (simp_all add: discards_only_def)

lemma rc_ok_disk:
  assumes s: "rc_ok n s" and d: "\<And>r p. r < length (rf_table (rs_rf s)) \<Longrightarrow> rf_table (rs_rf s) ! r \<noteq> 0 \<Longrightarrow> p < 2 ^ n \<Longrightarrow>
    d (rf_table (rs_rf s) ! r + of_nat p) = rs_disk s (rf_table (rs_rf s) ! r + of_nat p)"
  shows "rc_ok n (s\<lparr>rs_disk := d\<rparr>)" "rc_same n s (s\<lparr>rs_disk := d\<rparr>)"
proof -
  let ?s = "s\<lparr>rs_disk := d\<rparr>" and ?T = "rf_table (rs_rf s)" and ?m = "qc_map (rs_cache s)"
  have b: "blocks_ok (2 ^ n) ?T ?m (qc_dirty_tables (rs_cache s)) (rs_tabs s) (rs_next s) (rs_disk s)" using s by (simp add: rc_ok_def)
  have "block_ok (2 ^ n) ?T (rs_tabs s) (rs_next s) d (k, i)" if "(k, i) \<in> set ?m" for k i
    using blocks_okD(3) [OF b that] blocks_okD(4) [OF b that] d by (simp add: block_ok_def)
  then have "blocks_ok (2 ^ n) ?T ?m (qc_dirty_tables (rs_cache s)) (rs_tabs s) (rs_next s) d" using b unfolding blocks_ok_def by fast
  then show "rc_ok n ?s" using s by (simp add: rc_ok_def rs_cache_def)
  have "same_blocks (2 ^ n) ?T (rc_view s) (rc_view ?s)" using d by (auto simp: same_blocks_def rc_view_def blk_view_def rs_cache_def split: option.split)
  then show "rc_same n s ?s" by (auto simp: rc_same_def intro!: exI [of _ "rf_cache (rs_rf s)"])
qed

lemma discards_keep:
  assumes s: "rc_ok n s" and disc: "discards_only disc" "clear_of_blocks n (rf_table (rs_rf s)) (rf_discard_list (rs_rf s))"
  defines "s' \<equiv> sync_process_discards disc s"
  shows "rc_ok n s'" "count n s' = count n s" "rc_kept (rs_rf s) (rs_rf s')" "rf_free_cluster_index (rs_rf s') = rf_free_cluster_index (rs_rf s)" "rs_header s' = rs_header s"
proof -
  let ?rf = "(rs_rf s)\<lparr>rf_discard_list := []\<rparr>"
  have "rf_cache ?rf = rs_cache s" by (simp add: rs_cache_def)
  note o1 = rc_ok_rf [OF rc_kept_upd(3) this, of n]
  have s': "s' = (s\<lparr>rs_rf := ?rf\<rparr>)\<lparr>rs_disk := fold disc (rf_discard_list (rs_rf s)) (rs_disk s)\<rparr>" by (simp add: s'_def sync_process_discards_def rs_set_def)
  have ok1: "rc_ok n (s\<lparr>rs_rf := ?rf\<rparr>)" using o1(1) s by simp
  have "fold disc (rf_discard_list (rs_rf s)) (rs_disk s) (rf_table (rs_rf s) ! r + of_nat p) = rs_disk s (rf_table (rs_rf s) ! r + of_nat p)"
    if "r < length (rf_table (rs_rf s))" "rf_table (rs_rf s) ! r \<noteq> 0" "p < 2 ^ n" for r p
    using that disc(2) by (intro fold_discards [OF disc(1)]) (simp add: clear_of_blocks_def)
  then have d: "rc_ok n s'" "rc_same n (s\<lparr>rs_rf := ?rf\<rparr>) s'" using rc_ok_disk [OF ok1] unfolding s' by simp_all
  show "rc_ok n s'" by (rule d(1))
  have "rc_layout n (rs_rf (s\<lparr>rs_rf := ?rf\<rparr>))" using ok1 by (simp add: rc_ok_def)
  from same_count [OF this d(2)] show "count n s' = count n s" using o1(2) by (intro ext) simp
  show "rc_kept (rs_rf s) (rs_rf s')" "rf_free_cluster_index (rs_rf s') = rf_free_cluster_index (rs_rf s)" "rs_header s' = rs_header s" by (simp_all add: s')
qed

section \<open>Allocation\<close>

lemma ceil_div: "0 < m \<Longrightarrow> (x + m - 1) div m = (if x mod m = 0 then x div m else x div m + 1)" for x m :: nat
proof (cases "x mod m = 0")
  case True
  assume "0 < m"
  then obtain k where "x = m * k" using True by auto
  then have "x + m - 1 = (m - 1) + m * k" using \<open>0 < m\<close> by simp
  then have "(x + m - 1) div m = ((m - 1) + m * k) div m" by (rule arg_cong)
  also have "\<dots> = k" using \<open>0 < m\<close> by (subst div_mult_self2) simp_all
  finally show ?thesis using True \<open>x = m * k\<close> \<open>0 < m\<close> by simp
next
  case False
  assume m: "0 < m"
  have "x = m * (x div m) + x mod m" by simp
  then have "x + m - 1 = (x mod m - 1) + m * (x div m + 1)" using False unfolding add_mult_distrib2 mult_1_right by linarith
  then have "(x + m - 1) div m = ((x mod m - 1) + m * (x div m + 1)) div m" by (rule arg_cong)
  also have "\<dots> = x div m + 1" using m by (subst div_mult_self2) (auto simp: less_imp_diff_less)
  finally show ?thesis using False by simp
qed

lemma bytes_to_clusters_ceil:
  assumes "9 \<le> n" "n < 64"
  shows "\<exists>nb. bytes_to_clusters sz (2 ^ n) = Inr nb \<and> unat nb = (unat sz + 2 ^ n - 1) div 2 ^ n"
proof -
  have u: "unat (2 ^ n :: u64) = 2 ^ n" by (rule unat_pow2 [OF assms(2)])
  have z: "(2 ^ n :: u64) \<noteq> 0" using assms(2) by simp
  have "unat sz div 2 ^ n \<le> unat sz div 2" by (rule div_le_mono2) (use assms(1) in \<open>simp_all add: self_le_power\<close>)
  moreover have "unat sz div 2 < 2 ^ 63" using less_mult_imp_div_less [of "unat sz" "2 ^ 63" 2] unat_lt_64 [of sz] by simp
  ultimately have "unat (sz div 2 ^ n) + 1 < 2 ^ 64" using u by (simp add: unat_div)
  then have "unat (sz div 2 ^ n + 1) = unat sz div 2 ^ n + 1" using u by (subst unat_add_eq) (simp_all add: unat_div)
  then have "unat (if sz mod 2 ^ n = 0 then sz div 2 ^ n else sz div 2 ^ n + 1) = (unat sz + 2 ^ n - 1) div 2 ^ n"
    using u by (subst ceil_div) (simp_all add: unat_div unat_mod word_unat_eq_iff)
  moreover have "bytes_to_clusters sz (2 ^ n) = Inr (if sz mod 2 ^ n = 0 then sz div 2 ^ n else sz div 2 ^ n + 1)"
    using z by (simp add: bytes_to_clusters_def div_round_up_def checked_div_def)
  ultimately show ?thesis by blast
qed

lemma alloc_noref_spec:
  assumes s: "rc_ok n s" and ord: "\<And>m. set (ord m) = set m" and io: "io = (\<lambda>_ _. None)"
    and disc: "discards_only disc" "clear_of_blocks n (rf_table (rs_rf s)) (rf_discard_list (rs_rf s))"
    and fit: "unat (rf_free_cluster_index (rs_rf s)) + length (rf_table (rs_rf s)) * 2 ^ (n - 1) + nb < 2 ^ (64 - n)" and nb: "nb = (unat sz + 2 ^ n - 1) div 2 ^ n"
  shows "\<exists>off s'. alloc_clusters_with_noref io ord disc sz s = (Inr off, s') \<and> rc_ok n s' \<and> rc_kept (rs_rf s) (rs_rf s') \<and> rs_header s' = rs_header s \<and>
    count n s' = count n s \<and> unat off mod 2 ^ n = 0 \<and> unat off div 2 ^ n + nb < 2 ^ (64 - n) \<and>
    (\<forall>c. unat off div 2 ^ n \<le> c \<and> c < unat off div 2 ^ n + nb \<longrightarrow> count n s c = 0) \<and>
    (\<forall>c. unat (rf_free_cluster_index (rs_rf s)) \<le> c \<and> (\<forall>x. c \<le> x \<and> x < c + nb \<longrightarrow> count n s x = 0) \<longrightarrow> unat off div 2 ^ n \<le> c)"
proof -
  define s1 where "s1 = (if rf_discard_list (rs_rf s) \<noteq> [] then sync_process_discards disc s else s)"
  have 1: "rc_ok n s1" "count n s1 = count n s" "rc_kept (rs_rf s) (rs_rf s1)" "rf_free_cluster_index (rs_rf s1) = rf_free_cluster_index (rs_rf s)" "rs_header s1 = rs_header s"
    using discards_keep [OF s disc] s by (auto simp: s1_def)
  have l: "rc_layout n (rs_rf s1)" and T: "rf_table (rs_rf s1) = rf_table (rs_rf s)" using 1(1) rc_kept_simps(1) [OF 1(3)] by (auto simp: rc_ok_def)
  have n: "9 \<le> n" "n < 64" "rf_cluster_size (rs_rf s1) = 2 ^ n" using l by (auto simp: rc_layout_def)
  obtain w where w: "bytes_to_clusters sz (2 ^ n) = Inr w" "unat w = nb" using bytes_to_clusters_ceil [OF n(1,2)] nb by blast
  have fuel: "alloc_fuel (rs_rf s1) w = length (rf_table (rs_rf s)) * 2 ^ (n - 1) + nb"
  proof -
    have "unat (rf_blk_size (rs_rf s1)) < 2 ^ 64" using unsigned_less [of "rf_blk_size (rs_rf s1)", where 'a = nat] by simp
    then have "unat (rf_blk_size (rs_rf s1)) = 2 ^ (n - 1)" using rc_shift(3) [OF l] by (simp add: unsigned_ucast_eq take_bit_nat_eq_self)
    then show ?thesis using l w(2) T by (simp add: alloc_fuel_def rc_layout_def)
  qed
  let ?k = "alloc_fuel (rs_rf s1) w"
  have pr: "unat (rf_free_cluster_index (rs_rf s1)) + ?k < 2 ^ (64 - n)" using fit fuel 1(4) by simp
  have fl: "let fi = unat (rf_free_cluster_index (rs_rf s1)); top = length (rf_table (rs_rf s1)) * 2 ^ (n - 1) in (if fi < top then top - fi + unat w else unat w - unat (0 :: u64)) \<le> ?k"
    using fuel T w(2) by (simp add: Let_def)
  have z: "\<forall>c. unat (rf_free_cluster_index (rs_rf s1)) - unat (0 :: u64) \<le> c \<and> c < unat (rf_free_cluster_index (rs_rf s1)) \<longrightarrow> count n s1 c = 0" by auto
  have "unat (0 :: u64) \<le> unat (rf_free_cluster_index (rs_rf s1))" "0 \<le> w" by simp_all
  from alloc_loop_spec [where ord = ord, OF ord io 1(1) pr this z fl] obtain s2 where
    lp: "alloc_loop ?k io ord w 0 s1 = (Inr (), s2)" "rc_ok n s2" "rc_kept (rs_rf s1) (rs_rf s2)" "rs_header s2 = rs_header s1" "count n s2 = count n s1"
      "nb \<le> unat (rf_free_cluster_index (rs_rf s2))" "unat (rf_free_cluster_index (rs_rf s2)) < 2 ^ (64 - n)"
      "\<forall>c. unat (rf_free_cluster_index (rs_rf s2)) - nb \<le> c \<and> c < unat (rf_free_cluster_index (rs_rf s2)) \<longrightarrow> count n s1 c = 0"
      "\<forall>c. unat (rf_free_cluster_index (rs_rf s1)) - unat (0 :: u64) \<le> c \<and> (\<forall>x. c \<le> x \<and> x < c + nb \<longrightarrow> count n s1 x = 0) \<longrightarrow>
        unat (rf_free_cluster_index (rs_rf s2)) - nb \<le> c" unfolding w(2) by (elim exE conjE) assumption
  let ?f = "rf_free_cluster_index (rs_rf s2) - w"
  have f: "unat ?f = unat (rf_free_cluster_index (rs_rf s2)) - nb" using lp(6) w(2) by (simp add: unat_sub_if')
  then have off: "unat (shl ?f n) = unat ?f * 2 ^ n" using lp(7) by (intro unat_shl [OF n(2)]) linarith
  have run: "alloc_clusters_with_noref io ord disc sz s = (Inr (shl ?f n), s2)"
    using w(1) lp(1) n(3) rc_shift(1) [OF l] rc_kept_simps(7) [OF lp(3)] by (simp add: alloc_clusters_with_noref_def Let_def s1_def [symmetric])
  show ?thesis using run lp 1 off f w(2) rc_kept_trans [OF 1(3) lp(3)] by (intro exI [of _ "shl ?f n"] exI [of _ s2]) simp
qed

text \<open>
  C12. An allocation returns free clusters. When the file can be accessed the search always ends, the offset
  it returns is that of a cluster, none of the clusters of the range was in use, it is the first such range
  behind the index where the search begins, and no count changes, whatever discards were carried out first.
\<close>

theorem alloc_clusters_free:
  assumes "rc_ok n s" and "\<And>m. set (ord m) = set m" and "discards_only disc" and "clear_of_blocks n (rf_table (rs_rf s)) (rf_discard_list (rs_rf s))"
    and "unat (rf_free_cluster_index (rs_rf s)) + length (rf_table (rs_rf s)) * 2 ^ (n - 1) + (unat sz + 2 ^ n - 1) div 2 ^ n < 2 ^ (64 - n)"
  shows "\<exists>off s'. alloc_clusters_with_noref (\<lambda>_ _. None) ord disc sz s = (Inr off, s') \<and> rc_ok n s' \<and> count n s' = count n s \<and> unat off mod 2 ^ n = 0 \<and>
    (\<forall>c. unat off div 2 ^ n \<le> c \<and> c < unat off div 2 ^ n + (unat sz + 2 ^ n - 1) div 2 ^ n \<longrightarrow> count n s c = 0) \<and>
    (\<forall>c. unat (rf_free_cluster_index (rs_rf s)) \<le> c \<and> (\<forall>x. c \<le> x \<and> x < c + (unat sz + 2 ^ n - 1) div 2 ^ n \<longrightarrow> count n s x = 0) \<longrightarrow> unat off div 2 ^ n \<le> c)"
  using alloc_noref_spec [OF assms(1,2) refl assms(3-5) refl] by (elim exE conjE) (intro exI conjI; assumption)

lemma ex_rc_alloc:
  "discards_only (\<lambda>_ d. d)" "clear_of_blocks 9 (rf_table (rs_rf ex_rc)) (rf_discard_list (rs_rf ex_rc))"
  "unat (rf_free_cluster_index (rs_rf ex_rc)) + length (rf_table (rs_rf ex_rc)) * 2 ^ (9 - 1) + (unat (1000 :: u64) + 2 ^ 9 - 1) div 2 ^ 9 < 2 ^ (64 - 9)"
  by (simp_all add: clear_of_blocks_def ex_rc_simps discards_only_def)

lemma ex_rc_first:
  assumes "\<forall>c. k \<le> c \<and> c < k + 2 \<longrightarrow> count 9 ex_rc c = 0" and "\<forall>c. (\<forall>x. c \<le> x \<and> x < c + 2 \<longrightarrow> count 9 ex_rc x = 0) \<longrightarrow> k \<le> c"
  shows "k = 5"
proof -
  have "x = 5 \<or> x = 6" if "5 \<le> x" "x < 7" for x :: nat using that by auto
  then have "k \<le> 5" using assms(2) [rule_format, of 5] ex_rc_count(6,7) by auto
  moreover have "k \<noteq> j" if "j < 5" for j
  proof -
    have "count 9 ex_rc j \<noteq> 0" using that ex_rc_count by (auto simp: less_Suc_eq numeral_eq_Suc)
    then show ?thesis using assms(1) by auto
  qed
  ultimately show ?thesis by (metis le_neq_implies_less)
qed

theorem alloc_clusters_free_witness:
  "\<exists>s'. alloc_clusters_with_noref (\<lambda>_ _. None) id (\<lambda>_ d. d) 1000 ex_rc = (Inr 2560, s') \<and> count 9 s' 4 = 1 \<and> count 9 s' 5 = 0"
proof -
  have ord: "set (id m) = set m" for m :: "(u64 \<times> tid) list" by simp
  obtain off s' where a: "alloc_clusters_with_noref (\<lambda>_ _. None) id (\<lambda>_ d. d) 1000 ex_rc = (Inr off, s')" "count 9 s' = count 9 ex_rc" "unat off mod 512 = 0"
    "\<forall>c. unat off div 512 \<le> c \<and> c < unat off div 512 + 2 \<longrightarrow> count 9 ex_rc c = 0"
    "\<forall>c. (\<forall>x. c \<le> x \<and> x < c + 2 \<longrightarrow> count 9 ex_rc x = 0) \<longrightarrow> unat off div 512 \<le> c"
    using alloc_clusters_free [where ord = id, OF ex_rc_ok ord ex_rc_alloc] by (auto simp: ex_rc_simps)
  have "unat off div 512 = 5" by (rule ex_rc_first [OF a(4,5)])
  then have "unat off = 2560" using a(3) div_mult_mod_eq [of "unat off" 512] by simp
  then have "off = 2560" by (simp add: word_unat_eq_iff)
  then show ?thesis using a(1,2) ex_rc_count by simp
qed

text \<open>When the blocks of a range are there, counting it as allocated needs no new block.\<close>

lemma missing_blocks_none:
  assumes l: "rc_layout n (rs_rf s)" and "\<forall>i \<in> set is. has_block n (rf_table (rs_rf s)) (unat i)"
  shows "missing_blocks alloc_block is s = (Inr (), s)"
  using assms(2)
proof (induction "is")
  case (Cons i xs)
  have "n - 1 < 64" using l by (auto simp: rc_layout_def)
  then have "unat (shr i (unat (rf_blk_bits (rs_rf s)))) = unat i div 2 ^ (n - 1)" using rc_shift(2) [OF l] by (simp add: unat_shr)
  then show ?case using Cons l by (simp add: has_block_def Let_def word_le_nat_alt rc_layout_def)
qed simp

lemma round_up_clusters:
  assumes n: "9 \<le> n" "n < 64" and off: "unat off mod 2 ^ n = 0" and nb: "nb = (unat sz + 2 ^ n - 1) div 2 ^ n" and fit: "unat off + nb * 2 ^ n < 2 ^ 64"
  shows "\<exists>e. round_up (off + sz) (2 ^ n) = Inr (Some e) \<and> unat e = unat off + nb * 2 ^ n"
proof -
  let ?m = "2 ^ n :: nat"
  have u: "unat (2 ^ n :: u64) = ?m" by (rule unat_pow2 [OF n(2)])
  have z: "(2 ^ n :: u64) \<noteq> 0" using n(2) by simp
  have c: "nb = (if unat sz mod ?m = 0 then unat sz div ?m else unat sz div ?m + 1)" using ceil_div [of ?m "unat sz"] nb by simp
  define q r where "q = unat sz div ?m" and "r = unat sz mod ?m"
  have d: "unat sz = q * ?m + r" "r < ?m" unfolding q_def r_def by (simp only: div_mult_mod_eq, simp)
  have c: "nb = (if r = 0 then q else q + 1)" using c by (simp add: q_def r_def)
  have le: "unat sz \<le> nb * ?m" using c d by simp
  have s: "unat (off + sz) = unat off + unat sz" using le fit by (subst unat_add_eq) simp_all
  have m: "unat ((off + sz) mod 2 ^ n) = r" using s u off by (simp add: r_def unat_mod mod_add_eq [symmetric, of "unat off"])
  show ?thesis
  proof (cases "r = 0")
    case True
    then have "(off + sz) mod 2 ^ n = 0" using m by (simp add: word_unat_eq_iff)
    then show ?thesis using z s True c d by (simp add: round_up_def Let_def)
  next
    case False
    have nz: "(off + sz) mod 2 ^ n \<noteq> 0" using m False by (auto simp: word_unat_eq_iff)
    have df: "unat (2 ^ n - (off + sz) mod 2 ^ n) = ?m - r" using m u d(2) by (simp add: unat_sub_if')
    have e: "unat off + unat sz + (?m - r) = unat off + nb * ?m" using c d False by simp
    have a: "checked_add (off + sz) (2 ^ n - (off + sz) mod 2 ^ n) = Some (off + sz + (2 ^ n - (off + sz) mod 2 ^ n))"
      using s df e fit by (simp add: checked_add_def)
    have "unat (off + sz + (2 ^ n - (off + sz) mod 2 ^ n)) = unat off + nb * ?m" using unat_checked_add [OF a] s df e by simp
    then show ?thesis using z nz a by (simp add: round_up_def Let_def)
  qed
qed

lemma update_alloc_spec:
  assumes s: "rc_ok n s" and ord: "\<And>m. set (ord m) = set m" and io: "io = (\<lambda>_ _. None)" and off: "unat off mod 2 ^ n = 0" and fit: "unat off div 2 ^ n + unat nb < 2 ^ 64"
    and blocks: "\<forall>c. unat off div 2 ^ n \<le> c \<and> c < unat off div 2 ^ n + unat nb \<longrightarrow> has_block n (rf_table (rs_rf s)) c \<and> count n s c = 0"
  shows "\<exists>s'. update_alloc_refcount alloc_block io ord off nb 1 False dt s = (Inr (), s') \<and> rc_ok n s' \<and>
    (\<forall>c. count n s' c = (if unat off div 2 ^ n \<le> c \<and> c < unat off div 2 ^ n + unat nb then 1 else count n s c))"
proof -
  let ?f = "unat off div 2 ^ n"
  have l: "rc_layout n (rs_rf s)" using s by (simp add: rc_ok_def)
  have n: "n < 64" "rf_cluster_size (rs_rf s) = 2 ^ n" using l by (auto simp: rc_layout_def)
  have u: "unat (2 ^ n :: u64) = 2 ^ n" by (rule unat_pow2 [OF n(1)])
  have "off mod 2 ^ n = 0" using off u by (simp add: word_unat_eq_iff unat_mod)
  then have st: "div_round_up off (rf_cluster_size (rs_rf s)) = Some (off div 2 ^ n)" using n by (simp add: div_round_up_def checked_div_def)
  have f: "unat (off div 2 ^ n) = ?f" using u by (simp add: unat_div)
  then have e: "unat (off div 2 ^ n + nb) = ?f + unat nb" using fit by (subst unat_add_eq) simp_all
  have "\<forall>i \<in> set (map of_nat [unat (off div 2 ^ n)..<unat (off div 2 ^ n + nb)]). has_block n (rf_table (rs_rf s)) (unat (i :: u64))"
    using blocks fit f e by (auto simp: unat_nat64)
  then have m: "missing_blocks alloc_block (map of_nat [unat (off div 2 ^ n)..<unat (off div 2 ^ n + nb)]) s = (Inr (), s)" by (rule missing_blocks_none [OF l])
  obtain r s' where up: "update_refcount io ord off nb 1 False dt s = (r, s')" by fastforce
  note sp = update_refcount_spec [OF s ord io fit _ up]
  have r: "r = Inr ()"
  proof (rule ccontr)
    assume "r \<noteq> Inr ()"
    then obtain c where "?f \<le> c" "c < ?f + unat nb" "\<not> (has_block n (rf_table (rs_rf s)) c \<and> 0 \<le> int (unat (count n s c)) + 1 \<and> int (unat (count n s c)) + 1 < 65536)"
      using sp off by auto
    then show False using blocks by auto
  qed
  have "count n s' c = (if ?f \<le> c \<and> c < ?f + unat nb then 1 else count n s c)" for c
  proof -
    have "int (unat (count n s' c)) = int (unat (count n s c)) + (if ?f \<le> c \<and> c < ?f + unat nb then 1 else 0)" using sp r by simp
    then show ?thesis using blocks by (auto simp: word_uint_eq_iff split: if_splits)
  qed
  then show ?thesis using up r m st sp by (simp add: update_alloc_refcount_def)
qed

text \<open>
  C10. An allocation with reference gives its caller clusters of its own. If there is room in the
  blocks that exist, it succeeds; each cluster of the range it returns was free before and has count 1 after,
  and every other count is as it was.
\<close>

theorem alloc_clusters_owned:
  assumes "rc_ok n s" and "\<And>m. set (ord m) = set m" and "discards_only disc" and "clear_of_blocks n (rf_table (rs_rf s)) (rf_discard_list (rs_rf s))"
    and "unat (rf_free_cluster_index (rs_rf s)) + length (rf_table (rs_rf s)) * 2 ^ (n - 1) + nb < 2 ^ (64 - n)" and nb: "nb = (unat sz + 2 ^ n - 1) div 2 ^ n" and sz: "sz \<noteq> 0"
    and room: "unat (rf_free_cluster_index (rs_rf s)) \<le> c0" "\<forall>x. c0 \<le> x \<and> x < c0 + nb \<longrightarrow> count n s x = 0" "c0 + nb < length (rf_table (rs_rf s)) * 2 ^ (n - 1)"
      "\<forall>x < c0 + nb. has_block n (rf_table (rs_rf s)) x"
  shows "\<exists>off s'. alloc_clusters_with_ref (\<lambda>_ _. None) ord disc sz s = (Inr off, s') \<and> rc_ok n s' \<and>
    (\<forall>c. if unat off div 2 ^ n \<le> c \<and> c < unat off div 2 ^ n + nb then count n s c = 0 \<and> count n s' c = 1 else count n s' c = count n s c)"
proof -
  obtain off s1 where a: "alloc_clusters_with_noref (\<lambda>_ _. None) ord disc sz s = (Inr off, s1)" "rc_ok n s1" "rc_kept (rs_rf s) (rs_rf s1)"
    "count n s1 = count n s" "unat off mod 2 ^ n = 0" "unat off div 2 ^ n + nb < 2 ^ (64 - n)" "\<forall>c. unat off div 2 ^ n \<le> c \<and> c < unat off div 2 ^ n + nb \<longrightarrow> count n s c = 0"
    "\<forall>c. unat (rf_free_cluster_index (rs_rf s)) \<le> c \<and> (\<forall>x. c \<le> x \<and> x < c + nb \<longrightarrow> count n s x = 0) \<longrightarrow> unat off div 2 ^ n \<le> c"
    using alloc_noref_spec [OF assms(1,2) refl assms(3-6)] by (elim exE conjE) assumption
  have "unat off div 2 ^ n \<le> c0" using a(8) room(1,2) by blast
  then have fit: "unat off div 2 ^ n + nb < length (rf_table (rs_rf s)) * 2 ^ (n - 1)"
    and blocks: "\<forall>c. unat off div 2 ^ n \<le> c \<and> c < unat off div 2 ^ n + nb \<longrightarrow> has_block n (rf_table (rs_rf s)) c" using room(3,4) by auto
  have l: "rc_layout n (rs_rf s1)" and T: "rf_table (rs_rf s1) = rf_table (rs_rf s)" using a(2) rc_kept_simps(1) [OF a(3)] by (auto simp: rc_ok_def)
  have n: "9 \<le> n" "n \<le> 21" "n < 64" "rf_cluster_size (rs_rf s1) = 2 ^ n" using l by (auto simp: rc_layout_def)
  have d: "unat off = unat off div 2 ^ n * 2 ^ n" using a(5) by (metis add.right_neutral div_mult_mod_eq)
  have "(unat off div 2 ^ n + nb) * 2 ^ n < 2 ^ (64 - n) * 2 ^ n" using a(6) by simp
  also have "\<dots> = 2 ^ 64" using n(3) by (simp flip: power_add)
  finally have f64: "unat off + nb * 2 ^ n < 2 ^ 64" using d by (simp add: add_mult_distrib)
  obtain e where e: "round_up (off + sz) (2 ^ n) = Inr (Some e)" "unat e = unat off + nb * 2 ^ n" using round_up_clusters [OF n(1,3) a(5) nb f64] by blast
  have eo: "unat (e - off) = nb * 2 ^ n" using e(2) by (simp add: unat_sub_if')
  obtain w where w: "bytes_to_clusters (e - off) (2 ^ n) = Inr w" "unat w = (nb * 2 ^ n + 2 ^ n - 1) div 2 ^ n" using bytes_to_clusters_ceil [OF n(1,3), of "e - off"] eo by auto
  have wn: "unat w = nb" using w(2) by (subst (asm) ceil_div) simp_all
  have "unat (rf_cluster_bits (rs_rf s1) + rf_blk_bits (rs_rf s1)) = n + (n - 1)" using rc_shift(1,2) [OF l] n by (subst unat_add_eq) simp_all
  then have "unat (shr e (unat (rf_cluster_bits (rs_rf s1) + rf_blk_bits (rs_rf s1)))) = unat e div 2 ^ (n + (n - 1))" using n by (simp add: unat_shr)
  also have "\<dots> = (unat off div 2 ^ n + nb) div 2 ^ (n - 1)"
  proof -
    have "unat e = (unat off div 2 ^ n + nb) * 2 ^ n" using e(2) d by (simp add: add_mult_distrib)
    then have "unat e div 2 ^ n = unat off div 2 ^ n + nb" by simp
    then show ?thesis by (simp add: power_add div_mult2_eq)
  qed
  also have "\<dots> < length (rf_table (rs_rf s1))" using fit T by (simp add: div_less_iff_less_mult)
  finally have rt: "\<not> rf_table_size (rs_rf s1) \<le> shr e (unat (rf_cluster_bits (rs_rf s1) + rf_blk_bits (rs_rf s1)))" using l by (simp add: word_le_nat_alt rc_layout_def)
  have "(2 :: nat) ^ (64 - n) \<le> 2 ^ 64" by (rule power_increasing) simp_all
  then have f2: "unat off div 2 ^ n + unat w < 2 ^ 64" using a(6) wn by linarith
  have b2: "\<forall>c. unat off div 2 ^ n \<le> c \<and> c < unat off div 2 ^ n + unat w \<longrightarrow> has_block n (rf_table (rs_rf s1)) c \<and> count n s1 c = 0"
    using blocks a(4,7) wn T by simp
  obtain s2 where up: "update_alloc_refcount (alloc_refcount_block (length (rf_table (rs_rf s1))) (\<lambda>_ _. None) ord disc) (\<lambda>_ _. None) ord off w 1 False Never s1 = (Inr (), s2)"
      "rc_ok n s2" "\<forall>c. count n s2 c = (if unat off div 2 ^ n \<le> c \<and> c < unat off div 2 ^ n + unat w then 1 else count n s1 c)"
    using update_alloc_spec [OF a(2) assms(2) refl a(5) f2 b2] by blast
  have "alloc_clusters_with_ref (\<lambda>_ _. None) ord disc sz s = (Inr off, s2)" using sz a(1) e(1) w(1) rt up(1) n(4) by (simp add: alloc_clusters_with_ref_def Let_def)
  moreover have "if unat off div 2 ^ n \<le> c \<and> c < unat off div 2 ^ n + nb then count n s c = 0 \<and> count n s2 c = 1 else count n s2 c = count n s c" for c
    using up(3) a(4,7) wn by simp
  ultimately show ?thesis using up(2) by blast
qed

theorem alloc_clusters_owned_witness:
  "\<exists>off s'. alloc_clusters_with_ref (\<lambda>_ _. None) id (\<lambda>_ d. d) 1000 ex_rc = (Inr off, s') \<and> count 9 ex_rc (unat off div 512) = 0 \<and> count 9 s' (unat off div 512) = 1"
proof -
  have ord: "set (id m) = set m" for m :: "(u64 \<times> tid) list" by simp
  have "x = 5 \<or> x = 6" if "5 \<le> x" "x < 7" for x :: nat using that by auto
  then have room: "unat (rf_free_cluster_index (rs_rf ex_rc)) \<le> 5" "\<forall>x. 5 \<le> x \<and> x < 5 + (unat (1000 :: u64) + 2 ^ 9 - 1) div 2 ^ 9 \<longrightarrow> count 9 ex_rc x = 0"
    "5 + (unat (1000 :: u64) + 2 ^ 9 - 1) div 2 ^ 9 < length (rf_table (rs_rf ex_rc)) * 2 ^ (9 - 1)"
    "\<forall>x < 5 + (unat (1000 :: u64) + 2 ^ 9 - 1) div 2 ^ 9. has_block 9 (rf_table (rs_rf ex_rc)) x"
    using ex_rc_count(6,7) by (auto simp: ex_rc_simps has_block_def)
  have "(1000 :: u64) \<noteq> 0" by simp
  from alloc_clusters_owned [where ord = id, OF ex_rc_ok ord ex_rc_alloc refl this room] obtain off s' where
    a: "alloc_clusters_with_ref (\<lambda>_ _. None) id (\<lambda>_ d. d) 1000 ex_rc = (Inr off, s')"
      "\<forall>c. if unat off div 2 ^ 9 \<le> c \<and> c < unat off div 2 ^ 9 + (unat (1000 :: u64) + 2 ^ 9 - 1) div 2 ^ 9
        then count 9 ex_rc c = 0 \<and> count 9 s' c = 1 else count 9 s' c = count 9 ex_rc c" by blast
  then show ?thesis using spec [OF a(2), of "unat off div 512"] by auto
qed

section \<open>A failed update\<close>

lemma get_entry16:
  assumes s: "rc_ok n s" and k: "map_of (qc_map (rs_cache s)) k = Some i" and j: "unat idx < 2 ^ (n - 1)"
  shows "\<exists>v :: u64. get_entry_map idx (rs_tabs s i) = Inr v \<and> (ucast v :: u16) = count n s (unat k * 2 ^ (n - 1) + unat idx)"
  using count_cached(2,3) [OF s k j] by auto



end
