(* ===== verification/Qcow2Metadata.thy ===== *)
theory Qcow2Metadata
  imports Qcow2Alloc
begin

text \<open>
  The size of a grown table of reference counts (\<open>refcount_metadata_size\<close>): the blocks must also count
  the clusters of the new table and of the blocks themselves, so that the sizes are a fixed point.
\<close>

section \<open>Quotients rounded up\<close>

definition cdiv :: "nat \<Rightarrow> nat \<Rightarrow> nat" where
  "cdiv x m = (x + m - 1) div m"

lemma cdiv_mono: "x \<le> y \<Longrightarrow> cdiv x m \<le> cdiv y m"
  unfolding cdiv_def by (intro div_le_mono) simp

lemma cdiv_ge: "0 < m \<Longrightarrow> x \<le> cdiv x m * m"
proof -
  assume m: "0 < m"
  define q r where "q = x div m" and "r = x mod m"
  have x: "x = q * m + r" "r < m" unfolding q_def r_def using m by (simp only: div_mult_mod_eq, simp)
  have "cdiv x m = (if r = 0 then q else q + 1)" using ceil_div [OF m, of x] by (simp only: cdiv_def q_def r_def)
  then show ?thesis using x by auto
qed

lemma cdiv_le:
  assumes "0 < k" and "k \<le> m"
  shows "cdiv x m \<le> x div k + 1"
proof -
  have "x div m \<le> x div k" using assms by (intro div_le_mono2) simp_all
  then show ?thesis using ceil_div [of m x] assms by (simp add: cdiv_def)
qed

lemma cdiv_0 [simp]: "cdiv 0 m = 0"
  by (cases m) (simp_all add: cdiv_def)

lemma div_round_up_pow2:
  assumes "1 \<le> m" "m < 64"
  shows "\<exists>y. div_round_up x (2 ^ m) = Some y \<and> unat y = cdiv (unat x) (2 ^ m)"
proof -
  have u: "unat (2 ^ m :: u64) = 2 ^ m" by (rule unat_pow2 [OF assms(2)])
  have z: "(2 ^ m :: u64) \<noteq> 0" using assms(2) by simp
  have "unat x div 2 ^ m \<le> unat x div 2" by (rule div_le_mono2) (use assms(1) in \<open>simp_all add: self_le_power\<close>)
  moreover have "unat x div 2 < 2 ^ 63" using less_mult_imp_div_less [of "unat x" "2 ^ 63" 2] unat_lt_64 [of x] by simp
  ultimately have "unat (x div 2 ^ m) + 1 < 2 ^ 64" using u by (simp add: unat_div)
  then have "unat (x div 2 ^ m + 1) = unat x div 2 ^ m + 1" using u by (subst unat_add_eq) (simp_all add: unat_div)
  then have "unat (if x mod 2 ^ m = 0 then x div 2 ^ m else x div 2 ^ m + 1) = cdiv (unat x) (2 ^ m)"
    unfolding cdiv_def using u by (subst ceil_div) (simp_all add: unat_div unat_mod word_unat_eq_iff)
  moreover have "div_round_up x (2 ^ m) = Some (if x mod 2 ^ m = 0 then x div 2 ^ m else x div 2 ^ m + 1)"
    using z by (simp add: div_round_up_def checked_div_def)
  ultimately show ?thesis by blast
qed

section \<open>The loop\<close>

text \<open>The sizes grow from turn to turn and stay small beside the number of clusters.\<close>

definition sizes_ok :: "nat \<Rightarrow> nat \<Rightarrow> nat \<Rightarrow> nat \<Rightarrow> bool" where
  "sizes_ok n C t b \<longleftrightarrow> b \<le> cdiv (C + t + b) (2 ^ (n - 1)) \<and> t \<le> cdiv (cdiv (C + t + b) (2 ^ (n - 1))) (2 ^ (n - 3)) \<and> t \<le> b \<and> b \<le> C div 64 + 2"

lemma sizes_step:
  assumes n: "9 \<le> n" and s: "sizes_ok n C t b"
  defines "b' \<equiv> cdiv (C + t + b) (2 ^ (n - 1))"
  defines "t' \<equiv> cdiv b' (2 ^ (n - 3))"
  shows "sizes_ok n C t' b'" "t \<le> t'" "b \<le> b'"
proof -
  show m: "t \<le> t'" "b \<le> b'" using s by (simp_all add: sizes_ok_def b'_def t'_def)
  have R: "256 \<le> (2 :: nat) ^ (n - 1)" using power_increasing [of 8 "n - 1" "2 :: nat"] n by simp
  have E: "64 \<le> (2 :: nat) ^ (n - 3)" using power_increasing [of 6 "n - 3" "2 :: nat"] n by simp
  have g: "b' \<le> cdiv (C + t' + b') (2 ^ (n - 1))" unfolding b'_def using m by (intro cdiv_mono) (simp add: b'_def)
  then have "t' \<le> cdiv (cdiv (C + t' + b') (2 ^ (n - 1))) (2 ^ (n - 3))" unfolding t'_def by (rule cdiv_mono)
  moreover have "t' \<le> b'"
  proof (cases "b' = 0")
    case False
    have "t' \<le> b' div 64 + 1" unfolding t'_def using E by (intro cdiv_le) simp_all
    then show ?thesis using False by linarith
  qed (simp add: t'_def)
  moreover have "b' \<le> C div 64 + 2"
  proof -
    have "b' \<le> (C + t + b) div 256 + 1" unfolding b'_def using R by (intro cdiv_le) simp_all
    moreover have "t + b \<le> 2 * (C div 64 + 2)" using s by (simp add: sizes_ok_def)
    moreover have "C < 64 * q + 64" if "q = C div 64" for q using div_mult_mod_eq [of C 64] that by simp
    ultimately have "C + t + b < (q + 1) * 256" if "q = C div 64" for q using that by fastforce
    then have "C + t + b < (C div 64 + 1) * 256" by blast
    then have "(C + t + b) div 256 < C div 64 + 1" by (rule less_mult_imp_div_less)
    then show ?thesis using \<open>b' \<le> (C + t + b) div 256 + 1\<close> by linarith
  qed
  ultimately show "sizes_ok n C t' b'" using g by (simp add: sizes_ok_def)
qed

text \<open>What one turn computes, as natural numbers.\<close>

lemma metadata_turn:
  assumes n: "9 \<le> n" "n \<le> 21" and s: "sizes_ok n (unat cl) (unat t) (unat b)" and cl: "unat cl \<le> 2 ^ 51"
  shows "\<exists>b1 t1. div_round_up (cl + t + b) (2 ^ (n - 1)) = Some b1 \<and> div_round_up b1 (2 ^ (n - 3)) = Some t1 \<and>
    unat b1 = cdiv (unat cl + unat t + unat b) (2 ^ (n - 1)) \<and> unat t1 = cdiv (unat b1) (2 ^ (n - 3)) \<and> unat (t1 + b1 + cl) = unat t1 + unat b1 + unat cl"
proof -
  have "unat t + unat b \<le> 2 * (unat cl div 64 + 2)" using s by (simp add: sizes_ok_def)
  moreover have small: "unat cl div 64 \<le> 2 ^ 45" using div_le_mono [OF cl, of 64] by simp
  ultimately have sum: "unat cl + unat t + unat b < 2 ^ 52" using cl by simp
  have "unat (cl + t) = unat cl + unat t" using sum by (subst unat_add_eq) simp_all
  then have u: "unat (cl + t + b) = unat cl + unat t + unat b" using sum by (subst unat_add_eq) simp_all
  have m: "1 \<le> n - 1" "n - 1 < 64" "1 \<le> n - 3" "n - 3 < 64" using n by simp_all
  obtain b1 where b1: "div_round_up (cl + t + b) (2 ^ (n - 1)) = Some b1" "unat b1 = cdiv (unat cl + unat t + unat b) (2 ^ (n - 1))"
    using div_round_up_pow2 [of "n - 1" "cl + t + b", OF m(1,2)] unfolding u by blast
  obtain t1 where t1: "div_round_up b1 (2 ^ (n - 3)) = Some t1" "unat t1 = cdiv (unat b1) (2 ^ (n - 3))"
    using div_round_up_pow2 [of "n - 3" b1, OF m(3,4)] by blast
  have "sizes_ok n (unat cl) (unat t1) (unat b1)" using sizes_step(1) [OF n(1) s] b1(2) t1(2) by simp
  then have "unat t1 + unat b1 \<le> 2 * (unat cl div 64 + 2)" by (simp add: sizes_ok_def)
  then have sum1: "unat t1 + unat b1 + unat cl < 2 ^ 52" using small cl by simp
  have "unat (t1 + b1) = unat t1 + unat b1" using sum1 by (subst unat_add_eq) simp_all
  then have "unat (t1 + b1 + cl) = unat t1 + unat b1 + unat cl" using sum1 by (subst unat_add_eq) simp_all
  then show ?thesis using b1 t1 by blast
qed

text \<open>A fixed point: the blocks count all clusters, the table holds the addresses of all blocks.\<close>

definition covers :: "nat \<Rightarrow> nat \<Rightarrow> nat \<Rightarrow> nat \<Rightarrow> bool" where
  "covers n C t b \<longleftrightarrow> C + t + b \<le> b * 2 ^ (n - 1) \<and> b \<le> t * 2 ^ (n - 3)"

lemma stable_covers:
  assumes s: "sizes_ok n C t b" and n: "9 \<le> n" and e: "cdiv (C + t + b) (2 ^ (n - 1)) = b" "cdiv b (2 ^ (n - 3)) = t"
  shows "covers n C t b"
  using cdiv_ge [of "2 ^ (n - 1)" "C + t + b"] cdiv_ge [of "2 ^ (n - 3)" b] e by (simp add: covers_def)

lemma metadata_loop_stops:
  assumes n: "9 \<le> n" "n \<le> 21" and cl: "unat cl \<le> 2 ^ 51"
  shows "sizes_ok n (unat cl) (unat t) (unat b) \<Longrightarrow> unat prev = unat cl + unat t + unat b \<or> prev = 0 \<Longrightarrow>
    2 * (unat cl div 64 + 2) - (unat t + unat b) + (if prev = 0 then 2 else 1) + j \<le> k \<Longrightarrow>
    \<exists>t1 b1 k'. j \<le> k' \<and> sizes_ok n (unat cl) (unat t1) (unat b1) \<and> covers n (unat cl) (unat t1) (unat b1) \<and>
      unat (t1 + b1 + cl) = unat t1 + unat b1 + unat cl \<and>
      metadata_loop k (2 ^ (n - 3)) (2 ^ (n - 1)) res cl t b prev =
        (if res then case div_round_up t1 2 of None \<Rightarrow> Inl (EQPanic UnwrapNone) | Some r \<Rightarrow> metadata_loop k' (2 ^ (n - 3)) (2 ^ (n - 1)) False (cl + r) t1 b1 0
         else Inr (t1 + b1 + cl, b1))"
proof (induction k arbitrary: t b prev)
  case 0
  then show ?case by (simp split: if_splits)
next
  case (Suc k)
  obtain b1 t1 where tu: "div_round_up (cl + t + b) (2 ^ (n - 1)) = Some b1" "div_round_up b1 (2 ^ (n - 3)) = Some t1"
    "unat b1 = cdiv (unat cl + unat t + unat b) (2 ^ (n - 1))" "unat t1 = cdiv (unat b1) (2 ^ (n - 3))" "unat (t1 + b1 + cl) = unat t1 + unat b1 + unat cl"
    using metadata_turn [OF n Suc.prems(1) cl] by blast
  have st: "sizes_ok n (unat cl) (unat t1) (unat b1)" "unat t \<le> unat t1" "unat b \<le> unat b1" using sizes_step [OF n(1) Suc.prems(1)] tu(3,4) by simp_all
  show ?case
  proof (cases "t1 + b1 + cl = prev")
    case True
    have eq: "unat t1 = unat t \<and> unat b1 = unat b"
    proof (cases "unat prev = unat cl + unat t + unat b")
      case e: True
      then show ?thesis using True tu(5) st(2,3) by auto
    next
      case False
      then have "prev = 0" using Suc.prems(2) by blast
      then have "unat t1 + unat b1 + unat cl = 0" using True tu(5) by simp
      then show ?thesis using st(2,3) by simp
    qed
    have "covers n (unat cl) (unat t1) (unat b1)" using stable_covers [OF st(1) n(1)] tu(3,4) eq by simp
    moreover have "j \<le> k" using Suc.prems(3) by (auto split: if_splits)
    ultimately show ?thesis using st(1) tu(1,2,5) True by (intro exI [of "\<lambda>t1. \<exists>b1 k'. _ t1 b1 k'" t1], intro exI [of _ b1], intro exI [of _ k]) (simp add: Let_def split: option.split)
  next
    case False
    have nz: "t1 + b1 + cl \<noteq> 0"
    proof
      assume z: "t1 + b1 + cl = 0"
      then have "unat t1 + unat b1 + unat cl = 0" using tu(5) by simp
      then have "prev = 0" using Suc.prems(2) st(2,3) by (auto simp: word_unat_eq_iff)
      then show False using False z by simp
    qed
    have up: "prev = 0 \<or> unat t + unat b < unat t1 + unat b1"
    proof (rule disjCI)
      assume "\<not> unat t + unat b < unat t1 + unat b1"
      then have "unat t1 + unat b1 = unat t + unat b" using st(2,3) by linarith
      then have "unat prev \<noteq> unat cl + unat t + unat b" using False tu(5) by (auto simp: word_unat_eq_iff)
      then show "prev = 0" using Suc.prems(2) by blast
    qed
    have "unat t1 + unat b1 \<le> 2 * (unat cl div 64 + 2)" using st(1) by (simp add: sizes_ok_def)
    then have "2 * (unat cl div 64 + 2) - (unat t1 + unat b1) + (if t1 + b1 + cl = 0 then 2 else 1) + j \<le> k"
      using Suc.prems(3) nz up st(2,3) by (auto split: if_splits)
    from Suc.IH [OF st(1) _ this] tu(5) show ?thesis using tu(1,2) False by (simp add: Let_def add.commute add.left_commute)
  qed
qed

lemma sizes_more: "C \<le> C' \<Longrightarrow> sizes_ok n C t b \<Longrightarrow> sizes_ok n C' t b"
proof -
  assume le: "C \<le> C'" and s: "sizes_ok n C t b"
  have "cdiv (C + t + b) (2 ^ (n - 1)) \<le> cdiv (C' + t + b) (2 ^ (n - 1))" using le by (intro cdiv_mono) simp
  moreover from cdiv_mono [OF this] have "cdiv (cdiv (C + t + b) (2 ^ (n - 1))) (2 ^ (n - 3)) \<le> cdiv (cdiv (C' + t + b) (2 ^ (n - 1))) (2 ^ (n - 3))" .
  moreover have "C div 64 \<le> C' div 64" using le by (rule div_le_mono)
  ultimately show ?thesis using s unfolding sizes_ok_def by linarith
qed

text \<open>
  C24. The size computed for a grown table of reference counts covers itself. The computation ends, the
  blocks have a count for every cluster asked for and for the clusters of the new table and of the blocks, and the table has an
  entry for every block, with and without the reserve.
\<close>

theorem metadata_size_covers:
  assumes n: "9 \<le> n" "n \<le> 21" and nb: "unat nb_clusters \<le> 2 ^ 50"
  shows "\<exists>t b. refcount_metadata_size nb_clusters (2 ^ n) 4 is_reserve = Inr (t, b) \<and>
    unat nb_clusters + unat t + unat b \<le> unat b * 2 ^ (n - 1) \<and> unat b \<le> unat t * 2 ^ (n - 3)"
proof -
  let ?C = "unat nb_clusters" and ?E = "2 ^ (n - 3) :: u64" and ?R = "2 ^ (n - 1) :: u64"
  define j where "j = 2 * ((?C + (?C div 64 + 2)) div 64 + 2) + 2"
  have ent: "(2 ^ n :: u64) div ENTRY_SIZE = ?E" "(2 ^ n :: u64) * 8 div shl 1 (unat (4 :: u64)) = ?R"
  proof -
    have u: "unat (2 ^ n :: u64) = 2 ^ n" using n by (simp add: unat_pow2)
    have p: "(2 :: nat) ^ n \<le> 2 ^ 21" using n by (intro power_increasing) simp_all
    have "(2 :: nat) ^ n div 8 = 2 ^ (n - 3)" "(2 :: nat) ^ n * 8 div 16 = 2 ^ (n - 1)" using n power_diff [of "2 :: nat" 3 n] power_diff [of "2 :: nat" 1 n] by simp_all
    moreover have "unat (2 ^ n * 8 :: u64) = 2 ^ n * 8" using u p unat_mult_lem [of "2 ^ n :: u64" 8] by simp
    moreover have "unat ?E = 2 ^ (n - 3)" "unat ?R = 2 ^ (n - 1)" using n by (simp_all add: unat_pow2)
    ultimately show "(2 ^ n :: u64) div ENTRY_SIZE = ?E" "(2 ^ n :: u64) * 8 div shl 1 (unat (4 :: u64)) = ?R"
      using u by (simp_all add: entry_size_8 word_unat_eq_iff unat_div shl_def)
  qed
  have cl: "?C \<le> 2 ^ 51" using nb by simp
  have s0: "sizes_ok n ?C (unat (0 :: u64)) (unat (0 :: u64))" by (simp add: sizes_ok_def)
  have q: "?C div 64 \<le> ?C" "(?C + (?C div 64 + 2)) div 64 \<le> ?C + 1" using div_le_mono [of "?C + (?C div 64 + 2)" "(?C + 1) * 64" 64] by simp_all
  have fuel: "2 * (?C div 64 + 2) - (unat (0 :: u64) + unat (0 :: u64)) + (if (0 :: u64) = 0 then 2 else 1) + j \<le> 4 * ?C + 64" using q by (simp add: j_def)
  obtain t1 b1 k' where lp: "j \<le> k'" "sizes_ok n ?C (unat t1) (unat b1)" "covers n ?C (unat t1) (unat b1)" "unat (t1 + b1 + nb_clusters) = unat t1 + unat b1 + ?C"
    "metadata_loop (4 * ?C + 64) ?E ?R is_reserve nb_clusters 0 0 0 =
       (if is_reserve then case div_round_up t1 2 of None \<Rightarrow> Inl (EQPanic UnwrapNone) | Some r \<Rightarrow> metadata_loop k' ?E ?R False (nb_clusters + r) t1 b1 0
        else Inr (t1 + b1 + nb_clusters, b1))"
    using metadata_loop_stops [OF n cl s0 disjI2 [OF refl] fuel, of is_reserve] by blast
  have size: "refcount_metadata_size nb_clusters (2 ^ n) 4 is_reserve =
      and_then (metadata_loop (4 * ?C + 64) ?E ?R is_reserve nb_clusters 0 0 0) (\<lambda>(total_clusters, blocks). Inr (total_clusters - nb_clusters - blocks, blocks))"
    unfolding refcount_metadata_size_def ent by simp
  show ?thesis
  proof (cases is_reserve)
    case False
    then have "refcount_metadata_size nb_clusters (2 ^ n) 4 is_reserve = Inr (t1, b1)" unfolding size lp(5) by simp
    then show ?thesis using lp(3) by (simp add: covers_def)
  next
    case True
    obtain r where r: "div_round_up t1 2 = Some r" "unat r = cdiv (unat t1) 2" using div_round_up_pow2 [of 1 t1] by auto
    have "unat r \<le> unat t1"
    proof (cases "unat t1 = 0")
      case False
      then show ?thesis using cdiv_le [of 2 2 "unat t1"] r(2) by simp
    qed (simp add: r(2))
    moreover have tb: "unat t1 \<le> ?C div 64 + 2" using lp(2) by (simp add: sizes_ok_def)
    ultimately have rle: "unat r \<le> ?C div 64 + 2" by (rule le_trans)
    moreover have "?C div 64 \<le> 2 ^ 44" using div_le_mono [OF nb, of 64] by simp
    ultimately have sum: "?C + unat r \<le> 2 ^ 51" using nb by simp
    then have cr: "unat (nb_clusters + r) = ?C + unat r" by (subst unat_add_eq) simp_all
    have s1: "sizes_ok n (unat (nb_clusters + r)) (unat t1) (unat b1)" unfolding cr by (rule sizes_more [OF _ lp(2)]) simp
    have "(?C + unat r) div 64 \<le> (?C + (?C div 64 + 2)) div 64" using rle by (intro div_le_mono) simp
    then have f1: "2 * (unat (nb_clusters + r) div 64 + 2) - (unat t1 + unat b1) + (if (0 :: u64) = 0 then 2 else 1) + 0 \<le> k'"
      using lp(1) unfolding cr j_def by simp
    obtain t2 b2 where fp: "covers n (?C + unat r) (unat t2) (unat b2)" "unat (t2 + b2 + (nb_clusters + r)) = unat t2 + unat b2 + (?C + unat r)"
      "metadata_loop k' ?E ?R False (nb_clusters + r) t1 b1 0 = Inr (t2 + b2 + (nb_clusters + r), b2)"
      using metadata_loop_stops [OF n _ s1 disjI2 [OF refl] f1, of False] sum unfolding cr by auto
    have "t2 + b2 + (nb_clusters + r) - nb_clusters - b2 = t2 + r" by simp
    then have res: "refcount_metadata_size nb_clusters (2 ^ n) 4 is_reserve = Inr (t2 + r, b2)" unfolding size lp(5) using True r(1) fp(3) by simp
    have "unat t2 + unat r < 2 ^ 64" using fp(2) unat_lt_64 [of "t2 + b2 + (nb_clusters + r)"] by simp
    then have t2r: "unat (t2 + r) = unat t2 + unat r" by (simp add: unat_add_eq)
    then have "unat t2 * 2 ^ (n - 3) \<le> unat (t2 + r) * 2 ^ (n - 3)" by simp
    then have "?C + unat (t2 + r) + unat b2 \<le> unat b2 * 2 ^ (n - 1)" "unat b2 \<le> unat (t2 + r) * 2 ^ (n - 3)" using fp(1) t2r unfolding covers_def by linarith+
    then show ?thesis using res by blast
  qed
qed

theorem metadata_size_covers_witness:
  "\<exists>t b. refcount_metadata_size 100000 (2 ^ 16) 4 True = Inr (t, b) \<and> 100000 + unat t + unat b \<le> unat b * 32768 \<and> unat b \<le> unat t * 8192"
  using metadata_size_covers [of 16 100000 True] by simp

end
