(* ===== verification/Spec2Isabelle.thy ===== *)
theory Spec2Isabelle
  imports NumOps DirtySync FlatAccess KvmView VringConfig VringUsed PFlashRead LeakBucket
    MsixSafety PciCaps PciBarSafety AmlRoundtrip AmlResources Qcow2Virtual Qcow2Metadata
begin

text \<open>
  \<^bold>\<open>StratoVirt: a verification library\<close>

  StratoVirt is a virtual machine monitor on KVM. The guest sees a physical address space
  made of regions of RAM and of device registers; devices reach the guest's buffers through
  virtqueues in that RAM; KVM must map exactly the RAM the monitor thinks it maps; migration
  must send every page that was written. The development models these parts and proves them.

  \<^bold>\<open>The parts and their theories\<close>

  \<^item> \<open>Prelude\<close>: machine integers with the release profile's wrap-around, checked arithmetic,
    panics as values, little-endian bytes, the process's memory as a byte map, and the
    sequencing of fallible operations that change a state.
  \<^item> \<open>NumOps\<close>: util/src/num_ops.rs and util/src/checksum.rs.
  \<^item> \<open>Address\<close>: address_space/src/address.rs, guest addresses and address ranges.
  \<^item> \<open>Migration\<close>, \<open>DirtySync\<close>: the status machine of migration/src/protocol.rs, the dirty
    bitmaps of migration/src/migration.rs and their conversion to memory blocks.
  \<^item> \<open>Region\<close>, \<open>FlatView\<close>: address_space/src/region.rs, the tree of regions and its rendering
    into a sorted list of ranges; the access loops of address_space/src/address_space.rs.
  \<^item> \<open>FlatRender\<close>, \<open>FlatLookup\<close>, \<open>FlatAccess\<close>: the proofs about them. \<open>resolve\<close> says which
    region answers one address by walking the tree; the flat view is proved equivalent to
    it, the binary search in the view too, and reads return what was written.
  \<^item> \<open>AddressSpace\<close>, \<open>Topology\<close>: listeners and topology updates. The locale
    \<open>memory_listener\<close> states what a listener promises for one range; its client lemma says
    that a whole update keeps a listener's table equal to the view.
  \<^item> \<open>KvmListener\<close>, \<open>KvmSync\<close>, \<open>KvmKernel\<close>, \<open>KvmView\<close>: address_space/src/listener.rs, the KVM slot
    table. The KVM listener interprets \<open>memory_listener\<close>, once for its own table and once for the
    table inside KVM that its calls determine; the memory KVM maps follows the view.
  \<^item> \<open>AddressOps\<close>: host addresses, the region cache, address maps and object accesses of
    address_space/src/address_space.rs.
  \<^item> \<open>SplitVring\<close>: virtio/src/queue/split.rs and virtio/src/queue/mod.rs, the split virtqueue.
    \<open>VringExample\<close> is a concrete queue; \<open>VringSafety\<close>, \<open>VringRam\<close> and \<open>VringConfig\<close> prove that
    whatever the guest writes, the device is handed buffers in guest RAM only, reads guest
    RAM only, and that the validity check accepts exactly the well-placed queues.
  \<^item> \<open>VringQueue\<close>, \<open>VringUsed\<close>: the two rings as queues. The locale \<open>ring_consumer\<close> states what one
    pop does to the pending heads; popping again and again then hands them out in order. What
    returning an element writes, and when the guest is notified of it.
  \<^item> \<open>PFlash\<close>, \<open>PFlashSafety\<close>, \<open>PFlashRead\<close>: devices/src/legacy/pflash.rs, the flash that holds the
    firmware; containment over any run of guest accesses, programming and reading back, and
    that every read returns.
  \<^item> \<open>LeakBucket\<close>: util/src/leak_bucket.rs, the rate limiter, and the bound on what it admits.
  \<^item> \<open>Bitmap\<close>: util/src/bitmap.rs, proved against the set of its members.
  \<^item> \<open>IrqRoute\<close>: hypervisor/src/kvm/interrupt.rs, interrupt routes and numbers. The locale
    \<open>number_pool\<close> states what a pool of numbers promises; the bitmap provides it.
  \<^item> \<open>PciRegs\<close>, \<open>Intx\<close>, \<open>Msix\<close>, \<open>PciConfig\<close>: devices/src/pci, the registers of PCI devices, the shared
    interrupt lines, message-signalled interrupts, and the configuration space with its
    capabilities and base address registers (BARs).
  \<^item> \<open>MsixSafety\<close>, \<open>PciConfigSafety\<close>, \<open>PciCaps\<close>, \<open>PciBars\<close>, \<open>PciBarSafety\<close>: the proofs about them, over
    all sequences of guest accesses. The locale \<open>bar_tree\<close> states what mapping BARs needs of the
    tree of regions; the regions of the address space provide it.
  \<^item> \<open>Aml\<close>: acpi/src/aml_compiler.rs, the compiler of the ACPI machine language that describes the
    devices to the guest. \<open>AmlParse\<close> is a decoder written after the ACPI grammar; \<open>AmlRoundtrip\<close>
    proves that it reads back every object the compiler encodes, and \<open>AmlResources\<close> that the
    descriptors of a resource template are separated again by the lengths they state.
  \<^item> \<open>Qcow2Cache\<close>, \<open>Qcow2Header\<close>, \<open>Qcow2Table\<close>: block_backend/src/qcow2 (cache.rs, header.rs, table.rs and the
    metadata accesses of mod.rs), the two levels of tables that map a virtual disk to a qcow2 image file, and
    the cache that keeps the second level (L2) in memory and writes modified tables back.
  \<^item> \<open>Qcow2Coherence\<close>, \<open>Qcow2L2\<close>, \<open>Qcow2Open\<close>, \<open>Qcow2Types\<close>: the cache is transparent. \<open>coh\<close> relates the cache map, the
    list of modified tables and the file; every operation keeps it, so that runs of the driver agree with runs on
    plain tables, do not fail while the file does not, and leave the tables in the file at a flush. The shape of
    the cache also survives failures.
  \<^item> \<open>Qcow2Read\<close>, \<open>Qcow2Virtual\<close>: the vectored reads of block_backend/src/qcow2/mod.rs with the buffer vectors of
    util/src/aio/mod.rs. \<open>virtual_byte\<close> says which byte of the file the tables give for an offset of the disk; a read
    returns, and its requests fetch exactly these bytes.
  \<^item> \<open>Qcow2Refcount\<close>: block_backend/src/qcow2/refcount.rs, the reference counts of clusters, their cache of blocks, the list of
    ranges to discard, allocation and the growth of the table. \<open>Qcow2Counts\<close>, \<open>Qcow2Update\<close> and \<open>Qcow2Alloc\<close> prove that an update is all or
    nothing and reaches the file, and that an allocation finds free clusters and makes them its caller's. \<open>count\<close> is the
    count of a cluster as the driver sees it; \<open>rc_ok\<close> relates cache, file and table, and holds for an opened image
    whose table has aligned and distinct entries. \<open>Qcow2Metadata\<close> proves that the size computed for a grown table covers the
    table and its blocks too; the growth itself and new blocks are modelled without theorems of their own.

  \<^bold>\<open>How the code is represented\<close>

  Structures are records with the source's fields and enums are datatypes. A \<open>u8\<close> to \<open>u64\<close>
  is a word of its width, with the wrap-around of the release profile where the source uses
  plain operators and \<open>checked_add\<close> and its kin where the source checks. An operation that
  fails returns \<open>Inl\<close> with the root error, without the context strings; a panic is an error
  value too; an operation that changes state returns the state also when it fails. Regions
  refer to each other by identifiers in a store, as the source's reference-counted pointers do.

  The recursion over the region tree takes the height of the tree as fuel, because the
  source does not exclude cycles; \<open>tree_ok n\<close> says that height \<open>n\<close> is enough, and the theorems
  then give a result. The access loops take one turn per byte as fuel, which is enough as a
  turn that makes progress consumes a byte. The walk over a descriptor chain needs no fuel:
  its termination is proved.

  The decoder of the machine language takes the number of bytes as fuel: every term has at least one.

  The loops over an image take as fuel the bytes of a read (a turn advances by at least one), the clusters of a
  range (likewise), and for the search of free clusters the clusters that the table covers and those wanted, as all
  behind the table are free; the size of a grown table takes four turns per cluster and 64. The theorems say that this is enough. A new block may need another one, as often
  as the table has empty entries. \<open>ENoReturn\<close> stands for a loop that is not over then.

  The loops of the flash are \<open>while_option\<close>, whose value \<open>None\<close> is a loop that never ends.

  The image file is a byte map; which of its requests fail and what a failed write leaves, and the order in which a
  hash map is iterated, and what a discarded range becomes, are parameters.

  The results of KVM ioctls, the page size, the success of \<open>msync\<close>, the clock and the operations
  of devices are parameters.

  \<^bold>\<open>Not modelled\<close>

  Threads and locks (each operation runs to its end), memory barriers, logging, the host's
  file descriptors, the mapping of files, the migration socket, the device back ends, the
  snapshots, writes and checks of qcow2 images, the transports, the machines' wiring, the layout of the ACPI tables, the user interfaces and the tools.
\<close>

end
